(* ===== verification/Prelude.thy ===== *)
theory Prelude
  imports Main "HOL-Library.Word" "HOL-Library.Char_ord" "HOL-Library.List_Lexorder"
    "HOL-Library.Sublist"
begin

section \<open>Shared types, automation and generic lemmas\<close>

text \<open>
  What every component uses: the names of the machine types (Go's \<open>uint64\<close> is a 64-bit word,
  an \<open>int64\<close> the same word read with \<open>sint\<close>, a \<open>[]byte\<close> or \<open>string\<close> a list of 8-bit
  characters, a \<open>time.Time\<close> an integer number of nanoseconds), the error values, the theorem
  collections \<open>key_intros\<close> (key layout), \<open>view_simps\<close> (what a store operation does to the
  contents of the store) and \<open>hub_simps\<close> (frame facts of the grader hub), and the lemmas on
  lists, words and maps that more than one component needs.
\<close>

named_theorems key_intros \<open>disjointness and injectivity of the key layout\<close>
named_theorems view_simps \<open>effect of a store operation on the contents of the store\<close>
named_theorems hub_simps \<open>frame facts of the grader hub operations\<close>

type_synonym u64 = "64 word"
type_synonym i64 = "64 word"
type_synonym bytes = string
type_synonym time = int

subsection \<open>Errors\<close>

text \<open>
  gRPC status codes the services return (\<open>google.golang.org/grpc/codes\<close>) and the error values of
  the program: \<open>pebble.ErrNotFound\<close>, which callers compare against; any other error of a
  library, by its text; a gRPC status; a Go panic, which is not an error a caller may ignore; and
  a call that never returns.
\<close>

datatype code = InvalidArgument | NotFound | AlreadyExists | PermissionDenied | Unauthenticated
  | ResourceExhausted | FailedPrecondition | Internal | Unavailable | DeadlineExceeded

datatype error = ErrNotFound | ErrOther string | StatusErr code string | Panic | Diverges

abbreviation nanosecond_per_second :: int where
  "nanosecond_per_second \<equiv> 1000000000"

subsection \<open>Generic lemmas\<close>

lemma case_sum_Inr_iff: "case_sum Inl f x = Inr y \<longleftrightarrow> (\<exists>a. x = Inr a \<and> f a = Inr y)"
  by (cases x) auto

lemma less_append_same_length:
  fixes xs ys :: "'a::linorder list"
  assumes "length xs = length ys"
  shows "xs @ [a] < ys @ [b] \<longleftrightarrow> xs < ys \<or> xs = ys \<and> a < b"
  using assms by (induction xs ys rule: list_induct2) auto

lemma append_less_append_same_prefix [simp]:
  fixes p :: "'a::linorder list"
  shows "p @ xs < p @ ys \<longleftrightarrow> xs < ys"
  by (induction p) auto

lemma append_le_append_same_prefix [simp]:
  fixes p :: "'a::linorder list"
  shows "p @ xs \<le> p @ ys \<longleftrightarrow> xs \<le> ys"
  by (induction p) auto

lemma le_append [simp]:
  fixes p :: "'a::linorder list"
  shows "p \<le> p @ xs"
  by (induction p) auto

lemma unat_of_nat_u64: "n < 2 ^ 64 \<Longrightarrow> unat (of_nat n :: u64) = n"
  by (simp add: unsigned_of_nat take_bit_nat_eq_self)

lemma unat_u64_lt: "unat (x :: u64) < 2 ^ 64"
proof -
  have "unat x < 2 ^ LENGTH(64)" by (rule unsigned_less)
  then show ?thesis by simp
qed

lemma unat_u64_add: "unat a + unat b < 2 ^ 64 \<Longrightarrow> unat (a + b :: u64) = unat a + unat b"
  using unat_add_lem [of a b] by simp

lemma u64_less_Suc: "x + 1 \<noteq> 0 \<Longrightarrow> x < x + (1 :: u64)"
  by (metis add.commute lessI unatSuc word_less_nat_alt)

lemma distinct_map_filter_fst: "distinct (map fst xs) \<Longrightarrow> distinct (map fst (filter P xs))"
  by (induction xs) auto

end
