(* ===== verification/Messages.thy ===== *)
theory Messages
  imports Prelude
begin

section \<open>The stored messages: pkg/model/proto and pkg/grader/proto\<close>

text \<open>
  The protobuf messages the server stores or sends to graders, one record per message with those
  fields of the generated struct the code reads or writes (\<open>model.pb.go\<close>, \<open>grader.pb.go\<close>). A nil message pointer or
  timestamp is \<open>None\<close>; \<open>AsTime\<close> of a nil timestamp is the epoch. Enums are open in proto3, so the
  two enums that arrive from a client or a grader carry the unrecognised numbers too. The value of a
  leaderboard item (\<open>google.protobuf.Value\<close>) is only passed on and is kept as text; the \<open>cpu\<close> share
  of the assignment configuration (a float only Docker reads) is left out.
\<close>

definition AsTime :: "time option \<Rightarrow> time" where
  "AsTime t = (case t of None \<Rightarrow> 0 | Some x \<Rightarrow> x)"

lemma AsTime_simps [simp]: "AsTime None = 0" "AsTime (Some t) = t"
  by (simp_all add: AsTime_def)

datatype submission_status =
    SubmissionStatus_Queued | SubmissionStatus_Aborted | SubmissionStatus_Finished
  | SubmissionStatus_Cancelled | SubmissionStatus_Running | SubmissionStatus_Cancelling
  | SubmissionStatus_Failed | SubmissionStatus_Other int

datatype course_role = CourseRole_Student | CourseRole_TA | CourseRole_Instructor
  | CourseRole_Reader | CourseRole_Other int

datatype grader_status = GraderStatusMetadata_Offline | GraderStatusMetadata_Online
  | GraderStatusMetadata_Unknown

record user =
  User_Username :: string
  User_Password :: "bytes option"
  User_Email :: string
  User_GithubId :: string
  User_Nickname :: string
  User_StudentId :: string
  User_CreatedAt :: "time option"
  User_IsAdmin :: bool

record course_member =
  Member_UserId :: u64
  Member_Role :: course_role
  Member_CourseId :: u64

record course =
  Course_Name :: string
  Course_ShortName :: string
  Course_Term :: string
  Course_Description :: string
  Course_JoinCode :: string
  Course_AllowsJoin :: bool

record programming_config =
  Config_Image :: string
  Config_FullScore :: u64
  Config_Memory :: i64
  Config_Timeout :: i64
  Config_Tags :: "string list"

record submission_limit =
  Limit_Total :: u64
  Limit_Frequency :: u64
  Limit_Period :: u64

record assignment =
  Assignment_Name :: string
  Assignment_AssignmentType :: int
  Assignment_CourseId :: u64
  Assignment_ReleaseDate :: "time option"
  Assignment_DueDate :: "time option"
  Assignment_LateDueDate :: "time option"
  Assignment_Description :: string
  Assignment_ProgrammingConfig :: "programming_config option"
  Assignment_Published :: bool
  Assignment_SubmissionLimit :: "submission_limit option"
  Assignment_UploadLimit :: u64

record leaderboard_item =
  Item_Name :: string
  Item_Value :: string
  Item_IsDesc :: bool
  Item_Order :: i64
  Item_Suffix :: string

record leaderboard_entry =
  Entry_SubmissionId :: u64
  Entry_Nickname :: string
  Entry_Items :: "leaderboard_item list"
  Entry_UserId :: u64
  Entry_SubmittedAt :: "time option"
  Entry_StudentId :: string
  Entry_Username :: string
  Entry_Email :: string

record testcase =
  Testcase_Score :: u64
  Testcase_MaxScore :: u64
  Testcase_Name :: string
  Testcase_Output :: string
  Testcase_OutputPath :: string

record submission_report =
  Report_SubmissionId :: u64
  Report_Score :: u64
  Report_MaxScore :: u64
  Report_Output :: string
  Report_Tests :: "testcase list"
  Report_Leaderboard :: "leaderboard_item list"
  Report_ExitCode :: i64
  Report_InternalError :: i64

record submission_brief_report =
  Brief_Score :: u64
  Brief_MaxScore :: u64
  Brief_ExitCode :: i64
  Brief_InternalError :: i64
  Brief_Status :: submission_status

record submission =
  Submission_AssignmentId :: u64
  Submission_SubmittedAt :: "time option"
  Submission_Submitters :: "u64 list"
  Submission_Path :: string
  Submission_Files :: "string list"
  Submission_LeaderboardName :: string
  Submission_UserId :: u64

text \<open>The \<open>oneof\<close> of a mergeable value; \<open>None\<close> is the unset \<open>oneof\<close>.\<close>

datatype mergeable_value = Counter i64 | Strings "string list" | Ids "u64 list"

type_synonym mergeable = "mergeable_value option"

record manifest_metadata =
  Manifest_CreatedAt :: "time option"
  Manifest_UserId :: u64
  Manifest_AssignmentId :: u64
  Manifest_UploadLimit :: u64

record manifest_file_metadata =
  File_ManifestId :: u64
  File_Filesize :: u64

record verification_code_metadata =
  VCode_Code :: string
  VCode_IssuedAt :: "time option"
  VCode_ExpiredAt :: "time option"

record grader_info =
  Info_Hostname :: string
  Info_Tags :: "string list"
  Info_Concurrency :: u64

record grader_status_metadata =
  Grader_Info :: "grader_info option"
  Grader_Ip :: string
  Grader_Status :: grader_status
  Grader_LastHeartbeat :: "time option"

record pending_rank =
  PRank_Rank :: u64
  PRank_Total :: u64

record docker_metadata =
  Docker_SubmissionId :: u64
  Docker_ContainerId :: string
  Docker_Started :: bool
  Docker_Created :: bool

record grade_request =
  Req_SubmissionId :: u64
  Req_Submission :: "submission option"
  Req_Config :: "programming_config option"
  Req_IsCancel :: bool
  Req_IsStreamLog :: bool
  Req_RequestId :: string

datatype grade_report = GradeReport
  (GR_Report: "submission_report option")
  (GR_Brief: "submission_brief_report option")
  (GR_DockerMetadata: "docker_metadata option")
  (GR_PendingRank: "pending_rank option")

text \<open>The generated getters on a possibly nil message return the zero value of the field.\<close>

definition GetStatus :: "submission_brief_report option \<Rightarrow> submission_status" where
  "GetStatus b = (case b of None \<Rightarrow> SubmissionStatus_Queued | Some x \<Rightarrow> Brief_Status x)"

definition GetConcurrency :: "grader_info option \<Rightarrow> u64" where
  "GetConcurrency i = (case i of None \<Rightarrow> 0 | Some x \<Rightarrow> Info_Concurrency x)"

definition GetInfoTags :: "grader_info option \<Rightarrow> string list" where
  "GetInfoTags i = (case i of None \<Rightarrow> [] | Some x \<Rightarrow> Info_Tags x)"

definition GetHostname :: "grader_info option \<Rightarrow> string" where
  "GetHostname i = (case i of None \<Rightarrow> [] | Some x \<Rightarrow> Info_Hostname x)"

definition GetConfigTags :: "programming_config option \<Rightarrow> string list" where
  "GetConfigTags c = (case c of None \<Rightarrow> [] | Some x \<Rightarrow> Config_Tags x)"

end
