(* ===== verification/Mailbox.thy ===== *)
theory Mailbox
  imports Messages
begin

section \<open>Mailboxes and outboxes: subscription.go and GradeRequestQueue of graderhub_service.go\<close>

text \<open>
  A \<open>ReportMailbox\<close> is a channel of capacity one that a single subscriber drains, written by
  \<open>Publish\<close> under a mutex. The subscriber takes no lock, so it may drain the channel between any two
  channel operations of a \<open>Publish\<close>: the model is given when it does. A \<open>GradeRequestQueue\<close> is the
  outbox of a grader; the locale states what its users rely on.
\<close>

subsection \<open>Folding reports\<close>

definition coalesceReports :: "grade_report \<Rightarrow> grade_report \<Rightarrow> grade_report" where
  "coalesceReports older newer =
     GradeReport
       (case GR_Report newer of None \<Rightarrow> GR_Report older | Some r \<Rightarrow> Some r)
       (case GR_Brief newer of None \<Rightarrow> GR_Brief older | Some b \<Rightarrow> Some b)
       (case GR_DockerMetadata newer of None \<Rightarrow> GR_DockerMetadata older | Some d \<Rightarrow> Some d)
       (case GR_PendingRank newer of None \<Rightarrow> GR_PendingRank older | Some p \<Rightarrow> Some p)"

text \<open>
  Reports with \<open>coalesceReports\<close> are a monoid: the sum of a list of reports is what a subscriber that
  read them one after the other knows.
\<close>

instantiation grade_report :: monoid_add
begin

definition zero_grade_report :: grade_report where
  "zero_grade_report = GradeReport None None None None"

definition plus_grade_report :: "grade_report \<Rightarrow> grade_report \<Rightarrow> grade_report" where
  "plus_grade_report older newer = coalesceReports older newer"

instance
proof
  fix a b c :: grade_report
  show "a + b + c = a + (b + c)"
    by (simp add: plus_grade_report_def coalesceReports_def split: option.splits)
  show "0 + a = a" "a + 0 = a"
    by (cases a; simp add: plus_grade_report_def zero_grade_report_def coalesceReports_def
        split: option.splits)+
qed

end

subsection \<open>The mailbox\<close>

text \<open>
  The slot of the channel, whether it is closed, and the reports the subscriber received so far,
  oldest first.
\<close>

record mailbox =
  mb_slot :: "grade_report option"
  mb_closed :: bool
  mb_received :: "grade_report list"

definition NewReportMailbox :: mailbox where
  "NewReportMailbox = \<lparr>mb_slot = None, mb_closed = False, mb_received = []\<rparr>"

text \<open>The subscriber receives what is in the channel.\<close>

definition mb_receive :: "mailbox \<Rightarrow> mailbox" where
  "mb_receive m =
     (case mb_slot m of
        None \<Rightarrow> m
      | Some r \<Rightarrow> m\<lparr>mb_slot := None, mb_received := mb_received m @ [r]\<rparr>)"

definition mb_race :: "bool \<Rightarrow> mailbox \<Rightarrow> mailbox" where
  "mb_race d m = (if d then mb_receive m else m)"

text \<open>
  The loop of \<open>Publish\<close>: \<open>d\<close> tells before which of its channel operations the subscriber drains the
  channel.
\<close>

function publish_loop :: "(nat \<Rightarrow> bool) \<Rightarrow> nat \<Rightarrow> mailbox \<Rightarrow> grade_report \<Rightarrow> mailbox" where
  "publish_loop d n m report =
     (let m1 = mb_race (d n) m
      in if mb_slot m1 = None then m1\<lparr>mb_slot := Some report\<rparr>
         else
           (let m2 = mb_race (d (Suc n)) m1
            in case mb_slot m2 of
                 Some stale \<Rightarrow>
                   publish_loop d (n + 2) (m2\<lparr>mb_slot := None\<rparr>) (coalesceReports stale report)
               | None \<Rightarrow> publish_loop d (n + 2) m2 report))"
  by pat_completeness auto
termination
  by (relation "measure (\<lambda>(d, n, m, report). if mb_slot m = None then 0 else 1)")
    (auto simp: mb_race_def mb_receive_def split: if_splits option.splits)

declare publish_loop.simps [simp del]

definition Publish :: "(nat \<Rightarrow> bool) \<Rightarrow> mailbox \<Rightarrow> grade_report \<Rightarrow> mailbox" where
  "Publish d m report = (if mb_closed m then m else publish_loop d 0 m report)"

definition mailbox_Close :: "mailbox \<Rightarrow> mailbox" where
  "mailbox_Close m = (if mb_closed m then m else m\<lparr>mb_closed := True\<rparr>)"

text \<open>All that was or will be read from the channel.\<close>

definition mb_all :: "mailbox \<Rightarrow> grade_report list" where
  "mb_all m = mb_received m @ (case mb_slot m of None \<Rightarrow> [] | Some r \<Rightarrow> [r])"

lemma mb_race_simps [simp]:
  "mb_all (mb_race d m) = mb_all m" "mb_closed (mb_race d m) = mb_closed m"
  by (auto simp: mb_race_def mb_receive_def mb_all_def split: option.splits)

lemma publish_loop_sum: "sum_list (mb_all (publish_loop d n m report)) = sum_list (mb_all m) + report"
proof (induction d n m report rule: publish_loop.induct)
  case (1 d n m report)
  let ?m1 = "mb_race (d n) m" and ?m2 = "mb_race (d (Suc n)) (mb_race (d n) m)"
  show ?case
  proof (cases "mb_slot ?m1")
    case None
    then have "mb_all (publish_loop d n m report) = mb_all ?m1 @ [report]"
      by (subst publish_loop.simps) (simp add: mb_all_def)
    then show ?thesis by simp
  next
    case (Some r)
    show ?thesis
    proof (cases "mb_slot ?m2")
      case None
      then have "publish_loop d n m report = publish_loop d (n + 2) ?m2 report"
        using Some by (subst publish_loop.simps) simp
      then show ?thesis using 1(1) [OF refl _ refl] 1(2) [OF refl _ refl] Some None by simp
    next
      case stale: (Some stale)
      then have "publish_loop d n m report =
          publish_loop d (n + 2) (?m2\<lparr>mb_slot := None\<rparr>) (coalesceReports stale report)"
        using Some by (subst publish_loop.simps) simp
      moreover have "sum_list (mb_all (?m2\<lparr>mb_slot := None\<rparr>)) + stale = sum_list (mb_all ?m2)"
        using stale by (simp add: mb_all_def)
      ultimately show ?thesis
        using 1(1) [OF refl _ refl] 1(2) [OF refl _ refl] Some stale
        by (simp add: plus_grade_report_def [symmetric] add.assoc [symmetric])
    qed
  qed
qed

lemma publish_loop_closed: "mb_closed (publish_loop d n m report) = mb_closed m"
proof (induction d n m report rule: publish_loop.induct)
  case (1 d n m report)
  show ?case
    using 1(1) [OF refl _ refl] 1(2) [OF refl _ refl]
    by (subst publish_loop.simps) (auto simp: Let_def split: option.splits)
qed

text \<open>A history of a mailbox, and the reports published while it was open.\<close>

datatype mailbox_event = Ev_Publish "nat \<Rightarrow> bool" grade_report | Ev_Receive | Ev_Close

fun mailbox_step :: "mailbox \<Rightarrow> mailbox_event \<Rightarrow> mailbox" where
  "mailbox_step m (Ev_Publish d report) = Publish d m report"
| "mailbox_step m Ev_Receive = mb_receive m"
| "mailbox_step m Ev_Close = mailbox_Close m"

fun published :: "mailbox_event list \<Rightarrow> grade_report list" where
  "published [] = []"
| "published (Ev_Publish d report # evs) = report # published evs"
| "published (Ev_Receive # evs) = published evs"
| "published (Ev_Close # evs) = []"

lemma closed_all:
  "mb_closed m \<Longrightarrow> mb_all (foldl mailbox_step m evs) = mb_all m \<and> mb_closed (foldl mailbox_step m evs)"
proof (induction evs arbitrary: m)
  case (Cons ev evs)
  have "mb_closed (mailbox_step m ev) \<and> mb_all (mailbox_step m ev) = mb_all m"
    using Cons.prems
    by (cases ev) (auto simp: Publish_def mailbox_Close_def mb_receive_def mb_all_def split: option.splits)
  then show ?case using Cons.IH [of "mailbox_step m ev"] by simp
qed simp

lemma run_sum:
  "\<not> mb_closed m \<Longrightarrow>
    sum_list (mb_all (foldl mailbox_step m evs)) = sum_list (mb_all m) + sum_list (published evs)"
proof (induction evs arbitrary: m)
  case (Cons ev evs)
  show ?case
  proof (cases ev)
    case (Ev_Publish d report)
    then show ?thesis
      using Cons.IH [of "publish_loop d 0 m report"] Cons.prems
      by (simp add: Publish_def publish_loop_sum publish_loop_closed add.assoc)
  next
    case Ev_Receive
    have "mb_all (mb_receive m) = mb_all m" "mb_closed (mb_receive m) = mb_closed m"
      by (auto simp: mb_receive_def mb_all_def split: option.splits)
    then show ?thesis using Cons Ev_Receive by simp
  next
    case Ev_Close
    have "mb_all (mailbox_Close m) = mb_all m" "mb_closed (mailbox_Close m)"
      by (auto simp: mailbox_Close_def mb_all_def split: option.splits)
    then show ?thesis using closed_all Ev_Close by simp
  qed
qed simp

lemma mb_bounded: "length (mb_all m) \<le> Suc (length (mb_received m))"
  by (auto simp: mb_all_def split: option.splits)

text \<open>What a subscriber that keeps the last value of a field knows after it read the reports, oldest first.\<close>

fun last_value :: "(grade_report \<Rightarrow> 'a option) \<Rightarrow> grade_report list \<Rightarrow> 'a option" where
  "last_value field [] = None"
| "last_value field (r # rs) = (case last_value field rs of None \<Rightarrow> field r | Some x \<Rightarrow> Some x)"

lemma sum_last_value:
  "GR_Report (sum_list rs) = last_value GR_Report rs" "GR_Brief (sum_list rs) = last_value GR_Brief rs"
  "GR_DockerMetadata (sum_list rs) = last_value GR_DockerMetadata rs"
  "GR_PendingRank (sum_list rs) = last_value GR_PendingRank rs"
  by (induction rs) (simp_all add: zero_grade_report_def plus_grade_report_def coalesceReports_def split: option.splits)

subsection \<open>The outbox of a grader\<close>

record grade_queue =
  q_requests :: "grade_request list"
  q_closed :: bool

definition NewGradeRequestQueue :: grade_queue where
  "NewGradeRequestQueue = \<lparr>q_requests = [], q_closed = False\<rparr>"

definition queue_Close :: "grade_queue \<Rightarrow> grade_queue" where
  "queue_Close q = q\<lparr>q_closed := True\<rparr>"

definition queue_Push :: "grade_queue \<Rightarrow> grade_request \<Rightarrow> grade_queue \<times> bool" where
  "queue_Push q req = (if q_closed q then (q, False) else (q\<lparr>q_requests := q_requests q @ [req]\<rparr>, True))"

definition Drain :: "grade_queue \<Rightarrow> grade_queue \<times> grade_request list" where
  "Drain q = (q\<lparr>q_requests := []\<rparr>, q_requests q)"

text \<open>\<open>None\<close>: the call waits.\<close>

definition WaitAndDrain :: "grade_queue \<Rightarrow> (grade_queue \<times> grade_request list \<times> bool) option" where
  "WaitAndDrain q =
     (if \<not> q_closed q \<and> q_requests q = [] then None
      else if q_closed q \<and> q_requests q = [] then Some (q, [], False)
      else Some (q\<lparr>q_requests := []\<rparr>, q_requests q, True))"

subsection \<open>A buffer that can be closed\<close>

text \<open>A history of pushes and drains (\<open>None\<close>): the elements accepted and the elements drained.\<close>

fun buffer_run :: "('q \<Rightarrow> 'a \<Rightarrow> 'q \<times> bool) \<Rightarrow> ('q \<Rightarrow> 'q \<times> 'a list) \<Rightarrow> 'q \<Rightarrow> 'a option list \<Rightarrow>
    'q \<times> 'a list \<times> 'a list" where
  "buffer_run push drain q [] = (q, [], [])"
| "buffer_run push drain q (Some x # evs) =
     (case push q x of (q', ok) \<Rightarrow>
        (case buffer_run push drain q' evs of
           (q'', accepted, drained) \<Rightarrow> (q'', (if ok then [x] else []) @ accepted, drained)))"
| "buffer_run push drain q (None # evs) =
     (case drain q of (q', xs) \<Rightarrow>
        (case buffer_run push drain q' evs of
           (q'', accepted, drained) \<Rightarrow> (q'', accepted, xs @ drained)))"

text \<open>
  What producers and the consumer rely on: an accepted element is appended, a closed buffer accepts
  nothing, and draining takes everything in order.
\<close>

locale closable_buffer =
  fixes items :: "'q \<Rightarrow> 'a list" and closed :: "'q \<Rightarrow> bool"
    and push :: "'q \<Rightarrow> 'a \<Rightarrow> 'q \<times> bool" and drain :: "'q \<Rightarrow> 'q \<times> 'a list" and close :: "'q \<Rightarrow> 'q"
  assumes push_open: "\<not> closed q \<Longrightarrow> push q x = (q', ok) \<Longrightarrow>
      ok \<and> items q' = items q @ [x] \<and> \<not> closed q'"
    and push_closed: "closed q \<Longrightarrow> push q x = (q', ok) \<Longrightarrow> \<not> ok \<and> q' = q"
    and drain_items: "drain q = (q', xs) \<Longrightarrow> xs = items q \<and> items q' = [] \<and> closed q' = closed q"
    and close_items: "items (close q) = items q \<and> closed (close q)"
begin

lemma run_fifo:
  "buffer_run push drain q evs = (q', accepted, drained) \<Longrightarrow>
    items q @ accepted = drained @ items q' \<and> (closed q \<longrightarrow> accepted = [])"
proof (induction evs arbitrary: q q' accepted drained)
  case (Cons ev evs)
  show ?case
  proof (cases ev)
    case (Some x)
    obtain q1 ok where p: "push q x = (q1, ok)" by (cases "push q x")
    obtain q2 acc dr where r: "buffer_run push drain q1 evs = (q2, acc, dr)" by (metis prod_cases3)
    have eq: "q' = q2" "accepted = (if ok then [x] else []) @ acc" "drained = dr"
      using Cons.prems Some p r by auto
    show ?thesis
      using Cons.IH [OF r] push_open [OF _ p] push_closed [OF _ p] unfolding eq
      by (cases "closed q") auto
  next
    case None
    obtain q1 xs where d: "drain q = (q1, xs)" by (cases "drain q")
    obtain q2 acc dr where r: "buffer_run push drain q1 evs = (q2, acc, dr)" by (metis prod_cases3)
    show ?thesis
      using Cons.prems Cons.IH [OF r] None d r drain_items [OF d] by auto
  qed
qed simp

end

interpretation outbox: closable_buffer q_requests q_closed queue_Push Drain queue_Close
  by unfold_locales (auto simp: queue_Push_def Drain_def queue_Close_def)

text \<open>The consumer's blocking drain is a drain unless it waits or reports the end.\<close>

lemma WaitAndDrain_Drain:
  "WaitAndDrain q = Some (q', xs, True) \<Longrightarrow> Drain q = (q', xs) \<and> xs \<noteq> []"
  "WaitAndDrain q = Some (q', xs, False) \<Longrightarrow> q' = q \<and> xs = [] \<and> q_closed q \<and> q_requests q = []"
  by (auto simp: WaitAndDrain_def Drain_def split: if_splits)

subsection \<open>Properties\<close>

text \<open>
  C8: a mailbox loses no field. Whatever the publisher and the subscriber do and however their channel
  operations interleave, the last value of each field among what the subscriber received and the report that
  still waits is the last value of that field published before the mailbox was closed. At most one
  report waits.
\<close>

theorem mailbox_loses_no_field:
  assumes "m = foldl mailbox_step NewReportMailbox evs"
  shows "last_value GR_Report (mb_all m) = last_value GR_Report (published evs) \<and>
    last_value GR_Brief (mb_all m) = last_value GR_Brief (published evs) \<and>
    last_value GR_DockerMetadata (mb_all m) = last_value GR_DockerMetadata (published evs) \<and>
    last_value GR_PendingRank (mb_all m) = last_value GR_PendingRank (published evs) \<and>
    length (mb_all m) \<le> Suc (length (mb_received m))"
proof -
  have "sum_list (mb_all m) = sum_list (mb_all NewReportMailbox) + sum_list (published evs)"
    unfolding assms by (rule run_sum) (simp add: NewReportMailbox_def)
  moreover have "mb_all NewReportMailbox = []" by (simp add: NewReportMailbox_def mb_all_def)
  ultimately have "sum_list (mb_all m) = sum_list (published evs)" by simp
  then show ?thesis by (simp add: mb_bounded flip: sum_last_value)
qed

theorem mailbox_loses_no_field_witness:
  "\<exists>m. m = foldl mailbox_step NewReportMailbox
      [Ev_Publish (\<lambda>n. n = 1) (GradeReport None None None (Some \<lparr>PRank_Rank = 2, PRank_Total = 2\<rparr>)),
       Ev_Publish (\<lambda>n. False) (GradeReport None None None (Some \<lparr>PRank_Rank = 1, PRank_Total = 1\<rparr>)),
       Ev_Receive, Ev_Close] \<and>
    last_value GR_PendingRank (mb_all m) = Some \<lparr>PRank_Rank = 1, PRank_Total = 1\<rparr> \<and>
    last_value GR_Brief (mb_all m) = None"
  using mailbox_loses_no_field [OF refl, of
      "[Ev_Publish (\<lambda>n. n = 1) (GradeReport None None None (Some \<lparr>PRank_Rank = 2, PRank_Total = 2\<rparr>)),
       Ev_Publish (\<lambda>n. False) (GradeReport None None None (Some \<lparr>PRank_Rank = 1, PRank_Total = 1\<rparr>)),
       Ev_Receive, Ev_Close]"]
  by simp

text \<open>
  the outbox of a grader is first in, first out and loses nothing: what was queued at first and
  accepted since is what was drained followed by what is still queued, in order; and a closed outbox
  accepts nothing.
\<close>

theorem outbox_fifo:
  assumes "buffer_run queue_Push Drain q evs = (q', accepted, drained)"
  shows "q_requests q @ accepted = drained @ q_requests q' \<and> (q_closed q \<longrightarrow> accepted = [])"
  using outbox.run_fifo [OF assms] .

theorem outbox_fifo_witness:
  "\<exists>q' accepted drained. buffer_run queue_Push Drain NewGradeRequestQueue
      [Some \<lparr>Req_SubmissionId = 1, Req_Submission = None, Req_Config = None, Req_IsCancel = False,
         Req_IsStreamLog = False, Req_RequestId = []\<rparr>, None] = (q', accepted, drained) \<and>
    accepted = drained \<and> length drained = 1"
proof -
  let ?evs = "[Some \<lparr>Req_SubmissionId = 1, Req_Submission = None, Req_Config = None, Req_IsCancel = False,
         Req_IsStreamLog = False, Req_RequestId = []\<rparr>, None]"
  obtain q' accepted drained where
    run: "buffer_run queue_Push Drain NewGradeRequestQueue ?evs = (q', accepted, drained)"
    by (metis prod_cases3)
  then have "accepted = drained" "length drained = 1"
    using outbox_fifo [OF run]
    by (auto simp: queue_Push_def Drain_def NewGradeRequestQueue_def)
  then show ?thesis using run by blast
qed

end
