(* ===== verification/Encoding.thy ===== *)
theory Encoding
  imports Prelude
begin

section \<open>Keys as bytes: pkg/repository/prefix.go and the strconv/fmt functions on keys\<close>

text \<open>
  Big-endian encodings of \<open>uint32\<close>/\<open>uint64\<close> (\<open>encoding/binary\<close>), the decimal text of an id
  (\<open>fmt.Sprintf("%d")\<close>, \<open>strconv.Atoi\<close>, \<open>strconv.ParseUint\<close>), and \<open>KeyUpperBound\<close>, the end of
  the range of keys that start with a prefix. Bytes are characters; keys are compared bytewise,
  which is the order \<open>(<)\<close> on strings of \<open>HOL-Library.List_Lexorder\<close>.
\<close>

subsection \<open>Bytes\<close>

definition byte_val :: "char \<Rightarrow> nat" where
  "byte_val c = of_char c"

definition byte :: "nat \<Rightarrow> char" where
  "byte n = char_of n"

lemma byte_val_byte [simp]: "byte_val (byte n) = n mod 256"
  by (simp add: byte_val_def byte_def)

lemma byte_byte_val [simp]: "byte (byte_val c) = c"
  by (simp add: byte_val_def byte_def)

lemma byte_val_less [simp]: "byte_val c < 256"
  by (simp add: byte_val_def)

lemma byte_val_inject [simp]: "byte_val c = byte_val d \<longleftrightarrow> c = d"
  by (metis byte_byte_val)

lemma byte_less_iff: "c < d \<longleftrightarrow> byte_val c < byte_val d"
  by (simp add: byte_val_def less_char_def)

subsection \<open>Big-endian integers\<close>

fun be_put :: "nat \<Rightarrow> nat \<Rightarrow> bytes" where
  "be_put 0 n = []"
| "be_put (Suc k) n = be_put k (n div 256) @ [byte n]"

definition be_get :: "bytes \<Rightarrow> nat" where
  "be_get b = foldl (\<lambda>a c. a * 256 + byte_val c) 0 b"

text \<open>\<open>binary.BigEndian.PutUint32\<close> and \<open>PutUint64\<close> into a fresh slice.\<close>

definition Uint32ToBytes :: "32 word \<Rightarrow> bytes" where
  "Uint32ToBytes v = be_put 4 (unat v)"

definition Uint64ToBytes :: "u64 \<Rightarrow> bytes" where
  "Uint64ToBytes v = be_put 8 (unat v)"

text \<open>\<open>binary.BigEndian.Uint64\<close> reads the first eight bytes and panics on a shorter slice.\<close>

definition BigEndian_Uint64 :: "bytes \<Rightarrow> error + u64" where
  "BigEndian_Uint64 b = (if length b < 8 then Inl Panic else Inr (of_nat (be_get (take 8 b))))"

lemma length_be_put [simp]: "length (be_put k n) = k"
  by (induction k arbitrary: n) auto

lemma be_get_append_byte [simp]: "be_get (b @ [c]) = be_get b * 256 + byte_val c"
  by (simp add: be_get_def)

lemma be_get_Nil [simp]: "be_get [] = 0"
  by (simp add: be_get_def)

lemma be_get_put: "be_get (be_put k n) = n mod 256 ^ k"
proof (induction k arbitrary: n)
  case (Suc k)
  have "n mod 256 ^ Suc k = (n div 256 mod 256 ^ k) * 256 + n mod 256"
    by (metis add.commute mod_mult2_eq mult.commute power_Suc)
  then show ?case by (simp add: Suc.IH)
qed simp

lemma less_iff_div_mod_256:
  "n < m \<longleftrightarrow> n div 256 < m div 256 \<or> n div 256 = m div 256 \<and> n mod 256 < m mod (256 :: nat)"
proof -
  have "a * 256 + r < b * 256 + s \<longleftrightarrow> a < b \<or> a = b \<and> r < s"
    if "r < 256" "s < (256 :: nat)" for a b r s
    using that by arith
  from this [of "n mod 256" "m mod 256" "n div 256" "m div 256"] show ?thesis
    by simp
qed

lemma be_put_less_iff:
  assumes "n < 256 ^ k" and "m < 256 ^ k"
  shows "be_put k n < be_put k m \<longleftrightarrow> n < m"
  using assms
proof (induction k arbitrary: n m)
  case (Suc k)
  have "n div 256 < 256 ^ k" "m div 256 < 256 ^ k"
    using Suc.prems by (simp_all add: less_mult_imp_div_less)
  note IH = Suc.IH [OF this]
  have inj: "be_put k (n div 256) = be_put k (m div 256) \<longleftrightarrow> n div 256 = m div 256"
    using \<open>n div 256 < 256 ^ k\<close> \<open>m div 256 < 256 ^ k\<close> by (metis be_get_put mod_less)
  have "n < m \<longleftrightarrow> n div 256 < m div 256 \<or> n div 256 = m div 256 \<and> n mod 256 < m mod 256"
    by (rule less_iff_div_mod_256)
  then show ?case
    by (simp add: less_append_same_length IH inj byte_less_iff)
qed simp

lemma Uint64_roundtrip [simp]: "BigEndian_Uint64 (Uint64ToBytes v) = Inr v"
proof -
  have "unat v < 256 ^ 8" using unat_u64_lt [of v] by simp
  then show ?thesis
    by (simp add: BigEndian_Uint64_def Uint64ToBytes_def be_get_put)
qed

lemma length_Uint64ToBytes [simp]: "length (Uint64ToBytes v) = 8"
  by (simp add: Uint64ToBytes_def)

lemma Uint64ToBytes_inject [simp]: "Uint64ToBytes v = Uint64ToBytes w \<longleftrightarrow> v = w"
  by (metis Uint64_roundtrip sum.inject(2))

lemma Uint64ToBytes_less_iff [simp]: "Uint64ToBytes v < Uint64ToBytes w \<longleftrightarrow> v < w"
proof -
  have "unat v < 256 ^ 8" "unat w < 256 ^ 8"
    using unat_u64_lt [of v] unat_u64_lt [of w] by simp_all
  then show ?thesis
    unfolding Uint64ToBytes_def by (simp add: be_put_less_iff word_less_nat_alt)
qed

subsection \<open>The upper bound of a prefix\<close>

text \<open>
  The loop of \<open>KeyUpperBound\<close> runs from the last byte to the first: it increments the byte and,
  unless it wrapped to zero, returns the bytes up to it; \<open>None\<close> is the \<open>nil\<close> of a prefix of
  \<open>0xff\<close> bytes. The recursion is on the reversed slice.
\<close>

fun key_upper_rev :: "bytes \<Rightarrow> bytes option" where
  "key_upper_rev [] = None"
| "key_upper_rev (c # cs) =
     (let c' = byte (byte_val c + 1)
      in if byte_val c' \<noteq> 0 then Some (c' # cs) else key_upper_rev cs)"

definition KeyUpperBound :: "bytes \<Rightarrow> bytes option" where
  "KeyUpperBound b = map_option rev (key_upper_rev (rev b))"

text \<open>The bounds of an iterator over the keys with a prefix.\<close>

definition PrefixIterOptions :: "bytes \<Rightarrow> bytes \<times> bytes option" where
  "PrefixIterOptions p = (p, KeyUpperBound p)"

definition in_bounds :: "bytes \<times> bytes option \<Rightarrow> bytes \<Rightarrow> bool" where
  "in_bounds b k \<longleftrightarrow> fst b \<le> k \<and> (case snd b of None \<Rightarrow> True | Some u \<Rightarrow> k < u)"

lemma KeyUpperBound_Nil [simp]: "KeyUpperBound [] = None"
  by (simp add: KeyUpperBound_def)

lemma KeyUpperBound_snoc:
  "KeyUpperBound (p @ [c]) =
     (if byte_val c = 255 then KeyUpperBound p else Some (p @ [byte (byte_val c + 1)]))"
proof -
  have "(byte_val c + 1) mod 256 = 0 \<longleftrightarrow> byte_val c = 255"
    using byte_val_less [of c] by presburger
  then show ?thesis by (simp add: KeyUpperBound_def Let_def)
qed

lemma prefix_snoc_iff: "prefix (p @ [c]) k \<longleftrightarrow> (\<exists>ys. k = p @ c # ys)"
  by (auto simp: prefix_def)

lemma below_bound_snoc:
  fixes c d :: "'a::linorder"
  assumes "c < d" "\<And>e. e < d \<longleftrightarrow> e \<le> c"
  shows "p @ [c] \<le> k \<and> k < p @ [d] \<longleftrightarrow> prefix (p @ [c]) k"
proof
  assume k: "p @ [c] \<le> k \<and> k < p @ [d]"
  have "\<exists>ys. k = p @ ys"
    using k
  proof (induction p arbitrary: k)
    case (Cons x p)
    then obtain z zs where "k = z # zs" by (cases k) auto
    with Cons show ?case by auto
  qed simp
  then obtain ys where ys: "k = p @ ys" by blast
  with k have "[c] \<le> ys" "ys < [d]"
    by simp_all
  then obtain z zs where "ys = z # zs" "c \<le> z" "z < d"
    by (cases ys) auto
  moreover from this assms(2) have "z = c"
    by (simp add: order_antisym)
  ultimately have "ys = c # zs"
    by simp
  with ys show "prefix (p @ [c]) k" by (simp add: prefix_snoc_iff)
next
  assume "prefix (p @ [c]) k"
  then obtain ys where "k = p @ c # ys" by (auto simp: prefix_snoc_iff)
  with assms(1) show "p @ [c] \<le> k \<and> k < p @ [d]"
    by simp
qed

lemma prefix_le: "prefix p k \<Longrightarrow> p \<le> (k :: bytes)"
  by (auto simp: prefix_def)

lemma byte_max_le: "byte_val c = 255 \<Longrightarrow> c \<le> d \<Longrightarrow> d = c"
  using byte_val_less [of d] by (auto simp: byte_less_iff order_le_less)

lemma in_bounds_prefix: "in_bounds (PrefixIterOptions p) k \<longleftrightarrow> prefix p k"
proof (induction p rule: rev_induct)
  case (snoc c p)
  show ?case
  proof (cases "byte_val c = 255")
    case True
    then have eq: "in_bounds (PrefixIterOptions (p @ [c])) k \<longleftrightarrow>
        p @ [c] \<le> k \<and> prefix p k"
      using snoc order_trans [of p "p @ [c]" k]
      by (auto simp: in_bounds_def PrefixIterOptions_def KeyUpperBound_snoc)
    show ?thesis
      unfolding eq
    proof
      assume "p @ [c] \<le> k \<and> prefix p k"
      then obtain ys where ys: "k = p @ ys" "[c] \<le> ys"
        by (auto simp: prefix_def)
      then obtain z zs where "ys = z # zs" "c \<le> z" by (cases ys) auto
      with True have "ys = c # zs" by (simp add: byte_max_le)
      with ys show "prefix (p @ [c]) k" by (simp add: prefix_snoc_iff)
    next
      assume "prefix (p @ [c]) k"
      then show "p @ [c] \<le> k \<and> prefix p k"
        by (meson append_prefixD prefix_le)
    qed
  next
    case False
    then have lt: "byte_val c + 1 < 256"
      using byte_val_less [of c] by linarith
    have "e < byte (byte_val c + 1) \<longleftrightarrow> e \<le> c" for e
      using lt by (auto simp: byte_less_iff not_less [symmetric])
    moreover have "c < byte (byte_val c + 1)"
      using lt by (simp add: byte_less_iff)
    ultimately show ?thesis
      using False below_bound_snoc [of c "byte (byte_val c + 1)" p k]
      by (simp add: in_bounds_def PrefixIterOptions_def KeyUpperBound_snoc)
  qed
qed (simp add: in_bounds_def PrefixIterOptions_def)

subsection \<open>Decimal text: fmt.Sprintf("%d"), strconv.Atoi, strconv.ParseUint\<close>

definition digit :: "nat \<Rightarrow> char" where
  "digit d = byte (48 + d)"

definition is_digit :: "char \<Rightarrow> bool" where
  "is_digit c \<longleftrightarrow> 48 \<le> byte_val c \<and> byte_val c \<le> 57"

fun decimal :: "nat \<Rightarrow> bytes" where
  "decimal n = (if n < 10 then [digit n] else decimal (n div 10) @ [digit (n mod 10)])"

declare decimal.simps [simp del]

definition decimal_value :: "bytes \<Rightarrow> nat" where
  "decimal_value s = foldl (\<lambda>a c. a * 10 + (byte_val c - 48)) 0 s"

text \<open>
  \<open>strconv.Atoi\<close> (an optional sign, then digits, into an \<open>int\<close> of 64 bits): the value with the
  error, which is 0 on a syntax error and the nearest bound on a range error.
\<close>

definition Atoi :: "bytes \<Rightarrow> int \<times> error option" where
  "Atoi s =
     (let neg = (case s of c # _ \<Rightarrow> c = CHR ''-'' | [] \<Rightarrow> False);
          ds = (case s of c # cs \<Rightarrow> if c = CHR ''-'' \<or> c = CHR ''+'' then cs else s | [] \<Rightarrow> [])
      in if ds = [] \<or> \<not> list_all is_digit ds then (0, Some (ErrOther ''invalid syntax''))
         else let n = int (decimal_value ds)
              in if \<not> neg \<and> n \<ge> 2 ^ 63 then (2 ^ 63 - 1, Some (ErrOther ''value out of range''))
                 else if neg \<and> n > 2 ^ 63 then (- (2 ^ 63), Some (ErrOther ''value out of range''))
                 else (if neg then - n else n, None))"

text \<open>\<open>strconv.ParseUint(s, 10, 64)\<close>: digits only.\<close>

definition ParseUint :: "bytes \<Rightarrow> error + u64" where
  "ParseUint s =
     (if s = [] \<or> \<not> list_all is_digit s then Inl (ErrOther ''invalid syntax'')
      else if decimal_value s \<ge> 2 ^ 64 then Inl (ErrOther ''value out of range'')
      else Inr (of_nat (decimal_value s)))"

text \<open>The text of an id in a key.\<close>

definition id_text :: "u64 \<Rightarrow> bytes" where
  "id_text i = decimal (unat i)"

lemma byte_val_digit: "d < 10 \<Longrightarrow> byte_val (digit d) = 48 + d"
  by (simp add: digit_def)

lemma decimal_digits: "list_all is_digit (decimal n)"
proof (induction n rule: decimal.induct)
  case (1 n)
  have "is_digit (digit (n mod 10))"
    by (simp add: is_digit_def byte_val_digit)
  moreover have "n < 10 \<Longrightarrow> is_digit (digit n)"
    by (simp add: is_digit_def byte_val_digit)
  ultimately show ?case
    using 1 by (subst decimal.simps) auto
qed

lemma decimal_nonempty [simp]: "decimal n \<noteq> []"
  by (subst decimal.simps) simp

lemma decimal_value_snoc: "decimal_value (s @ [c]) = decimal_value s * 10 + (byte_val c - 48)"
  by (simp add: decimal_value_def)

lemma decimal_value_decimal [simp]: "decimal_value (decimal n) = n"
proof (induction n rule: decimal.induct)
  case (1 n)
  show ?case
  proof (cases "n < 10")
    case True
    then show ?thesis
      by (subst decimal.simps) (simp add: decimal_value_def byte_val_digit)
  next
    case False
    with 1 show ?thesis
      by (subst decimal.simps) (simp add: decimal_value_snoc byte_val_digit)
  qed
qed

lemma decimal_inject [simp]: "decimal m = decimal n \<longleftrightarrow> m = n"
  by (metis decimal_value_decimal)

lemma colon_not_digit [simp]: "\<not> is_digit CHR '':''"
  by (simp add: is_digit_def byte_val_def)

lemma colon_notin_id_text [simp]: "CHR '':'' \<notin> set (id_text i)"
  using decimal_digits [of "unat i"] by (auto simp: id_text_def list_all_iff)

lemma id_text_inject [simp]: "id_text i = id_text j \<longleftrightarrow> i = j"
  by (simp add: id_text_def word_unat_eq_iff)

lemma id_text_nonempty [simp]: "id_text i \<noteq> []"
  by (simp add: id_text_def)

lemma ParseUint_id_text [simp]: "ParseUint (id_text i) = Inr i"
  using unat_u64_lt [of i] decimal_digits [of "unat i"]
  by (simp add: ParseUint_def id_text_def)

lemma Atoi_decimal:
  "Atoi (decimal n) =
     (if n < 2 ^ 63 then (int n, None)
      else (2 ^ 63 - 1, Some (ErrOther ''value out of range'')))"
proof -
  obtain c cs where d: "decimal n = c # cs"
    using decimal_nonempty by (cases "decimal n") blast+
  with decimal_digits [of n] have "is_digit c" by simp
  then have "c \<noteq> CHR ''-''" "c \<noteq> CHR ''+''"
    by (auto simp: is_digit_def byte_val_def)
  moreover have "decimal_value (c # cs) = n"
    using d by (metis decimal_value_decimal)
  ultimately show ?thesis
    using d decimal_digits [of n] by (simp add: Atoi_def Let_def not_less)
qed

lemma Atoi_id_text:
  "Atoi (id_text i) =
     (if unat i < 2 ^ 63 then (int (unat i), None)
      else (2 ^ 63 - 1, Some (ErrOther ''value out of range'')))"
  unfolding id_text_def by (rule Atoi_decimal)

text \<open>An id followed by a colon is recognised in one way only.\<close>

lemma colon_split:
  assumes "CHR '':'' \<notin> set xs" "CHR '':'' \<notin> set ys"
  shows "xs @ CHR '':'' # a = ys @ CHR '':'' # b \<longleftrightarrow> xs = ys \<and> a = b"
  using assms
proof (induction xs arbitrary: ys)
  case Nil
  then show ?case by (cases ys) auto
next
  case (Cons x xs)
  then show ?case by (cases ys) auto
qed

lemma id_text_colon [simp]:
  "id_text i @ CHR '':'' # a = id_text j @ CHR '':'' # b \<longleftrightarrow> i = j \<and> a = b"
  by (simp add: colon_split)

lemma prefix_id_colon [simp]:
  "prefix (id_text i @ CHR '':'' # a) (id_text j @ CHR '':'' # b) \<longleftrightarrow> i = j \<and> prefix a b"
proof -
  have "prefix (id_text i @ CHR '':'' # a) (id_text j @ CHR '':'' # b) \<longleftrightarrow>
      (\<exists>zs. id_text j @ CHR '':'' # b = id_text i @ CHR '':'' # (a @ zs))"
    by (simp add: prefix_def)
  then show ?thesis by (auto simp: prefix_def simp del: append.simps)
qed

subsection \<open>Properties\<close>

text \<open>
  C40: the bounds \<open>PrefixIterOptions\<close> gives an iterator select exactly the keys that start with the
  prefix, also when the prefix ends in \<open>0xff\<close> bytes, where \<open>KeyUpperBound\<close> shortens it or is nil.
\<close>

theorem PrefixIterOptions_exact:
  "prefix p k \<longleftrightarrow>
    (let (lo, hi) = PrefixIterOptions p
     in lo \<le> k \<and> (case hi of None \<Rightarrow> True | Some u \<Rightarrow> k < u))"
  using in_bounds_prefix [of p k] by (auto simp: in_bounds_def split: prod.splits)

end
