(* ===== verification/Codec.thy ===== *)
theory Codec
  imports Messages Encoding "HOL-Library.Countable"
begin

section \<open>proto.Marshal and proto.Unmarshal\<close>

text \<open>
  The wire format is the protobuf library's, so marshalling is a parameter: a \<open>codec\<close> of a message
  type is a pair of partial functions, and what the server relies on is that decoding an encoded
  message gives the message back (\<open>codec_ok\<close>). The counting codec shows that the law can hold:
  the message types are countable, so the number of a message in decimal is an encoding of it.
\<close>

record 'm codec =
  Marshal :: "'m \<Rightarrow> error + bytes"
  Unmarshal :: "bytes \<Rightarrow> error + 'm"

definition codec_ok :: "'m codec \<Rightarrow> bool" where
  "codec_ok c \<longleftrightarrow> (\<forall>m b. Marshal c m = Inr b \<longrightarrow> Unmarshal c b = Inr m)"

lemma codec_okD: "codec_ok c \<Longrightarrow> Marshal c m = Inr b \<Longrightarrow> Unmarshal c b = Inr m"
  by (auto simp: codec_ok_def)

subsection \<open>The message types are countable\<close>

instance user_ext :: (countable) countable
  by (rule countable_classI [of "\<lambda>u. to_nat (User_Username u, User_Password u, User_Email u,
      User_GithubId u, User_Nickname u, User_StudentId u, User_CreatedAt u, User_IsAdmin u,
      user.more u)"]) (simp add: user.equality)

instance course_role :: countable
  by countable_datatype

instance submission_status :: countable
  by countable_datatype

instance grader_status :: countable
  by countable_datatype

instance mergeable_value :: countable
  by countable_datatype

instance course_member_ext :: (countable) countable
  by (rule countable_classI [of "\<lambda>m. to_nat (Member_UserId m, Member_Role m, Member_CourseId m,
      course_member.more m)"]) (simp add: course_member.equality)

instance course_ext :: (countable) countable
  by (rule countable_classI [of "\<lambda>c. to_nat (Course_Name c, Course_ShortName c, Course_Term c,
      Course_Description c, Course_JoinCode c, Course_AllowsJoin c, course.more c)"])
    (simp add: course.equality)

instance programming_config_ext :: (countable) countable
  by (rule countable_classI [of "\<lambda>c. to_nat (Config_Image c, Config_FullScore c, Config_Memory c,
      Config_Timeout c, Config_Tags c, programming_config.more c)"])
    (simp add: programming_config.equality)

instance submission_limit_ext :: (countable) countable
  by (rule countable_classI [of "\<lambda>l. to_nat (Limit_Total l, Limit_Frequency l, Limit_Period l,
      submission_limit.more l)"]) (simp add: submission_limit.equality)

instance assignment_ext :: (countable) countable
  by (rule countable_classI [of "\<lambda>a. to_nat (Assignment_Name a, Assignment_AssignmentType a, Assignment_CourseId a,
      Assignment_ReleaseDate a, Assignment_DueDate a, Assignment_LateDueDate a,
      Assignment_Description a, Assignment_ProgrammingConfig a, Assignment_Published a,
      Assignment_SubmissionLimit a, Assignment_UploadLimit a, assignment.more a)"])
    (simp add: assignment.equality)

instance leaderboard_item_ext :: (countable) countable
  by (rule countable_classI [of "\<lambda>i. to_nat (Item_Name i, Item_Value i, Item_IsDesc i, Item_Order i,
      Item_Suffix i, leaderboard_item.more i)"]) (simp add: leaderboard_item.equality)

instance leaderboard_entry_ext :: (countable) countable
  by (rule countable_classI [of "\<lambda>e. to_nat (Entry_SubmissionId e, Entry_Nickname e, Entry_Items e,
      Entry_UserId e, Entry_SubmittedAt e, Entry_StudentId e, Entry_Username e, Entry_Email e,
      leaderboard_entry.more e)"]) (simp add: leaderboard_entry.equality)

instance testcase_ext :: (countable) countable
  by (rule countable_classI [of "\<lambda>t. to_nat (Testcase_Score t, Testcase_MaxScore t, Testcase_Name t,
      Testcase_Output t, Testcase_OutputPath t, testcase.more t)"])
    (simp add: testcase.equality)

instance submission_report_ext :: (countable) countable
  by (rule countable_classI [of "\<lambda>r. to_nat (Report_SubmissionId r, Report_Score r,
      Report_MaxScore r, Report_Output r, Report_Tests r, Report_Leaderboard r, Report_ExitCode r,
      Report_InternalError r, submission_report.more r)"])
    (simp add: submission_report.equality)

instance submission_brief_report_ext :: (countable) countable
  by (rule countable_classI [of "\<lambda>b. to_nat (Brief_Score b, Brief_MaxScore b, Brief_ExitCode b,
      Brief_InternalError b, Brief_Status b, submission_brief_report.more b)"])
    (simp add: submission_brief_report.equality)

instance submission_ext :: (countable) countable
  by (rule countable_classI [of "\<lambda>s. to_nat (Submission_AssignmentId s, Submission_SubmittedAt s,
      Submission_Submitters s, Submission_Path s, Submission_Files s, Submission_LeaderboardName s,
      Submission_UserId s, submission.more s)"]) (simp add: submission.equality)

instance manifest_metadata_ext :: (countable) countable
  by (rule countable_classI [of "\<lambda>m. to_nat (Manifest_CreatedAt m, Manifest_UserId m,
      Manifest_AssignmentId m, Manifest_UploadLimit m, manifest_metadata.more m)"])
    (simp add: manifest_metadata.equality)

instance manifest_file_metadata_ext :: (countable) countable
  by (rule countable_classI [of "\<lambda>f. to_nat (File_ManifestId f, File_Filesize f,
      manifest_file_metadata.more f)"]) (simp add: manifest_file_metadata.equality)

instance verification_code_metadata_ext :: (countable) countable
  by (rule countable_classI [of "\<lambda>v. to_nat (VCode_Code v, VCode_IssuedAt v, VCode_ExpiredAt v,
      verification_code_metadata.more v)"]) (simp add: verification_code_metadata.equality)

instance grader_info_ext :: (countable) countable
  by (rule countable_classI [of "\<lambda>i. to_nat (Info_Hostname i, Info_Tags i, Info_Concurrency i,
      grader_info.more i)"]) (simp add: grader_info.equality)

instance grader_status_metadata_ext :: (countable) countable
  by (rule countable_classI [of "\<lambda>g. to_nat (Grader_Info g, Grader_Ip g, Grader_Status g,
      Grader_LastHeartbeat g, grader_status_metadata.more g)"])
    (simp add: grader_status_metadata.equality)

definition counting_codec :: "'m::countable \<Rightarrow> 'm codec" where
  "counting_codec d = \<lparr>Marshal = (\<lambda>m. Inr (decimal (to_nat m))),
     Unmarshal = (\<lambda>b. if b = [] then Inr d else Inr (from_nat (decimal_value b)))\<rparr>"

lemma counting_codec_simps [simp]:
  "Marshal (counting_codec d) m = Inr (decimal (to_nat m))"
  "Unmarshal (counting_codec d) (decimal (to_nat m)) = Inr m"
  "Unmarshal (counting_codec d) [] = Inr d"
  by (simp_all add: counting_codec_def)

lemma counting_codec_ok [simp]: "codec_ok (counting_codec d)"
  by (auto simp: codec_ok_def)

end
