(* ===== verification/Merger.thy ===== *)
theory Merger
  imports Codec
begin

section \<open>The merge operator of the store: pkg/repository/merger.go\<close>

text \<open>
  \<open>KVMerge\<close> is the value merger given to Pebble. Its buffer is a \<open>Mergeable\<close> message. Reading the
  list of a nil \<open>GetStrings()\<close> or \<open>GetIds()\<close> dereferences a nil pointer, so an operand of another
  kind panics; a counter reads 0 from it. The locale states what Pebble asks of a merger: operands
  may arrive newest first or oldest first, and grouping must not matter.
\<close>

definition merge_newer :: "mergeable \<Rightarrow> mergeable \<Rightarrow> error + mergeable" where
  "merge_newer buffer m =
     (case buffer of
        Some (Strings xs) \<Rightarrow>
          (case m of Some (Strings ys) \<Rightarrow> Inr (Some (Strings (xs @ ys))) | _ \<Rightarrow> Inl Panic)
      | Some (Counter c) \<Rightarrow>
          Inr (Some (Counter (c + (case m of Some (Counter d) \<Rightarrow> d | _ \<Rightarrow> 0))))
      | Some (Ids xs) \<Rightarrow>
          (case m of Some (Ids ys) \<Rightarrow> Inr (Some (Ids (xs @ ys))) | _ \<Rightarrow> Inl Panic)
      | None \<Rightarrow> Inr m)"

definition merge_older :: "mergeable \<Rightarrow> mergeable \<Rightarrow> error + mergeable" where
  "merge_older buffer m =
     (case buffer of
        Some (Strings xs) \<Rightarrow>
          (case m of Some (Strings ys) \<Rightarrow> Inr (Some (Strings (ys @ xs))) | _ \<Rightarrow> Inl Panic)
      | Some (Counter c) \<Rightarrow>
          Inr (Some (Counter (c + (case m of Some (Counter d) \<Rightarrow> d | _ \<Rightarrow> 0))))
      | Some (Ids xs) \<Rightarrow>
          (case m of Some (Ids ys) \<Rightarrow> Inr (Some (Ids (ys @ xs))) | _ \<Rightarrow> Inl Panic)
      | None \<Rightarrow> Inr m)"

definition MergeNewer :: "mergeable codec \<Rightarrow> mergeable \<Rightarrow> bytes \<Rightarrow> error + mergeable" where
  "MergeNewer c buffer value =
     (case Unmarshal c value of Inl e \<Rightarrow> Inl e | Inr m \<Rightarrow> merge_newer buffer m)"

definition MergeOlder :: "mergeable codec \<Rightarrow> mergeable \<Rightarrow> bytes \<Rightarrow> error + mergeable" where
  "MergeOlder c buffer value =
     (case Unmarshal c value of Inl e \<Rightarrow> Inl e | Inr m \<Rightarrow> merge_older buffer m)"

definition Finish :: "mergeable codec \<Rightarrow> mergeable \<Rightarrow> error + bytes" where
  "Finish c buffer = Marshal c buffer"

definition NewKVMerge :: "mergeable codec \<Rightarrow> bytes \<Rightarrow> error + mergeable" where
  "NewKVMerge c value = (if value = [] then Inr None else Unmarshal c value)"

text \<open>
  One merge of an operand onto the value stored under the key: the merger starts from the newest
  operand and is given the older value.
\<close>

definition kv_merge :: "mergeable codec \<Rightarrow> bytes option \<Rightarrow> bytes \<Rightarrow> error + bytes" where
  "kv_merge c base operand =
     (case NewKVMerge c operand of
        Inl e \<Rightarrow> Inl e
      | Inr b \<Rightarrow>
          (case base of
             None \<Rightarrow> Finish c b
           | Some v \<Rightarrow> (case MergeOlder c b v of Inl e \<Rightarrow> Inl e | Inr b' \<Rightarrow> Finish c b')))"

subsection \<open>What the store asks of a merger\<close>

datatype 'm merge_step = Newer (step_operand: 'm) | Older (step_operand: 'm)

text \<open>A run of the merger over operands newer and older than those it holds, and their order.\<close>

fun merge_run :: "('b \<Rightarrow> 'm \<Rightarrow> error + 'b) \<Rightarrow> ('b \<Rightarrow> 'm \<Rightarrow> error + 'b) \<Rightarrow>
    'b \<Rightarrow> 'm merge_step list \<Rightarrow> error + 'b" where
  "merge_run newer older b [] = Inr b"
| "merge_run newer older b (Newer v # steps) =
     (case newer b v of Inl e \<Rightarrow> Inl e | Inr b' \<Rightarrow> merge_run newer older b' steps)"
| "merge_run newer older b (Older v # steps) =
     (case older b v of Inl e \<Rightarrow> Inl e | Inr b' \<Rightarrow> merge_run newer older b' steps)"

fun operands :: "'m list \<Rightarrow> 'm merge_step list \<Rightarrow> 'm list" where
  "operands seg [] = seg"
| "operands seg (Newer v # steps) = operands (seg @ [v]) steps"
| "operands seg (Older v # steps) = operands (v # seg) steps"

fun comb_list :: "('m \<Rightarrow> 'm \<Rightarrow> 'm) \<Rightarrow> 'm \<Rightarrow> 'm list \<Rightarrow> 'm" where
  "comb_list comb a [] = a"
| "comb_list comb a (b # bs) = comb a (comb_list comb b bs)"

lemma set_operands: "set (operands seg steps) = set seg \<union> step_operand ` set steps"
  by (induction seg steps rule: operands.induct) auto

locale value_merger =
  fixes newer older :: "'m \<Rightarrow> 'm \<Rightarrow> error + 'm"
    and ok :: "'m \<Rightarrow> bool"
    and comb :: "'m \<Rightarrow> 'm \<Rightarrow> 'm"
  assumes newer_comb: "ok b \<Longrightarrow> ok v \<Longrightarrow> newer b v = Inr (comb b v)"
    and older_comb: "ok b \<Longrightarrow> ok v \<Longrightarrow> older b v = Inr (comb v b)"
    and comb_ok: "ok a \<Longrightarrow> ok b \<Longrightarrow> ok (comb a b)"
    and comb_assoc: "ok a \<Longrightarrow> ok b \<Longrightarrow> ok c \<Longrightarrow> comb (comb a b) c = comb a (comb b c)"
begin

lemma comb_list_ok: "ok a \<Longrightarrow> \<forall>b\<in>set bs. ok b \<Longrightarrow> ok (comb_list comb a bs)"
  by (induction bs arbitrary: a) (auto intro: comb_ok)

lemma comb_list_snoc:
  "ok a \<Longrightarrow> \<forall>b\<in>set bs. ok b \<Longrightarrow> ok v \<Longrightarrow>
    comb_list comb a (bs @ [v]) = comb (comb_list comb a bs) v"
proof (induction bs arbitrary: a)
  case (Cons b bs)
  then have "ok (comb_list comb b bs)" by (intro comb_list_ok) auto
  with Cons show ?case by (simp add: comb_assoc)
qed simp

text \<open>The order in which the operands are handed over does not change the merged value.\<close>

lemma run_comb_list:
  assumes "ok a" and "\<forall>b\<in>set bs. ok b" and "\<forall>s\<in>set steps. ok (step_operand s)"
  shows "\<exists>a' bs'. operands (a # bs) steps = a' # bs' \<and>
    merge_run newer older (comb_list comb a bs) steps = Inr (comb_list comb a' bs')"
  using assms
proof (induction steps arbitrary: a bs)
  case (Cons s steps)
  have ok: "ok (comb_list comb a bs)"
    using Cons.prems by (intro comb_list_ok) auto
  show ?case
  proof (cases s)
    case (Newer v)
    with Cons.prems ok Cons.IH [of a "bs @ [v]"] show ?thesis
      by (auto simp: newer_comb comb_list_snoc)
  next
    case (Older v)
    with Cons.prems ok Cons.IH [of v "a # bs"] show ?thesis
      by (auto simp: older_comb)
  qed
qed simp

end

subsection \<open>KVMerge is such a merger on operands of one kind\<close>

definition is_counter :: "mergeable \<Rightarrow> bool" where
  "is_counter m \<longleftrightarrow> (case m of Some (Counter _) \<Rightarrow> True | None \<Rightarrow> True | _ \<Rightarrow> False)"

definition is_strings :: "mergeable \<Rightarrow> bool" where
  "is_strings m \<longleftrightarrow> (case m of Some (Strings _) \<Rightarrow> True | _ \<Rightarrow> False)"

definition is_ids :: "mergeable \<Rightarrow> bool" where
  "is_ids m \<longleftrightarrow> (case m of Some (Ids _) \<Rightarrow> True | _ \<Rightarrow> False)"

fun comb_value :: "mergeable \<Rightarrow> mergeable \<Rightarrow> mergeable" where
  "comb_value None m = m"
| "comb_value m None = m"
| "comb_value (Some (Counter c)) (Some (Counter d)) = Some (Counter (c + d))"
| "comb_value (Some (Strings xs)) (Some (Strings ys)) = Some (Strings (xs @ ys))"
| "comb_value (Some (Ids xs)) (Some (Ids ys)) = Some (Ids (xs @ ys))"
| "comb_value m _ = m"

lemmas kind_defs = is_counter_def is_strings_def is_ids_def merge_newer_def merge_older_def

interpretation counter_merger: value_merger merge_newer merge_older is_counter comb_value
  by unfold_locales
    (auto simp: kind_defs add.commute add.left_commute split: option.splits mergeable_value.splits)

interpretation strings_merger: value_merger merge_newer merge_older is_strings comb_value
  by unfold_locales (auto simp: kind_defs split: option.splits mergeable_value.splits)

interpretation ids_merger: value_merger merge_newer merge_older is_ids comb_value
  by unfold_locales (auto simp: kind_defs split: option.splits mergeable_value.splits)

text \<open>
  The merged value of a run, by kind: the sum of the counters, the lists in the order of their
  operands, oldest first.
\<close>

fun counter_of :: "mergeable \<Rightarrow> i64" where
  "counter_of (Some (Counter c)) = c"
| "counter_of _ = 0"

fun strings_of :: "mergeable \<Rightarrow> string list" where
  "strings_of (Some (Strings xs)) = xs"
| "strings_of _ = []"

lemma counter_of_comb_list:
  assumes "is_counter a" and "\<forall>b\<in>set bs. is_counter b"
  shows "counter_of (comb_list comb_value a bs) = sum_list (map counter_of (a # bs))"
  using assms
proof (induction bs arbitrary: a)
  case (Cons b bs)
  have "is_counter (comb_list comb_value b bs)"
    using Cons.prems by (intro counter_merger.comb_list_ok) auto
  then have "counter_of (comb_value a (comb_list comb_value b bs)) =
      counter_of a + counter_of (comb_list comb_value b bs)"
    using Cons.prems(1) by (auto simp: is_counter_def split: option.splits mergeable_value.splits)
  with Cons show ?case by simp
qed simp

lemma strings_of_comb_list:
  assumes "is_strings a" and "\<forall>b\<in>set bs. is_strings b"
  shows "comb_list comb_value a bs = Some (Strings (concat (map strings_of (a # bs))))"
  using assms
  by (induction bs arbitrary: a)
    (auto simp: is_strings_def split: option.splits mergeable_value.splits)

text \<open>A run over encoded operands is the run over the operands decoded.\<close>

definition decoded :: "mergeable codec \<Rightarrow> bytes \<Rightarrow> mergeable" where
  "decoded c raw = (case Unmarshal c raw of Inl e \<Rightarrow> None | Inr m \<Rightarrow> m)"

lemma merge_run_decoded:
  assumes "\<forall>s\<in>set steps. \<exists>m. Unmarshal c (step_operand s) = Inr m"
  shows "merge_run (MergeNewer c) (MergeOlder c) b steps =
    merge_run merge_newer merge_older b (map (map_merge_step (decoded c)) steps)"
  using assms
proof (induction steps arbitrary: b)
  case (Cons s steps)
  then show ?case
    by (cases s)
      (auto simp: MergeNewer_def MergeOlder_def decoded_def split: sum.splits)
qed simp

lemma step_operand_map [simp]: "step_operand (map_merge_step f s) = f (step_operand s)"
  by (cases s) auto

lemma operands_map: "operands (map f seg) (map (map_merge_step f) steps) = map f (operands seg steps)"
  by (induction seg steps rule: operands.induct) auto

lemma sum_list_operands:
  "sum_list (map (f :: 'm \<Rightarrow> 'a::comm_monoid_add) (operands seg steps)) =
    sum_list (map f seg) + sum_list (map (f \<circ> step_operand) steps)"
  by (induction seg steps rule: operands.induct) (auto simp: ac_simps)

subsection \<open>Properties\<close>

text \<open>
  merging encoded counters onto a buffer never fails and gives the sum of all of them, whatever
  the order in which the store hands over the newer and the older operands.
\<close>

theorem KVMerge_counter_sum:
  assumes "is_counter b"
    and "\<forall>s\<in>set steps. \<exists>m. Unmarshal c (step_operand s) = Inr m \<and> is_counter m"
  shows "\<exists>b'. merge_run (MergeNewer c) (MergeOlder c) b steps = Inr b' \<and> is_counter b' \<and>
    counter_of b' = counter_of b + (\<Sum>s\<leftarrow>steps. counter_of (decoded c (step_operand s)))"
proof -
  let ?steps = "map (map_merge_step (decoded c)) steps"
  have "\<forall>s\<in>set steps. \<exists>m. Unmarshal c (step_operand s) = Inr m"
    using assms(2) by blast
  note eq = merge_run_decoded [OF this]
  have ok: "\<forall>s\<in>set ?steps. is_counter (step_operand s)"
    using assms(2) by (auto simp: decoded_def)
  obtain a bs where run: "operands [b] ?steps = a # bs"
    "merge_run merge_newer merge_older b ?steps = Inr (comb_list comb_value a bs)"
    using counter_merger.run_comb_list [OF assms(1) _ ok, of "[]"] by auto
  have "\<forall>x\<in>set (a # bs). is_counter x"
    unfolding run(1) [symmetric] set_operands using ok assms(1) by auto
  then have counters: "is_counter a" "\<forall>x\<in>set bs. is_counter x" by simp_all
  have "sum_list (map counter_of (a # bs)) =
      counter_of b + (\<Sum>s\<leftarrow>steps. counter_of (decoded c (step_operand s)))"
    using sum_list_operands [of counter_of "[b]" ?steps] by (simp add: run(1) comp_def)
  with counters show ?thesis
    by (simp add: eq run(2) counter_of_comb_list counter_merger.comb_list_ok)
qed

theorem KVMerge_counter_sum_witness:
  "\<exists>b'. merge_run (MergeNewer (counting_codec None)) (MergeOlder (counting_codec None))
      (Some (Counter 5)) [Older (decimal (to_nat (Some (Counter 2)))),
        Newer (decimal (to_nat (Some (Counter (- 3)))))] = Inr b' \<and> counter_of b' = 4"
proof -
  let ?steps = "[Older (decimal (to_nat (Some (Counter 2)))),
    Newer (decimal (to_nat (Some (Counter (- 3)))))]"
  have "\<forall>s\<in>set ?steps. \<exists>m. Unmarshal (counting_codec None) (step_operand s) = Inr m \<and> is_counter m"
    by (simp add: is_counter_def)
  from KVMerge_counter_sum [OF _ this, of "Some (Counter 5)"]
  show ?thesis by (auto simp: is_counter_def decoded_def)
qed

text \<open>
  Merging encoded string lists gives the concatenation of the lists in the order they were
  written, oldest first, whatever the order in which they are handed over.
\<close>

theorem KVMerge_strings_in_order:
  assumes "is_strings b"
    and "\<forall>s\<in>set steps. \<exists>m. Unmarshal c (step_operand s) = Inr m \<and> is_strings m"
  shows "merge_run (MergeNewer c) (MergeOlder c) b steps =
    Inr (Some (Strings (concat (map strings_of
      (operands [b] (map (map_merge_step (decoded c)) steps))))))"
proof -
  let ?steps = "map (map_merge_step (decoded c)) steps"
  have "\<forall>s\<in>set steps. \<exists>m. Unmarshal c (step_operand s) = Inr m"
    using assms(2) by blast
  note eq = merge_run_decoded [OF this]
  have ok: "\<forall>s\<in>set ?steps. is_strings (step_operand s)"
    using assms(2) by (auto simp: decoded_def)
  obtain a bs where run: "operands [b] ?steps = a # bs"
    "merge_run merge_newer merge_older b ?steps = Inr (comb_list comb_value a bs)"
    using strings_merger.run_comb_list [OF assms(1) _ ok, of "[]"] by auto
  have "\<forall>x\<in>set (a # bs). is_strings x"
    unfolding run(1) [symmetric] set_operands using ok assms(1) by auto
  then show ?thesis
    by (simp add: eq run strings_of_comb_list)
qed

theorem KVMerge_strings_in_order_witness:
  "merge_run (MergeNewer (counting_codec None)) (MergeOlder (counting_codec None))
      (Some (Strings [''b''])) [Older (decimal (to_nat (Some (Strings [''a''])))),
        Newer (decimal (to_nat (Some (Strings [''c'']))))] =
    Inr (Some (Strings [''a'', ''b'', ''c'']))"
proof -
  let ?steps = "[Older (decimal (to_nat (Some (Strings [''a''])))),
    Newer (decimal (to_nat (Some (Strings [''c'']))))]"
  have "\<forall>s\<in>set ?steps. \<exists>m. Unmarshal (counting_codec None) (step_operand s) = Inr m \<and> is_strings m"
    by (simp add: is_strings_def)
  from KVMerge_strings_in_order [OF _ this, of "Some (Strings [''b''])"]
  show ?thesis by (simp add: is_strings_def decoded_def)
qed

end
