(* ===== verification/Store.thy ===== *)
theory Store
  imports Merger
begin

section \<open>The key-value store the repositories use\<close>

text \<open>
  Pebble is a library, so the open database is a parameter: a type \<open>'db\<close> and the operations the
  repositories call (\<open>pebble\<close>), together with the codecs of the message types (\<open>env\<close>). Writes
  return the new database and an error if there was one; an iterator is the list of the entries
  in its bounds at the time it was created. The locale \<open>store\<close> states the documented behaviour the
  repositories rely on, through the contents \<open>view db\<close> of a database: a write that returned no
  error is visible, one that failed was applied or not, a batch is applied as a whole, an iterator
  lists the entries in key order. \<open>store_up\<close> adds that no operation fails. An in-memory store
  satisfies both.
\<close>

datatype batch_op = BSet bytes bytes | BDelete bytes | BDeleteRange bytes "bytes option"
  | BMerge bytes bytes

record 'db pebble =
  pget :: "'db \<Rightarrow> bytes \<Rightarrow> error + bytes"
  pset :: "'db \<Rightarrow> bytes \<Rightarrow> bytes \<Rightarrow> 'db \<times> error option"
  pdelete :: "'db \<Rightarrow> bytes \<Rightarrow> 'db \<times> error option"
  pdelete_range :: "'db \<Rightarrow> bytes \<Rightarrow> bytes option \<Rightarrow> 'db \<times> error option"
  pmerge :: "'db \<Rightarrow> bytes \<Rightarrow> bytes \<Rightarrow> 'db \<times> error option"
  piter :: "'db \<Rightarrow> bytes \<times> bytes option \<Rightarrow> error + (bytes \<times> bytes) list"
  pbatch :: "batch_op list \<Rightarrow> batch_op \<Rightarrow> error + batch_op list"
  pcommit :: "'db \<Rightarrow> batch_op list \<Rightarrow> 'db \<times> error option"

record 'db env = "'db pebble" +
  C_User :: "user codec"
  C_Member :: "course_member codec"
  C_Course :: "course codec"
  C_Assignment :: "assignment codec"
  C_Submission :: "submission codec"
  C_Report :: "submission_report codec"
  C_Brief :: "submission_brief_report codec"
  C_Mergeable :: "mergeable codec"
  C_Manifest :: "manifest_metadata codec"
  C_File :: "manifest_file_metadata codec"
  C_VCode :: "verification_code_metadata codec"
  C_Grader :: "grader_status_metadata codec"
  C_Entry :: "leaderboard_entry codec"

subsection \<open>Operations the repositories share\<close>

text \<open>\<open>db.Get\<close> followed by \<open>proto.Unmarshal\<close>, and \<open>proto.Marshal\<close> followed by \<open>db.Set\<close>.\<close>

definition get_message :: "'db env \<Rightarrow> 'm codec \<Rightarrow> 'db \<Rightarrow> bytes \<Rightarrow> error + 'm" where
  "get_message E c db k = (case pget E db k of Inl e \<Rightarrow> Inl e | Inr raw \<Rightarrow> Unmarshal c raw)"

definition set_message :: "'db env \<Rightarrow> 'm codec \<Rightarrow> 'db \<Rightarrow> bytes \<Rightarrow> 'm \<Rightarrow> 'db \<times> error option" where
  "set_message E c db k m =
     (case Marshal c m of Inl e \<Rightarrow> (db, Some e) | Inr raw \<Rightarrow> pset E db k raw)"

text \<open>\<open>db.Get\<close> of an index entry whose value is a big-endian id.\<close>

definition get_id :: "'db env \<Rightarrow> 'db \<Rightarrow> bytes \<Rightarrow> error + u64" where
  "get_id E db k = (case pget E db k of Inl e \<Rightarrow> Inl e | Inr raw \<Rightarrow> BigEndian_Uint64 raw)"

text \<open>A sequence of batch operations, stopping at the first that fails.\<close>

fun batch_all :: "'db env \<Rightarrow> batch_op list \<Rightarrow> batch_op list \<Rightarrow> error + batch_op list" where
  "batch_all E b [] = Inr b"
| "batch_all E b (x # xs) = (case pbatch E b x of Inl e \<Rightarrow> Inl e | Inr b' \<Rightarrow> batch_all E b' xs)"

text \<open>The loop over an iterator that handles each entry and stops at the first error.\<close>

fun collect :: "('a \<Rightarrow> error + 'b) \<Rightarrow> 'a list \<Rightarrow> error + 'b list" where
  "collect f [] = Inr []"
| "collect f (x # xs) =
     (case f x of
        Inl e \<Rightarrow> Inl e
      | Inr y \<Rightarrow> (case collect f xs of Inl e \<Rightarrow> Inl e | Inr ys \<Rightarrow> Inr (y # ys)))"

text \<open>
  \<open>ScanIds\<close>: the ids at the end of the keys with a prefix; no ids (nil) if the iterator cannot be
  created.
\<close>

definition ScanIds :: "'db env \<Rightarrow> 'db \<Rightarrow> bytes \<Rightarrow> error + u64 list" where
  "ScanIds E db p =
     (case piter E db (PrefixIterOptions p) of
        Inl e \<Rightarrow> Inr []
      | Inr kvs \<Rightarrow> collect (\<lambda>(k, v). BigEndian_Uint64 (drop (length p) k)) kvs)"

lemma collect_Cons_Inr: "collect f (x # xs) = Inr ys \<longleftrightarrow>
    (\<exists>y zs. f x = Inr y \<and> collect f xs = Inr zs \<and> ys = y # zs)"
  by (auto split: sum.splits)

lemma collect_Inr_iff:
  "collect f xs = Inr ys \<longleftrightarrow> list_all2 (\<lambda>x y. f x = Inr y) xs ys"
proof (induction xs arbitrary: ys)
  case (Cons x xs)
  show ?case
    by (simp only: collect_Cons_Inr Cons.IH list_all2_Cons1) blast
qed auto

lemma collect_Ex: "\<forall>x\<in>set xs. \<exists>y. f x = Inr y \<Longrightarrow> \<exists>ys. collect f xs = Inr ys"
  by (induction xs) (force split: sum.splits)+

lemma collect_Inr_mem:
  assumes "collect f xs = Inr ys"
  shows "y \<in> set ys \<longleftrightarrow> (\<exists>x \<in> set xs. f x = Inr y)"
  using assms
proof (induction xs arbitrary: ys)
  case (Cons x xs)
  then show ?case by (auto simp: collect_Cons_Inr simp del: collect.simps)
qed simp

lemma collect_total: "(\<And>x. x \<in> set xs \<Longrightarrow> f x = Inr (g x)) \<Longrightarrow> collect f xs = Inr (map g xs)"
  by (induction xs) auto

lemma collect_suffix_ids:
  assumes "collect (\<lambda>(k, v). BigEndian_Uint64 (drop (length p) k)) kvs = Inr ids"
    and "\<forall>kv\<in>set kvs. \<exists>i. fst kv = p @ Uint64ToBytes i"
  shows "map fst kvs = map (\<lambda>i. p @ Uint64ToBytes i) ids"
  using assms
proof (induction kvs arbitrary: ids)
  case (Cons kv kvs)
  then show ?case
    by (cases kv) (fastforce simp: collect_Cons_Inr simp del: collect.simps)
qed simp

subsection \<open>Contents of a database\<close>

definition in_range :: "bytes \<Rightarrow> bytes option \<Rightarrow> bytes \<Rightarrow> bool" where
  "in_range lo hi k \<longleftrightarrow> in_bounds (lo, hi) k"

lemma in_range_prefix [simp]: "in_range p (KeyUpperBound p) k \<longleftrightarrow> prefix p k"
  using in_bounds_prefix [of p k] by (simp add: in_range_def PrefixIterOptions_def)

text \<open>The contents after a batch; \<open>None\<close> when a merge in it has no value.\<close>

fun batch_view :: "mergeable codec \<Rightarrow> batch_op list \<Rightarrow> (bytes \<rightharpoonup> bytes) \<Rightarrow> (bytes \<rightharpoonup> bytes) option" where
  "batch_view c [] m = Some m"
| "batch_view c (BSet k v # xs) m = batch_view c xs (m(k \<mapsto> v))"
| "batch_view c (BDelete k # xs) m = batch_view c xs (m(k := None))"
| "batch_view c (BDeleteRange lo hi # xs) m =
     batch_view c xs (\<lambda>k. if in_range lo hi k then None else m k)"
| "batch_view c (BMerge k v # xs) m =
     (case kv_merge c (m k) v of Inl e \<Rightarrow> None | Inr v' \<Rightarrow> batch_view c xs (m(k \<mapsto> v')))"

lemma batch_view_sets:
  "batch_view c (map (\<lambda>u. BSet (f u) w) us) m = Some (\<lambda>x. if x \<in> f ` set us then Some w else m x)"
  by (induction us arbitrary: m) (auto simp: fun_eq_iff)

locale store =
  fixes E :: "'db env" and view :: "'db \<Rightarrow> bytes \<rightharpoonup> bytes"
  assumes get_some: "pget E db k = Inr v \<Longrightarrow> view db k = Some v"
    and get_none: "pget E db k = Inl ErrNotFound \<Longrightarrow> view db k = None"
    and get_no_panic: "pget E db k \<noteq> Inl Panic"
    and set_view: "pset E db k v = (db', r) \<Longrightarrow>
      view db' = (view db)(k \<mapsto> v) \<or> r \<noteq> None \<and> view db' = view db"
    and delete_view: "pdelete E db k = (db', r) \<Longrightarrow>
      view db' = (view db)(k := None) \<or> r \<noteq> None \<and> view db' = view db"
    and delete_range_view: "pdelete_range E db lo (Some hi) = (db', r) \<Longrightarrow>
      view db' = (\<lambda>k. if in_range lo (Some hi) k then None else view db k) \<or>
      r \<noteq> None \<and> view db' = view db"
    and merge_view: "pmerge E db k v = (db', r) \<Longrightarrow>
      kv_merge (C_Mergeable E) (view db k) v = Inr v' \<Longrightarrow>
      view db' = (view db)(k \<mapsto> v') \<or> r \<noteq> None \<and> view db' = view db"
    and iter_entries: "piter E db b = Inr kvs \<Longrightarrow>
      set kvs = {(k, v). view db k = Some v \<and> in_bounds b k}"
    and iter_sorted: "piter E db b = Inr kvs \<Longrightarrow> sorted_wrt (<) (map fst kvs)"
    and batch_append: "pbatch E ops op = Inr ops' \<Longrightarrow> ops' = ops @ [op]"
    and commit_view: "pcommit E db ops = (db', r) \<Longrightarrow>
      batch_view (C_Mergeable E) ops (view db) = Some m \<Longrightarrow>
      view db' = m \<or> r \<noteq> None \<and> view db' = view db"
    and codec_user: "codec_ok (C_User E)"
    and codec_member: "codec_ok (C_Member E)"
    and codec_course: "codec_ok (C_Course E)"
    and codec_assignment: "codec_ok (C_Assignment E)"
    and codec_submission: "codec_ok (C_Submission E)"
    and codec_report: "codec_ok (C_Report E)"
    and codec_brief: "codec_ok (C_Brief E)"
    and codec_mergeable: "codec_ok (C_Mergeable E)"
    and codec_mergeable_empty: "Unmarshal (C_Mergeable E) [] = Inr None"
    and codec_counter: "\<exists>raw. Marshal (C_Mergeable E) (Some (Counter n)) = Inr raw"
    and codec_manifest: "codec_ok (C_Manifest E)"
    and codec_file: "codec_ok (C_File E)"
    and codec_vcode: "codec_ok (C_VCode E)"
    and codec_grader: "codec_ok (C_Grader E)"
    and codec_entry: "codec_ok (C_Entry E)"
begin

lemmas codecs = codec_user codec_member codec_course codec_assignment codec_submission
  codec_report codec_brief codec_mergeable codec_manifest codec_file codec_vcode codec_grader
  codec_entry

lemma set_ok [view_simps]: "pset E db k v = (db', None) \<Longrightarrow> view db' = (view db)(k \<mapsto> v)"
  by (drule set_view) simp

lemma delete_ok [view_simps]: "pdelete E db k = (db', None) \<Longrightarrow> view db' = (view db)(k := None)"
  by (drule delete_view) simp

lemma set_message_ok:
  assumes "set_message E c db k m = (db', None)"
  obtains raw where "Marshal c m = Inr raw" and "view db' = (view db)(k \<mapsto> raw)"
  using assms by (auto simp: set_message_def split: sum.splits dest: set_ok)

text \<open>A write of one message touches its key only, whether it returns an error or not.\<close>

lemma set_message_other:
  assumes "set_message E c db k m = (db', r)" and "k' \<noteq> k"
  shows "view db' k' = view db k'"
  using assms by (auto simp: set_message_def split: sum.splits dest!: set_view)

lemma get_message_Inr: "get_message E c db k = Inr m \<Longrightarrow> \<exists>raw. view db k = Some raw \<and> Unmarshal c raw = Inr m"
  by (auto simp: get_message_def split: sum.splits dest: get_some)

lemma get_message_view:
  assumes "view db k = Some raw" and "Unmarshal c raw = Inr m" and "get_message E c db k = Inr m'"
  shows "m' = m"
  using assms by (auto dest!: get_message_Inr)

lemma get_id_view:
  assumes "view db k = Some (Uint64ToBytes i)" and "get_id E db k = Inr j"
  shows "j = i"
  using assms by (auto simp: get_id_def split: sum.splits dest!: get_some)

lemma get_id_not_found: "get_id E db k = Inl ErrNotFound \<Longrightarrow> view db k = None"
  by (auto simp: get_id_def BigEndian_Uint64_def split: sum.splits if_splits dest: get_none)

lemma batch_all_append: "batch_all E b xs = Inr b' \<Longrightarrow> b' = b @ xs"
proof (induction xs arbitrary: b)
  case (Cons x xs)
  then obtain b1 where b1: "pbatch E b x = Inr b1" "batch_all E b1 xs = Inr b'"
    by (auto split: sum.splits)
  then show ?case using Cons.IH [OF b1(2)] batch_append [OF b1(1)] by simp
qed simp

lemma iter_prefix:
  assumes "piter E db (PrefixIterOptions p) = Inr kvs"
  shows "set kvs = {(k, v). view db k = Some v \<and> prefix p k}"
  using iter_entries [OF assms] by (simp add: in_bounds_prefix)

lemma iter_prefix_empty:
  assumes "piter E db (PrefixIterOptions p) = Inr kvs"
  shows "kvs = [] \<longleftrightarrow> \<not> (\<exists>k. prefix p k \<and> view db k \<noteq> None)"
proof -
  have "kvs = [] \<longleftrightarrow> set kvs = {}" by simp
  also have "\<dots> \<longleftrightarrow> \<not> (\<exists>k. prefix p k \<and> view db k \<noteq> None)"
    unfolding iter_prefix [OF assms] by auto
  finally show ?thesis .
qed

lemma iter_suffix_ids:
  assumes "piter E db (PrefixIterOptions p) = Inr kvs"
    and "\<And>k. view db k \<noteq> None \<Longrightarrow> prefix p k \<Longrightarrow> \<exists>i. k = p @ Uint64ToBytes i"
  shows "\<exists>ids. collect (\<lambda>(k, v). BigEndian_Uint64 (drop (length p) k)) kvs = Inr ids \<and>
    sorted_wrt (<) ids \<and> set ids = {i. view db (p @ Uint64ToBytes i) \<noteq> None}"
proof -
  note kvs = iter_prefix [OF assms(1)]
  have keys: "\<forall>kv\<in>set kvs. \<exists>i. fst kv = p @ Uint64ToBytes i"
    using kvs assms(2) by fastforce
  then have "\<forall>kv\<in>set kvs. \<exists>i. (\<lambda>(k, v). BigEndian_Uint64 (drop (length p) k)) kv = Inr i"
    by fastforce
  then obtain ids where c: "collect (\<lambda>(k, v). BigEndian_Uint64 (drop (length p) k)) kvs = Inr ids"
    using collect_Ex by blast
  note eq = collect_suffix_ids [OF c keys]
  have "sorted_wrt (<) (map fst kvs)" by (rule iter_sorted [OF assms(1)])
  then have "sorted_wrt (<) ids" unfolding eq by (simp add: sorted_wrt_map)
  moreover have "i \<in> set ids \<longleftrightarrow> view db (p @ Uint64ToBytes i) \<noteq> None" for i
  proof -
    have "i \<in> set ids \<longleftrightarrow> p @ Uint64ToBytes i \<in> set (map fst kvs)"
      unfolding eq by auto
    then show ?thesis using kvs by (force simp: image_iff)
  qed
  ultimately show ?thesis using c by auto
qed

lemma delete_prefix:
  assumes "KeyUpperBound p = Some u" and "pdelete_range E db p (Some u) = (db', None)"
  shows "view db' = (\<lambda>k. if prefix p k then None else view db k)"
  using delete_range_view [OF assms(2)] assms(1)
  by (simp add: in_range_def in_bounds_prefix [of p, unfolded PrefixIterOptions_def assms(1)])

end

text \<open>A store none of whose operations fails, with encodings for every message.\<close>

locale store_up = store +
  assumes get_present: "view db k = Some v \<Longrightarrow> pget E db k = Inr v"
    and get_absent: "view db k = None \<Longrightarrow> pget E db k = Inl ErrNotFound"
    and set_up: "\<exists>db'. pset E db k v = (db', None)"
    and delete_up: "\<exists>db'. pdelete E db k = (db', None)"
    and delete_range_up: "\<exists>db'. pdelete_range E db lo (Some hi) = (db', None)"
    and merge_up: "\<exists>db'. pmerge E db k v = (db', None)"
    and iter_up: "\<exists>kvs. piter E db b = Inr kvs"
    and batch_up: "pbatch E ops op = Inr (ops @ [op])"
    and commit_up: "\<exists>db'. pcommit E db ops = (db', None)"
begin

lemma get_id_present: "view db k = Some (Uint64ToBytes i) \<Longrightarrow> get_id E db k = Inr i"
  by (simp add: get_id_def get_present)

lemma get_message_present:
  "view db k = Some raw \<Longrightarrow> Unmarshal c raw = Inr m \<Longrightarrow> get_message E c db k = Inr m"
  by (simp add: get_message_def get_present)

lemma set_eq: "pset E db k v = (db', r) \<Longrightarrow> view db' = (view db)(k \<mapsto> v) \<and> r = None"
  using set_up [of db k v] by (auto dest: set_ok)

lemma delete_eq: "pdelete E db k = (db', r) \<Longrightarrow> view db' = (view db)(k := None) \<and> r = None"
  using delete_up [of db k] by (auto dest: delete_ok)

lemma pget_cong: "view db k = view db' k' \<Longrightarrow> pget E db k = pget E db' k'"
  by (cases "view db' k'") (simp_all add: get_present get_absent)

lemma iter_cong:
  assumes "\<And>k. prefix p k \<Longrightarrow> view db' k = view db k"
  shows "piter E db' (PrefixIterOptions p) = piter E db (PrefixIterOptions p)"
proof -
  obtain kvs kvs' where kvs: "piter E db (PrefixIterOptions p) = Inr kvs" "piter E db' (PrefixIterOptions p) = Inr kvs'"
    using iter_up by meson
  have set: "set kvs' = set kvs" using iter_prefix [OF kvs(1)] iter_prefix [OF kvs(2)] assms by auto
  have keys: "map fst kvs' = map fst kvs"
    using set iter_sorted [OF kvs(1)] iter_sorted [OF kvs(2)] by (intro strict_sorted_equal) auto
  have read: "xs = map (\<lambda>k. (k, the (view db k))) (map fst xs)" if "set xs = set kvs" for xs
    using that iter_prefix [OF kvs(1)] by (subst map_map) (rule map_idI [symmetric], auto)
  have "kvs' = kvs" using read [OF set] read [OF refl] keys by simp
  then show ?thesis by (simp add: kvs)
qed

lemma batch_all_up: "batch_all E b xs = Inr (b @ xs)"
  by (induction xs arbitrary: b) (auto simp: batch_up)

end

subsection \<open>An in-memory store\<close>

text \<open>
  An association list with the counting codecs: the laws above are consistent, and the witnesses
  of the properties run the repositories on it.
\<close>

type_synonym mem_db = "(bytes \<times> bytes) list"

definition mem_del :: "(bytes \<Rightarrow> bool) \<Rightarrow> mem_db \<Rightarrow> mem_db" where
  "mem_del P db = filter (\<lambda>kv. \<not> P (fst kv)) db"

definition mem_get :: "mem_db \<Rightarrow> bytes \<Rightarrow> error + bytes" where
  "mem_get db k = (case map_of db k of None \<Rightarrow> Inl ErrNotFound | Some v \<Rightarrow> Inr v)"

definition mem_merge :: "mem_db \<Rightarrow> bytes \<Rightarrow> bytes \<Rightarrow> mem_db" where
  "mem_merge db k v =
     (case kv_merge (counting_codec None) (map_of db k) v of
        Inl e \<Rightarrow> db
      | Inr v' \<Rightarrow> (k, v') # mem_del ((=) k) db)"

definition mem_iter :: "mem_db \<Rightarrow> bytes \<times> bytes option \<Rightarrow> (bytes \<times> bytes) list" where
  "mem_iter db b =
     map (\<lambda>k. (k, case map_of db k of Some v \<Rightarrow> v | None \<Rightarrow> []))
       (filter (in_bounds b) (sort (remdups (map fst db))))"

fun mem_apply :: "mem_db \<Rightarrow> batch_op list \<Rightarrow> mem_db" where
  "mem_apply db [] = db"
| "mem_apply db (BSet k v # xs) = mem_apply ((k, v) # mem_del ((=) k) db) xs"
| "mem_apply db (BDelete k # xs) = mem_apply (mem_del ((=) k) db) xs"
| "mem_apply db (BDeleteRange lo hi # xs) = mem_apply (mem_del (in_range lo hi) db) xs"
| "mem_apply db (BMerge k v # xs) = mem_apply (mem_merge db k v) xs"

definition mem_env :: "mem_db env" where
  "mem_env = \<lparr>pget = mem_get, pset = (\<lambda>db k v. ((k, v) # mem_del ((=) k) db, None)),
     pdelete = (\<lambda>db k. (mem_del ((=) k) db, None)),
     pdelete_range = (\<lambda>db lo hi. (mem_del (in_range lo hi) db, None)),
     pmerge = (\<lambda>db k v. (mem_merge db k v, None)), piter = (\<lambda>db b. Inr (mem_iter db b)),
     pbatch = (\<lambda>ops op. Inr (ops @ [op])), pcommit = (\<lambda>db ops. (mem_apply db ops, None)),
     C_User = counting_codec (from_nat 0), C_Member = counting_codec (from_nat 0),
     C_Course = counting_codec (from_nat 0), C_Assignment = counting_codec (from_nat 0),
     C_Submission = counting_codec (from_nat 0), C_Report = counting_codec (from_nat 0),
     C_Brief = counting_codec (from_nat 0), C_Mergeable = counting_codec None,
     C_Manifest = counting_codec (from_nat 0), C_File = counting_codec (from_nat 0),
     C_VCode = counting_codec (from_nat 0), C_Grader = counting_codec (from_nat 0),
     C_Entry = counting_codec (from_nat 0)\<rparr>"

lemma mem_env_simps [simp]:
  "pget mem_env = mem_get"
  "pset mem_env db k v = ((k, v) # mem_del ((=) k) db, None)"
  "pdelete mem_env db k = (mem_del ((=) k) db, None)"
  "pdelete_range mem_env db lo hi = (mem_del (in_range lo hi) db, None)"
  "pmerge mem_env db k v = (mem_merge db k v, None)"
  "piter mem_env db b = Inr (mem_iter db b)"
  "pbatch mem_env ops op = Inr (ops @ [op])"
  "pcommit mem_env db ops = (mem_apply db ops, None)"
  "C_User mem_env = counting_codec (from_nat 0)" "C_Member mem_env = counting_codec (from_nat 0)"
  "C_Course mem_env = counting_codec (from_nat 0)"
  "C_Assignment mem_env = counting_codec (from_nat 0)"
  "C_Submission mem_env = counting_codec (from_nat 0)"
  "C_Report mem_env = counting_codec (from_nat 0)"
  "C_Brief mem_env = counting_codec (from_nat 0)"
  "C_Mergeable mem_env = counting_codec None"
  "C_Manifest mem_env = counting_codec (from_nat 0)" "C_File mem_env = counting_codec (from_nat 0)"
  "C_VCode mem_env = counting_codec (from_nat 0)" "C_Grader mem_env = counting_codec (from_nat 0)"
  "C_Entry mem_env = counting_codec (from_nat 0)"
  by (simp_all add: mem_env_def)

lemma mem_del_view [simp]: "map_of (mem_del P db) = (\<lambda>k. if P k then None else map_of db k)"
  by (rule ext, induction db) (auto simp: mem_del_def)

lemma mem_set_view [simp]: "map_of ((k, v) # mem_del ((=) k) db) = (map_of db)(k \<mapsto> v)"
  by (rule ext) auto

lemma mem_delete_view [simp]: "map_of (mem_del ((=) k) db) = (map_of db)(k := None)"
  by (rule ext) auto

lemma mem_merge_view:
  "kv_merge (counting_codec None) (map_of db k) v = Inr v' \<Longrightarrow>
    map_of (mem_merge db k v) = (map_of db)(k \<mapsto> v')"
  unfolding mem_merge_def by (simp only: sum.case mem_set_view)

lemma mem_apply_view:
  "batch_view (counting_codec None) ops (map_of db) = Some m \<Longrightarrow> map_of (mem_apply db ops) = m"
proof (induction db ops rule: mem_apply.induct)
  case (4 db lo hi xs)
  then show ?case by (simp add: fun_eq_iff cong: if_cong)
next
  case (5 db k v xs)
  then obtain v' where v': "kv_merge (counting_codec None) (map_of db k) v = Inr v'"
      "batch_view (counting_codec None) xs ((map_of db)(k \<mapsto> v')) = Some m"
    by (cases "kv_merge (counting_codec None) (map_of db k) v") simp_all
  show ?case
    unfolding mem_apply.simps by (rule 5) (simp only: mem_merge_view [OF v'(1)] v'(2))
qed (simp_all del: map_of.simps mem_del_view)

lemma mem_iter_set: "set (mem_iter db b) = {(k, v). map_of db k = Some v \<and> in_bounds b k}"
proof -
  have "k \<in> fst ` set db \<longleftrightarrow> (\<exists>v. map_of db k = Some v)" for k
    by (metis map_of_eq_None_iff not_Some_eq)
  then show ?thesis by (auto simp: mem_iter_def image_iff split: option.splits)
qed

lemma mem_iter_sorted: "sorted_wrt (<) (map fst (mem_iter db b))"
proof -
  have "map fst (mem_iter db b) = filter (in_bounds b) (sort (remdups (map fst db)))"
    by (simp add: mem_iter_def comp_def)
  then show ?thesis
    by (simp add: sorted_wrt_filter strict_sorted_iff)
qed

interpretation mem: store_up mem_env map_of
proof unfold_locales
  show "piter mem_env db b = Inr kvs \<Longrightarrow> set kvs = {(k, v). map_of db k = Some v \<and> in_bounds b k}"
    for db b kvs by (auto simp: mem_iter_set)
  show "piter mem_env db b = Inr kvs \<Longrightarrow> sorted_wrt (<) (map fst kvs)" for db b kvs
    using mem_iter_sorted [of db b] by auto
  show "pcommit mem_env db ops = (db', r) \<Longrightarrow>
      batch_view (C_Mergeable mem_env) ops (map_of db) = Some m \<Longrightarrow>
      map_of db' = m \<or> r \<noteq> None \<and> map_of db' = map_of db" for db ops db' r m
    by (auto dest: mem_apply_view)
  show "pmerge mem_env db k v = (db', r) \<Longrightarrow>
      kv_merge (C_Mergeable mem_env) (map_of db k) v = Inr v' \<Longrightarrow>
      map_of db' = (map_of db)(k \<mapsto> v') \<or> r \<noteq> None \<and> map_of db' = map_of db" for db k v db' r v'
    by (auto dest: mem_merge_view)
qed (auto simp: mem_get_def split: option.splits)

lemmas mem_store = mem.store_axioms
lemmas mem_store_up = mem.store_up_axioms

subsection \<open>Properties\<close>

text \<open>
  when every key under a prefix is the prefix followed by an encoded id, \<open>ScanIds\<close> returns the
  ids stored under it, each once, in increasing order, and no id of a key outside it (unless the
  iterator cannot be created, when it returns none).
\<close>

theorem ScanIds_exact:
  assumes "store E view" and "\<And>k. view db k \<noteq> None \<Longrightarrow> prefix p k \<Longrightarrow> \<exists>i. k = p @ Uint64ToBytes i"
    and "piter E db (PrefixIterOptions p) = Inr kvs"
  shows "\<exists>ids. ScanIds E db p = Inr ids \<and> sorted_wrt (<) ids \<and>
    set ids = {i. view db (p @ Uint64ToBytes i) \<noteq> None}"
  using store.iter_suffix_ids [OF assms(1, 3, 2)] assms(3) by (auto simp: ScanIds_def)

theorem ScanIds_exact_witness:
  "\<exists>ids. ScanIds mem_env [(''a:'' @ Uint64ToBytes 7, []), (''b:'', []), (''a:'' @ Uint64ToBytes 3, [])]
      ''a:'' = Inr ids \<and> sorted_wrt (<) ids \<and> set ids = {3, 7}"
proof -
  let ?db = "[(''a:'' @ Uint64ToBytes 7, []), (''b:'', []), (''a:'' @ Uint64ToBytes 3, [])] :: mem_db"
  have "\<exists>ids. ScanIds mem_env ?db ''a:'' = Inr ids \<and> sorted_wrt (<) ids \<and>
      set ids = {i. map_of ?db (''a:'' @ Uint64ToBytes i) \<noteq> None}"
    by (rule ScanIds_exact [OF mem_store]) (auto split: if_splits)
  moreover have "{i. map_of ?db (''a:'' @ Uint64ToBytes i) \<noteq> None} = {3, 7}" by auto
  ultimately show ?thesis by simp
qed

end
