(* ===== verification/Sequencer.thy ===== *)
theory Sequencer
  imports Store
begin

section \<open>Id sequencers: pkg/repository/sequencer.go\<close>

text \<open>
  A \<open>KVSequencer\<close> hands out ids from memory and reserves them in the store in batches of
  \<open>BatchSize\<close>. Its operations under the mutex are atomic: they take the database and the
  sequencer and return both. The loop of \<open>GetNextId\<close> does not end when the ids wrap around, so it
  is a partial function, and its value \<open>None\<close> is a call that never returns.
\<close>

record kvseq =
  seq_key :: bytes
  seq_next :: u64
  seq_limit :: u64

definition BatchSize :: u64 where
  "BatchSize = 10"

definition requestNextBatch :: "'db env \<Rightarrow> 'db \<Rightarrow> kvseq \<Rightarrow> 'db \<times> kvseq \<times> error option" where
  "requestNextBatch E db q =
     (if seq_next q < seq_limit q then (db, q, None)
      else
        let nextLimit = seq_limit q + BatchSize
        in case pset E db (seq_key q) (Uint64ToBytes nextLimit) of
             (db', Some e) \<Rightarrow> (db', q, Some e)
           | (db', None) \<Rightarrow> (db', q\<lparr>seq_limit := nextLimit\<rparr>, None))"

partial_function (option) GetNextId_loop ::
    "'db env \<Rightarrow> 'db \<Rightarrow> kvseq \<Rightarrow> ('db \<times> kvseq \<times> (error + u64)) option" where
  "GetNextId_loop E db q =
     (if seq_limit q \<le> seq_next q
      then case requestNextBatch E db q of
             (db', q', Some e) \<Rightarrow> Some (db', q', Inl e)
           | (db', q', None) \<Rightarrow> GetNextId_loop E db' q'
      else Some (db, q\<lparr>seq_next := seq_next q + 1\<rparr>, Inr (seq_next q)))"

definition GetNextId :: "'db env \<Rightarrow> 'db \<Rightarrow> kvseq \<Rightarrow> 'db \<times> kvseq \<times> (error + u64)" where
  "GetNextId E db q =
     (case GetNextId_loop E db q of None \<Rightarrow> (db, q, Inl Diverges) | Some r \<Rightarrow> r)"

definition NewKVSequencer :: "'db env \<Rightarrow> 'db \<Rightarrow> bytes \<Rightarrow> 'db \<times> (error + kvseq)" where
  "NewKVSequencer E db key =
     (case (case pget E db key of Inr v \<Rightarrow> Inr v | Inl ErrNotFound \<Rightarrow> Inr (Uint64ToBytes 1)
              | Inl e \<Rightarrow> Inl e) of
        Inl e \<Rightarrow> (db, Inl e)
      | Inr idBytes \<Rightarrow>
          (case BigEndian_Uint64 idBytes of
             Inl e \<Rightarrow> (db, Inl e)
           | Inr i \<Rightarrow>
               (case requestNextBatch E db \<lparr>seq_key = key, seq_next = i, seq_limit = i\<rparr> of
                  (db', q, Some e) \<Rightarrow> (db', Inl e)
                | (db', q, None) \<Rightarrow> (db', Inr q))))"

subsection \<open>What a repository relies on\<close>

text \<open>
  A source of ids hands out the number it holds next and advances by one, and it writes its own
  key only.
\<close>

locale id_source =
  fixes view :: "'db \<Rightarrow> bytes \<rightharpoonup> bytes"
    and gen :: "'db \<Rightarrow> 'q \<Rightarrow> 'db \<times> 'q \<times> (error + u64)"
    and own :: "'q \<Rightarrow> bytes" and peek :: "'q \<Rightarrow> u64"
  assumes gen_own: "gen db q = (db', q', r) \<Longrightarrow> own q' = own q"
    and gen_other: "gen db q = (db', q', r) \<Longrightarrow> k \<noteq> own q \<Longrightarrow> view db' k = view db k"
    and gen_id: "gen db q = (db', q', Inr i) \<Longrightarrow> i = peek q \<and> peek q' = peek q + 1"
    and gen_err: "gen db q = (db', q', Inl e) \<Longrightarrow> peek q' = peek q"
begin

definition below :: "'db \<Rightarrow> (u64 \<Rightarrow> bytes) \<Rightarrow> 'q \<Rightarrow> bool" where
  "below db key q \<longleftrightarrow> (\<forall>i. view db (key i) \<noteq> None \<longrightarrow> i < peek q)"

lemma gen_fresh:
  assumes "below db key q" and "\<And>i. key i \<noteq> own q" and "gen db q = (db', q', Inr i)"
  shows "view db' (key i) = None"
proof -
  have "view db (key i) = None"
    using assms(1) gen_id [OF assms(3)] by (auto simp: below_def)
  then show ?thesis using gen_other [OF assms(3)] assms(2) by simp
qed

lemma gen_below:
  assumes "below db key q" and "\<And>i. key i \<noteq> own q" and "gen db q = (db', q', r)"
    and "peek q + 1 \<noteq> 0"
  shows "below db' key q'"
proof -
  have "view db' (key i) = view db (key i)" for i
    using gen_other [OF assms(3)] assms(2) by simp
  moreover have "peek q' = peek q \<or> peek q' = peek q + 1"
    using assms(3) gen_id gen_err by (cases r) auto
  moreover have "peek q < peek q + 1"
    using assms(4) by (rule u64_less_Suc)
  ultimately show ?thesis
    using assms(1) by (metis (no_types, lifting) below_def less_trans)
qed

end

context store
begin

lemma requestNextBatch_frame:
  assumes "requestNextBatch E db q = (db', q', r)"
  shows "seq_key q' = seq_key q \<and> seq_next q' = seq_next q \<and>
    (\<forall>k. k \<noteq> seq_key q \<longrightarrow> view db' k = view db k)"
  using assms
  by (auto simp: requestNextBatch_def Let_def split: if_splits prod.splits option.splits
      dest!: set_view)

lemma GetNextId_loop_frame:
  assumes "GetNextId_loop F db q = Some y" and "F = E"
  shows "seq_key (fst (snd y)) = seq_key q \<and>
    (\<forall>k. k \<noteq> seq_key q \<longrightarrow> view (fst y) k = view db k) \<and>
    (case snd (snd y) of Inl e \<Rightarrow> seq_next (fst (snd y)) = seq_next q
     | Inr i \<Rightarrow> i = seq_next q \<and> seq_next (fst (snd y)) = seq_next q + 1)"
  using assms
proof (induction rule: GetNextId_loop.raw_induct [rotated, consumes 1, case_names step])
  case (step loop F db q y)
  show ?case
  proof (cases "seq_limit q \<le> seq_next q")
    case True
    obtain db1 q1 r1 where b: "requestNextBatch E db q = (db1, q1, r1)"
      by (metis prod_cases3)
    note frame = requestNextBatch_frame [OF b]
    show ?thesis
    proof (cases r1)
      case None
      then have "loop F db1 q1 = Some y"
        using step.hyps True b by (simp add: \<open>F = E\<close>)
      from step.IH [OF this \<open>F = E\<close>] frame show ?thesis
        by (auto split: sum.splits)
    next
      case (Some e)
      then show ?thesis
        using step.hyps True b frame by (auto simp: \<open>F = E\<close>)
    qed
  next
    case False
    then show ?thesis using step.hyps by auto
  qed
qed

lemma GetNextId_frame:
  assumes "GetNextId E db q = (db', q', r)"
  shows "seq_key q' = seq_key q \<and> (\<forall>k. k \<noteq> seq_key q \<longrightarrow> view db' k = view db k) \<and>
    (case r of Inl e \<Rightarrow> seq_next q' = seq_next q
     | Inr i \<Rightarrow> i = seq_next q \<and> seq_next q' = seq_next q + 1)"
proof (cases "GetNextId_loop E db q")
  case None
  then show ?thesis using assms by (auto simp: GetNextId_def)
next
  case (Some y)
  with assms have y: "y = (db', q', r)" by (simp add: GetNextId_def)
  show ?thesis using GetNextId_loop_frame [OF Some refl] by (cases r) (simp_all add: y)
qed

sublocale seq: id_source view "GetNextId E" seq_key seq_next
  by unfold_locales (auto dest: GetNextId_frame)

end

text \<open>One round of the loop is enough when the limit does not wrap.\<close>

lemma GetNextId_unfold:
  assumes "seq_next q \<le> seq_limit q" and "unat (seq_limit q) + 10 < 2 ^ 64"
  shows "GetNextId_loop E db q = Some
     (if seq_next q < seq_limit q
      then (db, q\<lparr>seq_next := seq_next q + 1\<rparr>, Inr (seq_next q))
      else case pset E db (seq_key q) (Uint64ToBytes (seq_limit q + 10)) of
             (db', Some e) \<Rightarrow> (db', q, Inl e)
           | (db', None) \<Rightarrow> (db', q\<lparr>seq_limit := seq_limit q + 10, seq_next := seq_next q + 1\<rparr>,
               Inr (seq_next q)))"
proof (cases "seq_next q < seq_limit q")
  case True
  then have "\<not> seq_limit q \<le> seq_next q" by simp
  with True show ?thesis by (simp add: GetNextId_loop.simps [of E db q])
next
  case False
  with assms(1) have eq: "seq_next q = seq_limit q" by simp
  have lt: "seq_limit q < seq_limit q + 10"
    using unat_u64_add [of "seq_limit q" 10] assms(2) by (simp add: word_less_nat_alt)
  show ?thesis
    by (auto simp: GetNextId_loop.simps [of E db q] GetNextId_loop.simps [of E _ "_\<lparr>seq_limit := _\<rparr>"]
        requestNextBatch_def BatchSize_def Let_def eq lt not_le [THEN iffD2, OF lt]
        split: prod.splits option.splits)
qed

lemma GetNextId_in_batch:
  "seq_next q < seq_limit q \<Longrightarrow>
    GetNextId E db q = (db, q\<lparr>seq_next := seq_next q + 1\<rparr>, Inr (seq_next q))"
  by (simp add: GetNextId_def GetNextId_loop.simps [of E db q] not_le [symmetric])

subsection \<open>Ids across restarts\<close>

text \<open>
  A history of a key: calls of \<open>GetNextId\<close> and restarts of the server, which forget the sequencer
  and create it again from the store. The run collects the ids that were handed out.
\<close>

datatype seq_event = Seq_GetNextId | Seq_Restart

fun seq_step :: "'db env \<Rightarrow> bytes \<Rightarrow> 'db \<times> kvseq option \<Rightarrow> seq_event \<Rightarrow>
    ('db \<times> kvseq option) \<times> u64 list" where
  "seq_step E key (db, None) Seq_GetNextId = ((db, None), [])"
| "seq_step E key (db, Some q) Seq_GetNextId =
     (case GetNextId E db q of
        (db', q', Inl e) \<Rightarrow> ((db', Some q'), [])
      | (db', q', Inr i) \<Rightarrow> ((db', Some q'), [i]))"
| "seq_step E key (db, s) Seq_Restart =
     (case NewKVSequencer E db key of
        (db', Inl e) \<Rightarrow> ((db', None), [])
      | (db', Inr q) \<Rightarrow> ((db', Some q), []))"

fun seq_run :: "'db env \<Rightarrow> bytes \<Rightarrow> 'db \<times> kvseq option \<Rightarrow> seq_event list \<Rightarrow>
    ('db \<times> kvseq option) \<times> u64 list" where
  "seq_run E key s [] = (s, [])"
| "seq_run E key s (x # xs) =
     (case seq_step E key s x of (s1, is1) \<Rightarrow>
        (case seq_run E key s1 xs of (s2, is2) \<Rightarrow> (s2, is1 @ is2)))"

text \<open>The number reserved in the store: the ids below it may have been handed out.\<close>

definition reserved :: "('db \<Rightarrow> bytes \<rightharpoonup> bytes) \<Rightarrow> 'db \<Rightarrow> bytes \<Rightarrow> nat \<Rightarrow> bool" where
  "reserved view db key P \<longleftrightarrow>
     (view db key = None \<and> P = 1 \<or> view db key = Some (Uint64ToBytes (of_nat P)) \<and> 1 \<le> P)"

definition seq_inv :: "('db \<Rightarrow> bytes \<rightharpoonup> bytes) \<Rightarrow> bytes \<Rightarrow> 'db \<times> kvseq option \<Rightarrow> nat \<Rightarrow> nat \<Rightarrow> bool" where
  "seq_inv view key s hi P \<longleftrightarrow> reserved view (fst s) key P \<and> hi \<le> P \<and>
     (case snd s of None \<Rightarrow> True
      | Some q \<Rightarrow> seq_key q = key \<and> hi \<le> unat (seq_next q) \<and> seq_next q \<le> seq_limit q \<and>
          unat (seq_limit q) \<le> P \<and> P \<le> unat (seq_limit q) + 10)"


context store
begin

lemma reserved_set:
  assumes "pset E db key (Uint64ToBytes l) = (db', r)" and "reserved view db key P"
    and "P \<le> unat l"
  shows "reserved view db' key (unat l) \<or> r \<noteq> None \<and> reserved view db' key P"
  using set_view [OF assms(1)] assms(2, 3) by (auto simp: reserved_def)

lemma seq_next_ok:
  assumes inv: "seq_inv view key (db, Some q) hi P" and P: "P + 10 < 2 ^ 64"
    and gen: "GetNextId E db q = (db', q', r)"
  shows "\<exists>P'. P \<le> P' \<and> P' \<le> P + 10 \<and>
    (case r of Inl e \<Rightarrow> seq_inv view key (db', Some q') hi P'
     | Inr i \<Rightarrow> hi \<le> unat i \<and> unat i < P' \<and> seq_inv view key (db', Some q') (Suc (unat i)) P')"
proof -
  have q: "reserved view db key P" "hi \<le> P" "seq_key q = key" "hi \<le> unat (seq_next q)"
      "seq_next q \<le> seq_limit q" "unat (seq_limit q) \<le> P" "P \<le> unat (seq_limit q) + 10"
    using inv by (simp_all add: seq_inv_def)
  have lim: "unat (seq_limit q) + 10 < 2 ^ 64" using q(6) P by simp
  have l10: "unat (seq_limit q + 10) = unat (seq_limit q) + 10"
    using unat_u64_add [of "seq_limit q" 10] lim by simp
  have nx: "unat (seq_next q + 1) = unat (seq_next q) + 1"
    using unat_u64_add [of "seq_next q" 1] lim q(5) by (simp add: word_le_nat_alt)
  show ?thesis
  proof (cases "seq_next q < seq_limit q")
    case True
    then have "db' = db \<and> q' = q\<lparr>seq_next := seq_next q + 1\<rparr> \<and> r = Inr (seq_next q)"
      using gen by (simp add: GetNextId_def GetNextId_unfold [OF q(5) lim])
    then show ?thesis
      using q True nx by (intro exI [of _ P])
        (simp add: seq_inv_def word_less_nat_alt word_le_nat_alt)
  next
    case False
    with q(5) have eq: "seq_next q = seq_limit q" by simp
    obtain db1 r1 where w: "pset E db key (Uint64ToBytes (seq_limit q + 10)) = (db1, r1)"
      by (cases "pset E db key (Uint64ToBytes (seq_limit q + 10))")
    have "db' = db1"
      using gen w by (auto simp: GetNextId_def GetNextId_unfold [OF q(5) lim] eq q(3)
          split: option.splits)
    with reserved_set [OF w q(1)] q(7) l10
    obtain P' where P': "reserved view db' key P'" "P \<le> P'" "P' \<le> unat (seq_limit q) + 10"
      "r1 = None \<Longrightarrow> P' = unat (seq_limit q) + 10"
      by auto
    have "case r of Inl e \<Rightarrow> q' = q | Inr i \<Rightarrow> r1 = None \<and> i = seq_next q \<and>
        q' = q\<lparr>seq_limit := seq_limit q + 10, seq_next := seq_next q + 1\<rparr>"
      using gen w by (auto simp: GetNextId_def GetNextId_unfold [OF q(5) lim] eq q(3)
          split: option.splits)
    then show ?thesis
      using q P' l10 nx eq by (intro exI [of _ P'])
        (auto simp: seq_inv_def word_le_nat_alt split: sum.splits)
  qed
qed

lemma seq_restart_ok:
  assumes res: "reserved view db key P" and hi: "hi \<le> P" and P: "P + 10 < 2 ^ 64"
    and new: "NewKVSequencer E db key = (db', r)"
  shows "\<exists>P'. P \<le> P' \<and> P' \<le> P + 10 \<and>
    seq_inv view key (db', case r of Inl e \<Rightarrow> None | Inr q \<Rightarrow> Some q) hi P'"
proof -
  have nP: "unat (of_nat P :: u64) = P" using P by (simp add: unat_of_nat_u64)
  have nP10: "unat (of_nat P + 10 :: u64) = P + 10"
    using unat_u64_add [of "of_nat P" 10] P nP by simp
  show ?thesis
  proof (cases "db' = db \<and> (\<exists>e. r = Inl e)")
    case True
    then show ?thesis using res hi by (intro exI [of _ P]) (auto simp: seq_inv_def)
  next
    case False
    have raw: "case pget E db key of Inr v \<Rightarrow> v = Uint64ToBytes (of_nat P)
        | Inl e \<Rightarrow> e = ErrNotFound \<longrightarrow> P = 1"
      using res by (auto simp: reserved_def split: sum.splits dest: get_some get_none)
    let ?q = "\<lparr>seq_key = key, seq_next = of_nat P, seq_limit = of_nat P\<rparr> :: kvseq"
    have "(db', r) = (case requestNextBatch E db ?q of (db', q, Some e) \<Rightarrow> (db', Inl e)
        | (db', q, None) \<Rightarrow> (db', Inr q))"
      using new raw False
      by (auto simp: NewKVSequencer_def split: sum.splits error.splits)
    moreover obtain db1 r1 where w: "pset E db key (Uint64ToBytes (of_nat P + 10)) = (db1, r1)"
      by (cases "pset E db key (Uint64ToBytes (of_nat P + 10))")
    ultimately have *: "db' = db1" "r = (case r1 of Some e \<Rightarrow> Inl e
        | None \<Rightarrow> Inr (?q\<lparr>seq_limit := of_nat P + 10\<rparr>))"
      by (auto simp: requestNextBatch_def BatchSize_def Let_def split: option.splits)
    from reserved_set [OF w res] nP10 *(1)
    obtain P' where "reserved view db' key P'" "P \<le> P'" "P' \<le> P + 10"
      "r1 = None \<Longrightarrow> P' = P + 10"
      by auto
    then show ?thesis
      using hi nP nP10 *(2) by (intro exI [of _ P'])
        (auto simp: seq_inv_def word_le_nat_alt split: option.splits)
  qed
qed

lemma seq_step_ok:
  assumes "seq_inv view key s hi P" and "P + 10 < 2 ^ 64" and "seq_step E key s x = (s', is)"
  shows "\<exists>P' hi'. P \<le> P' \<and> P' \<le> P + 10 \<and> seq_inv view key s' hi' P' \<and> hi \<le> hi' \<and>
    (is = [] \<or> (\<exists>i. is = [i] \<and> hi \<le> unat i \<and> unat i < hi'))"
proof -
  obtain db t where s: "s = (db, t)" by (cases s)
  show ?thesis
  proof (cases x)
    case Seq_Restart
    obtain db' r where new: "NewKVSequencer E db key = (db', r)"
      by (cases "NewKVSequencer E db key")
    have "s' = (db', case r of Inl e \<Rightarrow> None | Inr q \<Rightarrow> Some q)" "is = []"
      using assms(3) s Seq_Restart new by (auto split: sum.splits)
    with seq_restart_ok [OF _ _ assms(2) new] assms(1) s show ?thesis
      by (fastforce simp: seq_inv_def)
  next
    case Seq_GetNextId
    show ?thesis
    proof (cases t)
      case None
      then show ?thesis using assms Seq_GetNextId s by auto
    next
      case (Some q)
      obtain db' q' r where gen: "GetNextId E db q = (db', q', r)" by (metis prod_cases3)
      from seq_next_ok [OF assms(1) [unfolded s Some] assms(2) gen]
      obtain P' where "P \<le> P'" "P' \<le> P + 10" "case r of Inl e \<Rightarrow> seq_inv view key (db', Some q') hi P'
        | Inr i \<Rightarrow> hi \<le> unat i \<and> unat i < P' \<and> seq_inv view key (db', Some q') (Suc (unat i)) P'"
        by blast
      moreover have "s' = (db', Some q')" "is = (case r of Inl e \<Rightarrow> [] | Inr i \<Rightarrow> [i])"
        using assms(3) s Seq_GetNextId Some gen by (auto split: sum.splits)
      ultimately show ?thesis by (cases r) (force intro: exI [of _ P'])+
    qed
  qed
qed

lemma seq_run_ok:
  assumes "seq_inv view key s hi P" and "P + 10 * length xs < 2 ^ 64"
    and "seq_run E key s xs = (s', is)"
  shows "sorted_wrt (<) is \<and> (\<forall>i\<in>set is. hi \<le> unat i)"
  using assms
proof (induction xs arbitrary: s hi P "is")
  case (Cons x xs)
  obtain s1 is1 where 1: "seq_step E key s x = (s1, is1)" by (cases "seq_step E key s x")
  obtain is2 where 2: "seq_run E key s1 xs = (s', is2)" and "is": "is = is1 @ is2"
    using Cons.prems(3) 1 by (auto split: prod.splits)
  have "P + 10 < 2 ^ 64" using Cons.prems(2) by simp
  from seq_step_ok [OF Cons.prems(1) this 1] obtain P1 hi1 where
    P1: "P1 \<le> P + 10" "seq_inv view key s1 hi1 P1" "hi \<le> hi1"
      "is1 = [] \<or> (\<exists>i. is1 = [i] \<and> hi \<le> unat i \<and> unat i < hi1)"
    by blast
  have "P1 + 10 * length xs < 2 ^ 64" using P1(1) Cons.prems(2) by simp
  from Cons.IH [OF P1(2) this 2] have *: "sorted_wrt (<) is2" "\<And>i. i \<in> set is2 \<Longrightarrow> hi1 \<le> unat i"
    by auto
  from P1(4) show ?case
  proof (elim disjE exE conjE)
    fix i assume i: "is1 = [i]" "hi \<le> unat i" "unat i < hi1"
    then have "i < j \<and> hi \<le> unat j" if "j \<in> set is2" for j
      using *(2) [OF that] by (simp add: word_less_nat_alt)
    then show ?thesis using i *(1) by (auto simp: "is")
  qed (use * P1(3) in \<open>auto simp: "is" intro: le_trans\<close>)
qed simp

end

subsection \<open>Properties\<close>

text \<open>
  C38: the ids a sequencer hands out are strictly increasing over the whole life of its key, server
  restarts and failed writes included, and none is below the number first reserved; so no id is
  ever handed out twice and zero is never handed out.
\<close>

theorem sequencer_ids_increase:
  assumes "store E view" and "reserved view db key P" and "P + 10 * length xs < 2 ^ 64"
    and "seq_run E key (db, None) xs = (s', ids)"
  shows "sorted_wrt (<) ids \<and> (\<forall>i\<in>set ids. P \<le> unat i \<and> i \<noteq> 0)"
proof -
  have "seq_inv view key (db, None) P P" using assms(2) by (simp add: seq_inv_def)
  from store.seq_run_ok [OF assms(1) this assms(3, 4)]
  show ?thesis using assms(2) by (auto simp: reserved_def)
qed

theorem sequencer_ids_increase_witness:
  "\<exists>s ids. seq_run mem_env ''user:next_id'' ([], None)
      [Seq_Restart, Seq_GetNextId, Seq_GetNextId, Seq_Restart, Seq_GetNextId] = (s, ids) \<and>
    ids = [1, 2, 11] \<and> sorted_wrt (<) ids \<and> (\<forall>i\<in>set ids. 1 \<le> unat i \<and> i \<noteq> 0)"
proof -
  let ?xs = "[Seq_Restart, Seq_GetNextId, Seq_GetNextId, Seq_Restart, Seq_GetNextId]"
  obtain s ids where run: "seq_run mem_env ''user:next_id'' ([], None) ?xs = (s, ids)"
    by (cases "seq_run mem_env ''user:next_id'' ([], None) ?xs")
  have "ids = [1, 2, 11]"
    using run by (simp add: NewKVSequencer_def requestNextBatch_def BatchSize_def mem_get_def
        GetNextId_in_batch)
  moreover have "reserved map_of [] ''user:next_id'' 1" by (simp add: reserved_def)
  ultimately show ?thesis
    using run sequencer_ids_increase [OF mem_store _ _ run, of 1] by auto
qed

text \<open>
  A call of \<open>GetNextId\<close> on a sequencer whose next id is at most its limit returns (its loop makes
  one round) as long as the limit does not wrap; it fails only when reserving the next batch in the
  store fails, and then no id is used up.
\<close>

theorem GetNextId_returns:
  assumes "seq_next q \<le> seq_limit q" and "unat (seq_limit q) + 10 < 2 ^ 64"
  shows "\<exists>db' q' r. GetNextId_loop E db q = Some (db', q', r) \<and>
    (case r of Inr i \<Rightarrow> i = seq_next q \<and> seq_next q' = seq_next q + 1 \<and> seq_next q' \<le> seq_limit q'
     | Inl e \<Rightarrow> q' = q \<and>
         pset E db (seq_key q) (Uint64ToBytes (seq_limit q + 10)) = (db', Some e))"
proof -
  have "seq_limit q \<le> seq_limit q + 10" "seq_next q + 1 \<le> seq_limit q + 10"
    "seq_next q < seq_limit q \<longrightarrow> seq_next q + 1 \<le> seq_limit q"
    using unat_u64_add [of "seq_limit q" 10] unat_u64_add [of "seq_next q" 1] assms
    by (simp_all add: word_le_nat_alt word_less_nat_alt)
  then show ?thesis
    by (cases "pset E db (seq_key q) (Uint64ToBytes (seq_limit q + 10))")
      (auto simp: GetNextId_unfold [OF assms] split: option.splits)
qed

theorem GetNextId_returns_witness:
  "\<exists>db' q'. GetNextId_loop mem_env [] \<lparr>seq_key = ''k'', seq_next = 7, seq_limit = 7\<rparr> =
     Some (db', q', Inr 7) \<and> seq_next q' = 8"
proof -
  let ?q = "\<lparr>seq_key = ''k'', seq_next = 7, seq_limit = 7\<rparr> :: kvseq"
  obtain db' q' r where "GetNextId_loop mem_env [] ?q = Some (db', q', r)"
    "case r of Inr i \<Rightarrow> i = seq_next ?q \<and> seq_next q' = seq_next ?q + 1 \<and> seq_next q' \<le> seq_limit q'
     | Inl e \<Rightarrow> q' = ?q \<and>
         pset mem_env [] (seq_key ?q) (Uint64ToBytes (seq_limit ?q + 10)) = (db', Some e)"
    using GetNextId_returns [of ?q mem_env "[]"] by auto
  then show ?thesis by (cases r) auto
qed

end
