(* ===== verification/GraderRepo.thy ===== *)
theory GraderRepo
  imports Sequencer
begin

section \<open>Graders and claims: pkg/repository/grader.go\<close>

text \<open>
  \<open>KVGraderRepository\<close> keeps the status of a grader under its id, the id under the grader's name, the
  metadata a grader stored, and the claims: which grader runs a submission, and under the grader's id
  the submissions it runs. Claiming and releasing write the two claim keys one after the other.
\<close>

definition grader_getMetadataPrefix :: "u64 \<Rightarrow> bytes" where
  "grader_getMetadataPrefix graderId = ''grader:metadata:id:'' @ id_text graderId @ '':''"

definition grader_getMetadataKey :: "u64 \<Rightarrow> bytes \<Rightarrow> bytes" where
  "grader_getMetadataKey graderId key = grader_getMetadataPrefix graderId @ key"

definition getGraderNameKey :: "string \<Rightarrow> bytes" where
  "getGraderNameKey name = ''grader:name:'' @ name"

definition getSubmissionGraderPrefix :: bytes where
  "getSubmissionGraderPrefix = ''running:submission:grader:''"

definition getGraderSubmissionPrefix :: "u64 \<Rightarrow> bytes" where
  "getGraderSubmissionPrefix graderId = ''running:grader:submission:'' @ id_text graderId @ '':''"

definition getGraderSubmissionKey :: "u64 \<Rightarrow> u64 \<Rightarrow> bytes" where
  "getGraderSubmissionKey graderId submissionId =
     ''running:grader:submission:'' @ id_text graderId @ '':'' @ id_text submissionId"

definition getSubmissionGraderKey :: "u64 \<Rightarrow> bytes" where
  "getSubmissionGraderKey submissionId = getSubmissionGraderPrefix @ Uint64ToBytes submissionId"

definition getGraderIdPrefix :: bytes where
  "getGraderIdPrefix = ''grader:id:''"

definition getGraderIdKey :: "u64 \<Rightarrow> bytes" where
  "getGraderIdKey graderId = getGraderIdPrefix @ Uint64ToBytes graderId"

lemmas grader_key_defs = grader_getMetadataPrefix_def grader_getMetadataKey_def getGraderNameKey_def
  getSubmissionGraderPrefix_def getGraderSubmissionPrefix_def getGraderSubmissionKey_def
  getSubmissionGraderKey_def getGraderIdPrefix_def getGraderIdKey_def

subsection \<open>Metadata of a grader\<close>

definition Repo_DeleteMetadata :: "'db env \<Rightarrow> 'db \<Rightarrow> u64 \<Rightarrow> bytes \<Rightarrow> 'db \<times> error option" where
  "Repo_DeleteMetadata E db graderId key = pdelete E db (grader_getMetadataKey graderId key)"

definition Repo_PutMetadata :: "'db env \<Rightarrow> 'db \<Rightarrow> u64 \<Rightarrow> bytes \<Rightarrow> bytes \<Rightarrow> 'db \<times> error option" where
  "Repo_PutMetadata E db graderId key value = pset E db (grader_getMetadataKey graderId key) value"

definition Repo_GetMetadata :: "'db env \<Rightarrow> 'db \<Rightarrow> u64 \<Rightarrow> bytes \<Rightarrow> error + bytes" where
  "Repo_GetMetadata E db graderId key = pget E db (grader_getMetadataKey graderId key)"

definition Repo_GetAllMetadata :: "'db env \<Rightarrow> 'db \<Rightarrow> u64 \<Rightarrow> error + (bytes \<times> bytes) list" where
  "Repo_GetAllMetadata E db graderId =
     (let p = grader_getMetadataPrefix graderId
      in case piter E db (PrefixIterOptions p) of
           Inl e \<Rightarrow> Inl e
         | Inr kvs \<Rightarrow> Inr (map (\<lambda>(k, v). (drop (length p) k, v)) kvs))"

subsection \<open>Graders\<close>

definition UpdateGrader :: "'db env \<Rightarrow> 'db \<Rightarrow> u64 \<Rightarrow> grader_status_metadata \<Rightarrow> 'db \<times> error option" where
  "UpdateGrader E db graderId grader = set_message E (C_Grader E) db (getGraderIdKey graderId) grader"

definition GetGraderIdByName :: "'db env \<Rightarrow> 'db \<Rightarrow> string \<Rightarrow> error + u64" where
  "GetGraderIdByName E db name = get_id E db (getGraderNameKey name)"

definition GetGraderById :: "'db env \<Rightarrow> 'db \<Rightarrow> u64 \<Rightarrow> error + grader_status_metadata" where
  "GetGraderById E db graderId = get_message E (C_Grader E) db (getGraderIdKey graderId)"

definition GetGraderByName :: "'db env \<Rightarrow> 'db \<Rightarrow> string \<Rightarrow> error + grader_status_metadata \<times> u64" where
  "GetGraderByName E db name =
     (case GetGraderIdByName E db name of
        Inl e \<Rightarrow> Inl e
      | Inr i \<Rightarrow> (case GetGraderById E db i of Inl e \<Rightarrow> Inl e | Inr g \<Rightarrow> Inr (g, i)))"

definition GetAllGraders :: "'db env \<Rightarrow> 'db \<Rightarrow> error + (u64 \<times> grader_status_metadata) list" where
  "GetAllGraders E db =
     (case piter E db (PrefixIterOptions getGraderIdPrefix) of
        Inl e \<Rightarrow> Inl e
      | Inr kvs \<Rightarrow>
          (case collect (\<lambda>(k, v).
             case BigEndian_Uint64 (drop (length getGraderIdPrefix) k) of
               Inl e \<Rightarrow> Inl e
             | Inr i \<Rightarrow> Inr (case Unmarshal (C_Grader E) v of Inl e \<Rightarrow> None | Inr g \<Rightarrow> Some (i, g))) kvs of
             Inl e \<Rightarrow> Inl e
           | Inr gs \<Rightarrow> Inr (List.map_filter id gs)))"

definition CreateGrader ::
    "'db env \<Rightarrow> 'db \<Rightarrow> kvseq \<Rightarrow> string \<Rightarrow> grader_status_metadata \<Rightarrow> 'db \<times> kvseq \<times> (error + u64)" where
  "CreateGrader E db q name metadata =
     (case GetNextId E db q of
        (db1, q1, Inl e) \<Rightarrow> (db1, q1, Inl e)
      | (db1, q1, Inr i) \<Rightarrow>
          (case UpdateGrader E db1 i metadata of
             (db2, Some e) \<Rightarrow> (db2, q1, Inl e)
           | (db2, None) \<Rightarrow>
               (case pset E db2 (getGraderNameKey name) (Uint64ToBytes i) of
                  (db3, Some e) \<Rightarrow> (db3, q1, Inl e)
                | (db3, None) \<Rightarrow> (db3, q1, Inr i))))"

definition DeleteGrader :: "'db env \<Rightarrow> 'db \<Rightarrow> u64 \<Rightarrow> 'db \<times> error option" where
  "DeleteGrader E db graderId = pdelete E db (getGraderIdKey graderId)"

definition NewKVGraderRepository :: "'db env \<Rightarrow> 'db \<Rightarrow> 'db \<times> (error + kvseq)" where
  "NewKVGraderRepository E db = NewKVSequencer E db ''grader:next_id''"

subsection \<open>Claims\<close>

definition ClearRunning :: "'db env \<Rightarrow> 'db \<Rightarrow> 'db" where
  "ClearRunning E db =
     (case piter E db (PrefixIterOptions ''running:'') of
        Inl e \<Rightarrow> db
      | Inr kvs \<Rightarrow> foldl (\<lambda>d (k, v). fst (pdelete E d k)) db kvs)"

definition GetSubmissionsByGrader :: "'db env \<Rightarrow> 'db \<Rightarrow> u64 \<Rightarrow> error + u64 list" where
  "GetSubmissionsByGrader E db graderId =
     (let p = getGraderSubmissionPrefix graderId
      in case piter E db (PrefixIterOptions p) of
           Inl e \<Rightarrow> Inl e
         | Inr kvs \<Rightarrow>
             Inr (List.map_filter (\<lambda>(k, v).
               case Atoi (drop (length p) k) of
                 (n, None) \<Rightarrow> Some (of_int n)
               | (n, Some e) \<Rightarrow> None) kvs))"

definition ReleaseSubmission :: "'db env \<Rightarrow> 'db \<Rightarrow> u64 \<Rightarrow> 'db \<times> error option" where
  "ReleaseSubmission E db submissionId =
     (case pget E db (getSubmissionGraderKey submissionId) of
        Inl e \<Rightarrow> (db, None)
      | Inr raw \<Rightarrow>
          (case BigEndian_Uint64 raw of
             Inl e \<Rightarrow> (db, Some e)
           | Inr graderId \<Rightarrow>
               (case pdelete E db (getSubmissionGraderKey submissionId) of
                  (db1, _) \<Rightarrow> pdelete E db1 (getGraderSubmissionKey graderId submissionId))))"

definition ClaimSubmission :: "'db env \<Rightarrow> 'db \<Rightarrow> u64 \<Rightarrow> u64 \<Rightarrow> 'db \<times> error option" where
  "ClaimSubmission E db graderId submissionId =
     (case pset E db (getSubmissionGraderKey submissionId) (Uint64ToBytes graderId) of
        (db1, Some e) \<Rightarrow> (db1, Some e)
      | (db1, None) \<Rightarrow> pset E db1 (getGraderSubmissionKey graderId submissionId) [])"

definition GetGraderIdBySubmissionId :: "'db env \<Rightarrow> 'db \<Rightarrow> u64 \<Rightarrow> error + u64" where
  "GetGraderIdBySubmissionId E db submissionId = get_id E db (getSubmissionGraderKey submissionId)"

definition GetGraderBySubmissionId ::
    "'db env \<Rightarrow> 'db \<Rightarrow> u64 \<Rightarrow> error + grader_status_metadata \<times> u64" where
  "GetGraderBySubmissionId E db submissionId =
     (case GetGraderIdBySubmissionId E db submissionId of
        Inl e \<Rightarrow> Inl e
      | Inr i \<Rightarrow> (case GetGraderById E db i of Inl e \<Rightarrow> Inl e | Inr g \<Rightarrow> Inr (g, i)))"

subsection \<open>The key layout\<close>

lemma grader_keys [key_intros, simp]:
  "getGraderSubmissionKey g s = getGraderSubmissionKey h t \<longleftrightarrow> g = h \<and> s = t"
  "getSubmissionGraderKey s = getSubmissionGraderKey t \<longleftrightarrow> s = t"
  "getGraderIdKey g = getGraderIdKey h \<longleftrightarrow> g = h"
  "getGraderNameKey m = getGraderNameKey n \<longleftrightarrow> m = n"
  "grader_getMetadataKey g k = grader_getMetadataKey h l \<longleftrightarrow> g = h \<and> k = l"
  "getSubmissionGraderKey t \<noteq> getGraderSubmissionKey g s" "getGraderSubmissionKey g s \<noteq> getSubmissionGraderKey t"
  "getGraderIdKey g \<noteq> getSubmissionGraderKey t" "getSubmissionGraderKey t \<noteq> getGraderIdKey g"
  "getGraderIdKey h \<noteq> getGraderSubmissionKey g s" "getGraderSubmissionKey g s \<noteq> getGraderIdKey h"
  "getGraderNameKey n \<noteq> getGraderIdKey g" "getGraderIdKey g \<noteq> getGraderNameKey n"
  "grader_getMetadataKey g k \<noteq> getGraderIdKey h" "getGraderIdKey h \<noteq> grader_getMetadataKey g k"
  "grader_getMetadataKey g k \<noteq> getGraderNameKey n" "getGraderNameKey n \<noteq> grader_getMetadataKey g k"
  "getGraderIdKey g \<noteq> ''grader:next_id''" "getGraderNameKey n \<noteq> ''grader:next_id''"
  "getSubmissionGraderKey t \<noteq> ''grader:next_id''" "getGraderSubmissionKey g s \<noteq> ''grader:next_id''"
  "prefix (getGraderSubmissionPrefix g) (getGraderSubmissionKey h s) \<longleftrightarrow> g = h"
  "prefix ''running:'' (getSubmissionGraderKey t)" "prefix ''running:'' (getGraderSubmissionKey g s)"
  "\<not> prefix (getGraderSubmissionPrefix g) (getSubmissionGraderKey t)"
  "\<not> prefix ''running:'' (getGraderIdKey g)" "\<not> prefix ''running:'' (getGraderNameKey n)"
  "\<not> prefix ''running:'' (grader_getMetadataKey g k)"
  by (auto simp: grader_key_defs)

lemma drop_grader_submission [simp]:
  "drop (length (getGraderSubmissionPrefix g)) (getGraderSubmissionKey g s) = id_text s"
  by (simp add: grader_key_defs)

subsection \<open>A registry of claims\<close>

text \<open>
  What the scheduler relies on: from a consistent registry, a claim of a submission nobody else holds
  gives it to the grader, a release takes it away, and the submissions a grader holds are those it
  owns.
\<close>

locale claim_registry =
  fixes consistent :: "'db \<Rightarrow> bool"
    and owner :: "'db \<Rightarrow> u64 \<Rightarrow> u64 option"
    and held :: "'db \<Rightarrow> u64 \<Rightarrow> u64 set"
    and claim :: "'db \<Rightarrow> u64 \<Rightarrow> u64 \<Rightarrow> 'db"
    and release :: "'db \<Rightarrow> u64 \<Rightarrow> 'db"
  assumes held_owner: "consistent db \<Longrightarrow> s \<in> held db g \<longleftrightarrow> owner db s = Some g"
    and claim_consistent: "consistent db \<Longrightarrow> owner db s = None \<or> owner db s = Some g \<Longrightarrow>
      consistent (claim db g s)"
    and claim_owner: "consistent db \<Longrightarrow> owner (claim db g s) = (owner db)(s \<mapsto> g)"
    and release_consistent: "consistent db \<Longrightarrow> consistent (release db s)"
    and release_owner: "consistent db \<Longrightarrow> owner (release db s) = (owner db)(s := None)"
begin

lemma held_disjoint: "consistent db \<Longrightarrow> s \<in> held db g \<Longrightarrow> s \<in> held db h \<Longrightarrow> g = h"
  by (simp add: held_owner)

lemma claim_held:
  assumes "consistent db" and "owner db s = None \<or> owner db s = Some g"
  shows "held (claim db g s) h = held db h \<union> (if h = g then {s} else {})"
  using assms claim_consistent [OF assms]
  by (auto simp: held_owner claim_owner split: if_splits)

lemma release_held:
  assumes "consistent db"
  shows "held (release db s) h = held db h - {s}"
  using assms release_consistent [OF assms, of s]
  by (auto simp: held_owner release_owner split: if_splits)

end

definition claim_owner :: "('db \<Rightarrow> bytes \<rightharpoonup> bytes) \<Rightarrow> 'db \<Rightarrow> u64 \<Rightarrow> u64 option" where
  "claim_owner view db s =
     (case view db (getSubmissionGraderKey s) of
        None \<Rightarrow> None
      | Some raw \<Rightarrow> (case BigEndian_Uint64 raw of Inl e \<Rightarrow> None | Inr g \<Rightarrow> Some g))"

definition claims_held :: "('db \<Rightarrow> bytes \<rightharpoonup> bytes) \<Rightarrow> 'db \<Rightarrow> u64 \<Rightarrow> u64 set" where
  "claims_held view db g = {s. view db (getGraderSubmissionKey g s) \<noteq> None}"

text \<open>The keys under a grader's prefix are claims, and the two sides of every claim agree.\<close>

definition claim_shape :: "('db \<Rightarrow> bytes \<rightharpoonup> bytes) \<Rightarrow> 'db \<Rightarrow> bool" where
  "claim_shape view db \<longleftrightarrow>
     (\<forall>g k. view db k \<noteq> None \<longrightarrow> prefix (getGraderSubmissionPrefix g) k \<longrightarrow>
        (\<exists>s. k = getGraderSubmissionKey g s))"

definition claims_consistent :: "('db \<Rightarrow> bytes \<rightharpoonup> bytes) \<Rightarrow> 'db \<Rightarrow> bool" where
  "claims_consistent view db \<longleftrightarrow>
     (\<forall>s. view db (getSubmissionGraderKey s) = None \<or>
        (\<exists>g. view db (getSubmissionGraderKey s) = Some (Uint64ToBytes g))) \<and>
     (\<forall>g s. view db (getGraderSubmissionKey g s) \<noteq> None \<longleftrightarrow>
        view db (getSubmissionGraderKey s) = Some (Uint64ToBytes g)) \<and>
     claim_shape view db"

context store_up
begin

lemma claim_view:
  "ClaimSubmission E db g s = (db', r) \<Longrightarrow> r = None \<and>
    view db' = (view db)(getSubmissionGraderKey s \<mapsto> Uint64ToBytes g, getGraderSubmissionKey g s \<mapsto> [])"
  by (cases "pset E db (getSubmissionGraderKey s) (Uint64ToBytes g)")
    (auto simp: ClaimSubmission_def split: option.splits dest!: set_eq)

lemma release_view:
  assumes "view db (getSubmissionGraderKey s) = Some (Uint64ToBytes g)"
    and "ReleaseSubmission E db s = (db', r)"
  shows "r = None \<and>
    view db' = (view db)(getSubmissionGraderKey s := None, getGraderSubmissionKey g s := None)"
proof -
  obtain db1 r1 where d: "pdelete E db (getSubmissionGraderKey s) = (db1, r1)"
    by (cases "pdelete E db (getSubmissionGraderKey s)")
  then have "pdelete E db1 (getGraderSubmissionKey g s) = (db', r)"
    using assms by (simp add: ReleaseSubmission_def get_present)
  from delete_eq [OF this] delete_eq [OF d] show ?thesis by simp
qed

lemma release_free:
  "view db (getSubmissionGraderKey s) = None \<Longrightarrow> ReleaseSubmission E db s = (db, None)"
  by (simp add: ReleaseSubmission_def get_absent)

lemma consistent_owner:
  assumes "claims_consistent view db"
  shows "view db (getSubmissionGraderKey s) = map_option Uint64ToBytes (claim_owner view db s)"
proof -
  have "view db (getSubmissionGraderKey s) = None \<or>
      (\<exists>g. view db (getSubmissionGraderKey s) = Some (Uint64ToBytes g))"
    using assms by (simp add: claims_consistent_def)
  then show ?thesis by (auto simp: claim_owner_def)
qed

lemma consistent_held:
  "claims_consistent view db \<Longrightarrow>
    view db (getGraderSubmissionKey g s) \<noteq> None \<longleftrightarrow> view db (getSubmissionGraderKey s) = Some (Uint64ToBytes g)"
  unfolding claims_consistent_def by blast

lemma consistent_claim_shape: "claims_consistent view db \<Longrightarrow> claim_shape view db"
  unfolding claims_consistent_def by blast

lemma claim_shapeD:
  "claim_shape view db \<Longrightarrow> view db k \<noteq> None \<Longrightarrow> prefix (getGraderSubmissionPrefix g) k \<Longrightarrow>
    \<exists>s. k = getGraderSubmissionKey g s"
  unfolding claim_shape_def by blast

lemmas consistent_shape = claim_shapeD [OF consistent_claim_shape]

lemma consistentI:
  assumes "\<And>s. view db (getSubmissionGraderKey s) = None \<or>
      (\<exists>g. view db (getSubmissionGraderKey s) = Some (Uint64ToBytes g))"
    and "\<And>g s. view db (getGraderSubmissionKey g s) \<noteq> None \<longleftrightarrow>
      view db (getSubmissionGraderKey s) = Some (Uint64ToBytes g)"
    and "\<And>g k. view db k \<noteq> None \<Longrightarrow> prefix (getGraderSubmissionPrefix g) k \<Longrightarrow>
      \<exists>s. k = getGraderSubmissionKey g s"
  shows "claims_consistent view db"
  using assms unfolding claims_consistent_def claim_shape_def by blast

lemma claim_consistent:
  assumes cons: "claims_consistent view db"
    and free: "view db (getSubmissionGraderKey s) \<in> {None, Some (Uint64ToBytes g)}"
    and v: "view db' = (view db)(getSubmissionGraderKey s \<mapsto> Uint64ToBytes g, getGraderSubmissionKey g s \<mapsto> [])"
  shows "claims_consistent view db'"
proof (rule consistentI)
  fix t show "view db' (getSubmissionGraderKey t) = None \<or>
      (\<exists>g. view db' (getSubmissionGraderKey t) = Some (Uint64ToBytes g))"
    using consistent_owner [OF cons, of t] by (cases "claim_owner view db t") (auto simp: v)
next
  fix h t show "view db' (getGraderSubmissionKey h t) \<noteq> None \<longleftrightarrow>
      view db' (getSubmissionGraderKey t) = Some (Uint64ToBytes h)"
    using consistent_held [OF cons, of h t] free by (auto simp: v)
next
  fix h k assume "view db' k \<noteq> None" "prefix (getGraderSubmissionPrefix h) k"
  then show "\<exists>s. k = getGraderSubmissionKey h s"
    using consistent_shape [OF cons, of k h] by (auto simp: v split: if_splits)
qed

lemma release_consistent:
  assumes cons: "claims_consistent view db"
    and own: "view db (getSubmissionGraderKey s) = Some (Uint64ToBytes g)"
    and v: "view db' = (view db)(getSubmissionGraderKey s := None, getGraderSubmissionKey g s := None)"
  shows "claims_consistent view db'"
proof (rule consistentI)
  fix t show "view db' (getSubmissionGraderKey t) = None \<or>
      (\<exists>g. view db' (getSubmissionGraderKey t) = Some (Uint64ToBytes g))"
    using consistent_owner [OF cons, of t] by (cases "claim_owner view db t") (auto simp: v)
next
  fix h t show "view db' (getGraderSubmissionKey h t) \<noteq> None \<longleftrightarrow>
      view db' (getSubmissionGraderKey t) = Some (Uint64ToBytes h)"
    using consistent_held [OF cons, of h t] own by (auto simp: v)
next
  fix h k assume "view db' k \<noteq> None" "prefix (getGraderSubmissionPrefix h) k"
  then show "\<exists>s. k = getGraderSubmissionKey h s"
    using consistent_shape [OF cons, of k h] by (auto simp: v split: if_splits)
qed

sublocale claims: claim_registry "claims_consistent view" "claim_owner view" "claims_held view"
    "\<lambda>db g s. fst (ClaimSubmission E db g s)" "\<lambda>db s. fst (ReleaseSubmission E db s)"
proof unfold_locales
  fix db g s
  assume cons: "claims_consistent view db"
  note own = consistent_owner [OF cons]
  show "s \<in> claims_held view db g \<longleftrightarrow> claim_owner view db s = Some g"
    using cons own [of s]
    by (cases "claim_owner view db s") (auto simp: claims_consistent_def claims_held_def)
  obtain db1 r1 where c: "ClaimSubmission E db g s = (db1, r1)" by (cases "ClaimSubmission E db g s")
  note v = claim_view [OF c, THEN conjunct2]
  show "claim_owner view (fst (ClaimSubmission E db g s)) = (claim_owner view db)(s \<mapsto> g)"
    by (auto simp: c claim_owner_def v fun_eq_iff)
  show "claims_consistent view (fst (ClaimSubmission E db g s))"
    if "claim_owner view db s = None \<or> claim_owner view db s = Some g"
    using claim_consistent [OF cons _ v] that own [of s] by (auto simp: c)
  obtain db2 r2 where r: "ReleaseSubmission E db s = (db2, r2)" by (cases "ReleaseSubmission E db s")
  have "claims_consistent view db2 \<and> claim_owner view db2 = (claim_owner view db)(s := None)"
  proof (cases "claim_owner view db s")
    case None
    then have "ReleaseSubmission E db s = (db, None)" using own [of s] by (intro release_free) simp
    then show ?thesis using cons None r by (auto simp: fun_eq_iff)
  next
    case (Some h)
    then have o: "view db (getSubmissionGraderKey s) = Some (Uint64ToBytes h)" using own [of s] by simp
    note rv = release_view [OF o r, THEN conjunct2]
    show ?thesis
      using release_consistent [OF cons o rv] by (auto simp: claim_owner_def rv fun_eq_iff)
  qed
  then show "claims_consistent view (fst (ReleaseSubmission E db s))"
    "claim_owner view (fst (ReleaseSubmission E db s)) = (claim_owner view db)(s := None)"
    by (simp_all add: r)
qed

end

subsection \<open>What the registry reads as\<close>

text \<open>
  A history of the registry: a claim is made of a submission nobody or the same grader holds, as the
  scheduler does; a release is made of anything.
\<close>

datatype claim_op = Op_Claim u64 u64 | Op_Release u64

fun claim_op_apply :: "'db env \<Rightarrow> 'db \<Rightarrow> claim_op \<Rightarrow> 'db" where
  "claim_op_apply E db (Op_Claim g s) =
     (if GetGraderIdBySubmissionId E db s \<in> {Inl ErrNotFound, Inr g}
      then fst (ClaimSubmission E db g s) else db)"
| "claim_op_apply E db (Op_Release s) = fst (ReleaseSubmission E db s)"

definition claims_run :: "'db env \<Rightarrow> 'db \<Rightarrow> claim_op list \<Rightarrow> 'db" where
  "claims_run E db ops = foldl (claim_op_apply E) db ops"

context store_up
begin

lemma owner_read:
  assumes "claims_consistent view db"
  shows "GetGraderIdBySubmissionId E db s =
    (case claim_owner view db s of None \<Rightarrow> Inl ErrNotFound | Some g \<Rightarrow> Inr g)"
  using consistent_owner [OF assms, of s]
  by (auto simp: GetGraderIdBySubmissionId_def get_id_def get_absent get_present split: option.splits)

lemma held_is_owned:
  assumes "claims_consistent view db"
  shows "claims_held view db g = {s. GetGraderIdBySubmissionId E db s = Inr g}"
  using claims.held_owner [OF assms] owner_read [OF assms] by (auto split: option.splits)

lemma held_read:
  assumes "claim_shape view db"
  shows "\<exists>xs. GetSubmissionsByGrader E db g = Inr xs \<and> distinct xs \<and>
    set xs = {s \<in> claims_held view db g. unat s < 2 ^ 63}"
proof -
  let ?p = "getGraderSubmissionPrefix g"
  let ?f = "\<lambda>(k :: bytes, v :: bytes). case Atoi (drop (length ?p) k) of
    (n, None) \<Rightarrow> Some (of_int n :: u64) | (n, Some e) \<Rightarrow> None"
  obtain kvs where kvs: "piter E db (PrefixIterOptions ?p) = Inr kvs" using iter_up by blast
  have key: "\<exists>s. fst kv = getGraderSubmissionKey g s \<and> s \<in> claims_held view db g \<and>
      ?f kv = (if unat s < 2 ^ 63 then Some s else None)" if "kv \<in> set kvs" for kv
  proof -
    obtain k v where kv: "kv = (k, v)" by (cases kv)
    with that iter_prefix [OF kvs] have k: "view db k = Some v" "prefix ?p k" by auto
    then obtain s where s: "k = getGraderSubmissionKey g s"
      using claim_shapeD [OF assms, of k g] by auto
    have "?f kv = (if unat s < 2 ^ 63 then Some s else None)"
      by (simp add: kv s Atoi_id_text)
    then show ?thesis using k(1) by (intro exI [of _ s]) (simp add: kv s claims_held_def)
  qed
  have "set (List.map_filter ?f kvs) = {s \<in> claims_held view db g. unat s < 2 ^ 63}"
  proof (intro set_eqI iffI)
    fix s assume "s \<in> set (List.map_filter ?f kvs)"
    then obtain kv where "kv \<in> set kvs" "?f kv = Some s" by (auto simp: map_filter_def)
    then show "s \<in> {s \<in> claims_held view db g. unat s < 2 ^ 63}"
      using key by (fastforce split: if_splits)
  next
    fix s assume s: "s \<in> {s \<in> claims_held view db g. unat s < 2 ^ 63}"
    then obtain v where "(getGraderSubmissionKey g s, v) \<in> set kvs"
      using iter_prefix [OF kvs] by (auto simp: claims_held_def)
    moreover have "?f (getGraderSubmissionKey g s, v) = Some s"
      using s by (simp add: Atoi_id_text)
    ultimately show "s \<in> set (List.map_filter ?f kvs)"
      by (force simp: map_filter_def)
  qed
  moreover have "distinct (List.map_filter ?f kvs)"
  proof -
    have "sorted_wrt (<) (map fst kvs)" by (rule iter_sorted [OF kvs])
    then have "distinct (map fst kvs)" using strict_sorted_iff by blast
    moreover have "fst x = fst y" if "x \<in> set kvs" "y \<in> set kvs" "?f x = Some s" "?f y = Some s" for x y s
      using key [OF that(1)] key [OF that(2)] that(3, 4) by (auto split: if_splits)
    ultimately show ?thesis
    proof (induction kvs)
      case (Cons kv kvs)
      have "?f kv = Some s \<Longrightarrow> s \<notin> set (List.map_filter ?f kvs)" for s
        using Cons.prems(1) Cons.prems(2) [of kv _ s]
        by (force simp: map_filter_def image_iff)
      moreover have "distinct (List.map_filter ?f kvs)"
        using Cons.prems by (intro Cons.IH) auto
      ultimately show ?case by (auto simp: map_filter_simps split: option.splits)
    qed (simp add: map_filter_simps)
  qed
  ultimately show ?thesis using kvs by (simp add: GetSubmissionsByGrader_def Let_def)
qed

lemma claims_run_consistent:
  "claims_consistent view db \<Longrightarrow> claims_consistent view (claims_run E db ops)"
proof (induction ops arbitrary: db)
  case (Cons x xs)
  have "claims_consistent view (claim_op_apply E db x)"
  proof (cases x)
    case (Op_Claim g s)
    then show ?thesis
      using Cons.prems owner_read [OF Cons.prems, of s] claims.claim_consistent [OF Cons.prems, of s g]
      by (cases "claim_owner view db s") auto
  next
    case (Op_Release s)
    then show ?thesis using claims.release_consistent [OF Cons.prems] by simp
  qed
  from Cons.IH [OF this] show ?case by (simp add: claims_run_def)
qed (simp add: claims_run_def)

end

text \<open>Deleting the keys an iterator listed.\<close>

context store_up
begin

lemma delete_all_view:
  "view (foldl (\<lambda>d (k, v). fst (pdelete E d k)) db kvs) =
    (\<lambda>k. if k \<in> fst ` set kvs then None else view db k)"
proof (induction kvs arbitrary: db)
  case (Cons kv kvs)
  obtain k v where kv: "kv = (k, v)" by (cases kv)
  obtain db1 r where d: "pdelete E db k = (db1, r)" by (cases "pdelete E db k")
  show ?case
    using Cons.IH [of db1] delete_eq [OF d] by (auto simp: kv d fun_eq_iff)
qed simp

lemma ClearRunning_view:
  "view (ClearRunning E db) = (\<lambda>k. if prefix ''running:'' k then None else view db k)"
proof -
  obtain kvs where kvs: "piter E db (PrefixIterOptions ''running:'') = Inr kvs" using iter_up by blast
  have "k \<in> fst ` set kvs \<longleftrightarrow> prefix ''running:'' k \<and> view db k \<noteq> None" for k
    unfolding iter_prefix [OF kvs] by (auto simp: image_iff)
  then show ?thesis by (auto simp: ClearRunning_def kvs delete_all_view fun_eq_iff)
qed

lemma ClearRunning_consistent: "claims_consistent view (ClearRunning E db)"
proof (rule consistentI)
  fix g k assume "view (ClearRunning E db) k \<noteq> None" "prefix (getGraderSubmissionPrefix g) k"
  moreover have "prefix (getGraderSubmissionPrefix g) k \<Longrightarrow> prefix ''running:'' k"
    by (auto simp: grader_key_defs prefix_def)
  ultimately show "\<exists>s. k = getGraderSubmissionKey g s"
    by (auto simp: ClearRunning_view split: if_splits)
qed (simp_all add: ClearRunning_view)

end

subsection \<open>Properties\<close>

text \<open>
  No submission is ever claimed by two graders. After the server cleared the claims at its start
  and through any history of claims of free submissions and releases, the submissions a grader lists
  are distinct and are exactly those the registry names it the owner of (with ids below 2^63, the
  ones \<open>Atoi\<close> reads), so the lists of two graders are disjoint.
\<close>

theorem claims_exclusive:
  assumes "store_up E view" and "db' = claims_run E (ClearRunning E db) ops"
  shows "(\<exists>xs. GetSubmissionsByGrader E db' g = Inr xs \<and> distinct xs \<and>
      set xs = {s. GetGraderIdBySubmissionId E db' s = Inr g \<and> unat s < 2 ^ 63}) \<and>
    (\<forall>h xs ys. g \<noteq> h \<longrightarrow> GetSubmissionsByGrader E db' g = Inr xs \<longrightarrow>
      GetSubmissionsByGrader E db' h = Inr ys \<longrightarrow> set xs \<inter> set ys = {})"
proof -
  have cons: "claims_consistent view db'"
    unfolding assms(2)
    by (intro store_up.claims_run_consistent [OF assms(1)] store_up.ClearRunning_consistent [OF assms(1)])
  note shape = store_up.consistent_claim_shape [OF assms(1) cons]
  have own: "claims_held view db' g = {s. GetGraderIdBySubmissionId E db' s = Inr g}" for g
    by (rule store_up.held_is_owned [OF assms(1) cons])
  have "\<exists>xs. GetSubmissionsByGrader E db' g = Inr xs \<and> distinct xs \<and>
      set xs = {s. GetGraderIdBySubmissionId E db' s = Inr g \<and> unat s < 2 ^ 63}" for g
    using store_up.held_read [OF assms(1) shape, of g] by (simp add: own)
  then show ?thesis by (metis (mono_tags, lifting) Int_emptyI mem_Collect_eq sum.inject(2))
qed

theorem claims_exclusive_witness:
  "\<exists>xs. GetSubmissionsByGrader mem_env (claims_run mem_env (ClearRunning mem_env [])
      [Op_Claim 1 7, Op_Claim 2 7, Op_Release 7, Op_Claim 2 7, Op_Claim 1 8]) 2 = Inr xs \<and> distinct xs"
  using claims_exclusive [OF mem_store_up refl, of "[]"
      "[Op_Claim 1 7, Op_Claim 2 7, Op_Release 7, Op_Claim 2 7, Op_Claim 1 8]" 2] by blast

text \<open>
  Clearing the running claims at the start of the server removes every claim and nothing else.
\<close>

theorem ClearRunning_clears:
  assumes "store_up E view"
  shows "GetSubmissionsByGrader E (ClearRunning E db) g = Inr [] \<and>
    GetGraderIdBySubmissionId E (ClearRunning E db) s = Inl ErrNotFound \<and>
    (\<forall>k. \<not> prefix ''running:'' k \<longrightarrow> view (ClearRunning E db) k = view db k)"
proof -
  note cons = store_up.ClearRunning_consistent [OF assms, of db]
  note shape = store_up.consistent_claim_shape [OF assms cons]
  note v = store_up.ClearRunning_view [OF assms, of db]
  have "claim_owner view (ClearRunning E db) s = None" by (simp add: claim_owner_def v)
  moreover have "claims_held view (ClearRunning E db) g = {}" by (simp add: claims_held_def v)
  ultimately show ?thesis
    using store_up.owner_read [OF assms cons, of s] store_up.held_read [OF assms shape, of g]
    by (auto simp: v)
qed

theorem ClearRunning_clears_witness:
  "\<exists>db. claims_run mem_env [] [Op_Claim 1 7] = db \<and>
    GetGraderIdBySubmissionId mem_env (ClearRunning mem_env db) 7 = Inl ErrNotFound"
  using ClearRunning_clears [OF mem_store_up, of "claims_run mem_env [] [Op_Claim 1 7]" 0 7] by blast

text \<open>
  A claim that takes over a submission leaks. When grader \<open>h\<close> claims a submission grader \<open>g\<close>
  holds, releasing the submission gives back \<open>h\<close>'s claim only: \<open>g\<close> lists the submission although
  nobody owns it any more, and no further release removes it.
\<close>

theorem takeover_leaks_claim:
  assumes "store_up E view" and "claims_consistent view db" and "g \<noteq> h" and "unat s < 2 ^ 63"
    and "ClaimSubmission E db g s = (db1, r1)" and "ClaimSubmission E db1 h s = (db2, r2)"
    and "ReleaseSubmission E db2 s = (db3, r3)"
  shows "GetGraderIdBySubmissionId E db3 s = Inl ErrNotFound \<and>
    view db3 (getGraderSubmissionKey g s) \<noteq> None \<and> view db3 (getGraderSubmissionKey h s) = None \<and>
    ReleaseSubmission E db3 s = (db3, None)"
proof -
  note c1 = store_up.claim_view [OF assms(1) assms(5), THEN conjunct2]
  note c2 = store_up.claim_view [OF assms(1) assms(6), THEN conjunct2]
  have "view db2 (getSubmissionGraderKey s) = Some (Uint64ToBytes h)" by (simp add: c2)
  note c3 = store_up.release_view [OF assms(1) this assms(7), THEN conjunct2]
  have none: "view db3 (getSubmissionGraderKey s) = None" by (simp add: c3)
  then show ?thesis
    using store_up.get_absent [OF assms(1) none] store_up.release_free [OF assms(1) none] assms(3)
    by (simp add: GetGraderIdBySubmissionId_def get_id_def) (simp add: c1 c2 c3)
qed

theorem takeover_leaks_claim_witness:
  "\<exists>db1 db2 db3. ClaimSubmission mem_env [] 1 7 = (db1, None) \<and>
    ClaimSubmission mem_env db1 2 7 = (db2, None) \<and> ReleaseSubmission mem_env db2 7 = (db3, None) \<and>
    map_of db3 (getGraderSubmissionKey 1 7) \<noteq> None"
proof -
  obtain db1 where 1: "ClaimSubmission mem_env [] 1 7 = (db1, None)" by (simp add: ClaimSubmission_def)
  obtain db2 where 2: "ClaimSubmission mem_env db1 2 7 = (db2, None)" by (simp add: ClaimSubmission_def)
  have "pget mem_env db2 (getSubmissionGraderKey 7) = Inr (Uint64ToBytes 2)"
    using mem.claim_view [OF 2] by (simp add: mem_get_def)
  then obtain db3 where 3: "ReleaseSubmission mem_env db2 7 = (db3, None)"
    by (simp add: ReleaseSubmission_def)
  have cons: "claims_consistent map_of []" by (simp add: claims_consistent_def claim_shape_def)
  from takeover_leaks_claim [OF mem_store_up cons _ _ 1 2 3] 1 2 3 show ?thesis by auto
qed

end
