(* ===== verification/SubmissionRepo.thy ===== *)
theory SubmissionRepo
  imports Sequencer
begin

section \<open>Assignments, submissions and reports: assignment.go, submission.go, submission_report.go\<close>

text \<open>
  Assignments and submissions are kept under their ids; the submissions of a user to an assignment
  are listed, with an empty value, under \<open>submission:user:assignment:\<close>. Reports, brief reports and
  the marks of unfinished submissions are under the submission's id.
\<close>

subsection \<open>Assignments\<close>

definition assignment_getIdKey :: "u64 \<Rightarrow> bytes" where
  "assignment_getIdKey i = ''assignment:id:'' @ id_text i"

definition Repo_UpdateAssignment :: "'db env \<Rightarrow> 'db \<Rightarrow> u64 \<Rightarrow> assignment \<Rightarrow> 'db \<times> error option" where
  "Repo_UpdateAssignment E db i a = set_message E (C_Assignment E) db (assignment_getIdKey i) a"

definition Repo_CreateAssignment ::
    "'db env \<Rightarrow> 'db \<Rightarrow> kvseq \<Rightarrow> assignment \<Rightarrow> 'db \<times> kvseq \<times> (error + u64)" where
  "Repo_CreateAssignment E db q a =
     (case GetNextId E db q of
        (db1, q1, Inl e) \<Rightarrow> (db1, q1, Inl e)
      | (db1, q1, Inr i) \<Rightarrow>
          (case Repo_UpdateAssignment E db1 i a of
             (db2, Some e) \<Rightarrow> (db2, q1, Inl e)
           | (db2, None) \<Rightarrow> (db2, q1, Inr i)))"

definition Repo_GetAssignment :: "'db env \<Rightarrow> 'db \<Rightarrow> u64 \<Rightarrow> error + assignment" where
  "Repo_GetAssignment E db i = get_message E (C_Assignment E) db (assignment_getIdKey i)"

definition NewKVAssignmentRepository :: "'db env \<Rightarrow> 'db \<Rightarrow> 'db \<times> (error + kvseq)" where
  "NewKVAssignmentRepository E db = NewKVSequencer E db ''assignment:next_id''"

subsection \<open>Submissions\<close>

definition submission_getIdKey :: "u64 \<Rightarrow> bytes" where
  "submission_getIdKey i = ''submission:id:'' @ id_text i"

definition getUserAssignmentPrefix :: "u64 \<Rightarrow> u64 \<Rightarrow> bytes" where
  "getUserAssignmentPrefix userId assignmentId =
     ''submission:user:assignment:'' @ id_text userId @ '':'' @ id_text assignmentId @ '':''"

definition getUserAssignmentKey :: "u64 \<Rightarrow> u64 \<Rightarrow> u64 \<Rightarrow> bytes" where
  "getUserAssignmentKey userId assignmentId submissionId =
     getUserAssignmentPrefix userId assignmentId @ Uint64ToBytes submissionId"

definition DeleteSubmissionsByUserAndAssignment ::
    "'db env \<Rightarrow> 'db \<Rightarrow> u64 \<Rightarrow> u64 \<Rightarrow> 'db \<times> error option" where
  "DeleteSubmissionsByUserAndAssignment E db userId assignmentId =
     (let p = getUserAssignmentPrefix userId assignmentId
      in pdelete_range E db p (KeyUpperBound p))"

definition GetSubmissionsByUserAndAssignment ::
    "'db env \<Rightarrow> 'db \<Rightarrow> u64 \<Rightarrow> u64 \<Rightarrow> error + u64 list" where
  "GetSubmissionsByUserAndAssignment E db userId assignmentId =
     (let p = getUserAssignmentPrefix userId assignmentId
      in case piter E db (PrefixIterOptions p) of
           Inl e \<Rightarrow> Inl e
         | Inr kvs \<Rightarrow> collect (\<lambda>(k, v). BigEndian_Uint64 (drop (length p) k)) kvs)"

definition Repo_CreateSubmission ::
    "'db env \<Rightarrow> 'db \<Rightarrow> kvseq \<Rightarrow> submission \<Rightarrow> 'db \<times> kvseq \<times> (error + u64)" where
  "Repo_CreateSubmission E db q s =
     (case Marshal (C_Submission E) s of
        Inl e \<Rightarrow> (db, q, Inl e)
      | Inr raw \<Rightarrow>
          (case GetNextId E db q of
             (db1, q1, Inl e) \<Rightarrow> (db1, q1, Inl e)
           | (db1, q1, Inr i) \<Rightarrow>
               (case batch_all E [] (BSet (submission_getIdKey i) raw #
                   map (\<lambda>userId. BSet (getUserAssignmentKey userId (Submission_AssignmentId s) i) [])
                     (Submission_Submitters s)) of
                  Inl e \<Rightarrow> (db1, q1, Inl e)
                | Inr batch \<Rightarrow>
                    (case pcommit E db1 batch of
                       (db2, Some e) \<Rightarrow> (db2, q1, Inl e)
                     | (db2, None) \<Rightarrow> (db2, q1, Inr i)))))"

definition Repo_GetSubmission :: "'db env \<Rightarrow> 'db \<Rightarrow> u64 \<Rightarrow> error + submission" where
  "Repo_GetSubmission E db i = get_message E (C_Submission E) db (submission_getIdKey i)"

definition NewKVSubmissionRepository :: "'db env \<Rightarrow> 'db \<Rightarrow> 'db \<times> (error + kvseq)" where
  "NewKVSubmissionRepository E db = NewKVSequencer E db ''submission:next_id''"

subsection \<open>Reports\<close>

definition getUnfinishedPrefix :: bytes where
  "getUnfinishedPrefix = ''submission:unfinished:''"

definition getUnfinishedKey :: "u64 \<Rightarrow> bytes" where
  "getUnfinishedKey i = getUnfinishedPrefix @ Uint64ToBytes i"

definition report_getIdKey :: "u64 \<Rightarrow> bytes" where
  "report_getIdKey i = ''submission_report:id:'' @ id_text i"

definition report_getBriefIdKey :: "u64 \<Rightarrow> bytes" where
  "report_getBriefIdKey i = ''submission_report:brief:'' @ id_text i"

definition MarkUnfinishedSubmission :: "'db env \<Rightarrow> 'db \<Rightarrow> u64 \<Rightarrow> u64 \<Rightarrow> 'db \<times> error option" where
  "MarkUnfinishedSubmission E db i assignmentId =
     pset E db (getUnfinishedKey i) (Uint64ToBytes assignmentId)"

definition DeleteUnfinishedSubmission :: "'db env \<Rightarrow> 'db \<Rightarrow> u64 \<Rightarrow> 'db \<times> error option" where
  "DeleteUnfinishedSubmission E db i = pdelete E db (getUnfinishedKey i)"

definition GetUnfinishedSubmissions :: "'db env \<Rightarrow> 'db \<Rightarrow> error + (u64 \<times> u64) list" where
  "GetUnfinishedSubmissions E db =
     (case piter E db (PrefixIterOptions getUnfinishedPrefix) of
        Inl e \<Rightarrow> Inl e
      | Inr kvs \<Rightarrow>
          collect (\<lambda>(k, v).
            case BigEndian_Uint64 (drop (length getUnfinishedPrefix) k) of
              Inl e \<Rightarrow> Inl e
            | Inr s \<Rightarrow> (case BigEndian_Uint64 v of Inl e \<Rightarrow> Inl e | Inr a \<Rightarrow> Inr (s, a))) kvs)"

definition UpdateSubmissionBriefReport ::
    "'db env \<Rightarrow> 'db \<Rightarrow> u64 \<Rightarrow> submission_brief_report \<Rightarrow> 'db \<times> error option" where
  "UpdateSubmissionBriefReport E db i b = set_message E (C_Brief E) db (report_getBriefIdKey i) b"

definition Repo_GetSubmissionBriefReport :: "'db env \<Rightarrow> 'db \<Rightarrow> u64 \<Rightarrow> error + submission_brief_report" where
  "Repo_GetSubmissionBriefReport E db i = get_message E (C_Brief E) db (report_getBriefIdKey i)"

definition DeleteSubmissionReport :: "'db env \<Rightarrow> 'db \<Rightarrow> u64 \<Rightarrow> 'db \<times> error option" where
  "DeleteSubmissionReport E db i = pdelete E db (report_getIdKey i)"

definition UpdateSubmissionReport ::
    "'db env \<Rightarrow> 'db \<Rightarrow> u64 \<Rightarrow> submission_report \<Rightarrow> 'db \<times> error option" where
  "UpdateSubmissionReport E db i r = set_message E (C_Report E) db (report_getIdKey i) r"

definition Repo_GetSubmissionReport :: "'db env \<Rightarrow> 'db \<Rightarrow> u64 \<Rightarrow> error + submission_report" where
  "Repo_GetSubmissionReport E db i = get_message E (C_Report E) db (report_getIdKey i)"

subsection \<open>The key layout\<close>

lemmas submission_key_defs = assignment_getIdKey_def submission_getIdKey_def
  getUserAssignmentPrefix_def getUserAssignmentKey_def getUnfinishedPrefix_def getUnfinishedKey_def
  report_getIdKey_def report_getBriefIdKey_def

lemma id_text_2colon [simp]:
  "id_text i @ CHR '':'' # id_text j @ CHR '':'' # a = id_text i' @ CHR '':'' # id_text j' @ CHR '':'' # b \<longleftrightarrow>
    i = i' \<and> j = j' \<and> a = b"
  by (simp add: colon_split [of "id_text i" "id_text i'"] del: id_text_colon)
    (simp add: colon_split)

lemma submission_keys [key_intros, simp]:
  "assignment_getIdKey i = assignment_getIdKey j \<longleftrightarrow> i = j"
  "submission_getIdKey i = submission_getIdKey j \<longleftrightarrow> i = j"
  "getUserAssignmentKey u a s = getUserAssignmentKey u' a' s' \<longleftrightarrow> u = u' \<and> a = a' \<and> s = s'"
  "getUnfinishedKey i = getUnfinishedKey j \<longleftrightarrow> i = j"
  "report_getIdKey i = report_getIdKey j \<longleftrightarrow> i = j"
  "report_getBriefIdKey i = report_getBriefIdKey j \<longleftrightarrow> i = j"
  "submission_getIdKey i \<noteq> getUserAssignmentKey u a s" "getUserAssignmentKey u a s \<noteq> submission_getIdKey i"
  "submission_getIdKey i \<noteq> getUnfinishedKey j" "getUnfinishedKey j \<noteq> submission_getIdKey i"
  "getUserAssignmentKey u a s \<noteq> getUnfinishedKey j" "getUnfinishedKey j \<noteq> getUserAssignmentKey u a s"
  "submission_getIdKey i \<noteq> ''submission:next_id''" "getUserAssignmentKey u a s \<noteq> ''submission:next_id''"
  "getUnfinishedKey j \<noteq> ''submission:next_id''"
  "report_getIdKey i \<noteq> report_getBriefIdKey j" "report_getBriefIdKey j \<noteq> report_getIdKey i"
  "report_getIdKey i \<noteq> getUnfinishedKey j" "getUnfinishedKey j \<noteq> report_getIdKey i"
  "report_getBriefIdKey i \<noteq> getUnfinishedKey j" "getUnfinishedKey j \<noteq> report_getBriefIdKey i"
  by (simp_all add: submission_key_defs)

lemma prefix_user_assignment_key [simp]:
  "prefix (getUserAssignmentPrefix u a) (getUserAssignmentKey u' a' s) \<longleftrightarrow> u = u' \<and> a = a'"
proof -
  have "prefix (getUserAssignmentPrefix u a) (getUserAssignmentKey u' a' s) \<longleftrightarrow>
      (\<exists>zs. getUserAssignmentKey u' a' s = getUserAssignmentPrefix u a @ zs)"
    by (simp add: prefix_def)
  then show ?thesis by (auto simp: submission_key_defs)
qed

subsection \<open>The index of submissions\<close>

text \<open>
  Every entry of the index is of a stored submission to that assignment that lists the user among
  its submitters, and no id at or above the sequencer's next one is in use.
\<close>

definition submission_inv :: "'db env \<Rightarrow> ('db \<Rightarrow> bytes \<rightharpoonup> bytes) \<Rightarrow> 'db \<Rightarrow> kvseq \<Rightarrow> bool" where
  "submission_inv E view db q \<longleftrightarrow>
     seq_key q = ''submission:next_id'' \<and>
     (\<forall>i. view db (submission_getIdKey i) \<noteq> None \<longrightarrow> i < seq_next q) \<and>
     (\<forall>u a k. view db k \<noteq> None \<longrightarrow> prefix (getUserAssignmentPrefix u a) k \<longrightarrow>
       (\<exists>i raw s. k = getUserAssignmentKey u a i \<and> view db (submission_getIdKey i) = Some raw \<and>
         Unmarshal (C_Submission E) raw = Inr s \<and> u \<in> set (Submission_Submitters s) \<and>
         Submission_AssignmentId s = a))"

context store
begin

lemma CreateSubmission_ok:
  assumes cr: "Repo_CreateSubmission E db q s = (db', q', Inr i)"
  shows "\<exists>raw. Marshal (C_Submission E) s = Inr raw \<and> i = seq_next q \<and>
    seq_key q' = seq_key q \<and> seq_next q' = seq_next q + 1 \<and>
    (\<forall>k. k \<noteq> seq_key q \<longrightarrow> view db' k =
      (if \<exists>u \<in> set (Submission_Submitters s). k = getUserAssignmentKey u (Submission_AssignmentId s) i
       then Some [] else if k = submission_getIdKey i then Some raw else view db k))"
proof -
  let ?ops = "\<lambda>raw i. BSet (submission_getIdKey i) raw #
    map (\<lambda>u. BSet (getUserAssignmentKey u (Submission_AssignmentId s) i) []) (Submission_Submitters s)"
  obtain raw where m: "Marshal (C_Submission E) s = Inr raw"
    using cr by (cases "Marshal (C_Submission E) s") (simp_all add: Repo_CreateSubmission_def)
  obtain db1 q1 r1 where gen: "GetNextId E db q = (db1, q1, r1)" by (metis prod_cases3)
  obtain j where r1: "r1 = Inr j"
    using cr m gen by (cases r1) (simp_all add: Repo_CreateSubmission_def)
  obtain batch where b: "batch_all E [] (?ops raw j) = Inr batch"
    using cr m gen r1 by (cases "batch_all E [] (?ops raw j)")
      (simp_all add: Repo_CreateSubmission_def del: batch_all.simps)
  obtain db2 r2 where c: "pcommit E db1 batch = (db2, r2)" by (cases "pcommit E db1 batch")
  have i: "i = j" "q' = q1" "db' = db2" "r2 = None"
    using cr m gen r1 b c
    by (cases r2; simp add: Repo_CreateSubmission_def del: batch_all.simps)+
  have frame: "seq_key q' = seq_key q" "i = seq_next q" "seq_next q' = seq_next q + 1"
    "\<And>k. k \<noteq> seq_key q \<Longrightarrow> view db1 k = view db k"
    using GetNextId_frame [OF gen] r1 i by simp_all
  have "view db' = (\<lambda>x. if x \<in> (\<lambda>u. getUserAssignmentKey u (Submission_AssignmentId s) i) `
      set (Submission_Submitters s) then Some [] else ((view db1)(submission_getIdKey i \<mapsto> raw)) x)"
    using commit_view [OF c] batch_all_append [OF b] unfolding i by (simp add: batch_view_sets)
  then show ?thesis
    using m frame by (intro exI [of _ raw]) (auto simp: image_iff)
qed

lemma submission_inv_index:
  assumes "submission_inv E view db q" and "GetSubmissionsByUserAndAssignment E db u a = Inr ids"
  shows "sorted_wrt (<) ids \<and> set ids = {i. view db (getUserAssignmentKey u a i) \<noteq> None}"
proof -
  let ?p = "getUserAssignmentPrefix u a"
  obtain kvs where kvs: "piter E db (PrefixIterOptions ?p) = Inr kvs"
    "collect (\<lambda>(k, v). BigEndian_Uint64 (drop (length ?p) k)) kvs = Inr ids"
    using assms(2) by (auto simp: GetSubmissionsByUserAndAssignment_def Let_def split: sum.splits)
  have "\<exists>i. k = ?p @ Uint64ToBytes i" if "view db k \<noteq> None" "prefix ?p k" for k
    using assms(1) that unfolding submission_inv_def getUserAssignmentKey_def by blast
  from iter_suffix_ids [OF kvs(1) this] kvs(2) show ?thesis
    by (simp add: getUserAssignmentKey_def)
qed

lemma CreateSubmission_inv:
  assumes inv: "submission_inv E view db q" and cr: "Repo_CreateSubmission E db q s = (db', q', Inr i)"
    and wrap: "seq_next q + 1 \<noteq> 0"
  shows "submission_inv E view db' q'"
proof -
  from CreateSubmission_ok [OF cr] inv obtain raw where
    m: "Marshal (C_Submission E) s = Inr raw" and i: "i = seq_next q" and
    q': "seq_key q' = ''submission:next_id''" "seq_next q' = seq_next q + 1" and
    v: "k \<noteq> ''submission:next_id'' \<Longrightarrow> view db' k =
      (if \<exists>u \<in> set (Submission_Submitters s). k = getUserAssignmentKey u (Submission_AssignmentId s) i
       then Some [] else if k = submission_getIdKey i then Some raw else view db k)" for k
    by (auto simp: submission_inv_def)
  have fresh: "view db (submission_getIdKey i) = None"
    using inv i by (auto simp: submission_inv_def)
  show ?thesis
    unfolding submission_inv_def
  proof (intro conjI allI impI)
    fix j assume "view db' (submission_getIdKey j) \<noteq> None"
    then have "j = i \<or> j < seq_next q" using inv by (auto simp: v submission_inv_def split: if_splits)
    then show "j < seq_next q'"
      using u64_less_Suc [OF wrap] by (auto simp: q' i intro: less_trans)
  next
    fix u a k assume k: "view db' k \<noteq> None" "prefix (getUserAssignmentPrefix u a) k"
    then have nid: "k \<noteq> ''submission:next_id''" by (auto simp: submission_key_defs)
    show "\<exists>i raw s. k = getUserAssignmentKey u a i \<and> view db' (submission_getIdKey i) = Some raw \<and>
        Unmarshal (C_Submission E) raw = Inr s \<and> u \<in> set (Submission_Submitters s) \<and>
        Submission_AssignmentId s = a"
    proof (cases "\<exists>w \<in> set (Submission_Submitters s).
        k = getUserAssignmentKey w (Submission_AssignmentId s) i")
      case True
      then have "k = getUserAssignmentKey u a i" "u \<in> set (Submission_Submitters s)"
        "Submission_AssignmentId s = a"
        using k(2) by auto
      then show ?thesis
        using codec_okD [OF codec_submission m] by (intro exI [of _ i] exI [of _ raw] exI [of _ s]) (simp add: v)
    next
      case False
      moreover have "k \<noteq> submission_getIdKey i" using k(2) by (auto simp: submission_key_defs)
      ultimately have "view db k \<noteq> None" using k(1) v [OF nid] by simp
      then obtain j raw' s' where "k = getUserAssignmentKey u a j" "view db (submission_getIdKey j) = Some raw'"
        "Unmarshal (C_Submission E) raw' = Inr s'" "u \<in> set (Submission_Submitters s')"
        "Submission_AssignmentId s' = a"
        using inv k(2) unfolding submission_inv_def by blast
      then show ?thesis
        using fresh by (intro exI [of _ j] exI [of _ raw'] exI [of _ s']) (auto simp: v)
    qed
  qed (use q' in auto)
qed

end

context store_up
begin

lemma index_total:
  assumes "submission_inv E view db q"
  shows "\<exists>ids. GetSubmissionsByUserAndAssignment E db u a = Inr ids \<and>
    set ids = {i. view db (getUserAssignmentKey u a i) \<noteq> None}"
proof -
  let ?p = "getUserAssignmentPrefix u a"
  obtain kvs where kvs: "piter E db (PrefixIterOptions ?p) = Inr kvs" using iter_up by blast
  have "\<exists>i. k = ?p @ Uint64ToBytes i" if "view db k \<noteq> None" "prefix ?p k" for k
    using assms that unfolding submission_inv_def getUserAssignmentKey_def by blast
  from iter_suffix_ids [OF kvs this] kvs show ?thesis
    by (auto simp: GetSubmissionsByUserAndAssignment_def Let_def getUserAssignmentKey_def)
qed

end

subsection \<open>Properties\<close>

text \<open>
  a created submission is stored under a fresh id and is listed for exactly its submitters: the
  index of a user and an assignment gains that id when the user is a submitter of it and the
  assignment is its own, and every other index lists what it listed.
\<close>

theorem CreateSubmission_indexed:
  assumes "store_up E view" and "submission_inv E view db q" and "seq_next q + 1 \<noteq> 0"
    and "Repo_CreateSubmission E db q s = (db', q', Inr i)"
  shows "Repo_GetSubmission E db' i = Inr s \<and> Repo_GetSubmission E db i = Inl ErrNotFound \<and>
    (\<exists>old new. GetSubmissionsByUserAndAssignment E db u a = Inr old \<and>
      GetSubmissionsByUserAndAssignment E db' u a = Inr new \<and> i \<notin> set old \<and>
      set new = set old \<union>
        (if u \<in> set (Submission_Submitters s) \<and> a = Submission_AssignmentId s then {i} else {}))"
proof -
  note st = store_up.axioms(1) [OF assms(1)]
  note inv' = store.CreateSubmission_inv [OF st assms(2, 4, 3)]
  have key: "seq_key q = ''submission:next_id''" using assms(2) by (simp add: submission_inv_def)
  from store.CreateSubmission_ok [OF st assms(4)] obtain raw where
    m: "Marshal (C_Submission E) s = Inr raw" and i: "i = seq_next q" and
    v: "\<And>k. k \<noteq> seq_key q \<Longrightarrow> view db' k =
      (if \<exists>u \<in> set (Submission_Submitters s). k = getUserAssignmentKey u (Submission_AssignmentId s) i
       then Some [] else if k = submission_getIdKey i then Some raw else view db k)"
    by blast
  have fresh: "view db (submission_getIdKey i) = None"
    using assms(2) i by (auto simp: submission_inv_def)
  have "view db' (submission_getIdKey i) = Some raw" by (simp add: v key)
  then have "Repo_GetSubmission E db' i = Inr s"
    using store_up.get_message_present [OF assms(1)] codec_okD [OF store.codec_submission [OF st] m]
    by (simp add: Repo_GetSubmission_def)
  moreover have "Repo_GetSubmission E db i = Inl ErrNotFound"
    using store_up.get_absent [OF assms(1) fresh] by (simp add: Repo_GetSubmission_def get_message_def)
  moreover obtain old where old: "GetSubmissionsByUserAndAssignment E db u a = Inr old"
    "set old = {i. view db (getUserAssignmentKey u a i) \<noteq> None}"
    using store_up.index_total [OF assms(1, 2)] by blast
  moreover obtain new where "GetSubmissionsByUserAndAssignment E db' u a = Inr new"
    "set new = {i. view db' (getUserAssignmentKey u a i) \<noteq> None}"
    using store_up.index_total [OF assms(1) inv'] by blast
  moreover have "i \<notin> set old"
  proof
    assume "i \<in> set old"
    then have "view db (getUserAssignmentKey u a i) \<noteq> None" by (simp add: old)
    moreover have "prefix (getUserAssignmentPrefix u a) (getUserAssignmentKey u a i)" by simp
    ultimately obtain j where "getUserAssignmentKey u a i = getUserAssignmentKey u a j"
      "view db (submission_getIdKey j) \<noteq> None"
      using assms(2) unfolding submission_inv_def by (metis option.distinct(1))
    then show False using fresh by simp
  qed
  ultimately show ?thesis by (auto simp: v key)
qed

definition sample_submission :: submission where
  "sample_submission = \<lparr>Submission_AssignmentId = 9, Submission_SubmittedAt = Some 0,
     Submission_Submitters = [4, 5], Submission_Path = ''uploads/manifests/1'',
     Submission_Files = [''a.c''], Submission_LeaderboardName = ''n'', Submission_UserId = 4\<rparr>"

theorem CreateSubmission_indexed_witness:
  "\<exists>db q. Repo_CreateSubmission mem_env []
       \<lparr>seq_key = ''submission:next_id'', seq_next = 1, seq_limit = 11\<rparr> sample_submission = (db, q, Inr 1) \<and>
     (\<exists>new. GetSubmissionsByUserAndAssignment mem_env db 5 9 = Inr new \<and> 1 \<in> set new)"
proof -
  let ?q = "\<lparr>seq_key = ''submission:next_id'', seq_next = 1, seq_limit = 11\<rparr> :: kvseq"
  have inv: "submission_inv mem_env map_of [] ?q" by (simp add: submission_inv_def)
  obtain db q where cr: "Repo_CreateSubmission mem_env [] ?q sample_submission = (db, q, Inr 1)"
    by (simp add: Repo_CreateSubmission_def GetNextId_in_batch sample_submission_def)
  show ?thesis
    using cr CreateSubmission_indexed [OF mem_store_up inv _ cr, of 5 9]
    by (auto simp: sample_submission_def)
qed

end
