(* ===== verification/Hub.thy ===== *)
theory Hub
  imports Mailbox GraderRepo SubmissionRepo "HOL-Library.AList"
begin

section \<open>The grader hub: scheduling (pkg/grader/grpc/graderhub_service.go)\<close>

text \<open>
  The state of \<open>GraderHubService\<close> and the operations that queue, schedule and requeue submissions.
  Every mutex protects a part of the state for the whole of an operation, so the operations are
  functions from state to state. Objects that several parts point to have addresses: the outboxes,
  the mailboxes and the elements of \<open>container/list\<close>. A Go map that is iterated is an association
  list. Log messages are left out; an error that is only logged is dropped.
\<close>

record pending =
  pd_rank :: int
  pd_request :: grade_request

record graderLoad =
  load_concurrency :: u64
  load_tags :: "string list"
  load_running :: u64

text \<open>
  \<open>ClientLogStream\<close>: whether the client's context is done, the chunks handed over its channel, and
  whether the channel is closed.
\<close>

record log_stream =
  ls_done :: bool
  ls_chunks :: "string list"
  ls_closed :: bool

record 'db hub =
  hub_db :: 'db
  hub_seq :: kvseq
  hub_token :: string
  outboxes :: "nat \<Rightarrow> grade_queue"
  gradeRequestQueues :: "u64 \<rightharpoonup> nat"
  next_outbox :: nat
  onlineGraders :: "(u64 \<times> grader_status_metadata) list"
  sessions :: "u64 \<rightharpoonup> string"
  mailboxes :: "nat \<Rightarrow> mailbox"
  submissionSubs :: "u64 \<Rightarrow> nat list"
  next_mailbox :: nat
  monitorChs :: "u64 list"
  logStreams :: "u64 \<Rightarrow> string \<rightharpoonup> nat"
  streams :: "nat \<Rightarrow> log_stream"
  next_stream :: nat
  schedulerWake :: bool
  queuedListIndex :: "u64 \<rightharpoonup> nat"
  queuedList :: "(nat \<times> pending) list"
  next_elem :: nat
  runningList :: "u64 \<rightharpoonup> grade_request"
  hub_closed :: bool

text \<open>The state the constructor starts from.\<close>

definition initial_hub :: "'db \<Rightarrow> kvseq \<Rightarrow> string \<Rightarrow> 'db hub" where
  "initial_hub db q token =
     \<lparr>hub_db = db, hub_seq = q, hub_token = token, outboxes = (\<lambda>a. NewGradeRequestQueue),
       gradeRequestQueues = Map.empty, next_outbox = 0, onlineGraders = [], sessions = Map.empty,
       mailboxes = (\<lambda>m. NewReportMailbox), submissionSubs = (\<lambda>s. []), next_mailbox = 0, monitorChs = [],
       logStreams = (\<lambda>g. Map.empty),
       streams = (\<lambda>a. \<lparr>ls_done = False, ls_chunks = [], ls_closed = False\<rparr>), next_stream = 0, schedulerWake = False, queuedListIndex = Map.empty, queuedList = [],
       next_elem = 0, runningList = Map.empty, hub_closed = False\<rparr>"

subsection \<open>Subscribers\<close>

definition Subscribe :: "'db hub \<Rightarrow> u64 \<Rightarrow> 'db hub \<times> nat" where
  "Subscribe h submissionId =
     (let m = next_mailbox h
      in (h\<lparr>next_mailbox := Suc m, mailboxes := (mailboxes h)(m := NewReportMailbox),
           submissionSubs := (submissionSubs h)(submissionId := submissionSubs h submissionId @ [m])\<rparr>,
          m))"

definition Unsubscribe :: "'db hub \<Rightarrow> u64 \<Rightarrow> nat \<Rightarrow> 'db hub" where
  "Unsubscribe h submissionId m =
     h\<lparr>submissionSubs := (submissionSubs h)(submissionId := remove1 m (submissionSubs h submissionId)),
       mailboxes := (mailboxes h)(m := mailbox_Close (mailboxes h m))\<rparr>"

definition sendGradeReport :: "'db hub \<Rightarrow> u64 \<Rightarrow> grade_report \<Rightarrow> 'db hub" where
  "sendGradeReport h submissionId report =
     h\<lparr>mailboxes := foldl (\<lambda>mb m. mb(m := Publish (\<lambda>n. False) (mb m) report)) (mailboxes h)
       (submissionSubs h submissionId)\<rparr>"

definition closeAllSubmissionSubscribers :: "'db hub \<Rightarrow> u64 \<Rightarrow> 'db hub" where
  "closeAllSubmissionSubscribers h submissionId =
     h\<lparr>submissionSubs := (submissionSubs h)(submissionId := []),
       mailboxes := foldl (\<lambda>mb m. mb(m := mailbox_Close (mb m))) (mailboxes h)
         (submissionSubs h submissionId)\<rparr>"

definition onPendingRankChanged :: "'db hub \<Rightarrow> u64 \<Rightarrow> int \<Rightarrow> int \<Rightarrow> 'db hub" where
  "onPendingRankChanged h submissionId newRank len =
     sendGradeReport h submissionId
       (GradeReport None None None (Some \<lparr>PRank_Rank = of_int newRank, PRank_Total = of_int len\<rparr>))"

subsection \<open>The pending list\<close>

definition wakeScheduler :: "'db hub \<Rightarrow> 'db hub" where
  "wakeScheduler h = h\<lparr>schedulerWake := True\<rparr>"

text \<open>
  The elements behind the removed one move up and their subscribers are told, front to back; then the
  element leaves the list and the index.
\<close>

definition removePendingGradeRequest :: "'db hub \<Rightarrow> u64 \<Rightarrow> 'db hub" where
  "removePendingGradeRequest h submissionId =
     (case queuedListIndex h submissionId of
        None \<Rightarrow> h
      | Some elem \<Rightarrow>
          let l = queuedList h;
              before = takeWhile (\<lambda>x. fst x \<noteq> elem) l;
              behind = map (\<lambda>(e, p). (e, p\<lparr>pd_rank := pd_rank p - 1\<rparr>))
                (tl (dropWhile (\<lambda>x. fst x \<noteq> elem) l));
              h1 = foldl (\<lambda>h (e, p). onPendingRankChanged h (Req_SubmissionId (pd_request p)) (pd_rank p)
                (int (length l) - 1)) h behind
          in h1\<lparr>queuedList := before @ behind,
               queuedListIndex := (queuedListIndex h1)(submissionId := None)\<rparr>)"

definition GetPendingRank :: "'db hub \<Rightarrow> u64 \<Rightarrow> int \<times> int" where
  "GetPendingRank h submissionId =
     (case queuedListIndex h submissionId of
        None \<Rightarrow> (0, 0)
      | Some elem \<Rightarrow>
          (case map_of (queuedList h) elem of
             None \<Rightarrow> (0, int (length (queuedList h)))
           | Some p \<Rightarrow> (pd_rank p, int (length (queuedList h)))))"

definition pushPendingGradeQueue :: "'db hub \<Rightarrow> grade_request \<Rightarrow> 'db hub" where
  "pushPendingGradeQueue h request =
     (let n = int (length (queuedList h)) + 1;
          s = Req_SubmissionId request;
          h1 = onPendingRankChanged h s n n;
          e = next_elem h1
      in wakeScheduler (h1\<lparr>next_elem := Suc e,
           queuedList := queuedList h1 @ [(e, \<lparr>pd_rank = n, pd_request = request\<rparr>)],
           queuedListIndex := (queuedListIndex h1)(s \<mapsto> e)\<rparr>))"

subsection \<open>Choosing a grader\<close>

definition snapshotGraderLoads :: "'db env \<Rightarrow> 'db hub \<Rightarrow> (u64 \<times> graderLoad) list" where
  "snapshotGraderLoads E h =
     map (\<lambda>(i, grader).
       let submissions = (case GetSubmissionsByGrader E (hub_db h) i of Inl e \<Rightarrow> [] | Inr xs \<Rightarrow> xs)
       in (i, \<lparr>load_concurrency = GetConcurrency (Grader_Info grader),
            load_tags = GetInfoTags (Grader_Info grader),
            load_running = of_nat (length submissions)\<rparr>)) (onlineGraders h)"

fun graderHasTags :: "string list \<Rightarrow> string list \<Rightarrow> bool" where
  "graderHasTags graderTags [] = True"
| "graderHasTags graderTags (tag # tags) =
     (if tag \<in> set graderTags then graderHasTags graderTags tags else False)"

text \<open>The loop over the sorted ids; the accumulator is \<open>best\<close> with \<open>bestLoad\<close>.\<close>

fun pick_loop :: "string list \<Rightarrow> (u64 \<times> graderLoad) list \<Rightarrow> u64 list \<Rightarrow> (u64 \<times> graderLoad) option \<Rightarrow>
    (u64 \<times> graderLoad) option" where
  "pick_loop tags loads [] best = best"
| "pick_loop tags loads (i # ids) best =
     (case map_of loads i of
        None \<Rightarrow> pick_loop tags loads ids best
      | Some load \<Rightarrow>
          if load_concurrency load \<le> load_running load then pick_loop tags loads ids best
          else if \<not> graderHasTags (load_tags load) tags then pick_loop tags loads ids best
          else if (case best of None \<Rightarrow> True | Some (b, bestLoad) \<Rightarrow> load_running load < load_running bestLoad)
          then pick_loop tags loads ids (Some (i, load))
          else pick_loop tags loads ids best)"

definition pickGrader :: "grade_request \<Rightarrow> (u64 \<times> graderLoad) list \<Rightarrow> u64 \<times> (u64 \<times> graderLoad) list" where
  "pickGrader request loads =
     (case pick_loop (GetConfigTags (Req_Config request)) loads (sort (map fst loads)) None of
        None \<Rightarrow> (0, loads)
      | Some (best, bestLoad) \<Rightarrow>
          (best, AList.update best (bestLoad\<lparr>load_running := load_running bestLoad + 1\<rparr>) loads))"

subsection \<open>Reports of the hub itself\<close>

definition brief_of_status :: "submission_status \<Rightarrow> submission_brief_report" where
  "brief_of_status s = \<lparr>Brief_Score = 0, Brief_MaxScore = 0, Brief_ExitCode = 0, Brief_InternalError = 0,
     Brief_Status = s\<rparr>"

definition onSubmissionBriefReportUpdate ::
    "'db env \<Rightarrow> 'db hub \<Rightarrow> u64 \<Rightarrow> submission_brief_report \<Rightarrow> 'db hub \<times> error option" where
  "onSubmissionBriefReportUpdate E h submissionId brief =
     (case UpdateSubmissionBriefReport E (hub_db h) submissionId brief of
        (db', err) \<Rightarrow>
          (sendGradeReport (h\<lparr>hub_db := db'\<rparr>) submissionId (GradeReport None (Some brief) None None), err))"

definition onSubmissionScheduled :: "'db env \<Rightarrow> 'db hub \<Rightarrow> u64 \<Rightarrow> u64 \<Rightarrow> 'db hub" where
  "onSubmissionScheduled E h submissionId graderId =
     h\<lparr>hub_db := fst (ClaimSubmission E (hub_db h) graderId submissionId)\<rparr>"

definition onSubmissionQueued :: "'db env \<Rightarrow> 'db hub \<Rightarrow> u64 \<Rightarrow> 'db hub" where
  "onSubmissionQueued E h submissionId =
     fst (onSubmissionBriefReportUpdate E h submissionId (brief_of_status SubmissionStatus_Queued))"

definition queueGradeRequest :: "'db env \<Rightarrow> 'db hub \<Rightarrow> grade_request \<Rightarrow> 'db hub" where
  "queueGradeRequest E h req =
     onSubmissionQueued E (pushPendingGradeQueue h req) (Req_SubmissionId req)"

definition EnqueueGrade :: "'db env \<Rightarrow> 'db hub \<Rightarrow> grade_request \<Rightarrow> 'db hub" where
  "EnqueueGrade E h request = queueGradeRequest E h request"

subsection \<open>A scheduling pass\<close>

lemma pick_loop_in:
  "pick_loop tags loads ids best = Some (i, load) \<Longrightarrow> best = Some (i, load) \<or> map_of loads i = Some load"
  by (induction ids arbitrary: best) (auto split: option.splits if_splits)

lemma pickGrader_in:
  assumes "pickGrader request loads = (i, loads')" and "i \<noteq> 0"
  shows "i \<in> fst ` set loads \<and> map fst loads' = map fst loads"
proof -
  obtain load where "pick_loop (GetConfigTags (Req_Config request)) loads (sort (map fst loads)) None =
      Some (i, load)" and l: "loads' = AList.update i (load\<lparr>load_running := load_running load + 1\<rparr>) loads"
    using assms by (auto simp: pickGrader_def split: option.splits prod.splits)
  then have "map_of loads i = Some load" using pick_loop_in by fastforce
  then have "i \<in> fst ` set loads" by (force dest: map_of_SomeD)
  then show ?thesis by (simp add: l AList.update_keys image_image)
qed

text \<open>
  One candidate of the inner loop of \<open>schedulePass\<close>: whether the request went to the grader. A grader
  without an outbox is passed over. The claim is made before the push and undone when the outbox turns
  out to be closed.
\<close>

definition offer_request :: "'db env \<Rightarrow> 'db hub \<Rightarrow> u64 \<Rightarrow> grade_request \<Rightarrow> 'db hub \<times> bool" where
  "offer_request E h graderId req =
     (case gradeRequestQueues h graderId of
        None \<Rightarrow> (h, False)
      | Some a \<Rightarrow>
          let s = Req_SubmissionId req;
              h1 = onSubmissionScheduled E (h\<lparr>runningList := (runningList h)(s \<mapsto> req)\<rparr>) s graderId
          in (case queue_Push (outboxes h1 a) req of
                (q, True) \<Rightarrow>
                  (removePendingGradeRequest (h1\<lparr>outboxes := (outboxes h1)(a := q)\<rparr>) s, True)
              | (q, False) \<Rightarrow>
                  (h1\<lparr>runningList := (runningList h1)(s := None),
                     hub_db := fst (ReleaseSubmission E (hub_db h1) s)\<rparr>, False)))"

lemma length_delete_less: "k \<in> fst ` set xs \<Longrightarrow> length (AList.delete k xs) < length xs"
proof -
  assume "k \<in> fst ` set xs"
  then have "k \<in> set (map fst xs)" by simp
  then have "length (removeAll k (map fst xs)) < length (map fst xs)" by (rule length_removeAll_less)
  then show ?thesis by (simp add: AList.delete_keys [symmetric])
qed

lemma pickGrader_less:
  assumes "(graderId, loads1) = pickGrader req loads" and "graderId \<noteq> 0"
  shows "length (AList.delete graderId loads1) < length loads"
proof -
  have "graderId \<in> fst ` set loads" "map fst loads1 = map fst loads"
    using pickGrader_in [of req loads graderId loads1] assms by auto
  then have "graderId \<in> fst ` set loads1" "length loads1 = length loads"
    by (metis list.set_map, metis length_map)
  then show ?thesis using length_delete_less [of graderId loads1] by simp
qed

text \<open>
  The inner loop: candidates are tried until one takes the request or none is left; one that did not
  take it leaves the loads of the pass.
\<close>

function schedule_request :: "'db env \<Rightarrow> 'db hub \<Rightarrow> (u64 \<times> graderLoad) list \<Rightarrow> grade_request \<Rightarrow>
    'db hub \<times> (u64 \<times> graderLoad) list \<times> bool" where
  "schedule_request E h loads req =
     (case pickGrader req loads of
        (graderId, loads1) \<Rightarrow>
          if graderId = 0 then (h, loads1, False)
          else
            (case offer_request E h graderId req of
               (h1, True) \<Rightarrow> (h1, loads1, True)
             | (h1, False) \<Rightarrow> schedule_request E h1 (AList.delete graderId loads1) req))"
  by pat_completeness auto

termination
  by (relation "measure (\<lambda>(E, h, loads, req). length loads)") (auto intro: pickGrader_less)

declare schedule_request.simps [simp del]

text \<open>
  The outer loop from an element to the end of the list: \<open>cur.Next()\<close> is taken before the element is
  handled, so when handling it unlinks the next element, that element is still handled, and being
  unlinked it has no next.
\<close>

function schedule_from :: "'db env \<Rightarrow> 'db hub \<Rightarrow> (u64 \<times> graderLoad) list \<Rightarrow> (nat \<times> pending) list \<Rightarrow>
    bool \<Rightarrow> 'db hub \<times> bool" where
  "schedule_from E h loads [] progressed = (h, progressed)"
| "schedule_from E h loads (cur # rest) progressed =
     (case schedule_request E h loads (pd_request (snd cur)) of
        (h1, loads1, scheduled) \<Rightarrow>
          schedule_from E h1 loads1
            (case rest of
               [] \<Rightarrow> []
             | nxt # rest' \<Rightarrow>
                 if fst nxt \<in> fst ` set (queuedList h1)
                 then nxt # filter (\<lambda>x. fst x \<in> fst ` set (queuedList h1)) rest' else [nxt])
            (progressed \<or> scheduled))"
  by pat_completeness auto
termination
  by (relation "measure (\<lambda>(E, h, loads, elems, progressed). length elems)")
    (auto split: list.splits simp: le_imp_less_Suc)

definition schedulePass :: "'db env \<Rightarrow> 'db hub \<Rightarrow> 'db hub \<times> bool" where
  "schedulePass E h =
     (let loads = snapshotGraderLoads E h
      in if length loads = 0 then (h, False) else schedule_from E h loads (queuedList h) False)"

text \<open>
  One turn of the scheduler goroutine: \<open>None\<close> when it exits, otherwise the state and whether it goes
  straight to another pass instead of waiting for a wake-up.
\<close>

definition scheduler_turn :: "'db env \<Rightarrow> 'db hub \<Rightarrow> ('db hub \<times> bool) option" where
  "scheduler_turn E h =
     (if hub_closed h then None
      else if 0 < length (queuedList h) then Some (schedulePass E h) else Some (h, False))"

text \<open>The scheduler waiting on \<open>schedulerWake\<close>: it takes the notification if there is one.\<close>

definition scheduler_wait :: "'db hub \<Rightarrow> 'db hub option" where
  "scheduler_wait h = (if schedulerWake h then Some (h\<lparr>schedulerWake := False\<rparr>) else None)"

definition hub_Close :: "'db hub \<Rightarrow> 'db hub" where
  "hub_Close h = h\<lparr>hub_closed := True\<rparr>"

subsection \<open>A grader that goes offline\<close>

definition isSubmissionTerminal :: "'db env \<Rightarrow> 'db hub \<Rightarrow> u64 \<Rightarrow> bool" where
  "isSubmissionTerminal E h submissionId =
     (case Repo_GetSubmissionBriefReport E (hub_db h) submissionId of
        Inl e \<Rightarrow> False
      | Inr brief \<Rightarrow>
          Brief_Status brief \<in> {SubmissionStatus_Finished, SubmissionStatus_Failed,
            SubmissionStatus_Cancelled})"

text \<open>The two loops that collect what was in flight: the running list, what was seen, what to requeue.\<close>

fun collect_running :: "(u64 \<rightharpoonup> grade_request) \<Rightarrow> u64 set \<Rightarrow> u64 list \<Rightarrow>
    (u64 \<rightharpoonup> grade_request) \<times> u64 set \<times> grade_request list" where
  "collect_running running seen [] = (running, seen, [])"
| "collect_running running seen (s # ss) =
     (case running s of
        None \<Rightarrow> collect_running running seen ss
      | Some req \<Rightarrow>
          if s \<in> seen then collect_running running seen ss
          else (case collect_running (running(s := None)) (insert s seen) ss of
                  (running', seen', requeue) \<Rightarrow> (running', seen', req # requeue)))"

fun collect_outbox :: "(u64 \<rightharpoonup> grade_request) \<Rightarrow> u64 set \<Rightarrow> grade_request list \<Rightarrow>
    (u64 \<rightharpoonup> grade_request) \<times> grade_request list" where
  "collect_outbox running seen [] = (running, [])"
| "collect_outbox running seen (req # reqs) =
     (let s = Req_SubmissionId req
      in if Req_IsStreamLog req \<or> Req_IsCancel req \<or> s \<in> seen then collect_outbox running seen reqs
         else (case collect_outbox (running(s := None)) (insert s seen) reqs of
                 (running', requeue) \<Rightarrow> (running', req # requeue)))"

text \<open>\<open>onGraderOffline\<close> up to the requeueing: the state and the requests to requeue.\<close>

definition offline_collect :: "'db env \<Rightarrow> 'db hub \<Rightarrow> u64 \<Rightarrow> 'db hub \<times> grade_request list" where
  "offline_collect E h graderId =
     (let queue = gradeRequestQueues h graderId;
          h1 = h\<lparr>onlineGraders := AList.delete graderId (onlineGraders h),
            logStreams := (logStreams h)(graderId := Map.empty),
            gradeRequestQueues := (gradeRequestQueues h)(graderId := None)\<rparr>;
          submissions =
            (case GetSubmissionsByGrader E (hub_db h) graderId of Inl e \<Rightarrow> [] | Inr xs \<Rightarrow> xs)
      in case collect_running (runningList h) {} submissions of
           (running1, seen, requeue1) \<Rightarrow>
             (case (case queue of
                      None \<Rightarrow> (outboxes h, running1, [])
                    | Some a \<Rightarrow>
                        (case Drain (queue_Close (outboxes h a)) of
                           (q, reqs) \<Rightarrow>
                             (case collect_outbox running1 seen reqs of
                                (running2, requeue2) \<Rightarrow> ((outboxes h)(a := q), running2, requeue2)))) of
                (boxes, running2, requeue2) \<Rightarrow>
                  (h1\<lparr>outboxes := boxes, runningList := running2,
                     hub_db := foldl (\<lambda>db s. fst (ReleaseSubmission E db s)) (hub_db h) submissions\<rparr>,
                   requeue1 @ requeue2)))"

fun requeue_all :: "'db env \<Rightarrow> 'db hub \<Rightarrow> grade_request list \<Rightarrow> 'db hub" where
  "requeue_all E h [] = h"
| "requeue_all E h (req # reqs) =
     requeue_all E
       (if \<not> isSubmissionTerminal E h (Req_SubmissionId req) then queueGradeRequest E h req else h) reqs"

definition onGraderOffline :: "'db env \<Rightarrow> 'db hub \<Rightarrow> u64 \<Rightarrow> 'db hub" where
  "onGraderOffline E h graderId =
     (case offline_collect E h graderId of (h1, requeue) \<Rightarrow> requeue_all E h1 requeue)"

subsection \<open>Frame facts\<close>

lemma sendGradeReport_frame [hub_simps, simp]:
  "hub_db (sendGradeReport h s r) = hub_db h" "queuedList (sendGradeReport h s r) = queuedList h"
  "queuedListIndex (sendGradeReport h s r) = queuedListIndex h"
  "runningList (sendGradeReport h s r) = runningList h" "outboxes (sendGradeReport h s r) = outboxes h"
  "gradeRequestQueues (sendGradeReport h s r) = gradeRequestQueues h"
  "onlineGraders (sendGradeReport h s r) = onlineGraders h" "next_elem (sendGradeReport h s r) = next_elem h"
  "submissionSubs (sendGradeReport h s r) = submissionSubs h" "sessions (sendGradeReport h s r) = sessions h"
  "schedulerWake (sendGradeReport h s r) = schedulerWake h" "hub_closed (sendGradeReport h s r) = hub_closed h"
  "hub_seq (sendGradeReport h s r) = hub_seq h"
  "next_outbox (sendGradeReport h s r) = next_outbox h"
  by (simp_all add: sendGradeReport_def)

lemma onPendingRankChanged_frame [hub_simps, simp]:
  "hub_db (onPendingRankChanged h s r t) = hub_db h" "queuedList (onPendingRankChanged h s r t) = queuedList h"
  "queuedListIndex (onPendingRankChanged h s r t) = queuedListIndex h"
  "runningList (onPendingRankChanged h s r t) = runningList h"
  "outboxes (onPendingRankChanged h s r t) = outboxes h"
  "gradeRequestQueues (onPendingRankChanged h s r t) = gradeRequestQueues h"
  "onlineGraders (onPendingRankChanged h s r t) = onlineGraders h"
  "next_elem (onPendingRankChanged h s r t) = next_elem h"
  "submissionSubs (onPendingRankChanged h s r t) = submissionSubs h"
  "hub_closed (onPendingRankChanged h s r t) = hub_closed h"
  "next_outbox (onPendingRankChanged h s r t) = next_outbox h"
  by (simp_all add: onPendingRankChanged_def)

lemma rank_fold_frame [hub_simps, simp]:
  fixes n :: int
  defines "F \<equiv> foldl (\<lambda>h (e, p). onPendingRankChanged h (Req_SubmissionId (pd_request p)) (pd_rank p) n)"
  shows "hub_db (F h xs) = hub_db h" "queuedListIndex (F h xs) = queuedListIndex h"
    "runningList (F h xs) = runningList h" "outboxes (F h xs) = outboxes h"
    "gradeRequestQueues (F h xs) = gradeRequestQueues h" "onlineGraders (F h xs) = onlineGraders h"
    "next_elem (F h xs) = next_elem h" "submissionSubs (F h xs) = submissionSubs h"
    "hub_closed (F h xs) = hub_closed h" "next_outbox (F h xs) = next_outbox h"
  unfolding F_def by (induction xs arbitrary: h; simp split: prod.splits)+

lemma remove_frame [hub_simps, simp]:
  "hub_db (removePendingGradeRequest h s) = hub_db h"
  "runningList (removePendingGradeRequest h s) = runningList h"
  "outboxes (removePendingGradeRequest h s) = outboxes h"
  "gradeRequestQueues (removePendingGradeRequest h s) = gradeRequestQueues h"
  "onlineGraders (removePendingGradeRequest h s) = onlineGraders h"
  "next_elem (removePendingGradeRequest h s) = next_elem h"
  "submissionSubs (removePendingGradeRequest h s) = submissionSubs h"
  "next_outbox (removePendingGradeRequest h s) = next_outbox h"
  by (auto simp: removePendingGradeRequest_def Let_def split: option.splits)

lemma push_frame [hub_simps, simp]:
  "hub_db (pushPendingGradeQueue h r) = hub_db h"
  "runningList (pushPendingGradeQueue h r) = runningList h"
  "outboxes (pushPendingGradeQueue h r) = outboxes h"
  "gradeRequestQueues (pushPendingGradeQueue h r) = gradeRequestQueues h"
  "onlineGraders (pushPendingGradeQueue h r) = onlineGraders h"
  "submissionSubs (pushPendingGradeQueue h r) = submissionSubs h"
  by (simp_all add: pushPendingGradeQueue_def Let_def wakeScheduler_def)

lemma brief_frame [hub_simps, simp]:
  "queuedList (fst (onSubmissionBriefReportUpdate E h s b)) = queuedList h"
  "queuedListIndex (fst (onSubmissionBriefReportUpdate E h s b)) = queuedListIndex h"
  "runningList (fst (onSubmissionBriefReportUpdate E h s b)) = runningList h"
  "outboxes (fst (onSubmissionBriefReportUpdate E h s b)) = outboxes h"
  "gradeRequestQueues (fst (onSubmissionBriefReportUpdate E h s b)) = gradeRequestQueues h"
  "onlineGraders (fst (onSubmissionBriefReportUpdate E h s b)) = onlineGraders h"
  "next_elem (fst (onSubmissionBriefReportUpdate E h s b)) = next_elem h"
  "submissionSubs (fst (onSubmissionBriefReportUpdate E h s b)) = submissionSubs h"
  by (simp_all add: onSubmissionBriefReportUpdate_def split: prod.splits)

subsection \<open>The pending list\<close>

text \<open>
  The list and its index: elements have their own addresses, the ranks count from one to the length,
  and an indexed address is of an element for that submission.
\<close>

fun ranked :: "int \<Rightarrow> (nat \<times> pending) list \<Rightarrow> bool" where
  "ranked k [] = True"
| "ranked k (x # xs) = (pd_rank (snd x) = k \<and> ranked (k + 1) xs)"

definition pending_ok :: "'db hub \<Rightarrow> bool" where
  "pending_ok h \<longleftrightarrow>
     distinct (map fst (queuedList h)) \<and>
     (\<forall>x \<in> set (queuedList h). fst x < next_elem h) \<and>
     ranked 1 (queuedList h) \<and>
     (\<forall>s e. queuedListIndex h s = Some e \<longrightarrow>
        (\<exists>p. (e, p) \<in> set (queuedList h) \<and> Req_SubmissionId (pd_request p) = s))"

lemma pending_okD:
  assumes "pending_ok h"
  shows "distinct (map fst (queuedList h))" and "x \<in> set (queuedList h) \<Longrightarrow> fst x < next_elem h"
    and "ranked 1 (queuedList h)"
    and "queuedListIndex h s = Some e \<Longrightarrow>
      \<exists>p. (e, p) \<in> set (queuedList h) \<and> Req_SubmissionId (pd_request p) = s"
  using assms unfolding pending_ok_def by blast+

lemma push_list [simp]:
  "queuedList (pushPendingGradeQueue h req) =
    queuedList h @ [(next_elem h, \<lparr>pd_rank = int (length (queuedList h)) + 1, pd_request = req\<rparr>)]"
  "queuedListIndex (pushPendingGradeQueue h req) = (queuedListIndex h)(Req_SubmissionId req \<mapsto> next_elem h)"
  "next_elem (pushPendingGradeQueue h req) = Suc (next_elem h)"
  by (simp_all add: pushPendingGradeQueue_def Let_def wakeScheduler_def)

lemma ranked_append: "ranked k (xs @ ys) \<longleftrightarrow> ranked k xs \<and> ranked (k + int (length xs)) ys"
  by (induction k xs rule: ranked.induct) (auto simp: algebra_simps)

lemma ranked_nth: "ranked k xs \<Longrightarrow> i < length xs \<Longrightarrow> pd_rank (snd (xs ! i)) = k + int i"
  by (induction k xs arbitrary: i rule: ranked.induct) (auto simp: nth_Cons split: nat.splits)

lemma push_pending_ok:
  assumes "pending_ok h"
  shows "pending_ok (pushPendingGradeQueue h req)"
proof -
  have "next_elem h \<notin> fst ` set (queuedList h)" using pending_okD(2) [OF assms] by force
  moreover have "\<exists>p. (e, p) \<in> set (queuedList (pushPendingGradeQueue h req)) \<and>
      Req_SubmissionId (pd_request p) = s"
    if "queuedListIndex (pushPendingGradeQueue h req) s = Some e" for s e
    using that pending_okD(4) [OF assms, of s e] by (auto split: if_splits)
  moreover have "\<forall>x \<in> set (queuedList (pushPendingGradeQueue h req)). fst x < Suc (next_elem h)"
    using pending_okD(2) [OF assms] by (auto intro: less_SucI)
  ultimately show ?thesis
    using pending_okD(1, 3) [OF assms] unfolding pending_ok_def
    by (simp add: ranked_append del: set_append)
qed

text \<open>What removing an indexed element leaves.\<close>

definition demote :: "nat \<times> pending \<Rightarrow> nat \<times> pending" where
  "demote x = (fst x, (snd x)\<lparr>pd_rank := pd_rank (snd x) - 1\<rparr>)"

lemma demote_simps [simp]:
  "fst (demote x) = fst x" "pd_request (snd (demote x)) = pd_request (snd x)"
  "pd_rank (snd (demote x)) = pd_rank (snd x) - 1"
  by (simp_all add: demote_def)

lemma remove_list:
  assumes "pending_ok h" and "queuedListIndex h s = Some e"
  shows "\<exists>before p behind. queuedList h = before @ (e, p) # behind \<and> Req_SubmissionId (pd_request p) = s \<and>
    queuedList (removePendingGradeRequest h s) = before @ map demote behind \<and>
    queuedListIndex (removePendingGradeRequest h s) = (queuedListIndex h)(s := None)"
proof -
  obtain p where "(e, p) \<in> set (queuedList h)" and s: "Req_SubmissionId (pd_request p) = s"
    using pending_okD(4) [OF assms] by blast
  then obtain before behind where l: "queuedList h = before @ (e, p) # behind" by (meson split_list)
  have "e \<notin> fst ` set before" using pending_okD(1) [OF assms(1)] by (auto simp: l)
  then have "takeWhile (\<lambda>x. fst x \<noteq> e) (queuedList h) = before"
    "dropWhile (\<lambda>x. fst x \<noteq> e) (queuedList h) = (e, p) # behind"
    unfolding l by (subst takeWhile_append2 dropWhile_append2; force)+
  moreover have "(\<lambda>(e, p). (e, p\<lparr>pd_rank := pd_rank p - 1\<rparr>)) = demote"
    by (auto simp: demote_def fun_eq_iff)
  ultimately show ?thesis
    using l s assms(2)
    by (intro exI [of _ before] exI [of _ p] exI [of _ behind])
      (simp add: removePendingGradeRequest_def Let_def)
qed

lemma ranked_demote: "ranked (k + 1) xs \<Longrightarrow> ranked k (map demote xs)"
  by (induction xs arbitrary: k) auto

lemma remove_pending_ok:
  assumes "pending_ok h"
  shows "pending_ok (removePendingGradeRequest h s)"
proof (cases "queuedListIndex h s")
  case None
  then show ?thesis using assms by (simp add: removePendingGradeRequest_def)
next
  case (Some e)
  from remove_list [OF assms Some] obtain before p behind where
    l: "queuedList h = before @ (e, p) # behind" and s: "Req_SubmissionId (pd_request p) = s" and
    l': "queuedList (removePendingGradeRequest h s) = before @ map demote behind" and
    i': "queuedListIndex (removePendingGradeRequest h s) = (queuedListIndex h)(s := None)"
    by blast
  have d: "distinct (map fst (before @ map demote behind))"
    using pending_okD(1) [OF assms] by (auto simp: l comp_def image_image)
  have r: "ranked 1 (before @ map demote behind)"
    using pending_okD(3) [OF assms] by (auto simp: l ranked_append add.commute intro: ranked_demote)
  have lt: "\<forall>x \<in> set (before @ map demote behind). fst x < next_elem h"
  proof
    fix x assume "x \<in> set (before @ map demote behind)"
    then have "fst x \<in> fst ` set (queuedList h)" by (force simp: l image_iff)
    then obtain y where "y \<in> set (queuedList h)" "fst x = fst y" by blast
    then show "fst x < next_elem h" using pending_okD(2) [OF assms] by metis
  qed
  have ix: "\<exists>q. (f, q) \<in> set (before @ map demote behind) \<and> Req_SubmissionId (pd_request q) = t"
    if "((queuedListIndex h)(s := None)) t = Some f" for t f
  proof -
    have "t \<noteq> s" "queuedListIndex h t = Some f" using that by (auto split: if_splits)
    from pending_okD(4) [OF assms this(2)] obtain q where
      q: "(f, q) \<in> set (queuedList h)" "Req_SubmissionId (pd_request q) = t" by blast
    then consider "(f, q) \<in> set before" | "(f, q) \<in> set behind"
      using \<open>t \<noteq> s\<close> s by (auto simp: l)
    then show ?thesis
    proof cases
      case 2
      then have "demote (f, q) \<in> set (map demote behind)" by simp
      moreover have "demote (f, q) = (f, q\<lparr>pd_rank := pd_rank q - 1\<rparr>)" by (simp add: demote_def)
      ultimately show ?thesis using q(2) by (intro exI [of _ "q\<lparr>pd_rank := pd_rank q - 1\<rparr>"]) simp
    qed (use q(2) in auto)
  qed
  show ?thesis
    unfolding pending_ok_def l' i' remove_frame using d lt r ix by blast
qed

lemma pending_ok_cong:
  "queuedList h' = queuedList h \<Longrightarrow> queuedListIndex h' = queuedListIndex h \<Longrightarrow> next_elem h' = next_elem h \<Longrightarrow>
    pending_ok h \<Longrightarrow> pending_ok h'"
  by (simp add: pending_ok_def)

lemma queueGradeRequest_pending_ok: "pending_ok h \<Longrightarrow> pending_ok (queueGradeRequest E h req)"
  by (rule pending_ok_cong [of _ "pushPendingGradeQueue h req"])
    (simp_all add: queueGradeRequest_def onSubmissionQueued_def push_pending_ok)

lemma requeue_all_pending_ok: "pending_ok h \<Longrightarrow> pending_ok (requeue_all E h reqs)"
  by (induction reqs arbitrary: h) (simp_all add: queueGradeRequest_pending_ok)

lemma offline_collect_frame:
  assumes "offline_collect E h g = (h', reqs)"
  shows "queuedList h' = queuedList h \<and> queuedListIndex h' = queuedListIndex h \<and> next_elem h' = next_elem h \<and>
    onlineGraders h' = AList.delete g (onlineGraders h) \<and>
    gradeRequestQueues h' = (gradeRequestQueues h)(g := None) \<and> submissionSubs h' = submissionSubs h"
  using assms by (auto simp: offline_collect_def Let_def split: prod.splits)

lemma onGraderOffline_pending_ok: "pending_ok h \<Longrightarrow> pending_ok (onGraderOffline E h g)"
  by (cases "offline_collect E h g")
    (auto simp: onGraderOffline_def intro!: requeue_all_pending_ok dest!: offline_collect_frame
      intro: pending_ok_cong)

lemma offer_pending_ok:
  assumes "pending_ok h" and "offer_request E h g req = (h', ok)"
  shows "pending_ok h'"
proof -
  have "pending_ok (h\<lparr>runningList := r, hub_db := d, outboxes := b\<rparr>)" for r d b
    by (rule pending_ok_cong [OF _ _ _ assms(1)]) simp_all
  then show ?thesis
    using assms
    by (auto simp: offer_request_def onSubmissionScheduled_def Let_def
        split: option.splits prod.splits bool.splits intro!: remove_pending_ok intro: pending_ok_cong)
qed

lemma schedule_request_pending_ok:
  "pending_ok h \<Longrightarrow> schedule_request E h loads req = (h', loads', ok) \<Longrightarrow> pending_ok h'"
proof (induction E h loads req arbitrary: h' loads' ok rule: schedule_request.induct)
  case (1 E h loads req)
  obtain g loads1 where p: "pickGrader req loads = (g, loads1)" by (cases "pickGrader req loads")
  show ?case
  proof (cases "g = 0")
    case True
    then show ?thesis using 1(2, 3) p by (simp add: schedule_request.simps)
  next
    case False
    obtain h1 b where o: "offer_request E h g req = (h1, b)" by (cases "offer_request E h g req")
    note ok1 = offer_pending_ok [OF 1(2) o]
    show ?thesis
    proof (cases b)
      case True
      then show ?thesis using 1(3) p \<open>g \<noteq> 0\<close> o ok1 by (simp add: schedule_request.simps [of E h])
    next
      case b: False
      then have "schedule_request E h1 (AList.delete g loads1) req = (h', loads', ok)"
        using 1(3) p \<open>g \<noteq> 0\<close> o by (simp add: schedule_request.simps [of E h])
      then show ?thesis using 1(1) [OF p [symmetric] \<open>g \<noteq> 0\<close> o [symmetric]] b ok1 by blast
    qed
  qed
qed

lemma schedule_from_pending_ok:
  "pending_ok h \<Longrightarrow> schedule_from E h loads elems pr = (h', pr') \<Longrightarrow> pending_ok h'"
proof (induction E h loads elems pr arbitrary: h' pr' rule: schedule_from.induct)
  case (2 E h loads cur rest pr)
  obtain h1 loads1 b where s: "schedule_request E h loads (pd_request (snd cur)) = (h1, loads1, b)"
    by (metis prod_cases3)
  note ok1 = schedule_request_pending_ok [OF 2(2) s]
  show ?case using 2(3) 2(1) [OF s [symmetric] refl ok1] by (simp add: s)
qed simp

lemma schedulePass_pending_ok: "pending_ok h \<Longrightarrow> schedulePass E h = (h', pr) \<Longrightarrow> pending_ok h'"
  by (auto simp: schedulePass_def Let_def split: if_splits dest: schedule_from_pending_ok)

subsection \<open>The choice of a grader\<close>

text \<open>A grader is eligible for the tags of a request when it has them and spare concurrency.\<close>

definition eligible :: "string list \<Rightarrow> (u64 \<times> graderLoad) list \<Rightarrow> u64 \<Rightarrow> bool" where
  "eligible tags loads i \<longleftrightarrow>
     (case map_of loads i of
        None \<Rightarrow> False
      | Some l \<Rightarrow> load_running l < load_concurrency l \<and> set tags \<subseteq> set (load_tags l))"

definition running_of :: "(u64 \<times> graderLoad) list \<Rightarrow> u64 \<Rightarrow> u64" where
  "running_of loads i = (case map_of loads i of None \<Rightarrow> 0 | Some l \<Rightarrow> load_running l)"

lemma graderHasTags_subset [simp]: "graderHasTags gtags tags \<longleftrightarrow> set tags \<subseteq> set gtags"
  by (induction tags) auto

text \<open>The grader that comes first by load and then by id.\<close>

definition preferred :: "(u64 \<times> graderLoad) list \<Rightarrow> u64 \<Rightarrow> u64 \<Rightarrow> bool" where
  "preferred loads i j \<longleftrightarrow> running_of loads i < running_of loads j \<or>
     running_of loads i = running_of loads j \<and> i \<le> j"

lemma preferred_trans: "preferred loads i j \<Longrightarrow> preferred loads j k \<Longrightarrow> preferred loads i k"
  by (auto simp: preferred_def)

lemma preferred_refl [simp]: "preferred loads i i"
  by (simp add: preferred_def)

lemma pick_loop_spec:
  assumes "sorted_wrt (<) ids" and "\<forall>b l. best = Some (b, l) \<longrightarrow> map_of loads b = Some l \<and> (\<forall>i \<in> set ids. b < i)"
  shows "case pick_loop tags loads ids best of
      None \<Rightarrow> best = None \<and> (\<forall>i \<in> set ids. \<not> eligible tags loads i)
    | Some (g, l) \<Rightarrow> map_of loads g = Some l \<and>
        (best = Some (g, l) \<or> g \<in> set ids \<and> eligible tags loads g) \<and>
        (\<forall>b. best \<noteq> None \<longrightarrow> preferred loads g (fst (the best))) \<and>
        (\<forall>i \<in> set ids. eligible tags loads i \<longrightarrow> preferred loads g i)"
  using assms
proof (induction ids arbitrary: best)
  case Nil
  then show ?case by (cases best) auto
next
  case (Cons i ids)
  have srt: "sorted_wrt (<) ids" "\<forall>j \<in> set ids. i < j" using Cons.prems(1) by auto
  show ?case
  proof (cases "eligible tags loads i")
    case False
    then have "pick_loop tags loads (i # ids) best = pick_loop tags loads ids best"
      by (auto simp: eligible_def split: option.splits)
    then show ?thesis
      using Cons.IH [OF srt(1), of best] Cons.prems(2) False by (auto split: option.splits)
  next
    case True
    then obtain l where l: "map_of loads i = Some l" "load_running l < load_concurrency l"
      "set tags \<subseteq> set (load_tags l)"
      by (auto simp: eligible_def split: option.splits)
    show ?thesis
    proof (cases "\<exists>b bl. best = Some (b, bl) \<and> \<not> load_running l < load_running bl")
      case True
      then obtain b bl where b: "best = Some (b, bl)" "\<not> load_running l < load_running bl" by blast
      then have "pick_loop tags loads (i # ids) best = pick_loop tags loads ids best"
        using l by simp
      moreover have "preferred loads b i"
        using b l Cons.prems(2) by (auto simp: preferred_def running_of_def)
      ultimately show ?thesis
        using Cons.IH [OF srt(1), of best] Cons.prems(2) b
        by (auto split: option.splits intro: preferred_trans)
    next
      case False
      then have "pick_loop tags loads (i # ids) best = pick_loop tags loads ids (Some (i, l))"
        using l by (auto split: option.splits)
      moreover have "preferred loads i b" if "best = Some (b, bl)" for b bl
        using that False l Cons.prems(2) by (auto simp: preferred_def running_of_def)
      ultimately show ?thesis
        using Cons.IH [OF srt(1), of "Some (i, l)"] srt(2) l \<open>eligible tags loads i\<close>
        by (cases best) (auto split: option.splits intro: preferred_trans)
    qed
  qed
qed

lemma pickGrader_spec:
  assumes "distinct (map fst loads)" and "0 \<notin> fst ` set loads" and "pickGrader req loads = (g, loads')"
  shows "let tags = GetConfigTags (Req_Config req) in
    if g = 0 then loads' = loads \<and> (\<forall>i. \<not> eligible tags loads i)
    else eligible tags loads g \<and> (\<forall>i. eligible tags loads i \<longrightarrow> preferred loads g i) \<and>
      (\<exists>l. map_of loads g = Some l \<and>
        map_of loads' = (map_of loads)(g \<mapsto> l\<lparr>load_running := load_running l + 1\<rparr>)) \<and>
      map fst loads' = map fst loads"
proof -
  let ?tags = "GetConfigTags (Req_Config req)"
  let ?ids = "sort (map fst loads)"
  have in_ids: "eligible ?tags loads i \<Longrightarrow> i \<in> set ?ids" for i
    by (force simp: eligible_def split: option.splits dest: map_of_SomeD)
  have "sorted_wrt (<) ?ids" using assms(1) by (simp add: strict_sorted_iff)
  note spec = pick_loop_spec [OF this, of None loads ?tags]
  show ?thesis
  proof (cases "pick_loop ?tags loads ?ids None")
    case None
    then show ?thesis using spec assms(3) in_ids by (auto simp: pickGrader_def Let_def)
  next
    case (Some r)
    obtain b l where r: "r = (b, l)" by (cases r)
    then have g: "g = b" "loads' = AList.update b (l\<lparr>load_running := load_running l + 1\<rparr>) loads"
      using assms(3) Some by (auto simp: pickGrader_def)
    have b: "map_of loads b = Some l" "b \<in> set ?ids" "eligible ?tags loads b"
      "\<And>i. eligible ?tags loads i \<Longrightarrow> preferred loads b i"
      using spec Some r in_ids by auto
    then have "b \<noteq> 0" using assms(2) by auto
    moreover have "map fst loads' = map fst loads" using b(2) by (simp add: g AList.update_keys)
    ultimately show ?thesis
      using b by (auto simp: g Let_def AList.update_conv')
  qed
qed

end
