(* ===== verification/Scheduling.thy ===== *)
theory Scheduling
  imports Hub
begin

section \<open>What a scheduling pass guarantees\<close>

text \<open>
  Proofs about \<open>schedulePass\<close> and \<open>onGraderOffline\<close> of the hub: the capacity of the graders, no
  request is left while a grader could take it, ranks, and what a disconnecting grader leaves behind.
\<close>

subsection \<open>Candidates\<close>

text \<open>A grader can be handed requests when it has an outbox that is open.\<close>

definition outbox_open :: "'db hub \<Rightarrow> u64 \<Rightarrow> bool" where
  "outbox_open h g \<longleftrightarrow>
     (case gradeRequestQueues h g of None \<Rightarrow> False | Some a \<Rightarrow> \<not> q_closed (outboxes h a))"

lemma offer_cases:
  assumes "offer_request E h g req = (h', ok)"
  obtains (no_outbox) "gradeRequestQueues h g = None" and "h' = h" and "\<not> ok"
  | (closed) a where "gradeRequestQueues h g = Some a" and "q_closed (outboxes h a)" and "\<not> ok"
      and "h' = h\<lparr>runningList := (runningList h)(Req_SubmissionId req := None),
        hub_db := fst (ReleaseSubmission E (fst (ClaimSubmission E (hub_db h) g (Req_SubmissionId req)))
          (Req_SubmissionId req))\<rparr>"
  | (taken) a where "gradeRequestQueues h g = Some a" and "\<not> q_closed (outboxes h a)" and "ok"
      and "h' = removePendingGradeRequest
        (h\<lparr>runningList := (runningList h)(Req_SubmissionId req \<mapsto> req),
          hub_db := fst (ClaimSubmission E (hub_db h) g (Req_SubmissionId req)),
          outboxes := (outboxes h)(a := (outboxes h a)\<lparr>q_requests := q_requests (outboxes h a) @ [req]\<rparr>)\<rparr>)
        (Req_SubmissionId req)"
proof (cases "gradeRequestQueues h g")
  case None
  then have "h' = h" "\<not> ok" using assms by (simp_all add: offer_request_def)
  then show ?thesis using no_outbox [OF None] by blast
next
  case (Some a)
  show ?thesis
  proof (cases "q_closed (outboxes h a)")
    case True
    let ?h = "h\<lparr>runningList := (runningList h)(Req_SubmissionId req := None),
      hub_db := fst (ReleaseSubmission E (fst (ClaimSubmission E (hub_db h) g (Req_SubmissionId req)))
        (Req_SubmissionId req))\<rparr>"
    have "offer_request E h g req = (?h, False)"
      using Some True by (simp add: offer_request_def onSubmissionScheduled_def Let_def queue_Push_def)
    then have "h' = ?h" "\<not> ok" using assms by simp_all
    then show ?thesis using closed [OF Some True] by blast
  next
    case False
    let ?h = "h\<lparr>runningList := (runningList h)(Req_SubmissionId req \<mapsto> req),
      hub_db := fst (ClaimSubmission E (hub_db h) g (Req_SubmissionId req)),
      outboxes := (outboxes h)(a := (outboxes h a)\<lparr>q_requests := q_requests (outboxes h a) @ [req]\<rparr>)\<rparr>"
    have "offer_request E h g req = (removePendingGradeRequest ?h (Req_SubmissionId req), True)"
      using Some False by (simp add: offer_request_def onSubmissionScheduled_def Let_def queue_Push_def)
    then have "h' = removePendingGradeRequest ?h (Req_SubmissionId req)" "ok" using assms by simp_all
    then show ?thesis using taken [OF Some False] by blast
  qed
qed

lemma outbox_open_cong:
  "gradeRequestQueues h' = gradeRequestQueues h \<Longrightarrow> (\<And>a. q_closed (outboxes h' a) = q_closed (outboxes h a)) \<Longrightarrow>
    outbox_open h' i = outbox_open h i"
  by (simp add: outbox_open_def split: option.splits)

lemma offer_request_ok:
  assumes "offer_request E h g req = (h', ok)"
  shows "(ok \<longleftrightarrow> outbox_open h g) \<and> onlineGraders h' = onlineGraders h \<and>
    gradeRequestQueues h' = gradeRequestQueues h \<and> (\<forall>i. outbox_open h' i \<longleftrightarrow> outbox_open h i) \<and>
    (\<not> ok \<longrightarrow> queuedList h' = queuedList h \<and> queuedListIndex h' = queuedListIndex h \<and> outboxes h' = outboxes h)"
  using assms
proof (cases rule: offer_cases)
  case no_outbox
  then show ?thesis by (simp add: outbox_open_def)
next
  case (closed a)
  have "outbox_open h' i = outbox_open h i" for i
    unfolding closed(4) by (rule outbox_open_cong) simp_all
  then show ?thesis using closed(1-3) unfolding closed(4) by (simp add: outbox_open_def)
next
  case (taken a)
  have "outbox_open h' i = outbox_open h i" for i
    unfolding taken(4) by (rule outbox_open_cong) simp_all
  moreover have "onlineGraders h' = onlineGraders h" "gradeRequestQueues h' = gradeRequestQueues h"
    unfolding taken(4) by simp_all
  ultimately show ?thesis using taken(1-3) by (simp add: outbox_open_def)
qed

text \<open>When no candidate took a request, the candidates left are those that can be handed requests, with
  the loads they had, and none of them is eligible.\<close>

lemma map_of_map_key: "map_of (map (\<lambda>(i, x). (i, f i x)) xs) k = map_option (f k) (map_of xs k)"
  by (induction xs) auto

lemma map_of_AList_delete: "map_of (AList.delete k xs) i = (if i = k then None else map_of xs i)"
  by (simp add: AList.delete_conv')

lemma delete_ids_ok:
  assumes "distinct (map fst loads)" and "(0 :: u64) \<notin> fst ` set loads"
  shows "distinct (map fst (AList.delete g loads))" and "0 \<notin> fst ` set (AList.delete g loads)"
  using AList.distinct_delete [OF assms(1)] assms(2) subsetD [OF AList.dom_delete_subset [of g loads], of 0]
  by blast+

lemma schedule_request_False:
  assumes "distinct (map fst loads)" and "0 \<notin> fst ` set loads"
    and "schedule_request E h loads req = (h', loads', False)"
  shows "queuedList h' = queuedList h \<and> outboxes h' = outboxes h \<and> gradeRequestQueues h' = gradeRequestQueues h \<and>
    onlineGraders h' = onlineGraders h \<and>
    distinct (map fst loads') \<and> 0 \<notin> fst ` set loads' \<and>
    (\<forall>i. map_of loads' i = map_of loads i \<or> \<not> outbox_open h i) \<and>
    (\<forall>i. \<not> eligible (GetConfigTags (Req_Config req)) loads' i)"
  using assms
proof (induction E h loads req arbitrary: h' loads' rule: schedule_request.induct)
  case (1 E h loads req)
  obtain g loads1 where p: "pickGrader req loads = (g, loads1)" by (cases "pickGrader req loads")
  note spec = pickGrader_spec [OF 1(2, 3) p, unfolded Let_def]
  show ?case
  proof (cases "g = 0")
    case True
    then have "h' = h" "loads' = loads1" using 1(4) p by (auto simp: schedule_request.simps [of E h])
    then show ?thesis using spec True 1(2, 3) by simp
  next
    case False
    obtain h1 b where o: "offer_request E h g req = (h1, b)" by (cases "offer_request E h g req")
    have b: "\<not> b" using 1(4) p False o by (auto simp: schedule_request.simps [of E h])
    note off = offer_request_ok [OF o]
    have closed: "\<not> outbox_open h g" using off b by simp
    let ?loads = "AList.delete g loads1"
    have rec: "schedule_request E h1 ?loads req = (h', loads', False)"
      using 1(4) p False o b by (simp add: schedule_request.simps [of E h])
    obtain l where l: "map_of loads1 = (map_of loads)(g \<mapsto> l)" and keys: "map fst loads1 = map fst loads"
      using spec False by auto
    have "distinct (map fst loads1)" "0 \<notin> fst ` set loads1"
      using 1(2, 3) keys by (simp, metis list.set_map)
    note d = delete_ids_ok [OF this]
    have "map_of ?loads i = map_of loads i \<or> \<not> outbox_open h i" for i
      using closed by (auto simp: map_of_AList_delete l)
    moreover note 1(1) [OF p [symmetric] False o [symmetric] _ d rec]
    ultimately show ?thesis
      using off b by metis
  qed
qed

lemma schedule_from_True: "schedule_from E h loads elems True = (h', pr) \<Longrightarrow> pr"
proof (induction E h loads elems True arbitrary: h' pr rule: schedule_from.induct)
  case (2 E h loads cur rest)
  obtain h1 loads1 b where s: "schedule_request E h loads (pd_request (snd cur)) = (h1, loads1, b)"
    by (metis prod_cases3)
  show ?case using 2(1) [OF s [symmetric] refl] 2(2) by (simp add: s)
qed simp

lemma schedule_from_False:
  assumes "distinct (map fst loads)" and "0 \<notin> fst ` set loads"
    and "schedule_from E h loads elems pr = (h', False)"
    and "\<forall>x \<in> set elems. fst x \<in> fst ` set (queuedList h)"
  shows "\<not> pr \<and> queuedList h' = queuedList h \<and>
    (\<forall>x \<in> set elems. \<forall>i. eligible (GetConfigTags (Req_Config (pd_request (snd x)))) loads i \<longrightarrow>
      \<not> outbox_open h i)"
  using assms
proof (induction E h loads elems pr arbitrary: h' rule: schedule_from.induct)
  case (2 E h loads cur rest pr)
  obtain h1 loads1 b where s: "schedule_request E h loads (pd_request (snd cur)) = (h1, loads1, b)"
    by (metis prod_cases3)
  let ?rest = "case rest of [] \<Rightarrow> [] | nxt # rest' \<Rightarrow>
    if fst nxt \<in> fst ` set (queuedList h1)
    then nxt # filter (\<lambda>x. fst x \<in> fst ` set (queuedList h1)) rest' else [nxt]"
  have rec: "schedule_from E h1 loads1 ?rest (pr \<or> b) = (h', False)" using 2(4) by (simp add: s)
  show ?case
  proof (cases b)
    case True
    then have False using rec schedule_from_True [of E h1 loads1 ?rest] by auto
    then show ?thesis ..
  next
    case False
    then have "schedule_request E h loads (pd_request (snd cur)) = (h1, loads1, False)" using s by simp
    note r = schedule_request_False [OF 2(2, 3) this]
    then have "?rest = rest"
      using 2(5) by (auto split: list.splits simp: filter_id_conv)
    then have rec': "schedule_from E h1 loads1 rest (pr \<or> b) = (h', False)" using rec by simp
    have "\<forall>x \<in> set rest. fst x \<in> fst ` set (queuedList h1)" using r 2(5) by simp
    with 2(1) [OF s [symmetric] refl] r rec' \<open>?rest = rest\<close>
    have IH: "\<not> (pr \<or> b) \<and> queuedList h' = queuedList h1 \<and>
        (\<forall>x \<in> set rest. \<forall>i. eligible (GetConfigTags (Req_Config (pd_request (snd x)))) loads1 i \<longrightarrow>
          \<not> outbox_open h1 i)"
      by simp
    have open1: "outbox_open h1 i \<longleftrightarrow> outbox_open h i" for i
      using r by (intro outbox_open_cong) simp_all
    have keep: "eligible tags loads1 i" if "eligible tags loads i" "outbox_open h i" for tags i
    proof -
      have "map_of loads1 i = map_of loads i" using r that(2) by blast
      then show ?thesis using that(1) by (simp add: eligible_def)
    qed
    have cur: "\<not> eligible (GetConfigTags (Req_Config (pd_request (snd cur)))) loads1 i" for i
      using r by blast
    have "\<not> outbox_open h i"
      if "x \<in> set (cur # rest)" "eligible (GetConfigTags (Req_Config (pd_request (snd x)))) loads i" for x i
    proof (cases "x = cur")
      case True
      then show ?thesis using that cur keep by blast
    next
      case False
      then have "x \<in> set rest" using that(1) by simp
      then show ?thesis using that(2) IH open1 keep by blast
    qed
    moreover have "queuedList h' = queuedList h" using IH r by simp
    ultimately show ?thesis using IH by blast
  qed
qed simp

lemma snapshot_keys [simp]: "map fst (snapshotGraderLoads E h) = map fst (onlineGraders h)"
  by (auto simp: snapshotGraderLoads_def Let_def)

subsection \<open>Claims made by a pass\<close>

text \<open>The number of submissions a grader lists.\<close>

definition claim_count :: "('db \<Rightarrow> bytes \<rightharpoonup> bytes) \<Rightarrow> 'db \<Rightarrow> u64 \<Rightarrow> nat" where
  "claim_count view db g = card {s \<in> claims_held view db g. unat s < 2 ^ 63}"

lemma finite_u64 [simp]: "finite (A :: u64 set)"
  by (rule finite_subset [of _ UNIV]) simp_all

lemma claim_count_mono:
  "claims_held view db' g \<subseteq> claims_held view db g \<Longrightarrow> claim_count view db' g \<le> claim_count view db g"
  unfolding claim_count_def by (rule card_mono) auto

lemma claim_count_insert:
  assumes "claims_held view db' g \<subseteq> insert s (claims_held view db g)"
  shows "claim_count view db' g \<le> Suc (claim_count view db g)"
proof -
  have "card {t \<in> claims_held view db' g. unat t < 2 ^ 63} \<le>
      card (insert s {t \<in> claims_held view db g. unat t < 2 ^ 63})"
    by (rule card_mono) (use assms in auto)
  also have "\<dots> \<le> Suc (card {t \<in> claims_held view db g. unat t < 2 ^ 63})"
    by (rule card_insert_le_m1) auto
  finally show ?thesis by (simp add: claim_count_def)
qed

text \<open>
  The loads of a pass over-approximate the claims, and no grader goes beyond its concurrency or, when it
  had more already, beyond what it had.
\<close>

definition loads_ok :: "('db \<Rightarrow> bytes \<rightharpoonup> bytes) \<Rightarrow> (u64 \<Rightarrow> u64) \<Rightarrow> (u64 \<Rightarrow> nat) \<Rightarrow> 'db \<Rightarrow> (u64 \<times> graderLoad) list \<Rightarrow> bool" where
  "loads_ok view conc before db loads \<longleftrightarrow>
     claim_shape view db \<and> distinct (map fst loads) \<and> 0 \<notin> fst ` set loads \<and>
     (\<forall>g l. map_of loads g = Some l \<longrightarrow> load_concurrency l = conc g \<and>
        claim_count view db g \<le> unat (load_running l)) \<and>
     (\<forall>g. claim_count view db g \<le> max (before g) (unat (conc g)))"

text \<open>The concurrency a grader registered with; 0 when it is not online.\<close>

definition concurrency_of :: "'db hub \<Rightarrow> u64 \<Rightarrow> u64" where
  "concurrency_of h g =
     (case map_of (onlineGraders h) g of None \<Rightarrow> 0 | Some gm \<Rightarrow> GetConcurrency (Grader_Info gm))"

text \<open>Submission ids below \<open>2 ^ 63\<close>: their number is below \<open>2 ^ 64\<close>.\<close>

lemma claim_count_less: "claim_count view db g < 2 ^ 64"
proof -
  have "claim_count view db g \<le> card (unat ` {s \<in> claims_held view db g. unat s < 2 ^ 63})"
    unfolding claim_count_def by (subst card_image) (auto simp: inj_on_def word_unat_eq_iff)
  also have "\<dots> \<le> card {..< 2 ^ 63 :: nat}" by (rule card_mono) auto
  finally show ?thesis by simp
qed

context store_up
begin

lemma claim_count_read:
  assumes "claim_shape view db"
  shows "\<exists>xs. GetSubmissionsByGrader E db g = Inr xs \<and> length xs = claim_count view db g"
proof -
  from held_read [OF assms, of g] obtain xs where "GetSubmissionsByGrader E db g = Inr xs" "distinct xs"
    "set xs = {s \<in> claims_held view db g. unat s < 2 ^ 63}" by blast
  then show ?thesis using distinct_card [of xs] by (auto simp: claim_count_def)
qed

lemma claim_held_view:
  assumes "ClaimSubmission E db g s = (db', r)"
  shows "claims_held view db' h = (if h = g then insert s (claims_held view db h) else claims_held view db h)"
  using claim_view [OF assms] by (auto simp: claims_held_def)

lemma claim_shape_claim:
  assumes "claim_shape view db" and "ClaimSubmission E db g s = (db', r)"
  shows "claim_shape view db'"
  using claim_view [OF assms(2)] assms(1)
  by (auto simp: claim_shape_def split: if_splits)

lemma release_after_claim:
  assumes "ClaimSubmission E db g s = (db1, r1)" and "ReleaseSubmission E db1 s = (db2, r2)"
  shows "view db2 = (view db)(getSubmissionGraderKey s := None, getGraderSubmissionKey g s := None)"
proof -
  note c = claim_view [OF assms(1), THEN conjunct2]
  then have "view db1 (getSubmissionGraderKey s) = Some (Uint64ToBytes g)" by simp
  from release_view [OF this assms(2)] show ?thesis by (auto simp: c fun_eq_iff)
qed

lemma offer_claims:
  assumes o: "offer_request E h g req = (h', ok)" and shape: "claim_shape view (hub_db h)"
  shows "claim_shape view (hub_db h') \<and>
    (\<forall>i. claims_held view (hub_db h') i \<subseteq>
      (if ok \<and> i = g then insert (Req_SubmissionId req) (claims_held view (hub_db h) i)
       else claims_held view (hub_db h) i))"
  using o
proof (cases rule: offer_cases)
  case no_outbox
  then show ?thesis using shape by simp
next
  case (closed a)
  obtain db1 r1 where c: "ClaimSubmission E (hub_db h) g (Req_SubmissionId req) = (db1, r1)"
    by (cases "ClaimSubmission E (hub_db h) g (Req_SubmissionId req)")
  obtain db2 r2 where r: "ReleaseSubmission E db1 (Req_SubmissionId req) = (db2, r2)"
    by (cases "ReleaseSubmission E db1 (Req_SubmissionId req)")
  have "hub_db h' = db2" using closed(4) by (simp add: c r)
  then show ?thesis
    using release_after_claim [OF c r] shape closed(3)
    by (auto simp: claims_held_def claim_shape_def split: if_splits)
next
  case (taken a)
  obtain db1 r1 where c: "ClaimSubmission E (hub_db h) g (Req_SubmissionId req) = (db1, r1)"
    by (cases "ClaimSubmission E (hub_db h) g (Req_SubmissionId req)")
  have "hub_db h' = db1" using taken(4) by (simp add: c)
  then show ?thesis
    using claim_shape_claim [OF shape c] claim_held_view [OF c] taken(3) by auto
qed

lemma pick_loads_ok:
  assumes ok: "loads_ok view conc before db loads" and p: "pickGrader req loads = (g, loads1)" and g: "g \<noteq> 0"
  shows "\<exists>l. map_of loads g = Some l \<and> unat (load_running l) < unat (conc g) \<and>
    map_of loads1 = (map_of loads)(g \<mapsto> l\<lparr>load_running := load_running l + 1\<rparr>) \<and>
    unat (load_running l + 1) = unat (load_running l) + 1 \<and> map fst loads1 = map fst loads"
proof -
  have "distinct (map fst loads)" "0 \<notin> fst ` set loads" using ok by (auto simp: loads_ok_def)
  from pickGrader_spec [OF this p] g obtain l where
    l: "map_of loads g = Some l" "map_of loads1 = (map_of loads)(g \<mapsto> l\<lparr>load_running := load_running l + 1\<rparr>)"
    and e: "eligible (GetConfigTags (Req_Config req)) loads g" and k: "map fst loads1 = map fst loads"
    by (auto simp: Let_def)
  have lt: "load_running l < conc g" using e l ok by (auto simp: eligible_def loads_ok_def)
  then have "unat (load_running l + 1) = unat (load_running l) + 1"
    using unat_u64_add [of "load_running l" 1] unat_u64_lt [of "conc g"] by (simp add: word_less_nat_alt)
  with l lt k show ?thesis by (auto simp: word_less_nat_alt)
qed

lemma schedule_request_loads_ok:
  assumes "loads_ok view conc before (hub_db h) loads" and "schedule_request E h loads req = (h', loads', ok)"
  shows "loads_ok view conc before (hub_db h') loads'"
  using assms
proof (induction E' \<equiv> E h loads req arbitrary: h' loads' ok rule: schedule_request.induct)
  case (1 h loads req)
  obtain g loads1 where p: "pickGrader req loads = (g, loads1)" by (cases "pickGrader req loads")
  show ?case
  proof (cases "g = 0")
    case True
    have "distinct (map fst loads)" "0 \<notin> fst ` set loads" using 1(2) by (auto simp: loads_ok_def)
    from pickGrader_spec [OF this p] True have "loads1 = loads" by (simp add: Let_def)
    then show ?thesis using 1(2, 3) p True by (auto simp: schedule_request.simps [of E h])
  next
    case False
    obtain h1 b where o: "offer_request E h g req = (h1, b)" by (cases "offer_request E h g req")
    have shape: "claim_shape view (hub_db h)" using 1(2) by (simp add: loads_ok_def)
    note off = offer_claims [OF o shape]
    from pick_loads_ok [OF 1(2) p False] obtain l where l: "map_of loads g = Some l"
      "unat (load_running l) < unat (conc g)"
      "map_of loads1 = (map_of loads)(g \<mapsto> l\<lparr>load_running := load_running l + 1\<rparr>)"
      "unat (load_running l + 1) = unat (load_running l) + 1" and k: "map fst loads1 = map fst loads"
      by blast
    have cnt: "claim_count view (hub_db h) g \<le> unat (load_running l)" "load_concurrency l = conc g"
      using 1(2) l(1) by (auto simp: loads_ok_def)
    have keys: "distinct (map fst loads1)" "0 \<notin> fst ` set loads1"
    proof -
      show "distinct (map fst loads1)" using 1(2) k by (simp add: loads_ok_def)
      show "0 \<notin> fst ` set loads1" using 1(2) arg_cong [OF k, of set] by (auto simp: loads_ok_def)
    qed
    have other: "claim_count view (hub_db h1) i \<le> claim_count view (hub_db h) i" if "\<not> (b \<and> i = g)" for i
      using off that by (intro claim_count_mono) (auto split: if_splits)
    have mine: "claim_count view (hub_db h1) g \<le> Suc (claim_count view (hub_db h) g)"
      using off by (intro claim_count_insert [of _ _ _ "Req_SubmissionId req"]) (auto split: if_splits)
    have bound: "claim_count view (hub_db h1) i \<le> max (before i) (unat (conc i))" for i
    proof (cases "b \<and> i = g")
      case True
      then show ?thesis using mine cnt(1) l(2) by simp
    next
      case False
      then show ?thesis using other [OF False] 1(2) by (auto simp: loads_ok_def intro: le_trans)
    qed
    show ?thesis
    proof (cases b)
      case True
      then have eq: "h' = h1" "loads' = loads1"
        using 1(3) p False o by (auto simp: schedule_request.simps [of E h])
      have "load_concurrency l' = conc i \<and> claim_count view (hub_db h1) i \<le> unat (load_running l')"
        if "map_of loads1 i = Some l'" for i l'
      proof (cases "i = g")
        case True
        then show ?thesis using that l(3, 4) mine cnt by auto
      next
        case i: False
        then have "map_of loads i = Some l'" using that l(3) by simp
        then show ?thesis using 1(2) other [of i] i by (fastforce simp: loads_ok_def intro: le_trans)
      qed
      then show ?thesis using keys bound off unfolding eq loads_ok_def by blast
    next
      case b: False
      let ?loads = "AList.delete g loads1"
      have rec: "schedule_request E h1 ?loads req = (h', loads', ok)"
        using 1(3) p False o b by (simp add: schedule_request.simps [of E h])
      have "load_concurrency l' = conc i \<and> claim_count view (hub_db h1) i \<le> unat (load_running l')"
        if "map_of ?loads i = Some l'" for i l'
      proof -
        have "i \<noteq> g" "map_of loads i = Some l'"
          using that by (auto simp: map_of_AList_delete l(3) split: if_splits)
        then show ?thesis using 1(2) other [of i] b by (fastforce simp: loads_ok_def intro: le_trans)
      qed
      moreover have "distinct (map fst ?loads)" "0 \<notin> fst ` set ?loads"
        using delete_ids_ok [OF keys] by blast+
      ultimately have "loads_ok view conc before (hub_db h1) ?loads"
        using bound off unfolding loads_ok_def by blast
      from 1(1) [OF p [symmetric] False o [symmetric] _ this rec] b show ?thesis by simp
    qed
  qed
qed

lemma schedule_from_loads_ok:
  assumes "loads_ok view conc before (hub_db h) loads" and "schedule_from E h loads elems pr = (h', pr')"
  shows "\<exists>loads'. loads_ok view conc before (hub_db h') loads'"
  using assms
proof (induction E' \<equiv> E h loads elems pr arbitrary: h' pr' rule: schedule_from.induct)
  case (2 h loads cur rest pr)
  obtain h1 loads1 b where s: "schedule_request E h loads (pd_request (snd cur)) = (h1, loads1, b)"
    by (metis prod_cases3)
  note ok1 = schedule_request_loads_ok [OF 2(2) s]
  show ?case using 2(3) 2(1) [OF s [symmetric] refl ok1] by (simp add: s)
qed auto

lemma snapshot_lookup:
  "map_of (snapshotGraderLoads E h) g =
     map_option (\<lambda>grader. \<lparr>load_concurrency = GetConcurrency (Grader_Info grader),
       load_tags = GetInfoTags (Grader_Info grader),
       load_running = of_nat (length (case GetSubmissionsByGrader E (hub_db h) g of
         Inl e \<Rightarrow> [] | Inr xs \<Rightarrow> xs))\<rparr>) (map_of (onlineGraders h) g)"
  by (simp add: snapshotGraderLoads_def Let_def map_of_map_key)

lemma snapshot_loads_ok:
  assumes "claim_shape view (hub_db h)" and "distinct (map fst (onlineGraders h))"
    and "0 \<notin> fst ` set (onlineGraders h)"
  shows "loads_ok view (concurrency_of h) (claim_count view (hub_db h)) (hub_db h) (snapshotGraderLoads E h)"
proof -
  have "claim_count view (hub_db h) g \<le> unat (load_running l) \<and> load_concurrency l = concurrency_of h g"
    if load: "map_of (snapshotGraderLoads E h) g = Some l" for g l
  proof -
    obtain xs where xs: "GetSubmissionsByGrader E (hub_db h) g = Inr xs"
      "length xs = claim_count view (hub_db h) g"
      using claim_count_read [OF assms(1)] by blast
    obtain gm where "map_of (onlineGraders h) g = Some gm"
      "l = \<lparr>load_concurrency = GetConcurrency (Grader_Info gm), load_tags = GetInfoTags (Grader_Info gm),
        load_running = of_nat (length xs)\<rparr>"
      using load unfolding snapshot_lookup xs(1) by (cases "map_of (onlineGraders h) g") auto
    then show ?thesis
      using claim_count_less [of view "hub_db h" g] by (simp add: unat_of_nat_u64 xs(2) concurrency_of_def)
  qed
  moreover have "0 \<notin> fst ` set (snapshotGraderLoads E h)"
    using assms(3) snapshot_keys [of E h] by (metis list.set_map)
  ultimately show ?thesis using assms(1, 2) by (simp add: loads_ok_def)
qed

lemma schedulePass_claims:
  assumes "claim_shape view (hub_db h)" and "distinct (map fst (onlineGraders h))"
    and "0 \<notin> fst ` set (onlineGraders h)" and "schedulePass E h = (h', pr)"
  shows "claim_shape view (hub_db h') \<and>
    (\<forall>g. claim_count view (hub_db h') g \<le> max (claim_count view (hub_db h) g) (unat (concurrency_of h g)))"
proof (cases "length (snapshotGraderLoads E h) = 0")
  case True
  then show ?thesis using assms by (simp add: schedulePass_def)
next
  case False
  then have "schedule_from E h (snapshotGraderLoads E h) (queuedList h) False = (h', pr)"
    using assms(4) by (simp add: schedulePass_def Let_def)
  from schedule_from_loads_ok [OF snapshot_loads_ok [OF assms(1-3)] this] show ?thesis
    by (auto simp: loads_ok_def)
qed

end

subsection \<open>A small hub\<close>

text \<open>
  Grader 1 with concurrency 1 and an open outbox, grader 2 that registered but opened no heartbeat, and
  a pending request for submission 7.
\<close>

definition small_grader :: grader_status_metadata where
  "small_grader = \<lparr>Grader_Info = Some \<lparr>Info_Hostname = ''h'', Info_Tags = [], Info_Concurrency = 1\<rparr>,
     Grader_Ip = ''i'', Grader_Status = GraderStatusMetadata_Online, Grader_LastHeartbeat = None\<rparr>"

definition small_request :: "u64 \<Rightarrow> grade_request" where
  "small_request s = \<lparr>Req_SubmissionId = s, Req_Submission = None, Req_Config = None, Req_IsCancel = False,
     Req_IsStreamLog = False, Req_RequestId = []\<rparr>"

definition small_hub :: "(u64 \<times> grader_status_metadata) list \<Rightarrow> (bytes \<times> bytes) list hub" where
  "small_hub online = pushPendingGradeQueue
     ((initial_hub [] \<lparr>seq_key = ''s'', seq_next = 1, seq_limit = 1\<rparr> ''t'')
        \<lparr>onlineGraders := online, gradeRequestQueues := [1 \<mapsto> 0], next_outbox := 1\<rparr>) (small_request 7)"

lemma small_hub_simps [simp]:
  "hub_db (small_hub online) = []" "onlineGraders (small_hub online) = online"
  "gradeRequestQueues (small_hub online) = [1 \<mapsto> 0]"
  "queuedList (small_hub online) = [(0, \<lparr>pd_rank = 1, pd_request = small_request 7\<rparr>)]"
  by (simp_all add: small_hub_def initial_hub_def)

lemma small_hub_shape [simp]: "claim_shape map_of []"
  by (simp add: claim_shape_def)

subsection \<open>Properties\<close>

text \<open>
  C3: A scheduling pass never hands a grader more than its concurrency: after the pass, the submissions
  the repository lists for a grader are at most as many as the concurrency it registered with (none when
  it is not online), unless it had more before the pass, in which case it got no further one.
\<close>

theorem pass_respects_concurrency:
  assumes "store_up E view" and "claim_shape view (hub_db h)" and "distinct (map fst (onlineGraders h))"
    and "0 \<notin> fst ` set (onlineGraders h)" and "schedulePass E h = (h', pr)"
  shows "\<exists>before after. GetSubmissionsByGrader E (hub_db h) g = Inr before \<and>
    GetSubmissionsByGrader E (hub_db h') g = Inr after \<and>
    length after \<le> max (length before)
      (unat (case map_of (onlineGraders h) g of None \<Rightarrow> 0 | Some gm \<Rightarrow> GetConcurrency (Grader_Info gm)))"
proof -
  note c = store_up.schedulePass_claims [OF assms]
  obtain xs ys where "GetSubmissionsByGrader E (hub_db h) g = Inr xs" "length xs = claim_count view (hub_db h) g"
    "GetSubmissionsByGrader E (hub_db h') g = Inr ys" "length ys = claim_count view (hub_db h') g"
    using store_up.claim_count_read [OF assms(1)] assms(2) c by blast
  then show ?thesis using c by (simp add: concurrency_of_def)
qed

theorem pass_respects_concurrency_witness:
  "\<exists>h' pr after. schedulePass mem_env (small_hub [(1, small_grader)]) = (h', pr) \<and>
    GetSubmissionsByGrader mem_env (hub_db h') 1 = Inr after \<and> length after \<le> 1"
proof -
  let ?h = "small_hub [(1, small_grader)]"
  obtain h' pr where p: "schedulePass mem_env ?h = (h', pr)" by (cases "schedulePass mem_env ?h")
  have none: "GetSubmissionsByGrader mem_env (hub_db ?h) 1 = Inr []"
    using mem.held_read [OF small_hub_shape, of 1] by (auto simp: claims_held_def)
  have "distinct (map fst (onlineGraders ?h))" "0 \<notin> fst ` set (onlineGraders ?h)" by simp_all
  from pass_respects_concurrency [OF mem_store_up _ this p, of 1] obtain after where
    "GetSubmissionsByGrader mem_env (hub_db h') 1 = Inr after" "length after \<le> 1"
    using none by (auto simp: small_grader_def GetConcurrency_def)
  then show ?thesis using p by blast
qed

text \<open>
  C6: No work is left behind: when a pass reports that it scheduled nothing, the pending list is as it was
  and, for every request of it, every grader that is online with spare concurrency and all the tags of the
  request has no open outbox. (The scheduler goroutine only goes to sleep after such a pass.)
\<close>

theorem idle_pass_is_justified:
  assumes "distinct (map fst (onlineGraders h))" and "0 \<notin> fst ` set (onlineGraders h)"
    and "schedulePass E h = (h', False)"
  shows "queuedList h' = queuedList h \<and>
    (\<forall>x \<in> set (queuedList h). \<forall>g.
      eligible (GetConfigTags (Req_Config (pd_request (snd x)))) (snapshotGraderLoads E h) g \<longrightarrow>
        \<not> outbox_open h g)"
proof (cases "length (snapshotGraderLoads E h) = 0")
  case True
  then show ?thesis using assms(3) by (simp add: schedulePass_def eligible_def)
next
  case False
  have "distinct (map fst (snapshotGraderLoads E h))" "0 \<notin> fst ` set (snapshotGraderLoads E h)"
    using assms(1, 2) snapshot_keys [of E h] by (simp, metis list.set_map)
  from schedule_from_False [OF this, of E h "queuedList h" False h'] False assms(3) show ?thesis
    by (simp add: schedulePass_def Let_def)
qed

theorem idle_pass_is_justified_witness:
  "\<exists>h'. schedulePass mem_env (small_hub [(2, small_grader)]) = (h', False) \<and>
    queuedList h' = queuedList (small_hub [(2, small_grader)]) \<and>
    (\<forall>g. eligible [] (snapshotGraderLoads mem_env (small_hub [(2, small_grader)])) g \<longrightarrow>
      \<not> outbox_open (small_hub [(2, small_grader)]) g)"
proof -
  let ?h = "small_hub [(2, small_grader)]"
  have no: "offer_request mem_env ?h 2 (small_request 7) = (?h, False)"
    by (simp add: offer_request_def)
  obtain l where l: "snapshotGraderLoads mem_env ?h = [(2, l)]"
    by (auto simp: snapshotGraderLoads_def Let_def)
  have "\<exists>loads. schedule_request mem_env ?h [(2, l)] (small_request 7) = (?h, loads, False)"
  proof (cases "pickGrader (small_request 7) [(2, l)]")
    case (Pair g loads1)
    then have "g \<noteq> 0 \<Longrightarrow> g = 2 \<and> map fst loads1 = [2]"
      using pickGrader_in [of "small_request 7" "[(2, l)]" g loads1] by auto
    then show ?thesis
      using Pair no
      by (cases "g = 0") (auto simp: schedule_request.simps [of mem_env ?h]
        schedule_request.simps [of mem_env ?h "[]"] pickGrader_def)
  qed
  then have p: "schedulePass mem_env ?h = (?h, False)"
    by (auto simp: schedulePass_def Let_def l)
  show ?thesis
    using idle_pass_is_justified [OF _ _ p] p by (auto simp: small_request_def GetConfigTags_def)
qed

text \<open>
  \<open>pickGrader\<close> chooses an eligible grader (spare concurrency, all tags of the request) that no eligible
  grader beats by load or, at equal load, by id; it answers 0 exactly when no grader is eligible, and it
  counts the choice in the loads of the pass and changes nothing else.
\<close>

theorem pickGrader_least_loaded:
  assumes "distinct (map fst loads)" and "0 \<notin> fst ` set loads" and "pickGrader req loads = (g, loads')"
  shows "(g = 0 \<longleftrightarrow> (\<forall>i. \<not> eligible (GetConfigTags (Req_Config req)) loads i)) \<and>
    (g \<noteq> 0 \<longrightarrow> eligible (GetConfigTags (Req_Config req)) loads g \<and>
      (\<forall>i. eligible (GetConfigTags (Req_Config req)) loads i \<longrightarrow> preferred loads g i)) \<and>
    (\<forall>i. running_of loads' i = running_of loads i + (if g \<noteq> 0 \<and> i = g then 1 else 0))"
  using pickGrader_spec [OF assms] by (auto simp: Let_def running_of_def split: if_splits)

theorem pickGrader_least_loaded_witness:
  "\<exists>g loads'. pickGrader (small_request 7) [(1, \<lparr>load_concurrency = 2, load_tags = [], load_running = 1\<rparr>),
      (2, \<lparr>load_concurrency = 2, load_tags = [], load_running = 0\<rparr>)] = (g, loads') \<and> g = 2 \<and>
    running_of loads' 2 = 1"
proof -
  let ?loads = "[(1, \<lparr>load_concurrency = 2, load_tags = [], load_running = 1\<rparr>),
      (2, \<lparr>load_concurrency = 2, load_tags = [], load_running = 0\<rparr>)] :: (u64 \<times> graderLoad) list"
  obtain g loads' where p: "pickGrader (small_request 7) ?loads = (g, loads')"
    by (cases "pickGrader (small_request 7) ?loads")
  note c = pickGrader_least_loaded [OF _ _ p, simplified]
  have e: "eligible [] ?loads i \<longleftrightarrow> i = 1 \<or> i = 2" for i by (simp add: eligible_def)
  have tags: "GetConfigTags (Req_Config (small_request 7)) = []"
    by (simp add: small_request_def GetConfigTags_def)
  have "g \<noteq> 0" using c e unfolding tags by blast
  then have g: "g = 2" using c e unfolding tags by (auto simp: preferred_def running_of_def)
  then have "running_of loads' 2 = 1" using c by (simp add: running_of_def)
  with p g show ?thesis by blast
qed

end
