(* ===== verification/HubAuth.thy ===== *)
theory HubAuth
  imports Scheduling
begin

section \<open>Authentication of graders (pkg/grader/grpc/auth.go)\<close>

text \<open>
  Every call to the hub passes an interceptor that authenticates the grader; the identity it
  establishes is the context value \<open>GraderIdFromContext\<close> reads, here a \<open>u64 option\<close>. Metadata is a
  map from the lower-cased key to its values. The request body matters only as far as \<open>authenticate\<close>
  looks at it: a registration, a message with a grader id, or anything else (a stream has no body).
  The 32 random bytes of a new session, or the failure to read them, are an argument.
\<close>

datatype hub_body = Body_Register string | Body_GraderId u64 | Body_Other

type_synonym hub_md = "string \<Rightarrow> string list"

definition GraderHubService_RegisterGrader_FullMethodName :: string where
  "GraderHubService_RegisterGrader_FullMethodName = ''/GraderHubService/RegisterGrader''"

definition MetadataHubToken :: string where
  "MetadataHubToken = ''token''"

definition MetadataGraderId :: string where
  "MetadataGraderId = ''graderid''"

definition MetadataSessionToken :: string where
  "MetadataSessionToken = ''session-token''"

text \<open>\<open>hex.EncodeToString\<close>\<close>

definition hex_digit :: "nat \<Rightarrow> char" where
  "hex_digit n = ''0123456789abcdef'' ! n"

fun EncodeToString :: "bytes \<Rightarrow> string" where
  "EncodeToString [] = []"
| "EncodeToString (c # cs) =
     hex_digit (byte_val c div 16) # hex_digit (byte_val c mod 16) # EncodeToString cs"

definition newSession :: "(error + bytes) \<Rightarrow> 'db hub \<Rightarrow> u64 \<Rightarrow> 'db hub \<times> (error + string)" where
  "newSession random h graderId =
     (case random of
        Inl e \<Rightarrow> (h, Inl e)
      | Inr raw \<Rightarrow>
          let token = EncodeToString raw
          in (h\<lparr>sessions := (sessions h)(graderId \<mapsto> token)\<rparr>, Inr token))"

definition checkSession :: "'db hub \<Rightarrow> u64 \<Rightarrow> string \<Rightarrow> bool" where
  "checkSession h graderId token =
     (case sessions h graderId of None \<Rightarrow> False | Some expected \<Rightarrow> token \<noteq> [] \<and> expected = token)"

definition checkHubToken :: "'db hub \<Rightarrow> string \<Rightarrow> bool" where
  "checkHubToken h token = (token = hub_token h)"

definition sessionFromMetadata :: "'db hub \<Rightarrow> hub_md \<Rightarrow> u64 option" where
  "sessionFromMetadata h md =
     (case (md MetadataGraderId, md MetadataSessionToken) of
        ([text], [token]) \<Rightarrow>
          (case ParseUint text of
             Inl e \<Rightarrow> None
           | Inr graderId \<Rightarrow> if \<not> checkSession h graderId token then None else Some graderId)
      | _ \<Rightarrow> None)"

definition authenticate :: "'db hub \<Rightarrow> hub_md \<Rightarrow> string \<Rightarrow> hub_body \<Rightarrow> error + u64 option" where
  "authenticate h md fullMethod body =
     (if fullMethod = GraderHubService_RegisterGrader_FullMethodName then
        (case body of
           Body_Register token \<Rightarrow>
             if \<not> checkHubToken h token then Inl (StatusErr PermissionDenied ''INVALID_TOKEN'')
             else Inr (sessionFromMetadata h md)
         | _ \<Rightarrow> Inl (StatusErr PermissionDenied ''INVALID_TOKEN''))
      else
        (case md MetadataHubToken of
           [token] \<Rightarrow>
             if \<not> checkHubToken h token then Inl (StatusErr Unauthenticated ''INVALID_TOKEN'')
             else
               (case sessionFromMetadata h md of
                  None \<Rightarrow> Inl (StatusErr Unauthenticated ''INVALID_SESSION'')
                | Some graderId \<Rightarrow>
                    (case body of
                       Body_GraderId i \<Rightarrow>
                         if i \<noteq> graderId then Inl (StatusErr PermissionDenied ''GRADER_ID_MISMATCH'')
                         else Inr (Some graderId)
                     | _ \<Rightarrow> Inr (Some graderId)))
         | _ \<Rightarrow> Inl (StatusErr Unauthenticated ''INVALID_TOKEN'')))"

text \<open>
  The interceptors: the handler runs with the identity, or not at all. A handler takes the state and
  the identity and returns the state and its result.
\<close>

definition UnaryAuthInterceptor ::
    "'db hub \<Rightarrow> hub_md \<Rightarrow> string \<Rightarrow> hub_body \<Rightarrow> ('db hub \<Rightarrow> u64 option \<Rightarrow> 'db hub \<times> (error + 'r)) \<Rightarrow>
      'db hub \<times> (error + 'r)" where
  "UnaryAuthInterceptor h md fullMethod body handler =
     (case authenticate h md fullMethod body of Inl e \<Rightarrow> (h, Inl e) | Inr ident \<Rightarrow> handler h ident)"

definition StreamAuthInterceptor ::
    "'db hub \<Rightarrow> hub_md \<Rightarrow> string \<Rightarrow> ('db hub \<Rightarrow> u64 option \<Rightarrow> 'db hub \<times> (error + 'r)) \<Rightarrow>
      'db hub \<times> (error + 'r)" where
  "StreamAuthInterceptor h md fullMethod handler =
     (case authenticate h md fullMethod Body_Other of Inl e \<Rightarrow> (h, Inl e) | Inr ident \<Rightarrow> handler h ident)"

subsection \<open>Lemmas\<close>

lemma hex_digit_inject: "m < 16 \<Longrightarrow> n < 16 \<Longrightarrow> hex_digit m = hex_digit n \<longleftrightarrow> m = n"
proof -
  assume "m < 16" "n < 16"
  moreover have "distinct ''0123456789abcdef''" by simp
  ultimately show ?thesis by (simp add: hex_digit_def nth_eq_iff_index_eq)
qed

lemma EncodeToString_inject [simp]: "EncodeToString a = EncodeToString b \<longleftrightarrow> a = b"
proof (induction a arbitrary: b)
  case Nil
  then show ?case by (cases b) auto
next
  case (Cons c cs)
  show ?case
  proof (cases b)
    case (Cons d ds)
    have "byte_val c div 16 < 16" "byte_val d div 16 < 16"
      using byte_val_less [of c] byte_val_less [of d] by (simp_all add: less_mult_imp_div_less)
    then have "EncodeToString (c # cs) = EncodeToString b \<longleftrightarrow>
        byte_val c div 16 = byte_val d div 16 \<and> byte_val c mod 16 = byte_val d mod 16 \<and> cs = ds"
      by (simp add: Cons hex_digit_inject Cons.IH)
    also have "\<dots> \<longleftrightarrow> byte_val c = byte_val d \<and> cs = ds" by (metis mult_div_mod_eq)
    finally show ?thesis by (simp add: Cons)
  qed simp
qed

lemma sessionFromMetadata_Some:
  "sessionFromMetadata h md = Some g \<longleftrightarrow>
     (\<exists>text token. md MetadataGraderId = [text] \<and> md MetadataSessionToken = [token] \<and>
       ParseUint text = Inr g \<and> sessions h g = Some token \<and> token \<noteq> [])"
  by (auto simp: sessionFromMetadata_def checkSession_def split: list.splits sum.splits option.splits)

lemma authenticate_grader:
  "fullMethod \<noteq> GraderHubService_RegisterGrader_FullMethodName \<Longrightarrow>
    authenticate h md fullMethod body = Inr ident \<longleftrightarrow>
      (\<exists>g. ident = Some g \<and> md MetadataHubToken = [hub_token h] \<and> sessionFromMetadata h md = Some g \<and>
        (\<forall>i. body = Body_GraderId i \<longrightarrow> i = g))"
  by (auto simp: authenticate_def checkHubToken_def split: list.splits option.splits hub_body.splits if_splits)

definition issue_sessions :: "'db hub \<Rightarrow> (u64 \<times> bytes) list \<Rightarrow> 'db hub" where
  "issue_sessions h issued = foldl (\<lambda>h (g, raw). fst (newSession (Inr raw) h g)) h issued"

lemma issue_sessions_frame: "hub_token (issue_sessions h issued) = hub_token h"
  by (induction issued arbitrary: h) (auto simp: issue_sessions_def newSession_def Let_def)

lemma issue_sessions_append: "issue_sessions h (xs @ ys) = issue_sessions (issue_sessions h xs) ys"
  by (simp add: issue_sessions_def)

lemma issue_sessions_other: "g \<notin> fst ` set issued \<Longrightarrow> sessions (issue_sessions h issued) g = sessions h g"
proof (induction issued rule: rev_induct)
  case (snoc x xs)
  then show ?case by (cases x) (simp add: issue_sessions_def newSession_def Let_def)
qed (simp add: issue_sessions_def)

lemma issue_sessions_last:
  assumes "g \<notin> fst ` set ys"
  shows "sessions (issue_sessions h (xs @ (g, raw) # ys)) g = Some (EncodeToString raw)"
proof -
  have "issue_sessions h (xs @ (g, raw) # ys) =
      issue_sessions (fst (newSession (Inr raw) (issue_sessions h xs) g)) ys"
    by (simp add: issue_sessions_def)
  then show ?thesis by (simp add: newSession_def Let_def issue_sessions_other [OF assms])
qed

subsection \<open>Properties\<close>

text \<open>
  Only the session of the latest registration speaks for a grader. Whatever sessions were issued
  before and to other graders since, a call other than a registration is admitted as grader \<open>g\<close> exactly
  when it carries the hub token, the id of \<open>g\<close> and the token made from the bytes drawn at the last
  registration of \<open>g\<close>, and its body names no other grader; a token issued earlier is refused.
\<close>

theorem latest_session_only:
  assumes "fullMethod \<noteq> GraderHubService_RegisterGrader_FullMethodName" and "g \<notin> fst ` set later"
    and "raw \<noteq> []"
  shows "authenticate (issue_sessions h (earlier @ (g, raw) # later)) md fullMethod body = Inr (Some g) \<longleftrightarrow>
    md MetadataHubToken = [hub_token h] \<and>
    (\<exists>text. md MetadataGraderId = [text] \<and> ParseUint text = Inr g) \<and>
    (\<exists>raw'. md MetadataSessionToken = [EncodeToString raw'] \<and> raw' = raw) \<and>
    (\<forall>i. body = Body_GraderId i \<longrightarrow> i = g)"
proof -
  have "EncodeToString raw \<noteq> []" using assms(3) by (cases raw) auto
  then show ?thesis
    by (auto simp: authenticate_grader [OF assms(1)] sessionFromMetadata_Some issue_sessions_frame
        issue_sessions_last [OF assms(2)])
qed

theorem latest_session_only_witness:
  "authenticate (issue_sessions (initial_hub () \<lparr>seq_key = [], seq_next = 0, seq_limit = 0\<rparr> ''hub'')
      [(1, ''old''), (1, ''new''), (2, ''x'')])
    ((\<lambda>k. [])(''token'' := [''hub''], ''graderid'' := [''1''], ''session-token'' := [EncodeToString ''old'']))
    ''/GraderHubService/GradeCallback'' Body_Other \<noteq> Inr (Some 1)"
  using latest_session_only [of "''/GraderHubService/GradeCallback''" 1 "[(2, ''x'')]" "''new''"
      "initial_hub () \<lparr>seq_key = [], seq_next = 0, seq_limit = 0\<rparr> ''hub''" "[(1, ''old'')]"
      "(\<lambda>k. [])(''token'' := [''hub''], ''graderid'' := [''1''], ''session-token'' := [EncodeToString ''old''])"
      Body_Other]
  by (simp add: GraderHubService_RegisterGrader_FullMethodName_def MetadataSessionToken_def
      del: EncodeToString.simps)

end
