(* ===== verification/HubService.thy ===== *)
theory HubService
  imports HubAuth
begin

section \<open>The RPCs of the grader hub (pkg/grader/grpc/graderhub_service.go)\<close>

text \<open>
  The handlers on the state of \<open>Hub\<close>: reports from graders, cancellation, registration, heartbeats and
  their monitor, log streams, metadata, and the constructor. A handler that waits for messages is split
  into the step of opening it, the step of each message, and what it does at the end, so that any
  interleaving of handlers is a sequence of steps. \<open>ident\<close> is the identity the interceptor put in the
  context, \<open>now\<close> the current time.
\<close>

subsection \<open>The end of a submission\<close>

definition onSubmissionFinished :: "'db env \<Rightarrow> 'db hub \<Rightarrow> u64 \<Rightarrow> 'db hub" where
  "onSubmissionFinished E h submissionId =
     (let db1 = fst (DeleteUnfinishedSubmission E (hub_db h) submissionId);
          db2 = fst (ReleaseSubmission E db1 submissionId);
          h1 = closeAllSubmissionSubscribers (h\<lparr>hub_db := db2\<rparr>) submissionId
      in wakeScheduler (h1\<lparr>runningList := (runningList h1)(submissionId := None)\<rparr>))"

definition onSubmissionCancelled :: "'db env \<Rightarrow> 'db hub \<Rightarrow> u64 \<Rightarrow> 'db hub" where
  "onSubmissionCancelled E h submissionId =
     onSubmissionFinished E
       (fst (onSubmissionBriefReportUpdate E h submissionId (brief_of_status SubmissionStatus_Cancelled)))
       submissionId"

definition onSubmissionCancelling :: "'db env \<Rightarrow> 'db hub \<Rightarrow> u64 \<Rightarrow> 'db hub" where
  "onSubmissionCancelling E h submissionId =
     fst (onSubmissionBriefReportUpdate E h submissionId (brief_of_status SubmissionStatus_Cancelling))"

definition sendGraderGradeRequest :: "'db hub \<Rightarrow> u64 \<Rightarrow> grade_request \<Rightarrow> 'db hub \<times> bool" where
  "sendGraderGradeRequest h graderId req =
     (case gradeRequestQueues h graderId of
        None \<Rightarrow> (h, False)
      | Some a \<Rightarrow>
          (case queue_Push (outboxes h a) req of
             (q, ok) \<Rightarrow> (h\<lparr>outboxes := (outboxes h)(a := q)\<rparr>, ok)))"

definition cancel_request :: "u64 \<Rightarrow> grade_request" where
  "cancel_request submissionId = \<lparr>Req_SubmissionId = submissionId, Req_Submission = None, Req_Config = None,
     Req_IsCancel = True, Req_IsStreamLog = False, Req_RequestId = []\<rparr>"

definition CancelGrade :: "'db env \<Rightarrow> 'db hub \<Rightarrow> u64 \<Rightarrow> 'db hub" where
  "CancelGrade E h submissionId =
     (if queuedListIndex h submissionId \<noteq> None
      then onSubmissionCancelled E (removePendingGradeRequest h submissionId) submissionId
      else
        (case GetGraderIdBySubmissionId E (hub_db h) submissionId of
           Inl e \<Rightarrow> onSubmissionCancelled E h submissionId
         | Inr graderId \<Rightarrow>
             (case sendGraderGradeRequest h graderId (cancel_request submissionId) of
                (h1, True) \<Rightarrow> onSubmissionCancelling E h1 submissionId
              | (h1, False) \<Rightarrow> onSubmissionCancelled E h1 submissionId)))"

text \<open>Grading is only requested from inside the server.\<close>

definition Hub_Grade :: "error + unit" where
  "Hub_Grade = Inl (StatusErr PermissionDenied ''INTERNAL_ONLY'')"

subsection \<open>Reports from a grader\<close>

datatype callback_result = Callback_Next | Callback_Finished | Callback_Refused error

text \<open>One message: a submission id and a report, possibly nil.\<close>

definition GradeCallback_recv ::
    "'db env \<Rightarrow> u64 \<Rightarrow> 'db hub \<Rightarrow> u64 \<Rightarrow> grade_report option \<Rightarrow> 'db hub \<times> callback_result" where
  "GradeCallback_recv E graderId h submissionId report =
     (if GetGraderIdBySubmissionId E (hub_db h) submissionId \<noteq> Inr graderId
      then (h, Callback_Refused (StatusErr PermissionDenied ''NOT_SUBMISSION_OWNER''))
      else
        let r = (case report of None \<Rightarrow> GradeReport None None None None | Some r \<Rightarrow> r);
            db1 = (case GR_Brief r of
                     None \<Rightarrow> hub_db h
                   | Some b \<Rightarrow> fst (UpdateSubmissionBriefReport E (hub_db h) submissionId b));
            db2 = (case GR_Report r of
                     None \<Rightarrow> db1
                   | Some rep \<Rightarrow> fst (UpdateSubmissionReport E db1 submissionId rep));
            h1 = h\<lparr>hub_db := db2\<rparr>;
            h2 = (if GR_Brief r \<noteq> None \<or> GR_PendingRank r \<noteq> None \<or> GR_Report r \<noteq> None
                  then sendGradeReport h1 submissionId r else h1)
        in (h2, if GetStatus (GR_Brief r) \<in> {SubmissionStatus_Failed, SubmissionStatus_Finished,
                   SubmissionStatus_Cancelled}
                then Callback_Finished else Callback_Next))"

text \<open>The stream: its messages in order until it ends, a refusal or a terminal report.\<close>

fun GradeCallback_loop :: "'db env \<Rightarrow> u64 \<Rightarrow> 'db hub \<Rightarrow> (u64 \<times> grade_report option) list \<Rightarrow>
    'db hub \<times> error option" where
  "GradeCallback_loop E graderId h [] = (h, None)"
| "GradeCallback_loop E graderId h ((submissionId, report) # msgs) =
     (case GradeCallback_recv E graderId h submissionId report of
        (h1, Callback_Refused e) \<Rightarrow> (h1, Some e)
      | (h1, Callback_Finished) \<Rightarrow> (onSubmissionFinished E h1 submissionId, None)
      | (h1, Callback_Next) \<Rightarrow> GradeCallback_loop E graderId h1 msgs)"

definition GradeCallback :: "'db env \<Rightarrow> u64 option \<Rightarrow> 'db hub \<Rightarrow> (u64 \<times> grade_report option) list \<Rightarrow>
    'db hub \<times> error option" where
  "GradeCallback E ident h msgs =
     (case ident of
        None \<Rightarrow> (h, Some (StatusErr Unauthenticated ''INVALID_SESSION''))
      | Some graderId \<Rightarrow> GradeCallback_loop E graderId h msgs)"

subsection \<open>Registration\<close>

definition RegisterGrader ::
    "'db env \<Rightarrow> time \<Rightarrow> (error + bytes) \<Rightarrow> u64 option \<Rightarrow> string option \<Rightarrow> 'db hub \<Rightarrow> grader_info option \<Rightarrow>
      'db hub \<times> (error + u64 \<times> string)" where
  "RegisterGrader E now random ident peer h info =
     (case peer of
        None \<Rightarrow> (h, Inl (StatusErr Unavailable ''GET_PEER''))
      | Some ip \<Rightarrow>
          (case GetGraderByName E (hub_db h) (GetHostname info) of
             Inl ErrNotFound \<Rightarrow>
               let grader = \<lparr>Grader_Info = info, Grader_Ip = ip, Grader_Status = GraderStatusMetadata_Online,
                 Grader_LastHeartbeat = Some now\<rparr>
               in (case CreateGrader E (hub_db h) (hub_seq h) (GetHostname info) grader of
                     (db1, q1, Inl e) \<Rightarrow>
                       (h\<lparr>hub_db := db1, hub_seq := q1\<rparr>, Inl (StatusErr Internal ''CREATE_GRADER''))
                   | (db1, q1, Inr graderId) \<Rightarrow>
                       (case newSession random (h\<lparr>hub_db := db1, hub_seq := q1,
                               onlineGraders := AList.update graderId grader (onlineGraders h)\<rparr>) graderId of
                          (h1, Inl e) \<Rightarrow> (h1, Inl (StatusErr Internal ''ISSUE_SESSION''))
                        | (h1, Inr session) \<Rightarrow> (h1, Inr (graderId, session))))
           | Inl e \<Rightarrow> (h, Inl (StatusErr Internal ''GET_GRADER''))
           | Inr (grader, graderId) \<Rightarrow>
               if Grader_Status grader = GraderStatusMetadata_Online \<and> ident \<noteq> Some graderId
               then (h, Inl (StatusErr AlreadyExists
                      (CHR 0x27 # GetHostname info @ CHR 0x27 # '' is already taken by '' @ Grader_Ip grader)))
               else
                 let grader' = grader\<lparr>Grader_Status := GraderStatusMetadata_Online, Grader_Ip := ip,
                       Grader_Info := info, Grader_LastHeartbeat := Some now\<rparr>;
                     db1 = fst (UpdateGrader E (hub_db h) graderId grader')
                 in (case newSession random (h\<lparr>hub_db := db1,
                           onlineGraders := AList.update graderId grader' (onlineGraders h)\<rparr>) graderId of
                       (h1, Inl e) \<Rightarrow> (h1, Inl (StatusErr Internal ''ISSUE_SESSION''))
                     | (h1, Inr session) \<Rightarrow> (h1, Inr (graderId, session)))))"

subsection \<open>Heartbeats\<close>

text \<open>
  Opening the stream gives the grader a fresh outbox, whose address is returned, and starts the monitor
  of the grader unless it runs already.
\<close>

definition GraderHeartbeat_open :: "u64 option \<Rightarrow> 'db hub \<Rightarrow> 'db hub \<times> (error + u64 \<times> nat)" where
  "GraderHeartbeat_open ident h =
     (case ident of
        None \<Rightarrow> (h, Inl (StatusErr Unauthenticated ''INVALID_SESSION''))
      | Some graderId \<Rightarrow>
          let a = next_outbox h;
              h1 = h\<lparr>next_outbox := Suc a, outboxes := (outboxes h)(a := NewGradeRequestQueue),
                gradeRequestQueues := (gradeRequestQueues h)(graderId \<mapsto> a)\<rparr>;
              h2 = wakeScheduler h1
          in (h2\<lparr>monitorChs := (if graderId \<in> set (monitorChs h2) then monitorChs h2
                   else graderId # monitorChs h2)\<rparr>, Inr (graderId, a)))"

text \<open>A message with time \<open>t\<close>: what the monitor is handed, or the error that ends the stream.\<close>

definition GraderHeartbeat_recv :: "'db hub \<Rightarrow> u64 \<Rightarrow> time option \<Rightarrow> error + time option" where
  "GraderHeartbeat_recv h graderId t =
     (if map_of (onlineGraders h) graderId = None then Inl (StatusErr NotFound ''GRADER_NOT_REGISTERED'')
      else Inr (Some (AsTime t)))"

text \<open>The end of the stream: the monitor is handed nil.\<close>

definition GraderHeartbeat_end :: "time option" where
  "GraderHeartbeat_end = None"

text \<open>
  \<open>graderRequestSendLoop\<close>: one round on the outbox \<open>a\<close>, with whether \<open>Send\<close> succeeds. \<open>None\<close> is waiting;
  otherwise the state, what was handed to \<open>Send\<close>, and whether the loop goes on.
\<close>

definition graderRequestSendLoop_step ::
    "'db hub \<Rightarrow> nat \<Rightarrow> bool \<Rightarrow> ('db hub \<times> grade_request list \<times> bool) option" where
  "graderRequestSendLoop_step h a send_ok =
     (case WaitAndDrain (outboxes h a) of
        None \<Rightarrow> None
      | Some (q, requests, ok) \<Rightarrow>
          Some (h\<lparr>outboxes := (outboxes h)(a := q)\<rparr>, requests, ok \<and> send_ok))"

subsection \<open>The monitor of a grader\<close>

definition graderOfflineGracePeriod :: int where
  "graderOfflineGracePeriod = 30 * nanosecond_per_second"

text \<open>A message on the \<open>alive\<close> channel; the flag tells whether the monitor goes on.\<close>

definition graderMonitor_alive :: "'db env \<Rightarrow> 'db hub \<Rightarrow> u64 \<Rightarrow> time option \<Rightarrow> 'db hub \<times> bool" where
  "graderMonitor_alive E h graderId t =
     (case GetGraderById E (hub_db h) graderId of
        Inl e \<Rightarrow> (h, False)
      | Inr grader \<Rightarrow>
          (case t of
             Some ts \<Rightarrow>
               if Grader_LastHeartbeat grader \<noteq> None \<and> ts < AsTime (Grader_LastHeartbeat grader) then (h, True)
               else
                 let grader' = grader\<lparr>Grader_Status := GraderStatusMetadata_Online,
                       Grader_LastHeartbeat := Some ts\<rparr>;
                     h1 = h\<lparr>onlineGraders := AList.update graderId grader' (onlineGraders h)\<rparr>
                 in (h1\<lparr>hub_db := fst (UpdateGrader E (hub_db h1) graderId grader')\<rparr>, True)
           | None \<Rightarrow>
               let h1 = onGraderOffline E h graderId
               in (h1\<lparr>hub_db := fst (UpdateGrader E (hub_db h1) graderId
                     (grader\<lparr>Grader_Status := GraderStatusMetadata_Offline\<rparr>))\<rparr>, True)))"

text \<open>The timer fires at time \<open>t\<close>.\<close>

definition graderMonitor_timeout :: "'db env \<Rightarrow> 'db hub \<Rightarrow> u64 \<Rightarrow> time \<Rightarrow> 'db hub \<times> bool" where
  "graderMonitor_timeout E h graderId t =
     (let h1 = h\<lparr>onlineGraders := AList.delete graderId (onlineGraders h)\<rparr>
      in case GetGraderById E (hub_db h1) graderId of
           Inl e \<Rightarrow> (h1, False)
         | Inr grader \<Rightarrow>
             (case Grader_Status grader of
                GraderStatusMetadata_Online \<Rightarrow>
                  (onGraderOffline E
                     (h1\<lparr>hub_db := fst (UpdateGrader E (hub_db h1) graderId
                       (grader\<lparr>Grader_Status := GraderStatusMetadata_Unknown\<rparr>))\<rparr>) graderId, True)
              | GraderStatusMetadata_Unknown \<Rightarrow>
                  if AsTime (Grader_LastHeartbeat grader) + graderOfflineGracePeriod < t
                  then
                    let h2 = onGraderOffline E h1 graderId
                    in (h2\<lparr>hub_db := fst (UpdateGrader E (hub_db h2) graderId
                          (grader\<lparr>Grader_Status := GraderStatusMetadata_Offline\<rparr>))\<rparr>, True)
                  else (h1\<lparr>hub_db := fst (UpdateGrader E (hub_db h1) graderId grader)\<rparr>, True)
              | GraderStatusMetadata_Offline \<Rightarrow> (h1, True)))"

subsection \<open>A whole heartbeat stream\<close>

text \<open>
  \<open>GraderHeartbeat\<close> when nothing else runs in between: \<open>ts\<close> are the times of the messages until receiving fails, the monitor
  takes each at once, and \<open>alive\<close> tells whether it still runs; handing something to one that is gone
  waits for ever. A refusal returns at once; only the end of the stream is reported to the monitor.
\<close>

fun GraderHeartbeat_loop :: "'db env \<Rightarrow> 'db hub \<Rightarrow> u64 \<Rightarrow> bool \<Rightarrow> time option list \<Rightarrow> 'db hub \<times> error option" where
  "GraderHeartbeat_loop E h graderId alive [] =
     (if alive then fst (graderMonitor_alive E h graderId GraderHeartbeat_end) else h, None)"
| "GraderHeartbeat_loop E h graderId alive (t # ts) =
     (case GraderHeartbeat_recv h graderId t of
        Inl e \<Rightarrow> (h, Some e)
      | Inr x \<Rightarrow>
          if \<not> alive then (h, Some Diverges)
          else (case graderMonitor_alive E h graderId x of (h1, on) \<Rightarrow> GraderHeartbeat_loop E h1 graderId on ts))"

definition GraderHeartbeat :: "'db env \<Rightarrow> u64 option \<Rightarrow> 'db hub \<Rightarrow> time option list \<Rightarrow> 'db hub \<times> error option" where
  "GraderHeartbeat E ident h ts =
     (case GraderHeartbeat_open ident h of
        (h1, Inl e) \<Rightarrow> (h1, Some e)
      | (h1, Inr (graderId, a)) \<Rightarrow> GraderHeartbeat_loop E h1 graderId True ts)"

subsection \<open>Metadata\<close>

definition Hub_GetMetadata :: "'db env \<Rightarrow> 'db hub \<Rightarrow> u64 \<Rightarrow> bytes \<Rightarrow> error + bytes" where
  "Hub_GetMetadata E h graderId key =
     (case Repo_GetMetadata E (hub_db h) graderId key of
        Inl e \<Rightarrow> Inl (StatusErr NotFound (case e of ErrOther s \<Rightarrow> s | _ \<Rightarrow> ''pebble: not found''))
      | Inr v \<Rightarrow> Inr v)"

text \<open>A nil value, which is also how an empty one arrives, deletes the key.\<close>

definition Hub_PutMetadata :: "'db env \<Rightarrow> 'db hub \<Rightarrow> u64 \<Rightarrow> bytes \<Rightarrow> bytes option \<Rightarrow> 'db hub" where
  "Hub_PutMetadata E h graderId key value =
     (case value of
        Some v \<Rightarrow> h\<lparr>hub_db := fst (Repo_PutMetadata E (hub_db h) graderId key v)\<rparr>
      | None \<Rightarrow> h\<lparr>hub_db := fst (Repo_DeleteMetadata E (hub_db h) graderId key)\<rparr>)"

definition Hub_GetAllMetadata :: "'db env \<Rightarrow> 'db hub \<Rightarrow> u64 \<Rightarrow> (bytes \<times> bytes) list" where
  "Hub_GetAllMetadata E h graderId =
     (case Repo_GetAllMetadata E (hub_db h) graderId of Inl e \<Rightarrow> [] | Inr kvs \<Rightarrow> kvs)"

definition Hub_GetAllGraders ::
    "'db env \<Rightarrow> 'db hub \<Rightarrow> error + (u64 \<times> grader_status_metadata \<times> u64 list) list" where
  "Hub_GetAllGraders E h =
     (case GetAllGraders E (hub_db h) of
        Inl e \<Rightarrow> Inl e
      | Inr gs \<Rightarrow> Inr (map (\<lambda>(i, g). (i, g,
          case GetSubmissionsByGrader E (hub_db h) i of Inl e \<Rightarrow> [] | Inr xs \<Rightarrow> xs)) gs))"

subsection \<open>Log streams\<close>

definition errGraderOffline :: error where
  "errGraderOffline = ErrOther ''grader offline''"

definition log_request :: "u64 \<Rightarrow> string \<Rightarrow> bool \<Rightarrow> grade_request" where
  "log_request submissionId requestId cancel = \<lparr>Req_SubmissionId = submissionId, Req_Submission = None,
     Req_Config = None, Req_IsCancel = cancel, Req_IsStreamLog = True, Req_RequestId = requestId\<rparr>"

text \<open>The stream's grader and the address of its client; \<open>requestId\<close> is the fresh uuid.\<close>

definition StreamLog :: "'db env \<Rightarrow> string \<Rightarrow> 'db hub \<Rightarrow> u64 \<Rightarrow> 'db hub \<times> (error + u64 \<times> nat)" where
  "StreamLog E requestId h submissionId =
     (case GetGraderIdBySubmissionId E (hub_db h) submissionId of
        Inl e \<Rightarrow> (h, Inl e)
      | Inr graderId \<Rightarrow>
          (case gradeRequestQueues h graderId of
             None \<Rightarrow> (h, Inl errGraderOffline)
           | Some a \<Rightarrow>
               let c = next_stream h;
                   h1 = h\<lparr>next_stream := Suc c,
                     streams := (streams h)(c := \<lparr>ls_done = False, ls_chunks = [], ls_closed = False\<rparr>),
                     logStreams := (logStreams h)(graderId := (logStreams h graderId)(requestId \<mapsto> c))\<rparr>
               in (case queue_Push (outboxes h1 a) (log_request submissionId requestId False) of
                     (q, True) \<Rightarrow> (h1\<lparr>outboxes := (outboxes h1)(a := q)\<rparr>, Inr (graderId, c))
                   | (q, False) \<Rightarrow>
                       (h1\<lparr>logStreams := (logStreams h1)(graderId := (logStreams h1 graderId)(requestId := None))\<rparr>,
                        Inl errGraderOffline))))"

text \<open>The client goes away.\<close>

definition StreamLog_client_done :: "'db hub \<Rightarrow> u64 \<Rightarrow> string \<Rightarrow> u64 \<Rightarrow> nat \<Rightarrow> 'db hub" where
  "StreamLog_client_done h submissionId requestId graderId c =
     fst (sendGraderGradeRequest (h\<lparr>streams := (streams h)(c := (streams h c)\<lparr>ls_done := True\<rparr>)\<rparr>) graderId
       (log_request submissionId requestId True))"

definition StreamLogCallback_open ::
    "u64 option \<Rightarrow> string list \<Rightarrow> 'db hub \<Rightarrow> error + (u64 \<times> string \<times> nat) option" where
  "StreamLogCallback_open ident requestIdVals h =
     (case ident of
        None \<Rightarrow> Inl (StatusErr Unauthenticated ''INVALID_SESSION'')
      | Some graderId \<Rightarrow>
          (case requestIdVals of
             [] \<Rightarrow> Inl (StatusErr InvalidArgument ''METADATA'')
           | requestId # _ \<Rightarrow>
               (case logStreams h graderId requestId of
                  None \<Rightarrow> Inr None
                | Some c \<Rightarrow> Inr (Some (graderId, requestId, c)))))"

text \<open>A chunk: handed to the client unless it has gone, in which case the loop ends.\<close>

definition StreamLogCallback_recv :: "'db hub \<Rightarrow> nat \<Rightarrow> string \<Rightarrow> 'db hub \<times> bool" where
  "StreamLogCallback_recv h c chunk =
     (if ls_done (streams h c) then (h, False)
      else (h\<lparr>streams := (streams h)(c := (streams h c)\<lparr>ls_chunks := ls_chunks (streams h c) @ [chunk]\<rparr>)\<rparr>,
            True))"

definition StreamLogCallback_close :: "'db hub \<Rightarrow> u64 \<Rightarrow> string \<Rightarrow> nat \<Rightarrow> 'db hub" where
  "StreamLogCallback_close h graderId requestId c =
     h\<lparr>logStreams := (logStreams h)(graderId := (logStreams h graderId)(requestId := None)),
       streams := (streams h)(c := (streams h c)\<lparr>ls_closed := True\<rparr>)\<rparr>"

subsection \<open>The constructor\<close>

fun mark_unknown :: "'db env \<Rightarrow> 'db \<Rightarrow> (u64 \<times> grader_status_metadata) list \<Rightarrow> 'db" where
  "mark_unknown E db [] = db"
| "mark_unknown E db ((i, g) # gs) =
     mark_unknown E
       (if Grader_Status g = GraderStatusMetadata_Online
        then fst (UpdateGrader E db i (g\<lparr>Grader_Status := GraderStatusMetadata_Unknown\<rparr>)) else db) gs"

definition NewGraderHubService :: "'db env \<Rightarrow> 'db \<Rightarrow> string \<Rightarrow> 'db \<times> (error + 'db hub)" where
  "NewGraderHubService E db token =
     (case NewKVGraderRepository E db of
        (db1, Inl e) \<Rightarrow> (db1, Inl e)
      | (db1, Inr q) \<Rightarrow>
          (case GetAllGraders E db1 of
             Inl e \<Rightarrow> (db1, Inl e)
           | Inr gs \<Rightarrow>
               let db2 = mark_unknown E (ClearRunning E db1) gs
               in (db2, Inr ((initial_hub db2 q token)\<lparr>monitorChs := map fst gs\<rparr>))))"

end
