(* ===== verification/HubProps.thy ===== *)
theory HubProps
  imports HubService
begin

section \<open>What the grader hub guarantees\<close>

text \<open>
  Properties of the handlers of \<open>HubService\<close>: who may report on a submission, what the end of a
  submission leaves, the outcomes of a cancellation, the rank a client is shown, what happens to the work
  of a grader that disconnects, and who may take over the name of a grader.
\<close>

subsection \<open>The keys of a submission\<close>

text \<open>What the hub stores about a submission.\<close>

definition key_of_submission :: "u64 \<Rightarrow> bytes \<Rightarrow> bool" where
  "key_of_submission s k \<longleftrightarrow> k = getUnfinishedKey s \<or> k = getSubmissionGraderKey s \<or> k = report_getIdKey s \<or>
     k = report_getBriefIdKey s \<or> (\<exists>g. k = getGraderSubmissionKey g s)"

lemma hub_keys [key_intros, simp]:
  "report_getIdKey s \<noteq> getSubmissionGraderKey t" "getSubmissionGraderKey t \<noteq> report_getIdKey s"
  "report_getBriefIdKey s \<noteq> getSubmissionGraderKey t" "getSubmissionGraderKey t \<noteq> report_getBriefIdKey s"
  "getUnfinishedKey s \<noteq> getSubmissionGraderKey t" "getSubmissionGraderKey t \<noteq> getUnfinishedKey s"
  "report_getIdKey s \<noteq> getGraderSubmissionKey g t" "getGraderSubmissionKey g t \<noteq> report_getIdKey s"
  "report_getBriefIdKey s \<noteq> getGraderSubmissionKey g t" "getGraderSubmissionKey g t \<noteq> report_getBriefIdKey s"
  "getUnfinishedKey s \<noteq> getGraderSubmissionKey g t" "getGraderSubmissionKey g t \<noteq> getUnfinishedKey s"
  by (simp_all add: submission_key_defs grader_key_defs)

lemma not_running [simp]:
  "\<not> prefix ''running:'' (report_getBriefIdKey s)" "\<not> prefix ''running:'' (report_getIdKey s)"
  "\<not> prefix ''running:'' (getUnfinishedKey s)"
  by (simp_all add: submission_key_defs)

lemma running_not_report:
  "prefix ''running:'' k \<Longrightarrow> k \<noteq> report_getIdKey s \<and> k \<noteq> report_getBriefIdKey s"
  by auto

lemma key_of_submission_simps [simp]:
  "key_of_submission s (getUnfinishedKey t) \<longleftrightarrow> s = t" "key_of_submission s (getSubmissionGraderKey t) \<longleftrightarrow> s = t"
  "key_of_submission s (report_getIdKey t) \<longleftrightarrow> s = t" "key_of_submission s (report_getBriefIdKey t) \<longleftrightarrow> s = t"
  "key_of_submission s (getGraderSubmissionKey g t) \<longleftrightarrow> s = t"
  by (auto simp: key_of_submission_def)

lemma key_of_submission_unique: "key_of_submission s k \<Longrightarrow> key_of_submission t k \<Longrightarrow> s = t"
  by (auto simp: key_of_submission_def [of s])

lemma terminal_frame [hub_simps, simp]:
  "queuedListIndex (onSubmissionFinished E h s) = queuedListIndex h"
  "queuedList (onSubmissionFinished E h s) = queuedList h"
  "next_elem (onSubmissionFinished E h s) = next_elem h"
  "outboxes (onSubmissionFinished E h s) = outboxes h"
  "gradeRequestQueues (onSubmissionFinished E h s) = gradeRequestQueues h"
  "onlineGraders (onSubmissionFinished E h s) = onlineGraders h"
  "runningList (onSubmissionFinished E h s) = (runningList h)(s := None)"
  "submissionSubs (onSubmissionFinished E h s) = (submissionSubs h)(s := [])"
  "schedulerWake (onSubmissionFinished E h s)"
  by (simp_all add: onSubmissionFinished_def closeAllSubmissionSubscribers_def wakeScheduler_def Let_def)

context store
begin

lemma release_other:
  assumes "\<not> key_of_submission s k"
  shows "view (fst (ReleaseSubmission E db s)) k = view db k"
proof -
  have "view db1 k = view db k"
    if "pdelete E db (getSubmissionGraderKey s) = (db1, r1)" for db1 r1
    using delete_view [OF that] assms by (auto simp: key_of_submission_def)
  moreover have "view db2 k = view db1 k"
    if "pdelete E db1 (getGraderSubmissionKey g s) = (db2, r2)" for g db1 db2 r2
    using delete_view [OF that] assms by (auto simp: key_of_submission_def)
  ultimately show ?thesis
    by (auto simp: ReleaseSubmission_def split: sum.splits prod.splits) (metis prod.collapse)+
qed

lemma reports_other:
  assumes "\<not> key_of_submission s k"
  shows "view (fst (UpdateSubmissionBriefReport E db s b)) k = view db k"
    and "view (fst (UpdateSubmissionReport E db s rep)) k = view db k"
    and "view (fst (DeleteUnfinishedSubmission E db s)) k = view db k"
proof -
  have "k \<noteq> report_getBriefIdKey s" "k \<noteq> report_getIdKey s" "k \<noteq> getUnfinishedKey s"
    using assms by (auto simp: key_of_submission_def)
  moreover have "view (fst (pdelete E db k')) k = view db k" if "k \<noteq> k'" for k'
    using delete_view [OF surjective_pairing, of db k'] that by auto
  ultimately show "view (fst (UpdateSubmissionBriefReport E db s b)) k = view db k"
    "view (fst (UpdateSubmissionReport E db s rep)) k = view db k"
    "view (fst (DeleteUnfinishedSubmission E db s)) k = view db k"
    by (simp_all add: UpdateSubmissionBriefReport_def UpdateSubmissionReport_def
        DeleteUnfinishedSubmission_def set_message_other [OF surjective_pairing])
qed

lemma brief_update_db [simp]:
  "hub_db (fst (onSubmissionBriefReportUpdate E h s b)) = fst (UpdateSubmissionBriefReport E (hub_db h) s b)"
  by (simp add: onSubmissionBriefReportUpdate_def split: prod.splits)

lemma finished_db:
  "hub_db (onSubmissionFinished E h s) =
    fst (ReleaseSubmission E (fst (DeleteUnfinishedSubmission E (hub_db h) s)) s)"
  by (simp add: onSubmissionFinished_def closeAllSubmissionSubscribers_def wakeScheduler_def Let_def)

lemma finished_other:
  "\<not> key_of_submission s k \<Longrightarrow> view (hub_db (onSubmissionFinished E h s)) k = view (hub_db h) k"
  by (simp add: finished_db release_other reports_other)

lemma callback_recv_other:
  assumes "GradeCallback_recv E g h s report = (h', res)" and "\<not> key_of_submission s k"
  shows "view (hub_db h') k = view (hub_db h) k"
  using assms
  by (auto simp: GradeCallback_recv_def Let_def reports_other split: if_splits option.splits)

end

context store_up
begin

lemma get_cong: "view db' k = view db k \<Longrightarrow> pget E db' k = pget E db k"
  by (cases "view db k") (simp_all add: get_present get_absent)

lemma owner_cong:
  "view db' (getSubmissionGraderKey s) = view db (getSubmissionGraderKey s) \<Longrightarrow>
    GetGraderIdBySubmissionId E db' s = GetGraderIdBySubmissionId E db s"
  unfolding GetGraderIdBySubmissionId_def get_id_def by (drule get_cong) simp

lemma brief_cong:
  "view db' (report_getBriefIdKey s) = view db (report_getBriefIdKey s) \<Longrightarrow>
    Repo_GetSubmissionBriefReport E db' s = Repo_GetSubmissionBriefReport E db s"
  unfolding Repo_GetSubmissionBriefReport_def get_message_def by (drule get_cong) simp

lemma callback_loop_other:
  assumes "GradeCallback_loop E g h msgs = (h', r)"
    and "GetGraderIdBySubmissionId E (hub_db h) s \<noteq> Inr g" and "key_of_submission s k"
  shows "view (hub_db h') k = view (hub_db h) k \<and> runningList h' s = runningList h s \<and>
    submissionSubs h' s = submissionSubs h s"
  using assms
proof (induction E' \<equiv> E g h msgs arbitrary: h' r rule: GradeCallback_loop.induct)
  case (2 g h t report msgs)
  obtain h1 res where recv: "GradeCallback_recv E g h t report = (h1, res)"
    by (cases "GradeCallback_recv E g h t report")
  show ?case
  proof (cases "GetGraderIdBySubmissionId E (hub_db h) t = Inr g")
    case False
    then have "h1 = h" "\<exists>e. res = Callback_Refused e" using recv by (auto simp: GradeCallback_recv_def)
    then show ?thesis using 2(2) recv by auto
  next
    case True
    then have "s \<noteq> t" using 2(3) by auto
    then have k: "\<not> key_of_submission t k'" if "key_of_submission s k'" for k'
      using key_of_submission_unique that by blast
    have same: "view (hub_db h1) k' = view (hub_db h) k'" if "key_of_submission s k'" for k'
      using callback_recv_other [OF recv k [OF that]] .
    then have own: "GetGraderIdBySubmissionId E (hub_db h1) s \<noteq> Inr g"
      using owner_cong [of "hub_db h1" s "hub_db h"] 2(3) by simp
    have fr: "runningList h1 = runningList h" "submissionSubs h1 = submissionSubs h"
      "res = Callback_Next \<or> res = Callback_Finished"
      using recv True by (auto simp: GradeCallback_recv_def Let_def)
    show ?thesis
    proof (cases "res = Callback_Next")
      case True
      then have "GradeCallback_loop E g h1 msgs = (h', r)" using 2(2) recv by simp
      from 2(1) [OF recv [symmetric] True this own 2(4)] show ?thesis
        using same [OF 2(4)] fr by simp
    next
      case False
      then have "h' = onSubmissionFinished E h1 t" using 2(2) recv fr by auto
      then show ?thesis
        using finished_other [OF k [OF 2(4)]] same [OF 2(4)] fr \<open>s \<noteq> t\<close> by simp
    qed
  qed
qed simp

end

subsection \<open>Mailboxes\<close>

lemma close_fold_other: "m \<notin> set ms \<Longrightarrow> foldl (\<lambda>mb m. mb(m := mailbox_Close (mb m))) mbs ms m = mbs m"
  by (induction ms arbitrary: mbs) auto

lemma close_close [simp]: "mailbox_Close (mailbox_Close m) = mailbox_Close m"
  by (simp add: mailbox_Close_def)

lemma close_fold_in:
  "m \<in> set ms \<Longrightarrow> foldl (\<lambda>mb m. mb(m := mailbox_Close (mb m))) mbs ms m = mailbox_Close (mbs m)"
proof (induction ms arbitrary: mbs)
  case (Cons x xs)
  show ?case
  proof (cases "m \<in> set xs")
    case True
    then show ?thesis using Cons.IH [OF True, of "mbs(x := mailbox_Close (mbs x))"] by simp
  next
    case False
    then have "m = x" using Cons.prems by simp
    then show ?thesis using False by (simp add: close_fold_other fun_upd_same del: fun_upd_apply)
  qed
qed simp

lemma finished_mailboxes:
  "mailboxes (onSubmissionFinished E h s) m =
    (if m \<in> set (submissionSubs h s) then mailbox_Close (mailboxes h m) else mailboxes h m)"
  by (simp add: onSubmissionFinished_def closeAllSubmissionSubscribers_def wakeScheduler_def Let_def
      close_fold_in close_fold_other)

lemma closed_mailbox [simp]: "mb_closed (mailbox_Close m)" "mb_all (mailbox_Close m) = mb_all m"
  by (simp_all add: mailbox_Close_def mb_all_def)

text \<open>Publishing to the subscribers of a submission, each of which is listed once.\<close>

lemma publish_fold_other:
  "m \<notin> set ms \<Longrightarrow> foldl (\<lambda>mb m. mb(m := Publish d (mb m) r)) mbs ms m = mbs m"
  by (induction ms arbitrary: mbs) auto

lemma publish_fold_in:
  "distinct ms \<Longrightarrow> m \<in> set ms \<Longrightarrow> foldl (\<lambda>mb m. mb(m := Publish d (mb m) r)) mbs ms m = Publish d (mbs m) r"
proof (induction ms arbitrary: mbs)
  case (Cons x xs)
  then show ?case
    by (cases "m = x") (auto simp: publish_fold_other fun_upd_same fun_upd_other simp del: fun_upd_apply)
qed simp

lemma Publish_all: "\<not> mb_closed m \<Longrightarrow> sum_list (mb_all (Publish d m r)) = sum_list (mb_all m) + r"
  by (simp add: Publish_def publish_loop_sum)

subsection \<open>The end of a submission\<close>

context store_up
begin

lemma brief_write:
  assumes "Marshal (C_Brief E) b = Inr raw"
  shows "view (fst (UpdateSubmissionBriefReport E db s b)) = (view db)(report_getBriefIdKey s \<mapsto> raw)"
proof -
  obtain db' r where u: "pset E db (report_getBriefIdKey s) raw = (db', r)"
    by (cases "pset E db (report_getBriefIdKey s) raw")
  then show ?thesis
    using set_eq [OF u] assms by (simp add: UpdateSubmissionBriefReport_def set_message_def)
qed

lemma brief_read:
  assumes "Marshal (C_Brief E) b = Inr raw" and "view db (report_getBriefIdKey s) = Some raw"
  shows "Repo_GetSubmissionBriefReport E db s = Inr b"
  using get_message_present [OF assms(2) codec_okD [OF codec_brief assms(1)]]
  by (simp add: Repo_GetSubmissionBriefReport_def)

lemma consistent_cong:
  assumes "claims_consistent view db" and "\<And>k. prefix ''running:'' k \<Longrightarrow> view db' k = view db k"
  shows "claims_consistent view db'"
proof -
  have eq: "view db' (getSubmissionGraderKey s) = view db (getSubmissionGraderKey s)"
    "view db' (getGraderSubmissionKey g s) = view db (getGraderSubmissionKey g s)" for g s
    by (rule assms(2); simp)+
  have "view db' k = view db k" if "prefix (getGraderSubmissionPrefix g) k" for g k
  proof -
    have "prefix ''running:'' (getGraderSubmissionPrefix g)" by (simp add: grader_key_defs)
    then have "prefix ''running:'' k" using that by (rule prefix_order.trans)
    then show ?thesis by (rule assms(2))
  qed
  then have "claim_shape view db'"
    using consistent_shape [OF assms(1)] by (auto simp: claim_shape_def)
  then show ?thesis
    using assms(1) by (simp add: claims_consistent_def eq)
qed

lemma unfinished_deleted:
  "view (fst (DeleteUnfinishedSubmission E db s)) = (view db)(getUnfinishedKey s := None)"
  using delete_eq [OF surjective_pairing, of db "getUnfinishedKey s"]
  by (simp add: DeleteUnfinishedSubmission_def)

lemma release_one:
  assumes "claims_consistent view db" and "ReleaseSubmission E db s = (db', r)"
  shows "(view db' (getSubmissionGraderKey s) = None \<and>
      (\<forall>k. (\<forall>g. k \<noteq> getGraderSubmissionKey g s) \<longrightarrow> k \<noteq> getSubmissionGraderKey s \<longrightarrow> view db' k = view db k)) \<and>
    claims_consistent view db'"
proof (cases "claim_owner view db s")
  case None
  then have "view db (getSubmissionGraderKey s) = None" using consistent_owner [OF assms(1), of s] by simp
  then show ?thesis using release_free [of db s] assms by simp
next
  case (Some g)
  then have own: "view db (getSubmissionGraderKey s) = Some (Uint64ToBytes g)"
    using consistent_owner [OF assms(1), of s] by simp
  note v = release_view [OF own assms(2), THEN conjunct2]
  show ?thesis using release_consistent [OF assms(1) own v] by (simp add: v)
qed

lemma finished_view:
  assumes "claims_consistent view (hub_db h)"
  shows "view (hub_db (onSubmissionFinished E h s)) (report_getBriefIdKey t) =
      view (hub_db h) (report_getBriefIdKey t)"
    and "view (hub_db (onSubmissionFinished E h s)) (report_getIdKey t) = view (hub_db h) (report_getIdKey t)"
    and "view (hub_db (onSubmissionFinished E h s)) (getSubmissionGraderKey s) = None"
    and "view (hub_db (onSubmissionFinished E h s)) (getUnfinishedKey s) = None"
    and "claims_consistent view (hub_db (onSubmissionFinished E h s))"
proof -
  let ?db1 = "fst (DeleteUnfinishedSubmission E (hub_db h) s)"
  have c1: "claims_consistent view ?db1"
    by (rule consistent_cong [OF assms]) (auto simp: unfinished_deleted)
  obtain db2 r where rel: "ReleaseSubmission E ?db1 s = (db2, r)" by (cases "ReleaseSubmission E ?db1 s")
  then have db: "hub_db (onSubmissionFinished E h s) = db2" by (simp add: finished_db)
  note v = release_one [OF c1 rel]
  then show "view (hub_db (onSubmissionFinished E h s)) (report_getBriefIdKey t) =
      view (hub_db h) (report_getBriefIdKey t)"
    "view (hub_db (onSubmissionFinished E h s)) (report_getIdKey t) = view (hub_db h) (report_getIdKey t)"
    "view (hub_db (onSubmissionFinished E h s)) (getSubmissionGraderKey s) = None"
    "view (hub_db (onSubmissionFinished E h s)) (getUnfinishedKey s) = None"
    using v by (simp_all add: db unfinished_deleted)
  show "claims_consistent view (hub_db (onSubmissionFinished E h s))"
    unfolding db using v by simp
qed

lemma owner_none: "view db (getSubmissionGraderKey s) = None \<Longrightarrow>
    GetGraderIdBySubmissionId E db s = Inl ErrNotFound"
  by (simp add: GetGraderIdBySubmissionId_def get_id_def get_absent)

end

subsection \<open>Cancellation\<close>

lemma sendGrader_spec:
  assumes "sendGraderGradeRequest h g req = (h1, ok)"
  shows "(ok \<longleftrightarrow> outbox_open h g) \<and> hub_db h1 = hub_db h \<and> submissionSubs h1 = submissionSubs h \<and>
    queuedListIndex h1 = queuedListIndex h \<and> gradeRequestQueues h1 = gradeRequestQueues h \<and>
    (ok \<longrightarrow> (\<exists>a. gradeRequestQueues h g = Some a \<and> q_requests (outboxes h1 a) = q_requests (outboxes h a) @ [req]))"
  using assms
  by (auto simp: sendGraderGradeRequest_def queue_Push_def outbox_open_def split: option.splits if_splits)

context store_up
begin

lemma cancelled_state:
  assumes "claims_consistent view (hub_db h)"
    and "\<exists>raw. Marshal (C_Brief E) (brief_of_status SubmissionStatus_Cancelled) = Inr raw"
  shows "Repo_GetSubmissionBriefReport E (hub_db (onSubmissionCancelled E h s)) s =
      Inr (brief_of_status SubmissionStatus_Cancelled) \<and>
    GetGraderIdBySubmissionId E (hub_db (onSubmissionCancelled E h s)) s = Inl ErrNotFound \<and>
    runningList (onSubmissionCancelled E h s) s = None \<and> submissionSubs (onSubmissionCancelled E h s) s = [] \<and>
    (\<forall>m \<in> set (submissionSubs h s). mb_closed (mailboxes (onSubmissionCancelled E h s) m)) \<and>
    queuedListIndex (onSubmissionCancelled E h s) s = queuedListIndex h s"
proof -
  obtain raw where raw: "Marshal (C_Brief E) (brief_of_status SubmissionStatus_Cancelled) = Inr raw"
    using assms(2) by blast
  let ?h1 = "fst (onSubmissionBriefReportUpdate E h s (brief_of_status SubmissionStatus_Cancelled))"
  have v: "view (hub_db ?h1) = (view (hub_db h))(report_getBriefIdKey s \<mapsto> raw)"
    by (simp add: brief_write [OF raw])
  have "claims_consistent view (hub_db ?h1)"
    by (rule consistent_cong [OF assms(1)]) (simp add: brief_write [OF raw] running_not_report)
  note f = finished_view [OF this]
  have "Repo_GetSubmissionBriefReport E (hub_db (onSubmissionFinished E ?h1 s)) s =
      Inr (brief_of_status SubmissionStatus_Cancelled)"
    by (rule brief_read [OF raw]) (simp only: f(1) v fun_upd_same)
  moreover have "GetGraderIdBySubmissionId E (hub_db (onSubmissionFinished E ?h1 s)) s = Inl ErrNotFound"
    by (rule owner_none [OF f(3)])
  ultimately show ?thesis by (simp add: onSubmissionCancelled_def finished_mailboxes)
qed

lemma cancelling_state:
  assumes "\<exists>raw. Marshal (C_Brief E) (brief_of_status SubmissionStatus_Cancelling) = Inr raw"
  shows "Repo_GetSubmissionBriefReport E (hub_db (onSubmissionCancelling E h s)) s =
      Inr (brief_of_status SubmissionStatus_Cancelling) \<and>
    GetGraderIdBySubmissionId E (hub_db (onSubmissionCancelling E h s)) s =
      GetGraderIdBySubmissionId E (hub_db h) s \<and>
    outboxes (onSubmissionCancelling E h s) = outboxes h \<and>
    queuedListIndex (onSubmissionCancelling E h s) = queuedListIndex h"
proof -
  obtain raw where raw: "Marshal (C_Brief E) (brief_of_status SubmissionStatus_Cancelling) = Inr raw"
    using assms by blast
  have v: "view (hub_db (onSubmissionCancelling E h s)) =
      (view (hub_db h))(report_getBriefIdKey s \<mapsto> raw)"
    by (simp add: onSubmissionCancelling_def brief_write [OF raw])
  then have "Repo_GetSubmissionBriefReport E (hub_db (onSubmissionCancelling E h s)) s =
      Inr (brief_of_status SubmissionStatus_Cancelling)"
    by (intro brief_read [OF raw]) simp
  moreover have "GetGraderIdBySubmissionId E (hub_db (onSubmissionCancelling E h s)) s =
      GetGraderIdBySubmissionId E (hub_db h) s"
    by (rule owner_cong) (simp add: v)
  ultimately show ?thesis by (simp add: onSubmissionCancelling_def)
qed

end

subsection \<open>Reports: properties\<close>

text \<open>
  C4: A grader reports on its own submissions only. Whatever a grader \<open>g\<close> sends over a stream, everything the
  hub stores about a submission it does not hold the claim of at the start (result, brief result, claim,
  unfinished mark), its place in the running list and its subscribers stay as they are.
\<close>

theorem callback_touches_own_only:
  assumes "store_up E view" and "GradeCallback E (Some g) h msgs = (h', r)"
    and "GetGraderIdBySubmissionId E (hub_db h) s \<noteq> Inr g" and "key_of_submission s k"
  shows "view (hub_db h') k = view (hub_db h) k \<and> runningList h' s = runningList h s \<and>
    submissionSubs h' s = submissionSubs h s"
  using store_up.callback_loop_other [OF assms(1) _ assms(3, 4)] assms(2) by (simp add: GradeCallback_def)

theorem callback_touches_own_only_witness:
  "\<exists>h' r. GradeCallback mem_env (Some 2) (small_hub [(1, small_grader)])
      [(7, Some (GradeReport None (Some (brief_of_status SubmissionStatus_Finished)) None None))] = (h', r) \<and>
    map_of (hub_db h') (report_getBriefIdKey 7) = None"
proof -
  let ?h = "small_hub [(1, small_grader)]"
  let ?msgs = "[(7, Some (GradeReport None (Some (brief_of_status SubmissionStatus_Finished)) None None))]"
  obtain h' r where cb: "GradeCallback mem_env (Some 2) ?h ?msgs = (h', r)"
    by (cases "GradeCallback mem_env (Some 2) ?h ?msgs")
  have "GetGraderIdBySubmissionId mem_env (hub_db ?h) 7 \<noteq> Inr 2"
    by (simp add: GetGraderIdBySubmissionId_def get_id_def mem_get_def)
  from callback_touches_own_only [OF mem_store_up cb this, of "report_getBriefIdKey 7"] cb show ?thesis
    by simp
qed

text \<open>
  C5: A terminal report ends the submission. When the grader that holds the claim reports a final status, the
  brief result stored is the reported one, the submission is neither running nor claimed nor marked
  unfinished, every subscriber gets the report after everything sent before, and then its mailbox is
  closed and dropped, and the scheduler is woken.
\<close>

theorem terminal_report_ends_submission:
  assumes "store_up E view" and "claims_consistent view (hub_db h)"
    and "GetGraderIdBySubmissionId E (hub_db h) s = Inr g" and "GR_Brief r = Some b"
    and "Brief_Status b \<in> {SubmissionStatus_Failed, SubmissionStatus_Finished, SubmissionStatus_Cancelled}"
    and "Marshal (C_Brief E) b = Inr raw"
    and "distinct (submissionSubs h s)" and "GradeCallback E (Some g) h [(s, Some r)] = (h', err)"
  shows "err = None \<and> Repo_GetSubmissionBriefReport E (hub_db h') s = Inr b \<and>
    GetGraderIdBySubmissionId E (hub_db h') s = Inl ErrNotFound \<and>
    view (hub_db h') (getUnfinishedKey s) = None \<and> runningList h' s = None \<and>
    submissionSubs h' s = [] \<and> schedulerWake h' \<and>
    (\<forall>m \<in> set (submissionSubs h s). mb_closed (mailboxes h' m) \<and>
      (\<not> mb_closed (mailboxes h m) \<longrightarrow> sum_list (mb_all (mailboxes h' m)) = sum_list (mb_all (mailboxes h m)) + r))"
proof -
  let ?db1 = "fst (UpdateSubmissionBriefReport E (hub_db h) s b)"
  let ?db2 = "case GR_Report r of None \<Rightarrow> ?db1 | Some rep \<Rightarrow> fst (UpdateSubmissionReport E ?db1 s rep)"
  let ?h1 = "sendGradeReport (h\<lparr>hub_db := ?db2\<rparr>) s r"
  have h': "h' = onSubmissionFinished E ?h1 s" "err = None"
    using assms(3-5, 8) by (simp_all add: GradeCallback_def GradeCallback_recv_def Let_def GetStatus_def
      cong: option.case_cong)
  have w: "view ?db2 k = ((view (hub_db h))(report_getBriefIdKey s \<mapsto> raw)) k" if "k \<noteq> report_getIdKey s" for k
    by (cases "GR_Report r") (simp_all add: UpdateSubmissionReport_def
      store_up.brief_write [OF assms(1, 6)]
      store.set_message_other [OF store_up.axioms(1) [OF assms(1)] surjective_pairing that])
  have c1: "claims_consistent view (hub_db ?h1)"
    by (rule store_up.consistent_cong [OF assms(1, 2)]) (simp add: w running_not_report)
  note f = store_up.finished_view [OF assms(1) c1]
  have "view (hub_db h') (report_getBriefIdKey s) = Some raw" unfolding h'(1) f(1) by (simp add: w)
  from store_up.brief_read [OF assms(1, 6) this] have "Repo_GetSubmissionBriefReport E (hub_db h') s = Inr b" .
  moreover have "GetGraderIdBySubmissionId E (hub_db h') s = Inl ErrNotFound"
    by (rule store_up.owner_none [OF assms(1)]) (simp add: h'(1) f(3))
  moreover have "mailboxes h' m = mailbox_Close (Publish (\<lambda>n. False) (mailboxes h m) r)"
    if "m \<in> set (submissionSubs h s)" for m
    using that assms(7)
    by (simp add: h'(1) finished_mailboxes) (simp add: sendGradeReport_def publish_fold_in)
  ultimately show ?thesis
    using f(4) [of s] by (auto simp: h' Publish_all)
qed

text \<open>The small hub with submission 7 running on grader 1.\<close>

definition running_hub :: "(bytes \<times> bytes) list hub" where
  "running_hub = (small_hub [(1, small_grader)])
     \<lparr>hub_db := claims_run mem_env (ClearRunning mem_env []) [Op_Claim 1 7],
      submissionSubs := (\<lambda>s. [])(7 := [0]), queuedList := [], queuedListIndex := Map.empty\<rparr>"

lemma running_hub_view:
  "map_of (hub_db running_hub) = [getSubmissionGraderKey 7 \<mapsto> Uint64ToBytes 1, getGraderSubmissionKey 1 7 \<mapsto> []]"
proof -
  obtain db r where c: "ClaimSubmission mem_env (ClearRunning mem_env []) 1 7 = (db, r)"
    by (cases "ClaimSubmission mem_env (ClearRunning mem_env []) 1 7")
  have none: "map_of (ClearRunning mem_env []) = Map.empty"
    using mem.ClearRunning_view [of "[]"] by (simp add: fun_eq_iff)
  then have "GetGraderIdBySubmissionId mem_env (ClearRunning mem_env []) 7 = Inl ErrNotFound"
    by (simp add: mem.owner_none)
  then have "hub_db running_hub = db" by (simp add: running_hub_def claims_run_def c)
  then show ?thesis using mem.claim_view [OF c] none by simp
qed

lemma running_hub_claims:
  "claims_consistent map_of (hub_db running_hub)"
  "GetGraderIdBySubmissionId mem_env (hub_db running_hub) 7 = Inr 1"
proof -
  show "claims_consistent map_of (hub_db running_hub)"
    by (simp add: running_hub_def mem.claims_run_consistent mem.ClearRunning_consistent)
  show "GetGraderIdBySubmissionId mem_env (hub_db running_hub) 7 = Inr 1"
    by (simp add: GetGraderIdBySubmissionId_def get_id_def mem_get_def running_hub_view)
qed

theorem terminal_report_ends_submission_witness:
  "\<exists>h'. GradeCallback mem_env (Some 1) running_hub
      [(7, Some (GradeReport None (Some (brief_of_status SubmissionStatus_Finished)) None None))] = (h', None) \<and>
    Repo_GetSubmissionBriefReport mem_env (hub_db h') 7 = Inr (brief_of_status SubmissionStatus_Finished) \<and>
    mb_closed (mailboxes h' 0)"
proof -
  let ?b = "brief_of_status SubmissionStatus_Finished"
  let ?r = "GradeReport None (Some ?b) None None"
  obtain h' err where cb: "GradeCallback mem_env (Some 1) running_hub [(7, Some ?r)] = (h', err)"
    by (cases "GradeCallback mem_env (Some 1) running_hub [(7, Some ?r)]")
  have raw: "Marshal (C_Brief mem_env) ?b = Inr (decimal (to_nat ?b))" by (simp add: mem_env_def)
  have subs: "submissionSubs running_hub 7 = [0]" by (simp add: running_hub_def)
  have "Brief_Status ?b \<in> {SubmissionStatus_Failed, SubmissionStatus_Finished, SubmissionStatus_Cancelled}"
    "distinct (submissionSubs running_hub 7)" "GR_Brief ?r = Some ?b"
    by (simp_all add: brief_of_status_def subs)
  from terminal_report_ends_submission [OF mem_store_up running_hub_claims this(3, 1) raw this(2) cb]
  show ?thesis using cb subs by auto
qed

subsection \<open>Cancellation: properties\<close>

text \<open>
  The outcomes of a cancellation. Afterwards the submission is not pending. If it was not pending and the
  grader that holds it has an open outbox, a cancel request is appended to that outbox and the status
  is Cancelling, and the claim stays until the grader reports. Otherwise (pending, not claimed, or its
  grader unreachable) the status is Cancelled, the claim and the running entry are gone, and every
  subscriber is dropped with its mailbox closed.
\<close>

theorem CancelGrade_outcome:
  assumes "store_up E view" and "claims_consistent view (hub_db h)"
    and "\<forall>st. \<exists>raw. Marshal (C_Brief E) (brief_of_status st) = Inr raw"
  shows "queuedListIndex (CancelGrade E h s) s = None \<and>
    (if queuedListIndex h s = None \<and> (\<exists>g. GetGraderIdBySubmissionId E (hub_db h) s = Inr g \<and> outbox_open h g)
     then Repo_GetSubmissionBriefReport E (hub_db (CancelGrade E h s)) s =
          Inr (brief_of_status SubmissionStatus_Cancelling) \<and>
        GetGraderIdBySubmissionId E (hub_db (CancelGrade E h s)) s = GetGraderIdBySubmissionId E (hub_db h) s \<and>
        (\<exists>g a. GetGraderIdBySubmissionId E (hub_db h) s = Inr g \<and> gradeRequestQueues h g = Some a \<and>
          q_requests (outboxes (CancelGrade E h s) a) = q_requests (outboxes h a) @ [cancel_request s])
     else Repo_GetSubmissionBriefReport E (hub_db (CancelGrade E h s)) s =
          Inr (brief_of_status SubmissionStatus_Cancelled) \<and>
        GetGraderIdBySubmissionId E (hub_db (CancelGrade E h s)) s = Inl ErrNotFound \<and>
        runningList (CancelGrade E h s) s = None \<and> submissionSubs (CancelGrade E h s) s = [] \<and>
        (\<forall>m \<in> set (submissionSubs h s). mb_closed (mailboxes (CancelGrade E h s) m)))"
proof -
  have cancelled: "Repo_GetSubmissionBriefReport E (hub_db (onSubmissionCancelled E h1 s)) s =
        Inr (brief_of_status SubmissionStatus_Cancelled) \<and>
      GetGraderIdBySubmissionId E (hub_db (onSubmissionCancelled E h1 s)) s = Inl ErrNotFound \<and>
      runningList (onSubmissionCancelled E h1 s) s = None \<and> submissionSubs (onSubmissionCancelled E h1 s) s = [] \<and>
      (\<forall>m \<in> set (submissionSubs h s). mb_closed (mailboxes (onSubmissionCancelled E h1 s) m)) \<and>
      queuedListIndex (onSubmissionCancelled E h1 s) s = queuedListIndex h1 s"
    if "hub_db h1 = hub_db h" "submissionSubs h1 = submissionSubs h" for h1
    using store_up.cancelled_state [OF assms(1), of h1 s] assms(2, 3) that by simp
  show ?thesis
  proof (cases "queuedListIndex h s")
    case (Some e)
    have "queuedListIndex (removePendingGradeRequest h s) s = None"
      by (simp add: removePendingGradeRequest_def Some Let_def)
    then show ?thesis
      using cancelled [of "removePendingGradeRequest h s"] by (simp add: CancelGrade_def Some)
  next
    case idx: None
    show ?thesis
    proof (cases "GetGraderIdBySubmissionId E (hub_db h) s")
      case (Inl e)
      then show ?thesis using cancelled [of h] by (simp add: CancelGrade_def idx)
    next
      case own: (Inr g)
      obtain h1 ok where snd: "sendGraderGradeRequest h g (cancel_request s) = (h1, ok)"
        by (cases "sendGraderGradeRequest h g (cancel_request s)")
      note se = sendGrader_spec [OF snd]
      show ?thesis
      proof (cases ok)
        case True
        then have eq: "CancelGrade E h s = onSubmissionCancelling E h1 s"
          by (simp add: CancelGrade_def idx own snd)
        show ?thesis
          using store_up.cancelling_state [OF assms(1), of h1 s] assms(3) se True own idx
          unfolding eq by (auto simp: outbox_open_def)
      next
        case False
        then have "CancelGrade E h s = onSubmissionCancelled E h1 s"
          by (simp add: CancelGrade_def idx own snd)
        then show ?thesis using cancelled [of h1] se False own idx by simp
      qed
    qed
  qed
qed

theorem CancelGrade_outcome_witness:
  "Repo_GetSubmissionBriefReport mem_env (hub_db (CancelGrade mem_env running_hub 7)) 7 =
     Inr (brief_of_status SubmissionStatus_Cancelling) \<and>
   q_requests (outboxes (CancelGrade mem_env running_hub 7) 0) = [cancel_request 7]"
proof -
  have m: "\<forall>st. \<exists>raw. Marshal (C_Brief mem_env) (brief_of_status st) = Inr raw" by (simp add: mem_env_def)
  have "queuedListIndex running_hub 7 = None" "gradeRequestQueues running_hub = [1 \<mapsto> 0]"
    "outboxes running_hub 0 = NewGradeRequestQueue"
    by (simp_all add: running_hub_def small_hub_def initial_hub_def)
  moreover from this have "outbox_open running_hub 1"
    by (simp add: outbox_open_def NewGradeRequestQueue_def)
  ultimately show ?thesis
    using CancelGrade_outcome [OF mem_store_up running_hub_claims(1) m, of 7] running_hub_claims(2)
    by (auto simp: NewGradeRequestQueue_def split: if_splits)
qed

end
