(* ===== verification/HubWork.thy ===== *)
theory HubWork
  imports HubProps
begin

section \<open>Queued and in-flight work of the hub\<close>

text \<open>
  The pending list over any sequence of hub operations and the rank it shows, a submission that is queued
  twice, the work of a grader that goes offline, a grader that takes over a name, and an outbox that
  outlives its stream.
\<close>

subsection \<open>Histories of the hub\<close>

text \<open>The operations that touch the pending list.\<close>

datatype hub_op = Op_Enqueue grade_request | Op_Cancel u64 | Op_Pass | Op_Offline u64
  | Op_Callback "u64 option" "(u64 \<times> grade_report option) list" | Op_Open "u64 option" | Op_Subscribe u64

fun hub_step :: "'db env \<Rightarrow> 'db hub \<Rightarrow> hub_op \<Rightarrow> 'db hub" where
  "hub_step E h (Op_Enqueue req) = EnqueueGrade E h req"
| "hub_step E h (Op_Cancel s) = CancelGrade E h s"
| "hub_step E h Op_Pass = fst (schedulePass E h)"
| "hub_step E h (Op_Offline g) = onGraderOffline E h g"
| "hub_step E h (Op_Callback ident msgs) = fst (GradeCallback E ident h msgs)"
| "hub_step E h (Op_Open ident) = fst (GraderHeartbeat_open ident h)"
| "hub_step E h (Op_Subscribe s) = fst (Subscribe h s)"

lemma sendGrader_frame:
  "queuedList (fst (sendGraderGradeRequest h g req)) = queuedList h \<and>
   queuedListIndex (fst (sendGraderGradeRequest h g req)) = queuedListIndex h \<and>
   next_elem (fst (sendGraderGradeRequest h g req)) = next_elem h"
  by (simp add: sendGraderGradeRequest_def split: option.splits prod.splits)

lemma CancelGrade_pending_ok: "pending_ok h \<Longrightarrow> pending_ok (CancelGrade E h s)"
proof -
  assume ok: "pending_ok h"
  have canc: "pending_ok (onSubmissionCancelled E h1 s)" if "pending_ok h1" for h1
    by (rule pending_ok_cong [OF _ _ _ that]) (simp_all add: onSubmissionCancelled_def)
  have "pending_ok (fst (sendGraderGradeRequest h g req))" for g req
    using sendGrader_frame [of h g req] by (intro pending_ok_cong [OF _ _ _ ok]) simp_all
  moreover have "pending_ok (onSubmissionCancelling E h1 s)" if "pending_ok h1" for h1
    by (rule pending_ok_cong [OF _ _ _ that]) (simp_all add: onSubmissionCancelling_def)
  ultimately show ?thesis
    using canc [OF ok] canc [OF remove_pending_ok [OF ok]] canc
    by (auto simp: CancelGrade_def split: sum.splits prod.splits bool.splits) (metis fst_conv)+
qed

lemma GradeCallback_recv_frame:
  assumes "GradeCallback_recv E g h s report = (h', res)"
  shows "queuedList h' = queuedList h \<and> queuedListIndex h' = queuedListIndex h \<and> next_elem h' = next_elem h"
  using assms by (auto simp: GradeCallback_recv_def Let_def split: if_splits)

lemma GradeCallback_frame:
  "queuedList (fst (GradeCallback_loop E g h msgs)) = queuedList h \<and>
   queuedListIndex (fst (GradeCallback_loop E g h msgs)) = queuedListIndex h \<and>
   next_elem (fst (GradeCallback_loop E g h msgs)) = next_elem h"
proof (induction E g h msgs rule: GradeCallback_loop.induct)
  case (2 E g h s report msgs)
  obtain h1 res where recv: "GradeCallback_recv E g h s report = (h1, res)"
    by (cases "GradeCallback_recv E g h s report")
  then show ?case
    using GradeCallback_recv_frame [OF recv] 2 [OF recv [symmetric]] by (cases res) auto
qed simp

lemma hub_step_pending_ok:
  assumes "pending_ok h"
  shows "pending_ok (hub_step E h x)"
proof (cases x)
  case (Op_Callback ident msgs)
  then show ?thesis
    using GradeCallback_frame [of E _ h msgs]
    by (auto simp: GradeCallback_def intro!: pending_ok_cong [OF _ _ _ assms] split: option.splits)
next
  case (Op_Open ident)
  then show ?thesis
    by (auto simp: GraderHeartbeat_open_def Let_def wakeScheduler_def assms
        intro!: pending_ok_cong [OF _ _ _ assms] split: option.splits)
next
  case Op_Pass
  then show ?thesis using schedulePass_pending_ok [OF assms] by (cases "schedulePass E h") simp
next
  case (Op_Subscribe s)
  then show ?thesis
    by (auto simp: Subscribe_def Let_def intro!: pending_ok_cong [OF _ _ _ assms])
qed (simp_all add: EnqueueGrade_def queueGradeRequest_pending_ok CancelGrade_pending_ok
    onGraderOffline_pending_ok assms)

lemma hub_run_pending_ok: "pending_ok h \<Longrightarrow> pending_ok (foldl (hub_step E) h ops)"
  by (induction ops arbitrary: h) (simp_all add: hub_step_pending_ok)

lemma initial_pending_ok: "queuedList h = [] \<Longrightarrow> queuedListIndex h = Map.empty \<Longrightarrow> pending_ok h"
  by (simp add: pending_ok_def)

lemma rank_of_indexed:
  assumes "pending_ok h" and "queuedListIndex h s = Some e"
  shows "\<exists>i < length (queuedList h). fst (queuedList h ! i) = e \<and>
    Req_SubmissionId (pd_request (snd (queuedList h ! i))) = s \<and>
    GetPendingRank h s = (int i + 1, int (length (queuedList h)))"
proof -
  obtain p where p: "(e, p) \<in> set (queuedList h)" "Req_SubmissionId (pd_request p) = s"
    using pending_okD(4) [OF assms] by blast
  then obtain i where i: "i < length (queuedList h)" "queuedList h ! i = (e, p)"
    by (meson in_set_conv_nth)
  have "map_of (queuedList h) e = Some p"
    using p pending_okD(1) [OF assms(1)] by simp
  moreover have "pd_rank p = 1 + int i"
    using ranked_nth [OF pending_okD(3) [OF assms(1)] i(1)] i(2) by simp
  ultimately show ?thesis
    using i p(2) by (intro exI [of _ i]) (simp add: GetPendingRank_def assms(2))
qed

subsection \<open>Ranks: properties\<close>

text \<open>
  C7: The rank is the place in the queue. Starting from an empty pending list, after any sequence of
  enqueueing, cancelling, scheduling passes, graders going offline, grader reports and heartbeats opening,
  every submission the index knows is shown its 1-based place in the pending list and the length of the
  list, and a submission the index does not know is shown 0 of 0.
\<close>

theorem rank_is_place:
  assumes "queuedList h = []" and "queuedListIndex h = Map.empty" and "h' = foldl (hub_step E) h ops"
  shows "case queuedListIndex h' s of
      None \<Rightarrow> GetPendingRank h' s = (0, 0)
    | Some e \<Rightarrow> \<exists>i < length (queuedList h'). fst (queuedList h' ! i) = e \<and>
        Req_SubmissionId (pd_request (snd (queuedList h' ! i))) = s \<and>
        GetPendingRank h' s = (int i + 1, int (length (queuedList h')))"
proof -
  have "pending_ok h'" using hub_run_pending_ok [OF initial_pending_ok [OF assms(1, 2)]] assms(3) by simp
  from rank_of_indexed [OF this] show ?thesis
    by (simp add: GetPendingRank_def split: option.splits)
qed

theorem rank_is_place_witness:
  "\<exists>i h'. h' = foldl (hub_step mem_env) (initial_hub [] \<lparr>seq_key = [], seq_next = 0, seq_limit = 0\<rparr> [])
      [Op_Enqueue (small_request 7), Op_Enqueue (small_request 8)] \<and>
    GetPendingRank h' 8 = (int i + 1, int (length (queuedList h')))"
proof -
  let ?h = "initial_hub ([] :: mem_db) \<lparr>seq_key = [], seq_next = 0, seq_limit = 0\<rparr> []"
  let ?h' = "foldl (hub_step mem_env) ?h [Op_Enqueue (small_request 7), Op_Enqueue (small_request 8)]"
  have "queuedListIndex ?h' 8 = Some 1"
    by (simp add: EnqueueGrade_def queueGradeRequest_def onSubmissionQueued_def initial_hub_def
        small_request_def)
  moreover have "queuedList ?h = []" "queuedListIndex ?h = Map.empty" by (simp_all add: initial_hub_def)
  ultimately show ?thesis
    using rank_is_place [of ?h ?h' mem_env _ 8, OF _ _ refl] by auto
qed

subsection \<open>A submission queued twice\<close>

lemma enqueue_list [simp]:
  "queuedList (EnqueueGrade E h req) =
    queuedList h @ [(next_elem h, \<lparr>pd_rank = int (length (queuedList h)) + 1, pd_request = req\<rparr>)]"
  "queuedListIndex (EnqueueGrade E h req) = (queuedListIndex h)(Req_SubmissionId req \<mapsto> next_elem h)"
  "next_elem (EnqueueGrade E h req) = Suc (next_elem h)"
  by (simp_all add: EnqueueGrade_def queueGradeRequest_def onSubmissionQueued_def)

lemma cancel_list:
  "queuedList (CancelGrade E h s) = queuedList (removePendingGradeRequest h s)"
proof (cases "queuedListIndex h s")
  case None
  have keep: "queuedList (onSubmissionCancelled E h1 s) = queuedList h1"
    "queuedList (onSubmissionCancelling E h1 s) = queuedList h1" for h1
    by (simp_all add: onSubmissionCancelled_def onSubmissionCancelling_def)
  have "queuedList h1 = queuedList h"
    if "sendGraderGradeRequest h g (cancel_request s) = (h1, ok)" for g h1 ok
    using sendGrader_frame [of h g "cancel_request s"] that by simp
  then show ?thesis
    using keep by (auto simp: CancelGrade_def None removePendingGradeRequest_def split: sum.splits prod.splits
        bool.splits)
qed (simp add: CancelGrade_def onSubmissionCancelled_def)

text \<open>
  A submission that is queued twice cannot be cancelled. When the same submission is enqueued while it is
  already pending (as two regrades at the same time do), cancelling it removes the second element only:
  the first stays in the pending list and will be scheduled, although the submission is reported as not
  pending, and cancelling again changes the list no more.
\<close>

theorem duplicate_survives_cancel:
  assumes "pending_ok h"
    and "h' = CancelGrade E (EnqueueGrade E (EnqueueGrade E h req) req) (Req_SubmissionId req)"
  shows "(\<exists>x \<in> set (queuedList h'). pd_request (snd x) = req) \<and>
    GetPendingRank h' (Req_SubmissionId req) = (0, 0) \<and>
    queuedList (CancelGrade E h' (Req_SubmissionId req)) = queuedList h'"
proof -
  let ?s = "Req_SubmissionId req"
  let ?h2 = "EnqueueGrade E (EnqueueGrade E h req) req"
  have ok: "pending_ok ?h2"
    using assms(1) by (simp add: EnqueueGrade_def queueGradeRequest_pending_ok)
  have idx: "queuedListIndex ?h2 ?s = Some (Suc (next_elem h))" by simp
  from remove_list [OF ok idx] obtain before p behind where
    l: "queuedList ?h2 = before @ (Suc (next_elem h), p) # behind"
    "queuedList (removePendingGradeRequest ?h2 ?s) = before @ map demote behind" by blast
  have d: "distinct (map fst (queuedList ?h2))" by (rule pending_okD(1) [OF ok])
  obtain x where x: "x \<in> set (queuedList ?h2)" "fst x = next_elem h" "pd_request (snd x) = req"
    by (simp add: Bex_def) force
  then have "x \<in> set before \<or> x \<in> set behind" unfolding l(1) by auto
  then have "\<exists>y \<in> set (before @ map demote behind). pd_request (snd y) = req"
    using x(3) by (auto intro: bexI [of _ x] bexI [of _ "demote x"])
  moreover have none: "queuedListIndex h' ?s = None"
  proof -
    have "queuedListIndex (removePendingGradeRequest ?h2 ?s) ?s = None"
      using remove_list [OF ok idx] by auto
    then show ?thesis unfolding assms(2) by (simp add: CancelGrade_def onSubmissionCancelled_def)
  qed
  moreover have "queuedList (CancelGrade E h' ?s) = queuedList h'"
    by (simp add: cancel_list removePendingGradeRequest_def none)
  ultimately show ?thesis
    unfolding assms(2) by (simp add: cancel_list l(2) GetPendingRank_def)
qed

theorem duplicate_survives_cancel_witness:
  "\<exists>x \<in> set (queuedList (CancelGrade mem_env (EnqueueGrade mem_env (EnqueueGrade mem_env
      (initial_hub [] \<lparr>seq_key = [], seq_next = 0, seq_limit = 0\<rparr> []) (small_request 7)) (small_request 7)) 7)).
    pd_request (snd x) = small_request 7"
proof -
  let ?h = "initial_hub ([] :: mem_db) \<lparr>seq_key = [], seq_next = 0, seq_limit = 0\<rparr> []"
  have ok: "pending_ok ?h" by (rule initial_pending_ok) (simp_all add: initial_hub_def)
  have "Req_SubmissionId (small_request 7) = 7" by (simp add: small_request_def)
  then show ?thesis
    using duplicate_survives_cancel [OF ok refl, of mem_env "small_request 7"] by metis
qed

subsection \<open>The work of a grader that goes offline\<close>

lemma collect_running_spec:
  assumes "collect_running running seen ss = (running', seen', requeue)" and "distinct ss"
    and "set ss \<inter> seen = {}"
  shows "requeue = List.map_filter running ss \<and> seen' = seen \<union> {s \<in> set ss. running s \<noteq> None} \<and>
    running' = (\<lambda>s. if s \<in> set ss then None else running s)"
  using assms
proof (induction running seen ss arbitrary: running' seen' requeue rule: collect_running.induct)
  case (2 running seen s ss)
  show ?case
  proof (cases "running s")
    case None
    then have "collect_running running seen ss = (running', seen', requeue)" using 2(4) None by simp
    from 2(1) [OF None this] show ?thesis using 2(5, 6) None by (auto simp: map_filter_simps fun_eq_iff)
  next
    case (Some req)
    obtain r1 s1 q1 where rec: "collect_running (running(s := None)) (insert s seen) ss = (r1, s1, q1)"
      by (metis prod_cases3)
    have eq: "running' = r1" "seen' = s1" "requeue = req # q1" using 2(4, 6) Some rec by auto
    have mf: "List.map_filter (running(s := None)) ss = List.map_filter running ss"
      using 2(5) unfolding List.map_filter_def by (intro map_cong filter_cong) (auto cong: filter_cong)
    have "s \<notin> seen" using 2(6) by auto
    from 2(3) [OF Some this rec] 2(5, 6) show ?thesis
      using mf [unfolded fun_upd_def] Some unfolding eq by (auto simp: map_filter_simps fun_eq_iff)
  qed
qed (simp add: map_filter_simps)

lemma collect_outbox_spec:
  assumes "collect_outbox running seen reqs = (running', requeue)"
  shows "distinct (map Req_SubmissionId requeue) \<and> Req_SubmissionId ` set requeue \<inter> seen = {} \<and>
    (\<forall>s. running s = None \<longrightarrow> running' s = None)"
  using assms
proof (induction running seen reqs arbitrary: running' requeue rule: collect_outbox.induct)
  case (2 running seen req reqs)
  let ?s = "Req_SubmissionId req"
  show ?case
  proof (cases "Req_IsStreamLog req \<or> Req_IsCancel req \<or> ?s \<in> seen")
    case True
    then show ?thesis using 2(1) [OF refl True] 2(3) by simp
  next
    case False
    obtain r1 q1 where rec: "collect_outbox (running(?s := None)) (insert ?s seen) reqs = (r1, q1)"
      by (metis surj_pair)
    then have eq: "running' = r1" "requeue = req # q1" using 2(3) False by (auto simp: Let_def)
    from 2(2) [OF refl False rec] False show ?thesis unfolding eq by auto
  qed
qed simp

definition pending_count :: "'db hub \<Rightarrow> u64 \<Rightarrow> nat" where
  "pending_count h s = length (filter (\<lambda>x. Req_SubmissionId (pd_request (snd x)) = s) (queuedList h))"

lemma queueGradeRequest_list:
  "queuedList (queueGradeRequest E h req) =
    queuedList h @ [(next_elem h, \<lparr>pd_rank = int (length (queuedList h)) + 1, pd_request = req\<rparr>)]"
  "queuedListIndex (queueGradeRequest E h req) = (queuedListIndex h)(Req_SubmissionId req \<mapsto> next_elem h)"
  "runningList (queueGradeRequest E h req) = runningList h"
  "onlineGraders (queueGradeRequest E h req) = onlineGraders h"
  "gradeRequestQueues (queueGradeRequest E h req) = gradeRequestQueues h"
  "outboxes (queueGradeRequest E h req) = outboxes h"
  "hub_db (queueGradeRequest E h req) = fst (UpdateSubmissionBriefReport E (hub_db h) (Req_SubmissionId req)
     (brief_of_status SubmissionStatus_Queued))"
  by (simp_all add: queueGradeRequest_def onSubmissionQueued_def onSubmissionBriefReportUpdate_def
      split: prod.splits)

lemma requeue_all_frame:
  "runningList (requeue_all E h reqs) = runningList h \<and> onlineGraders (requeue_all E h reqs) = onlineGraders h \<and>
   gradeRequestQueues (requeue_all E h reqs) = gradeRequestQueues h \<and> outboxes (requeue_all E h reqs) = outboxes h"
  by (induction reqs arbitrary: h) (simp_all add: queueGradeRequest_list)

context store_up
begin

lemma queue_view_other:
  "k \<noteq> report_getBriefIdKey (Req_SubmissionId req) \<Longrightarrow>
    view (hub_db (queueGradeRequest E h req)) k = view (hub_db h) k"
  unfolding queueGradeRequest_list UpdateSubmissionBriefReport_def
  by (simp add: set_message_other [OF surjective_pairing])

lemma terminal_cong:
  "view (hub_db h') (report_getBriefIdKey s) = view (hub_db h) (report_getBriefIdKey s) \<Longrightarrow>
    isSubmissionTerminal E h' s = isSubmissionTerminal E h s"
  unfolding isSubmissionTerminal_def by (drule brief_cong) simp

lemma requeue_all_view:
  "prefix ''running:'' k \<Longrightarrow> view (hub_db (requeue_all E h reqs)) k = view (hub_db h) k"
  by (induction reqs arbitrary: h) (simp_all add: queue_view_other running_not_report)

lemma requeue_all_count:
  assumes "distinct (map Req_SubmissionId reqs)"
  shows "pending_count (requeue_all E h reqs) s = pending_count h s +
    (if s \<in> Req_SubmissionId ` set reqs \<and> \<not> isSubmissionTerminal E h s then 1 else 0)"
  using assms
proof (induction reqs arbitrary: h)
  case (Cons req reqs)
  let ?t = "Req_SubmissionId req"
  let ?h = "if \<not> isSubmissionTerminal E h ?t then queueGradeRequest E h req else h"
  have IH: "pending_count (requeue_all E ?h reqs) s = pending_count ?h s +
      (if s \<in> Req_SubmissionId ` set reqs \<and> \<not> isSubmissionTerminal E ?h s then 1 else 0)"
    using Cons by simp
  have cnt: "pending_count ?h s = pending_count h s + (if s = ?t \<and> \<not> isSubmissionTerminal E h s then 1 else 0)"
    by (simp add: pending_count_def queueGradeRequest_list)
  show ?case
  proof (cases "s = ?t")
    case True
    then have "s \<notin> Req_SubmissionId ` set reqs" using Cons.prems by auto
    then show ?thesis using IH cnt True by simp
  next
    case False
    have "isSubmissionTerminal E ?h s = isSubmissionTerminal E h s"
      by (rule terminal_cong) (use False in \<open>simp add: queue_view_other\<close>)
    then show ?thesis using IH cnt False by simp
  qed
qed simp

lemma release_all:
  assumes "claims_consistent view db"
  shows "claims_consistent view (foldl (\<lambda>db s. fst (ReleaseSubmission E db s)) db ss) \<and>
    (\<forall>s. s \<in> set ss \<or> view db (getSubmissionGraderKey s) = None \<longrightarrow>
      view (foldl (\<lambda>db s. fst (ReleaseSubmission E db s)) db ss) (getSubmissionGraderKey s) = None) \<and>
    (\<forall>k. \<not> prefix ''running:'' k \<longrightarrow> view (foldl (\<lambda>db s. fst (ReleaseSubmission E db s)) db ss) k = view db k)"
  using assms
proof (induction ss arbitrary: db)
  case (Cons t ss)
  obtain db1 r where rel: "ReleaseSubmission E db t = (db1, r)" by (cases "ReleaseSubmission E db t")
  note one = release_one [OF Cons.prems rel]
  have "view db1 k = view db k" if "\<not> prefix ''running:'' k" for k
  proof -
    have "k \<noteq> getSubmissionGraderKey t" "\<forall>g. k \<noteq> getGraderSubmissionKey g t" using that by auto
    then show ?thesis using one by blast
  qed
  moreover have "view db1 (getSubmissionGraderKey s) = None"
    if "s = t \<or> view db (getSubmissionGraderKey s) = None" for s
    using one that by (cases "s = t") auto
  moreover have "claims_consistent view db1" using one by blast
  note Cons.IH [OF this]
  ultimately show ?case by (auto simp: rel)
qed simp

lemma offline_collect_spec:
  assumes cons: "claims_consistent view (hub_db h)"
    and run: "\<forall>t req. runningList h t = Some req \<longrightarrow> Req_SubmissionId req = t"
    and own: "GetGraderIdBySubmissionId E (hub_db h) s = Inr g" "unat s < 2 ^ 63"
    and off: "offline_collect E h g = (h1, reqs)"
  shows "distinct (map Req_SubmissionId reqs) \<and> runningList h1 s = None \<and>
    (runningList h s \<noteq> None \<longrightarrow> s \<in> Req_SubmissionId ` set reqs) \<and>
    view (hub_db h1) (getSubmissionGraderKey s) = None \<and>
    (\<forall>k. \<not> prefix ''running:'' k \<longrightarrow> view (hub_db h1) k = view (hub_db h) k) \<and>
    queuedList h1 = queuedList h"
proof -
  obtain xs where xs: "GetSubmissionsByGrader E (hub_db h) g = Inr xs" "distinct xs"
    "set xs = {t \<in> claims_held view (hub_db h) g. unat t < 2 ^ 63}"
    using held_read [OF consistent_claim_shape [OF cons], of g] by blast
  have s: "s \<in> set xs" using own by (simp add: xs(3) held_is_owned [OF cons])
  obtain r1 seen q1 where c1: "collect_running (runningList h) {} xs = (r1, seen, q1)"
    by (metis prod_cases3)
  note sp = collect_running_spec [OF c1 xs(2), simplified]
  have ids: "map Req_SubmissionId (List.map_filter (runningList h) ys) =
      filter (\<lambda>t. runningList h t \<noteq> None) ys" for ys
    using run by (induction ys) (auto simp: map_filter_simps split: option.splits)
  have q1: "map Req_SubmissionId q1 = filter (\<lambda>t. runningList h t \<noteq> None) xs" using sp ids by simp
  have "set (map Req_SubmissionId q1) = seen" unfolding q1 using sp by auto
  then have seen: "Req_SubmissionId ` set q1 = seen" by simp
  obtain boxes r2 q2 where c2: "(case gradeRequestQueues h g of
        None \<Rightarrow> (outboxes h, r1, [])
      | Some a \<Rightarrow> (case Drain (queue_Close (outboxes h a)) of
          (q, reqs) \<Rightarrow> (case collect_outbox r1 seen reqs of
            (running2, requeue2) \<Rightarrow> ((outboxes h)(a := q), running2, requeue2)))) = (boxes, r2, q2)"
    (is "?c = _") by (cases ?c) blast
  then have q2: "distinct (map Req_SubmissionId q2) \<and> Req_SubmissionId ` set q2 \<inter> seen = {} \<and>
      (\<forall>t. r1 t = None \<longrightarrow> r2 t = None)"
  proof (cases "gradeRequestQueues h g")
    case (Some a)
    obtain q reqs' where d: "Drain (queue_Close (outboxes h a)) = (q, reqs')" by fastforce
    obtain r3 q3 where o: "collect_outbox r1 seen reqs' = (r3, q3)" by fastforce
    have "r2 = r3" "q2 = q3" using c2 by (simp_all add: Some d o)
    then show ?thesis using collect_outbox_spec [OF o] by simp
  qed (use c2 in simp)
  have h1: "reqs = q1 @ q2" "runningList h1 = r2" "queuedList h1 = queuedList h"
    "hub_db h1 = foldl (\<lambda>db s. fst (ReleaseSubmission E db s)) (hub_db h) xs"
    using off c2 by (auto simp: offline_collect_def Let_def xs(1) c1)
  have "distinct (map Req_SubmissionId q1)" unfolding q1 using xs(2) by simp
  then have "distinct (map Req_SubmissionId reqs)" using q2 seen by (auto simp: h1(1))
  moreover have "s \<in> Req_SubmissionId ` set reqs" if "runningList h s \<noteq> None"
    using that s seen sp by (auto simp: h1(1))
  moreover have "runningList h1 s = None" using q2 sp s by (simp add: h1(2))
  moreover note release_all [OF cons, of xs]
  ultimately show ?thesis using s by (simp add: h1)
qed

end

text \<open>
  C9: A grader that goes offline gives its work back, once. Every submission it held and that was in the
  running list is pending exactly once more than before unless its result is final already, and is
  neither running nor claimed afterwards; the grader is neither online nor has it an outbox. This is for ids below 2 to
  the 63, which a counter that starts at 1 does not leave: the keys of the claims are read back with a signed parser.
\<close>

theorem offline_requeues_once:
  assumes "store_up E view" and "claims_consistent view (hub_db h)"
    and "\<forall>t req. runningList h t = Some req \<longrightarrow> Req_SubmissionId req = t"
    and "GetGraderIdBySubmissionId E (hub_db h) s = Inr g" and "unat s < 2 ^ 63"
    and "runningList h s \<noteq> None"
  shows "pending_count (onGraderOffline E h g) s =
      pending_count h s + (if isSubmissionTerminal E h s then 0 else 1) \<and>
    runningList (onGraderOffline E h g) s = None \<and>
    GetGraderIdBySubmissionId E (hub_db (onGraderOffline E h g)) s = Inl ErrNotFound \<and>
    gradeRequestQueues (onGraderOffline E h g) g = None \<and>
    map_of (onlineGraders (onGraderOffline E h g)) g = None"
proof -
  obtain h1 reqs where off: "offline_collect E h g = (h1, reqs)" by (cases "offline_collect E h g")
  note sp = store_up.offline_collect_spec [OF assms(1-5) off]
  have eq: "onGraderOffline E h g = requeue_all E h1 reqs" by (simp add: onGraderOffline_def off)
  have "isSubmissionTerminal E h1 s = isSubmissionTerminal E h s"
    by (rule store_up.terminal_cong [OF assms(1)]) (use sp in simp)
  moreover have "pending_count h1 s = pending_count h s" using sp by (simp add: pending_count_def)
  ultimately have "pending_count (onGraderOffline E h g) s =
      pending_count h s + (if isSubmissionTerminal E h s then 0 else 1)"
    unfolding eq using store_up.requeue_all_count [OF assms(1), of reqs h1 s] sp assms(6) by simp
  moreover have "GetGraderIdBySubmissionId E (hub_db (onGraderOffline E h g)) s = Inl ErrNotFound"
    by (rule store_up.owner_none [OF assms(1)])
      (simp add: eq store_up.requeue_all_view [OF assms(1)] sp)
  ultimately show ?thesis
    using requeue_all_frame [of E h1 reqs] offline_collect_frame [OF off] sp
    by (simp add: eq map_of_AList_delete)
qed

theorem offline_requeues_once_witness:
  "pending_count (onGraderOffline mem_env (running_hub\<lparr>runningList := [7 \<mapsto> small_request 7]\<rparr>) 1) 7 = 1"
proof -
  let ?h = "running_hub\<lparr>runningList := [7 \<mapsto> small_request 7]\<rparr>"
  have db: "hub_db ?h = hub_db running_hub" by simp
  have "\<forall>t req. runningList ?h t = Some req \<longrightarrow> Req_SubmissionId req = t"
    by (simp add: small_request_def)
  from offline_requeues_once [OF mem_store_up _ this, of 7 1]
  have "pending_count (onGraderOffline mem_env ?h 1) 7 =
      pending_count ?h 7 + (if isSubmissionTerminal mem_env ?h 7 then 0 else 1)"
    using running_hub_claims by simp
  moreover have "pending_count ?h 7 = 0" by (simp add: pending_count_def running_hub_def)
  moreover have "\<not> isSubmissionTerminal mem_env ?h 7"
  proof -
    have "map_of (hub_db running_hub) (report_getBriefIdKey 7) = None"
      by (simp add: running_hub_view)
    then have "Repo_GetSubmissionBriefReport mem_env (hub_db running_hub) 7 = Inl ErrNotFound"
      by (simp add: Repo_GetSubmissionBriefReport_def get_message_def mem_get_def)
    then show ?thesis by (simp add: isSubmissionTerminal_def)
  qed
  ultimately show ?thesis by simp
qed

subsection \<open>Taking over a name\<close>

text \<open>
  C10: The name of a grader that looks online can be taken by that grader and by nobody else. A registration through
  the interceptor for a hostname whose grader is stored as online succeeds exactly when the call carries the
  hub token and the id and current session of that very grader (and the address of the caller is known and
  random bytes can be had). It then keeps its id, the session returned is the one that authenticates it from
  then on, and no other session changes; without that token and session nothing changes.
\<close>

theorem online_name_needs_session:
  fixes h :: "'db hub" and md :: hub_md and token :: string and now :: time and random :: "error + bytes"
    and peer :: "string option"
  assumes "GetGraderByName E (hub_db h) (GetHostname info) = Inr (grader, owner)"
    and "Grader_Status grader = GraderStatusMetadata_Online"
  defines "call \<equiv> UnaryAuthInterceptor h md GraderHubService_RegisterGrader_FullMethodName (Body_Register token)
      (\<lambda>h ident. RegisterGrader E now random ident peer h info)"
    and "known \<equiv> token = hub_token h \<and> (\<exists>text old. md MetadataGraderId = [text] \<and> ParseUint text = Inr owner \<and>
      md MetadataSessionToken = [old] \<and> sessions h owner = Some old \<and> old \<noteq> [])"
  shows "((\<exists>h' r. call = (h', Inr r)) \<longleftrightarrow> known \<and> peer \<noteq> None \<and> (\<exists>raw. random = Inr raw)) \<and>
    (\<forall>h' gid session. call = (h', Inr (gid, session)) \<longrightarrow>
      gid = owner \<and> sessions h' = (sessions h)(owner \<mapsto> session)) \<and>
    (known \<or> fst call = h)"
proof -
  have known: "known \<longleftrightarrow> token = hub_token h \<and> sessionFromMetadata h md = Some owner"
    unfolding known_def sessionFromMetadata_Some by blast
  show ?thesis
  proof (cases "token = hub_token h")
    case True
    then have c: "call = RegisterGrader E now random (sessionFromMetadata h md) peer h info"
      by (simp add: call_def UnaryAuthInterceptor_def authenticate_def checkHubToken_def)
    show ?thesis
      unfolding c known using True assms(1,2)
      by (auto simp: RegisterGrader_def newSession_def Let_def split: option.splits sum.splits)
  next
    case False
    then have "call = (h, Inl (StatusErr PermissionDenied ''INVALID_TOKEN''))"
      by (simp add: call_def UnaryAuthInterceptor_def authenticate_def checkHubToken_def)
    then show ?thesis unfolding known using False by simp
  qed
qed

definition registered_db :: mem_db where
  "registered_db = fst (set_message mem_env (C_Grader mem_env)
     (fst (pset mem_env [] (getGraderNameKey ''h'') (Uint64ToBytes 1))) (getGraderIdKey 1) small_grader)"

lemma registered_lookup: "GetGraderByName mem_env registered_db ''h'' = Inr (small_grader, 1)"
  by (simp add: GetGraderByName_def GetGraderIdByName_def GetGraderById_def get_id_def get_message_def
      registered_db_def set_message_def mem_get_def)

text \<open>Grader 1 is online, in session \<open>s\<close>.\<close>

definition registered_hub :: "mem_db hub" where
  "registered_hub = (initial_hub registered_db \<lparr>seq_key = [], seq_next = 2, seq_limit = 10\<rparr> ''t'')
     \<lparr>sessions := [1 \<mapsto> ''s'']\<rparr>"

definition register_call :: "hub_md \<Rightarrow> mem_db hub \<times> (error + u64 \<times> string)" where
  "register_call md = UnaryAuthInterceptor registered_hub md GraderHubService_RegisterGrader_FullMethodName
     (Body_Register ''t'')
     (\<lambda>h ident. RegisterGrader mem_env 0 (Inr [CHR 0x1F]) ident (Some ''i'') h (Grader_Info small_grader))"

theorem online_name_needs_session_witness:
  "(\<exists>h' session. register_call ((\<lambda>k. [])(MetadataGraderId := [id_text 1], MetadataSessionToken := [''s''])) =
      (h', Inr (1, session)) \<and> sessions h' = [1 \<mapsto> session]) \<and>
    (\<nexists>h' r. register_call (\<lambda>k. []) = (h', Inr r))"
proof -
  have lookup: "GetGraderByName mem_env (hub_db registered_hub) (GetHostname (Grader_Info small_grader)) = Inr (small_grader, 1)"
    using registered_lookup by (simp add: registered_hub_def initial_hub_def GetHostname_def small_grader_def)
  have "Grader_Status small_grader = GraderStatusMetadata_Online" by (simp add: small_grader_def)
  note law = online_name_needs_session [OF lookup this, where token = "''t''" and random = "Inr [CHR 0x1F]"
      and peer = "Some ''i''" and now = 0, folded register_call_def]
  have hub: "hub_token registered_hub = ''t''" "sessions registered_hub = [1 \<mapsto> ''s'']"
    by (simp_all add: registered_hub_def initial_hub_def)
  have keys: "MetadataGraderId \<noteq> MetadataSessionToken"
    by (simp add: MetadataGraderId_def MetadataSessionToken_def)
  let ?md = "(\<lambda>k. [])(MetadataGraderId := [id_text 1], MetadataSessionToken := [''s''])"
  have "\<exists>h' r. register_call ?md = (h', Inr r)" using law [where md = ?md] keys by (simp add: hub)
  then obtain h' gid session where r: "register_call ?md = (h', Inr (gid, session))" by auto
  then have "gid = 1" "sessions h' = [1 \<mapsto> session]" using law [where md = ?md] by (auto simp: hub)
  moreover have "\<nexists>h' r. register_call (\<lambda>k. []) = (h', Inr r)" using law [where md = "\<lambda>k. []"] by simp
  ultimately show ?thesis using r by blast
qed

subsection \<open>The outbox of a refused stream\<close>

lemma graderMonitor_alive_frame:
  "graderMonitor_alive E h g (Some t) = (h', on) \<Longrightarrow>
    gradeRequestQueues h' = gradeRequestQueues h \<and> outboxes h' = outboxes h"
  by (auto simp: graderMonitor_alive_def Let_def split: sum.splits if_splits)

lemma onGraderOffline_outbox:
  "gradeRequestQueues (onGraderOffline E h g) g = None \<and>
    (gradeRequestQueues h g = Some a \<longrightarrow> q_closed (outboxes (onGraderOffline E h g) a))"
proof -
  obtain h1 reqs where off: "offline_collect E h g = (h1, reqs)" by force
  then have "gradeRequestQueues h1 g = None" "gradeRequestQueues h g = Some a \<longrightarrow> q_closed (outboxes h1 a)"
    by (auto simp: offline_collect_def Let_def Drain_def queue_Close_def split: prod.splits option.splits)
  then show ?thesis using requeue_all_frame [of E h1 reqs] by (simp add: onGraderOffline_def off)
qed

context store_up
begin

lemma graderMonitor_alive_on:
  assumes "GetGraderById E (hub_db h) g = Inr grader"
  shows "\<exists>h' grader'. graderMonitor_alive E h g (Some t) = (h', True) \<and> GetGraderById E (hub_db h') g = Inr grader'"
proof -
  have "\<exists>x. GetGraderById E (fst (UpdateGrader E (hub_db h) g y)) g = Inr x" for y
  proof (cases "Marshal (C_Grader E) y")
    case (Inr raw)
    then obtain db where "pset E (hub_db h) (getGraderIdKey g) raw = (db, None)" "view db (getGraderIdKey g) = Some raw"
      using set_up set_eq by (metis fun_upd_same)
    then show ?thesis
      using Inr get_message_present [OF _ codec_okD [OF codec_grader Inr]]
      by (simp add: UpdateGrader_def set_message_def GetGraderById_def)
  qed (use assms in \<open>simp add: UpdateGrader_def set_message_def\<close>)
  then show ?thesis using assms by (simp add: graderMonitor_alive_def Let_def)
qed

lemma heartbeat_end_closes:
  assumes "GetGraderById E (hub_db h) g = Inr grader" and "gradeRequestQueues h g = Some a"
    and "GraderHeartbeat_loop E h g True ts = (h', None)"
  shows "gradeRequestQueues h' g = None \<and> q_closed (outboxes h' a)"
  using assms
proof (induction ts arbitrary: h grader)
  case Nil
  then have "h' = fst (graderMonitor_alive E h g None)" by (simp add: GraderHeartbeat_end_def)
  then show ?case using Nil onGraderOffline_outbox [of E h g a] by (simp add: graderMonitor_alive_def Let_def)
next
  case (Cons t ts)
  obtain h1 grader1 where m: "graderMonitor_alive E h g (Some (AsTime t)) = (h1, True)" "GetGraderById E (hub_db h1) g = Inr grader1"
    using graderMonitor_alive_on [OF Cons.prems(1)] by blast
  have "GraderHeartbeat_loop E h1 g True ts = (h', None)"
    using Cons.prems(3) m(1) by (auto simp: GraderHeartbeat_recv_def split: if_splits)
  then show ?case using Cons.IH [OF m(2)] graderMonitor_alive_frame [OF m(1)] Cons.prems(2) by simp
qed

end

text \<open>
  C11: A refused heartbeat strands work. A stream that ends by itself takes its outbox down: the grader has none
  any more, and the outbox is closed. When a stream is refused because the grader is not online,
  the handler returns but the outbox it opened stays the outbox of the grader, open. After the grader registered
  anew, a request that is offered to it goes there and counts as taken, though no stream serves that
  outbox; the stream the grader opens next has another, empty outbox, while the submission stays claimed
  and running.
\<close>

theorem refused_heartbeat_strands_work:
  assumes "store_up E view" and "map_of (onlineGraders h) g = None"
    and "GraderHeartbeat E (Some g) h (t # ts) = (h1, refused)"
    and "RegisterGrader E now random ident peer h1 info = (h2, Inr (g, session))"
    and "offer_request E h2 g req = (h3, ok)"
    and "GraderHeartbeat_open (Some g) h3 = (h4, Inr (g, b))"
    and "GetGraderById E (hub_db k) g = Inr grader" and "GraderHeartbeat E (Some g) k us = (k', None)"
  defines "a \<equiv> next_outbox h" and "s \<equiv> Req_SubmissionId req"
  shows "gradeRequestQueues k' g = None \<and> q_closed (outboxes k' (next_outbox k)) \<and>
    refused = Some (StatusErr NotFound ''GRADER_NOT_REGISTERED'') \<and>
    gradeRequestQueues h1 g = Some a \<and> \<not> q_closed (outboxes h1 a) \<and>
    ok \<and> a \<noteq> b \<and> req \<in> set (q_requests (outboxes h4 a)) \<and> gradeRequestQueues h4 g = Some b \<and>
    q_requests (outboxes h4 b) = [] \<and> runningList h4 s = Some req \<and> GetGraderIdBySubmissionId E (hub_db h4) s = Inr g"
proof -
  have h1: "refused = Some (StatusErr NotFound ''GRADER_NOT_REGISTERED'')" "next_outbox h1 = Suc a"
    "gradeRequestQueues h1 g = Some a" "outboxes h1 a = NewGradeRequestQueue"
    using assms(2,3) by (auto simp: GraderHeartbeat_def GraderHeartbeat_open_def GraderHeartbeat_recv_def Let_def
        wakeScheduler_def a_def)
  have h2: "next_outbox h2 = Suc a" "gradeRequestQueues h2 g = Some a" "outboxes h2 a = NewGradeRequestQueue"
    using assms(4) h1 by (auto simp: RegisterGrader_def newSession_def Let_def
        split: option.splits sum.splits error.splits prod.splits if_splits)
  obtain db r where c: "ClaimSubmission E (hub_db h2) g s = (db, r)" by force
  from assms(5) have h3: "ok \<and> h3 = removePendingGradeRequest
      (h2\<lparr>runningList := (runningList h2)(s \<mapsto> req), hub_db := db,
        outboxes := (outboxes h2)(a := (outboxes h2 a)\<lparr>q_requests := q_requests (outboxes h2 a) @ [req]\<rparr>)\<rparr>) s"
    by (cases rule: offer_cases) (use h2 c in \<open>auto simp: NewGradeRequestQueue_def s_def\<close>)
  have h4: "b = next_outbox h3" "outboxes h4 = (outboxes h3)(b := NewGradeRequestQueue)"
    "gradeRequestQueues h4 g = Some b" "runningList h4 = runningList h3" "hub_db h4 = hub_db h3"
    using assms(6) by (auto simp: GraderHeartbeat_open_def Let_def wakeScheduler_def)
  have "view db (getSubmissionGraderKey s) = Some (Uint64ToBytes g)"
    using store_up.claim_view [OF assms(1) c] by simp
  then have claimed: "GetGraderIdBySubmissionId E db s = Inr g"
    by (simp add: GetGraderIdBySubmissionId_def store_up.get_id_present [OF assms(1)])
  obtain k1 where k1: "GraderHeartbeat_open (Some g) k = (k1, Inr (g, next_outbox k))" "hub_db k1 = hub_db k"
    "gradeRequestQueues k1 g = Some (next_outbox k)"
    by (simp add: GraderHeartbeat_open_def Let_def wakeScheduler_def)
  have "gradeRequestQueues k' g = None \<and> q_closed (outboxes k' (next_outbox k))"
    by (rule store_up.heartbeat_end_closes [OF assms(1) _ k1(3)]) (use assms(7,8) k1 in \<open>simp_all add: GraderHeartbeat_def\<close>)
  then show ?thesis using h1 h2 h3 h4 claimed by (simp add: NewGradeRequestQueue_def)
qed

text \<open>A hub whose graders have not come back since it started.\<close>

definition restarted_hub :: "mem_db hub" where
  "restarted_hub = initial_hub registered_db \<lparr>seq_key = [], seq_next = 2, seq_limit = 10\<rparr> ''t''"

theorem refused_heartbeat_strands_work_witness:
  "\<exists>h1 h2 h3 h4 session a b. GraderHeartbeat mem_env (Some 1) restarted_hub [Some 5] =
      (h1, Some (StatusErr NotFound ''GRADER_NOT_REGISTERED'')) \<and>
    RegisterGrader mem_env 6 (Inr [CHR 0x1F]) (Some 1) (Some ''i'') h1 (Grader_Info small_grader) = (h2, Inr (1, session)) \<and>
    offer_request mem_env h2 1 (small_request 7) = (h3, True) \<and>
    GraderHeartbeat_open (Some 1) h3 = (h4, Inr (1, b)) \<and> a \<noteq> b \<and>
    small_request 7 \<in> set (q_requests (outboxes h4 a)) \<and> q_requests (outboxes h4 b) = []"
proof -
  let ?h = restarted_hub
  have no: "map_of (onlineGraders ?h) 1 = None" by (simp add: restarted_hub_def initial_hub_def)
  have grader: "GetGraderById mem_env (hub_db ?h) 1 = Inr small_grader"
    using registered_lookup by (auto simp: restarted_hub_def initial_hub_def GetGraderByName_def split: sum.splits)
  obtain h1 r where 1: "GraderHeartbeat mem_env (Some 1) ?h [Some 5] = (h1, r)" by force
  then have "hub_db h1 = registered_db"
    by (auto simp: GraderHeartbeat_def GraderHeartbeat_open_def GraderHeartbeat_recv_def Let_def wakeScheduler_def
        restarted_hub_def initial_hub_def)
  then obtain h2 session where
    2: "RegisterGrader mem_env 6 (Inr [CHR 0x1F]) (Some 1) (Some ''i'') h1 (Grader_Info small_grader) = (h2, Inr (1, session))"
    using registered_lookup by (auto simp: RegisterGrader_def newSession_def Let_def GetHostname_def small_grader_def)
  obtain h3 ok where 3: "offer_request mem_env h2 1 (small_request 7) = (h3, ok)" by force
  obtain h4 b where 4: "GraderHeartbeat_open (Some 1) h3 = (h4, Inr (1, b))"
    by (simp add: GraderHeartbeat_open_def Let_def)
  obtain k' where k: "GraderHeartbeat mem_env (Some 1) ?h [] = (k', None)"
    by (simp add: GraderHeartbeat_def GraderHeartbeat_open_def Let_def)
  from refused_heartbeat_strands_work [OF mem_store_up no 1 2 3 4 grader k] 1 2 3 4 show ?thesis by auto
qed

end
