(* ===== verification/Token.thy ===== *)
theory Token
  imports Codec
begin

section \<open>Signed tokens (pkg/grpc/token.go)\<close>

text \<open>
  Login, upload and download tokens are JWTs whose payload claim is the base64 text of a protobuf
  message. The JWT library is a parameter with the behaviour the server relies on as \<open>jwt_ok\<close>: a
  token parses with the key that signed it until it expires, and not with another key. \<open>base64\<close> is
  the standard library's: padded, the decoder skips line ends and ignores the unused bits of the last
  group.
\<close>

subsection \<open>base64.StdEncoding\<close>

definition b64_char :: "nat \<Rightarrow> char" where
  "b64_char n = ''ABCDEFGHIJKLMNOPQRSTUVWXYZabcdefghijklmnopqrstuvwxyz0123456789+/'' ! n"

fun find_index :: "'a \<Rightarrow> nat \<Rightarrow> 'a list \<Rightarrow> nat option" where
  "find_index x n [] = None"
| "find_index x n (y # ys) = (if x = y then Some n else find_index x (Suc n) ys)"

definition b64_value :: "char \<Rightarrow> nat option" where
  "b64_value c = find_index c 0 ''ABCDEFGHIJKLMNOPQRSTUVWXYZabcdefghijklmnopqrstuvwxyz0123456789+/''"

fun b64_encode :: "bytes \<Rightarrow> string" where
  "b64_encode [] = []"
| "b64_encode [a] =
     (let n = byte_val a * 16
      in [b64_char (n div 64), b64_char (n mod 64), CHR ''='', CHR ''=''])"
| "b64_encode [a, b] =
     (let n = (byte_val a * 256 + byte_val b) * 4
      in [b64_char (n div 4096), b64_char (n div 64 mod 64), b64_char (n mod 64), CHR ''=''])"
| "b64_encode (a # b # c # rest) =
     (let n = (byte_val a * 256 + byte_val b) * 256 + byte_val c
      in b64_char (n div 262144) # b64_char (n div 4096 mod 64) # b64_char (n div 64 mod 64) #
         b64_char (n mod 64) # b64_encode rest)"

definition b64_error :: error where
  "b64_error = ErrOther ''illegal base64 data''"

fun b64_groups :: "string \<Rightarrow> error + bytes" where
  "b64_groups [] = Inr []"
| "b64_groups (a # b # c # d # rest) =
     (case (b64_value a, b64_value b) of
        (Some x, Some y) \<Rightarrow>
          if c = CHR ''='' then
            (if d = CHR ''='' \<and> rest = [] then Inr [byte ((x * 64 + y) div 16)] else Inl b64_error)
          else
            (case b64_value c of
               None \<Rightarrow> Inl b64_error
             | Some z \<Rightarrow>
                 if d = CHR ''='' then
                   (if rest = []
                    then Inr [byte ((x * 64 + y) div 16), byte (((x * 64 + y) * 64 + z) div 4)]
                    else Inl b64_error)
                 else
                   (case b64_value d of
                      None \<Rightarrow> Inl b64_error
                    | Some w \<Rightarrow>
                        (case b64_groups rest of
                           Inl e \<Rightarrow> Inl e
                         | Inr bs \<Rightarrow>
                             Inr (byte ((x * 64 + y) div 16) # byte (((x * 64 + y) * 64 + z) div 4) #
                               byte ((((x * 64 + y) * 64 + z) * 64 + w)) # bs))))
      | _ \<Rightarrow> Inl b64_error)"
| "b64_groups _ = Inl b64_error"

definition b64_decode :: "string \<Rightarrow> error + bytes" where
  "b64_decode s = b64_groups (filter (\<lambda>c. c \<noteq> CHR 0x0A \<and> c \<noteq> CHR 0x0D) s)"

lemma find_index_nth: "distinct xs \<Longrightarrow> i < length xs \<Longrightarrow> find_index (xs ! i) n xs = Some (n + i)"
  by (induction xs arbitrary: i n) (auto simp: nth_Cons split: nat.splits)

lemma b64_value_char [simp]: "n < 64 \<Longrightarrow> b64_value (b64_char n) = Some n"
  unfolding b64_value_def b64_char_def
  by (subst find_index_nth) simp_all

lemma b64_char_not: "n < 64 \<Longrightarrow> b64_char n \<notin> {CHR ''='', CHR 0x0A, CHR 0x0D}"
proof
  assume "n < 64" "b64_char n \<in> {CHR ''='', CHR 0x0A, CHR 0x0D}"
  then have "b64_value (b64_char n) = None" by (auto simp: b64_value_def)
  then show False using \<open>n < 64\<close> by simp
qed

lemma b64_char_noteq [simp]:
  "n < 64 \<Longrightarrow> b64_char n \<noteq> CHR ''=''" "n < 64 \<Longrightarrow> b64_char n \<noteq> CHR 0x0A" "n < 64 \<Longrightarrow> b64_char n \<noteq> CHR 0x0D"
  using b64_char_not by blast+

lemma byte_eqI: "n mod 256 = byte_val c \<Longrightarrow> byte n = c"
  by (metis byte_val_byte byte_val_inject)

lemma digits_64: "n div 262144 * 64 + n div 4096 mod 64 = n div (4096 :: nat)"
  "n div 4096 * 64 + n div 64 mod 64 = n div (64 :: nat)" "n div 64 * 64 + n mod 64 = (n :: nat)"
  using div_mult_mod_eq [of "n div 4096" 64] div_mult_mod_eq [of "n div 64" 64] div_mult_mod_eq [of n 64]
  by (simp_all add: div_mult2_eq [symmetric])

lemma two_bytes: "(byte_val a * 256 + byte_val b) * 4 < 64 * 4096"
proof -
  have "byte_val a \<le> 255" "byte_val b \<le> 255"
    using byte_val_less [of a] byte_val_less [of b] by linarith+
  then show ?thesis by simp
qed

lemma three_bytes: "(byte_val a * 256 + byte_val b) * 256 + byte_val c < 64 * 262144"
proof -
  have "byte_val a \<le> 255" "byte_val b \<le> 255" "byte_val c \<le> 255"
    using byte_val_less [of a] byte_val_less [of b] byte_val_less [of c] by linarith+
  then show ?thesis by simp
qed

lemma three_digits:
  fixes x y z :: nat
  assumes "y < 256" "z < 256"
  shows "(65536 * x + y * 256 + z) div 65536 = x" "(65536 * x + y * 256 + z) div 256 = 256 * x + y"
    "(65536 * x + y * 256 + z) mod 256 = z"
proof -
  show d: "(65536 * x + y * 256 + z) div 256 = 256 * x + y" using assms(2) by simp
  show "(65536 * x + y * 256 + z) mod 256 = z"
    using assms(2) by (simp add: mod_add_cong [of "65536 * x + y * 256" 256 0 z z] mod_eq_0_iff_dvd)
  have "(65536 * x + y * 256 + z) div 256 div 256 = x" unfolding d using assms(1) by simp
  then show "(65536 * x + y * 256 + z) div 65536 = x" by (simp add: div_mult2_eq [symmetric])
qed

lemma digits_64_less:
  "(byte_val a * 256 + byte_val b) * 4 div 4096 < 64"
  "((byte_val a * 256 + byte_val b) * 256 + byte_val c) div 262144 < 64"
  by (rule less_mult_imp_div_less, rule two_bytes, rule less_mult_imp_div_less, rule three_bytes)

lemma b64_groups_encode: "b64_groups (b64_encode bs) = Inr bs"
proof (induction bs rule: b64_encode.induct)
  case (2 a)
  have "byte_val a div 4 < 64" using byte_val_less [of a] by (simp only: div_less_iff_less_mult)
  then have "byte_val a * 16 div 64 < 64" by simp
  moreover have "(byte_val a * 16 div 64 * 64 + byte_val a * 16 mod 64) div 16 = byte_val a"
    unfolding digits_64(3) by simp
  moreover have "byte_val a * 16 mod 64 < 64" by simp
  ultimately show ?case by (simp add: Let_def del: div_mult_self4 mod_mult_self4)
next
  case (3 a b)
  let ?n = "(byte_val a * 256 + byte_val b) * 4"
  have lt: "?n div 4096 < 64" "?n div 64 mod 64 < 64" "?n mod 64 < 64"
    by (rule digits_64_less, rule mod_less_divisor, simp, rule mod_less_divisor, simp)
  have "?n div 4096 * 64 + ?n div 64 mod 64 = ?n div 64" "?n div 64 * 64 + ?n mod 64 = ?n"
    by (rule digits_64)+
  moreover have "byte (?n div 64 div 16) = a" "byte (?n div 4) = b"
    by (rule byte_eqI, use byte_val_less [of a] byte_val_less [of b] in \<open>simp add: div_mult2_eq [symmetric]\<close>)+
  ultimately show ?case using lt by (simp add: Let_def)
next
  case (4 a b c rest)
  let ?n = "(byte_val a * 256 + byte_val b) * 256 + byte_val c"
  have lt: "?n div 262144 < 64" "?n div 4096 mod 64 < 64" "?n div 64 mod 64 < 64" "?n mod 64 < 64"
    by (rule digits_64_less, (rule mod_less_divisor, simp)+)
  note d = digits_64 [of ?n]
  have "byte (?n div 4096 div 16) = a" "byte (?n div 64 div 4) = b" "byte ?n = c"
    by (rule byte_eqI, simp add: three_digits byte_val_less div_mult2_eq [symmetric])+
  then show ?case using lt d 4 by (simp add: Let_def)
qed simp

lemma b64_encode_chars: "c \<in> set (b64_encode bs) \<Longrightarrow> c \<noteq> CHR 0x0A \<and> c \<noteq> CHR 0x0D"
proof (induction bs rule: b64_encode.induct)
  case (2 a)
  have "byte_val a div 4 < 64" using byte_val_less [of a] by (simp only: div_less_iff_less_mult)
  then have "byte_val a * 16 div 64 < 64" "byte_val a * 16 mod 64 < 64" by simp_all
  then show ?case using 2 by (auto simp: Let_def)
next
  case (3 a b)
  let ?n = "(byte_val a * 256 + byte_val b) * 4"
  have "?n div 4096 < 64" "?n div 64 mod 64 < 64" "?n mod 64 < 64"
    by (rule digits_64_less, (rule mod_less_divisor, simp)+)
  then show ?case using 3 by (auto simp: Let_def)
next
  case (4 a b c' rest)
  let ?n = "(byte_val a * 256 + byte_val b) * 256 + byte_val c'"
  have "?n div 262144 < 64" "?n div 4096 mod 64 < 64" "?n div 64 mod 64 < 64" "?n mod 64 < 64"
    by (rule digits_64_less, (rule mod_less_divisor, simp)+)
  then show ?case using 4 by (auto simp: Let_def)
qed simp

lemma b64_roundtrip [simp]: "b64_decode (b64_encode bs) = Inr bs"
proof -
  have "filter (\<lambda>c. c \<noteq> CHR 0x0A \<and> c \<noteq> CHR 0x0D) (b64_encode bs) = b64_encode bs"
    using b64_encode_chars by (auto simp: filter_id_conv)
  then show ?thesis by (simp add: b64_decode_def b64_groups_encode)
qed

subsection \<open>JWTs\<close>

text \<open>\<open>ProtobufClaim\<close>: dates are kept in whole seconds.\<close>

record claim_set =
  Claims_Payload :: string
  Claims_IssuedAt :: int
  Claims_ExpiresAt :: int

text \<open>Parsing gives the payload claim if there is one.\<close>

record jwt =
  jwt_sign :: "bytes \<Rightarrow> claim_set \<Rightarrow> error + string"
  jwt_parse :: "bytes \<Rightarrow> time \<Rightarrow> string \<Rightarrow> error + string option"

definition NewNumericDate :: "time \<Rightarrow> int" where
  "NewNumericDate t = t div nanosecond_per_second"

definition jwt_ok :: "jwt \<Rightarrow> bool" where
  "jwt_ok J \<longleftrightarrow>
     (\<forall>k c s now. jwt_sign J k c = Inr s \<longrightarrow>
        (now < Claims_ExpiresAt c * nanosecond_per_second \<longrightarrow> jwt_parse J k now s = Inr (Some (Claims_Payload c))) \<and>
        (now \<ge> Claims_ExpiresAt c * nanosecond_per_second \<longrightarrow> (\<exists>e. jwt_parse J k now s = Inl e)) \<and>
        (\<forall>k'. k' \<noteq> k \<longrightarrow> (\<exists>e. jwt_parse J k' now s = Inl e)))"

definition signPayloadToken ::
    "jwt \<Rightarrow> time \<Rightarrow> bytes \<Rightarrow> 'm codec \<Rightarrow> 'm \<Rightarrow> time \<Rightarrow> error + string" where
  "signPayloadToken J now key c payload expireAt =
     (case Marshal c payload of
        Inl e \<Rightarrow> Inl (StatusErr Internal ''PROTOBUF_MARSHAL'')
      | Inr raw \<Rightarrow>
          (case jwt_sign J key \<lparr>Claims_Payload = b64_encode raw, Claims_IssuedAt = NewNumericDate now,
               Claims_ExpiresAt = NewNumericDate expireAt\<rparr> of
             Inl e \<Rightarrow> Inl (StatusErr Internal ''JWT_SIGN'')
           | Inr ss \<Rightarrow> Inr ss))"

definition parseTokenPayload :: "jwt \<Rightarrow> time \<Rightarrow> bytes \<Rightarrow> string \<Rightarrow> error + bytes" where
  "parseTokenPayload J now key tokenString =
     (case jwt_parse J key now tokenString of
        Inl e \<Rightarrow> Inl e
      | Inr None \<Rightarrow> Inl (ErrOther ''payload not found'')
      | Inr (Some payloadString) \<Rightarrow> b64_decode payloadString)"

text \<open>A key in front of the claims in plain text satisfies the law: the witnesses use it.\<close>

definition plain_jwt :: jwt where
  "plain_jwt = \<lparr>jwt_sign = (\<lambda>k c. Inr (decimal (to_nat (k, Claims_Payload c, Claims_ExpiresAt c)))),
     jwt_parse = (\<lambda>k now s.
       (case from_nat (decimal_value s) :: bytes \<times> string \<times> int of
          (k', p, e) \<Rightarrow> if k' = k \<and> now < e * nanosecond_per_second then Inr (Some p)
            else Inl (ErrOther ''token is expired'')))\<rparr>"

lemma plain_jwt_ok: "jwt_ok plain_jwt"
  by (auto simp: jwt_ok_def plain_jwt_def)

lemma token_parses:
  assumes "jwt_ok J" and "signPayloadToken J now key c m expireAt = Inr ss"
  shows "(now' < expireAt div nanosecond_per_second * nanosecond_per_second \<longrightarrow>
      (\<exists>raw. Marshal c m = Inr raw \<and> parseTokenPayload J now' key ss = Inr raw)) \<and>
    (now' \<ge> expireAt \<longrightarrow> (\<exists>e. parseTokenPayload J now' key ss = Inl e)) \<and>
    (key' \<noteq> key \<longrightarrow> (\<exists>e. parseTokenPayload J now' key' ss = Inl e))"
proof -
  let ?c = "\<lambda>raw. \<lparr>Claims_Payload = b64_encode raw, Claims_IssuedAt = NewNumericDate now,
      Claims_ExpiresAt = NewNumericDate expireAt\<rparr>"
  obtain raw where raw: "Marshal c m = Inr raw" "jwt_sign J key (?c raw) = Inr ss"
    using assms(2) by (auto simp: signPayloadToken_def split: sum.splits)
  have le: "expireAt div nanosecond_per_second * nanosecond_per_second \<le> expireAt"
    by (simp add: div_mult_mod_eq [symmetric] pos_mod_sign minus_mod_eq_div_mult [symmetric])
  from assms(1) raw(2) have law:
    "(now' < NewNumericDate expireAt * nanosecond_per_second \<longrightarrow>
        jwt_parse J key now' ss = Inr (Some (b64_encode raw))) \<and>
     (now' \<ge> NewNumericDate expireAt * nanosecond_per_second \<longrightarrow> (\<exists>e. jwt_parse J key now' ss = Inl e)) \<and>
     (\<forall>k'. k' \<noteq> key \<longrightarrow> (\<exists>e. jwt_parse J k' now' ss = Inl e))"
    unfolding jwt_ok_def by fastforce
  then show ?thesis using raw(1) le by (auto simp: parseTokenPayload_def NewNumericDate_def)
qed

text \<open>
  A token says what was signed, for as long as it lives, and only under its key: parsing a token the server
  signed gives the encoded message back until the second of its expiry, and an error from then on or with
  another key.
\<close>

theorem token_roundtrip:
  assumes "jwt_ok J" and "signPayloadToken J now key c m expireAt = Inr ss"
  shows "(now' < expireAt div nanosecond_per_second * nanosecond_per_second \<longrightarrow>
      (\<exists>raw. Marshal c m = Inr raw \<and> parseTokenPayload J now' key ss = Inr raw)) \<and>
    (now' \<ge> expireAt \<longrightarrow> (\<exists>e. parseTokenPayload J now' key ss = Inl e)) \<and>
    (key' \<noteq> key \<longrightarrow> (\<exists>e. parseTokenPayload J now' key' ss = Inl e))"
  by (rule token_parses [OF assms])

theorem token_roundtrip_witness:
  "\<exists>ss. signPayloadToken plain_jwt 0 ''k'' (counting_codec (0 :: nat)) 5 nanosecond_per_second = Inr ss \<and>
    parseTokenPayload plain_jwt 7 ''k'' ss = Inr (decimal (to_nat (5 :: nat))) \<and>
    (\<exists>e. parseTokenPayload plain_jwt 7 ''other'' ss = Inl e)"
proof -
  obtain ss where s: "signPayloadToken plain_jwt 0 ''k'' (counting_codec (0 :: nat)) 5 nanosecond_per_second = Inr ss"
    by (simp add: signPayloadToken_def plain_jwt_def)
  from token_roundtrip [OF plain_jwt_ok s, of 7 "''other''"] s show ?thesis by auto
qed

end
