(* ===== verification/Paths.thy ===== *)
theory Paths
  imports Prelude
begin

section \<open>Slash-separated paths and local storage (pkg/storage/local.go)\<close>

text \<open>
  The standard library functions on paths the server uses (\<open>path\<close> and, on Unix, \<open>path/filepath\<close>), on
  strings, and \<open>LocalStorage\<close>, whose operations confine every path to the base directory. The file
  system is a parameter.
\<close>

subsection \<open>strings.Split, strings.Join, path.Clean, path.Join, filepath.Rel\<close>

fun Split_slash :: "string \<Rightarrow> string list" where
  "Split_slash [] = [[]]"
| "Split_slash (c # cs) =
     (if c = CHR ''/'' then [] # Split_slash cs
      else (case Split_slash cs of s # ss \<Rightarrow> (c # s) # ss | [] \<Rightarrow> [[c]]))"

fun Join_slash :: "string list \<Rightarrow> string" where
  "Join_slash [] = []"
| "Join_slash [s] = s"
| "Join_slash (s # ss) = s @ ''/'' @ Join_slash ss"

definition is_rooted :: "string \<Rightarrow> bool" where
  "is_rooted p \<longleftrightarrow> (\<exists>cs. p = CHR ''/'' # cs)"

lemma is_rooted_code [code, simp]: "is_rooted [] = False" "is_rooted (c # cs) = (c = CHR ''/'')"
  by (auto simp: is_rooted_def)

text \<open>
  The elements kept so far are in reverse; \<open>..\<close> removes the last one, unless that is itself a \<open>..\<close> that
  could not be removed; at the root it is dropped.
\<close>

fun clean_elems :: "bool \<Rightarrow> string list \<Rightarrow> string list \<Rightarrow> string list" where
  "clean_elems rooted out [] = rev out"
| "clean_elems rooted out (s # ss) =
     (if s = [] \<or> s = ''.'' then clean_elems rooted out ss
      else if s = ''..'' then
        (case out of
           t # ts \<Rightarrow> if t = ''..'' then clean_elems rooted (s # out) ss else clean_elems rooted ts ss
         | [] \<Rightarrow> if rooted then clean_elems rooted out ss else clean_elems rooted (s # out) ss)
      else clean_elems rooted (s # out) ss)"

definition elems :: "string \<Rightarrow> string list" where
  "elems p = clean_elems (is_rooted p) [] (Split_slash p)"

definition Clean :: "string \<Rightarrow> string" where
  "Clean p =
     (if is_rooted p then CHR ''/'' # Join_slash (elems p)
      else if elems p = [] then ''.'' else Join_slash (elems p))"

definition path_Join :: "string list \<Rightarrow> string" where
  "path_Join ps =
     (let ps' = filter (\<lambda>p. p \<noteq> []) ps
      in if ps' = [] then [] else Clean (Join_slash ps'))"

definition IsAbs :: "string \<Rightarrow> bool" where
  "IsAbs p = is_rooted p"

text \<open>The last element; everything up to it.\<close>

definition path_Base :: "string \<Rightarrow> string" where
  "path_Base p = rev (takeWhile (\<lambda>c. c \<noteq> CHR ''/'') (rev p))"

definition path_Dir :: "string \<Rightarrow> string" where
  "path_Dir p = Clean (rev (dropWhile (\<lambda>c. c \<noteq> CHR ''/'') (rev p)))"

text \<open>
  \<open>Rel\<close> on the elements of the cleaned paths: the common elements go; what is left of the base becomes
  \<open>..\<close> elements in front of what is left of the target.
\<close>

fun strip_common :: "string list \<Rightarrow> string list \<Rightarrow> string list \<times> string list \<times> bool" where
  "strip_common (b # bs) (t # ts) =
     (if b = t then strip_common bs ts else (b # bs, t # ts, True))"
| "strip_common bs ts = (bs, ts, False)"

definition filepath_Rel :: "string \<Rightarrow> string \<Rightarrow> error + string" where
  "filepath_Rel basepath targpath =
     (let base = Clean basepath; targ = Clean targpath
      in if targ = base then Inr ''.''
         else if is_rooted base \<noteq> is_rooted targ then Inl (ErrOther ''Rel: can't make relative'')
         else
           (case strip_common (elems base) (if targ = ''.'' then [''.''] else elems targ) of
              (bs, ts, differ) \<Rightarrow>
                if differ \<and> hd bs = ''..'' then Inl (ErrOther ''Rel: can't make relative'')
                else Inr (Join_slash (replicate (length bs) ''..'' @ ts))))"

subsection \<open>Lemmas on paths\<close>

definition plain_elem :: "string \<Rightarrow> bool" where
  "plain_elem s \<longleftrightarrow> s \<noteq> [] \<and> s \<noteq> ''.'' \<and> s \<noteq> ''..'' \<and> CHR ''/'' \<notin> set s"

text \<open>The elements of a cleaned path: \<open>..\<close> elements first, and none at the root.\<close>

definition clean_list :: "bool \<Rightarrow> string list \<Rightarrow> bool" where
  "clean_list rooted xs \<longleftrightarrow>
     (\<exists>n ys. xs = replicate n ''..'' @ ys \<and> (\<forall>y \<in> set ys. plain_elem y) \<and> (rooted \<longrightarrow> n = 0))"

lemma Split_slash_not_Nil [simp]: "Split_slash p \<noteq> []"
  by (induction p) (auto split: list.splits)

lemma Split_slash_no_slash: "s \<in> set (Split_slash p) \<Longrightarrow> CHR ''/'' \<notin> set s"
  by (induction p arbitrary: s) (auto split: list.splits if_splits)

lemma Split_slash_elem: "CHR ''/'' \<notin> set s \<Longrightarrow> Split_slash s = [s]"
  by (induction s) auto

lemma Split_slash_append: "CHR ''/'' \<notin> set s \<Longrightarrow> Split_slash (s @ CHR ''/'' # p) = s # Split_slash p"
  by (induction s) (auto split: list.splits)

lemma Split_Join: "xs \<noteq> [] \<Longrightarrow> \<forall>s \<in> set xs. CHR ''/'' \<notin> set s \<Longrightarrow> Split_slash (Join_slash xs) = xs"
  by (induction xs rule: Join_slash.induct) (auto simp: Split_slash_elem Split_slash_append)

lemma clean_list_plain_snoc:
  "clean_list r xs \<Longrightarrow> plain_elem s \<Longrightarrow> clean_list r (xs @ [s])"
  unfolding clean_list_def
proof (elim exE conjE)
  fix n ys
  assume "xs = replicate n ''..'' @ ys" "\<forall>y \<in> set ys. plain_elem y" "r \<longrightarrow> n = 0" "plain_elem s"
  then show "\<exists>n ys'. xs @ [s] = replicate n ''..'' @ ys' \<and> (\<forall>y \<in> set ys'. plain_elem y) \<and> (r \<longrightarrow> n = 0)"
    by (intro exI [of _ n] exI [of _ "ys @ [s]"]) simp
qed

lemma clean_list_dots_snoc:
  assumes "clean_list False xs" and "xs = [] \<or> last xs = ''..''"
  shows "clean_list False (xs @ [''..''])"
proof -
  obtain n ys where xs: "xs = replicate n ''..'' @ ys" "(\<forall>y \<in> set ys. plain_elem y)"
    using assms(1) by (auto simp: clean_list_def)
  have "ys = []"
  proof (rule ccontr)
    assume ys: "ys \<noteq> []"
    then have "plain_elem (last ys)" using xs(2) by simp
    then show False using assms(2) ys xs(1) by (auto simp: plain_elem_def)
  qed
  then have "xs @ [''..''] = replicate (Suc n) ''..'' @ []" using xs(1) by (simp add: replicate_append_same)
  then show ?thesis unfolding clean_list_def by (intro exI [of _ "Suc n"] exI [of _ "[]"]) simp
qed

lemma clean_list_butlast:
  assumes "clean_list r (xs @ [t])" and "t \<noteq> ''..''"
  shows "clean_list r xs"
proof -
  obtain n ys where xs: "xs @ [t] = replicate n ''..'' @ ys" "(\<forall>y \<in> set ys. plain_elem y)" "r \<longrightarrow> n = 0"
    using assms(1) by (auto simp: clean_list_def)
  have "ys \<noteq> []"
  proof
    assume "ys = []"
    then have "t \<in> set (replicate n ''..'')" using xs(1) by (metis append_Nil2 in_set_conv_decomp)
    then show False using assms(2) by simp
  qed
  then obtain zs where "ys = zs @ [t]" using xs(1) by (metis append_butlast_last_id last_appendR last_snoc)
  then show ?thesis using xs unfolding clean_list_def by auto
qed

lemma clean_list_rooted_last: "clean_list True (xs @ [t]) \<Longrightarrow> t \<noteq> ''..''"
  by (auto simp: clean_list_def plain_elem_def)

lemma clean_elems_clean:
  "clean_list r (rev out) \<Longrightarrow> \<forall>s \<in> set ss. CHR ''/'' \<notin> set s \<Longrightarrow> clean_list r (clean_elems r out ss)"
proof (induction ss arbitrary: out)
  case (Cons s ss)
  then have IH: "clean_list r (rev out') \<Longrightarrow> clean_list r (clean_elems r out' ss)" for out' by simp
  have "s = [] \<or> s = ''.'' \<or> s = ''..'' \<or> plain_elem s" using Cons.prems(2) by (auto simp: plain_elem_def)
  then consider (skip) "s = [] \<or> s = ''.''" | (up) "s = ''..''" | (plain) "plain_elem s" by blast
  then show ?case
  proof cases
    case skip
    then show ?thesis using IH Cons.prems(1) by auto
  next
    case up
    show ?thesis
    proof (cases out)
      case Nil
      show ?thesis
      proof (cases r)
        case False
        then have "clean_list r (rev [s])" using clean_list_dots_snoc [of "[]"] Cons.prems(1) up Nil by simp
        then show ?thesis using up Nil False IH [of "[s]"] by simp
      qed (use up Nil IH Cons.prems(1) in simp)
    next
      case out: (Cons t ts)
      show ?thesis
      proof (cases "t = ''..''")
        case True
        have "\<not> r" using clean_list_rooted_last [of "rev ts" t] Cons.prems(1) out True by auto
        then have "clean_list r (rev (s # out))"
          using clean_list_dots_snoc [of "rev out"] Cons.prems(1) up out True by simp
        then show ?thesis using up out True IH by simp
      next
        case False
        then have "clean_list r (rev ts)" using clean_list_butlast [of r "rev ts" t] Cons.prems(1) out by simp
        then show ?thesis using up out False IH by simp
      qed
    qed
  next
    case plain
    then have "clean_list r (rev (s # out))" using clean_list_plain_snoc Cons.prems(1) by simp
    then show ?thesis using plain IH by (simp add: plain_elem_def)
  qed
qed simp

lemma elems_clean: "clean_list (is_rooted p) (elems p)"
  unfolding elems_def by (rule clean_elems_clean) (auto simp: clean_list_def dest: Split_slash_no_slash)

lemma clean_list_elem: "clean_list r xs \<Longrightarrow> s \<in> set xs \<Longrightarrow> s \<noteq> [] \<and> s \<noteq> ''.'' \<and> CHR ''/'' \<notin> set s"
proof -
  assume "clean_list r xs" "s \<in> set xs"
  then obtain n ys where "s \<in> set (replicate n ''..'' @ ys)" "\<forall>y \<in> set ys. plain_elem y"
    unfolding clean_list_def by blast
  then have "s = ''..'' \<or> plain_elem s" by auto
  then show ?thesis by (elim disjE) (simp_all add: plain_elem_def)
qed

lemma clean_elems_dots: "clean_elems False (replicate m ''..'') (replicate n ''..'' @ ss) =
    clean_elems False (replicate (m + n) ''..'') ss"
proof (induction n arbitrary: m)
  case (Suc n)
  have "clean_elems False (replicate m ''..'') (''..'' # replicate n ''..'' @ ss) =
      clean_elems False (replicate (Suc m) ''..'') (replicate n ''..'' @ ss)" by (cases m) simp_all
  then show ?case using Suc [of "Suc m"] by simp
qed simp

lemma clean_elems_plain: "\<forall>y \<in> set ys. plain_elem y \<Longrightarrow> clean_elems r out ys = rev out @ ys"
  by (induction ys arbitrary: out) (auto simp: plain_elem_def)

lemma clean_elems_id: "clean_list r xs \<Longrightarrow> clean_elems r [] xs = xs"
proof -
  assume "clean_list r xs"
  then obtain n ys where xs: "xs = replicate n ''..'' @ ys" "\<forall>y \<in> set ys. plain_elem y" "r \<longrightarrow> n = 0"
    by (auto simp: clean_list_def)
  show ?thesis
  proof (cases r)
    case True
    then show ?thesis using xs by (simp add: clean_elems_plain)
  next
    case False
    then show ?thesis using clean_elems_dots [of 0 n ys] xs by (simp add: clean_elems_plain)
  qed
qed

lemma is_rooted_Join: "xs \<noteq> [] \<Longrightarrow> hd xs \<noteq> [] \<Longrightarrow> is_rooted (Join_slash xs) = is_rooted (hd xs)"
proof -
  assume "xs \<noteq> []" "hd xs \<noteq> []"
  then obtain s ss where "xs = s # ss" "s \<noteq> []" by (cases xs) auto
  moreover then obtain c cs where "s = c # cs" by (cases s) auto
  ultimately have "xs = (c # cs) # ss" by simp
  then show ?thesis by (cases ss) simp_all
qed

lemma is_rooted_elem: "is_rooted s \<Longrightarrow> CHR ''/'' \<in> set s"
  by (auto simp: is_rooted_def)

lemma is_rooted_Clean [simp]: "is_rooted (Clean p) = is_rooted p"
proof -
  note e = clean_list_elem [OF elems_clean [of p]]
  show ?thesis
  proof (cases "is_rooted p \<or> elems p = []")
    case False
    then have "hd (elems p) \<noteq> []" "\<not> is_rooted (hd (elems p))"
      using e [of "hd (elems p)"] is_rooted_elem by auto
    then show ?thesis using False by (simp add: Clean_def is_rooted_Join)
  qed (auto simp: Clean_def)
qed

lemma elems_Clean [simp]: "elems (Clean p) = elems p"
proof -
  have "clean_elems (is_rooted p) [] (Split_slash (Clean p)) = clean_elems (is_rooted p) [] (elems p)"
  proof (cases "elems p = []")
    case True
    then show ?thesis by (auto simp: Clean_def)
  next
    case False
    then have "Split_slash (Join_slash (elems p)) = elems p"
      using clean_list_elem [OF elems_clean] by (auto intro: Split_Join)
    then show ?thesis using False by (auto simp: Clean_def)
  qed
  then show ?thesis by (simp add: elems_def clean_elems_id elems_clean [unfolded elems_def])
qed

lemma Clean_idem [simp]: "Clean (Clean p) = Clean p"
  by (simp add: Clean_def [of "Clean p"]) (simp add: Clean_def)

lemma Clean_elems_eq: "Clean p = Clean q \<longleftrightarrow> is_rooted p = is_rooted q \<and> elems p = elems q"
  by (metis Clean_def elems_Clean is_rooted_Clean)

lemma strip_common_props:
  "strip_common bs ts = (bs', ts', d) \<Longrightarrow> \<exists>cs. bs = cs @ bs' \<and> ts = cs @ ts'"
  by (induction bs ts rule: strip_common.induct) (auto split: if_splits)

text \<open>What escapes starts with \<open>..\<close>.\<close>

definition escapes :: "string \<Rightarrow> bool" where
  "escapes rel \<longleftrightarrow> rel = ''..'' \<or> take 3 rel = ''../''"

lemma escapes_Join: "escapes (Join_slash (''..'' # xs))"
  by (cases xs) (auto simp: escapes_def)

lemma Rel_inside:
  assumes "filepath_Rel base targ = Inr rel" and "\<not> escapes rel"
  shows "is_rooted targ = is_rooted base \<and>
    (\<exists>rest. elems targ = elems base @ rest \<and> (\<forall>s \<in> set rest. plain_elem s))"
proof (cases "Clean targ = Clean base")
  case True
  then show ?thesis by (auto simp: Clean_elems_eq)
next
  case False
  let ?t = "if Clean targ = ''.'' then [''.''] else elems targ"
  obtain bs ts d where sc: "strip_common (elems base) ?t = (bs, ts, d)" by (metis prod_cases3)
  have rel: "rel = Join_slash (replicate (length bs) ''..'' @ ts)"
    and root: "is_rooted targ = is_rooted base"
    using assms(1) False sc by (auto simp: filepath_Rel_def Let_def split: if_splits)
  have bs: "bs = []"
  proof (rule ccontr)
    assume "bs \<noteq> []"
    then obtain xs where "replicate (length bs) ''..'' @ ts = ''..'' # xs" by (cases bs) auto
    then show False using rel assms(2) escapes_Join by metis
  qed
  obtain cs where cs: "elems base = cs" "?t = cs @ ts" using strip_common_props [OF sc] bs by auto
  have t: "elems targ = elems base @ ts"
  proof (cases "Clean targ = ''.''")
    case True
    have "cs = []"
    proof (rule ccontr)
      assume "cs \<noteq> []"
      then have "''.'' \<in> set (elems base)" using cs True by (cases cs) auto
      then show False using clean_list_elem [OF elems_clean] by blast
    qed
    then have "ts = [''.'']" using cs True by simp
    then have "elems targ = []"
      using True elems_Clean [of targ] by (auto simp: elems_def)
    moreover have "Clean base = ''.''"
      using cs \<open>cs = []\<close> root True by (auto simp: Clean_def split: if_splits)
    ultimately show ?thesis using False True by simp
  qed (use cs in auto)
  have "clean_list (is_rooted targ) (elems targ)" by (rule elems_clean)
  then obtain n ys where n: "elems base @ ts = replicate n ''..'' @ ys" "\<forall>y \<in> set ys. plain_elem y"
    unfolding t clean_list_def by auto
  have "\<forall>s \<in> set ts. plain_elem s"
  proof (cases "n \<le> length (elems base)")
    case True
    have "ts = drop (length (elems base)) (replicate n ''..'' @ ys)" using n(1) by (metis append_eq_conv_conj)
    then have "set ts \<subseteq> set ys" using True by (auto dest: in_set_dropD)
    then show ?thesis using n(2) by blast
  next
    case no: False
    have "ts = drop (length (elems base)) (replicate n ''..'' @ ys)" using n(1) by (metis append_eq_conv_conj)
    then have "ts = replicate (n - length (elems base)) ''..'' @ ys" using no by simp
    then obtain xs where "ts = ''..'' # xs" using no by (cases "n - length (elems base)") auto
    then show ?thesis using rel bs assms(2) escapes_Join by auto
  qed
  then show ?thesis using t root by blast
qed

subsection \<open>LocalStorage\<close>

text \<open>
  The operating system calls the storage makes, on a file system of type \<open>'fs\<close>. \<open>os_Write\<close> is \<open>io.Copy\<close> into the
  opened file.
\<close>

record 'fs os =
  os_Stat :: "'fs \<Rightarrow> string \<Rightarrow> error + u64"
  os_IsNotExist :: "error \<Rightarrow> bool"
  os_RemoveAll :: "'fs \<Rightarrow> string \<Rightarrow> 'fs \<times> error option"
  os_Open :: "'fs \<Rightarrow> string \<Rightarrow> error + bytes"
  os_MkdirAll :: "'fs \<Rightarrow> string \<Rightarrow> 'fs \<times> error option"
  os_OpenFile :: "'fs \<Rightarrow> string \<Rightarrow> 'fs \<times> error option"
  os_Write :: "'fs \<Rightarrow> string \<Rightarrow> bytes \<Rightarrow> 'fs \<times> error option"

definition safeJoin :: "string \<Rightarrow> string \<Rightarrow> error + string" where
  "safeJoin basePath p =
     (let full = path_Join [basePath, p]
      in case filepath_Rel basePath full of
           Inl e \<Rightarrow> Inl (ErrOther ''storage: path escapes base directory'')
         | Inr rel \<Rightarrow>
             if rel = ''..'' \<or> take 3 rel = ''../''
             then Inl (ErrOther ''storage: path escapes base directory'')
             else Inr full)"

definition ls_NotExists :: "'fs os \<Rightarrow> string \<Rightarrow> 'fs \<Rightarrow> string \<Rightarrow> error + bool" where
  "ls_NotExists S basePath fs path =
     (case safeJoin basePath path of
        Inl e \<Rightarrow> Inl e
      | Inr full \<Rightarrow>
          (case os_Stat S fs full of
             Inl e \<Rightarrow> if os_IsNotExist S e then Inr True else Inl e
           | Inr _ \<Rightarrow> Inr False))"

definition ls_Delete :: "'fs os \<Rightarrow> string \<Rightarrow> 'fs \<Rightarrow> string \<Rightarrow> 'fs \<times> error option" where
  "ls_Delete S basePath fs path =
     (case safeJoin basePath path of
        Inl e \<Rightarrow> (fs, Some e)
      | Inr full \<Rightarrow> os_RemoveAll S fs full)"

definition ls_Open :: "'fs os \<Rightarrow> string \<Rightarrow> 'fs \<Rightarrow> string \<Rightarrow> error + bytes" where
  "ls_Open S basePath fs path =
     (case safeJoin basePath path of Inl e \<Rightarrow> Inl e | Inr full \<Rightarrow> os_Open S fs full)"

definition ls_Size :: "'fs os \<Rightarrow> string \<Rightarrow> 'fs \<Rightarrow> string \<Rightarrow> error + u64" where
  "ls_Size S basePath fs path =
     (case safeJoin basePath path of
        Inl e \<Rightarrow> Inl e
      | Inr full \<Rightarrow> (case os_Stat S fs full of Inl e \<Rightarrow> Inl e | Inr s \<Rightarrow> Inr s))"

definition ls_Put :: "'fs os \<Rightarrow> string \<Rightarrow> 'fs \<Rightarrow> string \<Rightarrow> bytes \<Rightarrow> 'fs \<times> error option" where
  "ls_Put S basePath fs path data =
     (case safeJoin basePath path of
        Inl e \<Rightarrow> (fs, Some e)
      | Inr full \<Rightarrow>
          (case os_MkdirAll S fs (path_Dir full) of
             (fs1, Some e) \<Rightarrow> (fs1, Some e)
           | (fs1, None) \<Rightarrow>
               (case os_OpenFile S fs1 full of
                  (fs2, Some e) \<Rightarrow> (fs2, Some e)
                | (fs2, None) \<Rightarrow> os_Write S fs2 full data)))"

text \<open>\<open>p\<close> names the base directory or something below it.\<close>

definition inside :: "string \<Rightarrow> string \<Rightarrow> bool" where
  "inside basePath p \<longleftrightarrow> is_rooted p = is_rooted basePath \<and>
     (\<exists>rest. elems p = elems basePath @ rest \<and> (\<forall>s \<in> set rest. plain_elem s))"

text \<open>
  What the storage relies on: a call changes files (\<open>content\<close>) only at or below the path it is given, and
  \<open>os.MkdirAll\<close> no file at all.
\<close>

definition os_ok :: "'fs os \<Rightarrow> ('fs \<Rightarrow> string \<Rightarrow> bytes option) \<Rightarrow> bool" where
  "os_ok S content \<longleftrightarrow>
     (\<forall>fs p q. \<not> inside p q \<longrightarrow>
        content (fst (os_RemoveAll S fs p)) q = content fs q \<and>
        content (fst (os_OpenFile S fs p)) q = content fs q \<and>
        (\<forall>data. content (fst (os_Write S fs p data)) q = content fs q)) \<and>
     (\<forall>fs p q. content (fst (os_MkdirAll S fs p)) q = content fs q)"

lemma safeJoin_inside: "safeJoin basePath p = Inr full \<Longrightarrow> inside basePath full"
proof -
  assume a: "safeJoin basePath p = Inr full"
  then obtain rel where "filepath_Rel basePath full = Inr rel" "\<not> escapes rel"
    by (auto simp: safeJoin_def escapes_def Let_def split: sum.splits if_splits)
  then show ?thesis unfolding inside_def by (rule Rel_inside)
qed

lemma inside_trans: "inside a b \<Longrightarrow> inside b c \<Longrightarrow> inside a c"
  by (force simp: inside_def)

lemma ls_Delete_frame:
  assumes "os_ok S content" and "\<And>full. safeJoin basePath p = Inr full \<Longrightarrow> \<not> inside full q"
  shows "content (fst (ls_Delete S basePath fs p)) q = content fs q"
  using assms by (auto simp: ls_Delete_def os_ok_def split: sum.splits)

lemma ls_Put_frame:
  assumes "os_ok S content" and "\<And>full. safeJoin basePath p = Inr full \<Longrightarrow> \<not> inside full q"
  shows "content (fst (ls_Put S basePath fs p data)) q = content fs q"
proof (cases "safeJoin basePath p")
  case (Inr full)
  have c: "content (fst (os_MkdirAll S f d)) q = content f q"
    "content (fst (os_OpenFile S f full)) q = content f q"
    "content (fst (os_Write S f full data)) q = content f q" for f d
    using assms(1) assms(2) [OF Inr] by (auto simp: os_ok_def)
  obtain fs1 r1 where 1: "os_MkdirAll S fs (path_Dir full) = (fs1, r1)" by fastforce
  obtain fs2 r2 where 2: "os_OpenFile S fs1 full = (fs2, r2)" by fastforce
  have "content fs1 q = content fs q" "content fs2 q = content fs1 q"
    using c(1) [of fs "path_Dir full"] c(2) [of fs1] 1 2 by simp_all
  then show ?thesis using c(3) [of fs2] Inr 1 2 by (cases r1; cases r2) (simp_all add: ls_Put_def)
qed (simp add: ls_Put_def)

text \<open>
  C16: Nothing leaves the storage root: \<open>safeJoin\<close> only lets through paths whose cleaned elements are those of
  the base directory followed by ordinary names (no \<open>..\<close>), whatever the base and the given path are,
  and so neither \<open>Delete\<close> nor \<open>Put\<close> changes a file outside the base directory.
\<close>

theorem storage_confined:
  assumes "os_ok S content" and "\<not> inside basePath q"
  shows "(\<forall>full. safeJoin basePath p = Inr full \<longrightarrow> inside basePath full) \<and>
    content (fst (ls_Delete S basePath fs p)) q = content fs q \<and>
    content (fst (ls_Put S basePath fs p data)) q = content fs q"
proof -
  have out: "\<not> inside full q" if "safeJoin basePath p = Inr full" for full
    using that assms(2) safeJoin_inside inside_trans by blast
  show ?thesis
    using safeJoin_inside ls_Delete_frame [OF assms(1) out] ls_Put_frame [OF assms(1) out] by blast
qed

text \<open>A file system that is a map from cleaned paths to contents: the witnesses use it.\<close>

definition map_os :: "(string \<rightharpoonup> bytes) os" where
  "map_os = \<lparr>os_Stat = (\<lambda>fs p. case fs (Clean p) of None \<Rightarrow> Inl ErrNotFound | Some b \<Rightarrow> Inr (of_nat (length b))),
     os_IsNotExist = (\<lambda>e. e = ErrNotFound),
     os_RemoveAll = (\<lambda>fs p. ((\<lambda>q. if is_rooted q = is_rooted p \<and> take (length (elems p)) (elems q) = elems p \<and>
         list_all plain_elem (drop (length (elems p)) (elems q)) then None else fs q), None)),
     os_Open = (\<lambda>fs p. case fs (Clean p) of None \<Rightarrow> Inl ErrNotFound | Some b \<Rightarrow> Inr b),
     os_MkdirAll = (\<lambda>fs p. (fs, None)), os_OpenFile = (\<lambda>fs p. (fs(Clean p \<mapsto> []), None)),
     os_Write = (\<lambda>fs p data. (fs(Clean p \<mapsto> data), None))\<rparr>"

lemma inside_take: "inside p q \<longleftrightarrow> is_rooted q = is_rooted p \<and> take (length (elems p)) (elems q) = elems p \<and>
    list_all plain_elem (drop (length (elems p)) (elems q))"
proof -
  have "(\<exists>rest. elems q = elems p @ rest \<and> (\<forall>s \<in> set rest. plain_elem s)) \<longleftrightarrow>
      take (length (elems p)) (elems q) = elems p \<and> list_all plain_elem (drop (length (elems p)) (elems q))"
    (is "?l \<longleftrightarrow> ?r")
  proof
    assume r: ?r
    have "elems q = take (length (elems p)) (elems q) @ drop (length (elems p)) (elems q)" by simp
    then have "elems q = elems p @ drop (length (elems p)) (elems q)" using r by argo
    then show ?l using r by (auto simp: list_all_iff)
  qed (auto simp: list_all_iff)
  then show ?thesis by (simp add: inside_def)
qed

lemma inside_self: "inside p (Clean p)"
  by (simp add: inside_def)

lemma map_os_ok: "os_ok map_os (\<lambda>fs q. fs q)"
  using inside_self by (auto simp: os_ok_def map_os_def inside_take)

theorem storage_confined_witness:
  "safeJoin ''data'' ''uploads/manifests/7/main.py'' = Inr ''data/uploads/manifests/7/main.py'' \<and>
   (\<exists>e. safeJoin ''data'' ''../config.toml'' = Inl e) \<and>
   fst (ls_Put map_os ''data'' [''config.toml'' \<mapsto> ''x''] ''a'' ''y'') ''config.toml'' = Some ''x''"
proof -
  have "\<not> inside ''data'' ''config.toml''" by (simp add: inside_def elems_def)
  from storage_confined [OF map_os_ok this, of "''a''" "[''config.toml'' \<mapsto> ''x'']" "''y''"]
  have "fst (ls_Put map_os ''data'' [''config.toml'' \<mapsto> ''x''] ''a'' ''y'') ''config.toml'' = Some ''x''" by simp
  moreover have "safeJoin ''data'' ''uploads/manifests/7/main.py'' = Inr ''data/uploads/manifests/7/main.py''"
    by (simp add: safeJoin_def path_Join_def Clean_def elems_def filepath_Rel_def)
  moreover have "safeJoin ''data'' ''../config.toml'' = Inl (ErrOther ''storage: path escapes base directory'')"
    by (simp add: safeJoin_def path_Join_def Clean_def elems_def filepath_Rel_def)
  ultimately show ?thesis by blast
qed

end
