(* ===== verification/UserRepo.thy ===== *)
theory UserRepo
  imports Sequencer
begin

section \<open>Users: pkg/repository/user.go\<close>

text \<open>
  \<open>KVUserRepository\<close> keeps a user under its id, and the id under the username, the email and the
  GitHub login; the memberships of a user are under \<open>user:courses:\<close>. Both mutexes make an operation
  atomic. The time \<open>timestamppb.Now()\<close> reads is the argument \<open>now\<close>.
\<close>

definition getUserIdKey :: "u64 \<Rightarrow> bytes" where
  "getUserIdKey userId = ''user:id:'' @ id_text userId"

definition getUsernameKey :: "string \<Rightarrow> bytes" where
  "getUsernameKey name = ''user:name:'' @ name"

definition getGithubIdKey :: "string \<Rightarrow> bytes" where
  "getGithubIdKey githubId = ''user:github:'' @ githubId"

definition getEmailKey :: "string \<Rightarrow> bytes" where
  "getEmailKey email = ''user:email:'' @ email"

definition getCoursePrefix :: "u64 \<Rightarrow> bytes" where
  "getCoursePrefix courseId = ''user:courses:'' @ id_text courseId @ '':''"

definition getCourseKey :: "u64 \<Rightarrow> u64 \<Rightarrow> bytes" where
  "getCourseKey userId courseId = getCoursePrefix userId @ Uint64ToBytes courseId"

lemmas user_key_defs = getUserIdKey_def getUsernameKey_def getGithubIdKey_def getEmailKey_def
  getCoursePrefix_def getCourseKey_def

definition GetUserById :: "'db env \<Rightarrow> 'db \<Rightarrow> u64 \<Rightarrow> error + user" where
  "GetUserById E db i = get_message E (C_User E) db (getUserIdKey i)"

definition GetAllUsers :: "'db env \<Rightarrow> 'db \<Rightarrow> error + (u64 \<times> user) list" where
  "GetAllUsers E db =
     (let p = ''user:id:''
      in case piter E db (PrefixIterOptions p) of
           Inl e \<Rightarrow> Inl e
         | Inr kvs \<Rightarrow>
             collect (\<lambda>(k, v).
               let i = of_int (fst (Atoi (drop (length p) k)))
               in case GetUserById E db i of Inl e \<Rightarrow> Inl e | Inr u \<Rightarrow> Inr (i, u)) kvs)"

definition GetUserIdByUsername :: "'db env \<Rightarrow> 'db \<Rightarrow> string \<Rightarrow> error + u64" where
  "GetUserIdByUsername E db username = get_id E db (getUsernameKey username)"

definition RemoveCourseMember :: "'db env \<Rightarrow> 'db \<Rightarrow> u64 \<Rightarrow> u64 \<Rightarrow> 'db \<times> error option" where
  "RemoveCourseMember E db userId courseId = pdelete E db (getCourseKey userId courseId)"

definition GetCourseMember :: "'db env \<Rightarrow> 'db \<Rightarrow> u64 \<Rightarrow> u64 \<Rightarrow> course_member option" where
  "GetCourseMember E db userId courseId =
     (case get_message E (C_Member E) db (getCourseKey userId courseId) of
        Inl e \<Rightarrow> None
      | Inr m \<Rightarrow> Some m)"

definition GetCoursesByUser :: "'db env \<Rightarrow> 'db \<Rightarrow> u64 \<Rightarrow> error + course_member list" where
  "GetCoursesByUser E db userId =
     (case piter E db (PrefixIterOptions (getCoursePrefix userId)) of
        Inl e \<Rightarrow> Inl e
      | Inr kvs \<Rightarrow> collect (\<lambda>(k, v). Unmarshal (C_Member E) v) kvs)"

definition AddCourse :: "'db env \<Rightarrow> 'db \<Rightarrow> course_member \<Rightarrow> 'db \<times> error option" where
  "AddCourse E db m =
     set_message E (C_Member E) db (getCourseKey (Member_UserId m) (Member_CourseId m)) m"

definition GetUserIdByEmail :: "'db env \<Rightarrow> 'db \<Rightarrow> string \<Rightarrow> error + u64" where
  "GetUserIdByEmail E db email = get_id E db (getEmailKey email)"

definition GetUserIdByGithubId :: "'db env \<Rightarrow> 'db \<Rightarrow> string \<Rightarrow> error + u64" where
  "GetUserIdByGithubId E db githubId = get_id E db (getGithubIdKey githubId)"

definition GetUserByGithubId :: "'db env \<Rightarrow> 'db \<Rightarrow> string \<Rightarrow> error + user \<times> u64" where
  "GetUserByGithubId E db githubId =
     (case GetUserIdByGithubId E db githubId of
        Inl e \<Rightarrow> Inl e
      | Inr i \<Rightarrow> (case GetUserById E db i of Inl e \<Rightarrow> Inl e | Inr u \<Rightarrow> Inr (u, i)))"

definition GetUserByEmail :: "'db env \<Rightarrow> 'db \<Rightarrow> string \<Rightarrow> error + user \<times> u64" where
  "GetUserByEmail E db email =
     (case GetUserIdByEmail E db email of
        Inl e \<Rightarrow> Inl e
      | Inr i \<Rightarrow> (case GetUserById E db i of Inl e \<Rightarrow> Inl e | Inr u \<Rightarrow> Inr (u, i)))"

definition GetUserByUsername :: "'db env \<Rightarrow> 'db \<Rightarrow> string \<Rightarrow> error + user \<times> u64" where
  "GetUserByUsername E db username =
     (case GetUserIdByUsername E db username of
        Inl e \<Rightarrow> Inl e
      | Inr i \<Rightarrow> (case GetUserById E db i of Inl e \<Rightarrow> Inl e | Inr u \<Rightarrow> Inr (u, i)))"

text \<open>The mutation a caller of \<open>UpdateUserAtomic\<close> passes returns the changed user or an error.\<close>

definition UpdateUserAtomic ::
    "'db env \<Rightarrow> 'db \<Rightarrow> u64 \<Rightarrow> (user \<Rightarrow> error + user) \<Rightarrow> 'db \<times> error option" where
  "UpdateUserAtomic E db i mutate =
     (case GetUserById E db i of
        Inl e \<Rightarrow> (db, Some e)
      | Inr u \<Rightarrow>
          (case mutate u of
             Inl e \<Rightarrow> (db, Some e)
           | Inr u' \<Rightarrow> set_message E (C_User E) db (getUserIdKey i) u'))"

text \<open>
  \<open>UnbindGithubId\<close>'s closure stores the login it clears in a variable; here it is read from the user
  the same lock protects.
\<close>

definition UnbindGithubId :: "'db env \<Rightarrow> 'db \<Rightarrow> u64 \<Rightarrow> 'db \<times> error option" where
  "UnbindGithubId E db i =
     (let githubId = (case GetUserById E db i of Inl e \<Rightarrow> [] | Inr u \<Rightarrow> User_GithubId u)
      in case UpdateUserAtomic E db i (\<lambda>u. Inr (u\<lparr>User_GithubId := []\<rparr>)) of
           (db', Some e) \<Rightarrow> (db', Some e)
         | (db', None) \<Rightarrow>
             if 0 < length githubId then pdelete E db' (getGithubIdKey githubId) else (db', None))"

definition BindGithubId :: "'db env \<Rightarrow> 'db \<Rightarrow> u64 \<Rightarrow> string \<Rightarrow> 'db \<times> error option" where
  "BindGithubId E db i githubId =
     (case UpdateUserAtomic E db i (\<lambda>u. Inr (u\<lparr>User_GithubId := githubId\<rparr>)) of
        (db', Some e) \<Rightarrow> (db', Some e)
      | (db', None) \<Rightarrow> pset E db' (getGithubIdKey githubId) (Uint64ToBytes i))"

definition CreateUser :: "'db env \<Rightarrow> 'db \<Rightarrow> kvseq \<Rightarrow> time \<Rightarrow> user \<Rightarrow> 'db \<times> kvseq \<times> (error + u64)" where
  "CreateUser E db q now u0 =
     (let u = u0\<lparr>User_CreatedAt := Some now\<rparr>
      in case get_id E db (getUsernameKey (User_Username u)) of
           Inr i \<Rightarrow> (db, q, Inr i)
         | Inl e \<Rightarrow>
             if e \<noteq> ErrNotFound then (db, q, Inl e)
             else case GetNextId E db q of
                 (db1, q1, Inl e) \<Rightarrow> (db1, q1, Inl e)
               | (db1, q1, Inr i) \<Rightarrow>
                   (case Marshal (C_User E) u of
                      Inl e \<Rightarrow> (db1, q1, Inl e)
                    | Inr raw \<Rightarrow>
                        (case batch_all E []
                            [BSet (getUserIdKey i) raw,
                             BSet (getUsernameKey (User_Username u)) (Uint64ToBytes i),
                             BSet (getEmailKey (User_Email u)) (Uint64ToBytes i)] of
                           Inl e \<Rightarrow> (db1, q1, Inl e)
                         | Inr batch \<Rightarrow>
                             (case pcommit E db1 batch of
                                (db2, Some e) \<Rightarrow> (db2, q1, Inl e)
                              | (db2, None) \<Rightarrow> (db2, q1, Inr i)))))"

definition NewKVUserRepository :: "'db env \<Rightarrow> 'db \<Rightarrow> 'db \<times> (error + kvseq)" where
  "NewKVUserRepository E db = NewKVSequencer E db ''user:next_id''"

subsection \<open>The key layout\<close>

lemma user_keys [key_intros, simp]:
  "getUserIdKey i = getUserIdKey j \<longleftrightarrow> i = j"
  "getUsernameKey m = getUsernameKey n \<longleftrightarrow> m = n"
  "getEmailKey m = getEmailKey n \<longleftrightarrow> m = n"
  "getGithubIdKey m = getGithubIdKey n \<longleftrightarrow> m = n"
  "getCourseKey u c = getCourseKey u' c' \<longleftrightarrow> u = u' \<and> c = c'"
  "getUserIdKey i \<noteq> getUsernameKey n" "getUsernameKey n \<noteq> getUserIdKey i"
  "getUserIdKey i \<noteq> getEmailKey n" "getEmailKey n \<noteq> getUserIdKey i"
  "getUserIdKey i \<noteq> getGithubIdKey n" "getGithubIdKey n \<noteq> getUserIdKey i"
  "getUserIdKey i \<noteq> getCourseKey u c" "getCourseKey u c \<noteq> getUserIdKey i"
  "getUsernameKey m \<noteq> getEmailKey n" "getEmailKey n \<noteq> getUsernameKey m"
  "getUsernameKey m \<noteq> getGithubIdKey n" "getGithubIdKey n \<noteq> getUsernameKey m"
  "getEmailKey m \<noteq> getGithubIdKey n" "getGithubIdKey n \<noteq> getEmailKey m"
  "getUserIdKey i \<noteq> ''user:next_id''" "getUsernameKey n \<noteq> ''user:next_id''"
  "getEmailKey n \<noteq> ''user:next_id''" "getGithubIdKey n \<noteq> ''user:next_id''"
  "getCourseKey u c \<noteq> ''user:next_id''"
  by (simp_all add: user_key_defs)

lemma prefix_course_key [simp]: "prefix (getCoursePrefix u) (getCourseKey u' c) \<longleftrightarrow> u = u'"
  by (auto simp: user_key_defs)

subsection \<open>Invariant\<close>

text \<open>
  Every stored user decodes and is the one its username leads to, and no id at or above the
  sequencer's next one is in use.
\<close>

definition user_inv :: "'db env \<Rightarrow> ('db \<Rightarrow> bytes \<rightharpoonup> bytes) \<Rightarrow> 'db \<Rightarrow> kvseq \<Rightarrow> bool" where
  "user_inv E view db q \<longleftrightarrow>
     seq_key q = ''user:next_id'' \<and>
     (\<forall>i raw. view db (getUserIdKey i) = Some raw \<longrightarrow> i < seq_next q \<and>
       (\<exists>u. Unmarshal (C_User E) raw = Inr u \<and>
         view db (getUsernameKey (User_Username u)) = Some (Uint64ToBytes i)))"

context store
begin

text \<open>What \<open>CreateUser\<close> wrote when it created the user.\<close>

definition user_created :: "'db \<Rightarrow> 'db \<Rightarrow> user \<Rightarrow> u64 \<Rightarrow> bool" where
  "user_created db db' u i \<longleftrightarrow>
     (\<exists>raw. Marshal (C_User E) u = Inr raw \<and> view db' (getUserIdKey i) = Some raw) \<and>
     view db' (getUsernameKey (User_Username u)) = Some (Uint64ToBytes i) \<and>
     view db' (getEmailKey (User_Email u)) = Some (Uint64ToBytes i) \<and>
     (\<forall>k. k \<notin> {getUserIdKey i, getUsernameKey (User_Username u), getEmailKey (User_Email u),
         ''user:next_id''} \<longrightarrow> view db' k = view db k)"

lemma CreateUser_cases:
  assumes "seq_key q = ''user:next_id''" and "CreateUser E db q now u0 = (db', q', r)"
  shows "seq_key q' = seq_key q \<and>
    ((\<forall>k. k \<noteq> ''user:next_id'' \<longrightarrow> view db' k = view db k) \<and> (seq_next q' = seq_next q \<or> seq_next q' = seq_next q + 1) \<and>
      (\<forall>i. r = Inr i \<longrightarrow> db' = db \<and> q' = q \<and> get_id E db (getUsernameKey (User_Username u0)) = Inr i) \<or>
     view db (getUsernameKey (User_Username u0)) = None \<and> seq_next q' = seq_next q + 1 \<and>
      user_created db db' (u0\<lparr>User_CreatedAt := Some now\<rparr>) (seq_next q) \<and> (\<forall>i. r = Inr i \<longrightarrow> i = seq_next q))"
proof (cases "get_id E db (getUsernameKey (User_Username u0)) = Inl ErrNotFound")
  case False
  then show ?thesis
    using assms(2) by (auto simp: CreateUser_def Let_def split: sum.splits if_splits)
next
  case True
  note absent = get_id_not_found [OF True]
  obtain db1 q1 r1 where gen: "GetNextId E db q = (db1, q1, r1)" by (metis prod_cases3)
  note frame = GetNextId_frame [OF gen]
  let ?u = "u0\<lparr>User_CreatedAt := Some now\<rparr>"
  show ?thesis
  proof (cases r1)
    case (Inl e)
    then show ?thesis using assms True gen frame by (auto simp: CreateUser_def)
  next
    case (Inr i)
    with frame have i: "i = seq_next q" "seq_next q1 = seq_next q + 1" by auto
    show ?thesis
    proof (cases "Marshal (C_User E) ?u")
      case (Inl e)
      then show ?thesis using assms True gen frame Inr i by (auto simp: CreateUser_def)
    next
      case m: (Inr raw)
      let ?ops = "[BSet (getUserIdKey i) raw,
          BSet (getUsernameKey (User_Username u0)) (Uint64ToBytes i),
          BSet (getEmailKey (User_Email u0)) (Uint64ToBytes i)]"
      show ?thesis
      proof (cases "batch_all E [] ?ops")
        case (Inl e)
        then show ?thesis using assms True gen frame Inr i m by (auto simp: CreateUser_def)
      next
        case b: (Inr batch)
        have batch: "batch = ?ops" using batch_all_append [OF b] by simp
        obtain db2 r2 where c: "pcommit E db1 batch = (db2, r2)" by (cases "pcommit E db1 batch")
        have res: "db' = db2" "q' = q1" "r = (case r2 of None \<Rightarrow> Inr i | Some e \<Rightarrow> Inl e)"
          using assms True gen Inr i m b c by (auto simp: CreateUser_def split: option.splits)
        from commit_view [OF c] have
          "view db2 = (view db1)(getUserIdKey i \<mapsto> raw,
            getUsernameKey (User_Username u0) \<mapsto> Uint64ToBytes i,
            getEmailKey (User_Email u0) \<mapsto> Uint64ToBytes i) \<or> r2 \<noteq> None \<and> view db2 = view db1"
          by (simp add: batch)
        then show ?thesis
        proof
          assume "view db2 = (view db1)(getUserIdKey i \<mapsto> raw,
            getUsernameKey (User_Username u0) \<mapsto> Uint64ToBytes i,
            getEmailKey (User_Email u0) \<mapsto> Uint64ToBytes i)"
          then have "user_created db db' ?u i"
            using m frame assms(1) by (auto simp: user_created_def res)
          then show ?thesis using absent frame res i by (auto split: option.splits)
        next
          assume "r2 \<noteq> None \<and> view db2 = view db1"
          then show ?thesis using frame res assms(1) i by (auto split: option.splits)
        qed
      qed
    qed
  qed
qed

lemma CreateUser_inv:
  assumes inv: "user_inv E view db q" and cr: "CreateUser E db q now u0 = (db', q', r)"
    and wrap: "seq_next q + 1 \<noteq> 0"
  shows "user_inv E view db' q'"
proof -
  have key: "seq_key q = ''user:next_id''" using inv by (simp add: user_inv_def)
  have lt: "i < seq_next q \<Longrightarrow> i < seq_next q + 1" for i
    by (rule less_trans [OF _ u64_less_Suc [OF wrap]])
  from CreateUser_cases [OF key cr] show ?thesis
  proof (elim conjE disjE)
    assume "\<forall>k. k \<noteq> ''user:next_id'' \<longrightarrow> view db' k = view db k" "seq_key q' = seq_key q"
      "seq_next q' = seq_next q"
    then show ?thesis using inv by (simp add: user_inv_def)
  next
    assume "\<forall>k. k \<noteq> ''user:next_id'' \<longrightarrow> view db' k = view db k" "seq_key q' = seq_key q"
      "seq_next q' = seq_next q + 1"
    then show ?thesis using inv lt by (simp add: user_inv_def)
  next
    assume new: "view db (getUsernameKey (User_Username u0)) = None"
      "seq_key q' = seq_key q" "seq_next q' = seq_next q + 1"
      "user_created db db' (u0\<lparr>User_CreatedAt := Some now\<rparr>) (seq_next q)"
    show ?thesis
      unfolding user_inv_def
    proof (intro conjI allI impI)
      show "seq_key q' = ''user:next_id''" using new key by simp
    next
      fix i raw assume r: "view db' (getUserIdKey i) = Some raw"
      show "i < seq_next q'"
        using inv new r u64_less_Suc [OF wrap]
        by (cases "i = seq_next q") (auto simp: user_inv_def user_created_def intro: lt)
      show "\<exists>u. Unmarshal (C_User E) raw = Inr u \<and>
          view db' (getUsernameKey (User_Username u)) = Some (Uint64ToBytes i)"
      proof (cases "i = seq_next q")
        case True
        then show ?thesis
          using new(4) r codec_okD [OF codec_user] by (auto simp: user_created_def)
      next
        case False
        then have "view db (getUserIdKey i) = Some raw"
          using new(4) r by (auto simp: user_created_def)
        then obtain u where u: "Unmarshal (C_User E) raw = Inr u"
          "view db (getUsernameKey (User_Username u)) = Some (Uint64ToBytes i)"
          using inv by (auto simp: user_inv_def)
        then have "User_Username u \<noteq> User_Username u0" using new(1) by auto
        then show ?thesis using u new(4) by (auto simp: user_created_def)
      qed
    qed
  qed
qed

lemma user_inv_unique:
  assumes "user_inv E view db q" and "GetUserById E db i = Inr u" and "GetUserById E db j = Inr v"
    and "User_Username u = User_Username v"
  shows "i = j"
proof -
  have "view db (getUsernameKey (User_Username x)) = Some (Uint64ToBytes k)"
    if "GetUserById E db k = Inr x" for k x
    using get_message_Inr [OF that [unfolded GetUserById_def]] assms(1)
    by (fastforce simp: user_inv_def)
  from this [OF assms(2)] this [OF assms(3)] assms(4) show ?thesis by simp
qed

text \<open>\<open>UpdateUserAtomic\<close> writes the record of that user only.\<close>

lemma UpdateUserAtomic_cases:
  assumes "UpdateUserAtomic E db i mutate = (db', r)"
  shows "view db' = view db \<and> r \<noteq> None \<or>
    (\<exists>u u' raw. GetUserById E db i = Inr u \<and> mutate u = Inr u' \<and> Marshal (C_User E) u' = Inr raw \<and>
      view db' = (view db)(getUserIdKey i \<mapsto> raw))"
  using assms
  by (auto simp: UpdateUserAtomic_def set_message_def split: sum.splits dest!: set_view)

lemma UpdateUserAtomic_inv:
  assumes inv: "user_inv E view db q" and up: "UpdateUserAtomic E db i mutate = (db', r)"
    and name: "\<And>u u'. mutate u = Inr u' \<Longrightarrow> User_Username u' = User_Username u"
  shows "user_inv E view db' q"
  using UpdateUserAtomic_cases [OF up]
proof (elim disjE exE conjE)
  assume "view db' = view db" then show ?thesis using inv by (simp add: user_inv_def)
next
  fix u u' raw
  assume *: "GetUserById E db i = Inr u" "mutate u = Inr u'" "Marshal (C_User E) u' = Inr raw"
    "view db' = (view db)(getUserIdKey i \<mapsto> raw)"
  obtain raw0 where "view db (getUserIdKey i) = Some raw0" "Unmarshal (C_User E) raw0 = Inr u"
    using get_message_Inr [OF *(1) [unfolded GetUserById_def]] by auto
  with inv have "i < seq_next q" "view db (getUsernameKey (User_Username u)) = Some (Uint64ToBytes i)"
    by (fastforce simp: user_inv_def)+
  then show ?thesis
    using inv * codec_okD [OF codec_user *(3)] name [OF *(2)] by (auto simp: user_inv_def)
qed

lemma UpdateUserAtomic_ok:
  assumes "UpdateUserAtomic E db i mutate = (db', None)"
  obtains u u' raw where "GetUserById E db i = Inr u" and "mutate u = Inr u'"
    and "Unmarshal (C_User E) raw = Inr u'" and "view db' = (view db)(getUserIdKey i \<mapsto> raw)"
  using UpdateUserAtomic_cases [OF assms] codec_okD [OF codec_user] that by blast

text \<open>What the GitHub index and the user's record hold after binding and unbinding.\<close>

lemma GetUserById_fun:
  assumes "view db (getUserIdKey i) = Some raw" and "Unmarshal (C_User E) raw = Inr u"
    and "GetUserById E db i = Inr u'"
  shows "u' = u"
  using get_message_view [OF assms(1, 2)] assms(3) by (simp add: GetUserById_def)

lemma BindGithubId_ok:
  assumes "BindGithubId E db i g = (db', None)"
  shows "(\<exists>raw u. view db' (getUserIdKey i) = Some raw \<and> Unmarshal (C_User E) raw = Inr u \<and>
      User_GithubId u = g) \<and>
    (\<forall>h. view db' (getGithubIdKey h) =
      (if h = g then Some (Uint64ToBytes i) else view db (getGithubIdKey h)))"
proof -
  obtain db1 where up: "UpdateUserAtomic E db i (\<lambda>u. Inr (u\<lparr>User_GithubId := g\<rparr>)) = (db1, None)"
    and set: "pset E db1 (getGithubIdKey g) (Uint64ToBytes i) = (db', None)"
    using assms by (auto simp: BindGithubId_def split: prod.splits option.splits)
  show ?thesis
    by (rule UpdateUserAtomic_ok [OF up]) (auto simp: set_ok [OF set])
qed

lemma UnbindGithubId_ok:
  assumes "UnbindGithubId E db i = (db', None)"
  shows "\<exists>u. GetUserById E db i = Inr u \<and>
    (\<forall>h. view db' (getGithubIdKey h) =
      (if h = User_GithubId u \<and> h \<noteq> [] then None else view db (getGithubIdKey h)))"
proof -
  obtain db1 where up: "UpdateUserAtomic E db i (\<lambda>u. Inr (u\<lparr>User_GithubId := []\<rparr>)) = (db1, None)"
    using assms by (auto simp: UnbindGithubId_def Let_def split: prod.splits option.splits)
  show ?thesis
  proof (rule UpdateUserAtomic_ok [OF up])
    fix u raw assume *: "GetUserById E db i = Inr u" "view db1 = (view db)(getUserIdKey i \<mapsto> raw)"
    then show ?thesis
      using assms up
      by (auto simp: UnbindGithubId_def Let_def split: if_splits dest!: delete_ok)
  qed
qed

end

context store_up
begin

lemma GetUserById_present:
  "view db (getUserIdKey i) = Some raw \<Longrightarrow> Unmarshal (C_User E) raw = Inr u \<Longrightarrow>
    GetUserById E db i = Inr u"
  by (simp add: GetUserById_def get_message_present)

lemma GetUserById_other:
  "view db' (getUserIdKey i) = view db (getUserIdKey i) \<Longrightarrow> GetUserById E db' i = GetUserById E db i"
  by (cases "view db (getUserIdKey i)")
    (simp_all add: GetUserById_def get_message_def get_present get_absent)

lemma get_id_other: "view db' k = view db k \<Longrightarrow> get_id E db' k = get_id E db k"
  by (cases "view db k") (simp_all add: get_id_def get_present get_absent)

lemma CreateUser_read_back:
  assumes "user_inv E view db q" and "GetUserIdByUsername E db (User_Username u0) = Inl ErrNotFound"
    and "CreateUser E db q now u0 = (db', q', Inr i)"
  shows "user_created db db' (u0\<lparr>User_CreatedAt := Some now\<rparr>) i \<and> i = seq_next q"
proof -
  have "seq_key q = ''user:next_id''" using assms(1) by (simp add: user_inv_def)
  from CreateUser_cases [OF this assms(3)] assms(2) show ?thesis
    by (auto simp: GetUserIdByUsername_def)
qed

end

subsection \<open>Properties\<close>

text \<open>A run on the in-memory store for the witnesses: the first user of an empty database.\<close>

definition alice :: user where
  "alice = \<lparr>User_Username = ''alice'', User_Password = None, User_Email = ''a@b.c'',
     User_GithubId = [], User_Nickname = ''alice'', User_StudentId = ''1'', User_CreatedAt = None,
     User_IsAdmin = False\<rparr>"

definition first_seq :: kvseq where
  "first_seq = \<lparr>seq_key = ''user:next_id'', seq_next = 1, seq_limit = 11\<rparr>"

definition alice_db :: mem_db where
  "alice_db = fst (CreateUser mem_env [] first_seq 5 alice)"

lemma alice_created:
  "CreateUser mem_env [] first_seq 5 alice = (alice_db, first_seq\<lparr>seq_next := 2\<rparr>, Inr 1)"
  by (simp add: alice_db_def CreateUser_def Let_def get_id_def mem_get_def GetNextId_in_batch
      first_seq_def)

lemma alice_inv: "user_inv mem_env map_of [] first_seq"
  by (simp add: user_inv_def first_seq_def)

lemma alice_read: "GetUserById mem_env alice_db 1 = Inr (alice\<lparr>User_CreatedAt := Some 5\<rparr>)"
  by (simp add: alice_db_def CreateUser_def Let_def get_id_def mem_get_def GetNextId_in_batch
      first_seq_def GetUserById_def get_message_def alice_def mem_del_def)

text \<open>
  Usernames stay unique. From a database where every stored user is the one its username leads
  to, whatever \<open>CreateUser\<close> is asked and however it fails, no two stored users ever share a username,
  and an \<open>UpdateUserAtomic\<close> whose mutation keeps the username preserves this.
\<close>

theorem usernames_unique:
  assumes "store E view" and "user_inv E view db q" and "seq_next q + 1 \<noteq> 0"
    and "CreateUser E db q now u0 = (db1, q1, r1)"
    and "UpdateUserAtomic E db1 k mutate = (db2, r2)"
    and "\<And>u u'. mutate u = Inr u' \<Longrightarrow> User_Username u' = User_Username u"
    and "GetUserById E db2 i = Inr u" and "GetUserById E db2 j = Inr v"
    and "User_Username u = User_Username v"
  shows "i = j"
proof -
  have "user_inv E view db1 q1" using store.CreateUser_inv [OF assms(1, 2, 4, 3)] .
  from store.UpdateUserAtomic_inv [OF assms(1) this assms(5, 6)] have "user_inv E view db2 q1" .
  from store.user_inv_unique [OF assms(1) this assms(7, 8, 9)] show ?thesis .
qed

theorem usernames_unique_witness:
  "\<exists>db2 r2. UpdateUserAtomic mem_env alice_db 1 (\<lambda>u. Inr (u\<lparr>User_Nickname := ''al''\<rparr>)) = (db2, r2) \<and>
    (\<forall>j v. GetUserById mem_env db2 j = Inr v \<and> User_Username v = ''alice'' \<longrightarrow> 1 = j)"
proof -
  let ?f = "\<lambda>u :: user. Inr (u\<lparr>User_Nickname := ''al''\<rparr>) :: error + user"
  obtain db2 r2 where up: "UpdateUserAtomic mem_env alice_db 1 ?f = (db2, r2)" by fastforce
  have "GetUserById mem_env db2 1 = Inr (alice\<lparr>User_CreatedAt := Some 5, User_Nickname := ''al''\<rparr>)"
    using up alice_read
    by (auto simp: UpdateUserAtomic_def set_message_def GetUserById_def get_message_def mem_get_def)
  moreover have "User_Username (alice\<lparr>User_CreatedAt := Some 5, User_Nickname := ''al''\<rparr>) = ''alice''"
    by (simp add: alice_def)
  moreover have "seq_next first_seq + 1 \<noteq> 0" by (simp add: first_seq_def)
  moreover have "User_Username u' = User_Username u" if "?f u = Inr u'" for u u'
    using that by auto
  ultimately show ?thesis
    using up usernames_unique [OF mem_store alice_inv _ alice_created up] by metis
qed

text \<open>
  \<open>CreateUser\<close> with a username not in use stores the user under a fresh id: reading it back by
  id, username or email gives the user with its creation time, every other user reads as before, and
  no other username or GitHub login changes where it leads.
\<close>

theorem CreateUser_creates:
  assumes "store_up E view" and "user_inv E view db q"
    and "GetUserIdByUsername E db (User_Username u0) = Inl ErrNotFound"
    and "CreateUser E db q now u0 = (db', q', Inr i)"
  shows "let u = u0\<lparr>User_CreatedAt := Some now\<rparr>
    in GetUserById E db' i = Inr u \<and> GetUserByUsername E db' (User_Username u) = Inr (u, i) \<and>
      GetUserByEmail E db' (User_Email u) = Inr (u, i) \<and>
      GetUserById E db i = Inl ErrNotFound \<and>
      (\<forall>j. j \<noteq> i \<longrightarrow> GetUserById E db' j = GetUserById E db j) \<and>
      (\<forall>n. n \<noteq> User_Username u \<longrightarrow> GetUserIdByUsername E db' n = GetUserIdByUsername E db n) \<and>
      (\<forall>g. GetUserIdByGithubId E db' g = GetUserIdByGithubId E db g)"
proof -
  let ?u = "u0\<lparr>User_CreatedAt := Some now\<rparr>"
  note st = store_up.axioms(1) [OF assms(1)]
  from store_up.CreateUser_read_back [OF assms]
  have i: "i = seq_next q" and new: "store.user_created E view db db' ?u i" by auto
  then obtain raw where raw: "Marshal (C_User E) ?u = Inr raw" "view db' (getUserIdKey i) = Some raw"
    by (auto simp: store.user_created_def [OF st])
  note w = new [unfolded store.user_created_def [OF st]]
  have read: "GetUserById E db' i = Inr ?u"
    using store_up.GetUserById_present [OF assms(1) raw(2)]
      codec_okD [OF store.codec_user [OF st] raw(1)] by simp
  have "view db (getUserIdKey i) = None"
    using assms(2) i by (cases "view db (getUserIdKey i)") (auto simp: user_inv_def)
  then have "GetUserById E db i = Inl ErrNotFound"
    using store_up.get_absent [OF assms(1)] by (simp add: GetUserById_def get_message_def)
  moreover have "get_id E db' (getUsernameKey (User_Username ?u)) = Inr i"
    "get_id E db' (getEmailKey (User_Email ?u)) = Inr i"
    using w by (auto intro: store_up.get_id_present [OF assms(1)])
  moreover have "GetUserById E db' j = GetUserById E db j" if "j \<noteq> i" for j
    using w that by (intro store_up.GetUserById_other [OF assms(1)]) simp
  moreover have "get_id E db' (getUsernameKey n) = get_id E db (getUsernameKey n)"
    if "n \<noteq> User_Username ?u" for n
    using w that by (intro store_up.get_id_other [OF assms(1)]) simp
  moreover have "get_id E db' (getGithubIdKey g) = get_id E db (getGithubIdKey g)" for g
    using w by (intro store_up.get_id_other [OF assms(1)]) simp
  ultimately show ?thesis
    using read by (simp add: GetUserByUsername_def GetUserByEmail_def GetUserIdByUsername_def
        GetUserIdByEmail_def GetUserIdByGithubId_def)
qed

theorem CreateUser_creates_witness:
  "GetUserByUsername mem_env alice_db ''alice'' = Inr (alice\<lparr>User_CreatedAt := Some 5\<rparr>, 1)"
proof -
  have "GetUserIdByUsername mem_env [] (User_Username alice) = Inl ErrNotFound"
    by (simp add: GetUserIdByUsername_def get_id_def mem_get_def)
  from CreateUser_creates [OF mem_store_up alice_inv this alice_created] show ?thesis
    by (simp add: Let_def) (simp add: alice_def)
qed

text \<open>
  \<open>UpdateUserAtomic\<close> applies the mutation to the stored user and nothing else: when the mutation
  refuses, or the user cannot be read, the database is unchanged and the error is returned; when it
  returns no error, the user reads as mutated and every other key holds what it held.
\<close>

theorem UpdateUserAtomic_all_or_nothing:
  assumes "store_up E view" and "UpdateUserAtomic E db i mutate = (db', r)"
  shows "case GetUserById E db i of
      Inl e \<Rightarrow> r = Some e \<and> db' = db
    | Inr u \<Rightarrow>
        (case mutate u of
           Inl e \<Rightarrow> r = Some e \<and> db' = db
         | Inr u' \<Rightarrow>
             (r = None \<longrightarrow> GetUserById E db' i = Inr u') \<and>
             (\<forall>k. k \<noteq> getUserIdKey i \<longrightarrow> view db' k = view db k))"
proof -
  note st = store_up.axioms(1) [OF assms(1)]
  have "GetUserById E db' i = Inr u'"
    if "set_message E (C_User E) db (getUserIdKey i) u' = (db', None)" for u'
  proof (rule store.set_message_ok [OF st that])
    fix raw assume "Marshal (C_User E) u' = Inr raw" "view db' = (view db)(getUserIdKey i \<mapsto> raw)"
    then show ?thesis
      using store_up.GetUserById_present [OF assms(1)] codec_okD [OF store.codec_user [OF st]]
      by simp
  qed
  then show ?thesis
    using assms(2) store.set_message_other [OF st]
    by (auto simp: UpdateUserAtomic_def split: sum.splits)
qed

theorem UpdateUserAtomic_all_or_nothing_witness:
  "\<exists>db r. UpdateUserAtomic mem_env alice_db 1 (\<lambda>u. Inr (u\<lparr>User_IsAdmin := True\<rparr>)) = (db, r) \<and>
     (r = None \<longrightarrow> GetUserById mem_env db 1 =
       Inr (alice\<lparr>User_CreatedAt := Some 5, User_IsAdmin := True\<rparr>))"
proof -
  obtain db r where up: "UpdateUserAtomic mem_env alice_db 1 (\<lambda>u. Inr (u\<lparr>User_IsAdmin := True\<rparr>)) = (db, r)"
    by fastforce
  from UpdateUserAtomic_all_or_nothing [OF mem_store_up this] show ?thesis
    using up by (simp add: alice_read)
qed

text \<open>
  rebinding leaves the old GitHub login usable. After a user binds login \<open>g1\<close>, binds another
  login \<open>g2\<close> and unbinds, \<open>g2\<close> leads nowhere but \<open>g1\<close> still leads to the user.
\<close>

theorem rebind_leaves_old_login:
  assumes "store_up E view" and "g1 \<noteq> g2" and "g2 \<noteq> []"
    and "BindGithubId E db i g1 = (db1, None)" and "BindGithubId E db1 i g2 = (db2, None)"
    and "UnbindGithubId E db2 i = (db3, None)"
  shows "GetUserIdByGithubId E db3 g1 = Inr i \<and> GetUserIdByGithubId E db3 g2 = Inl ErrNotFound"
proof -
  note st = store_up.axioms(1) [OF assms(1)]
  have v1: "view db1 (getGithubIdKey g1) = Some (Uint64ToBytes i)"
    using store.BindGithubId_ok [OF st assms(4)] by simp
  note b2 = store.BindGithubId_ok [OF st assms(5)]
  then have r2: "GetUserById E db2 i = Inr u \<Longrightarrow> User_GithubId u = g2" for u
    by (auto dest: store.GetUserById_fun [OF st])
  have "view db3 (getGithubIdKey g2) = None"
    "view db3 (getGithubIdKey g1) = view db2 (getGithubIdKey g1)"
    using store.UnbindGithubId_ok [OF st assms(6)] assms(2, 3) r2 by auto
  then show ?thesis
    using b2 v1 assms(2) store_up.get_absent [OF assms(1)] store_up.get_id_present [OF assms(1)]
    by (simp add: GetUserIdByGithubId_def get_id_def)
qed

theorem rebind_leaves_old_login_witness:
  "\<exists>db1 db2 db3. BindGithubId mem_env alice_db 1 ''old'' = (db1, None) \<and>
     BindGithubId mem_env db1 1 ''new'' = (db2, None) \<and> UnbindGithubId mem_env db2 1 = (db3, None) \<and>
     GetUserIdByGithubId mem_env db3 ''old'' = Inr 1 \<and>
     GetUserIdByGithubId mem_env db3 ''new'' = Inl ErrNotFound"
proof -
  note ups = UpdateUserAtomic_def set_message_def UnbindGithubId_def Let_def
  obtain db1 where 1: "BindGithubId mem_env alice_db 1 ''old'' = (db1, None)"
    by (simp add: BindGithubId_def ups alice_read)
  have r1: "\<exists>u. GetUserById mem_env db1 1 = Inr u"
    using 1 by (auto simp: BindGithubId_def ups alice_read GetUserById_def get_message_def mem_get_def
        split: sum.splits)
  then obtain db2 where 2: "BindGithubId mem_env db1 1 ''new'' = (db2, None)"
    by (auto simp: BindGithubId_def ups)
  have r2: "\<exists>u. GetUserById mem_env db2 1 = Inr u"
    using 2 r1 by (auto simp: BindGithubId_def ups GetUserById_def get_message_def mem_get_def)
  then have "\<exists>db3. UnbindGithubId mem_env db2 1 = (db3, None)"
    by (auto simp: ups)
  then obtain db3 where 3: "UnbindGithubId mem_env db2 1 = (db3, None)" by blast
  from rebind_leaves_old_login [OF mem_store_up _ _ 1 2 3] show ?thesis
    using 1 2 3 by auto
qed

end
