(* ===== verification/CourseRepo.thy ===== *)
theory CourseRepo
  imports Sequencer
begin

section \<open>Courses: pkg/repository/course.go\<close>

text \<open>
  \<open>KVCourseRepository\<close> keeps a course under its id, the id under the join code, the members of a
  course under \<open>course:users:\<close> and its assignments, with an empty value, under
  \<open>course:assignments:\<close>.
\<close>

definition course_getIdPrefix :: bytes where
  "course_getIdPrefix = ''course:id:''"

definition course_getIdKey :: "u64 \<Rightarrow> bytes" where
  "course_getIdKey i = ''course:id:'' @ id_text i"

definition getJoinCodeKey :: "string \<Rightarrow> bytes" where
  "getJoinCodeKey joinCode = ''course:join_code:'' @ joinCode"

definition getUserPrefix :: "u64 \<Rightarrow> bytes" where
  "getUserPrefix courseId = ''course:users:'' @ id_text courseId @ '':''"

definition getUserKey :: "u64 \<Rightarrow> u64 \<Rightarrow> bytes" where
  "getUserKey courseId userId = getUserPrefix courseId @ Uint64ToBytes userId"

definition getAssignmentPrefix :: "u64 \<Rightarrow> bytes" where
  "getAssignmentPrefix courseId = ''course:assignments:'' @ id_text courseId @ '':''"

definition getAssignmentKey :: "u64 \<Rightarrow> u64 \<Rightarrow> bytes" where
  "getAssignmentKey courseId assignmentId = getAssignmentPrefix courseId @ Uint64ToBytes assignmentId"

lemmas course_key_defs = course_getIdPrefix_def course_getIdKey_def getJoinCodeKey_def
  getUserPrefix_def getUserKey_def getAssignmentPrefix_def getAssignmentKey_def

definition GetAllCourses :: "'db env \<Rightarrow> 'db \<Rightarrow> error + (course \<times> u64) list" where
  "GetAllCourses E db =
     (case piter E db (PrefixIterOptions course_getIdPrefix) of
        Inl e \<Rightarrow> Inl e
      | Inr kvs \<Rightarrow>
          collect (\<lambda>(k, v).
            case Unmarshal (C_Course E) v of
              Inl e \<Rightarrow> Inl e
            | Inr c \<Rightarrow> Inr (c, of_int (fst (Atoi (drop (length course_getIdPrefix) k))))) kvs)"

definition RemoveUser :: "'db env \<Rightarrow> 'db \<Rightarrow> u64 \<Rightarrow> u64 \<Rightarrow> 'db \<times> error option" where
  "RemoveUser E db courseId userId = pdelete E db (getUserKey courseId userId)"

definition AddAssignment :: "'db env \<Rightarrow> 'db \<Rightarrow> u64 \<Rightarrow> u64 \<Rightarrow> 'db \<times> error option" where
  "AddAssignment E db courseId assignmentId = pset E db (getAssignmentKey courseId assignmentId) []"

definition GetAssignmentsByCourse :: "'db env \<Rightarrow> 'db \<Rightarrow> u64 \<Rightarrow> error + u64 list" where
  "GetAssignmentsByCourse E db courseId = ScanIds E db (getAssignmentPrefix courseId)"

definition GetUsersByCourse :: "'db env \<Rightarrow> 'db \<Rightarrow> u64 \<Rightarrow> error + course_member list" where
  "GetUsersByCourse E db courseId =
     (case piter E db (PrefixIterOptions (getUserPrefix courseId)) of
        Inl e \<Rightarrow> Inl e
      | Inr kvs \<Rightarrow> collect (\<lambda>(k, v). Unmarshal (C_Member E) v) kvs)"

definition AddUser :: "'db env \<Rightarrow> 'db \<Rightarrow> course_member \<Rightarrow> 'db \<times> error option" where
  "AddUser E db m = set_message E (C_Member E) db (getUserKey (Member_CourseId m) (Member_UserId m)) m"

definition BindJoinCode :: "'db env \<Rightarrow> 'db \<Rightarrow> string \<Rightarrow> u64 \<Rightarrow> 'db \<times> error option" where
  "BindJoinCode E db joinCode courseId = pset E db (getJoinCodeKey joinCode) (Uint64ToBytes courseId)"

definition UnbindJoinCode :: "'db env \<Rightarrow> 'db \<Rightarrow> string \<Rightarrow> 'db \<times> error option" where
  "UnbindJoinCode E db joinCode = pdelete E db (getJoinCodeKey joinCode)"

definition GetCourseIdByJoinCode :: "'db env \<Rightarrow> 'db \<Rightarrow> string \<Rightarrow> error + u64" where
  "GetCourseIdByJoinCode E db joinCode = get_id E db (getJoinCodeKey joinCode)"

definition UpdateCourse :: "'db env \<Rightarrow> 'db \<Rightarrow> u64 \<Rightarrow> course \<Rightarrow> 'db \<times> error option" where
  "UpdateCourse E db courseId c = set_message E (C_Course E) db (course_getIdKey courseId) c"

definition CreateCourse :: "'db env \<Rightarrow> 'db \<Rightarrow> kvseq \<Rightarrow> course \<Rightarrow> 'db \<times> kvseq \<times> (error + u64)" where
  "CreateCourse E db q c =
     (case GetNextId E db q of
        (db1, q1, Inl e) \<Rightarrow> (db1, q1, Inl e)
      | (db1, q1, Inr i) \<Rightarrow>
          (case UpdateCourse E db1 i c of
             (db2, Some e) \<Rightarrow> (db2, q1, Inl e)
           | (db2, None) \<Rightarrow> (db2, q1, Inr i)))"

definition GetCourse :: "'db env \<Rightarrow> 'db \<Rightarrow> u64 \<Rightarrow> error + course" where
  "GetCourse E db i = get_message E (C_Course E) db (course_getIdKey i)"

definition NewKVCourseRepository :: "'db env \<Rightarrow> 'db \<Rightarrow> 'db \<times> (error + kvseq)" where
  "NewKVCourseRepository E db = NewKVSequencer E db ''course:next_id''"

subsection \<open>The key layout\<close>

lemma course_keys [key_intros, simp]:
  "course_getIdKey i = course_getIdKey j \<longleftrightarrow> i = j"
  "getJoinCodeKey a = getJoinCodeKey b \<longleftrightarrow> a = b"
  "getUserKey c u = getUserKey c' u' \<longleftrightarrow> c = c' \<and> u = u'"
  "getAssignmentKey c i = getAssignmentKey c' i' \<longleftrightarrow> c = c' \<and> i = i'"
  "course_getIdKey i \<noteq> getJoinCodeKey a" "getJoinCodeKey a \<noteq> course_getIdKey i"
  "course_getIdKey i \<noteq> getUserKey c u" "getUserKey c u \<noteq> course_getIdKey i"
  "course_getIdKey j \<noteq> getAssignmentKey c i" "getAssignmentKey c i \<noteq> course_getIdKey j"
  "getJoinCodeKey a \<noteq> getUserKey c u" "getUserKey c u \<noteq> getJoinCodeKey a"
  "getJoinCodeKey a \<noteq> getAssignmentKey c i" "getAssignmentKey c i \<noteq> getJoinCodeKey a"
  "getUserKey c u \<noteq> getAssignmentKey d i" "getAssignmentKey d i \<noteq> getUserKey c u"
  "course_getIdKey i \<noteq> ''course:next_id''" "getJoinCodeKey a \<noteq> ''course:next_id''"
  "getUserKey c u \<noteq> ''course:next_id''" "getAssignmentKey c i \<noteq> ''course:next_id''"
  by (simp_all add: course_key_defs)

lemma prefix_user_key [simp]: "prefix (getUserPrefix c) (getUserKey c' u) \<longleftrightarrow> c = c'"
  by (auto simp: course_key_defs)

lemma prefix_assignment_key [simp]: "prefix (getAssignmentPrefix c) (getAssignmentKey c' a) \<longleftrightarrow> c = c'"
  by (auto simp: course_key_defs)

subsection \<open>The members of a course\<close>

text \<open>
  What the membership keys of the courses stand for: a map from course and user to the membership.
\<close>

type_synonym membership = "u64 \<times> u64 \<rightharpoonup> course_member"

definition course_members :: "'db env \<Rightarrow> ('db \<Rightarrow> bytes \<rightharpoonup> bytes) \<Rightarrow> 'db \<Rightarrow> membership \<Rightarrow> bool" where
  "course_members E view db ms \<longleftrightarrow>
     (\<forall>c u. case ms (c, u) of
        None \<Rightarrow> view db (getUserKey c u) = None
      | Some m \<Rightarrow> \<exists>raw. view db (getUserKey c u) = Some raw \<and> Unmarshal (C_Member E) raw = Inr m) \<and>
     (\<forall>c k. view db k \<noteq> None \<longrightarrow> prefix (getUserPrefix c) k \<longrightarrow> (\<exists>u. k = getUserKey c u))"

datatype member_op = Op_AddUser course_member | Op_RemoveUser u64 u64

fun member_op_apply :: "'db env \<Rightarrow> 'db \<Rightarrow> member_op \<Rightarrow> 'db \<times> error option" where
  "member_op_apply E db (Op_AddUser m) = AddUser E db m"
| "member_op_apply E db (Op_RemoveUser c u) = RemoveUser E db c u"

fun member_op_spec :: "membership \<Rightarrow> member_op \<Rightarrow> membership" where
  "member_op_spec ms (Op_AddUser m) = ms((Member_CourseId m, Member_UserId m) \<mapsto> m)"
| "member_op_spec ms (Op_RemoveUser c u) = ms((c, u) := None)"

text \<open>A history of the membership keys and, beside it, of the map; an operation that failed counts
  for nothing.\<close>

fun member_run :: "'db env \<Rightarrow> 'db \<times> membership \<Rightarrow> member_op list \<Rightarrow> 'db \<times> membership" where
  "member_run E s [] = s"
| "member_run E (db, ms) (x # xs) =
     (case member_op_apply E db x of
        (db', None) \<Rightarrow> member_run E (db', member_op_spec ms x) xs
      | (db', Some e) \<Rightarrow> member_run E (db', ms) xs)"

context store_up
begin

lemma course_membersD:
  assumes "course_members E view db ms"
  shows "case ms (c, u) of None \<Rightarrow> view db (getUserKey c u) = None
    | Some m \<Rightarrow> \<exists>raw. view db (getUserKey c u) = Some raw \<and> Unmarshal (C_Member E) raw = Inr m"
    and "view db k \<noteq> None \<Longrightarrow> prefix (getUserPrefix c) k \<Longrightarrow> \<exists>u. k = getUserKey c u"
  using assms unfolding course_members_def by blast+

lemma member_op_members:
  assumes ms: "course_members E view db ms" and op: "member_op_apply E db x = (db', r)"
  shows "course_members E view db' (if r = None then member_op_spec ms x else ms)"
proof (cases x)
  case (Op_AddUser m)
  let ?k = "getUserKey (Member_CourseId m) (Member_UserId m)"
  show ?thesis
  proof (cases "Marshal (C_Member E) m")
    case (Inl e)
    then show ?thesis using ms op Op_AddUser by (auto simp: AddUser_def set_message_def)
  next
    case (Inr raw)
    then have "pset E db ?k raw = (db', r)"
      using op Op_AddUser by (simp add: AddUser_def set_message_def)
    from set_eq [OF this] have v: "view db' = (view db)(?k \<mapsto> raw)" and r: "r = None" by auto
    have "case (ms((Member_CourseId m, Member_UserId m) \<mapsto> m)) (c, u) of
        None \<Rightarrow> view db' (getUserKey c u) = None
      | Some m \<Rightarrow> \<exists>raw. view db' (getUserKey c u) = Some raw \<and> Unmarshal (C_Member E) raw = Inr m" for c u
      using course_membersD(1) [OF ms, of c u] codec_okD [OF codec_member Inr]
      by (auto simp: v split: option.splits)
    moreover have "\<exists>u. k = getUserKey c u" if "view db' k \<noteq> None" "prefix (getUserPrefix c) k" for c k
      using course_membersD(2) [OF ms, of k c] that by (auto simp: v split: if_splits)
    ultimately show ?thesis unfolding course_members_def using r Op_AddUser by simp
  qed
next
  case (Op_RemoveUser c0 u0)
  then have "pdelete E db (getUserKey c0 u0) = (db', r)" using op by (simp add: RemoveUser_def)
  from delete_eq [OF this] have v: "view db' = (view db)(getUserKey c0 u0 := None)" and r: "r = None"
    by auto
  have "case (ms((c0, u0) := None)) (c, u) of None \<Rightarrow> view db' (getUserKey c u) = None
      | Some m \<Rightarrow> \<exists>raw. view db' (getUserKey c u) = Some raw \<and> Unmarshal (C_Member E) raw = Inr m" for c u
    using course_membersD(1) [OF ms, of c u] by (auto simp: v split: option.splits)
  moreover have "\<exists>u. k = getUserKey c u" if "view db' k \<noteq> None" "prefix (getUserPrefix c) k" for c k
    using course_membersD(2) [OF ms, of k c] that by (auto simp: v split: if_splits)
  ultimately show ?thesis unfolding course_members_def using r Op_RemoveUser by simp
qed

lemma member_run_members:
  "course_members E view db ms \<Longrightarrow> member_run E (db, ms) xs = (db', ms') \<Longrightarrow>
    course_members E view db' ms'"
proof (induction xs arbitrary: db ms)
  case (Cons x xs)
  obtain db1 r where op: "member_op_apply E db x = (db1, r)" by (cases "member_op_apply E db x")
  from member_op_members [OF Cons.prems(1) op] Cons.prems(2) op Cons.IH show ?case
    by (cases r) auto
qed simp

lemma course_members_read:
  assumes ms: "course_members E view db ms"
  shows "\<exists>xs. GetUsersByCourse E db c = Inr xs \<and> set xs = {m. \<exists>u. ms (c, u) = Some m}"
proof -
  let ?p = "getUserPrefix c"
  obtain kvs where kvs: "piter E db (PrefixIterOptions ?p) = Inr kvs" using iter_up by blast
  note set = iter_prefix [OF kvs]
  have entry: "\<exists>u m. k = getUserKey c u \<and> ms (c, u) = Some m \<and> Unmarshal (C_Member E) v = Inr m"
    if "(k, v) \<in> set kvs" for k v
  proof -
    have k: "view db k = Some v" "prefix ?p k" using that set by auto
    then obtain u where u: "k = getUserKey c u" using course_membersD(2) [OF ms, of k c] by auto
    show ?thesis
      using course_membersD(1) [OF ms, of c u] k(1) u
      by (intro exI [of _ u]) (auto split: option.splits)
  qed
  have "\<forall>kv\<in>set kvs. \<exists>m. (\<lambda>(k, v). Unmarshal (C_Member E) v) kv = Inr m"
    using entry by fastforce
  then obtain xs where xs: "collect (\<lambda>(k, v). Unmarshal (C_Member E) v) kvs = Inr xs"
    using collect_Ex by blast
  have mem: "m \<in> set xs \<longleftrightarrow> (\<exists>k v. (k, v) \<in> set kvs \<and> Unmarshal (C_Member E) v = Inr m)" for m
    using collect_Inr_mem [OF xs] by fastforce
  have "m \<in> set xs \<longleftrightarrow> (\<exists>u. ms (c, u) = Some m)" for m
  proof
    assume "m \<in> set xs"
    then show "\<exists>u. ms (c, u) = Some m" using mem entry by fastforce
  next
    assume "\<exists>u. ms (c, u) = Some m"
    then obtain u where "ms (c, u) = Some m" ..
    with course_membersD(1) [OF ms, of c u] obtain raw where
      "view db (getUserKey c u) = Some raw" "Unmarshal (C_Member E) raw = Inr m" by auto
    moreover have "prefix ?p (getUserKey c u)" by simp
    ultimately show "m \<in> set xs" unfolding mem set by blast
  qed
  then show ?thesis using xs kvs by (auto simp: GetUsersByCourse_def)
qed

end

subsection \<open>Properties\<close>

text \<open>
  C39: the member list of a course is exact. Through any history of additions and removals, a course
  lists the memberships of a map that each successful addition sets and each removal clears, so a
  user added again is listed with the last role only and no other course is touched.
\<close>

theorem course_members_refine:
  assumes "store_up E view" and "course_members E view db ms"
    and "member_run E (db, ms) ops = (db', ms')"
  shows "\<exists>xs. GetUsersByCourse E db' c = Inr xs \<and> set xs = {m. \<exists>u. ms' (c, u) = Some m}"
  using store_up.course_members_read [OF assms(1) store_up.member_run_members [OF assms]] .

theorem course_members_refine_witness:
  "\<exists>db ms xs. member_run mem_env ([], Map.empty)
      [Op_AddUser \<lparr>Member_UserId = 1, Member_Role = CourseRole_Student, Member_CourseId = 5\<rparr>,
       Op_AddUser \<lparr>Member_UserId = 1, Member_Role = CourseRole_TA, Member_CourseId = 5\<rparr>] = (db, ms) \<and>
    GetUsersByCourse mem_env db 5 = Inr xs \<and>
    set xs = {\<lparr>Member_UserId = 1, Member_Role = CourseRole_TA, Member_CourseId = 5\<rparr>}"
proof -
  let ?ops = "[Op_AddUser \<lparr>Member_UserId = 1, Member_Role = CourseRole_Student, Member_CourseId = 5\<rparr>,
    Op_AddUser \<lparr>Member_UserId = 1, Member_Role = CourseRole_TA, Member_CourseId = 5\<rparr>]"
  obtain db ms where run: "member_run mem_env ([], Map.empty) ?ops = (db, ms)" by fastforce
  then have ms: "ms = [(5, 1) \<mapsto> \<lparr>Member_UserId = 1, Member_Role = CourseRole_TA, Member_CourseId = 5\<rparr>]"
    by (auto simp: AddUser_def set_message_def)
  have "course_members mem_env map_of [] Map.empty" by (simp add: course_members_def)
  from course_members_refine [OF mem_store_up this run, of 5] show ?thesis
    using run by (auto simp: ms split: if_splits)
qed

text \<open>
  A join code leads to the course it was last bound to until it is unbound, and binding or
  unbinding one code does not change where another leads.
\<close>

theorem join_code_last_binding:
  assumes "store_up E view" and "BindJoinCode E db code c = (db1, None)"
    and "UnbindJoinCode E db1 old = (db2, None)"
  shows "GetCourseIdByJoinCode E db1 code = Inr c \<and>
    GetCourseIdByJoinCode E db2 code = (if old = code then Inl ErrNotFound else Inr c) \<and>
    (\<forall>other. other \<noteq> code \<longrightarrow> other \<noteq> old \<longrightarrow>
      GetCourseIdByJoinCode E db2 other = GetCourseIdByJoinCode E db other)"
proof -
  have v1: "view db1 = (view db)(getJoinCodeKey code \<mapsto> Uint64ToBytes c)"
    using store_up.set_eq [OF assms(1) assms(2) [unfolded BindJoinCode_def]] by simp
  have v2: "view db2 = (view db1)(getJoinCodeKey old := None)"
    using store_up.delete_eq [OF assms(1) assms(3) [unfolded UnbindJoinCode_def]] by simp
  have read: "get_id E d k = (case view d k of None \<Rightarrow> Inl ErrNotFound | Some v \<Rightarrow> BigEndian_Uint64 v)" for d k
    by (cases "view d k")
      (simp_all add: get_id_def store_up.get_absent [OF assms(1)] store_up.get_present [OF assms(1)])
  show ?thesis by (simp add: GetCourseIdByJoinCode_def read v1 v2)
qed

theorem join_code_last_binding_witness:
  "\<exists>db1 db2. BindJoinCode mem_env [] ''abc'' 3 = (db1, None) \<and>
    UnbindJoinCode mem_env db1 ''abc'' = (db2, None) \<and>
    GetCourseIdByJoinCode mem_env db1 ''abc'' = Inr 3 \<and>
    GetCourseIdByJoinCode mem_env db2 ''abc'' = Inl ErrNotFound"
proof -
  obtain db1 where 1: "BindJoinCode mem_env [] ''abc'' 3 = (db1, None)" by (simp add: BindJoinCode_def)
  obtain db2 where 2: "UnbindJoinCode mem_env db1 ''abc'' = (db2, None)" by (simp add: UnbindJoinCode_def)
  from join_code_last_binding [OF mem_store_up 1 2] 1 2 show ?thesis by auto
qed

end
