(* ===== verification/LeaderboardRepo.thy ===== *)
theory LeaderboardRepo
  imports Store
begin

section \<open>Leaderboards: pkg/repository/leaderboard.go\<close>

text \<open>
  \<open>KVLeaderboardRepository\<close> keeps the entry of a user for an assignment, a marker key for every
  assignment that has entries, and a marker key for anonymous leaderboards. Errors of the deletions
  are dropped, as in the code.
\<close>

definition getAnonymousMarker :: "u64 \<Rightarrow> bytes" where
  "getAnonymousMarker assignmentId = ''leaderboard:anonymous:'' @ id_text assignmentId"

definition getMarkerId :: "u64 \<Rightarrow> bytes" where
  "getMarkerId assignmentId = ''leaderboard:marker:'' @ id_text assignmentId"

definition leaderboard_getAssignmentPrefix :: "u64 \<Rightarrow> bytes" where
  "leaderboard_getAssignmentPrefix assignmentId =
     ''leaderboard:assignment:'' @ id_text assignmentId @ '':''"

definition getAssignmentUserKey :: "u64 \<Rightarrow> u64 \<Rightarrow> bytes" where
  "getAssignmentUserKey assignmentId userId =
     leaderboard_getAssignmentPrefix assignmentId @ Uint64ToBytes userId"

lemmas leaderboard_key_defs = getAnonymousMarker_def getMarkerId_def
  leaderboard_getAssignmentPrefix_def getAssignmentUserKey_def

definition DeleteLeaderboardEntry :: "'db env \<Rightarrow> 'db \<Rightarrow> u64 \<Rightarrow> u64 \<Rightarrow> 'db \<times> error option" where
  "DeleteLeaderboardEntry E db assignmentId userId =
     (case pdelete E db (getAssignmentUserKey assignmentId userId) of
        (db1, _) \<Rightarrow>
          (case piter E db1 (PrefixIterOptions (leaderboard_getAssignmentPrefix assignmentId)) of
             Inl e \<Rightarrow> (db1, Some e)
           | Inr kvs \<Rightarrow>
               if length kvs = 0
               then (case pdelete E db1 (getMarkerId assignmentId) of (db2, _) \<Rightarrow> (db2, None))
               else (db1, None)))"

definition SetLeaderboardAnonymous :: "'db env \<Rightarrow> 'db \<Rightarrow> u64 \<Rightarrow> bool \<Rightarrow> 'db \<times> error option" where
  "SetLeaderboardAnonymous E db assignmentId anonymous =
     (if anonymous then pset E db (getAnonymousMarker assignmentId) []
      else pdelete E db (getAnonymousMarker assignmentId))"

definition GetLeaderboardAnonymous :: "'db env \<Rightarrow> 'db \<Rightarrow> u64 \<Rightarrow> bool" where
  "GetLeaderboardAnonymous E db assignmentId =
     (case pget E db (getAnonymousMarker assignmentId) of Inl e \<Rightarrow> False | Inr _ \<Rightarrow> True)"

definition Repo_GetLeaderboard :: "'db env \<Rightarrow> 'db \<Rightarrow> u64 \<Rightarrow> error + leaderboard_entry list" where
  "Repo_GetLeaderboard E db assignmentId =
     (case piter E db (PrefixIterOptions (leaderboard_getAssignmentPrefix assignmentId)) of
        Inl e \<Rightarrow> Inl e
      | Inr kvs \<Rightarrow> collect (\<lambda>(k, v). Unmarshal (C_Entry E) v) kvs)"

definition UpdateLeaderboardEntry ::
    "'db env \<Rightarrow> 'db \<Rightarrow> u64 \<Rightarrow> u64 \<Rightarrow> leaderboard_entry \<Rightarrow> 'db \<times> error option" where
  "UpdateLeaderboardEntry E db assignmentId userId entry =
     (case set_message E (C_Entry E) db (getAssignmentUserKey assignmentId userId) entry of
        (db1, Some e) \<Rightarrow> (db1, Some e)
      | (db1, None) \<Rightarrow> pset E db1 (getMarkerId assignmentId) [])"

definition GetLeaderboardEntry :: "'db env \<Rightarrow> 'db \<Rightarrow> u64 \<Rightarrow> u64 \<Rightarrow> error + leaderboard_entry" where
  "GetLeaderboardEntry E db assignmentId userId =
     get_message E (C_Entry E) db (getAssignmentUserKey assignmentId userId)"

definition Repo_HasLeaderboard :: "'db env \<Rightarrow> 'db \<Rightarrow> u64 \<Rightarrow> bool" where
  "Repo_HasLeaderboard E db assignmentId =
     (case pget E db (getMarkerId assignmentId) of Inl e \<Rightarrow> False | Inr _ \<Rightarrow> True)"

lemma leaderboard_keys [key_intros, simp]:
  "getAssignmentUserKey a u = getAssignmentUserKey b v \<longleftrightarrow> a = b \<and> u = v"
  "getMarkerId a = getMarkerId b \<longleftrightarrow> a = b"
  "getAnonymousMarker a = getAnonymousMarker b \<longleftrightarrow> a = b"
  "getMarkerId a \<noteq> getAssignmentUserKey b u" "getAssignmentUserKey b u \<noteq> getMarkerId a"
  "getMarkerId a \<noteq> getAnonymousMarker b" "getAnonymousMarker b \<noteq> getMarkerId a"
  "prefix (leaderboard_getAssignmentPrefix a) (getAssignmentUserKey b u) \<longleftrightarrow> a = b"
  "\<not> prefix (leaderboard_getAssignmentPrefix a) (getMarkerId b)"
  "\<not> prefix (leaderboard_getAssignmentPrefix a) (getAnonymousMarker b)"
  by (auto simp: leaderboard_key_defs)

subsection \<open>The marker is exact\<close>

text \<open>
  The marker of an assignment is present exactly when the assignment has an entry, and every stored
  entry decodes.
\<close>

definition leaderboard_inv :: "'db env \<Rightarrow> ('db \<Rightarrow> bytes \<rightharpoonup> bytes) \<Rightarrow> 'db \<Rightarrow> bool" where
  "leaderboard_inv E view db \<longleftrightarrow>
     (\<forall>a. (view db (getMarkerId a) \<noteq> None) =
        (\<exists>k. prefix (leaderboard_getAssignmentPrefix a) k \<and> view db k \<noteq> None)) \<and>
     (\<forall>a k v. prefix (leaderboard_getAssignmentPrefix a) k \<longrightarrow> view db k = Some v \<longrightarrow>
        (\<exists>e. Unmarshal (C_Entry E) v = Inr e))"

datatype leaderboard_op = LB_Update u64 u64 leaderboard_entry | LB_Delete u64 u64
  | LB_Anonymous u64 bool

fun leaderboard_apply :: "'db env \<Rightarrow> 'db \<Rightarrow> leaderboard_op \<Rightarrow> 'db \<times> error option" where
  "leaderboard_apply E db (LB_Update a u e) = UpdateLeaderboardEntry E db a u e"
| "leaderboard_apply E db (LB_Delete a u) = DeleteLeaderboardEntry E db a u"
| "leaderboard_apply E db (LB_Anonymous a b) = SetLeaderboardAnonymous E db a b"

definition leaderboard_run :: "'db env \<Rightarrow> 'db \<Rightarrow> leaderboard_op list \<Rightarrow> 'db" where
  "leaderboard_run E db ops = foldl (\<lambda>d x. fst (leaderboard_apply E d x)) db ops"

context store_up
begin

lemma UpdateLeaderboardEntry_inv:
  assumes inv: "leaderboard_inv E view db" and up: "UpdateLeaderboardEntry E db a u e = (db', r)"
  shows "leaderboard_inv E view db'"
proof (cases "Marshal (C_Entry E) e")
  case (Inl err)
  then show ?thesis using inv up by (simp add: UpdateLeaderboardEntry_def set_message_def)
next
  case (Inr raw)
  obtain db1 where s1: "pset E db (getAssignmentUserKey a u) raw = (db1, None)" using set_up by blast
  then have s2: "pset E db1 (getMarkerId a) [] = (db', r)"
    using up Inr by (simp add: UpdateLeaderboardEntry_def set_message_def)
  have v: "view db' = (view db)(getAssignmentUserKey a u \<mapsto> raw, getMarkerId a \<mapsto> [])"
    using set_eq [OF s1] set_eq [OF s2] by simp
  have other: "view db' k = view db k"
    if "prefix (leaderboard_getAssignmentPrefix b) k" "k \<noteq> getAssignmentUserKey a u" for b k
    using that by (auto simp: v)
  show ?thesis
    unfolding leaderboard_inv_def
  proof (intro conjI allI impI)
    fix b
    show "(view db' (getMarkerId b) \<noteq> None) =
        (\<exists>k. prefix (leaderboard_getAssignmentPrefix b) k \<and> view db' k \<noteq> None)"
    proof (cases "b = a")
      case True
      have "prefix (leaderboard_getAssignmentPrefix a) (getAssignmentUserKey a u)" by simp
      then show ?thesis unfolding True by (auto simp: v)
    next
      case False
      then have "view db' k = view db k" if "prefix (leaderboard_getAssignmentPrefix b) k" for k
        using that by (intro other) auto
      moreover have "view db' (getMarkerId b) = view db (getMarkerId b)" using False by (simp add: v)
      ultimately show ?thesis using inv by (auto simp: leaderboard_inv_def)
    qed
  next
    fix b k w
    assume "prefix (leaderboard_getAssignmentPrefix b) k" "view db' k = Some w"
    then show "\<exists>e. Unmarshal (C_Entry E) w = Inr e"
      using inv codec_okD [OF codec_entry Inr] other
      by (cases "k = getAssignmentUserKey a u") (auto simp: v leaderboard_inv_def)
  qed
qed

lemma DeleteLeaderboardEntry_inv:
  assumes inv: "leaderboard_inv E view db" and del: "DeleteLeaderboardEntry E db a u = (db', r)"
  shows "leaderboard_inv E view db'"
proof -
  let ?p = "leaderboard_getAssignmentPrefix a"
  obtain db1 r1 where d1: "pdelete E db (getAssignmentUserKey a u) = (db1, r1)"
    by (cases "pdelete E db (getAssignmentUserKey a u)")
  note v1 = delete_eq [OF d1, THEN conjunct1]
  obtain kvs where kvs: "piter E db1 (PrefixIterOptions ?p) = Inr kvs" using iter_up by blast
  note empty = iter_prefix_empty [OF kvs]
  have decodes: "\<exists>e. Unmarshal (C_Entry E) w = Inr e"
    if "prefix (leaderboard_getAssignmentPrefix b) k" "view db k = Some w" for b k w
    using inv that by (simp add: leaderboard_inv_def)
  have marked: "(view db (getMarkerId b) \<noteq> None) =
      (\<exists>k. prefix (leaderboard_getAssignmentPrefix b) k \<and> view db k \<noteq> None)" for b
    using inv by (simp add: leaderboard_inv_def)
  have other: "view db1 k = view db k" if "prefix (leaderboard_getAssignmentPrefix b) k" "b \<noteq> a" for b k
    using that by (auto simp: v1)
  show ?thesis
  proof (cases "kvs = []")
    case True
    obtain db2 r2 where d2: "pdelete E db1 (getMarkerId a) = (db2, r2)"
      by (cases "pdelete E db1 (getMarkerId a)")
    then have "db' = db2" using del d1 kvs True by (simp add: DeleteLeaderboardEntry_def)
    then have v: "view db' = (view db)(getAssignmentUserKey a u := None, getMarkerId a := None)"
      using v1 delete_eq [OF d2] by simp
    have "view db' k = view db1 k" if "prefix (leaderboard_getAssignmentPrefix b) k" for b k
      using that by (auto simp: v v1)
    moreover have "view db' (getMarkerId b) = (if b = a then None else view db (getMarkerId b))" for b
      by (simp add: v)
    ultimately have "(view db' (getMarkerId b) \<noteq> None) =
        (\<exists>k. prefix (leaderboard_getAssignmentPrefix b) k \<and> view db' k \<noteq> None)" for b
      using marked [of b] other [of b] True empty by (cases "b = a") auto
    then show ?thesis
      unfolding leaderboard_inv_def using decodes by (auto simp: v split: if_splits)
  next
    case False
    then have "db' = db1" using del d1 kvs by (simp add: DeleteLeaderboardEntry_def)
    moreover have marker: "view db1 (getMarkerId b) = view db (getMarkerId b)" for b
      by (simp add: v1)
    moreover have "\<exists>k. prefix ?p k \<and> view db k \<noteq> None"
      using False empty by (auto simp: v1 split: if_splits)
    ultimately have "(view db' (getMarkerId b) \<noteq> None) =
        (\<exists>k. prefix (leaderboard_getAssignmentPrefix b) k \<and> view db' k \<noteq> None)" for b
      using marked [of b] other [of b] False empty marker by (cases "b = a") auto
    then show ?thesis
      unfolding leaderboard_inv_def using decodes \<open>db' = db1\<close> by (auto simp: v1 split: if_splits)
  qed
qed

lemma leaderboard_apply_inv:
  assumes "leaderboard_inv E view db" and "leaderboard_apply E db x = (db', r)"
  shows "leaderboard_inv E view db'"
proof (cases x)
  case (LB_Anonymous a b)
  have "\<forall>k. k \<noteq> getAnonymousMarker a \<longrightarrow> view db' k = view db k"
    using assms(2) LB_Anonymous
    by (auto simp: SetLeaderboardAnonymous_def split: if_splits dest!: set_eq delete_eq)
  then show ?thesis
    using assms(1) unfolding leaderboard_inv_def
    by (metis leaderboard_keys(6, 10))
qed (use assms in \<open>auto intro: UpdateLeaderboardEntry_inv DeleteLeaderboardEntry_inv\<close>)

lemma leaderboard_run_inv:
  "leaderboard_inv E view db \<Longrightarrow> leaderboard_inv E view (leaderboard_run E db ops)"
proof (induction ops arbitrary: db)
  case (Cons x xs)
  then show ?case
    using leaderboard_apply_inv [OF Cons.prems, of x]
    by (cases "leaderboard_apply E db x") (auto simp: leaderboard_run_def)
qed (simp add: leaderboard_run_def)

lemma leaderboard_inv_exact:
  assumes "leaderboard_inv E view db"
  shows "\<exists>es. Repo_GetLeaderboard E db a = Inr es \<and> (Repo_HasLeaderboard E db a \<longleftrightarrow> es \<noteq> [])"
proof -
  let ?p = "leaderboard_getAssignmentPrefix a"
  obtain kvs where kvs: "piter E db (PrefixIterOptions ?p) = Inr kvs" using iter_up by blast
  note set = iter_prefix [OF kvs]
  have "\<forall>kv\<in>set kvs. \<exists>e. (\<lambda>(k, v). Unmarshal (C_Entry E) v) kv = Inr e"
    using assms set unfolding leaderboard_inv_def by fast
  then obtain es where es: "collect (\<lambda>(k, v). Unmarshal (C_Entry E) v) kvs = Inr es"
    using collect_Ex by blast
  then have "length kvs = length es" by (simp add: collect_Inr_iff list_all2_lengthD)
  moreover have "Repo_HasLeaderboard E db a \<longleftrightarrow> view db (getMarkerId a) \<noteq> None"
    by (cases "view db (getMarkerId a)")
      (simp_all add: Repo_HasLeaderboard_def get_present get_absent)
  moreover note iter_prefix_empty [OF kvs]
  ultimately show ?thesis
    using assms es kvs by (auto simp: Repo_GetLeaderboard_def leaderboard_inv_def)
qed

end

subsection \<open>Properties\<close>

text \<open>
  whatever updates, deletions and anonymity changes a fresh leaderboard store has seen, in any
  order, an assignment has the leaderboard marker exactly when its leaderboard lists an entry.
\<close>

theorem leaderboard_marker_exact:
  assumes "store_up E view" and "leaderboard_inv E view db"
  shows "\<exists>es. Repo_GetLeaderboard E (leaderboard_run E db ops) a = Inr es \<and>
    (Repo_HasLeaderboard E (leaderboard_run E db ops) a \<longleftrightarrow> es \<noteq> [])"
  using store_up.leaderboard_inv_exact [OF assms(1) store_up.leaderboard_run_inv [OF assms]] .

definition sample_entry :: "u64 \<Rightarrow> leaderboard_entry" where
  "sample_entry u = \<lparr>Entry_SubmissionId = 1, Entry_Nickname = ''n'', Entry_Items = [], Entry_UserId = u,
     Entry_SubmittedAt = None, Entry_StudentId = [], Entry_Username = ''u'', Entry_Email = []\<rparr>"

theorem leaderboard_marker_exact_witness:
  "\<exists>es. Repo_GetLeaderboard mem_env (leaderboard_run mem_env []
      [LB_Update 3 1 (sample_entry 1), LB_Update 3 2 (sample_entry 2), LB_Delete 3 1]) 3 = Inr es \<and>
    (Repo_HasLeaderboard mem_env (leaderboard_run mem_env []
      [LB_Update 3 1 (sample_entry 1), LB_Update 3 2 (sample_entry 2), LB_Delete 3 1]) 3 \<longleftrightarrow> es \<noteq> [])"
  by (rule leaderboard_marker_exact [OF mem_store_up]) (simp add: leaderboard_inv_def)

end
