(* ===== verification/VerificationRepo.thy ===== *)
theory VerificationRepo
  imports Store
begin

section \<open>Verification codes: pkg/repository/verification_code.go\<close>

text \<open>
  A code is kept under its type and key with its expiry. \<open>Validate\<close> is a read followed, when the
  code is spent or has expired, by a deletion whose error is dropped; the two steps are separate
  definitions because nothing locks them together. The clock is an argument; the collector reads it
  at every entry of the sweep.
\<close>

definition verification_getPrefix :: "string \<Rightarrow> bytes" where
  "verification_getPrefix typ = ''verification_code:'' @ typ @ '':''"

definition verification_getKey :: "string \<Rightarrow> string \<Rightarrow> bytes" where
  "verification_getKey typ key = verification_getPrefix typ @ key"

definition Issue :: "'db env \<Rightarrow> 'db \<Rightarrow> time \<Rightarrow> string \<Rightarrow> string \<Rightarrow> string \<Rightarrow> time \<Rightarrow> 'db \<times> error option" where
  "Issue E db now typ key code expireAt =
     set_message E (C_VCode E) db (verification_getKey typ key)
       \<lparr>VCode_Code = code, VCode_IssuedAt = Some now, VCode_ExpiredAt = Some expireAt\<rparr>"

text \<open>The part of \<open>Validate\<close> before the deletion: whether to delete, and the answer.\<close>

definition Validate_read ::
    "'db env \<Rightarrow> 'db \<Rightarrow> time \<Rightarrow> string \<Rightarrow> string \<Rightarrow> string \<Rightarrow> bool \<times> (error + bool)" where
  "Validate_read E db now typ key code =
     (case get_message E (C_VCode E) db (verification_getKey typ key) of
        Inl e \<Rightarrow> (False, Inl e)
      | Inr metadata \<Rightarrow>
          if AsTime (VCode_ExpiredAt metadata) < now then (True, Inr False)
          else if VCode_Code metadata \<noteq> code then (False, Inr False)
          else (True, Inr True))"

definition Validate :: "'db env \<Rightarrow> 'db \<Rightarrow> time \<Rightarrow> string \<Rightarrow> string \<Rightarrow> string \<Rightarrow> 'db \<times> (error + bool)" where
  "Validate E db now typ key code =
     (case Validate_read E db now typ key code of
        (False, r) \<Rightarrow> (db, r)
      | (True, r) \<Rightarrow> (fst (pdelete E db (verification_getKey typ key)), r))"

text \<open>One sweep of \<open>GarbageCollect\<close> over the entries the iterator saw; \<open>clock n\<close> is the time read at
  the \<open>n\<close>th entry.\<close>

fun gc_entries :: "'db env \<Rightarrow> (nat \<Rightarrow> time) \<Rightarrow> 'db \<Rightarrow> (bytes \<times> bytes) list \<Rightarrow> 'db" where
  "gc_entries E clock db [] = db"
| "gc_entries E clock db ((k, v) # kvs) =
     gc_entries E (\<lambda>n. clock (Suc n))
       (case Unmarshal (C_VCode E) v of
          Inl e \<Rightarrow> db
        | Inr metadata \<Rightarrow>
            if AsTime (VCode_ExpiredAt metadata) < clock 0 then fst (pdelete E db k) else db) kvs"

definition gc_sweep :: "'db env \<Rightarrow> (nat \<Rightarrow> time) \<Rightarrow> 'db \<Rightarrow> 'db" where
  "gc_sweep E clock db =
     (case piter E db (PrefixIterOptions ''verification_code:'') of
        Inl e \<Rightarrow> db
      | Inr kvs \<Rightarrow> gc_entries E clock db kvs)"

text \<open>Whether the collector deletes an entry it reads at a time.\<close>

definition gc_expired :: "'db env \<Rightarrow> time \<Rightarrow> bytes \<Rightarrow> bool" where
  "gc_expired E t v \<longleftrightarrow> (case Unmarshal (C_VCode E) v of
     Inl e \<Rightarrow> False | Inr metadata \<Rightarrow> AsTime (VCode_ExpiredAt metadata) < t)"

lemma verification_keys [key_intros, simp]:
  "verification_getKey t k = verification_getKey t l \<longleftrightarrow> k = l"
  "prefix ''verification_code:'' (verification_getKey t k)"
  by (simp_all add: verification_getKey_def verification_getPrefix_def)

context store_up
begin

lemma gc_entries_view:
  "view (gc_entries E clock db kvs) k =
    (if \<exists>n < length kvs. fst (kvs ! n) = k \<and> gc_expired E (clock n) (snd (kvs ! n))
     then None else view db k)"
proof (induction kvs arbitrary: clock db)
  case (Cons kv kvs)
  obtain k' v where kv: "kv = (k', v)" by (cases kv)
  obtain db1 r where d: "pdelete E db k' = (db1, r)" by (cases "pdelete E db k'")
  let ?db = "case Unmarshal (C_VCode E) v of Inl e \<Rightarrow> db
    | Inr metadata \<Rightarrow> if AsTime (VCode_ExpiredAt metadata) < clock 0 then fst (pdelete E db k') else db"
  have step: "view ?db k = (if k' = k \<and> gc_expired E (clock 0) v then None else view db k)"
    using delete_eq [OF d] d by (auto simp: gc_expired_def split: sum.splits)
  have "(\<exists>n < length (kv # kvs). fst ((kv # kvs) ! n) = k \<and> gc_expired E (clock n) (snd ((kv # kvs) ! n))) \<longleftrightarrow>
      k' = k \<and> gc_expired E (clock 0) v \<or>
      (\<exists>n < length kvs. fst (kvs ! n) = k \<and> gc_expired E (clock (Suc n)) (snd (kvs ! n)))"
    by (auto simp: kv less_Suc_eq_0_disj)
  then show ?case
    using Cons.IH [of "\<lambda>n. clock (Suc n)" ?db] step by (auto simp: kv)
qed simp

lemma Issue_read:
  assumes "Issue E db t0 typ key code expireAt = (db', None)"
  shows "get_message E (C_VCode E) db' (verification_getKey typ key) =
    Inr \<lparr>VCode_Code = code, VCode_IssuedAt = Some t0, VCode_ExpiredAt = Some expireAt\<rparr>"
proof (rule set_message_ok [OF assms [unfolded Issue_def]])
  fix raw
  assume "Marshal (C_VCode E) \<lparr>VCode_Code = code, VCode_IssuedAt = Some t0,
      VCode_ExpiredAt = Some expireAt\<rparr> = Inr raw"
    "view db' = (view db)(verification_getKey typ key \<mapsto> raw)"
  then show ?thesis
    using codec_okD [OF codec_vcode] by (intro get_message_present [of _ _ raw]) auto
qed

lemma Validate_deleted:
  assumes "Validate_read E db now typ key code = (True, r)"
    and "Validate E db now typ key code = (db', r')"
  shows "r' = r \<and> Validate E db' now' typ key code' = (db', Inl ErrNotFound)"
proof -
  obtain db1 r1 where d: "pdelete E db (verification_getKey typ key) = (db1, r1)"
    by (cases "pdelete E db (verification_getKey typ key)")
  then have "db' = db1" "r' = r" using assms by (auto simp: Validate_def)
  moreover have "pget E db1 (verification_getKey typ key) = Inl ErrNotFound"
    using delete_eq [OF d] by (intro get_absent) simp
  ultimately show ?thesis
    by (simp add: Validate_def Validate_read_def get_message_def)
qed

end

subsection \<open>Properties\<close>

text \<open>
  An issued code is accepted exactly when it is the issued one and has not expired, and it is
  accepted once: after it was accepted, or found expired, every further validation of that key says
  there is no code. A wrong guess before the expiry is refused and changes nothing.
\<close>

theorem Validate_once:
  assumes "store_up E view" and "Issue E db t0 typ key code expireAt = (db1, None)"
    and "Validate E db1 now typ key guess = (db2, r)"
  shows "r = Inr (guess = code \<and> now \<le> expireAt) \<and>
    (if guess \<noteq> code \<and> now \<le> expireAt then db2 = db1
     else \<forall>now' guess'. Validate E db2 now' typ key guess' = (db2, Inl ErrNotFound))"
proof -
  have read: "Validate_read E db1 now typ key guess =
      (guess = code \<or> expireAt < now, Inr (guess = code \<and> now \<le> expireAt))"
    using store_up.Issue_read [OF assms(1, 2)] by (auto simp: Validate_read_def)
  show ?thesis
  proof (cases "guess = code \<or> expireAt < now")
    case True
    with read have "Validate_read E db1 now typ key guess =
      (True, Inr (guess = code \<and> now \<le> expireAt))" by simp
    from store_up.Validate_deleted [OF assms(1) this assms(3)] True show ?thesis by auto
  next
    case False
    then show ?thesis using assms(3) read by (auto simp: Validate_def)
  qed
qed

theorem Validate_once_witness:
  "\<exists>db1 db2 r. Issue mem_env [] 0 ''signup'' ''a@b.c'' ''1234'' 100 = (db1, None) \<and>
    Validate mem_env db1 50 ''signup'' ''a@b.c'' ''1234'' = (db2, r) \<and> r = Inr True \<and>
    Validate mem_env db2 50 ''signup'' ''a@b.c'' ''1234'' = (db2, Inl ErrNotFound)"
proof -
  obtain db1 where 1: "Issue mem_env [] 0 ''signup'' ''a@b.c'' ''1234'' 100 = (db1, None)"
    by (simp add: Issue_def set_message_def)
  obtain db2 r where 2: "Validate mem_env db1 50 ''signup'' ''a@b.c'' ''1234'' = (db2, r)"
    by (cases "Validate mem_env db1 50 ''signup'' ''a@b.c'' ''1234''")
  from Validate_once [OF mem_store_up 1 2] show ?thesis using 1 2 by auto
qed

text \<open>
  A sweep of the collector deletes the codes that had expired when their entry was read and
  nothing else: an entry outlives the sweep when it is not a verification code, does not decode, or
  expires at or after the last time the sweep read; and a code expired before the sweep began is gone.
\<close>

theorem gc_sweep_exact:
  assumes "store_up E view" and "\<And>n. start \<le> clock n \<and> clock n \<le> stop"
  shows "case view db k of
      None \<Rightarrow> view (gc_sweep E clock db) k = None
    | Some v \<Rightarrow>
        (case Unmarshal (C_VCode E) v of
           Inl e \<Rightarrow> view (gc_sweep E clock db) k = Some v
         | Inr m \<Rightarrow>
             if prefix ''verification_code:'' k \<and> AsTime (VCode_ExpiredAt m) < start
             then view (gc_sweep E clock db) k = None
             else if \<not> prefix ''verification_code:'' k \<or> stop \<le> AsTime (VCode_ExpiredAt m)
             then view (gc_sweep E clock db) k = Some v
             else view (gc_sweep E clock db) k \<in> {None, Some v})"
proof -
  note st = store_up.axioms(1) [OF assms(1)]
  obtain kvs where kvs: "piter E db (PrefixIterOptions ''verification_code:'') = Inr kvs"
    using store_up.iter_up [OF assms(1)] by blast
  note set = store.iter_prefix [OF st kvs]
  have sweep: "view (gc_sweep E clock db) k =
    (if \<exists>n < length kvs. fst (kvs ! n) = k \<and> gc_expired E (clock n) (snd (kvs ! n))
     then None else view db k)"
    using store_up.gc_entries_view [OF assms(1)] kvs by (simp add: gc_sweep_def)
  have entry: "view db k = Some (snd (kvs ! n)) \<and> prefix ''verification_code:'' k"
    if "n < length kvs" "fst (kvs ! n) = k" for n
    using nth_mem [OF that(1)] that(2) unfolding set by auto
  show ?thesis
  proof (cases "view db k")
    case None
    then show ?thesis using sweep by simp
  next
    case v: (Some v)
    have del: "view (gc_sweep E clock db) k = None" if "prefix ''verification_code:'' k"
      "Unmarshal (C_VCode E) v = Inr m" "AsTime (VCode_ExpiredAt m) < start" for m
    proof -
      have "(k, v) \<in> set kvs" unfolding set using v that by simp
      then obtain n where n: "n < length kvs" "kvs ! n = (k, v)" by (auto simp: in_set_conv_nth)
      have "gc_expired E (clock n) v"
        using that assms(2) [of n] by (simp add: gc_expired_def)
      then have "\<exists>n < length kvs. fst (kvs ! n) = k \<and> gc_expired E (clock n) (snd (kvs ! n))"
        using n by (intro exI [of _ n]) simp
      then show ?thesis by (simp only: sweep if_True)
    qed
    have keep: "view (gc_sweep E clock db) k = Some v"
      if "\<not> prefix ''verification_code:'' k \<or>
        (case Unmarshal (C_VCode E) v of Inl e \<Rightarrow> True | Inr m \<Rightarrow> stop \<le> AsTime (VCode_ExpiredAt m))"
    proof -
      have "\<not> gc_expired E (clock n) (snd (kvs ! n))" if "n < length kvs" "fst (kvs ! n) = k" for n
        using entry [OF that] v \<open>\<not> prefix ''verification_code:'' k \<or> _\<close> assms(2) [of n]
        by (auto simp: gc_expired_def split: sum.splits)
      then show ?thesis unfolding sweep using v by auto
    qed
    show ?thesis
      using del keep sweep v by (auto split: sum.splits)
  qed
qed

theorem gc_sweep_exact_witness:
  "\<exists>raw. Marshal (C_VCode mem_env) \<lparr>VCode_Code = ''1'', VCode_IssuedAt = None, VCode_ExpiredAt = Some 5\<rparr> = Inr raw \<and>
    map_of (gc_sweep mem_env (\<lambda>n. 7) [(verification_getKey ''signup'' ''a'', raw)])
      (verification_getKey ''signup'' ''a'') = None"
proof -
  let ?m = "\<lparr>VCode_Code = ''1'', VCode_IssuedAt = None, VCode_ExpiredAt = Some 5\<rparr> :: verification_code_metadata"
  obtain raw where raw: "Marshal (C_VCode mem_env) ?m = Inr raw"
    "Unmarshal (C_VCode mem_env) raw = Inr ?m"
    by simp
  show ?thesis
    using raw gc_sweep_exact [OF mem_store_up, of 7 "\<lambda>n. 7" 7 "[(verification_getKey ''signup'' ''a'', raw)]"
        "verification_getKey ''signup'' ''a''"]
    by simp
qed

end
