(* ===== verification/ManifestRepo.thy ===== *)
theory ManifestRepo
  imports Sequencer
begin

section \<open>Upload manifests: pkg/repository/manifest.go\<close>

text \<open>
  A manifest collects the files of one submission. \<open>KVManifestRepository\<close> keeps its metadata, the
  metadata of each file, and the total size as a counter that is only ever merged into. The lock of
  a manifest is held or not; a call that waits for it is \<open>None\<close>. The clock is an argument.
\<close>

definition getMetadataPrefix :: bytes where
  "getMetadataPrefix = ''manifest:metadata:''"

definition getFilesizePrefix :: bytes where
  "getFilesizePrefix = ''manifest:filesize:''"

definition manifest_getMetadataKey :: "u64 \<Rightarrow> bytes" where
  "manifest_getMetadataKey i = getMetadataPrefix @ Uint64ToBytes i"

definition getFilesizeKey :: "u64 \<Rightarrow> bytes" where
  "getFilesizeKey i = getFilesizePrefix @ Uint64ToBytes i"

definition getFileKey :: "u64 \<Rightarrow> string \<Rightarrow> bytes" where
  "getFileKey i filename = ''manifest:files:'' @ id_text i @ '':'' @ filename"

definition getFilesPrefix :: "u64 \<Rightarrow> bytes" where
  "getFilesPrefix i = ''manifest:files:'' @ id_text i @ '':''"

definition ManifestExpireTimeout :: time where
  "ManifestExpireTimeout = 10 * 60 * nanosecond_per_second"

lemmas manifest_key_defs = getMetadataPrefix_def getFilesizePrefix_def manifest_getMetadataKey_def
  getFilesizeKey_def getFileKey_def getFilesPrefix_def

definition GetManifestFileMetadata ::
    "'db env \<Rightarrow> 'db \<Rightarrow> string \<Rightarrow> u64 \<Rightarrow> error + manifest_file_metadata" where
  "GetManifestFileMetadata E db filename i = get_message E (C_File E) db (getFileKey i filename)"

definition GetManifest :: "'db env \<Rightarrow> 'db \<Rightarrow> u64 \<Rightarrow> error + manifest_metadata" where
  "GetManifest E db i = get_message E (C_Manifest E) db (manifest_getMetadataKey i)"

definition GetManifestMetadata :: "'db env \<Rightarrow> 'db \<Rightarrow> u64 \<Rightarrow> error + manifest_metadata" where
  "GetManifestMetadata E db i = get_message E (C_Manifest E) db (manifest_getMetadataKey i)"

definition Repo_CreateManifest ::
    "'db env \<Rightarrow> 'db \<Rightarrow> kvseq \<Rightarrow> time \<Rightarrow> u64 \<Rightarrow> u64 \<Rightarrow> u64 \<Rightarrow> 'db \<times> kvseq \<times> (error + u64)" where
  "Repo_CreateManifest E db q now userId assignmentId uploadLimit =
     (case Marshal (C_Manifest E) \<lparr>Manifest_CreatedAt = Some now, Manifest_UserId = userId,
         Manifest_AssignmentId = assignmentId, Manifest_UploadLimit = uploadLimit\<rparr> of
        Inl e \<Rightarrow> (db, q, Inl e)
      | Inr raw \<Rightarrow>
          (case Marshal (C_Mergeable E) (Some (Counter 0)) of
             Inl e \<Rightarrow> (db, q, Inl e)
           | Inr mergeableBytes \<Rightarrow>
               (case GetNextId E db q of
                  (db1, q1, Inl e) \<Rightarrow> (db1, q1, Inl e)
                | (db1, q1, Inr i) \<Rightarrow>
                    (case pset E db1 (manifest_getMetadataKey i) raw of
                       (db2, Some e) \<Rightarrow> (db2, q1, Inl e)
                     | (db2, None) \<Rightarrow>
                         (case pmerge E db2 (getFilesizeKey i) mergeableBytes of
                            (db3, Some e) \<Rightarrow> (db3, q1, Inl e)
                          | (db3, None) \<Rightarrow> (db3, q1, Inr i))))))"

definition Repo_DeleteFileInManifest ::
    "'db env \<Rightarrow> 'db \<Rightarrow> string \<Rightarrow> u64 \<Rightarrow> 'db \<times> error option" where
  "Repo_DeleteFileInManifest E db filename i =
     (case get_message E (C_File E) db (getFileKey i filename) of
        Inl e \<Rightarrow> (db, Some e)
      | Inr metadata \<Rightarrow>
          (case Marshal (C_Mergeable E) (Some (Counter (- File_Filesize metadata))) of
             Inl e \<Rightarrow> (db, Some e)
           | Inr mergeableBytes \<Rightarrow>
               (case batch_all E [] [BMerge (getFilesizeKey i) mergeableBytes,
                   BDelete (getFileKey i filename)] of
                  Inl e \<Rightarrow> (db, Some e)
                | Inr b \<Rightarrow> pcommit E db b)))"

definition GetFilesInManifest :: "'db env \<Rightarrow> 'db \<Rightarrow> u64 \<Rightarrow> error + string list" where
  "GetFilesInManifest E db i =
     (case piter E db (PrefixIterOptions (getFilesPrefix i)) of
        Inl e \<Rightarrow> Inl e
      | Inr kvs \<Rightarrow> Inr (map (\<lambda>(k, v). drop (length (getFilesPrefix i)) k) kvs))"

definition GetManifestFilesize :: "'db env \<Rightarrow> 'db \<Rightarrow> u64 \<Rightarrow> error + u64" where
  "GetManifestFilesize E db i =
     (case get_message E (C_Mergeable E) db (getFilesizeKey i) of
        Inl e \<Rightarrow> Inl e
      | Inr (Some (Counter c)) \<Rightarrow> if sint c < 0 then Inr 0 else Inr c
      | Inr _ \<Rightarrow> Inl (ErrOther ''not a counter''))"

definition AddFileToManifest ::
    "'db env \<Rightarrow> 'db \<Rightarrow> string \<Rightarrow> u64 \<Rightarrow> u64 \<Rightarrow> 'db \<times> error option" where
  "AddFileToManifest E db filename i filesize =
     (case Marshal (C_File E) \<lparr>File_ManifestId = i, File_Filesize = filesize\<rparr> of
        Inl e \<Rightarrow> (db, Some e)
      | Inr raw \<Rightarrow>
          (case batch_all E [] [BSet (getFileKey i filename) raw] of
             Inl e \<Rightarrow> (db, Some e)
           | Inr b1 \<Rightarrow>
               (case Marshal (C_Mergeable E) (Some (Counter filesize)) of
                  Inl e \<Rightarrow> (db, Some e)
                | Inr mergeableBytes \<Rightarrow>
                    (case batch_all E b1 [BMerge (getFilesizeKey i) mergeableBytes] of
                       Inl e \<Rightarrow> (db, Some e)
                     | Inr b \<Rightarrow> pcommit E db b))))"

text \<open>The manifests whose lock is held; a call that has to wait is \<open>None\<close>.\<close>

type_synonym manifest_locks = "u64 set"

definition LockManifest ::
    "'db env \<Rightarrow> 'db \<Rightarrow> manifest_locks \<Rightarrow> u64 \<Rightarrow> (manifest_locks \<times> error option) option" where
  "LockManifest E db locks i =
     (if i \<in> locks then None
      else case pget E db (manifest_getMetadataKey i) of
          Inl e \<Rightarrow> Some (locks, Some e)
        | Inr _ \<Rightarrow> Some (insert i locks, None))"

definition DeleteManifest ::
    "'db env \<Rightarrow> 'db \<Rightarrow> manifest_locks \<Rightarrow> u64 \<Rightarrow> ('db \<times> manifest_locks \<times> error option) option" where
  "DeleteManifest E db locks i =
     (case LockManifest E db locks i of
        None \<Rightarrow> None
      | Some (locks1, err) \<Rightarrow>
          let locks2 = (if err = None then locks1 - {i} else locks1);
              p = getFilesPrefix i
          in case batch_all E [] [BDeleteRange p (KeyUpperBound p),
                 BDelete (manifest_getMetadataKey i), BDelete (getFilesizeKey i)] of
               Inl e \<Rightarrow> Some (db, locks2, Some e)
             | Inr b \<Rightarrow> (case pcommit E db b of (db', r) \<Rightarrow> Some (db', locks2, r)))"

text \<open>
  One sweep of \<open>GarbageCollect\<close> over the entries the iterator saw: the time is read at each entry, and
  the sweep ends at the first id that cannot be sent before the context is cancelled (\<open>accepts n\<close> says
  whether the \<open>n\<close>th send is taken). No lock is held while it runs.
\<close>

fun manifest_gc_entries :: "'db env \<Rightarrow> (nat \<Rightarrow> time) \<Rightarrow> (nat \<Rightarrow> bool) \<Rightarrow> 'db \<Rightarrow>
    (bytes \<times> bytes) list \<Rightarrow> 'db \<times> u64 list" where
  "manifest_gc_entries E clock accepts db [] = (db, [])"
| "manifest_gc_entries E clock accepts db ((k, v) # kvs) =
     (let clock' = (\<lambda>n. clock (Suc n))
      in case BigEndian_Uint64 (drop (length getMetadataPrefix) k) of
           Inl e \<Rightarrow> (db, [])
         | Inr manifestId \<Rightarrow>
             (case GetManifestMetadata E db manifestId of
                Inl e \<Rightarrow> manifest_gc_entries E clock' accepts db kvs
              | Inr metadata \<Rightarrow>
                  if AsTime (Manifest_CreatedAt metadata) + ManifestExpireTimeout < clock 0
                  then
                    (let db1 = (case DeleteManifest E db {} manifestId of None \<Rightarrow> db | Some (d, _) \<Rightarrow> d)
                     in if accepts 0
                        then (case manifest_gc_entries E clock' (\<lambda>n. accepts (Suc n)) db1 kvs of
                                (db2, sent) \<Rightarrow> (db2, manifestId # sent))
                        else (db1, []))
                  else manifest_gc_entries E clock' accepts db kvs))"

definition manifest_gc_sweep ::
    "'db env \<Rightarrow> (nat \<Rightarrow> time) \<Rightarrow> (nat \<Rightarrow> bool) \<Rightarrow> 'db \<Rightarrow> 'db \<times> u64 list" where
  "manifest_gc_sweep E clock accepts db =
     (case piter E db (PrefixIterOptions getMetadataPrefix) of
        Inl e \<Rightarrow> (db, [])
      | Inr kvs \<Rightarrow> manifest_gc_entries E clock accepts db kvs)"

definition NewKVManifestRepository :: "'db env \<Rightarrow> 'db \<Rightarrow> 'db \<times> (error + kvseq)" where
  "NewKVManifestRepository E db = NewKVSequencer E db ''manifest:next_id''"

subsection \<open>The key layout\<close>

lemma manifest_keys [key_intros, simp]:
  "getFileKey i f = getFileKey j g \<longleftrightarrow> i = j \<and> f = g"
  "getFilesizeKey i = getFilesizeKey j \<longleftrightarrow> i = j"
  "manifest_getMetadataKey i = manifest_getMetadataKey j \<longleftrightarrow> i = j"
  "getFileKey i f \<noteq> getFilesizeKey j" "getFilesizeKey j \<noteq> getFileKey i f"
  "getFileKey i f \<noteq> manifest_getMetadataKey j" "manifest_getMetadataKey j \<noteq> getFileKey i f"
  "getFilesizeKey i \<noteq> manifest_getMetadataKey j" "manifest_getMetadataKey j \<noteq> getFilesizeKey i"
  "getFilesizeKey i \<noteq> ''manifest:next_id''" "getFileKey i f \<noteq> ''manifest:next_id''"
  "manifest_getMetadataKey i \<noteq> ''manifest:next_id''"
  "prefix (getFilesPrefix i) (getFileKey j f) \<longleftrightarrow> i = j"
  "\<not> prefix (getFilesPrefix i) (getFilesizeKey j)"
  "\<not> prefix (getFilesPrefix i) (manifest_getMetadataKey j)"
  by (auto simp: manifest_key_defs)

lemma files_prefix_iff: "prefix (getFilesPrefix i) k \<longleftrightarrow> (\<exists>f. k = getFileKey i f)"
  by (auto simp: manifest_key_defs prefix_def)

subsection \<open>The total size of a manifest\<close>

text \<open>
  What a manifest stands for: its files with their sizes. The store implements it when every file has
  its metadata and the counter holds the sum of the sizes.
\<close>

definition manifest_files :: "'db env \<Rightarrow> ('db \<Rightarrow> bytes \<rightharpoonup> bytes) \<Rightarrow> 'db \<Rightarrow> u64 \<Rightarrow> (string \<times> u64) list \<Rightarrow> bool" where
  "manifest_files E view db i fs \<longleftrightarrow>
     distinct (map fst fs) \<and>
     (\<exists>raw. view db (getFilesizeKey i) = Some raw \<and>
       Unmarshal (C_Mergeable E) raw = Inr (Some (Counter (sum_list (map snd fs))))) \<and>
     (\<forall>f. case map_of fs f of
        None \<Rightarrow> view db (getFileKey i f) = None
      | Some n \<Rightarrow> \<exists>raw. view db (getFileKey i f) = Some raw \<and>
          Unmarshal (C_File E) raw = Inr \<lparr>File_ManifestId = i, File_Filesize = n\<rparr>)"

lemma sum_list_remove:
  fixes fs :: "(string \<times> u64) list"
  assumes "distinct (map fst fs)" and "map_of fs f = Some n"
  shows "sum_list (map snd (filter (\<lambda>x. fst x \<noteq> f) fs)) = sum_list (map snd fs) - n"
  using assms
proof (induction fs)
  case (Cons x fs)
  show ?case
  proof (cases "fst x = f")
    case True
    then have "f \<notin> fst ` set fs" using Cons.prems(1) by auto
    then have "filter (\<lambda>x. fst x \<noteq> f) fs = fs" by (auto simp: filter_id_conv)
    then show ?thesis using True Cons.prems(2) by (cases x) simp
  qed (use Cons in \<open>auto simp: algebra_simps\<close>)
qed simp

lemma map_of_remove: "map_of (filter (\<lambda>x. fst x \<noteq> f) fs) g = (if g = f then None else map_of fs g)"
  by (induction fs) auto

context store
begin

text \<open>Merging a counter onto a counter.\<close>

lemma counter_merge:
  assumes "Unmarshal (C_Mergeable E) base = Inr (Some (Counter c))"
    and "Marshal (C_Mergeable E) (Some (Counter n)) = Inr operand"
    and "kv_merge (C_Mergeable E) (Some base) operand = Inr raw"
  shows "Unmarshal (C_Mergeable E) raw = Inr (Some (Counter (c + n)))"
proof -
  have op: "Unmarshal (C_Mergeable E) operand = Inr (Some (Counter n))"
    using codec_okD [OF codec_mergeable assms(2)] .
  then have "operand \<noteq> []" using codec_mergeable_empty by auto
  then have "Marshal (C_Mergeable E) (Some (Counter (n + c))) = Inr raw"
    using assms(1, 3) op
    by (auto simp: kv_merge_def NewKVMerge_def MergeOlder_def merge_older_def Finish_def
        split: sum.splits)
  then show ?thesis using codec_okD [OF codec_mergeable] by (simp add: add.commute)
qed

lemma counter_merge_ex:
  assumes "Unmarshal (C_Mergeable E) base = Inr (Some (Counter c))"
    and "Marshal (C_Mergeable E) (Some (Counter n)) = Inr operand"
  shows "\<exists>raw. kv_merge (C_Mergeable E) (Some base) operand = Inr raw \<and>
    Unmarshal (C_Mergeable E) raw = Inr (Some (Counter (c + n)))"
proof -
  have op: "Unmarshal (C_Mergeable E) operand = Inr (Some (Counter n))"
    using codec_okD [OF codec_mergeable assms(2)] .
  then have "operand \<noteq> []" using codec_mergeable_empty by auto
  moreover obtain raw where "Marshal (C_Mergeable E) (Some (Counter (n + c))) = Inr raw"
    using codec_counter by blast
  ultimately have "kv_merge (C_Mergeable E) (Some base) operand = Inr raw"
    using assms(1) op
    by (simp add: kv_merge_def NewKVMerge_def MergeOlder_def merge_older_def Finish_def)
  with counter_merge [OF assms this] show ?thesis by blast
qed

lemma manifest_filesE:
  assumes "manifest_files E view db i fs"
  obtains base where "distinct (map fst fs)" and "view db (getFilesizeKey i) = Some base"
    and "Unmarshal (C_Mergeable E) base = Inr (Some (Counter (sum_list (map snd fs))))"
  using assms unfolding manifest_files_def by blast

lemma manifest_files_file:
  assumes "manifest_files E view db i fs"
  shows "case map_of fs g of None \<Rightarrow> view db (getFileKey i g) = None
    | Some n \<Rightarrow> \<exists>raw. view db (getFileKey i g) = Some raw \<and>
        Unmarshal (C_File E) raw = Inr \<lparr>File_ManifestId = i, File_Filesize = n\<rparr>"
  using assms by (simp add: manifest_files_def)

text \<open>What the two batches write.\<close>

lemma AddFileToManifest_ok:
  assumes "view db (getFilesizeKey i) = Some base"
    and "Unmarshal (C_Mergeable E) base = Inr (Some (Counter c))"
    and "AddFileToManifest E db f i n = (db', None)"
  shows "\<exists>raw total. view db' = (view db)(getFileKey i f \<mapsto> raw, getFilesizeKey i \<mapsto> total) \<and>
    Unmarshal (C_File E) raw = Inr \<lparr>File_ManifestId = i, File_Filesize = n\<rparr> \<and>
    Unmarshal (C_Mergeable E) total = Inr (Some (Counter (c + n)))"
proof -
  obtain raw b1 op b where m: "Marshal (C_File E) \<lparr>File_ManifestId = i, File_Filesize = n\<rparr> = Inr raw"
    and b1: "batch_all E [] [BSet (getFileKey i f) raw] = Inr b1"
    and op: "Marshal (C_Mergeable E) (Some (Counter n)) = Inr op"
    and b: "batch_all E b1 [BMerge (getFilesizeKey i) op] = Inr b"
    and c: "pcommit E db b = (db', None)"
    using assms(3) by (auto simp: AddFileToManifest_def simp del: batch_all.simps split: sum.splits)
  have ops: "b = [BSet (getFileKey i f) raw, BMerge (getFilesizeKey i) op]"
    using batch_all_append [OF b1] batch_all_append [OF b] by simp
  obtain total where "kv_merge (C_Mergeable E) (Some base) op = Inr total"
    "Unmarshal (C_Mergeable E) total = Inr (Some (Counter (c + n)))"
    using counter_merge_ex [OF assms(2) op] by blast
  with commit_view [OF c] codec_okD [OF codec_file m] assms(1) show ?thesis
    by (simp add: ops) blast
qed

lemma DeleteFileInManifest_ok:
  assumes "view db (getFilesizeKey i) = Some base"
    and "Unmarshal (C_Mergeable E) base = Inr (Some (Counter c))"
    and "Repo_DeleteFileInManifest E db f i = (db', None)"
  shows "\<exists>raw n total. view db (getFileKey i f) = Some raw \<and>
    (\<exists>j. Unmarshal (C_File E) raw = Inr \<lparr>File_ManifestId = j, File_Filesize = n\<rparr>) \<and>
    view db' = (view db)(getFilesizeKey i \<mapsto> total, getFileKey i f := None) \<and>
    Unmarshal (C_Mergeable E) total = Inr (Some (Counter (c - n)))"
proof -
  obtain metadata op b where g: "get_message E (C_File E) db (getFileKey i f) = Inr metadata"
    and op: "Marshal (C_Mergeable E) (Some (Counter (- File_Filesize metadata))) = Inr op"
    and b: "batch_all E [] [BMerge (getFilesizeKey i) op, BDelete (getFileKey i f)] = Inr b"
    and c: "pcommit E db b = (db', None)"
    using assms(3)
    by (auto simp: Repo_DeleteFileInManifest_def simp del: batch_all.simps split: sum.splits)
  have ops: "b = [BMerge (getFilesizeKey i) op, BDelete (getFileKey i f)]"
    using batch_all_append [OF b] by simp
  obtain total where t: "kv_merge (C_Mergeable E) (Some base) op = Inr total"
    "Unmarshal (C_Mergeable E) total = Inr (Some (Counter (c + - File_Filesize metadata)))"
    using counter_merge_ex [OF assms(2) op] by blast
  then have "view db' = (view db)(getFilesizeKey i \<mapsto> total, getFileKey i f := None)"
    using commit_view [OF c] assms(1) by (simp add: ops)
  moreover obtain raw where "view db (getFileKey i f) = Some raw" "Unmarshal (C_File E) raw = Inr metadata"
    using get_message_Inr [OF g] by blast
  moreover have "metadata = \<lparr>File_ManifestId = File_ManifestId metadata, File_Filesize = File_Filesize metadata\<rparr>"
    by simp
  ultimately show ?thesis using t by (metis diff_conv_add_uminus)
qed

text \<open>Adding a new file and deleting a file are insertion into and removal from the files.\<close>

lemma AddFileToManifest_files:
  assumes "manifest_files E view db i fs" and "f \<notin> fst ` set fs"
    and "AddFileToManifest E db f i n = (db', None)"
  shows "manifest_files E view db' i ((f, n) # fs)"
proof -
  obtain base where base: "distinct (map fst fs)" "view db (getFilesizeKey i) = Some base"
    "Unmarshal (C_Mergeable E) base = Inr (Some (Counter (sum_list (map snd fs))))"
    using manifest_filesE [OF assms(1)] .
  from AddFileToManifest_ok [OF base(2, 3) assms(3)] obtain raw total where
    w: "view db' = (view db)(getFileKey i f \<mapsto> raw, getFilesizeKey i \<mapsto> total)"
      "Unmarshal (C_File E) raw = Inr \<lparr>File_ManifestId = i, File_Filesize = n\<rparr>"
      "Unmarshal (C_Mergeable E) total = Inr (Some (Counter (sum_list (map snd fs) + n)))"
    by blast
  have "case map_of ((f, n) # fs) g of None \<Rightarrow> view db' (getFileKey i g) = None
      | Some n \<Rightarrow> \<exists>raw. view db' (getFileKey i g) = Some raw \<and>
          Unmarshal (C_File E) raw = Inr \<lparr>File_ManifestId = i, File_Filesize = n\<rparr>" for g
    using manifest_files_file [OF assms(1), of g] w(2) by (auto simp: w(1) split: option.splits)
  then show ?thesis
    using assms(2) base(1) w(1, 3) unfolding manifest_files_def by (auto simp: add.commute)
qed

lemma DeleteFileInManifest_files:
  assumes "manifest_files E view db i fs" and "Repo_DeleteFileInManifest E db f i = (db', None)"
  shows "f \<in> fst ` set fs \<and> manifest_files E view db' i (filter (\<lambda>x. fst x \<noteq> f) fs)"
proof -
  obtain base where base: "distinct (map fst fs)" "view db (getFilesizeKey i) = Some base"
    "Unmarshal (C_Mergeable E) base = Inr (Some (Counter (sum_list (map snd fs))))"
    using manifest_filesE [OF assms(1)] .
  from DeleteFileInManifest_ok [OF base(2, 3) assms(2)] obtain raw n total j where
    w: "view db (getFileKey i f) = Some raw"
      "Unmarshal (C_File E) raw = Inr \<lparr>File_ManifestId = j, File_Filesize = n\<rparr>"
      "view db' = (view db)(getFilesizeKey i \<mapsto> total, getFileKey i f := None)"
      "Unmarshal (C_Mergeable E) total = Inr (Some (Counter (sum_list (map snd fs) - n)))"
    by blast
  have f: "map_of fs f = Some n"
    using manifest_files_file [OF assms(1), of f] w(1, 2) by (auto split: option.splits)
  have "distinct (map fst (filter (\<lambda>x. fst x \<noteq> f) fs))"
    by (rule distinct_map_filter_fst [OF base(1)])
  moreover have "case map_of (filter (\<lambda>x. fst x \<noteq> f) fs) g of None \<Rightarrow> view db' (getFileKey i g) = None
      | Some n \<Rightarrow> \<exists>raw. view db' (getFileKey i g) = Some raw \<and>
          Unmarshal (C_File E) raw = Inr \<lparr>File_ManifestId = i, File_Filesize = n\<rparr>" for g
    using manifest_files_file [OF assms(1), of g] by (auto simp: map_of_remove w(3) split: option.splits)
  ultimately show ?thesis
    using w(3, 4) sum_list_remove [OF base(1) f] map_of_SomeD [OF f]
    unfolding manifest_files_def by (force simp: image_iff)
qed

lemma CreateManifest_files:
  assumes key: "seq_key q = ''manifest:next_id''"
    and fresh: "view db (getFilesizeKey (seq_next q)) = None" "\<And>f. view db (getFileKey (seq_next q) f) = None"
    and cr: "Repo_CreateManifest E db q now u a l = (db', q', Inr i)"
  shows "manifest_files E view db' i []"
proof -
  obtain raw op db1 db2 where op: "Marshal (C_Mergeable E) (Some (Counter 0)) = Inr op"
    and gen: "GetNextId E db q = (db1, q', Inr i)"
    and s: "pset E db1 (manifest_getMetadataKey i) raw = (db2, None)"
    and m: "pmerge E db2 (getFilesizeKey i) op = (db', None)"
    using cr by (auto simp: Repo_CreateManifest_def split: sum.splits prod.splits option.splits)
  have i: "i = seq_next q" and v1: "\<And>k. k \<noteq> ''manifest:next_id'' \<Longrightarrow> view db1 k = view db k"
    using GetNextId_frame [OF gen] key by auto
  have v2: "view db2 = (view db1)(manifest_getMetadataKey i \<mapsto> raw)" by (rule set_ok [OF s])
  have un: "Unmarshal (C_Mergeable E) op = Inr (Some (Counter 0))"
    using codec_okD [OF codec_mergeable op] .
  then have "op \<noteq> []" using codec_mergeable_empty by auto
  then have "kv_merge (C_Mergeable E) (view db2 (getFilesizeKey i)) op = Inr op"
    using op un by (simp add: kv_merge_def NewKVMerge_def Finish_def v1 v2 fresh i)
  from merge_view [OF m this] have "view db' = (view db2)(getFilesizeKey i \<mapsto> op)" by simp
  then show ?thesis using un fresh by (simp add: manifest_files_def v1 v2 i)
qed

text \<open>Deleting a manifest touches the keys of that manifest only.\<close>

lemma DeleteManifest_view:
  assumes "DeleteManifest E db locks i = Some (db', locks', r)"
  shows "view db' = (\<lambda>k. if prefix (getFilesPrefix i) k \<or> k = manifest_getMetadataKey i \<or>
      k = getFilesizeKey i then None else view db k) \<or> r \<noteq> None \<and> view db' = view db"
proof -
  let ?ops = "[BDeleteRange (getFilesPrefix i) (KeyUpperBound (getFilesPrefix i)),
    BDelete (manifest_getMetadataKey i), BDelete (getFilesizeKey i)]"
  show ?thesis
  proof (cases "batch_all E [] ?ops")
    case (Inl e)
    then show ?thesis
      using assms by (auto simp: DeleteManifest_def Let_def simp del: batch_all.simps split: option.splits)
  next
    case (Inr b)
    then have "pcommit E db b = (db', r)"
      using assms by (auto simp: DeleteManifest_def Let_def simp del: batch_all.simps
          split: option.splits prod.splits)
    from commit_view [OF this] show ?thesis
      using batch_all_append [OF Inr] by (auto simp: fun_eq_iff)
  qed
qed

lemma manifest_gc_entries_keeps:
  assumes "\<And>n. clock n \<le> stop" and "view db (manifest_getMetadataKey j) = Some raw"
    and "Unmarshal (C_Manifest E) raw = Inr m"
    and "stop \<le> AsTime (Manifest_CreatedAt m) + ManifestExpireTimeout"
    and "manifest_gc_entries E clock accepts db kvs = (db', sent)"
    and "k \<in> {manifest_getMetadataKey j, getFilesizeKey j} \<union> range (getFileKey j)"
  shows "view db' k = view db k \<and> j \<notin> set sent"
  using assms
proof (induction kvs arbitrary: clock accepts db sent)
  case (Cons kv kvs)
  obtain kk v where kv: "kv = (kk, v)" by (cases kv)
  note IH = Cons.IH [OF _ _ Cons.prems(3, 4) _ Cons.prems(6)]
  show ?case
  proof (cases "BigEndian_Uint64 (drop (length getMetadataPrefix) kk)")
    case (Inl e)
    then show ?thesis using Cons.prems(5) by (simp add: kv)
  next
    case i: (Inr i)
    show ?thesis
    proof (cases "\<exists>md. GetManifestMetadata E db i = Inr md \<and>
        AsTime (Manifest_CreatedAt md) + ManifestExpireTimeout < clock 0")
      case False
      then have "manifest_gc_entries E (\<lambda>n. clock (Suc n)) accepts db kvs = (db', sent)"
        using Cons.prems(5) i by (auto simp: kv Let_def split: sum.splits if_splits)
      from IH [OF _ Cons.prems(2) this] Cons.prems(1) show ?thesis by simp
    next
      case True
      then obtain md where md: "GetManifestMetadata E db i = Inr md"
        "AsTime (Manifest_CreatedAt md) + ManifestExpireTimeout < clock 0" by blast
      have "i \<noteq> j"
      proof
        assume "i = j"
        then have "md = m"
          using md(1) get_message_view [OF Cons.prems(2, 3)] by (simp add: GetManifestMetadata_def)
        then show False using md(2) Cons.prems(1) [of 0] Cons.prems(4) by simp
      qed
      let ?db1 = "case DeleteManifest E db {} i of None \<Rightarrow> db | Some (d, _) \<Rightarrow> d"
      have keep: "view ?db1 x = view db x"
        if "x \<in> {manifest_getMetadataKey j, getFilesizeKey j} \<union> range (getFileKey j)" for x
        using that \<open>i \<noteq> j\<close>
        by (auto split: option.splits dest!: DeleteManifest_view)
      show ?thesis
      proof (cases "accepts 0")
        case False
        then show ?thesis using Cons.prems(5) i md keep [OF Cons.prems(6)] by (simp add: kv Let_def)
      next
        case True
        obtain s where
          rest: "manifest_gc_entries E (\<lambda>n. clock (Suc n)) (\<lambda>n. accepts (Suc n)) ?db1 kvs = (db', s)"
          and "sent = i # s"
          using Cons.prems(5) i md True
          by (cases "manifest_gc_entries E (\<lambda>n. clock (Suc n)) (\<lambda>n. accepts (Suc n)) ?db1 kvs")
            (auto simp: kv Let_def)
        moreover have "view ?db1 (manifest_getMetadataKey j) = Some raw"
          using keep Cons.prems(2) by simp
        ultimately show ?thesis
          using IH [OF _ _ rest] Cons.prems(1) keep [OF Cons.prems(6)] \<open>i \<noteq> j\<close> by simp
      qed
    qed
  qed
qed simp

end

subsection \<open>Runs of additions and deletions\<close>

datatype manifest_op = MF_Add string u64 | MF_Delete string

fun manifest_op_apply :: "'db env \<Rightarrow> u64 \<Rightarrow> 'db \<Rightarrow> manifest_op \<Rightarrow> 'db \<times> error option" where
  "manifest_op_apply E i db (MF_Add f n) = AddFileToManifest E db f i n"
| "manifest_op_apply E i db (MF_Delete f) = Repo_DeleteFileInManifest E db f i"

text \<open>The database after a run in which every operation succeeded.\<close>

fun manifest_run :: "'db env \<Rightarrow> u64 \<Rightarrow> 'db \<Rightarrow> manifest_op list \<Rightarrow> 'db option" where
  "manifest_run E i db [] = Some db"
| "manifest_run E i db (x # xs) =
     (case manifest_op_apply E i db x of
        (db', None) \<Rightarrow> manifest_run E i db' xs
      | (db', Some e) \<Rightarrow> None)"

fun files_apply :: "(string \<times> u64) list \<Rightarrow> manifest_op \<Rightarrow> (string \<times> u64) list" where
  "files_apply fs (MF_Add f n) = (f, n) # fs"
| "files_apply fs (MF_Delete f) = filter (\<lambda>x. fst x \<noteq> f) fs"

fun adds_new :: "(string \<times> u64) list \<Rightarrow> manifest_op list \<Rightarrow> bool" where
  "adds_new fs [] = True"
| "adds_new fs (x # xs) =
     ((case x of MF_Add f n \<Rightarrow> f \<notin> fst ` set fs | MF_Delete f \<Rightarrow> True) \<and> adds_new (files_apply fs x) xs)"

context store
begin

lemma manifest_run_files:
  "manifest_files E view db i fs \<Longrightarrow> adds_new fs xs \<Longrightarrow> manifest_run E i db xs = Some db' \<Longrightarrow>
    manifest_files E view db' i (foldl files_apply fs xs)"
proof (induction xs arbitrary: db fs)
  case (Cons x xs)
  then obtain db1 where 1: "manifest_op_apply E i db x = (db1, None)"
    "manifest_run E i db1 xs = Some db'"
    by (auto split: prod.splits option.splits)
  have "manifest_files E view db1 i (files_apply fs x)"
    using Cons.prems 1(1)
    by (cases x) (auto dest: AddFileToManifest_files DeleteFileInManifest_files)
  with Cons.IH [OF this _ 1(2)] Cons.prems(2) show ?case by simp
qed simp

end

context store_up
begin

lemma manifest_files_read:
  assumes "manifest_files E view db i fs"
  shows "GetManifestFilesize E db i =
      Inr (if sint (sum_list (map snd fs)) < 0 then 0 else sum_list (map snd fs))"
    and "GetManifestFileMetadata E db f i = (case map_of fs f of None \<Rightarrow> Inl ErrNotFound
      | Some n \<Rightarrow> Inr \<lparr>File_ManifestId = i, File_Filesize = n\<rparr>)"
proof -
  obtain base where "view db (getFilesizeKey i) = Some base"
    "Unmarshal (C_Mergeable E) base = Inr (Some (Counter (sum_list (map snd fs))))"
    using manifest_filesE [OF assms] .
  then show "GetManifestFilesize E db i =
      Inr (if sint (sum_list (map snd fs)) < 0 then 0 else sum_list (map snd fs))"
    by (simp add: GetManifestFilesize_def get_message_present)
  show "GetManifestFileMetadata E db f i = (case map_of fs f of None \<Rightarrow> Inl ErrNotFound
      | Some n \<Rightarrow> Inr \<lparr>File_ManifestId = i, File_Filesize = n\<rparr>)"
  proof (cases "map_of fs f")
    case None
    then show ?thesis
      using manifest_files_file [OF assms, of f] get_absent
      by (simp add: GetManifestFileMetadata_def get_message_def)
  next
    case (Some n)
    then show ?thesis
      using manifest_files_file [OF assms, of f]
      by (auto simp: GetManifestFileMetadata_def intro!: get_message_present)
  qed
qed

end

subsection \<open>Properties\<close>

text \<open>
  The total size of a manifest is exact. After creating a manifest and any sequence of successful
  additions of new names and deletions, every file reads with its size, deleted files are gone, and
  the reported total is the sum of the sizes of the files present (as a 64-bit counter, clamped to
  zero when it reads negative).
\<close>

theorem manifest_total_exact:
  assumes "store_up E view" and "seq_key q = ''manifest:next_id''"
    and "view db (getFilesizeKey (seq_next q)) = None"
    and "\<And>f. view db (getFileKey (seq_next q) f) = None"
    and "Repo_CreateManifest E db q now u a l = (db0, q', Inr i)"
    and "adds_new [] ops" and "manifest_run E i db0 ops = Some db'"
  shows "let fs = foldl files_apply [] ops; total = sum_list (map snd fs)
    in GetManifestFilesize E db' i = Inr (if sint total < 0 then 0 else total) \<and>
      (\<forall>f. GetManifestFileMetadata E db' f i = (case map_of fs f of None \<Rightarrow> Inl ErrNotFound
        | Some n \<Rightarrow> Inr \<lparr>File_ManifestId = i, File_Filesize = n\<rparr>))"
proof -
  note st = store_up.axioms(1) [OF assms(1)]
  have "manifest_files E view db0 i []" using store.CreateManifest_files [OF st assms(2-5)] .
  from store.manifest_run_files [OF st this assms(6, 7)]
  show ?thesis using store_up.manifest_files_read [OF assms(1)] by (simp add: Let_def)
qed

theorem manifest_total_exact_witness:
  "\<exists>db0 q' db'. Repo_CreateManifest mem_env [] \<lparr>seq_key = ''manifest:next_id'', seq_next = 1, seq_limit = 11\<rparr>
      0 4 9 100 = (db0, q', Inr 1) \<and>
    manifest_run mem_env 1 db0 [MF_Add ''a'' 30, MF_Add ''b'' 12, MF_Delete ''a''] = Some db' \<and>
    GetManifestFilesize mem_env db' 1 = Inr 12"
proof -
  let ?q = "\<lparr>seq_key = ''manifest:next_id'', seq_next = 1, seq_limit = 11\<rparr> :: kvseq"
  let ?ops = "[MF_Add ''a'' 30, MF_Add ''b'' 12, MF_Delete ''a'']"
  obtain db0 q' where cr: "Repo_CreateManifest mem_env [] ?q 0 4 9 100 = (db0, q', Inr 1)"
    by (simp add: Repo_CreateManifest_def GetNextId_in_batch)
  have ab: "\<exists>d. AddFileToManifest mem_env db f 1 n = (d, None) \<and>
      GetManifestFileMetadata mem_env d f 1 = Inr \<lparr>File_ManifestId = 1, File_Filesize = n\<rparr>" for db f n
    by (simp add: AddFileToManifest_def GetManifestFileMetadata_def get_message_def mem_get_def mem_merge_def
        split: sum.splits)
  obtain db1 where db1: "AddFileToManifest mem_env db0 ''a'' 1 30 = (db1, None)"
    "GetManifestFileMetadata mem_env db1 ''a'' 1 = Inr \<lparr>File_ManifestId = 1, File_Filesize = 30\<rparr>"
    using ab by blast
  obtain db2 where db2: "AddFileToManifest mem_env db1 ''b'' 1 12 = (db2, None)" using ab by blast
  have "GetManifestFileMetadata mem_env db2 ''a'' 1 = Inr \<lparr>File_ManifestId = 1, File_Filesize = 30\<rparr>"
    using db1(2) db2
    by (auto simp: AddFileToManifest_def GetManifestFileMetadata_def get_message_def mem_get_def mem_merge_def
        split: sum.splits option.splits if_splits)
  then obtain db' where "Repo_DeleteFileInManifest mem_env db2 ''a'' 1 = (db', None)"
    by (simp add: Repo_DeleteFileInManifest_def GetManifestFileMetadata_def)
  then have run: "manifest_run mem_env 1 db0 ?ops = Some db'" using db1 db2 by simp
  have "GetManifestFilesize mem_env db' 1 = Inr 12"
    using manifest_total_exact [OF mem_store_up _ _ _ cr _ run] by (simp add: Let_def)
  then show ?thesis using cr run by blast
qed

text \<open>
  uploading a name again counts it twice. Adding a file whose name the manifest already has
  replaces its size but adds the whole new size to the total, so the total exceeds the sum of the
  sizes by the size that was replaced.
\<close>

theorem overwrite_counts_twice:
  assumes "store_up E view" and "manifest_files E view db i fs" and "map_of fs f = Some m"
    and "AddFileToManifest E db f i n = (db', None)"
  shows "GetManifestFileMetadata E db' f i = Inr \<lparr>File_ManifestId = i, File_Filesize = n\<rparr> \<and>
    (let total = sum_list (map snd ((f, n) # filter (\<lambda>x. fst x \<noteq> f) fs)) + m
     in GetManifestFilesize E db' i = Inr (if sint total < 0 then 0 else total))"
proof -
  note st = store_up.axioms(1) [OF assms(1)]
  obtain base where base: "distinct (map fst fs)" "view db (getFilesizeKey i) = Some base"
    "Unmarshal (C_Mergeable E) base = Inr (Some (Counter (sum_list (map snd fs))))"
    using store.manifest_filesE [OF st assms(2)] .
  from store.AddFileToManifest_ok [OF st base(2, 3) assms(4)] obtain raw total where
    w: "view db' = (view db)(getFileKey i f \<mapsto> raw, getFilesizeKey i \<mapsto> total)"
      "Unmarshal (C_File E) raw = Inr \<lparr>File_ManifestId = i, File_Filesize = n\<rparr>"
      "Unmarshal (C_Mergeable E) total = Inr (Some (Counter (sum_list (map snd fs) + n)))"
    by blast
  have sum: "sum_list (map snd ((f, n) # filter (\<lambda>x. fst x \<noteq> f) fs)) + m = sum_list (map snd fs) + n"
    using sum_list_remove [OF base(1) assms(3)] by simp
  have "get_message E (C_File E) db' (getFileKey i f) = Inr \<lparr>File_ManifestId = i, File_Filesize = n\<rparr>"
    "get_message E (C_Mergeable E) db' (getFilesizeKey i) = Inr (Some (Counter (sum_list (map snd fs) + n)))"
    using w by (auto intro!: store_up.get_message_present [OF assms(1)])
  then show ?thesis
    unfolding sum by (simp add: GetManifestFileMetadata_def GetManifestFilesize_def Let_def)
qed

theorem overwrite_counts_twice_witness:
  "\<exists>db db'. manifest_files mem_env map_of db 1 [(''a'', 5)] \<and>
    AddFileToManifest mem_env db ''a'' 1 7 = (db', None) \<and> GetManifestFilesize mem_env db' 1 = Inr 12"
proof -
  let ?db = "[(getFilesizeKey 1, decimal (to_nat (Some (Counter 5)))),
    (getFileKey 1 ''a'', decimal (to_nat \<lparr>File_ManifestId = 1, File_Filesize = 5\<rparr>))]"
  have files: "manifest_files mem_env map_of ?db 1 [(''a'', 5)]"
    by (simp add: manifest_files_def)
  obtain db' where add: "AddFileToManifest mem_env ?db ''a'' 1 7 = (db', None)"
    by (simp add: AddFileToManifest_def)
  from overwrite_counts_twice [OF mem_store_up files _ add] files add show ?thesis
    by (auto simp: Let_def)
qed

text \<open>
  the manifest collector spares live manifests: a manifest that was created at most ten minutes
  before the last time a sweep read keeps its metadata, its files and its total, and its id is not
  reported as expired, whatever else the sweep deletes and wherever it is cancelled.
\<close>

theorem manifest_gc_spares_live:
  assumes "store E view" and "\<And>n. clock n \<le> stop"
    and "view db (manifest_getMetadataKey j) = Some raw" and "Unmarshal (C_Manifest E) raw = Inr m"
    and "stop \<le> AsTime (Manifest_CreatedAt m) + ManifestExpireTimeout"
    and "manifest_gc_sweep E clock accepts db = (db', sent)"
  shows "j \<notin> set sent \<and> view db' (manifest_getMetadataKey j) = Some raw \<and>
    view db' (getFilesizeKey j) = view db (getFilesizeKey j) \<and>
    (\<forall>f. view db' (getFileKey j f) = view db (getFileKey j f))"
proof (cases "piter E db (PrefixIterOptions getMetadataPrefix)")
  case (Inl e)
  then show ?thesis using assms(3, 6) by (auto simp: manifest_gc_sweep_def)
next
  case (Inr kvs)
  then have "manifest_gc_entries E clock accepts db kvs = (db', sent)"
    using assms(6) by (simp add: manifest_gc_sweep_def)
  from store.manifest_gc_entries_keeps [OF assms(1-5) this] assms(3) show ?thesis by auto
qed

theorem manifest_gc_spares_live_witness:
  "\<exists>raw db' sent. Marshal (C_Manifest mem_env) \<lparr>Manifest_CreatedAt = Some 0, Manifest_UserId = 1,
      Manifest_AssignmentId = 1, Manifest_UploadLimit = 1\<rparr> = Inr raw \<and>
    manifest_gc_sweep mem_env (\<lambda>n. ManifestExpireTimeout) (\<lambda>n. True)
      [(manifest_getMetadataKey 1, raw)] = (db', sent) \<and>
    map_of db' (manifest_getMetadataKey 1) = Some raw \<and> 1 \<notin> set sent"
proof -
  let ?m = "\<lparr>Manifest_CreatedAt = Some 0, Manifest_UserId = 1, Manifest_AssignmentId = 1,
    Manifest_UploadLimit = 1\<rparr> :: manifest_metadata"
  obtain raw where raw: "Marshal (C_Manifest mem_env) ?m = Inr raw"
    "Unmarshal (C_Manifest mem_env) raw = Inr ?m" by simp
  obtain db' sent where gc: "manifest_gc_sweep mem_env (\<lambda>n. ManifestExpireTimeout) (\<lambda>n. True)
      [(manifest_getMetadataKey 1, raw)] = (db', sent)" by fastforce
  show ?thesis
    using raw gc manifest_gc_spares_live [OF mem_store _ _ raw(2) _ gc, of ManifestExpireTimeout 1]
    by simp
qed

end
