(* ===== verification/Service.thy ===== *)
theory Service
  imports HubWork Token Paths UserRepo CourseRepo LeaderboardRepo VerificationRepo ManifestRepo
begin

section \<open>The autograder service (pkg/grpc/autograder_service.go)\<close>

text \<open>
  What the handlers of \<open>AutograderService\<close> share: its state, the libraries it calls, the context a request
  carries and the answers of the status package. The repositories and the grader hub work on one database,
  which is the database of the hub state.
\<close>

subsection \<open>Token payloads (pkg/api/proto)\<close>

record user_token =
  UT_UserId :: u64
  UT_Username :: string
  UT_Nickname :: string
  UT_IsAdmin :: bool

record upload_token =
  UP_ManifestId :: u64
  UP_Filename :: string
  UP_Filesize :: u64
  UP_UploadLimit :: u64

record download_token =
  DL_RealPath :: string
  DL_Filename :: string
  DL_IsDirectory :: bool
  DL_SubmissionId :: u64

instance user_token_ext :: (countable) countable
  by (rule countable_classI [of "\<lambda>u. to_nat (UT_UserId u, UT_Username u, UT_Nickname u, UT_IsAdmin u,
      user_token.more u)"]) (simp add: user_token.equality)

instance upload_token_ext :: (countable) countable
  by (rule countable_classI [of "\<lambda>u. to_nat (UP_ManifestId u, UP_Filename u, UP_Filesize u, UP_UploadLimit u,
      upload_token.more u)"]) (simp add: upload_token.equality)

instance download_token_ext :: (countable) countable
  by (rule countable_classI [of "\<lambda>u. to_nat (DL_RealPath u, DL_Filename u, DL_IsDirectory u, DL_SubmissionId u,
      download_token.more u)"]) (simp add: download_token.equality)

subsection \<open>The libraries\<close>

text \<open>
  JWT, the codecs of the token payloads, the captcha service, \<open>bcrypt\<close> (the salt is drawn inside
  \<open>GenerateFromPassword\<close>), \<open>mail.ParseAddress\<close>, the GitHub client (an exchange of the code for a token,
  the login of the user, the e-mail addresses with the flags verified and primary), the mailer (whether
  the \<open>n\<close>th attempt succeeds), \<open>grpc.SetHeader\<close>, the MIME sniffer and the file system.
\<close>

record 'fs lib =
  lib_jwt :: jwt
  C_UserToken :: "user_token codec"
  C_UploadToken :: "upload_token codec"
  C_DownloadToken :: "download_token codec"
  VerifyToken :: "string \<Rightarrow> bool"
  GenerateFromPassword :: "bytes \<Rightarrow> error + bytes"
  CompareHashAndPassword :: "bytes \<Rightarrow> bytes \<Rightarrow> bool"
  ParseAddress :: "string \<Rightarrow> bool"
  gh_Exchange :: "string \<Rightarrow> error + string"
  gh_GetUser :: "string \<Rightarrow> error + string"
  gh_ListEmails :: "string \<Rightarrow> error + (string \<times> bool \<times> bool) list"
  SendMail :: "nat \<Rightarrow> string \<Rightarrow> string \<Rightarrow> string \<Rightarrow> bool"
  SetHeader :: "string \<Rightarrow> bool"
  DetectContentType :: "bytes \<Rightarrow> string"
  lib_os :: "'fs os"

subsection \<open>State\<close>

text \<open>
  A \<open>go\<close> statement of a handler adds a task; tasks run in any order, interleaved with the handlers.
  \<open>svc_mails\<close> are the messages the mailer took: address, subject and text.
\<close>

datatype svc_task = Task_runSubmission u64 u64 | Task_regradeSubmission u64 u64 | Task_pullImage string
  | Task_sendEmailCode string string string

record ('db, 'fs) svc =
  svc_hub :: "'db hub"
  svc_fs :: 'fs
  svc_basePath :: string
  svc_user_seq :: kvseq
  svc_course_seq :: kvseq
  svc_assignment_seq :: kvseq
  svc_submission_seq :: kvseq
  svc_manifest_seq :: kvseq
  svc_locks :: manifest_locks
  userJWTSignKey :: bytes
  uploadJWTSignKey :: bytes
  downloadJWTSignKey :: bytes
  svc_tasks :: "svc_task list"
  svc_mails :: "(string \<times> string \<times> string) list"

definition svc_db :: "('db, 'fs) svc \<Rightarrow> 'db" where
  "svc_db a = hub_db (svc_hub a)"

definition with_db :: "('db, 'fs) svc \<Rightarrow> 'db \<Rightarrow> ('db, 'fs) svc" where
  "with_db a db = a\<lparr>svc_hub := (svc_hub a)\<lparr>hub_db := db\<rparr>\<rparr>"

definition spawn :: "('db, 'fs) svc \<Rightarrow> svc_task \<Rightarrow> ('db, 'fs) svc" where
  "spawn a t = a\<lparr>svc_tasks := svc_tasks a @ [t]\<rparr>"

definition MinPasswordLength :: nat where "MinPasswordLength = 8"
definition MaxNicknameLength :: nat where "MaxNicknameLength = 16"
definition MaxStudentIdLength :: nat where "MaxStudentIdLength = 16"

definition UserTokenValidDuration :: time where
  "UserTokenValidDuration = 3 * 3600 * nanosecond_per_second"

definition TransferTokenValidDuration :: time where
  "TransferTokenValidDuration = 60 * nanosecond_per_second"

definition MIMESniffLength :: nat where "MIMESniffLength = 512"

definition EmailCodeValidDuration :: time where
  "EmailCodeValidDuration = 10 * 60 * nanosecond_per_second"

definition PasswordResetRepoType :: string where "PasswordResetRepoType = ''password_reset''"
definition SignUpRepoType :: string where "SignUpRepoType = ''sign_up''"

subsection \<open>Requests and their context\<close>

text \<open>
  A request as the interceptor sees it: the getters its message type has. \<open>rq_bearer\<close> is what
  \<open>auth.AuthFromMD\<close> finds in the metadata of the call.
\<close>

record request =
  rq_bearer :: "error + string"
  rq_captcha :: "string option"
  rq_courseId :: "u64 option"
  rq_assignmentId :: "u64 option"
  rq_submissionId :: "u64 option"
  rq_manifestId :: "u64 option"

text \<open>
  The values of the context, and \<open>cx_token\<close>, the \<open>token\<close> header of the answer. Reading a value that is
  not there with a type assertion panics.
\<close>

record ctx =
  cx_user :: "user_token option"
  cx_courseId :: "u64 option"
  cx_submissionId :: "u64 option"
  cx_submission :: "submission option"
  cx_assignment :: "assignment option"
  cx_member :: "course_member option"
  cx_token :: "string option"

definition empty_ctx :: ctx where
  "empty_ctx = \<lparr>cx_user = None, cx_courseId = None, cx_submissionId = None, cx_submission = None,
     cx_assignment = None, cx_member = None, cx_token = None\<rparr>"

definition must :: "'a option \<Rightarrow> error + 'a" where
  "must v = (case v of None \<Rightarrow> Inl Panic | Some x \<Rightarrow> Inr x)"

lemma must_simps [simp]: "must None = Inl Panic" "must (Some x) = Inr x"
  by (simp_all add: must_def)

definition is_staff :: "course_member \<Rightarrow> bool" where
  "is_staff m \<longleftrightarrow> Member_Role m = CourseRole_TA \<or> Member_Role m = CourseRole_Instructor"

text \<open>The first step of a handler that may fail: the error ends it, the state so far stays.\<close>

definition attempt :: "'s \<Rightarrow> error + 'a \<Rightarrow> ('a \<Rightarrow> 's \<times> (error + 'r)) \<Rightarrow> 's \<times> (error + 'r)" where
  "attempt a r f = (case r of Inl e \<Rightarrow> (a, Inl e) | Inr x \<Rightarrow> f x)"

text \<open>A result that may be an error, with the status the handler answers then.\<close>

definition or_status :: "error + 'a \<Rightarrow> code \<Rightarrow> string \<Rightarrow> error + 'a" where
  "or_status r c s = (case r of Inl e \<Rightarrow> Inl (StatusErr c s) | Inr x \<Rightarrow> Inr x)"

definition fail_status :: "error option \<Rightarrow> code \<Rightarrow> string \<Rightarrow> error + unit" where
  "fail_status r c s = (case r of Some e \<Rightarrow> Inl (StatusErr c s) | None \<Rightarrow> Inr ())"

definition guard :: "bool \<Rightarrow> code \<Rightarrow> string \<Rightarrow> error + unit" where
  "guard b c s = (if b then Inl (StatusErr c s) else Inr ())"

lemma attempt_simps [simp]: "attempt a (Inl e) f = (a, Inl e)" "attempt a (Inr x) f = f x"
  by (simp_all add: attempt_def)

lemma or_status_simps [simp]:
  "or_status (Inl e) c s = Inl (StatusErr c s)" "or_status (Inr x) c s = Inr x"
  by (simp_all add: or_status_def)

lemma fail_status_simps [simp]: "fail_status (Some e) c s = Inl (StatusErr c s)" "fail_status None c s = Inr ()"
  by (simp_all add: fail_status_def)

lemma guard_simps [simp]: "guard True c s = Inl (StatusErr c s)" "guard False c s = Inr ()"
  by (simp_all add: guard_def)

lemma attempt_Inr: "attempt a r f = (a', Inr y) \<longleftrightarrow> (\<exists>x. r = Inr x \<and> f x = (a', Inr y))"
  by (cases r) auto

lemma or_status_Inr [simp]: "or_status r c s = Inr x \<longleftrightarrow> r = Inr x"
  by (cases r) auto

lemma fail_status_Inr [simp]: "fail_status r c s = Inr u \<longleftrightarrow> r = None"
  by (cases r) auto

lemma guard_Inr [simp]: "guard b c s = Inr u \<longleftrightarrow> \<not> b"
  by (cases b) auto

lemma must_Inr [simp]: "must v = Inr x \<longleftrightarrow> v = Some x"
  by (cases v) auto

lemma with_db_simps [simp]:
  "svc_db (with_db a db) = db" "svc_fs (with_db a db) = svc_fs a" "svc_locks (with_db a db) = svc_locks a"
  "svc_mails (with_db a db) = svc_mails a" "with_db (with_db a db) db' = with_db a db'"
  "with_db a (svc_db a) = a" "svc_basePath (with_db a db) = svc_basePath a"
  "hub_db (svc_hub (with_db a db)) = db" "svc_tasks (with_db a db) = svc_tasks a"
  "svc_db (spawn a t) = svc_db a" "svc_hub (spawn a t) = svc_hub a" "svc_fs (spawn a t) = svc_fs a"
  "svc_tasks (spawn a t) = svc_tasks a @ [t]"
  "userJWTSignKey (with_db a db) = userJWTSignKey a" "uploadJWTSignKey (with_db a db) = uploadJWTSignKey a"
  "downloadJWTSignKey (with_db a db) = downloadJWTSignKey a"
  by (simp_all add: with_db_def svc_db_def spawn_def)

subsection \<open>The grader the service talks to (pkg/grader/programming.go)\<close>

text \<open>
  \<open>HubGrader\<close> hands submissions to the hub. With a notification channel it subscribes first and forwards
  from that mailbox; the service passes none.
\<close>

definition HubGrader_PullImage :: "string \<Rightarrow> error option" where
  "HubGrader_PullImage imageRef = None"

definition HubGrader_GradeSubmission ::
    "'db env \<Rightarrow> 'db hub \<Rightarrow> u64 \<Rightarrow> submission \<Rightarrow> programming_config option \<Rightarrow> bool \<Rightarrow> 'db hub \<times> nat option" where
  "HubGrader_GradeSubmission E h submissionId sub config notify =
     (let request = \<lparr>Req_SubmissionId = submissionId, Req_Submission = Some sub, Req_Config = config,
            Req_IsCancel = False, Req_IsStreamLog = False, Req_RequestId = []\<rparr>
      in if \<not> notify then (EnqueueGrade E h request, None)
         else (case Subscribe h submissionId of
                 (h1, m) \<Rightarrow> (EnqueueGrade E h1 request, Some m)))"

subsection \<open>A small server for the witnesses\<close>

definition test_lib :: "(string \<rightharpoonup> bytes) lib" where
  "test_lib = \<lparr>lib_jwt = plain_jwt, C_UserToken = counting_codec (from_nat 0),
     C_UploadToken = counting_codec (from_nat 0), C_DownloadToken = counting_codec (from_nat 0),
     VerifyToken = (\<lambda>_. True), GenerateFromPassword = (\<lambda>p. Inr (''hash '' @ p)),
     CompareHashAndPassword = (\<lambda>h p. h = ''hash '' @ p), ParseAddress = (\<lambda>s. CHR ''@'' \<in> set s),
     gh_Exchange = (\<lambda>code. Inr code), gh_GetUser = (\<lambda>token. Inr token),
     gh_ListEmails = (\<lambda>token. Inr [(token @ ''@example.com'', True, True)]), SendMail = (\<lambda>_ _ _ _. True),
     SetHeader = (\<lambda>_. True), DetectContentType = (\<lambda>_. ''text/plain''), lib_os = map_os\<rparr>"

definition test_svc :: "mem_db \<Rightarrow> (mem_db, string \<rightharpoonup> bytes) svc" where
  "test_svc db = (let q = \<lparr>seq_key = ''q'', seq_next = 1, seq_limit = 100\<rparr> in
     \<lparr>svc_hub = initial_hub db q ''hub'', svc_fs = Map.empty, svc_basePath = ''data'', svc_user_seq = q,
      svc_course_seq = q, svc_assignment_seq = q, svc_submission_seq = q, svc_manifest_seq = q, svc_locks = {},
      userJWTSignKey = ''user'', uploadJWTSignKey = ''upload'', downloadJWTSignKey = ''download'',
      svc_tasks = [], svc_mails = []\<rparr>)"

lemma test_svc_simps [simp]:
  "svc_db (test_svc db) = db" "userJWTSignKey (test_svc db) = ''user''" "svc_locks (test_svc db) = {}"
  "svc_hub (test_svc db) = initial_hub db \<lparr>seq_key = ''q'', seq_next = 1, seq_limit = 100\<rparr> ''hub''"
  by (simp_all add: test_svc_def svc_db_def initial_hub_def Let_def)

lemma test_svc_seqs [simp]:
  "svc_submission_seq (test_svc db) = \<lparr>seq_key = ''q'', seq_next = 1, seq_limit = 100\<rparr>"
  "svc_manifest_seq (test_svc db) = \<lparr>seq_key = ''q'', seq_next = 1, seq_limit = 100\<rparr>"
  "svc_user_seq (test_svc db) = \<lparr>seq_key = ''q'', seq_next = 1, seq_limit = 100\<rparr>"
  "svc_course_seq (test_svc db) = \<lparr>seq_key = ''q'', seq_next = 1, seq_limit = 100\<rparr>"
  "svc_assignment_seq (test_svc db) = \<lparr>seq_key = ''q'', seq_next = 1, seq_limit = 100\<rparr>"
  "svc_tasks (test_svc db) = []" "svc_mails (test_svc db) = []" "svc_fs (test_svc db) = Map.empty"
  "svc_basePath (test_svc db) = ''data''" "uploadJWTSignKey (test_svc db) = ''upload''"
  "downloadJWTSignKey (test_svc db) = ''download''"
  by (simp_all add: test_svc_def Let_def)

lemma test_lib_simps [simp]:
  "lib_jwt test_lib = plain_jwt" "C_UserToken test_lib = counting_codec (from_nat 0)"
  "C_UploadToken test_lib = counting_codec (from_nat 0)" "C_DownloadToken test_lib = counting_codec (from_nat 0)"
  "SetHeader test_lib s" "lib_os test_lib = map_os" "VerifyToken test_lib s"
  "GenerateFromPassword test_lib p = Inr (''hash '' @ p)"
  "CompareHashAndPassword test_lib h p \<longleftrightarrow> h = ''hash '' @ p"
  "ParseAddress test_lib s \<longleftrightarrow> CHR ''@'' \<in> set s" "DetectContentType test_lib b = ''text/plain''"
  by (simp_all add: test_lib_def)

text \<open>A login token made at time zero.\<close>

definition test_token :: "user_token \<Rightarrow> string" where
  "test_token u = (case signPayloadToken plain_jwt 0 ''user'' (counting_codec (from_nat 0)) u
     UserTokenValidDuration of Inl e \<Rightarrow> [] | Inr ss \<Rightarrow> ss)"

definition test_request :: "user_token \<Rightarrow> u64 option \<Rightarrow> u64 option \<Rightarrow> request" where
  "test_request u asg sub = \<lparr>rq_bearer = Inr (test_token u), rq_captcha = None, rq_courseId = None,
     rq_assignmentId = asg, rq_submissionId = sub, rq_manifestId = None\<rparr>"

lemma test_request_simps [simp]:
  "rq_bearer (test_request u asg sub) = Inr (test_token u)" "rq_courseId (test_request u asg sub) = None"
  "rq_assignmentId (test_request u asg sub) = asg" "rq_submissionId (test_request u asg sub) = sub"
  by (simp_all add: test_request_def)

lemma sign_plain: "\<exists>ss. signPayloadToken plain_jwt now k (counting_codec d) m t = Inr ss"
  by (simp add: signPayloadToken_def plain_jwt_def)

lemma test_token_parses:
  assumes "now < UserTokenValidDuration"
  shows "parseTokenPayload plain_jwt now ''user'' (test_token u) = Inr (decimal (to_nat u))"
proof -
  obtain ss where s: "signPayloadToken plain_jwt 0 ''user'' (counting_codec (from_nat 0)) u
      UserTokenValidDuration = Inr ss" using sign_plain by blast
  then have "parseTokenPayload plain_jwt now ''user'' ss = Inr (decimal (to_nat u))"
    using token_parses [OF plain_jwt_ok s, of now] assms by (simp add: UserTokenValidDuration_def)
  then show ?thesis by (simp add: test_token_def s)
qed

definition test_user :: "u64 \<Rightarrow> user_token" where
  "test_user i = \<lparr>UT_UserId = i, UT_Username = ''u'', UT_Nickname = ''n'', UT_IsAdmin = True\<rparr>"

end
