(* ===== verification/Interceptor.thy ===== *)
theory Interceptor
  imports Service
begin

section \<open>Authorisation (pkg/grpc/interceptor.go)\<close>

text \<open>
  Every method has a chain of auth functions; each sees the request and the context the ones before it
  built, and may refuse. An auth function returns the context and an error, as in Go; the header that
  \<open>RequireLogin\<close> sets stays with the call even when a later function refuses, so it is kept with the
  context of an error too.
\<close>

type_synonym auth_result = "ctx \<times> error option"

definition NoopAuth :: "request \<Rightarrow> ctx \<Rightarrow> auth_result" where
  "NoopAuth req c = (c, None)"

definition RequireCaptcha :: "'fs lib \<Rightarrow> request \<Rightarrow> ctx \<Rightarrow> auth_result" where
  "RequireCaptcha L req c =
     (case rq_captcha req of
        None \<Rightarrow> (c, Some (StatusErr InvalidArgument ''NO_CAPTCHA''))
      | Some captcha \<Rightarrow>
          if captcha = [] then (c, Some (StatusErr InvalidArgument ''NO_CAPTCHA''))
          else if \<not> VerifyToken L captcha then (c, Some (StatusErr InvalidArgument ''INVALID_CAPTCHA''))
          else (c, None))"

text \<open>The token is parsed, and a fresh one with the same payload goes into the header.\<close>

definition RequireLogin ::
    "'fs lib \<Rightarrow> ('db, 'fs) svc \<Rightarrow> time \<Rightarrow> request \<Rightarrow> ctx \<Rightarrow> auth_result" where
  "RequireLogin L a now req c =
     (case rq_bearer req of
        Inl e \<Rightarrow> (c, Some e)
      | Inr token \<Rightarrow>
          (case parseTokenPayload (lib_jwt L) now (userJWTSignKey a) token of
             Inl e \<Rightarrow> (c, Some (StatusErr Unauthenticated ''INVALID_TOKEN''))
           | Inr payload \<Rightarrow>
               (case Unmarshal (C_UserToken L) payload of
                  Inl e \<Rightarrow> (c, Some (StatusErr Unauthenticated ''INVALID_TOKEN''))
                | Inr payloadPB \<Rightarrow>
                    let c1 = (case signPayloadToken (lib_jwt L) now (userJWTSignKey a) (C_UserToken L)
                                     payloadPB (now + UserTokenValidDuration) of
                                Inl e \<Rightarrow> c
                              | Inr ss \<Rightarrow> if SetHeader L ss then c\<lparr>cx_token := Some ss\<rparr> else c)
                    in (c1\<lparr>cx_user := Some payloadPB\<rparr>, None))))"

definition getCourseIdFromAssignmentId ::
    "'db env \<Rightarrow> ('db, 'fs) svc \<Rightarrow> u64 \<Rightarrow> error + u64 \<times> assignment" where
  "getCourseIdFromAssignmentId E a assignmentId =
     (case Repo_GetAssignment E (svc_db a) assignmentId of
        Inl e \<Rightarrow> Inl (StatusErr NotFound ''INVALID_ASSIGNMENT_ID'')
      | Inr asg \<Rightarrow> Inr (Assignment_CourseId asg, asg))"

definition getAssignmentIdFromSubmissionId ::
    "'db env \<Rightarrow> ('db, 'fs) svc \<Rightarrow> u64 \<Rightarrow> error + u64 \<times> submission" where
  "getAssignmentIdFromSubmissionId E a submissionId =
     (case Repo_GetSubmission E (svc_db a) submissionId of
        Inl e \<Rightarrow> Inl (StatusErr NotFound ''INVALID_SUBMISSION_ID'')
      | Inr sub \<Rightarrow> Inr (Submission_AssignmentId sub, sub))"

text \<open>The getters are tried in the order of the code.\<close>

definition Svc_GetCourseId :: "'db env \<Rightarrow> ('db, 'fs) svc \<Rightarrow> request \<Rightarrow> ctx \<Rightarrow> auth_result" where
  "Svc_GetCourseId E a req c =
     (case (case rq_courseId req of
              Some courseId \<Rightarrow> (c, Inr courseId)
            | None \<Rightarrow>
                (case rq_assignmentId req of
                   Some assignmentId \<Rightarrow>
                     (case getCourseIdFromAssignmentId E a assignmentId of
                        Inl e \<Rightarrow> (c, Inl e)
                      | Inr (courseId, asg) \<Rightarrow> (c\<lparr>cx_assignment := Some asg\<rparr>, Inr courseId))
                 | None \<Rightarrow>
                     (case rq_submissionId req of
                        None \<Rightarrow> (c, Inr 0)
                      | Some submissionId \<Rightarrow>
                          let c1 = c\<lparr>cx_submissionId := Some submissionId\<rparr>
                          in (case getAssignmentIdFromSubmissionId E a submissionId of
                                Inl e \<Rightarrow> (c1, Inl e)
                              | Inr (assignmentId, sub) \<Rightarrow>
                                  let c2 = c1\<lparr>cx_submission := Some sub\<rparr>
                                  in (case getCourseIdFromAssignmentId E a assignmentId of
                                        Inl e \<Rightarrow> (c2, Inl e)
                                      | Inr (courseId, asg) \<Rightarrow>
                                          (c2\<lparr>cx_assignment := Some asg\<rparr>, Inr courseId)))))) of
        (c', Inl e) \<Rightarrow> (c', Some e)
      | (c', Inr courseId) \<Rightarrow>
          if courseId = 0 then (c', Some (StatusErr InvalidArgument ''MISSING_COURSE_ID''))
          else (c'\<lparr>cx_courseId := Some courseId\<rparr>, None))"

definition RequireInCourse :: "'db env \<Rightarrow> ('db, 'fs) svc \<Rightarrow> request \<Rightarrow> ctx \<Rightarrow> auth_result" where
  "RequireInCourse E a req c =
     (case (cx_user c, cx_courseId c) of
        (Some user, Some courseId) \<Rightarrow>
          (case GetCourseMember E (svc_db a) (UT_UserId user) courseId of
             None \<Rightarrow> (c, Some (StatusErr PermissionDenied ''NOT_IN_COURSE''))
           | Some member \<Rightarrow> (c\<lparr>cx_member := Some member\<rparr>, None))
      | _ \<Rightarrow> (c, Some Panic))"

definition RequireAdmin :: "request \<Rightarrow> ctx \<Rightarrow> auth_result" where
  "RequireAdmin req c =
     (case cx_user c of
        None \<Rightarrow> (c, Some Panic)
      | Some user \<Rightarrow>
          if \<not> UT_IsAdmin user then (c, Some (StatusErr PermissionDenied ''NOT_ADMIN'')) else (c, None))"

definition CheckManifest :: "'db env \<Rightarrow> ('db, 'fs) svc \<Rightarrow> request \<Rightarrow> ctx \<Rightarrow> auth_result" where
  "CheckManifest E a req c =
     (case cx_user c of
        None \<Rightarrow> (c, Some Panic)
      | Some user \<Rightarrow>
          (case rq_manifestId req of
             None \<Rightarrow> (c, Some (StatusErr InvalidArgument ''MANIFEST_ID''))
           | Some manifestId \<Rightarrow>
               (case GetManifest E (svc_db a) manifestId of
                  Inl e \<Rightarrow> (c, Some (StatusErr DeadlineExceeded ''MANIFEST_EXPIRED''))
                | Inr manifest \<Rightarrow>
                    if Manifest_UserId manifest \<noteq> UT_UserId user
                    then (c, Some (StatusErr PermissionDenied ''WRONG_USER'')) else (c, None))))"

definition RequireCourseWrite :: "request \<Rightarrow> ctx \<Rightarrow> auth_result" where
  "RequireCourseWrite req c =
     (case cx_member c of
        None \<Rightarrow> (c, Some Panic)
      | Some member \<Rightarrow>
          if Member_Role member = CourseRole_Reader \<or> Member_Role member = CourseRole_Student
          then (c, Some (StatusErr PermissionDenied ''ROLE_UNAUTHORIZED'')) else (c, None))"

definition RequireSubmissionRead :: "request \<Rightarrow> ctx \<Rightarrow> auth_result" where
  "RequireSubmissionRead req c =
     (case cx_submission c of
        None \<Rightarrow> (c, Some (StatusErr PermissionDenied ''SUBMISSION_UNAUTHORIZED''))
      | Some sub \<Rightarrow>
          (case cx_user c of
             None \<Rightarrow> (c, Some Panic)
           | Some user \<Rightarrow>
               if UT_UserId user \<in> set (Submission_Submitters sub) then (c, None)
               else (case cx_member c of
                       None \<Rightarrow> (c, Some Panic)
                     | Some member \<Rightarrow>
                         if is_staff member then (c, None)
                         else (c, Some (StatusErr PermissionDenied ''SUBMISSION_UNAUTHORIZED'')))))"

definition NotAfterDueDate :: "time \<Rightarrow> request \<Rightarrow> ctx \<Rightarrow> auth_result" where
  "NotAfterDueDate now req c =
     (case cx_member c of
        None \<Rightarrow> (c, Some Panic)
      | Some member \<Rightarrow>
          if is_staff member then (c, None)
          else (case cx_assignment c of
                  None \<Rightarrow> (c, Some Panic)
                | Some asg \<Rightarrow>
                    if AsTime (Assignment_DueDate asg) < now
                    then (c, Some (StatusErr PermissionDenied ''AFTER_DUE_DATE''))
                    else if now < AsTime (Assignment_ReleaseDate asg)
                    then (c, Some (StatusErr PermissionDenied ''BEFORE_RELEASE_DATE''))
                    else (c, None)))"

subsection \<open>The table\<close>

text \<open>The auth functions by name, so that the table is data.\<close>

datatype auth_func = F_NoopAuth | F_RequireCaptcha | F_RequireLogin | F_GetCourseId | F_RequireInCourse
  | F_RequireAdmin | F_CheckManifest | F_RequireCourseWrite | F_RequireSubmissionRead | F_NotAfterDueDate

definition MethodAuthFunc ::
    "'db env \<Rightarrow> 'fs lib \<Rightarrow> ('db, 'fs) svc \<Rightarrow> time \<Rightarrow> auth_func \<Rightarrow> request \<Rightarrow> ctx \<Rightarrow> auth_result" where
  "MethodAuthFunc E L a now f =
     (case f of
        F_NoopAuth \<Rightarrow> NoopAuth | F_RequireCaptcha \<Rightarrow> RequireCaptcha L | F_RequireLogin \<Rightarrow> RequireLogin L a now
      | F_GetCourseId \<Rightarrow> Svc_GetCourseId E a | F_RequireInCourse \<Rightarrow> RequireInCourse E a
      | F_RequireAdmin \<Rightarrow> RequireAdmin | F_CheckManifest \<Rightarrow> CheckManifest E a
      | F_RequireCourseWrite \<Rightarrow> RequireCourseWrite | F_RequireSubmissionRead \<Rightarrow> RequireSubmissionRead
      | F_NotAfterDueDate \<Rightarrow> NotAfterDueDate now)"

definition staff_methods :: "string list" where
  "staff_methods = [''CreateAssignment'', ''GetCourseMembers'', ''RemoveCourseMembers'', ''AddCourseMembers'',
     ''UpdateCourse'', ''UpdateAssignment'', ''UpdateCourseMember'', ''CanWriteCourse'', ''GenerateJoinCode'',
     ''ChangeAllowsJoinCourse'', ''InspectAllSubmissionsInAssignment'', ''InspectUserSubmissionHistory'',
     ''RegradeSubmission'', ''RegradeAssignment'', ''ChangeLeaderboardAnonymous'', ''ExportAssignmentGrades'',
     ''DeleteLeaderboard'']"

definition submission_methods :: "string list" where
  "submission_methods = [''InitDownload'', ''GetFilesInSubmission'', ''GetSubmissionReport'',
     ''SubscribeSubmission'', ''CancelSubmission'', ''StreamLog'']"

definition admin_methods :: "string list" where
  "admin_methods = [''GetAllGraders'', ''SearchUser'', ''SetAdmin'', ''CreateCourse'', ''GetAllUsers'',
     ''GetAllCourses'', ''RemoveGrader'', ''GetGradeQueue'']"

text \<open>The methods are named without the prefix \<open>/AutograderService/\<close> of the generated constants.\<close>

definition authMaps :: "(string list \<times> auth_func list) list" where
  "authMaps =
     [([''Login'', ''SignUp'', ''ResetPassword'', ''GithubLogin''], [F_NoopAuth]),
      ([''RequestPasswordReset'', ''RequestSignUpToken''], [F_RequireCaptcha]),
      ([''GetCourseList'', ''GetUser'', ''BindGithub'', ''UnbindGithub'', ''UpdateUser'', ''UpdatePassword'',
        ''JoinCourse''], [F_RequireLogin]),
      ([''InitUpload'', ''DeleteFileInManifest''], [F_RequireLogin, F_CheckManifest]),
      (admin_methods, [F_RequireLogin, F_RequireAdmin]),
      ([''GetAssignment'', ''GetAssignmentsInCourse'', ''GetSubmissionsInAssignment'', ''GetLeaderboard'',
        ''HasLeaderboard'', ''GetCourse''], [F_RequireLogin, F_GetCourseId, F_RequireInCourse]),
      ([''CreateSubmission'', ''CreateManifest''],
        [F_RequireLogin, F_GetCourseId, F_RequireInCourse, F_NotAfterDueDate]),
      (staff_methods, [F_RequireLogin, F_GetCourseId, F_RequireInCourse, F_RequireCourseWrite]),
      (submission_methods, [F_RequireLogin, F_GetCourseId, F_RequireInCourse, F_RequireSubmissionRead]),
      ([''ActivateSubmission''],
        [F_RequireLogin, F_GetCourseId, F_RequireInCourse, F_RequireSubmissionRead, F_NotAfterDueDate])]"

text \<open>Registering a method twice panics.\<close>

fun register_methods :: "(string \<times> auth_func list) list \<Rightarrow> auth_func list \<Rightarrow> string list \<Rightarrow>
    error + (string \<times> auth_func list) list" where
  "register_methods table fs [] = Inr table"
| "register_methods table fs (m # ms) =
     (if map_of table m \<noteq> None then Inl Panic else register_methods ((m, fs) # table) fs ms)"

fun register_all :: "(string \<times> auth_func list) list \<Rightarrow> (string list \<times> auth_func list) list \<Rightarrow>
    error + (string \<times> auth_func list) list" where
  "register_all table [] = Inr table"
| "register_all table ((ms, fs) # rest) =
     (case register_methods table fs ms of Inl e \<Rightarrow> Inl e | Inr table' \<Rightarrow> register_all table' rest)"

definition initAuthFuncs :: "error + (string \<times> auth_func list) list" where
  "initAuthFuncs = register_all [] authMaps"

fun run_chain :: "'db env \<Rightarrow> 'fs lib \<Rightarrow> ('db, 'fs) svc \<Rightarrow> time \<Rightarrow> request \<Rightarrow> ctx \<Rightarrow> auth_func list \<Rightarrow>
    auth_result" where
  "run_chain E L a now req c [] = (c, None)"
| "run_chain E L a now req c (f # fs) =
     (case MethodAuthFunc E L a now f req c of
        (c', Some e) \<Rightarrow> (c', Some e)
      | (c', None) \<Rightarrow> run_chain E L a now req c' fs)"

definition AuthFunc ::
    "'db env \<Rightarrow> 'fs lib \<Rightarrow> ('db, 'fs) svc \<Rightarrow> time \<Rightarrow> request \<Rightarrow> string \<Rightarrow> auth_result" where
  "AuthFunc E L a now req meth =
     (case initAuthFuncs of
        Inl e \<Rightarrow> (empty_ctx, Some e)
      | Inr table \<Rightarrow>
          (case map_of table meth of
             None \<Rightarrow> (empty_ctx, Some (StatusErr NotFound ''METHOD_AUTH''))
           | Some fs \<Rightarrow> run_chain E L a now req empty_ctx fs))"

text \<open>The interceptor of unary calls: the handler runs with the context, or not at all.\<close>

definition UnaryAuth ::
    "'db env \<Rightarrow> 'fs lib \<Rightarrow> time \<Rightarrow> request \<Rightarrow> string \<Rightarrow>
      (('db, 'fs) svc \<Rightarrow> ctx \<Rightarrow> ('db, 'fs) svc \<times> (error + 'r)) \<Rightarrow>
      ('db, 'fs) svc \<Rightarrow> ('db, 'fs) svc \<times> (error + 'r)" where
  "UnaryAuth E L now req meth handler a =
     (case AuthFunc E L a now req meth of
        (c, Some e) \<Rightarrow> (a, Inl e)
      | (c, None) \<Rightarrow> handler a c)"

text \<open>
  The interceptor of streams only wraps the stream: the handlers of \<open>SubscribeSubmission\<close> and \<open>StreamLog\<close>
  call \<open>AuthFunc\<close> themselves.
\<close>

definition StreamAuth :: "(('db, 'fs) svc \<Rightarrow> ('db, 'fs) svc \<times> 'r) \<Rightarrow> ('db, 'fs) svc \<Rightarrow> ('db, 'fs) svc \<times> 'r" where
  "StreamAuth handler a = handler a"

subsection \<open>Lemmas\<close>

lemma initAuthFuncs_Inr: "\<exists>table. initAuthFuncs = Inr table"
  unfolding initAuthFuncs_def authMaps_def staff_methods_def submission_methods_def admin_methods_def
  by (simp only: register_all.simps register_methods.simps) simp

lemma register_methods_map:
  "register_methods table fs ms = Inr t \<Longrightarrow>
     map_of t m = (if m \<in> set ms then Some fs else map_of table m) \<and> (m \<in> set ms \<longrightarrow> map_of table m = None)"
proof (induction ms arbitrary: table)
  case (Cons x ms)
  then show ?case using Cons.IH [of "(x, fs) # table"] by (simp split: if_splits)
qed simp

lemma register_all_map:
  "register_all table maps = Inr t \<Longrightarrow>
     (map_of table m = Some fs \<longrightarrow> map_of t m = Some fs) \<and>
     ((ms, fs) \<in> set maps \<and> m \<in> set ms \<longrightarrow> map_of t m = Some fs) \<and>
     (map_of t m = Some fs \<longrightarrow> map_of table m = Some fs \<or> (\<exists>ms. (ms, fs) \<in> set maps \<and> m \<in> set ms))"
proof (induction maps arbitrary: table)
  case (Cons x rest)
  obtain ms' fs' where x: "x = (ms', fs')" by (cases x)
  obtain table' where t': "register_methods table fs' ms' = Inr table'" "register_all table' rest = Inr t"
    using Cons.prems by (auto simp: x split: sum.splits)
  show ?case using Cons.IH [OF t'(2)] register_methods_map [OF t'(1), of m] by (auto simp: x split: if_splits)
qed simp

lemma AuthFunc_chain:
  assumes "(ms, fs) \<in> set authMaps" and "meth \<in> set ms"
  shows "AuthFunc E L a now req meth = run_chain E L a now req empty_ctx fs"
proof -
  obtain table where t: "initAuthFuncs = Inr table" using initAuthFuncs_Inr by blast
  then have "map_of table meth = Some fs"
    using register_all_map [of "[]" authMaps table meth fs ms] assms by (simp add: initAuthFuncs_def)
  then show ?thesis by (simp add: AuthFunc_def t)
qed

lemma run_chain_ok: "run_chain E L a now req c (f # fs) = (c', None) \<longleftrightarrow>
    (\<exists>c1. MethodAuthFunc E L a now f req c = (c1, None) \<and> run_chain E L a now req c1 fs = (c', None))"
  by (auto split: prod.splits option.splits)

declare run_chain.simps(2) [simp del]

lemma run_chain_single: "run_chain E L a now req c [f] = MethodAuthFunc E L a now f req c"
  by (auto simp: run_chain.simps(2) split: prod.splits option.splits)

lemma MethodAuthFunc_simps [simp]:
  "MethodAuthFunc E L a now F_NoopAuth = NoopAuth"
  "MethodAuthFunc E L a now F_RequireCaptcha = RequireCaptcha L"
  "MethodAuthFunc E L a now F_RequireLogin = RequireLogin L a now"
  "MethodAuthFunc E L a now F_GetCourseId = Svc_GetCourseId E a"
  "MethodAuthFunc E L a now F_RequireInCourse = RequireInCourse E a"
  "MethodAuthFunc E L a now F_RequireAdmin = RequireAdmin"
  "MethodAuthFunc E L a now F_CheckManifest = CheckManifest E a"
  "MethodAuthFunc E L a now F_RequireCourseWrite = RequireCourseWrite"
  "MethodAuthFunc E L a now F_RequireSubmissionRead = RequireSubmissionRead"
  "MethodAuthFunc E L a now F_NotAfterDueDate = NotAfterDueDate now"
  by (simp_all add: MethodAuthFunc_def)

text \<open>The user a token proves, and the course a request is about.\<close>

definition logged_in :: "'fs lib \<Rightarrow> ('db, 'fs) svc \<Rightarrow> time \<Rightarrow> request \<Rightarrow> user_token \<Rightarrow> bool" where
  "logged_in L a now req u \<longleftrightarrow>
     (\<exists>token payload. rq_bearer req = Inr token \<and>
        parseTokenPayload (lib_jwt L) now (userJWTSignKey a) token = Inr payload \<and>
        Unmarshal (C_UserToken L) payload = Inr u)"

definition about_course ::
    "'db env \<Rightarrow> ('db, 'fs) svc \<Rightarrow> request \<Rightarrow> ctx \<Rightarrow> u64 \<Rightarrow> bool" where
  "about_course E a req c courseId \<longleftrightarrow> courseId \<noteq> 0 \<and>
     (case rq_courseId req of
        Some i \<Rightarrow> i = courseId
      | None \<Rightarrow>
          (\<exists>asg. cx_assignment c = Some asg \<and> Assignment_CourseId asg = courseId \<and>
             (case rq_assignmentId req of
                Some i \<Rightarrow> Repo_GetAssignment E (svc_db a) i = Inr asg
              | None \<Rightarrow>
                  (\<exists>i sub. rq_submissionId req = Some i \<and> cx_submission c = Some sub \<and>
                     Repo_GetSubmission E (svc_db a) i = Inr sub \<and>
                     Repo_GetAssignment E (svc_db a) (Submission_AssignmentId sub) = Inr asg))))"

lemma about_course_member [simp]:
  "about_course E a req (c\<lparr>cx_member := m\<rparr>) i = about_course E a req c i"
  by (simp add: about_course_def cong: option.case_cong)

lemma RequireLogin_ok:
  "RequireLogin L a now req c = (c', None) \<longleftrightarrow>
     (\<exists>u ss. logged_in L a now req u \<and> c' = c\<lparr>cx_token := ss, cx_user := Some u\<rparr> \<and>
        ss = (case signPayloadToken (lib_jwt L) now (userJWTSignKey a) (C_UserToken L) u
                (now + UserTokenValidDuration) of
                Inl e \<Rightarrow> cx_token c | Inr s \<Rightarrow> if SetHeader L s then Some s else cx_token c))"
  by (auto simp: RequireLogin_def logged_in_def Let_def split: sum.splits if_splits)

lemma GetCourseId_ok:
  assumes "Svc_GetCourseId E a req c = (c', None)" and "cx_submission c = None"
  shows "\<exists>courseId. cx_courseId c' = Some courseId \<and> about_course E a req c' courseId \<and>
    cx_user c' = cx_user c \<and> cx_token c' = cx_token c \<and> cx_member c' = cx_member c \<and>
    (\<forall>sub. cx_submission c' = Some sub \<longrightarrow>
       (\<exists>i. rq_submissionId req = Some i \<and> Repo_GetSubmission E (svc_db a) i = Inr sub))"
  using assms
  by (auto simp: Svc_GetCourseId_def about_course_def getCourseIdFromAssignmentId_def Let_def
      getAssignmentIdFromSubmissionId_def split: option.splits sum.splits if_splits)

lemma RequireInCourse_ok:
  "RequireInCourse E a req c = (c', None) \<longleftrightarrow>
     (\<exists>u i m. cx_user c = Some u \<and> cx_courseId c = Some i \<and>
        GetCourseMember E (svc_db a) (UT_UserId u) i = Some m \<and> c' = c\<lparr>cx_member := Some m\<rparr>)"
  by (auto simp: RequireInCourse_def split: option.splits)

text \<open>What the first three functions of the course chains establish.\<close>

definition in_course :: "'db env \<Rightarrow> 'fs lib \<Rightarrow> ('db, 'fs) svc \<Rightarrow> time \<Rightarrow> request \<Rightarrow> ctx \<Rightarrow> bool" where
  "in_course E L a now req c \<longleftrightarrow>
     (\<exists>u i m. logged_in L a now req u \<and> about_course E a req c i \<and>
        GetCourseMember E (svc_db a) (UT_UserId u) i = Some m \<and>
        cx_user c = Some u \<and> cx_courseId c = Some i \<and> cx_member c = Some m)"

lemma course_chain:
  assumes "run_chain E L a now req empty_ctx (F_RequireLogin # F_GetCourseId # F_RequireInCourse # fs) = (c', None)"
  shows "\<exists>c. in_course E L a now req c \<and> run_chain E L a now req c fs = (c', None) \<and>
    (\<forall>sub. cx_submission c = Some sub \<longrightarrow>
       (\<exists>i. rq_submissionId req = Some i \<and> Repo_GetSubmission E (svc_db a) i = Inr sub))"
proof -
  obtain c1 c2 c3 where c: "RequireLogin L a now req empty_ctx = (c1, None)"
    "Svc_GetCourseId E a req c1 = (c2, None)" "RequireInCourse E a req c2 = (c3, None)"
    "run_chain E L a now req c3 fs = (c', None)"
    using assms by (auto simp: run_chain_ok)
  from c(1) obtain u where u: "logged_in L a now req u" "cx_user c1 = Some u" "cx_submission c1 = None"
    by (auto simp: RequireLogin_ok empty_ctx_def)
  from GetCourseId_ok [OF c(2) u(3)] obtain i where i: "cx_courseId c2 = Some i" "about_course E a req c2 i"
    "cx_user c2 = Some u" "\<forall>sub. cx_submission c2 = Some sub \<longrightarrow>
       (\<exists>i. rq_submissionId req = Some i \<and> Repo_GetSubmission E (svc_db a) i = Inr sub)"
    using u(2) by auto
  from c(3) i obtain m where "GetCourseMember E (svc_db a) (UT_UserId u) i = Some m"
    "c3 = c2\<lparr>cx_member := Some m\<rparr>" by (auto simp: RequireInCourse_ok)
  then show ?thesis using u i c(4)
    by (intro exI [of _ c3]) (auto simp: in_course_def)
qed

subsection \<open>A course for the witnesses\<close>

definition test_member :: "course_role \<Rightarrow> course_member" where
  "test_member r = \<lparr>Member_UserId = 7, Member_Role = r, Member_CourseId = 3\<rparr>"

definition test_assignment :: assignment where
  "test_assignment = \<lparr>Assignment_Name = ''a'', Assignment_AssignmentType = 0, Assignment_CourseId = 3,
     Assignment_ReleaseDate = Some 10, Assignment_DueDate = Some 1000, Assignment_LateDueDate = None,
     Assignment_Description = ''d'', Assignment_ProgrammingConfig = None, Assignment_Published = True,
     Assignment_SubmissionLimit = None, Assignment_UploadLimit = 100\<rparr>"

definition test_submission :: submission where
  "test_submission = \<lparr>Submission_AssignmentId = 5, Submission_SubmittedAt = Some 20, Submission_Submitters = [7],
     Submission_Path = ''uploads/manifests/1'', Submission_Files = [''main.py''], Submission_LeaderboardName = ''n'',
     Submission_UserId = 7\<rparr>"

text \<open>User 7 in course 3, whose assignment 5 has submission 9.\<close>

definition test_db :: "course_role \<Rightarrow> mem_db" where
  "test_db r = [(getCourseKey 7 3, decimal (to_nat (test_member r))),
     (assignment_getIdKey 5, decimal (to_nat test_assignment)),
     (submission_getIdKey 9, decimal (to_nat test_submission))]"

lemma test_db_reads [simp]:
  "GetCourseMember mem_env (test_db r) 7 3 = Some (test_member r)"
  "Repo_GetAssignment mem_env (test_db r) 5 = Inr test_assignment"
  "Repo_GetSubmission mem_env (test_db r) 9 = Inr test_submission"
  by (simp_all add: GetCourseMember_def Repo_GetAssignment_def Repo_GetSubmission_def get_message_def
      mem_get_def test_db_def getCourseKey_def getCoursePrefix_def assignment_getIdKey_def submission_getIdKey_def)

lemma test_fields [simp]:
  "UT_UserId (test_user i) = i" "UT_IsAdmin (test_user i)" "Member_Role (test_member r) = r"
  "Assignment_CourseId test_assignment = 3" "Assignment_ReleaseDate test_assignment = Some 10"
  "Assignment_DueDate test_assignment = Some 1000" "Submission_AssignmentId test_submission = 5"
  "Submission_Submitters test_submission = [7]"
  by (simp_all add: test_user_def test_member_def test_assignment_def test_submission_def)

lemma test_login:
  "now < UserTokenValidDuration \<Longrightarrow> rq_bearer req = Inr (test_token u) \<Longrightarrow>
     \<exists>ss. RequireLogin test_lib (test_svc db) now req c = (c\<lparr>cx_token := ss, cx_user := Some u\<rparr>, None)"
  by (auto simp: RequireLogin_ok logged_in_def test_token_parses)

text \<open>A request of user 7 about assignment 5 or submission 9 gets as far as the course.\<close>

lemma test_in_course:
  assumes "now < UserTokenValidDuration"
    and "req = test_request (test_user 7) asg sub"
    and "asg = Some 5 \<or> asg = None \<and> sub = Some 9"
  shows "\<exists>c. run_chain mem_env test_lib (test_svc (test_db r)) now req empty_ctx
      (F_RequireLogin # F_GetCourseId # F_RequireInCourse # fs) =
      run_chain mem_env test_lib (test_svc (test_db r)) now req c fs \<and> cx_user c = Some (test_user 7) \<and>
      cx_member c = Some (test_member r) \<and> cx_assignment c = Some test_assignment \<and>
      (asg = None \<longrightarrow> cx_submission c = Some test_submission)"
proof -
  have "rq_bearer req = Inr (test_token (test_user 7))" using assms(2) by simp
  then obtain ss where l: "RequireLogin test_lib (test_svc (test_db r)) now req empty_ctx =
      (empty_ctx\<lparr>cx_token := ss, cx_user := Some (test_user 7)\<rparr>, None)"
    using test_login [OF assms(1)] by blast
  from assms(2,3) l show ?thesis
    by (auto simp: run_chain.simps(2) Svc_GetCourseId_def RequireInCourse_def
        getCourseIdFromAssignmentId_def getAssignmentIdFromSubmissionId_def empty_ctx_def Let_def)
qed

subsection \<open>Properties\<close>

text \<open>
  C12: Only course staff changes a course. A call of one of the seventeen writing methods gets past the
  interceptor only with a login token valid now, of a user who is a member of the course that the object of
  the request belongs to (by the stored assignment or submission, not by what the request says), in a role
  other than student and reader.
\<close>

theorem staff_methods_need_role:
  assumes "meth \<in> set staff_methods" and "AuthFunc E L a now req meth = (c, None)"
  shows "\<exists>u i m. logged_in L a now req u \<and> about_course E a req c i \<and>
    GetCourseMember E (svc_db a) (UT_UserId u) i = Some m \<and>
    Member_Role m \<noteq> CourseRole_Student \<and> Member_Role m \<noteq> CourseRole_Reader \<and>
    cx_user c = Some u \<and> cx_courseId c = Some i \<and> cx_member c = Some m"
proof -
  have "run_chain E L a now req empty_ctx
      [F_RequireLogin, F_GetCourseId, F_RequireInCourse, F_RequireCourseWrite] = (c, None)"
    using assms by (subst (asm) AuthFunc_chain) (auto simp: authMaps_def)
  then obtain c' where c': "in_course E L a now req c'"
    "run_chain E L a now req c' [F_RequireCourseWrite] = (c, None)" by (auto dest: course_chain)
  then show ?thesis
    by (auto simp: in_course_def run_chain_ok RequireCourseWrite_def split: if_splits)
qed

theorem staff_methods_need_role_witness:
  "\<exists>req. (\<exists>c. AuthFunc mem_env test_lib (test_svc (test_db CourseRole_TA)) 100 req ''UpdateAssignment'' = (c, None) \<and>
      (\<exists>u. cx_user c = Some u)) \<and>
    \<not> (\<exists>c. AuthFunc mem_env test_lib (test_svc (test_db CourseRole_Student)) 100 req ''UpdateAssignment'' = (c, None))"
proof -
  let ?req = "test_request (test_user 7) (Some 5) None"
  have chain: "AuthFunc mem_env test_lib (test_svc (test_db r)) 100 ?req ''UpdateAssignment'' =
      run_chain mem_env test_lib (test_svc (test_db r)) 100 ?req empty_ctx
        [F_RequireLogin, F_GetCourseId, F_RequireInCourse, F_RequireCourseWrite]" for r
    by (rule AuthFunc_chain [of staff_methods]) (simp_all add: authMaps_def staff_methods_def)
  have run: "\<exists>c. AuthFunc mem_env test_lib (test_svc (test_db r)) 100 ?req ''UpdateAssignment'' =
      RequireCourseWrite ?req c \<and> cx_member c = Some (test_member r)" for r
    using test_in_course [of 100 ?req "Some 5" None r "[F_RequireCourseWrite]"]
    by (auto simp: chain UserTokenValidDuration_def run_chain_single)
  have "\<exists>c. AuthFunc mem_env test_lib (test_svc (test_db CourseRole_TA)) 100 ?req ''UpdateAssignment'' = (c, None)"
    using run [of CourseRole_TA] by (auto simp: RequireCourseWrite_def)
  then obtain c where c: "AuthFunc mem_env test_lib (test_svc (test_db CourseRole_TA)) 100 ?req ''UpdateAssignment'' = (c, None)"
    by blast
  have "''UpdateAssignment'' \<in> set staff_methods" by (simp add: staff_methods_def)
  from staff_methods_need_role [OF this c] c
  have "\<exists>c. AuthFunc mem_env test_lib (test_svc (test_db CourseRole_TA)) 100 ?req ''UpdateAssignment'' = (c, None) \<and>
      (\<exists>u. cx_user c = Some u)" by blast
  moreover have "\<not> (\<exists>c. AuthFunc mem_env test_lib (test_svc (test_db CourseRole_Student)) 100 ?req ''UpdateAssignment'' = (c, None))"
    using run [of CourseRole_Student] by (auto simp: RequireCourseWrite_def)
  ultimately show ?thesis by blast
qed

text \<open>
  C14: A submission is shown, streamed, downloaded and cancelled only by its submitters and the staff of its
  course. A call of one of these methods gets past the interceptor only with a valid login token of a user who
  is a member of the course of the submission's assignment and who is a submitter of the stored submission,
  or a teaching assistant or instructor there.
\<close>

theorem submission_access:
  assumes "meth \<in> set submission_methods" and "AuthFunc E L a now req meth = (c, None)"
  shows "\<exists>u i m k sub. logged_in L a now req u \<and> about_course E a req c i \<and>
    GetCourseMember E (svc_db a) (UT_UserId u) i = Some m \<and> rq_submissionId req = Some k \<and>
    Repo_GetSubmission E (svc_db a) k = Inr sub \<and>
    (UT_UserId u \<in> set (Submission_Submitters sub) \<or> is_staff m)"
proof -
  have "run_chain E L a now req empty_ctx
      [F_RequireLogin, F_GetCourseId, F_RequireInCourse, F_RequireSubmissionRead] = (c, None)"
    using assms by (subst (asm) AuthFunc_chain) (auto simp: authMaps_def)
  then obtain c' where c': "in_course E L a now req c'"
    "run_chain E L a now req c' [F_RequireSubmissionRead] = (c, None)"
    "\<forall>sub. cx_submission c' = Some sub \<longrightarrow>
       (\<exists>k. rq_submissionId req = Some k \<and> Repo_GetSubmission E (svc_db a) k = Inr sub)"
    by (auto dest: course_chain)
  from c'(1) obtain u i m where u: "logged_in L a now req u" "about_course E a req c' i"
    "GetCourseMember E (svc_db a) (UT_UserId u) i = Some m" "cx_user c' = Some u" "cx_member c' = Some m"
    by (auto simp: in_course_def)
  from c'(2) have "RequireSubmissionRead req c' = (c, None)" by (simp add: run_chain_ok)
  then obtain sub where "c = c'" "cx_submission c' = Some sub"
    "UT_UserId u \<in> set (Submission_Submitters sub) \<or> is_staff m"
    using u(4,5) by (auto simp: RequireSubmissionRead_def split: option.splits if_splits)
  then show ?thesis using u c'(3) by blast
qed

theorem submission_access_witness:
  "\<exists>c sub. AuthFunc mem_env test_lib (test_svc (test_db CourseRole_Student)) 100
      (test_request (test_user 7) None (Some 9)) ''CancelSubmission'' = (c, None) \<and>
    Repo_GetSubmission mem_env (test_db CourseRole_Student) 9 = Inr sub"
proof -
  let ?req = "test_request (test_user 7) None (Some 9)"
  let ?a = "test_svc (test_db CourseRole_Student)"
  have m: "''CancelSubmission'' \<in> set submission_methods" by (simp add: submission_methods_def)
  have chain: "AuthFunc mem_env test_lib ?a 100 ?req ''CancelSubmission'' =
      run_chain mem_env test_lib ?a 100 ?req empty_ctx
        [F_RequireLogin, F_GetCourseId, F_RequireInCourse, F_RequireSubmissionRead]"
    by (rule AuthFunc_chain [of submission_methods]) (simp_all add: authMaps_def m)
  obtain c where c: "AuthFunc mem_env test_lib ?a 100 ?req ''CancelSubmission'' = (c, None)"
    using test_in_course [of 100 ?req None "Some 9" CourseRole_Student "[F_RequireSubmissionRead]"]
    by (auto simp: chain UserTokenValidDuration_def run_chain.simps(2) RequireSubmissionRead_def)
  from submission_access [OF m c] c show ?thesis by fastforce
qed

text \<open>
  Submissions are made within the dates of the assignment: a call of \<open>CreateSubmission\<close> or \<open>CreateManifest\<close>
  gets past the interceptor only for staff of the course, or from the release date of the assignment of the
  request up to its due date.
\<close>

theorem submission_window:
  assumes "meth \<in> {''CreateSubmission'', ''CreateManifest''}" and "AuthFunc E L a now req meth = (c, None)"
  shows "\<exists>u i m. logged_in L a now req u \<and> about_course E a req c i \<and>
    GetCourseMember E (svc_db a) (UT_UserId u) i = Some m \<and>
    (is_staff m \<or> (\<exists>asg. cx_assignment c = Some asg \<and> AsTime (Assignment_ReleaseDate asg) \<le> now \<and>
       now \<le> AsTime (Assignment_DueDate asg)))"
proof -
  have "run_chain E L a now req empty_ctx
      [F_RequireLogin, F_GetCourseId, F_RequireInCourse, F_NotAfterDueDate] = (c, None)"
    using assms by (subst (asm) AuthFunc_chain [of "[''CreateSubmission'', ''CreateManifest'']"]) (auto simp: authMaps_def)
  then obtain c' where c': "in_course E L a now req c'"
    "run_chain E L a now req c' [F_NotAfterDueDate] = (c, None)" by (auto dest: course_chain)
  then have n: "NotAfterDueDate now req c' = (c, None)" by (simp add: run_chain_ok)
  then have "c = c'" by (auto simp: NotAfterDueDate_def split: option.splits if_splits)
  then show ?thesis using c'(1) n
    by (fastforce simp: in_course_def NotAfterDueDate_def split: option.splits if_splits)
qed

theorem submission_window_witness:
  "(\<exists>c. AuthFunc mem_env test_lib (test_svc (test_db CourseRole_Student)) 1000
      (test_request (test_user 7) (Some 5) None) ''CreateSubmission'' = (c, None)) \<and>
   (\<exists>u i. GetCourseMember mem_env (test_db CourseRole_Student) u i \<noteq> None)"
proof -
  let ?req = "test_request (test_user 7) (Some 5) None"
  let ?a = "test_svc (test_db CourseRole_Student)"
  have chain: "AuthFunc mem_env test_lib ?a 1000 ?req ''CreateSubmission'' =
      run_chain mem_env test_lib ?a 1000 ?req empty_ctx
        [F_RequireLogin, F_GetCourseId, F_RequireInCourse, F_NotAfterDueDate]"
    by (rule AuthFunc_chain [of "[''CreateSubmission'', ''CreateManifest'']"]) (simp_all add: authMaps_def)
  obtain c where c: "AuthFunc mem_env test_lib ?a 1000 ?req ''CreateSubmission'' = (c, None)"
    using test_in_course [of 1000 ?req "Some 5" None CourseRole_Student "[F_NotAfterDueDate]"]
    by (auto simp: chain UserTokenValidDuration_def run_chain.simps(2) NotAfterDueDate_def is_staff_def)
  have "''CreateSubmission'' \<in> {''CreateSubmission'', ''CreateManifest''}" by simp
  from submission_window [OF this c] c show ?thesis by fastforce
qed

lemma chain_keeps_user:
  "run_chain E L a now req c fs = (c', None) \<Longrightarrow> cx_user c = Some u \<Longrightarrow> F_RequireLogin \<notin> set fs \<Longrightarrow>
     cx_user c' = Some u"
proof (induction fs arbitrary: c)
  case (Cons f fs)
  then obtain c1 where c1: "MethodAuthFunc E L a now f req c = (c1, None)"
    "run_chain E L a now req c1 fs = (c', None)" by (auto simp: run_chain_ok)
  have "cx_user c1 = Some u"
    using c1(1) Cons.prems(2,3)
    by (cases f)
      (auto simp: NoopAuth_def RequireCaptcha_def Svc_GetCourseId_def getCourseIdFromAssignmentId_def Let_def
        getAssignmentIdFromSubmissionId_def RequireInCourse_def RequireAdmin_def CheckManifest_def
        RequireCourseWrite_def RequireSubmissionRead_def NotAfterDueDate_def
        split: option.splits sum.splits if_splits)
  then show ?case using Cons.IH [OF c1(2)] Cons.prems(3) by simp
qed simp

definition public_methods :: "string list" where
  "public_methods = [''Login'', ''SignUp'', ''ResetPassword'', ''GithubLogin'', ''RequestPasswordReset'',
     ''RequestSignUpToken'']"

text \<open>The methods of the service, in the order of \<open>proto/api.proto\<close>.\<close>

definition rpc_methods :: "string list" where
  "rpc_methods =
    [''Login'', ''GetCourseList'', ''GetAssignmentsInCourse'', ''GetSubmissionsInAssignment'',
     ''SubscribeSubmission'', ''CreateManifest'', ''CreateSubmission'', ''InitUpload'',
     ''GetSubmissionReport'', ''GetAssignment'', ''GetCourse'', ''CreateCourse'', ''GetFilesInSubmission'',
     ''GetLeaderboard'', ''HasLeaderboard'', ''CreateAssignment'', ''DeleteFileInManifest'',
     ''InitDownload'', ''GetCourseMembers'', ''AddCourseMembers'', ''RemoveCourseMembers'',
     ''UpdateCourseMember'', ''UpdateCourse'', ''UpdateAssignment'', ''RequestPasswordReset'',
     ''ResetPassword'', ''RequestSignUpToken'', ''SignUp'', ''CanWriteCourse'', ''GithubLogin'',
     ''GetUser'', ''BindGithub'', ''UnbindGithub'', ''UpdateUser'', ''UpdatePassword'', ''JoinCourse'',
     ''GenerateJoinCode'', ''ChangeAllowsJoinCourse'', ''InspectAllSubmissionsInAssignment'',
     ''InspectUserSubmissionHistory'', ''ActivateSubmission'', ''RegradeSubmission'',
     ''RegradeAssignment'', ''ChangeLeaderboardAnonymous'', ''ExportAssignmentGrades'', ''RemoveGrader'',
     ''GetAllGraders'', ''CancelSubmission'', ''SearchUser'', ''SetAdmin'', ''GetAllUsers'',
     ''GetGradeQueue'', ''DeleteLeaderboard'', ''StreamLog'', ''GetAllCourses'']"

lemma registered_methods:
  "map_of table meth = None \<longleftrightarrow> meth \<notin> set rpc_methods" if "initAuthFuncs = Inr table"
proof -
  have "set (concat (map fst authMaps)) = set rpc_methods"
    unfolding authMaps_def staff_methods_def submission_methods_def admin_methods_def rpc_methods_def
    by (simp only: list.map fst_conv concat.simps append.simps set_simps) (intro equalityI subsetI; elim insertE emptyE; simp)
  then have "meth \<in> set rpc_methods \<longleftrightarrow> (\<exists>ms fs. (ms, fs) \<in> set authMaps \<and> meth \<in> set ms)" by force
  moreover have "(\<exists>fs. map_of table meth = Some fs) \<longleftrightarrow> (\<exists>ms fs. (ms, fs) \<in> set authMaps \<and> meth \<in> set ms)"
    using register_all_map [of "[]" authMaps table meth] that unfolding initAuthFuncs_def by (metis map_of_eq_None_iff
      empty_iff image_empty list.set(1) option.distinct(1))
  ultimately show ?thesis by auto
qed

text \<open>
  C32: Nothing is anonymous but signing in. A method that is not one of the 55 of the service is refused, whatever the
  request. A call that gets past the interceptor is one of the six methods for signing up, logging in and
  resetting a password, or it carries a login token valid now, and the user the handler finds in the context
  is the user of that token.
\<close>

theorem no_anonymous_call:
  assumes "AuthFunc E L a now req meth = (c, r)"
  shows "if meth \<notin> set rpc_methods then r = Some (StatusErr NotFound ''METHOD_AUTH'')
    else r \<noteq> None \<or> meth \<in> set public_methods \<or> (\<exists>u. logged_in L a now req u \<and> cx_user c = Some u)"
proof -
  obtain table where t: "initAuthFuncs = Inr table" using initAuthFuncs_Inr by blast
  show ?thesis
  proof (cases "meth \<in> set rpc_methods \<and> r = None \<and> meth \<notin> set public_methods")
    case False
    then show ?thesis using assms registered_methods [OF t, of meth] by (auto simp: AuthFunc_def t)
  next
    case True
    then obtain fs where fs: "map_of table meth = Some fs" "run_chain E L a now req empty_ctx fs = (c, None)"
      using assms registered_methods [OF t, of meth] by (auto simp: AuthFunc_def t split: option.splits)
    obtain ms where ms: "(ms, fs) \<in> set authMaps" "meth \<in> set ms"
      using register_all_map [of "[]" authMaps table meth fs "[]"] t fs(1) by (auto simp: initAuthFuncs_def)
    then obtain gs where gs: "fs = F_RequireLogin # gs" "F_RequireLogin \<notin> set gs"
      using True unfolding authMaps_def public_methods_def by auto
    then obtain c1 where "RequireLogin L a now req empty_ctx = (c1, None)" "run_chain E L a now req c1 gs = (c, None)"
      using fs(2) by (auto simp: run_chain_ok)
    then show ?thesis using True chain_keeps_user [OF _ _ gs(2)] by (force simp: RequireLogin_ok)
  qed
qed

theorem no_anonymous_call_witness:
  "(\<exists>c u. AuthFunc mem_env test_lib (test_svc []) 100 (test_request (test_user 7) None None) ''GetUser'' = (c, None) \<and>
     cx_user c = Some u) \<and>
   (\<exists>c. AuthFunc mem_env test_lib (test_svc []) 100 (test_request (test_user 7) None None) ''Shutdown'' =
     (c, Some (StatusErr NotFound ''METHOD_AUTH'')))"
proof -
  have chain: "AuthFunc mem_env test_lib (test_svc []) 100 (test_request (test_user 7) None None) ''GetUser'' =
      run_chain mem_env test_lib (test_svc []) 100 (test_request (test_user 7) None None) empty_ctx [F_RequireLogin]"
    by (rule AuthFunc_chain [of "[''GetCourseList'', ''GetUser'', ''BindGithub'', ''UnbindGithub'', ''UpdateUser'',
        ''UpdatePassword'', ''JoinCourse'']"]) (simp_all add: authMaps_def)
  obtain ss where "RequireLogin test_lib (test_svc []) 100 (test_request (test_user 7) None None) empty_ctx =
      (empty_ctx\<lparr>cx_token := ss, cx_user := Some (test_user 7)\<rparr>, None)"
    using test_login [of 100 "test_request (test_user 7) None None" "test_user 7" "[]" empty_ctx] by (auto simp: UserTokenValidDuration_def)
  then have c: "AuthFunc mem_env test_lib (test_svc []) 100 (test_request (test_user 7) None None) ''GetUser'' =
      (empty_ctx\<lparr>cx_token := ss, cx_user := Some (test_user 7)\<rparr>, None)" by (simp add: chain run_chain.simps(2))
  obtain d r where d: "AuthFunc mem_env test_lib (test_svc []) 100 (test_request (test_user 7) None None) ''Shutdown'' = (d, r)"
    by force
  have "''GetUser'' \<notin> set public_methods" "''GetUser'' \<in> set rpc_methods" "''Shutdown'' \<notin> set rpc_methods"
    by (simp_all add: public_methods_def rpc_methods_def)
  then show ?thesis using no_anonymous_call [OF c] c no_anonymous_call [OF d] d by auto
qed

text \<open>
  The rights in a login token are never checked again: whoever is logged in with an administrator's token gets,
  with every call, a new token with the same rights for another three hours, and no later state of the
  database (the user demoted, the password reset) makes it invalid.
\<close>

theorem admin_rights_renew:
  assumes "jwt_ok (lib_jwt L)" and "codec_ok (C_UserToken L)" and "meth \<in> set admin_methods"
    and "logged_in L a now req u" and "UT_IsAdmin u"
    and "signPayloadToken (lib_jwt L) now (userJWTSignKey a) (C_UserToken L) u (now + UserTokenValidDuration) = Inr ss"
    and "SetHeader L ss"
    and "rq_bearer req' = Inr ss" and "userJWTSignKey a' = userJWTSignKey a"
    and "now' < (now + UserTokenValidDuration) div nanosecond_per_second * nanosecond_per_second"
  shows "(\<exists>c. AuthFunc E L a now req meth = (c, None) \<and> cx_token c = Some ss) \<and>
    (\<exists>c. AuthFunc E L a' now' req' meth = (c, None) \<and> cx_user c = Some u)"
proof -
  let ?J = "lib_jwt L" and ?k = "userJWTSignKey a"
  have chain: "AuthFunc E L b t r meth = run_chain E L b t r empty_ctx [F_RequireLogin, F_RequireAdmin]" for b t r
    by (rule AuthFunc_chain [of admin_methods]) (auto simp: authMaps_def assms(3))
  have pass: "\<exists>c. AuthFunc E L b t r meth = (c, None) \<and> cx_user c = Some u \<and>
      (b = a \<and> t = now \<longrightarrow> cx_token c = Some ss)" if "logged_in L b t r u" for b t r
  proof -
    define c where "c = empty_ctx\<lparr>cx_token :=
        (case signPayloadToken ?J t (userJWTSignKey b) (C_UserToken L) u (t + UserTokenValidDuration) of
           Inl e \<Rightarrow> cx_token empty_ctx | Inr s \<Rightarrow> if SetHeader L s then Some s else cx_token empty_ctx),
        cx_user := Some u\<rparr>"
    have "RequireLogin L b t r empty_ctx = (c, None)" using that unfolding RequireLogin_ok c_def by blast
    moreover have "cx_user c = Some u" "b = a \<and> t = now \<longrightarrow> cx_token c = Some ss"
      using assms(6,7) by (simp_all add: c_def)
    ultimately show ?thesis using assms(5) by (auto simp: chain run_chain_ok RequireAdmin_def)
  qed
  obtain raw where "Marshal (C_UserToken L) u = Inr raw" "parseTokenPayload ?J now' ?k ss = Inr raw"
    using token_parses [OF assms(1,6), of now'] assms(10) by blast
  then have "logged_in L a' now' req' u"
    using codec_okD [OF assms(2)] assms(8,9) by (auto simp: logged_in_def)
  then show ?thesis using pass [OF assms(4)] pass [of a' now' req'] by auto
qed

theorem admin_rights_renew_witness:
  "\<exists>req c. AuthFunc mem_env test_lib (test_svc [])
       (UserTokenValidDuration - nanosecond_per_second + UserTokenValidDuration - 1) req
     ''SetAdmin'' = (c, None) \<and> cx_user c = Some (test_user 7)"
proof -
  let ?now = "UserTokenValidDuration - nanosecond_per_second"
  obtain ss where s: "signPayloadToken plain_jwt ?now ''user'' (counting_codec (from_nat 0)) (test_user 7)
      (?now + UserTokenValidDuration) = Inr ss" using sign_plain by blast
  have l: "logged_in test_lib (test_svc []) ?now (test_request (test_user 7) None None) (test_user 7)"
    by (auto simp: logged_in_def test_token_parses)
  have m: "''SetAdmin'' \<in> set admin_methods" by (simp add: admin_methods_def)
  let ?req = "(test_request (test_user 7) None None)\<lparr>rq_bearer := Inr ss\<rparr>"
  have "\<exists>c. AuthFunc mem_env test_lib (test_svc []) (?now + UserTokenValidDuration - 1) ?req ''SetAdmin'' =
      (c, None) \<and> cx_user c = Some (test_user 7)"
    using admin_rights_renew [of test_lib "''SetAdmin''" "test_svc []" ?now "test_request (test_user 7) None None"
        "test_user 7" ss ?req "test_svc []" "?now + UserTokenValidDuration - 1" mem_env] l m s plain_jwt_ok
    by (simp add: UserTokenValidDuration_def)
  then show ?thesis by blast
qed

end
