(* ===== verification/UserSvc.thy ===== *)
theory UserSvc
  imports Interceptor
begin

section \<open>Accounts (pkg/grpc/user.go, pkg/grpc/github.go)\<close>

text \<open>
  Signing up, logging in, password resets, the admin flag and the GitHub accounts. A handler that logs a
  user in returns the id and the token it put into the header of the answer. Random numbers and the readings
  of the clock are arguments.
\<close>

subsection \<open>E-mailed codes\<close>

definition ResetCodeMax :: nat where "ResetCodeMax = 900000"

definition PasswordResetSubject :: string where
  "PasswordResetSubject = ''Autograder '' @ map char_of [229 :: nat, 175, 134, 231, 160, 129, 233, 135, 141, 231, 189,
     174, 233, 170, 140, 232, 175, 129, 231, 160, 129]"

definition PasswordResetTemplate :: string where
  "PasswordResetTemplate = map char_of [230 :: nat, 130, 168, 231, 154, 132, 229, 175, 134, 231, 160, 129, 233, 135, 141,
     231, 189, 174, 233, 170, 140, 232, 175, 129, 231, 160, 129, 228, 184, 186, 239, 188, 154] @ ''%s'' @
     map char_of [239 :: nat, 188, 140] @ ''10 '' @ map char_of [229 :: nat, 136, 134, 233, 146, 159, 229, 134, 133, 230,
     156, 137, 230, 149, 136, 227, 128, 130, 10] @ ''Autograder''"

definition SignUpSubject :: string where
  "SignUpSubject = ''Autograder '' @ map char_of [230 :: nat, 179, 168, 229, 134, 140, 233, 170, 140, 232, 175, 129, 231,
     160, 129]"

definition SignUpTemplate :: string where
  "SignUpTemplate = map char_of [230 :: nat, 130, 168, 231, 154, 132, 230, 179, 168, 229, 134, 140, 233, 170, 140, 232,
     175, 129, 231, 160, 129, 228, 184, 186, 239, 188, 154] @ ''%s'' @ map char_of [239 :: nat, 188, 140] @ ''10 '' @
     map char_of [229 :: nat, 136, 134, 233, 146, 159, 229, 134, 133, 230, 156, 137, 230, 149, 136, 227, 128, 130, 10] @
     ''Autograder''"

text \<open>\<open>fmt.Sprintf\<close> of a template with one \<open>%s\<close>.\<close>

fun Sprintf_s :: "string \<Rightarrow> string \<Rightarrow> string" where
  "Sprintf_s [] arg = []"
| "Sprintf_s (c # cs) arg =
     (if c = CHR ''%'' \<and> take 1 cs = ''s'' then arg @ drop 1 cs else c # Sprintf_s cs arg)"

text \<open>One attempt to send a code, and the goroutine of \<open>requestEmailCode\<close>: three attempts at most.\<close>

definition sendEmailCode ::
    "'fs lib \<Rightarrow> nat \<Rightarrow> ('db, 'fs) svc \<Rightarrow> string \<Rightarrow> string \<Rightarrow> string \<Rightarrow> string \<Rightarrow> ('db, 'fs) svc \<times> bool" where
  "sendEmailCode L n a to subj code template =
     (let content = Sprintf_s template code
      in if SendMail L n to subj content then (a\<lparr>svc_mails := svc_mails a @ [(to, subj, content)]\<rparr>, True)
         else (a, False))"

fun send_attempts ::
    "'fs lib \<Rightarrow> nat \<Rightarrow> nat \<Rightarrow> ('db, 'fs) svc \<Rightarrow> string \<Rightarrow> string \<Rightarrow> string \<Rightarrow> string \<Rightarrow> ('db, 'fs) svc" where
  "send_attempts L n 0 a to subj code template = a"
| "send_attempts L n (Suc left) a to subj code template =
     (case sendEmailCode L n a to subj code template of
        (a', True) \<Rightarrow> a'
      | (a', False) \<Rightarrow> send_attempts L (Suc n) left a' to subj code template)"

definition sendEmailCode_task ::
    "'fs lib \<Rightarrow> ('db, 'fs) svc \<Rightarrow> string \<Rightarrow> string \<Rightarrow> string \<Rightarrow> string \<Rightarrow> ('db, 'fs) svc" where
  "sendEmailCode_task L a to subj code template = send_attempts L 0 3 a to subj code template"

text \<open>Any failure of the code repository and a code that is not valid answer alike.\<close>

definition validateEmailCode ::
    "'db env \<Rightarrow> time \<Rightarrow> ('db, 'fs) svc \<Rightarrow> string \<Rightarrow> string \<Rightarrow> string \<Rightarrow> ('db, 'fs) svc \<times> (error + unit)" where
  "validateEmailCode E now a typ email code =
     (case Validate E (svc_db a) now typ email code of
        (db', Inr True) \<Rightarrow> (with_db a db', Inr ())
      | (db', _) \<Rightarrow> (with_db a db', Inl (StatusErr InvalidArgument ''CODE'')))"

definition isMailValid :: "'fs lib \<Rightarrow> string \<Rightarrow> bool" where
  "isMailValid L email = ParseAddress L email"

text \<open>\<open>UsernameRegExp\<close>: a letter or digit and one to forty letters, digits, underscores and dashes.\<close>

definition is_alnum :: "char \<Rightarrow> bool" where
  "is_alnum c \<longleftrightarrow>
     list_ex (\<lambda>(lo, hi). lo \<le> c \<and> c \<le> hi) [(CHR ''0'', CHR ''9''), (CHR ''A'', CHR ''Z''), (CHR ''a'', CHR ''z'')]"

definition isUsernameValid :: "string \<Rightarrow> bool" where
  "isUsernameValid username =
     (case username of
        [] \<Rightarrow> False
      | c # cs \<Rightarrow> is_alnum c \<and> 1 \<le> length cs \<and> length cs \<le> 40 \<and>
          list_all (\<lambda>d. is_alnum d \<or> d = CHR ''_'' \<or> d = CHR ''-'') cs)"

text \<open>
  A code for an address: \<open>r\<close> is the random number, below \<open>ResetCodeMax\<close>; \<open>now\<close> sets when the code expires,
  \<open>now'\<close> is what \<open>Issue\<close> reads. The mail itself is sent by a goroutine.
\<close>

definition requestEmailCode ::
    "'db env \<Rightarrow> 'fs lib \<Rightarrow> nat \<Rightarrow> time \<Rightarrow> time \<Rightarrow> ('db, 'fs) svc \<Rightarrow> string \<Rightarrow> string \<Rightarrow> string \<Rightarrow> string \<Rightarrow> ('db, 'fs) svc" where
  "requestEmailCode E L r now now' a subj email typ template =
     (if \<not> isMailValid L email then a
      else
        let code = decimal (r + 100000)
        in (case Issue E (svc_db a) now' typ email code (now + EmailCodeValidDuration) of
              (db', Some e) \<Rightarrow> with_db a db'
            | (db', None) \<Rightarrow> spawn (with_db a db') (Task_sendEmailCode email subj (Sprintf_s template code))))"

subsection \<open>Accounts\<close>

text \<open>An id the index gives, with the zero Go returns beside an error.\<close>

definition id_or_zero :: "error + u64 \<Rightarrow> u64" where
  "id_or_zero r = (case r of Inl e \<Rightarrow> 0 | Inr i \<Rightarrow> i)"

definition validateUsernameAndEmail ::
    "'db env \<Rightarrow> 'fs lib \<Rightarrow> ('db, 'fs) svc \<Rightarrow> string \<Rightarrow> string \<Rightarrow> error + unit" where
  "validateUsernameAndEmail E L a username email =
     (if \<not> isUsernameValid username then Inl (StatusErr InvalidArgument ''USERNAME'')
      else if \<not> isMailValid L email then Inl (StatusErr InvalidArgument ''EMAIL'')
      else if id_or_zero (GetUserIdByEmail E (svc_db a) email) \<noteq> 0 then Inl (StatusErr AlreadyExists ''EMAIL'')
      else if id_or_zero (GetUserIdByUsername E (svc_db a) username) \<noteq> 0 then Inl (StatusErr AlreadyExists ''USERNAME'')
      else Inr ())"

definition hash_password :: "'fs lib \<Rightarrow> string \<Rightarrow> error + bytes option" where
  "hash_password L password =
     (if 0 < length password
      then (case GenerateFromPassword L password of
              Inl e \<Rightarrow> Inl (StatusErr Internal ''PASSWORD_HASH'')
            | Inr h \<Rightarrow> Inr (Some h))
      else Inr None)"

definition signUpNewUser ::
    "'db env \<Rightarrow> 'fs lib \<Rightarrow> time \<Rightarrow> ('db, 'fs) svc \<Rightarrow> string \<Rightarrow> string \<Rightarrow> string \<Rightarrow> ('db, 'fs) svc \<times> (error + u64)" where
  "signUpNewUser E L now a email username password =
     attempt a (validateUsernameAndEmail E L a username email) (\<lambda>_.
     attempt a (hash_password L password) (\<lambda>passwordHash.
       (case CreateUser E (svc_db a) (svc_user_seq a) now
          \<lparr>User_Username = username, User_Password = passwordHash, User_Email = email, User_GithubId = [],
           User_Nickname = username, User_StudentId = [], User_CreatedAt = None, User_IsAdmin = False\<rparr> of
          (db', q', r) \<Rightarrow>
            ((with_db a db')\<lparr>svc_user_seq := q'\<rparr>, or_status r Internal ''CREATE_USER''))))"

definition SignUp ::
    "'db env \<Rightarrow> 'fs lib \<Rightarrow> time \<Rightarrow> ('db, 'fs) svc \<Rightarrow> string \<Rightarrow> string \<Rightarrow> string \<Rightarrow> string \<Rightarrow>
      ('db, 'fs) svc \<times> (error + u64)" where
  "SignUp E L now a email code username password =
     (case validateEmailCode E now a SignUpRepoType email code of
        (a1, r) \<Rightarrow>
          attempt a1 r (\<lambda>_.
          attempt a1 (guard (length password < MinPasswordLength) InvalidArgument ''PASSWORD'') (\<lambda>_.
            signUpNewUser E L now a1 email username password)))"

definition RequestSignUpToken ::
    "'db env \<Rightarrow> 'fs lib \<Rightarrow> nat \<Rightarrow> time \<Rightarrow> time \<Rightarrow> ('db, 'fs) svc \<Rightarrow> string \<Rightarrow> string \<Rightarrow> ('db, 'fs) svc \<times> (error + unit)" where
  "RequestSignUpToken E L r now now' a username email =
     attempt a (validateUsernameAndEmail E L a username email) (\<lambda>_.
       (requestEmailCode E L r now now' a SignUpSubject email SignUpRepoType SignUpTemplate, Inr ()))"

text \<open>An address without an account gets the same empty answer.\<close>

definition RequestPasswordReset ::
    "'db env \<Rightarrow> 'fs lib \<Rightarrow> nat \<Rightarrow> time \<Rightarrow> time \<Rightarrow> ('db, 'fs) svc \<Rightarrow> string \<Rightarrow> ('db, 'fs) svc \<times> (error + unit)" where
  "RequestPasswordReset E L r now now' a email =
     (if id_or_zero (GetUserIdByEmail E (svc_db a) email) = 0 then (a, Inr ())
      else (requestEmailCode E L r now now' a PasswordResetSubject email PasswordResetRepoType PasswordResetTemplate,
            Inr ()))"

definition set_password :: "'fs lib \<Rightarrow> string \<Rightarrow> user \<Rightarrow> error + user" where
  "set_password L password u =
     (case GenerateFromPassword L password of
        Inl e \<Rightarrow> Inl e
      | Inr hashed \<Rightarrow> Inr (u\<lparr>User_Password := Some hashed\<rparr>))"

definition ResetPassword ::
    "'db env \<Rightarrow> 'fs lib \<Rightarrow> time \<Rightarrow> ('db, 'fs) svc \<Rightarrow> string \<Rightarrow> string \<Rightarrow> string \<Rightarrow> ('db, 'fs) svc \<times> (error + unit)" where
  "ResetPassword E L now a email code password =
     (case validateEmailCode E now a PasswordResetRepoType email code of
        (a1, r) \<Rightarrow>
          attempt a1 r (\<lambda>_.
          attempt a1 (or_status (GetUserByEmail E (svc_db a1) email) NotFound ''EMAIL'') (\<lambda>(user, userId).
          attempt a1 (guard (length password < MinPasswordLength) InvalidArgument ''PASSWORD'') (\<lambda>_.
            (case UpdateUserAtomic E (svc_db a1) userId (set_password L password) of
               (db', r') \<Rightarrow> (with_db a1 db', fail_status r' Internal ''INTERNAL_ERROR''))))))"

subsection \<open>Logging in\<close>

definition signLoginToken ::
    "'fs lib \<Rightarrow> ('db, 'fs) svc \<Rightarrow> time \<Rightarrow> u64 \<Rightarrow> string \<Rightarrow> string \<Rightarrow> bool \<Rightarrow> error + string" where
  "signLoginToken L a now userId username nickname isAdmin =
     (case signPayloadToken (lib_jwt L) now (userJWTSignKey a) (C_UserToken L)
        \<lparr>UT_UserId = userId, UT_Username = username, UT_Nickname = nickname, UT_IsAdmin = isAdmin\<rparr>
        (now + UserTokenValidDuration) of
        Inl e \<Rightarrow> Inl e
      | Inr ss \<Rightarrow> if SetHeader L ss then Inr ss else Inl (ErrOther ''SetHeader''))"

definition login_user :: "'fs lib \<Rightarrow> ('db, 'fs) svc \<Rightarrow> time \<Rightarrow> u64 \<Rightarrow> user \<Rightarrow> error + u64 \<times> string" where
  "login_user L a now i u =
     (case signLoginToken L a now i (User_Username u) (User_Nickname u) (User_IsAdmin u) of
        Inl e \<Rightarrow> Inl e
      | Inr ss \<Rightarrow> Inr (i, ss))"

definition GetPassword :: "user \<Rightarrow> bytes" where
  "GetPassword u = (case User_Password u of None \<Rightarrow> [] | Some h \<Rightarrow> h)"

definition Login ::
    "'db env \<Rightarrow> 'fs lib \<Rightarrow> time \<Rightarrow> ('db, 'fs) svc \<Rightarrow> string \<Rightarrow> string \<Rightarrow> ('db, 'fs) svc \<times> (error + u64 \<times> string)" where
  "Login E L now a username password =
     (case (if CHR ''@'' \<in> set username then GetUserByEmail E (svc_db a) username
            else GetUserByUsername E (svc_db a) username) of
        Inl e \<Rightarrow> (a, Inl (StatusErr InvalidArgument ''WRONG_PASSWORD''))
      | Inr (user, i) \<Rightarrow>
          if \<not> CompareHashAndPassword L (GetPassword user) password
          then (a, Inl (StatusErr InvalidArgument ''WRONG_PASSWORD''))
          else (a, login_user L a now i user))"

subsection \<open>The account of the caller, and the admin's view\<close>

definition GetUser :: "'db env \<Rightarrow> ('db, 'fs) svc \<Rightarrow> ctx \<Rightarrow> ('db, 'fs) svc \<times> (error + user)" where
  "GetUser E a c =
     attempt a (must (cx_user c)) (\<lambda>user.
     attempt a (or_status (GetUserById E (svc_db a) (UT_UserId user)) Internal ''GET_USER'') (\<lambda>dbUser.
       (a, Inr (dbUser\<lparr>User_Password := None\<rparr>))))"

definition UpdateUser ::
    "'db env \<Rightarrow> ('db, 'fs) svc \<Rightarrow> string \<Rightarrow> string \<Rightarrow> ctx \<Rightarrow> ('db, 'fs) svc \<times> (error + bool)" where
  "UpdateUser E a nickname studentId c =
     attempt a (must (cx_user c)) (\<lambda>user.
     attempt a (guard (length nickname > MaxNicknameLength) InvalidArgument ''NICKNAME_TOO_LONG'') (\<lambda>_.
     attempt a (guard (length studentId > MaxStudentIdLength) InvalidArgument ''STUDENT_ID_TOO_LONG'') (\<lambda>_.
       (case UpdateUserAtomic E (svc_db a) (UT_UserId user)
          (\<lambda>u. Inr (u\<lparr>User_Nickname := nickname, User_StudentId := studentId\<rparr>)) of
          (db', r) \<Rightarrow> (with_db a db', Inr (r = None))))))"

text \<open>The error that aborts the update when the old password is wrong.\<close>

definition errIncorrectPassword :: error where
  "errIncorrectPassword = ErrOther ''incorrect password''"

definition UpdatePassword ::
    "'db env \<Rightarrow> 'fs lib \<Rightarrow> ('db, 'fs) svc \<Rightarrow> string \<Rightarrow> string \<Rightarrow> ctx \<Rightarrow> ('db, 'fs) svc \<times> (error + bool)" where
  "UpdatePassword E L a oldPassword newPassword c =
     attempt a (must (cx_user c)) (\<lambda>user.
       (case UpdateUserAtomic E (svc_db a) (UT_UserId user)
          (\<lambda>u. if \<not> CompareHashAndPassword L (GetPassword u) oldPassword then Inl errIncorrectPassword
               else set_password L newPassword u) of
          (db', r) \<Rightarrow>
            (with_db a db',
             if r = Some errIncorrectPassword then Inr False
             else if r \<noteq> None then Inl (StatusErr Internal ''INTERNAL_ERROR'')
             else Inr True)))"

definition Svc_GetAllUsers :: "'db env \<Rightarrow> ('db, 'fs) svc \<Rightarrow> ('db, 'fs) svc \<times> (error + (u64 \<times> user) list)" where
  "Svc_GetAllUsers E a =
     attempt a (or_status (GetAllUsers E (svc_db a)) Internal ''GET_USERS'') (\<lambda>users.
       (a, Inr (map (\<lambda>(i, u). (i, u\<lparr>User_Password := None\<rparr>)) users)))"

definition SetAdmin ::
    "'db env \<Rightarrow> ('db, 'fs) svc \<Rightarrow> u64 \<Rightarrow> bool \<Rightarrow> ctx \<Rightarrow> ('db, 'fs) svc \<times> (error + unit)" where
  "SetAdmin E a userId isAdmin c =
     attempt a (must (cx_user c)) (\<lambda>curUser.
     attempt a (guard (UT_UserId curUser = userId) InvalidArgument ''CANNOT_MODIFY_SELF'') (\<lambda>_.
     attempt a (guard (userId = 1) InvalidArgument ''CANNOT_MODIFY_ROOT'') (\<lambda>_.
       (case UpdateUserAtomic E (svc_db a) userId (\<lambda>u. Inr (u\<lparr>User_IsAdmin := isAdmin\<rparr>)) of
          (db', r) \<Rightarrow> (with_db a db', fail_status r Internal ''UPDATE_USER'')))))"

subsection \<open>GitHub accounts\<close>

definition getGithubEmails :: "'fs lib \<Rightarrow> string \<Rightarrow> error + (string \<times> bool \<times> bool) list" where
  "getGithubEmails L token =
     (case gh_ListEmails L token of
        Inl e \<Rightarrow> Inl (StatusErr Internal ''GET_GITHUB_EMAILS'')
      | Inr emails \<Rightarrow>
          if emails = [] then Inl (StatusErr Internal ''GET_GITHUB_EMAILS'') else Inr emails)"

definition getGithubUser :: "'fs lib \<Rightarrow> string \<Rightarrow> error + string \<times> string" where
  "getGithubUser L code =
     (case gh_Exchange L code of
        Inl e \<Rightarrow> Inl (StatusErr InvalidArgument ''INVALID_CODE'')
      | Inr token \<Rightarrow>
          (case gh_GetUser L token of
             Inl e \<Rightarrow> Inl (StatusErr Internal ''GET_GITHUB_USER'')
           | Inr login \<Rightarrow> Inr (login, token)))"

text \<open>The loop over the addresses: an address, whether it is verified, whether it is the primary one.\<close>

fun pick_email :: "string \<Rightarrow> (string \<times> bool \<times> bool) list \<Rightarrow> string" where
  "pick_email email [] = email"
| "pick_email email ((address, verified, primary) # rest) =
     (if \<not> verified then pick_email email rest
      else
        let email1 = (if email = [] then address else email)
        in if primary then address else pick_email email1 rest)"

definition GithubLogin ::
    "'db env \<Rightarrow> 'fs lib \<Rightarrow> time \<Rightarrow> ('db, 'fs) svc \<Rightarrow> string \<Rightarrow> ('db, 'fs) svc \<times> (error + u64 \<times> string)" where
  "GithubLogin E L now a code =
     attempt a (getGithubUser L code) (\<lambda>(login, token).
       (case GetUserByGithubId E (svc_db a) login of
          Inr (user, userId) \<Rightarrow> (a, login_user L a now userId user)
        | Inl e \<Rightarrow>
            attempt a (getGithubEmails L token) (\<lambda>emails.
              let email = pick_email [] emails
              in if email = [] then (a, Inl (StatusErr FailedPrecondition ''NO_VERIFIED_EMAIL''))
                 else
                   (case GetUserByEmail E (svc_db a) email of
                      Inr (user, userId) \<Rightarrow>
                        if User_GithubId user \<noteq> [] \<and> User_GithubId user \<noteq> login
                        then (a, Inl (StatusErr AlreadyExists ''EMAIL_DIFFERENT''))
                        else
                          (case BindGithubId E (svc_db a) userId login of
                             (db', Some e') \<Rightarrow> (with_db a db', Inl (StatusErr Internal ''BIND_GITHUB_ID''))
                           | (db', None) \<Rightarrow> (with_db a db', login_user L (with_db a db') now userId user))
                    | Inl e' \<Rightarrow>
                        (case signUpNewUser E L now a email login [] of
                           (a1, Inl e'') \<Rightarrow> (a1, Inl e'')
                         | (a1, Inr userId) \<Rightarrow>
                             (case BindGithubId E (svc_db a1) userId login of
                                (db', Some e'') \<Rightarrow> (with_db a1 db', Inl (StatusErr Internal ''BIND_GITHUB_ID''))
                              | (db', None) \<Rightarrow>
                                  (with_db a1 db',
                                   (case signLoginToken L (with_db a1 db') now userId login login False of
                                      Inl e'' \<Rightarrow> Inl e''
                                    | Inr ss \<Rightarrow> Inr (userId, ss)))))))))"

definition UnbindGithub :: "'db env \<Rightarrow> ('db, 'fs) svc \<Rightarrow> ctx \<Rightarrow> ('db, 'fs) svc \<times> (error + bool)" where
  "UnbindGithub E a c =
     attempt a (must (cx_user c)) (\<lambda>user.
       (case UnbindGithubId E (svc_db a) (UT_UserId user) of (db', r) \<Rightarrow> (with_db a db', Inr (r = None))))"

definition BindGithub ::
    "'db env \<Rightarrow> 'fs lib \<Rightarrow> ('db, 'fs) svc \<Rightarrow> string \<Rightarrow> ctx \<Rightarrow> ('db, 'fs) svc \<times> (error + bool)" where
  "BindGithub E L a code c =
     attempt a (must (cx_user c)) (\<lambda>user.
     attempt a (getGithubUser L code) (\<lambda>(login, token).
     attempt a (guard (length login = 0) InvalidArgument ''INVALID_GITHUB_LOGIN'') (\<lambda>_.
     attempt a (guard (id_or_zero (GetUserIdByGithubId E (svc_db a) login) \<noteq> 0) AlreadyExists ''ALREADY_IN_USE'') (\<lambda>_.
       (case BindGithubId E (svc_db a) (UT_UserId user) login of
          (db', r) \<Rightarrow> (with_db a db', Inr (r = None)))))))"

subsection \<open>Lemmas\<close>

text \<open>The user an account starts as.\<close>

definition new_account :: "string \<Rightarrow> bytes option \<Rightarrow> string \<Rightarrow> time \<Rightarrow> user" where
  "new_account username h email now =
     \<lparr>User_Username = username, User_Password = h, User_Email = email, User_GithubId = [],
      User_Nickname = username, User_StudentId = [], User_CreatedAt = Some now, User_IsAdmin = False\<rparr>"

lemma new_account_simps [simp]:
  "User_Username (new_account n h m t) = n" "User_Password (new_account n h m t) = h"
  "User_Email (new_account n h m t) = m" "User_Nickname (new_account n h m t) = n"
  "User_IsAdmin (new_account n h m t) = False" "User_GithubId (new_account n h m t) = []"
  by (simp_all add: new_account_def)

lemma username_no_at:
  assumes "isUsernameValid n"
  shows "CHR ''@'' \<notin> set n"
proof -
  obtain c cs where n: "n = c # cs" by (cases n) (use assms in \<open>auto simp: isUsernameValid_def\<close>)
  have no: "\<not> is_alnum (CHR ''@'')" by (simp add: is_alnum_def less_eq_char_def)
  have "is_alnum c" "list_all (\<lambda>d. is_alnum d \<or> d = CHR ''_'' \<or> d = CHR ''-'') cs"
    using assms by (auto simp: isUsernameValid_def n)
  then show ?thesis using no by (auto simp: n list_all_iff)
qed

lemma user_inv_cong:
  assumes "\<And>k. prefix ''user:'' k \<Longrightarrow> view db' k = view db k"
  shows "user_inv E view db' q = user_inv E view db q"
proof -
  have "view db' (getUserIdKey i) = view db (getUserIdKey i)" "view db' (getUsernameKey n) = view db (getUsernameKey n)"
    for i n by (rule assms; simp add: getUserIdKey_def getUsernameKey_def)+
  then show ?thesis by (simp add: user_inv_def)
qed

context store
begin

lemma Validate_other:
  assumes "Validate E db now typ key code = (db', r)" and "k \<noteq> verification_getKey typ key"
  shows "view db' k = view db k"
proof -
  obtain d r' where v: "Validate_read E db now typ key code = (d, r')" by (cases "Validate_read E db now typ key code")
  obtain db1 e where del: "pdelete E db (verification_getKey typ key) = (db1, e)"
    by (cases "pdelete E db (verification_getKey typ key)")
  show ?thesis using assms delete_view [OF del] by (auto simp: Validate_def v del split: bool.splits)
qed

lemma validateEmailCode_frame:
  assumes "validateEmailCode E now a typ email code = (a1, r)"
  shows "a1 = with_db a (svc_db a1)" "\<And>k. prefix ''user:'' k \<Longrightarrow> view (svc_db a1) k = view (svc_db a) k"
proof -
  obtain db' r' where v: "Validate E (svc_db a) now typ email code = (db', r')"
    by (cases "Validate E (svc_db a) now typ email code")
  have a1: "a1 = with_db a db'" using assms v by (auto simp: validateEmailCode_def split: sum.splits bool.splits)
  then show "a1 = with_db a (svc_db a1)" by simp
  fix k :: string assume "prefix ''user:'' k"
  then have "k \<noteq> verification_getKey typ email"
    by (auto simp: verification_getKey_def verification_getPrefix_def)
  then show "view (svc_db a1) k = view (svc_db a) k" using Validate_other [OF v] a1 by simp
qed

end

lemma with_db_seq [simp]: "svc_user_seq (with_db a db) = svc_user_seq a"
  by (simp add: with_db_def)

lemma svc_db_seq [simp]:
  "svc_db (a\<lparr>svc_user_seq := q\<rparr>) = svc_db a" "userJWTSignKey (a\<lparr>svc_user_seq := q\<rparr>) = userJWTSignKey a"
  by (simp_all add: svc_db_def)

context store_up
begin

lemma signUpNewUser_creates:
  assumes inv: "user_inv E view (svc_db a) (svc_user_seq a)" and "i \<noteq> 0"
    and sign: "signUpNewUser E L now a email username password = (a', Inr i)"
  shows "\<exists>h. hash_password L password = Inr h \<and> isUsernameValid username \<and>
    GetUserIdByUsername E (svc_db a) username = Inl ErrNotFound \<and>
    id_or_zero (GetUserIdByEmail E (svc_db a) email) = 0 \<and>
    (let u = new_account username h email now
     in GetUserById E (svc_db a') i = Inr u \<and> GetUserByUsername E (svc_db a') username = Inr (u, i) \<and>
       GetUserByEmail E (svc_db a') email = Inr (u, i)) \<and>
    GetUserById E (svc_db a) i = Inl ErrNotFound \<and> userJWTSignKey a' = userJWTSignKey a"
proof -
  define u0 where "u0 h = \<lparr>User_Username = username, User_Password = h, User_Email = email, User_GithubId = [],
      User_Nickname = username, User_StudentId = [], User_CreatedAt = None, User_IsAdmin = False\<rparr>"
    for h :: "bytes option"
  obtain h where h: "hash_password L password = Inr h" and v: "validateUsernameAndEmail E L a username email = Inr ()"
    using sign by (auto simp: signUpNewUser_def attempt_Inr)
  obtain db' q' r where c: "CreateUser E (svc_db a) (svc_user_seq a) now (u0 h) = (db', q', r)"
    by (cases "CreateUser E (svc_db a) (svc_user_seq a) now (u0 h)") auto
  have a': "a' = (with_db a db')\<lparr>svc_user_seq := q'\<rparr>" "r = Inr i"
    using sign c by (simp_all add: signUpNewUser_def h v u0_def [symmetric])
  have zero: "id_or_zero (GetUserIdByUsername E (svc_db a) username) = 0"
    "id_or_zero (GetUserIdByEmail E (svc_db a) email) = 0" "isUsernameValid username"
    using v by (auto simp: validateUsernameAndEmail_def split: if_splits)
  have absent: "GetUserIdByUsername E (svc_db a) (User_Username (u0 h)) = Inl ErrNotFound"
  proof (rule ccontr)
    assume "GetUserIdByUsername E (svc_db a) (User_Username (u0 h)) \<noteq> Inl ErrNotFound"
    then show False
      using c a'(2) zero(1) \<open>i \<noteq> 0\<close>
      by (auto simp: CreateUser_def GetUserIdByUsername_def u0_def id_or_zero_def Let_def split: sum.splits if_splits)
  qed
  have u: "(u0 h)\<lparr>User_CreatedAt := Some now\<rparr> = new_account username h email now"
    by (simp add: u0_def new_account_def)
  from CreateUser_creates [OF store_up_axioms inv absent c [unfolded a'(2)]] show ?thesis
    using h zero absent by (auto simp: u Let_def a'(1) u0_def new_account_def)
qed

end

context store_up
begin

lemma user_reads_cong:
  assumes "\<And>k. prefix ''user:'' k \<Longrightarrow> view db' k = view db k"
  shows "GetUserById E db' i = GetUserById E db i" "GetUserByEmail E db' m = GetUserByEmail E db m"
    "GetUserIdByUsername E db' n = GetUserIdByUsername E db n"
proof -
  have id: "GetUserById E db' i = GetUserById E db i" for i
    by (rule GetUserById_other, rule assms) (simp add: getUserIdKey_def)
  have "get_id E db' (getEmailKey m) = get_id E db (getEmailKey m)"
    by (rule get_id_other, rule assms) (simp add: getEmailKey_def)
  then show "GetUserById E db' i = GetUserById E db i" "GetUserByEmail E db' m = GetUserByEmail E db m"
    by (simp_all add: id GetUserByEmail_def GetUserIdByEmail_def cong: sum.case_cong)
  show "GetUserIdByUsername E db' n = GetUserIdByUsername E db n"
    unfolding GetUserIdByUsername_def by (rule get_id_other, rule assms) (simp add: getUsernameKey_def)
qed

lemma Validate_gone:
  "view db (verification_getKey typ key) = None \<Longrightarrow> Validate E db now typ key code = (db, Inl ErrNotFound)"
  by (simp add: Validate_def Validate_read_def get_message_def get_absent)

text \<open>A code that was accepted is gone.\<close>

lemma validateEmailCode_ok:
  assumes "validateEmailCode E now a typ email code = (a1, Inr ())"
  shows "snd (Validate E (svc_db a) now typ email code) = Inr True"
    and "view (svc_db a1) (verification_getKey typ email) = None"
proof -
  obtain db' where v: "Validate E (svc_db a) now typ email code = (db', Inr True)" "a1 = with_db a db'"
    using assms by (auto simp: validateEmailCode_def split: prod.splits sum.splits bool.splits)
  then show "snd (Validate E (svc_db a) now typ email code) = Inr True" by simp
  obtain db1 e where del: "pdelete E (svc_db a) (verification_getKey typ email) = (db1, e)"
    by (cases "pdelete E (svc_db a) (verification_getKey typ email)")
  have "db' = db1"
    using v(1) del by (auto simp: Validate_def Validate_read_def split: sum.splits if_splits)
  then show "view (svc_db a1) (verification_getKey typ email) = None" using delete_eq [OF del] v(2) by simp
qed

end

lemma SignUp_Inr:
  assumes "SignUp E L now a email code username password = (a', Inr i)"
  shows "\<exists>a1. validateEmailCode E now a SignUpRepoType email code = (a1, Inr ()) \<and>
    MinPasswordLength \<le> length password \<and> signUpNewUser E L now a1 email username password = (a', Inr i)"
  using assms by (auto simp: SignUp_def attempt_Inr split: prod.splits)

lemma Login_name:
  assumes "CHR ''@'' \<notin> set n" and "GetUserByUsername E (svc_db a) n = Inr (u, i)"
  shows "Login E L t a n p = (a, if CompareHashAndPassword L (GetPassword u) p then login_user L a t i u
    else Inl (StatusErr InvalidArgument ''WRONG_PASSWORD''))"
  using assms by (simp add: Login_def)

lemma Login_email:
  assumes "CHR ''@'' \<in> set m" and "GetUserByEmail E (svc_db a) m = Inr (u, i)"
  shows "Login E L t a m p = (a, if CompareHashAndPassword L (GetPassword u) p then login_user L a t i u
    else Inl (StatusErr InvalidArgument ''WRONG_PASSWORD''))"
  using assms by (simp add: Login_def)

lemma GetUserBy_Inr:
  "GetUserByEmail E db m = Inr (u, i) \<Longrightarrow> GetUserById E db i = Inr u"
  "GetUserByUsername E db n = Inr (u, i) \<Longrightarrow> GetUserById E db i = Inr u"
  "GetUserByGithubId E db g = Inr (u, i) \<Longrightarrow> GetUserById E db i = Inr u"
  by (auto simp: GetUserByEmail_def GetUserByUsername_def GetUserByGithubId_def split: sum.splits)

lemma login_user_Inr: "login_user L a t i u = Inr (j, ss) \<Longrightarrow> j = i"
  by (auto simp: login_user_def split: sum.splits)

lemma Login_Inr:
  assumes "Login E L t a name p = (a', Inr (i, ss))"
  shows "\<exists>u. GetUserById E (svc_db a) i = Inr u \<and> CompareHashAndPassword L (GetPassword u) p \<and> a' = a \<and>
    login_user L a t i u = Inr (i, ss)"
proof -
  define r where "r = (if CHR ''@'' \<in> set name then GetUserByEmail E (svc_db a) name
    else GetUserByUsername E (svc_db a) name)"
  have l: "Login E L t a name p = (case r of
        Inl e \<Rightarrow> (a, Inl (StatusErr InvalidArgument ''WRONG_PASSWORD''))
      | Inr (user, i) \<Rightarrow>
          if \<not> CompareHashAndPassword L (GetPassword user) p
          then (a, Inl (StatusErr InvalidArgument ''WRONG_PASSWORD''))
          else (a, login_user L a t i user))" by (simp add: Login_def r_def)
  obtain u j where r: "r = Inr (u, j)" using assms l by (cases r) auto
  then have "GetUserById E (svc_db a) j = Inr u"
    using GetUserBy_Inr(1) [of E "svc_db a" name] GetUserBy_Inr(2) [of E "svc_db a" name]
    by (simp add: r_def split: if_splits)
  moreover have "CompareHashAndPassword L (GetPassword u) p" "a' = a" "login_user L a t j u = Inr (i, ss)"
    using assms l r by (auto split: if_splits)
  ultimately show ?thesis using login_user_Inr by metis
qed

lemma pick_email_verified:
  "pick_email e0 emails = e \<Longrightarrow> e = e0 \<or> (\<exists>primary. (e, True, primary) \<in> set emails)"
proof (induction e0 emails rule: pick_email.induct)
  case (2 email address verified primary rest)
  then show ?case by (auto simp: Let_def split: if_splits)
qed simp

lemma getGithubUser_Inr:
  "getGithubUser L code = Inr (login, token) \<longleftrightarrow> gh_Exchange L code = Inr token \<and> gh_GetUser L token = Inr login"
  by (auto simp: getGithubUser_def split: sum.splits)

lemma getGithubEmails_Inr: "getGithubEmails L token = Inr emails \<longleftrightarrow> gh_ListEmails L token = Inr emails \<and> emails \<noteq> []"
  by (auto simp: getGithubEmails_def split: sum.splits if_splits)

text \<open>The three ways a GitHub login ends.\<close>

lemma GithubLogin_cases:
  assumes "GithubLogin E L now a code = (a', Inr (i, ss))"
  obtains login token where "getGithubUser L code = Inr (login, token)"
    and "(\<exists>u. GetUserByGithubId E (svc_db a) login = Inr (u, i) \<and> a' = a) \<or>
      (\<exists>emails email. getGithubEmails L token = Inr emails \<and> pick_email [] emails = email \<and> email \<noteq> [] \<and>
        ((\<exists>u db'. GetUserByEmail E (svc_db a) email = Inr (u, i) \<and> User_GithubId u \<in> {[], login} \<and>
            BindGithubId E (svc_db a) i login = (db', None) \<and> svc_db a' = db') \<or>
         (\<exists>a1 db'. signUpNewUser E L now a email login [] = (a1, Inr i) \<and>
            BindGithubId E (svc_db a1) i login = (db', None) \<and> svc_db a' = db')))"
proof -
  obtain login token where g: "getGithubUser L code = Inr (login, token)"
    using assms by (cases "getGithubUser L code") (auto simp: GithubLogin_def)
  show thesis
  proof (cases "GetUserByGithubId E (svc_db a) login")
    case (Inr ui)
    obtain u j where ui: "ui = (u, j)" by (cases ui)
    have "a' = a" "j = i" using assms g Inr by (auto simp: GithubLogin_def ui dest: login_user_Inr)
    then show thesis using that [OF g] Inr ui by blast
  next
    case (Inl e)
    obtain emails where m: "getGithubEmails L token = Inr emails"
      using assms g Inl by (cases "getGithubEmails L token") (auto simp: GithubLogin_def)
    define email where "email = pick_email [] emails"
    have ne: "email \<noteq> []" using assms g Inl m by (auto simp: GithubLogin_def email_def [symmetric] Let_def)
    note step = assms [unfolded GithubLogin_def g attempt_simps prod.case Inl sum.case m Let_def email_def [symmetric]]
    show thesis
    proof (cases "GetUserByEmail E (svc_db a) email")
      case (Inr ui)
      obtain u j where ui: "ui = (u, j)" by (cases ui)
      have "User_GithubId u \<in> {[], login}" using step ne Inr by (auto simp: ui split: if_splits)
      moreover obtain db' where "BindGithubId E (svc_db a) j login = (db', None)" "a' = with_db a db'" "j = i"
        using step ne Inr by (auto simp: ui split: if_splits prod.splits option.splits dest: login_user_Inr)
      ultimately show thesis using that [OF g] m ne Inr ui email_def by fastforce
    next
      case no: (Inl e2)
      obtain a1 j where s: "signUpNewUser E L now a email login [] = (a1, Inr j)"
        using step ne no by (auto split: prod.splits sum.splits)
      moreover obtain db' where "BindGithubId E (svc_db a1) j login = (db', None)" "a' = with_db a1 db'" "j = i"
        using step ne no s by (auto split: prod.splits option.splits sum.splits)
      ultimately show thesis using that [OF g] m ne email_def by fastforce
    qed
  qed
qed

subsection \<open>Properties\<close>

text \<open>
  C33: Signing up makes an account one can log in to. When \<open>SignUp\<close> answers with an id, the code of the address
  was valid, the password has at least eight bytes, no account had that id, name or address before (0 is no
  user's id), and from then on exactly the passwords that match the stored hash log in under the name, and under
  the address; the account is not an administrator's.
\<close>

theorem signup_then_login:
  assumes "store_up E view" and "user_inv E view (svc_db a) (svc_user_seq a)" and "i \<noteq> 0"
    and "SignUp E L now a email code username password = (a', Inr i)" and "CHR ''@'' \<in> set email"
    and "GetUserById E (svc_db a) 0 = Inl ErrNotFound"
  shows "\<exists>h. GenerateFromPassword L password = Inr h \<and> 8 \<le> length password \<and>
    snd (Validate E (svc_db a) now SignUpRepoType email code) = Inr True \<and>
    GetUserById E (svc_db a) i = Inl ErrNotFound \<and> GetUserIdByUsername E (svc_db a) username = Inl ErrNotFound \<and>
    (\<nexists>u j. GetUserByEmail E (svc_db a) email = Inr (u, j)) \<and>
    (\<forall>name t p. name \<in> {username, email} \<longrightarrow> Login E L t a' name p =
      (a', if CompareHashAndPassword L h p then login_user L a' t i (new_account username (Some h) email now)
           else Inl (StatusErr InvalidArgument ''WRONG_PASSWORD'')))"
proof -
  note st = store_up.axioms(1) [OF assms(1)]
  obtain a1 where v: "validateEmailCode E now a SignUpRepoType email code = (a1, Inr ())"
    and p: "8 \<le> length password" and s: "signUpNewUser E L now a1 email username password = (a', Inr i)"
    using SignUp_Inr [OF assms(4)] by (auto simp: MinPasswordLength_def)
  note valid = store_up.validateEmailCode_ok(1) [OF assms(1) v]
  note frame = store.validateEmailCode_frame [OF st v]
  have seq: "svc_user_seq a1 = svc_user_seq a" by (subst frame(1)) simp
  have "user_inv E view (svc_db a1) q = user_inv E view (svc_db a) q" for q
    by (rule user_inv_cong) (rule frame(2))
  then have "user_inv E view (svc_db a1) (svc_user_seq a1)" using assms(2) by (simp add: seq)
  from store_up.signUpNewUser_creates [OF assms(1) this assms(3) s] obtain h where
    h: "hash_password L password = Inr h" "isUsernameValid username"
      "GetUserIdByUsername E (svc_db a1) username = Inl ErrNotFound" "GetUserById E (svc_db a1) i = Inl ErrNotFound"
      "id_or_zero (GetUserIdByEmail E (svc_db a1) email) = 0"
    and read: "GetUserByUsername E (svc_db a') username = Inr (new_account username h email now, i)"
      "GetUserByEmail E (svc_db a') email = Inr (new_account username h email now, i)"
    by (auto simp: Let_def)
  obtain h' where h': "GenerateFromPassword L password = Inr h'" "h = Some h'"
    using h(1) p by (auto simp: hash_password_def split: if_splits sum.splits)
  have old: "GetUserById E (svc_db a) i = Inl ErrNotFound" "GetUserIdByUsername E (svc_db a) username = Inl ErrNotFound"
    using h(3,4) store_up.user_reads_cong [OF assms(1) frame(2)] by simp_all
  have "GetUserById E (svc_db a1) 0 = Inl ErrNotFound"
    using assms(6) store_up.user_reads_cong(1) [OF assms(1) frame(2)] by simp
  then have "\<nexists>u j. GetUserByEmail E (svc_db a1) email = Inr (u, j)"
    using h(5) by (auto simp: GetUserByEmail_def id_or_zero_def split: sum.splits)
  then have "\<nexists>u j. GetUserByEmail E (svc_db a) email = Inr (u, j)"
    using store_up.user_reads_cong(2) [OF assms(1) frame(2)] by simp
  then show ?thesis
    using h' p valid old Login_name [OF username_no_at [OF h(2)] read(1)] Login_email [OF assms(5) read(2)]
    by (auto simp: GetPassword_def)
qed

text \<open>A server at which a code for \<open>a@b.c\<close> is out, and the user that signs up with it.\<close>

definition code_db :: "string \<Rightarrow> mem_db" where
  "code_db typ = [(verification_getKey typ ''a@b.c'', decimal (to_nat
     \<lparr>VCode_Code = ''123456'', VCode_IssuedAt = Some 0, VCode_ExpiredAt = Some 900\<rparr>))]"

lemma code_db_valid:
  "Validate mem_env (code_db typ) 5 typ ''a@b.c'' ''123456'' = ([], Inr True)"
  by (simp add: code_db_def Validate_def Validate_read_def get_message_def mem_get_def mem_del_def)

lemma test_login_user: "\<exists>ss. login_user test_lib a t i u = Inr (i, ss)"
proof -
  obtain ss where "signPayloadToken plain_jwt t (userJWTSignKey a) (counting_codec (from_nat 0))
      \<lparr>UT_UserId = i, UT_Username = User_Username u, UT_Nickname = User_Nickname u, UT_IsAdmin = User_IsAdmin u\<rparr>
      (t + UserTokenValidDuration) = Inr ss" using sign_plain by blast
  then show ?thesis by (simp add: login_user_def signLoginToken_def)
qed

theorem signup_then_login_witness:
  "\<exists>a'. SignUp mem_env test_lib 5 ((test_svc (code_db SignUpRepoType))\<lparr>svc_user_seq := first_seq\<rparr>) ''a@b.c'' ''123456''
       ''alice'' ''password'' = (a', Inr 1) \<and>
     (\<exists>ss. Login mem_env test_lib 6 a' ''alice'' ''password'' = (a', Inr (1, ss))) \<and>
     Login mem_env test_lib 6 a' ''a@b.c'' ''passwort'' = (a', Inl (StatusErr InvalidArgument ''WRONG_PASSWORD''))"
proof -
  define a where "a = (test_svc (code_db SignUpRepoType))\<lparr>svc_user_seq := first_seq\<rparr>"
  have db: "svc_db a = code_db SignUpRepoType" "svc_user_seq a = first_seq" by (simp_all add: a_def)
  have inv: "user_inv mem_env map_of (svc_db a) (svc_user_seq a)"
    by (auto simp: user_inv_def db first_seq_def code_db_def verification_getKey_def verification_getPrefix_def
        getUserIdKey_def split: if_splits)
  obtain db' q' where c: "CreateUser mem_env [] first_seq 5 \<lparr>User_Username = ''alice'',
      User_Password = Some (''hash '' @ ''password''), User_Email = ''a@b.c'', User_GithubId = [],
      User_Nickname = ''alice'', User_StudentId = [], User_CreatedAt = None, User_IsAdmin = False\<rparr> = (db', q', Inr 1)"
    by (simp add: CreateUser_def Let_def get_id_def mem_get_def GetNextId_in_batch first_seq_def)
  have name: "isUsernameValid ''alice''" by (simp add: isUsernameValid_def is_alnum_def less_eq_char_def)
  have hash: "hash_password test_lib ''password'' = Inr (Some (''hash '' @ ''password''))"
    by (simp add: hash_password_def)
  have check: "validateUsernameAndEmail mem_env test_lib (with_db a []) ''alice'' ''a@b.c'' = Inr ()"
    using name by (simp add: validateUsernameAndEmail_def isMailValid_def id_or_zero_def GetUserIdByEmail_def
        GetUserIdByUsername_def get_id_def mem_get_def)
  have "SignUp mem_env test_lib 5 a ''a@b.c'' ''123456'' ''alice'' ''password'' =
      ((with_db a db')\<lparr>svc_user_seq := q'\<rparr>, Inr 1)"
    using c by (simp add: SignUp_def validateEmailCode_def db code_db_valid MinPasswordLength_def signUpNewUser_def
        check hash)
  then obtain a' where s: "SignUp mem_env test_lib 5 a ''a@b.c'' ''123456'' ''alice'' ''password'' = (a', Inr 1)" by blast
  have "GetUserById mem_env (svc_db a) 0 = Inl ErrNotFound"
    by (simp add: db code_db_def GetUserById_def get_message_def mem_get_def getUserIdKey_def verification_getKey_def
        verification_getPrefix_def)
  from signup_then_login [OF mem_store_up inv _ s _ this]
  have "name \<in> {''alice'', ''a@b.c''} \<Longrightarrow> Login mem_env test_lib 6 a' name p = (a', if p = ''password''
      then login_user test_lib a' 6 1 (new_account ''alice'' (Some (''hash '' @ ''password'')) ''a@b.c'' 5)
      else Inl (StatusErr InvalidArgument ''WRONG_PASSWORD''))" for name p
    by auto
  moreover have "\<exists>ss. login_user test_lib a' 6 1 u = Inr (1, ss)" for u
    by (simp add: test_login_user)
  ultimately show ?thesis using s by (auto simp: a_def)
qed

text \<open>What the token of a login says to \<open>RequireLogin\<close>, and until when.\<close>

lemma login_user_session:
  assumes "jwt_ok (lib_jwt L)" and "codec_ok (C_UserToken L)"
    and "login_user L a t i u = Inr (j, ss)" and "rq_bearer req = Inr ss"
  shows "j = i \<and>
    (t' < (t + UserTokenValidDuration) div nanosecond_per_second * nanosecond_per_second \<longrightarrow>
      (\<exists>c'. RequireLogin L a t' req c = (c', None) \<and> cx_user c' = Some \<lparr>UT_UserId = i,
         UT_Username = User_Username u, UT_Nickname = User_Nickname u, UT_IsAdmin = User_IsAdmin u\<rparr>)) \<and>
    (t + UserTokenValidDuration \<le> t' \<longrightarrow> (\<exists>c' e. RequireLogin L a t' req c = (c', Some e)))"
proof -
  define pl where "pl = \<lparr>UT_UserId = i, UT_Username = User_Username u, UT_Nickname = User_Nickname u,
      UT_IsAdmin = User_IsAdmin u\<rparr>"
  have sign: "signPayloadToken (lib_jwt L) t (userJWTSignKey a) (C_UserToken L) pl (t + UserTokenValidDuration) = Inr ss"
    and j: "j = i"
    using assms(3) by (auto simp: login_user_def signLoginToken_def pl_def split: sum.splits if_splits)
  note parse = token_parses [OF assms(1) sign]
  have "\<exists>c'. RequireLogin L a t' req c = (c', None) \<and> cx_user c' = Some pl"
    if early: "t' < (t + UserTokenValidDuration) div nanosecond_per_second * nanosecond_per_second"
  proof -
    obtain raw where "Marshal (C_UserToken L) pl = Inr raw" "parseTokenPayload (lib_jwt L) t' (userJWTSignKey a) ss = Inr raw"
      using parse [of t'] early by blast
    then have "logged_in L a t' req pl"
      using assms(4) codec_okD [OF assms(2)] by (auto simp: logged_in_def)
    then show ?thesis by (auto simp: RequireLogin_ok)
  qed
  moreover have "\<exists>c' e. RequireLogin L a t' req c = (c', Some e)" if late: "t + UserTokenValidDuration \<le> t'"
  proof -
    obtain e where "parseTokenPayload (lib_jwt L) t' (userJWTSignKey a) ss = Inl e"
      using parse [of t'] late by blast
    then show ?thesis by (simp add: RequireLogin_def assms(4))
  qed
  ultimately show ?thesis using j by (simp add: pl_def)
qed

text \<open>
  C34: A login lasts three hours and is bound to the account. \<open>Login\<close> changes nothing and answers only when the
  password matches the hash stored for the id it returns; the token it hands out makes \<open>RequireLogin\<close> accept a
  request as that user, with the names and the admin flag the account had, until (to the second) three hours
  later, and never after.
\<close>

theorem login_session:
  assumes "jwt_ok (lib_jwt L)" and "codec_ok (C_UserToken L)"
    and "Login E L t a name p = (a', Inr (i, ss))" and "rq_bearer req = Inr ss"
  shows "a' = a \<and> (\<exists>u. GetUserById E (svc_db a) i = Inr u \<and> CompareHashAndPassword L (GetPassword u) p \<and>
    (\<forall>t' c. t' < (t + UserTokenValidDuration) div nanosecond_per_second * nanosecond_per_second \<longrightarrow>
      (\<exists>c'. RequireLogin L a t' req c = (c', None) \<and> cx_user c' = Some \<lparr>UT_UserId = i,
         UT_Username = User_Username u, UT_Nickname = User_Nickname u, UT_IsAdmin = User_IsAdmin u\<rparr>)) \<and>
    (\<forall>t' c. t + UserTokenValidDuration \<le> t' \<longrightarrow> (\<exists>c' e. RequireLogin L a t' req c = (c', Some e))))"
proof -
  obtain u where u: "GetUserById E (svc_db a) i = Inr u" "CompareHashAndPassword L (GetPassword u) p" "a' = a"
    and login: "login_user L a t i u = Inr (i, ss)"
    using Login_Inr [OF assms(3)] by blast
  show ?thesis using u login_user_session [OF assms(1,2) login assms(4)] by blast
qed

definition alice_login_db :: mem_db where
  "alice_login_db = [(getUsernameKey ''alice'', Uint64ToBytes 1),
     (getUserIdKey 1, decimal (to_nat (new_account ''alice'' (Some ''hash secret'') ''a@b.c'' 5)))]"

theorem login_session_witness:
  "\<exists>ss a. Login mem_env test_lib 6 (test_svc alice_login_db) ''alice'' ''secret'' = (a, Inr (1, ss)) \<and>
     (\<exists>c. RequireLogin test_lib a 7 ((test_request (test_user 7) None None)\<lparr>rq_bearer := Inr ss\<rparr>) empty_ctx = (c, None) \<and>
       cx_user c = Some \<lparr>UT_UserId = 1, UT_Username = ''alice'', UT_Nickname = ''alice'', UT_IsAdmin = False\<rparr>)"
proof -
  define u where "u = new_account ''alice'' (Some ''hash secret'') ''a@b.c'' 5"
  have read: "GetUserByUsername mem_env (svc_db (test_svc alice_login_db)) ''alice'' = Inr (u, 1)"
    by (simp add: GetUserByUsername_def GetUserIdByUsername_def get_id_def mem_get_def alice_login_db_def
        GetUserById_def get_message_def u_def)
  obtain ss where ss: "login_user test_lib (test_svc alice_login_db) 6 1 u = Inr (1, ss)" using test_login_user by blast
  have "CompareHashAndPassword test_lib (GetPassword u) ''secret''" by (simp add: GetPassword_def u_def)
  then have l: "Login mem_env test_lib 6 (test_svc alice_login_db) ''alice'' ''secret'' =
      (test_svc alice_login_db, Inr (1, ss))"
    using Login_name [OF _ read] ss by simp
  have t: "(7 :: int) < (6 + UserTokenValidDuration) div nanosecond_per_second * nanosecond_per_second"
    by (simp add: UserTokenValidDuration_def)
  have jwt: "jwt_ok (lib_jwt test_lib)" "codec_ok (C_UserToken test_lib)" by (simp_all add: plain_jwt_ok)
  let ?req = "(test_request (test_user 7) None None)\<lparr>rq_bearer := Inr ss\<rparr>"
  have "rq_bearer ?req = Inr ss" by simp
  from login_session [OF jwt l this] obtain v where
    v: "GetUserById mem_env (svc_db (test_svc alice_login_db)) 1 = Inr v"
      "\<exists>c'. RequireLogin test_lib (test_svc alice_login_db) 7 ?req empty_ctx = (c', None) \<and> cx_user c' =
        Some \<lparr>UT_UserId = 1, UT_Username = User_Username v, UT_Nickname = User_Nickname v, UT_IsAdmin = User_IsAdmin v\<rparr>"
    using t by blast
  have "v = u" using v(1) GetUserBy_Inr(2) [OF read] by simp
  then have "User_Username v = ''alice''" "User_Nickname v = ''alice''" "\<not> User_IsAdmin v" by (simp_all add: u_def)
  then show ?thesis using l v(2) by auto
qed

text \<open>
  C35: A GitHub account opens its own account only. When \<open>GithubLogin\<close> logs someone in as user \<open>i\<close>, either the
  GitHub login was bound to \<open>i\<close> before, and nothing changed; or one of the verified addresses of the GitHub
  account is the address of \<open>i\<close>, whom no other GitHub login was bound to; or \<open>i\<close> is a new account under a
  name nobody had. In every case the GitHub login leads to \<open>i\<close> afterwards.
\<close>

theorem github_login_owner:
  assumes "store_up E view" and "user_inv E view (svc_db a) (svc_user_seq a)" and "i \<noteq> 0"
    and "GithubLogin E L now a code = (a', Inr (i, ss))"
  shows "\<exists>login token. gh_Exchange L code = Inr token \<and> gh_GetUser L token = Inr login \<and>
    GetUserIdByGithubId E (svc_db a') login = Inr i \<and>
    (GetUserIdByGithubId E (svc_db a) login = Inr i \<and> a' = a \<or>
     (\<exists>emails email primary. gh_ListEmails L token = Inr emails \<and> (email, True, primary) \<in> set emails \<and>
        ((\<exists>u. GetUserByEmail E (svc_db a) email = Inr (u, i) \<and> User_GithubId u \<in> {[], login}) \<or>
         GetUserById E (svc_db a) i = Inl ErrNotFound \<and> GetUserIdByUsername E (svc_db a) login = Inl ErrNotFound)))"
proof -
  note st = store_up.axioms(1) [OF assms(1)]
  have bound: "GetUserIdByGithubId E db' login = Inr i" if "BindGithubId E db i login = (db', None)" for db db' login
    using store.BindGithubId_ok [OF st that] store_up.get_id_present [OF assms(1)]
    by (simp add: GetUserIdByGithubId_def)
  have new: "GetUserById E (svc_db a) i = Inl ErrNotFound \<and> GetUserIdByUsername E (svc_db a) login = Inl ErrNotFound"
    if "signUpNewUser E L now a email login [] = (a1, Inr i)" for a1 login email
    using store_up.signUpNewUser_creates [OF assms(1,2,3) that] by blast
  obtain login token where g: "getGithubUser L code = Inr (login, token)"
    and c: "(\<exists>u. GetUserByGithubId E (svc_db a) login = Inr (u, i) \<and> a' = a) \<or>
      (\<exists>emails email. getGithubEmails L token = Inr emails \<and> pick_email [] emails = email \<and> email \<noteq> [] \<and>
        ((\<exists>u db'. GetUserByEmail E (svc_db a) email = Inr (u, i) \<and> User_GithubId u \<in> {[], login} \<and>
            BindGithubId E (svc_db a) i login = (db', None) \<and> svc_db a' = db') \<or>
         (\<exists>a1 db'. signUpNewUser E L now a email login [] = (a1, Inr i) \<and>
            BindGithubId E (svc_db a1) i login = (db', None) \<and> svc_db a' = db')))"
    by (rule GithubLogin_cases [OF assms(4)])
  show ?thesis
  proof (rule exI [of _ login], rule exI [of _ token], intro conjI)
    show "gh_Exchange L code = Inr token" "gh_GetUser L token = Inr login" using g by (simp_all add: getGithubUser_Inr)
    show "GetUserIdByGithubId E (svc_db a') login = Inr i"
      using c bound by (auto simp: GetUserByGithubId_def split: sum.splits)
    show "GetUserIdByGithubId E (svc_db a) login = Inr i \<and> a' = a \<or>
     (\<exists>emails email primary. gh_ListEmails L token = Inr emails \<and> (email, True, primary) \<in> set emails \<and>
        ((\<exists>u. GetUserByEmail E (svc_db a) email = Inr (u, i) \<and> User_GithubId u \<in> {[], login}) \<or>
         GetUserById E (svc_db a) i = Inl ErrNotFound \<and> GetUserIdByUsername E (svc_db a) login = Inl ErrNotFound))"
      using c
    proof (elim disjE)
      assume "\<exists>u. GetUserByGithubId E (svc_db a) login = Inr (u, i) \<and> a' = a"
      then have "GetUserIdByGithubId E (svc_db a) login = Inr i \<and> a' = a"
        by (auto simp: GetUserByGithubId_def split: sum.splits)
      then show ?thesis ..
    next
      assume "\<exists>emails email. getGithubEmails L token = Inr emails \<and> pick_email [] emails = email \<and> email \<noteq> [] \<and>
        ((\<exists>u db'. GetUserByEmail E (svc_db a) email = Inr (u, i) \<and> User_GithubId u \<in> {[], login} \<and>
            BindGithubId E (svc_db a) i login = (db', None) \<and> svc_db a' = db') \<or>
         (\<exists>a1 db'. signUpNewUser E L now a email login [] = (a1, Inr i) \<and>
            BindGithubId E (svc_db a1) i login = (db', None) \<and> svc_db a' = db'))"
      then obtain emails email where m: "gh_ListEmails L token = Inr emails" "pick_email [] emails = email" "email \<noteq> []"
        and o: "(\<exists>u. GetUserByEmail E (svc_db a) email = Inr (u, i) \<and> User_GithubId u \<in> {[], login}) \<or>
          (\<exists>a1. signUpNewUser E L now a email login [] = (a1, Inr i))"
        by (auto simp: getGithubEmails_Inr)
      then show ?thesis using pick_email_verified [OF m(2)] new by blast
    qed
  qed
qed

definition octo_db :: mem_db where
  "octo_db = [(getEmailKey ''octo@example.com'', Uint64ToBytes 1), (getUsernameKey ''alice'', Uint64ToBytes 1),
     (getUserIdKey 1, decimal (to_nat (new_account ''alice'' None ''octo@example.com'' 5)))]"

theorem github_login_owner_witness:
  "\<exists>a ss. GithubLogin mem_env test_lib 6 ((test_svc octo_db)\<lparr>svc_user_seq := first_seq\<lparr>seq_next := 2\<rparr>\<rparr>) ''octo'' = (a, Inr (1, ss)) \<and>
     GetUserIdByGithubId mem_env (svc_db a) ''octo'' = Inr 1"
proof -
  define a where "a = (test_svc octo_db)\<lparr>svc_user_seq := first_seq\<lparr>seq_next := 2\<rparr>\<rparr>"
  define u where "u = new_account ''alice'' None ''octo@example.com'' 5"
  have db: "svc_db a = octo_db" "svc_user_seq a = first_seq\<lparr>seq_next := 2\<rparr>" by (simp_all add: a_def)
  have gh: "getGithubUser test_lib ''octo'' = Inr (''octo'', ''octo'')"
    "getGithubEmails test_lib ''octo'' = Inr [(''octo@example.com'', True, True)]"
    by (simp_all add: getGithubUser_def getGithubEmails_def test_lib_def)
  have read: "GetUserByGithubId mem_env octo_db ''octo'' = Inl ErrNotFound"
    "GetUserByEmail mem_env octo_db ''octo@example.com'' = Inr (u, 1)" "GetUserById mem_env octo_db 1 = Inr u"
    by (simp_all add: GetUserByGithubId_def GetUserIdByGithubId_def GetUserByEmail_def GetUserIdByEmail_def
        get_id_def mem_get_def octo_db_def GetUserById_def get_message_def u_def)
  have inv: "user_inv mem_env map_of (svc_db a) (svc_user_seq a)"
    by (auto simp: user_inv_def db first_seq_def octo_db_def split: if_splits)
  obtain db' where bind: "BindGithubId mem_env octo_db 1 ''octo'' = (db', None)"
    by (simp add: BindGithubId_def UpdateUserAtomic_def read(3) set_message_def)
  obtain ss where ss: "login_user test_lib (with_db a db') 6 1 u = Inr (1, ss)" using test_login_user by blast
  have "GithubLogin mem_env test_lib 6 a ''octo'' = (with_db a db', Inr (1, ss))"
    using bind ss by (simp add: GithubLogin_def gh read db Let_def) (simp add: u_def)
  from github_login_owner [OF mem_store_up inv _ this] this show ?thesis
    using gh(1) by (auto simp: a_def [symmetric] getGithubUser_Inr)
qed

text \<open>
  A password reset replaces the password of the account with that address and nothing else. When
  \<open>ResetPassword\<close> succeeds, the code was valid and is spent, the new password has at least eight bytes, its hash
  is stored, the rest of the account and every other account read as before.
\<close>

theorem reset_replaces_password:
  assumes "store_up E view" and "ResetPassword E L now a email code password = (a', Inr ())"
  shows "\<exists>u i h. snd (Validate E (svc_db a) now PasswordResetRepoType email code) = Inr True \<and> 8 \<le> length password \<and>
    GetUserByEmail E (svc_db a) email = Inr (u, i) \<and> GenerateFromPassword L password = Inr h \<and>
    GetUserById E (svc_db a') i = Inr (u\<lparr>User_Password := Some h\<rparr>) \<and>
    (\<forall>j. j \<noteq> i \<longrightarrow> GetUserById E (svc_db a') j = GetUserById E (svc_db a) j) \<and>
    (\<forall>now' code'. Validate E (svc_db a') now' PasswordResetRepoType email code' = (svc_db a', Inl ErrNotFound))"
proof -
  note st = store_up.axioms(1) [OF assms(1)]
  obtain a1 where v: "validateEmailCode E now a PasswordResetRepoType email code = (a1, Inr ())"
    using assms(2) by (auto simp: ResetPassword_def attempt_Inr split: prod.splits)
  then obtain u i where u: "GetUserByEmail E (svc_db a1) email = Inr (u, i)" and p: "8 \<le> length password"
    and upd: "(case UpdateUserAtomic E (svc_db a1) i (set_password L password) of
      (db', r') \<Rightarrow> (with_db a1 db', fail_status r' Internal ''INTERNAL_ERROR'')) = (a', Inr ())"
    using assms(2) by (auto simp: ResetPassword_def attempt_Inr MinPasswordLength_def)
  from upd obtain db' where
    up: "UpdateUserAtomic E (svc_db a1) i (set_password L password) = (db', None)" "a' = with_db a1 db'"
    by (auto split: prod.splits)
  note cong = store_up.user_reads_cong [OF assms(1) store.validateEmailCode_frame(2) [OF st v]]
  from store.UpdateUserAtomic_ok [OF st up(1)] obtain u0 u' raw where
    w: "GetUserById E (svc_db a1) i = Inr u0" "set_password L password u0 = Inr u'" "Unmarshal (C_User E) raw = Inr u'"
      "view db' = (view (svc_db a1))(getUserIdKey i \<mapsto> raw)" by blast
  have "u0 = u" using w(1) GetUserBy_Inr(1) [OF u] by simp
  then obtain h where h: "GenerateFromPassword L password = Inr h" "u' = u\<lparr>User_Password := Some h\<rparr>"
    using w(2) by (auto simp: set_password_def split: sum.splits)
  have "GetUserById E db' i = Inr u'" using store_up.GetUserById_present [OF assms(1) _ w(3)] w(4) by simp
  moreover have "GetUserById E db' j = GetUserById E (svc_db a1) j" if "j \<noteq> i" for j
    using that by (intro store_up.GetUserById_other [OF assms(1)]) (simp add: w(4))
  moreover have "view db' (verification_getKey PasswordResetRepoType email) = None"
    using store_up.validateEmailCode_ok(2) [OF assms(1) v]
    by (simp add: w(4) getUserIdKey_def verification_getKey_def verification_getPrefix_def)
  ultimately show ?thesis
    using store_up.validateEmailCode_ok(1) [OF assms(1) v] store_up.Validate_gone [OF assms(1)] p u h up(2) cong
    by auto
qed

theorem reset_replaces_password_witness:
  "\<exists>a u. ResetPassword mem_env test_lib 5 (test_svc ((getEmailKey ''a@b.c'', Uint64ToBytes 1) #
        code_db PasswordResetRepoType @ alice_login_db)) ''a@b.c'' ''123456'' ''password'' = (a, Inr ()) \<and>
     GetUserById mem_env (svc_db a) 1 = Inr u \<and> User_Password u = Some (''hash '' @ ''password'')"
proof -
  define db where "db = (getEmailKey ''a@b.c'', Uint64ToBytes 1) # code_db PasswordResetRepoType @ alice_login_db"
  define u where "u = new_account ''alice'' (Some ''hash secret'') ''a@b.c'' 5"
  define db1 where "db1 = (getEmailKey ''a@b.c'', Uint64ToBytes 1) # alice_login_db"
  have ne: "verification_getKey t m \<noteq> getEmailKey n" "verification_getKey t m \<noteq> getUsernameKey n"
    "verification_getKey t m \<noteq> getUserIdKey i" for t m n i
    by (simp_all add: verification_getKey_def verification_getPrefix_def user_key_defs)
  have v: "Validate mem_env db 5 PasswordResetRepoType ''a@b.c'' ''123456'' = (db1, Inr True)"
    by (simp add: db_def db1_def code_db_def alice_login_db_def Validate_def Validate_read_def get_message_def mem_get_def
        mem_del_def ne ne [symmetric])
  have read: "GetUserById mem_env db1 1 = Inr u" "GetUserByEmail mem_env db1 ''a@b.c'' = Inr (u, 1)"
    by (simp_all add: GetUserByEmail_def GetUserIdByEmail_def get_id_def mem_get_def db1_def alice_login_db_def
        GetUserById_def get_message_def u_def)
  have old: "GetUserByEmail mem_env db ''a@b.c'' = Inr (u, 1)"
    by (simp add: GetUserByEmail_def GetUserIdByEmail_def get_id_def mem_get_def db_def code_db_def alice_login_db_def
        GetUserById_def get_message_def u_def ne ne [symmetric])
  obtain db' where "UpdateUserAtomic mem_env db1 1 (set_password test_lib ''password'') = (db', None)"
    by (simp add: UpdateUserAtomic_def read(1) set_message_def set_password_def)
  then have r: "ResetPassword mem_env test_lib 5 (test_svc db) ''a@b.c'' ''123456'' ''password'' =
      (with_db (with_db (test_svc db) db1) db', Inr ())"
    by (simp add: ResetPassword_def validateEmailCode_def v read MinPasswordLength_def)
  from reset_replaces_password [OF mem_store_up r] r show ?thesis
    unfolding db_def [symmetric] by (auto simp: old)
qed

end
