(* ===== verification/FileTree.thy ===== *)
theory FileTree
  imports Paths
begin

section \<open>The file tree of a submission (pkg/grpc/submission.go)\<close>

text \<open>
  \<open>GetFilesInSubmission\<close> turns the list of file names into a tree of folders. The nodes are a \<open>datatype\<close>:
  every node has one parent, so the pointers share nothing. \<open>childrenIdx\<close> is an association list.
\<close>

datatype fileTreeNode = FNode
  (f_name: string) (f_path: string) (f_isFile: bool)
  (childrenIdx: "(string \<times> nat) list") (f_children: "fileTreeNode list")

definition new_node :: fileTreeNode where
  "new_node = FNode [] [] False [] []"

text \<open>The loop of \<open>addFileToNode\<close> from the current node and path.\<close>

fun add_segments :: "string list \<Rightarrow> string \<Rightarrow> fileTreeNode \<Rightarrow> fileTreeNode" where
  "add_segments [] curPath t = t"
| "add_segments (s # ss) curPath (FNode n p b idx cs) =
     (let curPath' = path_Join [curPath, s];
          visit = (\<lambda>c. add_segments ss curPath'
            (FNode s curPath' (ss = []) (childrenIdx c) (f_children c)))
      in case map_of idx s of
           None \<Rightarrow> FNode n p b (idx @ [(s, length cs)]) (cs @ [visit new_node])
         | Some i \<Rightarrow> FNode n p b idx (cs[i := visit (cs ! i)]))"

definition addFileToNode :: "string \<Rightarrow> fileTreeNode \<Rightarrow> fileTreeNode" where
  "addFileToNode subpath node = add_segments (Split_slash subpath) [] node"

definition fs_Less :: "fileTreeNode \<Rightarrow> fileTreeNode \<Rightarrow> bool" where
  "fs_Less a b =
     (if f_isFile a \<and> \<not> f_isFile b then False
      else if \<not> f_isFile a \<and> f_isFile b then True
      else f_name a < f_name b)"

text \<open>
  \<open>sort.Sort\<close>: siblings have different names, so \<open>fs_Less\<close> orders any two of them and every sorting
  algorithm gives the same list.
\<close>

fun fs_insert :: "fileTreeNode \<Rightarrow> fileTreeNode list \<Rightarrow> fileTreeNode list" where
  "fs_insert x [] = [x]"
| "fs_insert x (y # ys) = (if fs_Less y x then y # fs_insert x ys else x # y # ys)"

fun fs_sort :: "fileTreeNode list \<Rightarrow> fileTreeNode list" where
  "fs_sort [] = []"
| "fs_sort (x # xs) = fs_insert x (fs_sort xs)"

lemma set_fs_insert [simp]: "set (fs_insert x ys) = insert x (set ys)"
  by (induction ys) auto

lemma set_fs_sort [simp, termination_simp]: "set (fs_sort xs) = set xs"
  by (induction xs) auto

datatype pb_node = PBNode
  (pb_name: string) (pb_isFile: bool) (pb_path: string) (pb_children: "pb_node list")

fun convertTreeNode :: "fileTreeNode \<Rightarrow> pb_node list" where
  "convertTreeNode (FNode n p b idx cs) =
     map (\<lambda>child.
       if f_isFile child then PBNode (f_name child) True (f_path child) []
       else PBNode (f_name child) False (f_path child) (convertTreeNode child)) (fs_sort cs)"

text \<open>The roots of the response for the files of a submission.\<close>

definition file_tree :: "string list \<Rightarrow> pb_node list" where
  "file_tree files = convertTreeNode (foldl (\<lambda>root f. addFileToNode f root) new_node files)"

subsection \<open>What the tree shows\<close>

text \<open>The paths of the file nodes of a response.\<close>

fun pb_files :: "pb_node \<Rightarrow> string list" where
  "pb_files (PBNode n isFile p cs) = (if isFile then [p] else concat (map pb_files cs))"

text \<open>The segments of the files a tree shows: below a file nothing is.\<close>

fun shown :: "fileTreeNode \<Rightarrow> string list set" where
  "shown (FNode n p b idx cs) =
     {s # r | s r. \<exists>c \<in> set cs. f_name c = s \<and> (if f_isFile c then r = [] else r \<in> shown c)}"

text \<open>
  Well-formed below the path \<open>cur\<close>: the index lists the children by name, the names differ, the paths are
  the names joined, files have no children, folders show something.
\<close>

fun tree_ok :: "string \<Rightarrow> fileTreeNode \<Rightarrow> bool" where
  "tree_ok cur (FNode n p b idx cs) \<longleftrightarrow>
     idx = zip (map f_name cs) [0..<length cs] \<and> distinct (map f_name cs) \<and>
     (\<forall>c \<in> set cs. f_path c = path_Join [cur, f_name c] \<and> tree_ok (path_Join [cur, f_name c]) c \<and>
        (if f_isFile c then f_children c = [] else shown c \<noteq> {}))"

lemma map_of_zip_index:
  assumes "distinct (map f_name cs)"
  shows "map_of (zip (map f_name cs) [0..<length cs]) s = Some i \<longleftrightarrow> i < length cs \<and> f_name (cs ! i) = s"
proof -
  have "map_of (zip (map f_name cs) [0..<length cs]) s = Some i \<longleftrightarrow>
      (s, i) \<in> set (zip (map f_name cs) [0..<length cs])"
    using assms by (intro map_of_eq_Some_iff) simp
  also have "\<dots> \<longleftrightarrow> (\<exists>k < length cs. s = f_name (cs ! k) \<and> i = k)"
    by (auto simp: set_zip intro: exI [of _ i])
  finally show ?thesis by auto
qed

lemma map_of_zip_none: "map_of (zip xs [0..<length xs]) s = None \<longleftrightarrow> s \<notin> set xs"
  by (subst map_of_zip_is_None) simp_all

lemma in_set_update:
  assumes "distinct (map f_name cs)" and "i < length cs" and "f_name (cs ! i) = s" and "f_name c' = s"
  shows "c \<in> set (cs[i := c']) \<longleftrightarrow> c = c' \<or> c \<in> set cs \<and> f_name c \<noteq> s"
proof -
  have j: "j = i" if "f_name (cs ! j) = s" "j < length cs" for j
  proof -
    have "map f_name cs ! j = map f_name cs ! i" using that assms(2,3) by simp
    then show ?thesis using nth_eq_iff_index_eq [OF assms(1), of j i] that(2) assms(2) by simp
  qed
  show ?thesis
  proof
    assume "c \<in> set (cs[i := c'])"
    then obtain k where k: "k < length cs" "cs[i := c'] ! k = c" by (auto simp: in_set_conv_nth)
    then show "c = c' \<or> c \<in> set cs \<and> f_name c \<noteq> s" using j [of k] by (cases "k = i") auto
  next
    assume "c = c' \<or> c \<in> set cs \<and> f_name c \<noteq> s"
    then show "c \<in> set (cs[i := c'])"
    proof
      assume "c \<in> set cs \<and> f_name c \<noteq> s"
      then obtain k where "k < length cs" "cs ! k = c" "k \<noteq> i" using assms(3) by (auto simp: in_set_conv_nth)
      then have "cs[i := c'] ! k = c" "k < length (cs[i := c'])" by simp_all
      then show ?thesis by (metis nth_mem)
    qed (simp add: assms(2) set_update_memI)
  qed
qed

lemma map_f_name_update: "f_name (cs ! i) = f_name c' \<Longrightarrow> map f_name (cs[i := c']) = map f_name cs"
  by (metis list_update_id map_update)

lemma add_segments_fields [simp]:
  "f_name (add_segments ss cur t) = f_name t" "f_path (add_segments ss cur t) = f_path t"
  "f_isFile (add_segments ss cur t) = f_isFile t"
  by (cases ss; cases t; auto simp: Let_def split: option.splits)+

lemma child_under:
  assumes "tree_ok cur (FNode n p b idx cs)" and "c \<in> set cs" and "f_name c = s"
    and "\<forall>x \<in> shown (FNode n p b idx cs). \<not> strict_prefix x (s # ss) \<and> \<not> strict_prefix (s # ss) x"
  shows "\<forall>x \<in> shown c. \<not> strict_prefix x ss \<and> \<not> strict_prefix ss x"
    and "f_isFile c \<longleftrightarrow> ss = []" and "ss = [] \<Longrightarrow> f_children c = []"
proof -
  have kid: "if f_isFile c then f_children c = [] else shown c \<noteq> {}" using assms(1,2) by simp
  have leaf: "f_isFile c \<Longrightarrow> shown c = {}" using kid by (cases c) auto
  have up: "s # r \<in> shown (FNode n p b idx cs)" if "r \<in> shown c" "\<not> f_isFile c" for r
    using that assms(2,3) by auto
  show "\<forall>x \<in> shown c. \<not> strict_prefix x ss \<and> \<not> strict_prefix ss x"
    using up leaf assms(4) by fastforce
  have "ss = []" if f: "f_isFile c"
  proof -
    have "[s] \<in> shown (FNode n p b idx cs)" using f assms(2,3) by auto
    then have "\<not> strict_prefix [s] (s # ss)" using assms(4) by blast
    then show ?thesis by (auto simp: strict_prefix_def)
  qed
  moreover have "f_isFile c" if e: "ss = []"
  proof (rule ccontr)
    assume "\<not> f_isFile c"
    then obtain r where r: "r \<in> shown c" "s # r \<in> shown (FNode n p b idx cs)" using kid up by auto
    then have "\<not> strict_prefix (s # ss) (s # r)" using assms(4) by blast
    moreover have "r \<noteq> []" using r(1) by (cases c) auto
    ultimately show False using e by (auto simp: strict_prefix_def)
  qed
  ultimately show "f_isFile c \<longleftrightarrow> ss = []" by blast
  then show "ss = [] \<Longrightarrow> f_children c = []" using kid by simp
qed

text \<open>The children seen through the name of one of them.\<close>

definition shown_as :: "fileTreeNode \<Rightarrow> string list set" where
  "shown_as c = (if f_isFile c then {[f_name c]} else (#) (f_name c) ` shown c)"

lemma shown_Union: "shown (FNode n p b idx cs) = (\<Union>c \<in> set cs. shown_as c)"
proof -
  have "shown_as c = {s # r | s r. f_name c = s \<and> (if f_isFile c then r = [] else r \<in> shown c)}" for c
    by (auto simp: shown_as_def)
  then show ?thesis by auto
qed

lemma new_children:
  assumes "idx = zip (map f_name cs) [0..<length cs]" and "distinct (map f_name cs)" and "f_name c' = s"
    and "cs' = (case map_of idx s of None \<Rightarrow> cs @ [c'] | Some i \<Rightarrow> cs[i := c'])"
    and "idx' = (case map_of idx s of None \<Rightarrow> idx @ [(s, length cs)] | Some i \<Rightarrow> idx)"
  shows "set cs' = insert c' {c \<in> set cs. f_name c \<noteq> s}"
    and "idx' = zip (map f_name cs') [0..<length cs']" and "distinct (map f_name cs')"
proof (atomize (full), cases "map_of idx s")
  case None
  then have no: "s \<notin> f_name ` set cs" using map_of_zip_none [of "map f_name cs" s] assms(1) by simp
  then have "{c \<in> set cs. f_name c \<noteq> s} = set cs" by auto
  then show "set cs' = insert c' {c \<in> set cs. f_name c \<noteq> s} \<and>
      idx' = zip (map f_name cs') [0..<length cs'] \<and> distinct (map f_name cs')"
    using no assms(1-3) assms(4,5) [unfolded None option.case] by simp
next
  case (Some i)
  then have i: "i < length cs" "f_name (cs ! i) = s" using map_of_zip_index [OF assms(2)] assms(1) by simp_all
  then have "map f_name cs' = map f_name cs" using assms(3,4) by (simp add: Some map_f_name_update)
  moreover have "set cs' = insert c' {c \<in> set cs. f_name c \<noteq> s}"
    using in_set_update [OF assms(2) i assms(3)] assms(4) by (auto simp: Some)
  ultimately show "set cs' = insert c' {c \<in> set cs. f_name c \<noteq> s} \<and>
      idx' = zip (map f_name cs') [0..<length cs'] \<and> distinct (map f_name cs')"
    using assms(1,2) assms(4,5) [unfolded Some option.case] by simp
qed

text \<open>Adding a file that neither extends a shown one nor is extended by one adds it and nothing else.\<close>

lemma add_segments_shown:
  assumes "tree_ok cur t" and "\<forall>x \<in> shown t. \<not> strict_prefix x ss \<and> \<not> strict_prefix ss x" and "ss \<noteq> []"
  shows "tree_ok cur (add_segments ss cur t) \<and> shown (add_segments ss cur t) = insert ss (shown t)"
  using assms
proof (induction ss arbitrary: cur t)
  case (Cons s ss)
  obtain n p b idx cs where t: "t = FNode n p b idx cs" by (cases t)
  let ?cur = "path_Join [cur, s]"
  have idx: "idx = zip (map f_name cs) [0..<length cs]" and dist: "distinct (map f_name cs)"
    and kids: "\<And>c. c \<in> set cs \<Longrightarrow> f_path c = path_Join [cur, f_name c] \<and> tree_ok (path_Join [cur, f_name c]) c \<and>
        (if f_isFile c then f_children c = [] else shown c \<noteq> {})"
    using Cons.prems(1) by (auto simp: t)
  define old where "old = (case map_of idx s of None \<Rightarrow> new_node | Some i \<Rightarrow> cs ! i)"
  have old_facts: "(\<forall>x \<in> shown old. \<not> strict_prefix x ss \<and> \<not> strict_prefix ss x) \<and> tree_ok ?cur old \<and>
      (ss = [] \<longrightarrow> f_children old = []) \<and> (\<Union>c \<in> {c \<in> set cs. f_name c = s}. shown_as c) \<union> {s # ss} =
      (if ss = [] then {[s]} else insert (s # ss) ((#) s ` shown old))"
  proof (cases "map_of idx s")
    case None
    then have empty: "{c \<in> set cs. f_name c = s} = {}" using map_of_zip_none [of "map f_name cs" s] idx by auto
    then show ?thesis
      unfolding empty by (simp add: old_def None new_node_def)
  next
    case (Some i)
    then have "i < length cs" "f_name (cs ! i) = s" using map_of_zip_index [OF dist, of s i] idx by simp_all
    then have mem: "old \<in> set cs" "f_name old = s" by (simp_all add: old_def Some)
    have only: "{c \<in> set cs. f_name c = s} = {old}"
      using dist mem unfolding distinct_map inj_on_def by blast
    note u = child_under [OF Cons.prems(1) [unfolded t] mem Cons.prems(2) [unfolded t]]
    show ?thesis
      unfolding only using u kids [OF mem(1)] mem(2) by (auto simp: shown_as_def)
  qed
  then have below: "\<forall>x \<in> shown old. \<not> strict_prefix x ss \<and> \<not> strict_prefix ss x"
    and old_ok: "tree_ok ?cur old" and fresh: "ss = [] \<Longrightarrow> f_children old = []"
    and named: "(\<Union>c \<in> {c \<in> set cs. f_name c = s}. shown_as c) \<union> {s # ss} = (if ss = [] then {[s]}
      else insert (s # ss) ((#) s ` shown old))"
    by simp_all
  define v where "v = FNode s ?cur (ss = []) (childrenIdx old) (f_children old)"
  have v: "tree_ok ?cur v" "shown v = shown old" "f_children v = f_children old"
    using old_ok unfolding v_def by (cases old; simp)+
  define c' where "c' = add_segments ss ?cur v"
  have name: "f_name c' = s" "f_path c' = ?cur" "f_isFile c' = (ss = [])" by (simp_all add: c'_def v_def)
  have c': "tree_ok ?cur c'" "shown c' = (if ss = [] then {} else insert ss (shown old))"
  proof -
    have "tree_ok ?cur c' \<and> shown c' = (if ss = [] then {} else insert ss (shown old))"
    proof (cases "ss = []")
      case True
      then have "shown v = {}" using v(3) fresh by (cases v) simp
      then show ?thesis using v(1) True by (simp add: c'_def)
    next
      case False
      then show ?thesis using Cons.IH [OF v(1)] v(2) below by (simp add: c'_def)
    qed
    then show "tree_ok ?cur c'" "shown c' = (if ss = [] then {} else insert ss (shown old))" by simp_all
  qed
  define cs' where "cs' = (case map_of idx s of None \<Rightarrow> cs @ [c'] | Some i \<Rightarrow> cs[i := c'])"
  define idx' where "idx' = (case map_of idx s of None \<Rightarrow> idx @ [(s, length cs)] | Some i \<Rightarrow> idx)"
  have add: "add_segments (s # ss) cur t = FNode n p b idx' cs'"
    by (auto simp: t cs'_def idx'_def c'_def v_def old_def new_node_def Let_def split: option.splits)
  note new = new_children [OF idx dist name(1) cs'_def idx'_def]
  have c'_kid: "if f_isFile c' then f_children c' = [] else shown c' \<noteq> {}"
    using name(3) c'(2) fresh v(3) by (auto simp: c'_def)
  have "tree_ok cur (FNode n p b idx' cs')"
    unfolding tree_ok.simps
  proof (intro conjI new(2,3) ballI)
    fix c
    assume "c \<in> set cs'"
    then have "c = c' \<or> c \<in> set cs" unfolding new(1) by blast
    moreover have "f_path c' = path_Join [cur, f_name c'] \<and> tree_ok (path_Join [cur, f_name c']) c' \<and>
        (if f_isFile c' then f_children c' = [] else shown c' \<noteq> {})"
      unfolding name(1,2) using c'(1) c'_kid by blast
    ultimately have "f_path c = path_Join [cur, f_name c] \<and> tree_ok (path_Join [cur, f_name c]) c \<and>
        (if f_isFile c then f_children c = [] else shown c \<noteq> {})" using kids by blast
    then show "f_path c = path_Join [cur, f_name c]" "tree_ok (path_Join [cur, f_name c]) c"
      "if f_isFile c then f_children c = [] else shown c \<noteq> {}" by blast+
  qed
  moreover have "shown (FNode n p b idx' cs') = insert (s # ss) (shown t)"
  proof -
    have "shown_as c' = (if ss = [] then {[s]} else insert (s # ss) ((#) s ` shown old))"
      using name c'(2) by (auto simp: shown_as_def)
    then have "shown_as c' = (\<Union>c \<in> {c \<in> set cs. f_name c = s}. shown_as c) \<union> {s # ss}"
      by (simp only: named)
    then have "(\<Union>c \<in> set cs'. shown_as c) = ((\<Union>c \<in> {c \<in> set cs. f_name c = s}. shown_as c) \<union> {s # ss}) \<union>
        (\<Union>c \<in> {c \<in> set cs. f_name c \<noteq> s}. shown_as c)" by (simp only: new(1) UN_insert)
    also have "\<dots> = insert (s # ss) (\<Union>c \<in> set cs. shown_as c)" by blast
    finally show ?thesis by (simp only: t shown_Union)
  qed
  ultimately show ?case by (simp add: add)
qed simp

subsection \<open>From the tree to the response\<close>

lemma convert_files:
  "tree_ok cur t \<Longrightarrow> set (concat (map pb_files (convertTreeNode t))) =
     foldl (\<lambda>p s. path_Join [p, s]) cur ` shown t"
proof (induction t arbitrary: cur rule: convertTreeNode.induct)
  case (1 n p b idx cs)
  let ?j = "foldl (\<lambda>p s. path_Join [p, s])"
  have kid: "set (pb_files (if f_isFile c then PBNode (f_name c) True (f_path c) []
      else PBNode (f_name c) False (f_path c) (convertTreeNode c))) = ?j cur ` shown_as c"
    if c: "c \<in> set cs" for c
  proof (cases "f_isFile c")
    case True
    then show ?thesis using 1(2) c by (auto simp: shown_as_def)
  next
    case False
    have "tree_ok (path_Join [cur, f_name c]) c" using 1(2) c by simp
    then have "set (concat (map pb_files (convertTreeNode c))) = ?j (path_Join [cur, f_name c]) ` shown c"
      using 1(1) [of c] c False by simp
    then show ?thesis using False by (simp add: shown_as_def image_image)
  qed
  have "set (concat (map pb_files (convertTreeNode (FNode n p b idx cs)))) = (\<Union>c \<in> set cs. ?j cur ` shown_as c)"
    using kid by (simp add: image_image)
  then show ?case by (simp only: shown_Union image_UN)
qed

lemma elems_plain: "xs \<noteq> [] \<Longrightarrow> list_all plain_elem xs \<Longrightarrow> elems (Join_slash xs) = xs \<and> \<not> is_rooted (Join_slash xs)"
proof -
  assume xs: "xs \<noteq> []" "list_all plain_elem xs"
  then have pl: "\<forall>x \<in> set xs. plain_elem x" by (simp add: list_all_iff)
  then have "hd xs \<noteq> []" "CHR ''/'' \<notin> set (hd xs)" using xs(1) by (simp_all add: plain_elem_def)
  then have "\<not> is_rooted (Join_slash xs)" using xs(1) is_rooted_elem by (auto simp: is_rooted_Join)
  moreover have "Split_slash (Join_slash xs) = xs" using xs(1) pl by (auto simp: plain_elem_def intro: Split_Join)
  moreover have "clean_elems False [] xs = xs" using clean_elems_plain [OF pl] by simp
  ultimately show ?thesis by (simp add: elems_def)
qed

lemma Join_snoc: "xs \<noteq> [] \<Longrightarrow> Join_slash [Join_slash xs, s] = Join_slash (xs @ [s])"
  by (induction xs rule: Join_slash.induct) auto

lemma join_path:
  "list_all plain_elem xs \<Longrightarrow> foldl (\<lambda>p s. path_Join [p, s]) [] xs = Join_slash xs"
proof (induction xs rule: rev_induct)
  case (snoc s xs)
  then have s: "plain_elem s" "list_all plain_elem xs" by simp_all
  have "path_Join [Join_slash xs, s] = Clean (Join_slash (xs @ [s]))"
  proof (cases "xs = []")
    case False
    then have "Join_slash xs \<noteq> []" using elems_plain [OF False s(2)] by (auto simp: elems_def)
    then show ?thesis using s(1) Join_snoc [OF False, of s] by (simp add: path_Join_def plain_elem_def)
  qed (use s(1) in \<open>simp add: path_Join_def plain_elem_def\<close>)
  also have "\<dots> = Join_slash (xs @ [s])"
    using elems_plain [of "xs @ [s]"] s by (simp add: Clean_def)
  finally show ?case using snoc.IH s(2) by simp
qed simp

lemma Join_Split: "Join_slash (Split_slash p) = p"
proof (induction p)
  case (Cons c cs)
  obtain s ss where "Split_slash cs = s # ss" by (cases "Split_slash cs") auto
  then show ?case using Cons by (cases ss) auto
qed simp

lemma tree_of_files:
  assumes "\<forall>f \<in> set files. \<forall>g \<in> set files. \<not> strict_prefix (Split_slash f) (Split_slash g)"
  shows "tree_ok [] (foldl (\<lambda>root f. addFileToNode f root) new_node files) \<and>
    shown (foldl (\<lambda>root f. addFileToNode f root) new_node files) = Split_slash ` set files"
  using assms
proof (induction files rule: rev_induct)
  case (snoc f files)
  then have IH: "tree_ok [] (foldl (\<lambda>root f. addFileToNode f root) new_node files)"
    "shown (foldl (\<lambda>root f. addFileToNode f root) new_node files) = Split_slash ` set files" by simp_all
  have "\<forall>x \<in> Split_slash ` set files. \<not> strict_prefix x (Split_slash f) \<and> \<not> strict_prefix (Split_slash f) x"
    using snoc.prems by simp
  then show ?case
    using add_segments_shown [OF IH(1), of "Split_slash f"] IH(2) by (simp add: addFileToNode_def)
qed (simp add: new_node_def)

text \<open>
  C31: The file tree shows the submission's files, all of them and nothing else: for file names whose segments
  are ordinary names and of which none is a folder of another, the paths of the file nodes of the
  response are the names in the submission.
\<close>

theorem file_tree_exact:
  assumes "\<forall>f \<in> set files. list_all plain_elem (Split_slash f)"
    and "\<forall>f \<in> set files. \<forall>g \<in> set files. \<not> strict_prefix (Split_slash f) (Split_slash g)"
  shows "set (concat (map pb_files (file_tree files))) = set files"
proof -
  let ?t = "foldl (\<lambda>root f. addFileToNode f root) new_node files"
  have "set (concat (map pb_files (file_tree files))) =
      foldl (\<lambda>p s. path_Join [p, s]) [] ` (Split_slash ` set files)"
    using tree_of_files [OF assms(2)] convert_files [of "[]" ?t] by (simp add: file_tree_def)
  also have "\<dots> = (\<lambda>f. f) ` set files"
    unfolding image_image
  proof (rule image_cong [OF refl])
    fix f
    assume "f \<in> set files"
    then have "list_all plain_elem (Split_slash f)" using assms(1) by blast
    then show "foldl (\<lambda>p s. path_Join [p, s]) [] (Split_slash f) = f" by (simp add: join_path Join_Split)
  qed
  finally show ?thesis by simp
qed

theorem file_tree_exact_witness:
  "set (concat (map pb_files (file_tree [''src/main.py'', ''README'', ''src/lib/a.py'']))) =
   {''src/main.py'', ''README'', ''src/lib/a.py''}"
  using file_tree_exact [of "[''src/main.py'', ''README'', ''src/lib/a.py'']"]
  by (simp add: plain_elem_def strict_prefix_def)

end
