(* ===== verification/SubmissionSvc.thy ===== *)
theory SubmissionSvc
  imports Interceptor FileTree
begin

section \<open>Submissions (pkg/grpc/submission.go)\<close>

text \<open>
  The handlers on submissions, as functions from the state and the context to the state and the answer.
  \<open>now\<close> is the time the handler reads. A stream handler is split into its opening and the steps of its loop.
\<close>

subsection \<open>Reports\<close>

definition GetFilesInSubmission :: "('db, 'fs) svc \<Rightarrow> ctx \<Rightarrow> ('db, 'fs) svc \<times> (error + pb_node list)" where
  "GetFilesInSubmission a c =
     attempt a (must (cx_submission c)) (\<lambda>sub. (a, Inr (file_tree (Submission_Files sub))))"

definition Svc_GetSubmissionReport ::
    "'db env \<Rightarrow> ('db, 'fs) svc \<Rightarrow> u64 \<Rightarrow> ('db, 'fs) svc \<times> (error + submission_report \<times> submission_status)" where
  "Svc_GetSubmissionReport E a submissionId =
     (case Repo_GetSubmissionBriefReport E (svc_db a) submissionId of
        Inl e \<Rightarrow> (a, Inl (StatusErr NotFound ''NOT_FOUND''))
      | Inr brief \<Rightarrow>
          if Brief_Status brief = SubmissionStatus_Queued then (a, Inl (StatusErr NotFound ''QUEUED''))
          else if Brief_Status brief = SubmissionStatus_Running then (a, Inl (StatusErr NotFound ''RUNNING''))
          else if Brief_Status brief = SubmissionStatus_Cancelled then (a, Inl (StatusErr NotFound ''CANCELLED''))
          else if Brief_Status brief = SubmissionStatus_Cancelling then (a, Inl (StatusErr NotFound ''CANCELLING''))
          else attempt a (or_status (Repo_GetSubmissionReport E (svc_db a) submissionId) NotFound ''REPORT_NOT_FOUND'')
            (\<lambda>report. (a, Inr (report, Brief_Status brief))))"

subsection \<open>Making a submission\<close>

text \<open>The loop over the requested submitters; \<open>seen\<close> are those so far, in order.\<close>

fun submitters_loop ::
    "'db env \<Rightarrow> 'db \<Rightarrow> u64 \<Rightarrow> u64 \<Rightarrow> u64 list \<Rightarrow> bool \<Rightarrow> u64 list \<Rightarrow> error + u64 list \<times> bool" where
  "submitters_loop E db callerId courseId seen selfIncluded [] = Inr (seen, selfIncluded)"
| "submitters_loop E db callerId courseId seen selfIncluded (sid # sids) =
     (if sid \<in> set seen then submitters_loop E db callerId courseId seen selfIncluded sids
      else if GetCourseMember E db sid courseId = None
      then Inl (StatusErr InvalidArgument ''SUBMITTER_NOT_IN_COURSE'')
      else submitters_loop E db callerId courseId (seen @ [sid]) (selfIncluded \<or> sid = callerId) sids)"

definition validateSubmitters ::
    "'db env \<Rightarrow> 'db \<Rightarrow> u64 list \<Rightarrow> u64 \<Rightarrow> u64 \<Rightarrow> bool \<Rightarrow> error + u64 list" where
  "validateSubmitters E db requested callerId courseId staff =
     (case submitters_loop E db callerId courseId [] False
         (if length requested = 0 then [callerId] else requested) of
        Inl e \<Rightarrow> Inl e
      | Inr (submitters, selfIncluded) \<Rightarrow>
          if \<not> selfIncluded \<and> \<not> staff then Inl (StatusErr PermissionDenied ''NOT_A_SUBMITTER'')
          else Inr submitters)"

text \<open>
  The start of the window: the product of the minute and the period is a 64-bit \<open>time.Duration\<close>.
\<close>

definition window_start :: "time \<Rightarrow> u64 \<Rightarrow> time" where
  "window_start now period = now + sint ((- 60000000000 :: i64) * period)"

fun count_since :: "'db env \<Rightarrow> 'db \<Rightarrow> time \<Rightarrow> u64 \<Rightarrow> u64 list \<Rightarrow> error + u64" where
  "count_since E db windowStart n [] = Inr n"
| "count_since E db windowStart n (subId # subIds) =
     (case Repo_GetSubmission E db subId of
        Inl e \<Rightarrow> Inl (StatusErr Internal ''GET_SUBMISSION'')
      | Inr sub \<Rightarrow>
          count_since E db windowStart
            (if windowStart < AsTime (Submission_SubmittedAt sub) then n + 1 else n) subIds)"

definition checkSubmissionLimit ::
    "'db env \<Rightarrow> 'db \<Rightarrow> time \<Rightarrow> u64 \<Rightarrow> u64 \<Rightarrow> submission_limit \<Rightarrow> error option" where
  "checkSubmissionLimit E db now userId assignmentId limit =
     (case GetSubmissionsByUserAndAssignment E db userId assignmentId of
        Inl e \<Rightarrow> Some (StatusErr Internal ''GET_SUBMISSIONS'')
      | Inr submissionIds \<Rightarrow>
          if 0 < Limit_Total limit \<and> Limit_Total limit \<le> of_nat (length submissionIds)
          then Some (StatusErr ResourceExhausted ''SUBMISSION_LIMIT'')
          else if 0 < Limit_Frequency limit \<and> 0 < Limit_Period limit then
            (case count_since E db (window_start now (Limit_Period limit)) 0 submissionIds of
               Inl e \<Rightarrow> Some e
             | Inr windowCount \<Rightarrow>
                 if Limit_Frequency limit \<le> windowCount
                 then Some (StatusErr ResourceExhausted ''SUBMISSION_FREQUENCY'') else None)
          else None)"

fun limits_loop :: "'db env \<Rightarrow> 'db \<Rightarrow> time \<Rightarrow> u64 \<Rightarrow> submission_limit \<Rightarrow> u64 list \<Rightarrow> error option" where
  "limits_loop E db now assignmentId limit [] = None"
| "limits_loop E db now assignmentId limit (sid # sids) =
     (case checkSubmissionLimit E db now sid assignmentId limit of
        Some e \<Rightarrow> Some e
      | None \<Rightarrow> limits_loop E db now assignmentId limit sids)"

definition getManifestPath :: "u64 \<Rightarrow> string" where
  "getManifestPath manifestId = ''uploads/manifests/'' @ id_text manifestId"

text \<open>
  The second half of \<open>CreateSubmission\<close>, from the path of the files on. The steps after the brief report was
  written only log their errors. Waiting for the lock of the manifest is \<open>Diverges\<close>: no handler holds a lock
  between its steps.
\<close>

definition store_submission ::
    "'db env \<Rightarrow> 'fs lib \<Rightarrow> time \<Rightarrow> u64 \<Rightarrow> u64 \<Rightarrow> u64 list \<Rightarrow> user_token \<Rightarrow> ('db, 'fs) svc \<Rightarrow>
      ('db, 'fs) svc \<times> (error + u64 \<times> string list)" where
  "store_submission E L now assignmentId manifestId submitters user a =
     (case GetFilesInManifest E (svc_db a) manifestId of
        Inl e \<Rightarrow> (a, Inl (StatusErr InvalidArgument ''MANIFEST_FILES''))
      | Inr files \<Rightarrow>
          if length files = 0 then (a, Inl (StatusErr InvalidArgument ''MANIFEST_FILES''))
          else
            (case Repo_CreateSubmission E (svc_db a) (svc_submission_seq a)
                \<lparr>Submission_AssignmentId = assignmentId, Submission_SubmittedAt = Some now,
                 Submission_Submitters = submitters, Submission_Path = getManifestPath manifestId,
                 Submission_Files = files, Submission_LeaderboardName = UT_Nickname user,
                 Submission_UserId = UT_UserId user\<rparr> of
               (db1, q1, Inl e) \<Rightarrow>
                 ((with_db a db1)\<lparr>svc_submission_seq := q1\<rparr>, Inl (StatusErr Internal ''CREATE_SUBMISSION''))
             | (db1, q1, Inr i) \<Rightarrow>
                 (case UpdateSubmissionBriefReport E db1 i (brief_of_status SubmissionStatus_Queued) of
                    (db2, Some e) \<Rightarrow>
                      ((with_db a db2)\<lparr>svc_submission_seq := q1\<rparr>, Inl (StatusErr Internal ''UPDATE_BRIEF''))
                  | (db2, None) \<Rightarrow>
                      (case DeleteManifest E db2 (svc_locks a) manifestId of
                         None \<Rightarrow> ((with_db a db2)\<lparr>svc_submission_seq := q1\<rparr>, Inl Diverges)
                       | Some (db3, locks3, _) \<Rightarrow>
                           let fs3 = fst (ls_Put (lib_os L) (svc_basePath a) (svc_fs a)
                                 (path_Join [getManifestPath manifestId, ''.submission'']) (id_text i))
                           in (spawn ((with_db a db3)\<lparr>svc_submission_seq := q1, svc_locks := locks3,
                                 svc_fs := fs3\<rparr>) (Task_runSubmission i assignmentId), Inr (i, files))))))"

text \<open>The limits: none for staff, and per submitter over the validated set.\<close>

definition check_limits ::
    "'db env \<Rightarrow> 'db \<Rightarrow> time \<Rightarrow> u64 \<Rightarrow> assignment \<Rightarrow> bool \<Rightarrow> u64 list \<Rightarrow> error + unit" where
  "check_limits E db now assignmentId asg staff submitters =
     (case Assignment_SubmissionLimit asg of
        None \<Rightarrow> Inr ()
      | Some limit \<Rightarrow>
          if staff then Inr ()
          else (case limits_loop E db now assignmentId limit submitters of Some e \<Rightarrow> Inl e | None \<Rightarrow> Inr ()))"

definition CreateSubmission ::
    "'db env \<Rightarrow> 'fs lib \<Rightarrow> time \<Rightarrow> u64 \<Rightarrow> u64 \<Rightarrow> u64 list \<Rightarrow> ('db, 'fs) svc \<Rightarrow> ctx \<Rightarrow>
      ('db, 'fs) svc \<times> (error + u64 \<times> string list)" where
  "CreateSubmission E L now assignmentId manifestId requested a c =
     attempt a (must (cx_user c)) (\<lambda>user.
     attempt a (must (cx_member c)) (\<lambda>member.
     attempt a (must (cx_assignment c)) (\<lambda>asg.
     attempt a (must (cx_courseId c)) (\<lambda>courseId.
     attempt a (validateSubmitters E (svc_db a) requested (UT_UserId user) courseId (is_staff member)) (\<lambda>submitters.
     attempt a (check_limits E (svc_db a) now assignmentId asg (is_staff member) submitters) (\<lambda>_.
       store_submission E L now assignmentId manifestId submitters user a))))))"

subsection \<open>Following a submission\<close>

record subscribe_response =
  sr_Score :: u64
  sr_MaxScore :: u64
  sr_Status :: submission_status
  sr_PendingRank :: "pending_rank option"

definition isTerminalStatus :: "submission_status \<Rightarrow> bool" where
  "isTerminalStatus s \<longleftrightarrow>
     s = SubmissionStatus_Finished \<or> s = SubmissionStatus_Failed \<or> s = SubmissionStatus_Cancelled"

text \<open>The fields of a brief report that may be nil.\<close>

definition brief_response :: "submission_brief_report option \<Rightarrow> pending_rank option \<Rightarrow> subscribe_response" where
  "brief_response brief rank =
     \<lparr>sr_Score = (case brief of None \<Rightarrow> 0 | Some b \<Rightarrow> Brief_Score b),
      sr_MaxScore = (case brief of None \<Rightarrow> 0 | Some b \<Rightarrow> Brief_MaxScore b),
      sr_Status = GetStatus brief, sr_PendingRank = rank\<rparr>"

text \<open>
  Opening the stream: the subscription comes before the brief report is read. The answer is the messages
  sent and the mailbox the loop goes on with, if it does; \<open>send_ok\<close> tells whether \<open>Send\<close> succeeds.
\<close>

definition SubscribeSubmission_open ::
    "'db env \<Rightarrow> 'fs lib \<Rightarrow> time \<Rightarrow> request \<Rightarrow> u64 \<Rightarrow> bool \<Rightarrow> ('db, 'fs) svc \<Rightarrow>
      ('db, 'fs) svc \<times> (error + subscribe_response list \<times> nat option)" where
  "SubscribeSubmission_open E L now req submissionId send_ok a =
     (case AuthFunc E L a now req ''SubscribeSubmission'' of
        (c, Some e) \<Rightarrow> (a, Inl e)
      | (c, None) \<Rightarrow>
          (case Subscribe (svc_hub a) submissionId of
             (h1, m) \<Rightarrow>
               let a1 = a\<lparr>svc_hub := h1\<rparr>;
                   leave = a\<lparr>svc_hub := Unsubscribe h1 submissionId m\<rparr>;
                   r = Repo_GetSubmissionBriefReport E (svc_db a1) submissionId;
                   brief = (case r of Inl e \<Rightarrow> None | Inr b \<Rightarrow> Some b)
               in (if (\<exists>e. r = Inl e \<and> e \<noteq> ErrNotFound) then (leave, Inl (StatusErr Internal ''GET_BRIEF''))
                   else
                     (case GetPendingRank h1 submissionId of
                        (rank, len) \<Rightarrow>
                          if \<not> send_ok then (leave, Inl (ErrOther ''send''))
                          else
                            let resp = brief_response brief
                                  (Some \<lparr>PRank_Rank = of_int rank, PRank_Total = of_int len\<rparr>)
                            in if isTerminalStatus (GetStatus brief) then (leave, Inr ([resp], None))
                               else (a1, Inr ([resp], Some m))))))"

text \<open>
  A round of the loop: \<open>None\<close> is waiting for the mailbox; the flag tells whether the loop goes on. A report
  with neither a brief report nor a rank is skipped.
\<close>

definition SubscribeSubmission_recv ::
    "'db env \<Rightarrow> u64 \<Rightarrow> nat \<Rightarrow> bool \<Rightarrow> ('db, 'fs) svc \<Rightarrow>
      (('db, 'fs) svc \<times> subscribe_response list \<times> bool) option" where
  "SubscribeSubmission_recv E submissionId m send_ok a =
     (let h = svc_hub a; mb = mailboxes h m;
          leave = (\<lambda>h. a\<lparr>svc_hub := Unsubscribe h submissionId m\<rparr>)
      in case mb_slot mb of
           None \<Rightarrow>
             if \<not> mb_closed mb then None
             else (case Repo_GetSubmissionBriefReport E (svc_db a) submissionId of
                     Inl e \<Rightarrow> Some (leave h, [], False)
                   | Inr final \<Rightarrow>
                       Some (leave h, if send_ok then [brief_response (Some final) None] else [], False))
         | Some r \<Rightarrow>
             let h1 = h\<lparr>mailboxes := (mailboxes h)(m := mb_receive mb)\<rparr>
             in if GR_Brief r = None \<and> GR_PendingRank r = None
                then Some (a\<lparr>svc_hub := h1\<rparr>, [], True)
                else
                  let resp = brief_response (GR_Brief r) (GR_PendingRank r)
                  in if \<not> send_ok then Some (leave h1, [], False)
                     else if GR_Brief r \<noteq> None \<and> isTerminalStatus (GetStatus (GR_Brief r))
                     then Some (leave h1, [resp], False)
                     else Some (a\<lparr>svc_hub := h1\<rparr>, [resp], True))"

text \<open>The client goes away.\<close>

definition SubscribeSubmission_done :: "u64 \<Rightarrow> nat \<Rightarrow> ('db, 'fs) svc \<Rightarrow> ('db, 'fs) svc" where
  "SubscribeSubmission_done submissionId m a = a\<lparr>svc_hub := Unsubscribe (svc_hub a) submissionId m\<rparr>"

subsection \<open>History\<close>

record submitter_info =
  Submitter_UserId :: u64
  Submitter_Username :: string
  Submitter_Nickname :: string
  Submitter_StudentId :: string

record submission_info =
  SI_SubmissionId :: u64
  SI_SubmittedAt :: "time option"
  SI_Submitters :: "submitter_info list"
  SI_Score :: u64
  SI_MaxScore :: u64
  SI_Status :: submission_status

definition submitter_entry :: "'db env \<Rightarrow> 'db \<Rightarrow> u64 \<Rightarrow> error + submitter_info" where
  "submitter_entry E db uid =
     (case GetUserById E db uid of
        Inl e \<Rightarrow> Inl (StatusErr Internal ''GET_USER'')
      | Inr user \<Rightarrow>
          Inr \<lparr>Submitter_UserId = uid, Submitter_Username = User_Username user,
            Submitter_Nickname = User_Nickname user, Submitter_StudentId = User_StudentId user\<rparr>)"

text \<open>One submission of the history: without a brief report it counts as running.\<close>

definition history_entry :: "'db env \<Rightarrow> 'db \<Rightarrow> u64 \<Rightarrow> error + submission_info" where
  "history_entry E db subId =
     (case Repo_GetSubmission E db subId of
        Inl e \<Rightarrow> Inl (StatusErr Internal ''GET_SUBMISSION'')
      | Inr sub \<Rightarrow>
          (case collect (submitter_entry E db) (Submission_Submitters sub) of
             Inl e \<Rightarrow> Inl e
           | Inr submitters \<Rightarrow>
               (case Repo_GetSubmissionBriefReport E db subId of
                  Inl e \<Rightarrow>
                    Inr \<lparr>SI_SubmissionId = subId, SI_SubmittedAt = Submission_SubmittedAt sub,
                      SI_Submitters = submitters, SI_Score = 0, SI_MaxScore = 0,
                      SI_Status = SubmissionStatus_Running\<rparr>
                | Inr report \<Rightarrow>
                    Inr \<lparr>SI_SubmissionId = subId, SI_SubmittedAt = Submission_SubmittedAt sub,
                      SI_Submitters = submitters, SI_Score = Brief_Score report,
                      SI_MaxScore = Brief_MaxScore report, SI_Status = Brief_Status report\<rparr>)))"

text \<open>Newest first: the ids are sorted downwards.\<close>

definition getSubmissionHistory :: "'db env \<Rightarrow> 'db \<Rightarrow> u64 \<Rightarrow> u64 \<Rightarrow> error + submission_info list" where
  "getSubmissionHistory E db userId assignmentId =
     (case GetSubmissionsByUserAndAssignment E db userId assignmentId of
        Inl e \<Rightarrow> Inl (StatusErr NotFound ''NOT_FOUND'')
      | Inr subIds \<Rightarrow> collect (history_entry E db) (rev (sort subIds)))"

definition GetSubmissionsInAssignment ::
    "'db env \<Rightarrow> u64 \<Rightarrow> ('db, 'fs) svc \<Rightarrow> ctx \<Rightarrow> ('db, 'fs) svc \<times> (error + submission_info list)" where
  "GetSubmissionsInAssignment E assignmentId a c =
     attempt a (must (cx_user c)) (\<lambda>user. (a, getSubmissionHistory E (svc_db a) (UT_UserId user) assignmentId))"

definition ActivateSubmission ::
    "'db env \<Rightarrow> u64 \<Rightarrow> ('db, 'fs) svc \<Rightarrow> ctx \<Rightarrow> ('db, 'fs) svc \<times> (error + bool)" where
  "ActivateSubmission E submissionId a c =
     attempt a (must (cx_submission c)) (\<lambda>sub.
     attempt a (or_status (Repo_GetSubmissionReport E (svc_db a) submissionId) InvalidArgument ''GET_REPORT'')
       (\<lambda>report.
     if length (Report_Leaderboard report) = 0 then (a, Inr False)
     else
       (case UpdateLeaderboardEntry E (svc_db a) (Submission_AssignmentId sub) (Submission_UserId sub)
           \<lparr>Entry_SubmissionId = submissionId, Entry_Nickname = [], Entry_Items = Report_Leaderboard report,
            Entry_UserId = Submission_UserId sub, Entry_SubmittedAt = Submission_SubmittedAt sub,
            Entry_StudentId = [], Entry_Username = [], Entry_Email = []\<rparr> of
          (db1, Some e) \<Rightarrow> (with_db a db1, Inl (StatusErr Internal ''UPDATE_ENTRY''))
        | (db1, None) \<Rightarrow> (with_db a db1, Inr True))))"

subsection \<open>Running a submission\<close>

text \<open>Errors of the marker and of the brief report are only logged.\<close>

definition runSubmission :: "'db env \<Rightarrow> u64 \<Rightarrow> u64 \<Rightarrow> ('db, 'fs) svc \<Rightarrow> ('db, 'fs) svc" where
  "runSubmission E submissionId assignmentId a =
     (case Repo_GetAssignment E (svc_db a) assignmentId of
        Inl e \<Rightarrow> a
      | Inr asg \<Rightarrow>
          (case Repo_GetSubmission E (svc_db a) submissionId of
             Inl e \<Rightarrow> a
           | Inr sub \<Rightarrow>
               let db1 = fst (MarkUnfinishedSubmission E (svc_db a) submissionId assignmentId);
                   db2 = fst (UpdateSubmissionBriefReport E db1 submissionId
                     (brief_of_status SubmissionStatus_Queued))
               in a\<lparr>svc_hub := fst (HubGrader_GradeSubmission E ((svc_hub a)\<lparr>hub_db := db2\<rparr>) submissionId sub
                     (Assignment_ProgrammingConfig asg) False)\<rparr>))"

definition runUnfinishedSubmissions :: "'db env \<Rightarrow> ('db, 'fs) svc \<Rightarrow> ('db, 'fs) svc" where
  "runUnfinishedSubmissions E a =
     (case GetUnfinishedSubmissions E (svc_db a) of
        Inl e \<Rightarrow> a
      | Inr ids \<Rightarrow> foldl (\<lambda>a (subId, asgnId). spawn a (Task_runSubmission subId asgnId)) a ids)"

definition regradeSubmission :: "'db env \<Rightarrow> u64 \<Rightarrow> u64 \<Rightarrow> ('db, 'fs) svc \<Rightarrow> ('db, 'fs) svc" where
  "regradeSubmission E submissionId assignmentId a =
     runSubmission E submissionId assignmentId
       (case Repo_GetSubmissionBriefReport E (svc_db a) submissionId of
          Inl e \<Rightarrow> a
        | Inr b \<Rightarrow>
            if Brief_Status b = SubmissionStatus_Queued \<or> Brief_Status b = SubmissionStatus_Running
            then a\<lparr>svc_hub := CancelGrade E (svc_hub a) submissionId\<rparr> else a)"

definition RegradeSubmission :: "u64 \<Rightarrow> ('db, 'fs) svc \<Rightarrow> ctx \<Rightarrow> ('db, 'fs) svc \<times> (error + unit)" where
  "RegradeSubmission submissionId a c =
     attempt a (must (cx_submission c))
       (\<lambda>sub. (spawn a (Task_regradeSubmission submissionId (Submission_AssignmentId sub)), Inr ()))"

text \<open>The submissions of a member that cannot be listed are left out.\<close>

definition RegradeAssignment ::
    "'db env \<Rightarrow> u64 \<Rightarrow> ('db, 'fs) svc \<Rightarrow> ctx \<Rightarrow> ('db, 'fs) svc \<times> (error + unit)" where
  "RegradeAssignment E assignmentId a c =
     attempt a (must (cx_courseId c)) (\<lambda>courseId.
     attempt a (or_status (GetUsersByCourse E (svc_db a) courseId) Internal ''GET_USERS'') (\<lambda>members.
       let ids = concat (map (\<lambda>member.
             case GetSubmissionsByUserAndAssignment E (svc_db a) (Member_UserId member) assignmentId of
               Inl e \<Rightarrow> [] | Inr xs \<Rightarrow> xs) members)
       in (foldl (\<lambda>a i. spawn a (Task_regradeSubmission i assignmentId)) a ids, Inr ())))"

definition CancelSubmission ::
    "'db env \<Rightarrow> u64 \<Rightarrow> ('db, 'fs) svc \<Rightarrow> ('db, 'fs) svc \<times> (error + unit)" where
  "CancelSubmission E submissionId a = (a\<lparr>svc_hub := CancelGrade E (svc_hub a) submissionId\<rparr>, Inr ())"

subsection \<open>Inspection\<close>

record user_submission_info =
  USI_UserId :: u64
  USI_Username :: string
  USI_Nickname :: string
  USI_StudentId :: string
  USI_SubmissionCount :: u64

definition inspect_entry :: "'db env \<Rightarrow> 'db \<Rightarrow> u64 \<Rightarrow> course_member \<Rightarrow> error + user_submission_info" where
  "inspect_entry E db assignmentId member =
     (case GetUserById E db (Member_UserId member) of
        Inl e \<Rightarrow> Inl (StatusErr Internal ''GET_USER'')
      | Inr user \<Rightarrow>
          (case GetSubmissionsByUserAndAssignment E db (Member_UserId member) assignmentId of
             Inl e \<Rightarrow> Inl (StatusErr Internal ''GET_SUBMISSIONS'')
           | Inr submissions \<Rightarrow>
               Inr \<lparr>USI_UserId = Member_UserId member, USI_Username = User_Username user,
                 USI_Nickname = User_Nickname user, USI_StudentId = User_StudentId user,
                 USI_SubmissionCount = of_nat (length submissions)\<rparr>))"

definition InspectAllSubmissionsInAssignment ::
    "'db env \<Rightarrow> u64 \<Rightarrow> ('db, 'fs) svc \<Rightarrow> ctx \<Rightarrow> ('db, 'fs) svc \<times> (error + user_submission_info list)" where
  "InspectAllSubmissionsInAssignment E assignmentId a c =
     attempt a (must (cx_courseId c)) (\<lambda>courseId.
     attempt a (or_status (GetUsersByCourse E (svc_db a) courseId) Internal ''GET_USERS'')
       (\<lambda>members. (a, collect (inspect_entry E (svc_db a) assignmentId) members)))"

definition InspectUserSubmissionHistory ::
    "'db env \<Rightarrow> u64 \<Rightarrow> u64 \<Rightarrow> ('db, 'fs) svc \<Rightarrow> ('db, 'fs) svc \<times> (error + submission_info list)" where
  "InspectUserSubmissionHistory E userId assignmentId a =
     (a, getSubmissionHistory E (svc_db a) userId assignmentId)"

subsection \<open>Lemmas\<close>

lemma submitters_loop_Inr:
  "submitters_loop E db callerId courseId seen selfIncluded sids = Inr (subs, self) \<Longrightarrow> distinct seen \<Longrightarrow>
     (\<forall>s \<in> set seen. GetCourseMember E db s courseId \<noteq> None) \<Longrightarrow> (selfIncluded \<longleftrightarrow> callerId \<in> set seen) \<Longrightarrow>
     distinct subs \<and> set subs = set seen \<union> set sids \<and> (self \<longleftrightarrow> callerId \<in> set subs) \<and>
     (\<forall>s \<in> set subs. GetCourseMember E db s courseId \<noteq> None)"
proof (induction sids arbitrary: seen selfIncluded)
  case (Cons x sids)
  show ?case
  proof (cases "x \<in> set seen")
    case True
    then show ?thesis using Cons.IH [of seen selfIncluded] Cons.prems by (simp add: insert_absorb)
  next
    case False
    then have "submitters_loop E db callerId courseId (seen @ [x]) (selfIncluded \<or> x = callerId) sids = Inr (subs, self)"
      "GetCourseMember E db x courseId \<noteq> None" using Cons.prems(1) by (auto split: if_splits)
    then show ?thesis using Cons.IH [of "seen @ [x]" "selfIncluded \<or> x = callerId"] Cons.prems(2-4) False by auto
  qed
qed auto

lemma limits_loop_None:
  "limits_loop E db now assignmentId limit sids = None \<longleftrightarrow>
     (\<forall>sid \<in> set sids. checkSubmissionLimit E db now sid assignmentId limit = None)"
  by (induction sids) (auto split: option.splits)

lemma checkSubmissionLimit_total:
  "checkSubmissionLimit E db now userId assignmentId limit = None \<Longrightarrow>
     \<exists>ids. GetSubmissionsByUserAndAssignment E db userId assignmentId = Inr ids \<and>
       (0 < Limit_Total limit \<longrightarrow> of_nat (length ids) < Limit_Total limit)"
  by (auto simp: checkSubmissionLimit_def not_le split: sum.splits if_splits)

lemma store_submission_Inr:
  assumes "store_submission E L now assignmentId manifestId submitters user a = (a', Inr (i, files))"
  shows "GetFilesInManifest E (svc_db a) manifestId = Inr files \<and> files \<noteq> [] \<and>
    svc_tasks a' = svc_tasks a @ [Task_runSubmission i assignmentId]"
  using assms by (auto simp: store_submission_def Let_def split: sum.splits if_splits prod.splits option.splits)

text \<open>What the context and the database say when a submission was accepted.\<close>

definition admitted ::
    "'db env \<Rightarrow> 'db \<Rightarrow> time \<Rightarrow> u64 \<Rightarrow> u64 list \<Rightarrow> ctx \<Rightarrow> u64 list \<Rightarrow> bool" where
  "admitted E db now assignmentId requested c submitters \<longleftrightarrow>
     (\<exists>user member asg courseId. cx_user c = Some user \<and> cx_member c = Some member \<and>
        cx_assignment c = Some asg \<and> cx_courseId c = Some courseId \<and>
        distinct submitters \<and> submitters \<noteq> [] \<and>
        set submitters = set (if requested = [] then [UT_UserId user] else requested) \<and>
        (UT_UserId user \<in> set submitters \<or> is_staff member) \<and>
        (\<forall>s \<in> set submitters. GetCourseMember E db s courseId \<noteq> None) \<and>
        (\<forall>limit. Assignment_SubmissionLimit asg = Some limit \<and> \<not> is_staff member \<longrightarrow>
           (\<forall>s \<in> set submitters. \<exists>ids. GetSubmissionsByUserAndAssignment E db s assignmentId = Inr ids \<and>
              (0 < Limit_Total limit \<longrightarrow> of_nat (length ids) < Limit_Total limit))))"

lemma validateSubmitters_Inr:
  "validateSubmitters E db requested callerId courseId staff = Inr subs \<Longrightarrow>
     distinct subs \<and> subs \<noteq> [] \<and> set subs = set (if requested = [] then [callerId] else requested) \<and>
     (callerId \<in> set subs \<or> staff) \<and> (\<forall>s \<in> set subs. GetCourseMember E db s courseId \<noteq> None)"
proof -
  assume a: "validateSubmitters E db requested callerId courseId staff = Inr subs"
  let ?l = "if requested = [] then [callerId] else requested"
  obtain self where s: "submitters_loop E db callerId courseId [] False ?l = Inr (subs, self)" "self \<or> staff"
    using a by (auto simp: validateSubmitters_def split: sum.splits if_splits)
  have "distinct subs \<and> set subs = set [] \<union> set ?l \<and> (self \<longleftrightarrow> callerId \<in> set subs) \<and>
      (\<forall>s \<in> set subs. GetCourseMember E db s courseId \<noteq> None)"
    by (rule submitters_loop_Inr [OF s(1)]) simp_all
  moreover have "set ?l \<noteq> {}" by simp
  ultimately show ?thesis using s(2) by auto
qed

lemma check_limits_Inr:
  "check_limits E db now assignmentId asg staff submitters = Inr u \<Longrightarrow>
     Assignment_SubmissionLimit asg = Some limit \<Longrightarrow> \<not> staff \<Longrightarrow> s \<in> set submitters \<Longrightarrow>
     \<exists>ids. GetSubmissionsByUserAndAssignment E db s assignmentId = Inr ids \<and>
       (0 < Limit_Total limit \<longrightarrow> of_nat (length ids) < Limit_Total limit)"
  by (intro checkSubmissionLimit_total [of E db now])
    (auto simp: check_limits_def limits_loop_None split: option.splits)

text \<open>Following a mailbox for at most \<open>n\<close> rounds, while sending succeeds: what was sent, and whether the loop
  is still open.\<close>

fun follow_mailbox :: "'db env \<Rightarrow> u64 \<Rightarrow> nat \<Rightarrow> nat \<Rightarrow> ('db, 'fs) svc \<Rightarrow> subscribe_response list \<times> bool" where
  "follow_mailbox E s m 0 a = ([], True)"
| "follow_mailbox E s m (Suc n) a =
     (case SubscribeSubmission_recv E s m True a of
        None \<Rightarrow> ([], True)
      | Some (a1, msgs, open) \<Rightarrow>
          if open then (case follow_mailbox E s m n a1 of (msgs2, open2) \<Rightarrow> (msgs @ msgs2, open2))
          else (msgs, False))"

context store_up
begin

lemma files_of_manifest:
  assumes "view db (getFileKey i f) = Some raw"
  shows "\<exists>files. GetFilesInManifest E db i = Inr files \<and> f \<in> set files"
proof -
  obtain kvs where kvs: "piter E db (PrefixIterOptions (getFilesPrefix i)) = Inr kvs" using iter_up by blast
  have "prefix (getFilesPrefix i) (getFileKey i f)" by (simp add: getFilesPrefix_def getFileKey_def)
  then have "(getFileKey i f, raw) \<in> set kvs" using iter_prefix [OF kvs] assms by simp
  moreover have "drop (length (getFilesPrefix i)) (getFileKey i f) = f"
    by (simp add: getFilesPrefix_def getFileKey_def)
  ultimately show ?thesis using kvs by (force simp: GetFilesInManifest_def)
qed

text \<open>What \<open>store_submission\<close> leaves: the record, its place in the index of each submitter, and the brief report.\<close>

lemma store_submission_stores:
  assumes "store_submission E L now assignmentId manifestId submitters user a = (a', Inr (i, files))"
    and "submission_inv E view (svc_db a) (svc_submission_seq a)" and "seq_next (svc_submission_seq a) + 1 \<noteq> 0"
  shows "Repo_GetSubmission E (svc_db a) i = Inl ErrNotFound"
    "Repo_GetSubmission E (svc_db a') i = Inr \<lparr>Submission_AssignmentId = assignmentId, Submission_SubmittedAt = Some now,
       Submission_Submitters = submitters, Submission_Path = getManifestPath manifestId, Submission_Files = files,
       Submission_LeaderboardName = UT_Nickname user, Submission_UserId = UT_UserId user\<rparr>"
    "\<exists>old new. GetSubmissionsByUserAndAssignment E (svc_db a) u assignmentId = Inr old \<and>
       GetSubmissionsByUserAndAssignment E (svc_db a') u assignmentId = Inr new \<and>
       set new = set old \<union> (if u \<in> set submitters then {i} else {})"
    "Repo_GetSubmissionBriefReport E (svc_db a') i = Inr (brief_of_status SubmissionStatus_Queued)"
proof -
  let ?s = "\<lparr>Submission_AssignmentId = assignmentId, Submission_SubmittedAt = Some now, Submission_Submitters = submitters,
     Submission_Path = getManifestPath manifestId, Submission_Files = files, Submission_LeaderboardName = UT_Nickname user,
     Submission_UserId = UT_UserId user\<rparr>"
  obtain db1 q1 db2 db3 locks r where c: "Repo_CreateSubmission E (svc_db a) (svc_submission_seq a) ?s = (db1, q1, Inr i)"
      and b: "UpdateSubmissionBriefReport E db1 i (brief_of_status SubmissionStatus_Queued) = (db2, None)"
      and d: "DeleteManifest E db2 (svc_locks a) manifestId = Some (db3, locks, r)" and a': "svc_db a' = db3"
    using assms(1) by (auto simp: store_submission_def Let_def spawn_def svc_db_def with_db_def
        split: sum.splits if_splits prod.splits option.splits)
  obtain raw where raw: "Marshal (C_Brief E) (brief_of_status SubmissionStatus_Queued) = Inr raw"
      "view db2 = (view db1)(report_getBriefIdKey i \<mapsto> raw)"
    using b set_message_ok by (metis UpdateSubmissionBriefReport_def)
  have keep: "view db3 k = view db2 k" if "prefix ''submission:'' k \<or> k = report_getBriefIdKey i" for k
    using DeleteManifest_view [OF d] that by (auto simp: manifest_key_defs getFilesPrefix_def report_getBriefIdKey_def prefix_def)
  have same: "view (svc_db a') k = view db1 k" if "prefix ''submission:'' k" for k
    using keep [of k] that by (auto simp: a' raw(2) report_getBriefIdKey_def prefix_def)
  have index: "GetSubmissionsByUserAndAssignment E (svc_db a') u assignmentId =
      GetSubmissionsByUserAndAssignment E db1 u assignmentId" for u
  proof -
    have "prefix ''submission:'' k" if "prefix (getUserAssignmentPrefix u assignmentId) k" for k
      using that by (auto simp: getUserAssignmentPrefix_def prefix_def)
    then have "piter E (svc_db a') (PrefixIterOptions (getUserAssignmentPrefix u assignmentId)) =
        piter E db1 (PrefixIterOptions (getUserAssignmentPrefix u assignmentId))" by (intro iter_cong same)
    then show ?thesis by (simp add: GetSubmissionsByUserAndAssignment_def)
  qed
  have "view (svc_db a') (submission_getIdKey i) = view db1 (submission_getIdKey i)"
    by (rule same) (simp add: submission_getIdKey_def)
  from pget_cong [OF this] have "Repo_GetSubmission E (svc_db a') i = Repo_GetSubmission E db1 i"
    by (simp add: Repo_GetSubmission_def get_message_def)
  then show "Repo_GetSubmission E (svc_db a) i = Inl ErrNotFound" "Repo_GetSubmission E (svc_db a') i = Inr ?s"
    "\<exists>old new. GetSubmissionsByUserAndAssignment E (svc_db a) u assignmentId = Inr old \<and>
       GetSubmissionsByUserAndAssignment E (svc_db a') u assignmentId = Inr new \<and>
       set new = set old \<union> (if u \<in> set submitters then {i} else {})"
    using CreateSubmission_indexed [OF store_up_axioms assms(2,3) c, of u assignmentId] by (auto simp: index)
  show "Repo_GetSubmissionBriefReport E (svc_db a') i = Inr (brief_of_status SubmissionStatus_Queued)"
    using get_message_present [OF _ codec_okD [OF codec_brief raw(1)]] keep [of "report_getBriefIdKey i"] raw(2)
    by (simp add: Repo_GetSubmissionBriefReport_def a')
qed

lemma store_submission_succeeds:
  assumes "\<forall>s. \<exists>raw. Marshal (C_Submission E) s = Inr raw"
    and "\<forall>st. \<exists>raw. Marshal (C_Brief E) (brief_of_status st) = Inr raw"
    and "GetNextId E (svc_db a) (svc_submission_seq a) = (db1, q1, Inr i)" and "manifestId \<notin> svc_locks a"
    and "GetFilesInManifest E (svc_db a) manifestId = Inr files" and "files \<noteq> []"
  shows "\<exists>a'. store_submission E L now assignmentId manifestId submitters user a = (a', Inr (i, files))"
proof -
  let ?s = "\<lparr>Submission_AssignmentId = assignmentId, Submission_SubmittedAt = Some now,
      Submission_Submitters = submitters, Submission_Path = getManifestPath manifestId,
      Submission_Files = files, Submission_LeaderboardName = UT_Nickname user,
      Submission_UserId = UT_UserId user\<rparr>"
  obtain db2 where r: "Repo_CreateSubmission E (svc_db a) (svc_submission_seq a) ?s = (db2, q1, Inr i)"
  proof -
    obtain raw where m: "Marshal (C_Submission E) ?s = Inr raw" using assms(1) by blast
    let ?b = "BSet (submission_getIdKey i) raw # map (\<lambda>userId. BSet (getUserAssignmentKey userId assignmentId i) [])
        submitters"
    obtain db2 where "pcommit E db1 ?b = (db2, None)" using commit_up by blast
    then have "Repo_CreateSubmission E (svc_db a) (svc_submission_seq a) ?s = (db2, q1, Inr i)"
      by (simp add: Repo_CreateSubmission_def m assms(3) batch_all_up del: batch_all.simps)
    then show ?thesis by (rule that)
  qed
  obtain raw where m: "Marshal (C_Brief E) (brief_of_status SubmissionStatus_Queued) = Inr raw"
    using assms(2) by blast
  obtain db3 where u: "UpdateSubmissionBriefReport E db2 i (brief_of_status SubmissionStatus_Queued) = (db3, None)"
    using set_up [of db2 "report_getBriefIdKey i" raw] m
    by (auto simp: UpdateSubmissionBriefReport_def set_message_def)
  have "\<exists>r. DeleteManifest E db3 (svc_locks a) manifestId = Some r"
    using assms(4) by (auto simp: DeleteManifest_def LockManifest_def Let_def split: sum.splits prod.splits)
  then obtain db4 locks4 r where "DeleteManifest E db3 (svc_locks a) manifestId = Some (db4, locks4, r)"
    by (metis prod_cases3)
  then show ?thesis using r u assms(5,6) by (simp add: store_submission_def Let_def)
qed

end

subsection \<open>A manifest of somebody else, for the witnesses\<close>

definition manifest_db :: mem_db where
  "manifest_db = (getFileKey 1 ''main.py'', decimal (to_nat \<lparr>File_ManifestId = 1, File_Filesize = 10\<rparr>)) #
     (manifest_getMetadataKey 1, decimal (to_nat \<lparr>Manifest_CreatedAt = Some 50, Manifest_UserId = 8,
        Manifest_AssignmentId = 6, Manifest_UploadLimit = 100\<rparr>)) # test_db CourseRole_Student"

definition test_ctx :: ctx where
  "test_ctx = \<lparr>cx_user = Some (test_user 7), cx_courseId = Some 3, cx_submissionId = None, cx_submission = None,
     cx_assignment = Some test_assignment, cx_member = Some (test_member CourseRole_Student), cx_token = None\<rparr>"

lemma manifest_db_reads:
  "GetCourseMember mem_env manifest_db 7 3 = Some (test_member CourseRole_Student)"
  "map_of manifest_db (getFileKey 1 ''main.py'') \<noteq> None"
  "GetManifest mem_env manifest_db 1 = Inr \<lparr>Manifest_CreatedAt = Some 50, Manifest_UserId = 8,
     Manifest_AssignmentId = 6, Manifest_UploadLimit = 100\<rparr>"
  by (simp_all add: GetCourseMember_def GetManifest_def get_message_def mem_get_def manifest_db_def test_db_def
      getCourseKey_def getCoursePrefix_def getFileKey_def manifest_getMetadataKey_def getMetadataPrefix_def)

text \<open>The database of the example holds submission 9 only, and no index of submissions.\<close>

lemma manifest_db_submissions:
  "map_of manifest_db (submission_getIdKey i) \<noteq> None \<Longrightarrow> i < 10"
  "prefix (getUserAssignmentPrefix u b) k \<Longrightarrow> map_of manifest_db k = None"
  by (auto simp: manifest_db_def test_db_def prefix_def submission_key_defs manifest_key_defs getFileKey_def
      getCourseKey_def getCoursePrefix_def split: if_splits)

subsection \<open>Properties\<close>

text \<open>
  C13: What an accepted submission went through, and what is stored of it. The submitters are those of the request (the
  caller when it names none), without repetition, all members of the course, the caller among them unless staff; for a
  student every one of them had fewer submissions to the assignment than the limit allows; the files are those of
  the manifest, at least one. Under an id that was free the submission is stored with exactly these submitters and
  files, its assignment and its time; it is added to the list of each submitter and of nobody else, its brief report
  says that it is queued, and exactly one task to run it was started.
\<close>

theorem CreateSubmission_admits:
  assumes "store_up E view" and "submission_inv E view (svc_db a) (svc_submission_seq a)"
    and "seq_next (svc_submission_seq a) + 1 \<noteq> 0"
    and "CreateSubmission E L now assignmentId manifestId requested a c = (a', Inr (i, files))"
  shows "(\<exists>submitters user. admitted E (svc_db a) now assignmentId requested c submitters \<and> cx_user c = Some user \<and>
      Repo_GetSubmission E (svc_db a') i = Inr \<lparr>Submission_AssignmentId = assignmentId, Submission_SubmittedAt = Some now,
        Submission_Submitters = submitters, Submission_Path = getManifestPath manifestId, Submission_Files = files,
        Submission_LeaderboardName = UT_Nickname user, Submission_UserId = UT_UserId user\<rparr> \<and>
      (\<forall>u. \<exists>old new. GetSubmissionsByUserAndAssignment E (svc_db a) u assignmentId = Inr old \<and>
        GetSubmissionsByUserAndAssignment E (svc_db a') u assignmentId = Inr new \<and>
        set new = set old \<union> (if u \<in> set submitters then {i} else {}))) \<and>
    Repo_GetSubmission E (svc_db a) i = Inl ErrNotFound \<and>
    Repo_GetSubmissionBriefReport E (svc_db a') i = Inr (brief_of_status SubmissionStatus_Queued) \<and>
    GetFilesInManifest E (svc_db a) manifestId = Inr files \<and> files \<noteq> [] \<and>
    svc_tasks a' = svc_tasks a @ [Task_runSubmission i assignmentId]"
proof -
  obtain user member asg courseId where ctx: "cx_user c = Some user" "cx_member c = Some member"
    "cx_assignment c = Some asg" "cx_courseId c = Some courseId"
    using assms(4) by (auto simp: CreateSubmission_def attempt_Inr)
  obtain submitters u where
    v: "validateSubmitters E (svc_db a) requested (UT_UserId user) courseId (is_staff member) = Inr submitters"
    and l: "check_limits E (svc_db a) now assignmentId asg (is_staff member) submitters = Inr u"
    and st: "store_submission E L now assignmentId manifestId submitters user a = (a', Inr (i, files))"
    using assms(4) by (auto simp: CreateSubmission_def attempt_Inr ctx)
  have "admitted E (svc_db a) now assignmentId requested c submitters"
    unfolding admitted_def using ctx validateSubmitters_Inr [OF v] check_limits_Inr [OF l] by blast
  then show ?thesis
    using store_submission_Inr [OF st] store_up.store_submission_stores [OF assms(1) st assms(2,3)] ctx(1) by blast
qed

text \<open>
  \<open>CreateSubmission\<close> never asks whose manifest it submits. A student of the course who names the manifest of
  another user, made for another assignment, has that user's files submitted as their own, and the manifest is
  gone from its owner.
\<close>

theorem foreign_manifest_accepted:
  assumes "store_up E view" and "\<forall>s. \<exists>raw. Marshal (C_Submission E) s = Inr raw"
    and "\<forall>st. \<exists>raw. Marshal (C_Brief E) (brief_of_status st) = Inr raw"
    and "GetNextId E (svc_db a) (svc_submission_seq a) = (db1, q1, Inr i)" and "manifestId \<notin> svc_locks a"
    and "cx_user c = Some user" and "cx_member c = Some member" and "cx_assignment c = Some asg"
    and "cx_courseId c = Some courseId" and "Assignment_SubmissionLimit asg = None"
    and "GetCourseMember E (svc_db a) (UT_UserId user) courseId \<noteq> None"
    and "GetManifest E (svc_db a) manifestId = Inr manifest"
    and "Manifest_UserId manifest \<noteq> UT_UserId user" and "Manifest_AssignmentId manifest \<noteq> assignmentId"
    and "view (svc_db a) (getFileKey manifestId f) \<noteq> None"
  shows "\<exists>a' files. CreateSubmission E L now assignmentId manifestId [] a c = (a', Inr (i, files)) \<and> f \<in> set files"
proof -
  obtain raw where "view (svc_db a) (getFileKey manifestId f) = Some raw" using assms(15) by blast
  from store_up.files_of_manifest [OF assms(1) this] obtain files
    where files: "GetFilesInManifest E (svc_db a) manifestId = Inr files" "f \<in> set files" by blast
  have "validateSubmitters E (svc_db a) [] (UT_UserId user) courseId (is_staff member) = Inr [UT_UserId user]"
    using assms(11) by (simp add: validateSubmitters_def)
  moreover have "check_limits E (svc_db a) now assignmentId asg (is_staff member) submitters = Inr ()" for submitters
    using assms(10) by (simp add: check_limits_def)
  ultimately have "CreateSubmission E L now assignmentId manifestId [] a c =
      store_submission E L now assignmentId manifestId [UT_UserId user] user a"
    using assms(6-9) by (simp add: CreateSubmission_def)
  then show ?thesis
    using store_up.store_submission_succeeds [OF assms(1-5) files(1)] files(2) by (metis length_greater_0_conv length_pos_if_in_set)
qed

theorem foreign_manifest_accepted_witness:
  "\<exists>a' files. CreateSubmission mem_env test_lib 100 5 1 [] (test_svc manifest_db) test_ctx = (a', Inr (1, files)) \<and>
     ''main.py'' \<in> set files"
proof -
  have n: "GetNextId mem_env (svc_db (test_svc manifest_db)) (svc_submission_seq (test_svc manifest_db)) =
      (manifest_db, \<lparr>seq_key = ''q'', seq_next = 2, seq_limit = 100\<rparr>, Inr 1)" by (simp add: GetNextId_in_batch)
  have ctx: "cx_user test_ctx = Some (test_user 7)" "cx_member test_ctx = Some (test_member CourseRole_Student)"
    "cx_assignment test_ctx = Some test_assignment" "cx_courseId test_ctx = Some 3" by (simp_all add: test_ctx_def)
  show ?thesis
  proof (rule foreign_manifest_accepted [OF mem_store_up _ _ n _ ctx])
    show "GetManifest mem_env (svc_db (test_svc manifest_db)) 1 = Inr \<lparr>Manifest_CreatedAt = Some 50,
        Manifest_UserId = 8, Manifest_AssignmentId = 6, Manifest_UploadLimit = 100\<rparr>"
      using manifest_db_reads(3) by simp
  qed (use manifest_db_reads in \<open>simp_all add: test_assignment_def\<close>)
qed

theorem CreateSubmission_admits_witness:
  "\<exists>a a' files s. CreateSubmission mem_env test_lib 100 5 1 [] a test_ctx = (a', Inr (10, files)) \<and> files \<noteq> [] \<and>
     Repo_GetSubmission mem_env (svc_db a) 10 = Inl ErrNotFound \<and>
     Repo_GetSubmission mem_env (svc_db a') 10 = Inr s \<and> set (Submission_Submitters s) = {7} \<and>
     (\<exists>ids. GetSubmissionsByUserAndAssignment mem_env (svc_db a') 7 5 = Inr ids \<and> 10 \<in> set ids)"
proof -
  define q :: kvseq where "q = \<lparr>seq_key = ''submission:next_id'', seq_next = 10, seq_limit = 100\<rparr>"
  define a where "a = (test_svc manifest_db)\<lparr>svc_submission_seq := q\<rparr>"
  have a: "svc_db a = manifest_db" "svc_submission_seq a = q" "svc_locks a = {}" by (simp_all add: a_def svc_db_def initial_hub_def)
  have n: "GetNextId mem_env (svc_db a) (svc_submission_seq a) = (manifest_db, q\<lparr>seq_next := 11\<rparr>, Inr 10)"
    by (simp add: GetNextId_in_batch a q_def)
  have inv: "submission_inv mem_env map_of (svc_db a) (svc_submission_seq a)" "seq_next (svc_submission_seq a) + 1 \<noteq> 0"
    using manifest_db_submissions by (auto simp: submission_inv_def a q_def)
  obtain raw where "map_of (svc_db a) (getFileKey 1 ''main.py'') = Some raw"
    using manifest_db_reads(2) by (auto simp: a)
  from store_up.files_of_manifest [OF mem_store_up, OF this] obtain files where
    files: "GetFilesInManifest mem_env (svc_db a) 1 = Inr files" "''main.py'' \<in> set files" by blast
  then have ne: "files \<noteq> []" by auto
  have l: "1 \<notin> svc_locks a" by (simp add: a)
  have m: "\<forall>s. \<exists>raw. Marshal (C_Submission mem_env) s = Inr raw"
    "\<forall>st. \<exists>raw. Marshal (C_Brief mem_env) (brief_of_status st) = Inr raw" by simp_all
  obtain a' where "store_submission mem_env test_lib 100 5 1 [7] (test_user 7) a = (a', Inr (10, files))"
    using store_up.store_submission_succeeds [OF mem_store_up m n l files(1) ne] by blast
  then have c: "CreateSubmission mem_env test_lib 100 5 1 [] a test_ctx = (a', Inr (10, files))"
    using manifest_db_reads(1)
    by (simp add: CreateSubmission_def test_ctx_def validateSubmitters_def check_limits_def test_assignment_def a)
  from CreateSubmission_admits [OF mem_store_up inv c] obtain submitters user where
    s: "admitted mem_env (svc_db a) 100 5 [] test_ctx submitters" "cx_user test_ctx = Some user"
      "Repo_GetSubmission mem_env (svc_db a') 10 = Inr \<lparr>Submission_AssignmentId = 5, Submission_SubmittedAt = Some 100,
        Submission_Submitters = submitters, Submission_Path = getManifestPath 1, Submission_Files = files,
        Submission_LeaderboardName = UT_Nickname user, Submission_UserId = UT_UserId user\<rparr>"
      "Repo_GetSubmission mem_env (svc_db a) 10 = Inl ErrNotFound"
    and i: "\<And>u. \<exists>old new. GetSubmissionsByUserAndAssignment mem_env (svc_db a) u 5 = Inr old \<and>
        GetSubmissionsByUserAndAssignment mem_env (svc_db a') u 5 = Inr new \<and>
        set new = set old \<union> (if u \<in> set submitters then {10} else {})" by blast
  have "set submitters = {7}" using s(1) by (auto simp: admitted_def test_ctx_def test_user_def)
  then show ?thesis using c ne s(3,4) i [of 7] by (intro exI [of _ a] exI [of _ a'] exI [of _ files]) auto
qed

text \<open>
  C15: A subscriber learns how the submission ended. Once the hub has closed the mailbox of a subscriber and the
  stored brief report is terminal, at most two more rounds end the stream, and the last message sent has a
  terminal status, also when an older report was still unread in the mailbox.
\<close>

theorem subscriber_sees_end:
  assumes "mb_closed (mailboxes (svc_hub a) m)"
    and "Repo_GetSubmissionBriefReport E (svc_db a) s = Inr b" and "isTerminalStatus (Brief_Status b)"
  shows "\<exists>msgs. follow_mailbox E s m 2 a = (msgs, False) \<and> msgs \<noteq> [] \<and> isTerminalStatus (sr_Status (last msgs))"
proof -
  have closed: "SubscribeSubmission_recv E s m True a' =
      Some (a'\<lparr>svc_hub := Unsubscribe (svc_hub a') s m\<rparr>, [brief_response (Some b) None], False)"
    if "mb_slot (mailboxes (svc_hub a') m) = None" "mb_closed (mailboxes (svc_hub a') m)" "svc_db a' = svc_db a" for a'
    using that assms(2) by (simp add: SubscribeSubmission_recv_def Let_def)
  have fin: "isTerminalStatus (sr_Status (brief_response (Some b) None))"
    using assms(3) by (simp add: brief_response_def GetStatus_def)
  show ?thesis
  proof (cases "mb_slot (mailboxes (svc_hub a) m)")
    case None
    then show ?thesis using closed [OF None assms(1) refl] fin by (simp add: numeral_2_eq_2)
  next
    case (Some r)
    define a1 where "a1 = a\<lparr>svc_hub := (svc_hub a)\<lparr>mailboxes := (mailboxes (svc_hub a))
        (m := mb_receive (mailboxes (svc_hub a) m))\<rparr>\<rparr>"
    have a1: "SubscribeSubmission_recv E s m True a1 =
        Some (a1\<lparr>svc_hub := Unsubscribe (svc_hub a1) s m\<rparr>, [brief_response (Some b) None], False)"
      by (rule closed) (simp_all add: a1_def mb_receive_def Some assms(1) svc_db_def)
    let ?resp = "brief_response (GR_Brief r) (GR_PendingRank r)"
    have first: "SubscribeSubmission_recv E s m True a =
        (if GR_Brief r = None \<and> GR_PendingRank r = None then Some (a1, [], True)
         else if GR_Brief r \<noteq> None \<and> isTerminalStatus (GetStatus (GR_Brief r))
         then Some (a1\<lparr>svc_hub := Unsubscribe (svc_hub a1) s m\<rparr>, [?resp], False)
         else Some (a1, [?resp], True))"
      by (simp add: SubscribeSubmission_recv_def Let_def Some a1_def)
    have resp: "sr_Status ?resp = GetStatus (GR_Brief r)" by (simp add: brief_response_def)
    show ?thesis
    proof (cases "GR_Brief r \<noteq> None \<and> isTerminalStatus (GetStatus (GR_Brief r))")
      case True
      then show ?thesis using first resp by (auto simp: numeral_2_eq_2)
    next
      case False
      then have "\<exists>l. SubscribeSubmission_recv E s m True a = Some (a1, l, True)"
        using first by (cases "GR_Brief r = None \<and> GR_PendingRank r = None") auto
      then show ?thesis using a1 fin by (auto simp: numeral_2_eq_2)
    qed
  qed
qed

theorem subscriber_sees_end_witness:
  "\<exists>(a :: (mem_db, string \<rightharpoonup> bytes) svc) msgs. Repo_GetSubmissionBriefReport mem_env (svc_db a) 9 = Inr (brief_of_status SubmissionStatus_Failed) \<and>
     follow_mailbox mem_env 9 0 2 a = (msgs, False) \<and> msgs \<noteq> []"
proof -
  let ?db = "[(report_getBriefIdKey 9, decimal (to_nat (brief_of_status SubmissionStatus_Failed)))]"
  let ?r = "GradeReport None (Some (brief_of_status SubmissionStatus_Running)) None None"
  define a where "a = (test_svc ?db)\<lparr>svc_hub := (svc_hub (test_svc ?db))\<lparr>mailboxes :=
      (\<lambda>m. \<lparr>mb_slot = Some ?r, mb_closed = True, mb_received = []\<rparr>)\<rparr>\<rparr>"
  have "svc_db a = ?db" by (simp add: a_def svc_db_def initial_hub_def)
  then have b: "Repo_GetSubmissionBriefReport mem_env (svc_db a) 9 = Inr (brief_of_status SubmissionStatus_Failed)"
    by (simp add: Repo_GetSubmissionBriefReport_def get_message_def mem_get_def)
  have c: "mb_closed (mailboxes (svc_hub a) 0)" by (simp add: a_def)
  have t: "isTerminalStatus (Brief_Status (brief_of_status SubmissionStatus_Failed))"
    by (simp add: brief_of_status_def isTerminalStatus_def)
  show ?thesis using subscriber_sees_end [OF c b t] b by blast
qed

text \<open>
  Cancelling a submission that has finished discards its result: the stored status becomes Cancelled, and its
  report, still stored, is answered with an error from then on.
\<close>

theorem cancel_discards_result:
  assumes "store_up E view" and "claims_consistent view (svc_db a)"
    and "\<forall>st. \<exists>raw. Marshal (C_Brief E) (brief_of_status st) = Inr raw"
    and "queuedListIndex (svc_hub a) s = None" and "GetGraderIdBySubmissionId E (svc_db a) s = Inl e"
    and "Svc_GetSubmissionReport E a s = (a, Inr (report, SubmissionStatus_Finished))"
  shows "\<exists>a'. CancelSubmission E s a = (a', Inr ()) \<and>
    Svc_GetSubmissionReport E a' s = (a', Inl (StatusErr NotFound ''CANCELLED''))"
proof -
  have "CancelGrade E (svc_hub a) s = onSubmissionCancelled E (svc_hub a) s"
    using assms(4,5) by (simp add: CancelGrade_def svc_db_def)
  then have "Repo_GetSubmissionBriefReport E (hub_db (CancelGrade E (svc_hub a) s)) s =
      Inr (brief_of_status SubmissionStatus_Cancelled)"
    using store_up.cancelled_state [OF assms(1), of "svc_hub a" s] assms(2,3) by (simp add: svc_db_def)
  then show ?thesis
    by (simp add: CancelSubmission_def Svc_GetSubmissionReport_def svc_db_def brief_of_status_def)
qed

theorem cancel_discards_result_witness:
  "\<exists>(a :: (mem_db, string \<rightharpoonup> bytes) svc) a' report. Svc_GetSubmissionReport mem_env a 9 = (a, Inr (report, SubmissionStatus_Finished)) \<and>
     CancelSubmission mem_env 9 a = (a', Inr ()) \<and>
     Svc_GetSubmissionReport mem_env a' 9 = (a', Inl (StatusErr NotFound ''CANCELLED''))"
proof -
  define report :: submission_report where "report = from_nat 0"
  let ?db = "[(report_getBriefIdKey 9, decimal (to_nat (brief_of_status SubmissionStatus_Finished))),
      (report_getIdKey 9, decimal (to_nat report))]"
  let ?a = "test_svc ?db"
  have g: "Svc_GetSubmissionReport mem_env ?a 9 = (?a, Inr (report, SubmissionStatus_Finished))"
    by (simp add: Svc_GetSubmissionReport_def Repo_GetSubmissionBriefReport_def Repo_GetSubmissionReport_def
        get_message_def mem_get_def brief_of_status_def)
  have own: "GetGraderIdBySubmissionId mem_env (svc_db ?a) 9 = Inl ErrNotFound"
    by (simp add: GetGraderIdBySubmissionId_def get_id_def mem_get_def)
  have "\<not> prefix (getGraderSubmissionPrefix g) k" if "k \<in> {report_getIdKey 9, report_getBriefIdKey 9}" for g k
    using that by (auto simp: getGraderSubmissionPrefix_def report_getIdKey_def report_getBriefIdKey_def)
  then have shape: "claim_shape map_of (svc_db ?a)" by (simp add: claim_shape_def)
  have cons: "claims_consistent map_of (svc_db ?a)"
    unfolding claims_consistent_def by (intro conjI shape) simp_all
  have m: "\<forall>st. \<exists>raw. Marshal (C_Brief mem_env) (brief_of_status st) = Inr raw" by simp
  have q: "queuedListIndex (svc_hub ?a) 9 = None" by (simp add: initial_hub_def)
  show ?thesis using cancel_discards_result [OF mem_store_up cons m q own g] g by blast
qed

end
