(* ===== verification/Base30.thy ===== *)
theory Base30
  imports Prelude
begin

section \<open>Join codes (pkg/utils/encode.go)\<close>

text \<open>
  A course id is written in base 30, least significant digit first. A code shorter than eight characters
  is filled up: one character of \<open>complement\<close> marks the end of the digits, random digits follow. The random
  choices are arguments (\<open>mark\<close> is \<open>rand.Intn(2)\<close>, \<open>pad i\<close> the \<open>i\<close>-th \<open>rand.Uint64()\<close>). \<open>math.Pow(30, i)\<close> is
  exact and below \<open>2 ^ 64\<close> for \<open>i \<le> 13\<close>; the conversion of a larger float is not defined by the language
  and is the argument \<open>big\<close>.
\<close>

definition dictionary :: string where
  "dictionary = ''23456789ABCDEFGHJKLMNPQRSTUVWX''"

definition complement :: string where
  "complement = ''YZ''"

definition dictLen :: u64 where
  "dictLen = 30"

fun index_byte :: "string \<Rightarrow> char \<Rightarrow> nat option" where
  "index_byte [] c = None"
| "index_byte (x # xs) c = (if x = c then Some 0 else map_option Suc (index_byte xs c))"

text \<open>A missing key of the map gives zero.\<close>

definition reverseDict :: "char \<Rightarrow> u64" where
  "reverseDict c = (case index_byte dictionary c of None \<Rightarrow> 0 | Some i \<Rightarrow> of_nat i)"

function Base30_digits :: "u64 \<Rightarrow> string" where
  "Base30_digits n =
     (if n div dictLen \<noteq> 0 then dictionary ! unat (n mod dictLen) # Base30_digits (n div dictLen)
      else [dictionary ! unat (n mod dictLen)])"
  by auto
termination
  by (relation "measure unat")
    (auto simp: dictLen_def unat_div word_neq_0_conv [symmetric] unat_gt_0 intro!: div_less_dividend)

declare Base30_digits.simps [simp del]

definition Base30Encode :: "nat \<Rightarrow> (nat \<Rightarrow> u64) \<Rightarrow> u64 \<Rightarrow> string" where
  "Base30Encode mark pad n =
     (let code = Base30_digits n
      in if length code < 8
         then
           let code1 = code @ [complement ! mark]
           in code1 @ map (\<lambda>i. dictionary ! unat (pad i mod dictLen)) [0..<8 - length code1]
         else code)"

definition pow30 :: "(nat \<Rightarrow> u64) \<Rightarrow> nat \<Rightarrow> u64" where
  "pow30 big i = (if i \<le> 13 then 30 ^ i else big i)"

definition Base30_end :: "string \<Rightarrow> nat" where
  "Base30_end code =
     (case index_byte code (complement ! 0) of
        Some i \<Rightarrow> i
      | None \<Rightarrow> (case index_byte code (complement ! 1) of Some i \<Rightarrow> i | None \<Rightarrow> length code))"

fun Base30_sum :: "(nat \<Rightarrow> u64) \<Rightarrow> nat \<Rightarrow> u64 \<Rightarrow> string \<Rightarrow> u64" where
  "Base30_sum big i acc [] = acc"
| "Base30_sum big i acc (c # cs) = Base30_sum big (Suc i) (acc + pow30 big i * reverseDict c) cs"

definition Base30Decode :: "(nat \<Rightarrow> u64) \<Rightarrow> string \<Rightarrow> u64" where
  "Base30Decode big code = Base30_sum big 0 0 (take (Base30_end code) code)"

subsection \<open>Digits\<close>

lemma length_dictionary [simp]: "length dictionary = 30"
  by (simp add: dictionary_def)

lemma index_byte_nth: "distinct xs \<Longrightarrow> i < length xs \<Longrightarrow> index_byte xs (xs ! i) = Some i"
proof (induction xs arbitrary: i)
  case (Cons x xs)
  then show ?case by (cases i) auto
qed simp

lemma index_byte_None: "c \<notin> set xs \<Longrightarrow> index_byte xs c = None"
  by (induction xs) auto

lemma index_byte_append: "c \<notin> set xs \<Longrightarrow> index_byte (xs @ c # ys) c = Some (length xs)"
  by (induction xs) auto

lemma reverseDict_nth [simp]: "i < 30 \<Longrightarrow> reverseDict (dictionary ! i) = of_nat i"
proof -
  assume "i < 30"
  have "distinct dictionary" by (simp add: dictionary_def)
  then show ?thesis using \<open>i < 30\<close> by (simp add: reverseDict_def index_byte_nth)
qed

lemma mod_dictLen_less [simp]: "unat (n mod dictLen) < 30"
  by (simp add: dictLen_def unat_mod)

lemma dictionary_no_mark: "set dictionary \<inter> set complement = {}"
  by (simp add: dictionary_def complement_def)

lemma digits_in_dictionary: "set (Base30_digits n) \<subseteq> set dictionary"
proof (induction n rule: Base30_digits.induct)
  case (1 n)
  then show ?case by (subst Base30_digits.simps) auto
qed

lemma digits_not_mark: "m < 2 \<Longrightarrow> complement ! m \<notin> set (Base30_digits n)"
proof -
  assume "m < 2"
  then have "complement ! m \<in> set complement" by (auto simp: complement_def less_2_cases_iff)
  then show ?thesis using digits_in_dictionary [of n] dictionary_no_mark by blast
qed

lemma length_digits: "unat n < 30 ^ k \<Longrightarrow> 0 < k \<Longrightarrow> length (Base30_digits n) \<le> k"
proof (induction k arbitrary: n)
  case (Suc k)
  show ?case
  proof (cases "n div dictLen = 0")
    case True
    then show ?thesis by (subst Base30_digits.simps) simp
  next
    case False
    have small: "unat (n div dictLen) < 30 ^ k"
      using Suc.prems(1) by (simp add: dictLen_def unat_div less_mult_imp_div_less)
    have "0 < k" using False small by (cases k) (auto simp: unat_eq_zero)
    then show ?thesis using False Suc.IH [OF small] by (subst Base30_digits.simps) simp
  qed
qed simp

lemma length_digits_14: "length (Base30_digits n) \<le> 14"
proof (rule length_digits)
  show "unat n < 30 ^ 14" using unat_u64_lt [of n] by simp
qed simp

lemma sum_digits:
  "i + length (Base30_digits n) \<le> 14 \<Longrightarrow> Base30_sum big i acc (Base30_digits n) = acc + 30 ^ i * n"
proof (induction n arbitrary: i acc rule: Base30_digits.induct)
  case (1 n)
  have split: "n = dictLen * (n div dictLen) + n mod dictLen"
    using word_mod_div_equality [of n dictLen] by (simp add: mult.commute)
  show ?case
  proof (cases "n div dictLen = 0")
    case True
    have "Base30_digits n = [dictionary ! unat (n mod dictLen)]" using True by (subst Base30_digits.simps) simp
    moreover have "n mod dictLen = n" using split True by simp
    moreover have "unat n < 30" using mod_dictLen_less [of n] calculation(2) by simp
    ultimately show ?thesis using 1(2) by (simp add: pow30_def)
  next
    case False
    have eq: "Base30_digits n = dictionary ! unat (n mod dictLen) # Base30_digits (n div dictLen)"
      using False by (subst Base30_digits.simps) simp
    have "Base30_sum big i acc (Base30_digits n) =
        acc + 30 ^ i * (n mod dictLen) + 30 ^ Suc i * (n div dictLen)"
      using 1(1) [OF False, of "Suc i"] 1(2) unfolding eq by (simp add: pow30_def)
    also have "\<dots> = acc + 30 ^ i * (dictLen * (n div dictLen) + n mod dictLen)"
      by (simp add: dictLen_def algebra_simps)
    finally show ?thesis by (simp only: split [symmetric])
  qed
qed

lemma Base30_end_encode: "m < 2 \<Longrightarrow> Base30_end (Base30Encode m pad n) = length (Base30_digits n)"
proof -
  assume m: "m < 2"
  have free: "complement ! 0 \<notin> set (Base30_digits n)" "complement ! 1 \<notin> set (Base30_digits n)"
    using digits_not_mark by simp_all
  show ?thesis
  proof (cases "length (Base30_digits n) < 8")
    case False
    then show ?thesis
      using free by (simp add: Base30Encode_def Base30_end_def index_byte_None)
  next
    case True
    let ?p = "map (\<lambda>i. dictionary ! unat (pad i mod dictLen)) [0..<8 - (length (Base30_digits n) + 1)]"
    have eq: "Base30Encode m pad n = Base30_digits n @ complement ! m # ?p"
      using True by (simp add: Base30Encode_def Let_def)
    have "set ?p \<subseteq> set dictionary" by (auto simp: nth_mem)
    then have "complement ! 0 \<notin> set ?p"
      using dictionary_no_mark by (auto simp: complement_def)
    moreover have "m = 0 \<or> m = 1" using m by auto
    ultimately show ?thesis
      using free unfolding Base30_end_def eq
      by (auto simp: index_byte_append index_byte_None complement_def simp del: set_map)
  qed
qed

lemma take_digits_encode: "take (length (Base30_digits n)) (Base30Encode m pad n) = Base30_digits n"
  by (simp add: Base30Encode_def Let_def)

text \<open>
  Join codes name courses: whatever the random padding is, the code of any 64-bit id decodes to the id
  (so two courses never share a code), it has at least eight characters, and \<open>math.Pow\<close> is only used in its
  exact range.
\<close>

theorem base30_roundtrip:
  assumes "mark < 2"
  shows "Base30Decode big (Base30Encode mark pad n) = n \<and> 8 \<le> length (Base30Encode mark pad n)"
proof
  have "Base30Decode big (Base30Encode mark pad n) = Base30_sum big 0 0 (Base30_digits n)"
    using assms by (simp add: Base30Decode_def Base30_end_encode take_digits_encode)
  also have "\<dots> = n" using length_digits_14 [of n] by (simp add: sum_digits)
  finally show "Base30Decode big (Base30Encode mark pad n) = n" .
  show "8 \<le> length (Base30Encode mark pad n)" by (simp add: Base30Encode_def Let_def)
qed

theorem base30_roundtrip_witness:
  "Base30Decode (\<lambda>_. 0) (Base30Encode 1 (\<lambda>_. 7) 12345) = 12345 \<and>
   8 \<le> length (Base30Encode 1 (\<lambda>_. 7) 12345)"
  by (rule base30_roundtrip) simp

end
