(* ===== verification/CourseSvc.thy ===== *)
theory CourseSvc
  imports UserSvc SubmissionSvc Base30
begin

section \<open>Courses, assignments and leaderboards (pkg/grpc/course.go, assignment.go, autograder_service.go, grader.go)\<close>

text \<open>
  The handlers of the course pages. A membership is stored twice, with the user (\<open>userRepo.AddCourse\<close>) and
  with the course (\<open>courseRepo.AddUser\<close>); a handler writes one after the other. The arguments are the fields
  of the request, the context comes from the interceptor.
\<close>

subsection \<open>Members\<close>

definition CanWriteCourse :: "('db, 'fs) svc \<Rightarrow> ('db, 'fs) svc \<times> (error + bool)" where
  "CanWriteCourse a = (a, Inr True)"

text \<open>The membership goes to the user first, then to the course; the codes differ from handler to handler.\<close>

definition UpdateCourseMember ::
    "'db env \<Rightarrow> u64 \<Rightarrow> u64 \<Rightarrow> course_role \<Rightarrow> ('db, 'fs) svc \<Rightarrow> ('db, 'fs) svc \<times> (error + unit)" where
  "UpdateCourseMember E courseId userId r a =
     (case GetCourseMember E (svc_db a) userId courseId of
        None \<Rightarrow> (a, Inl (StatusErr NotFound ''MEMBER_NOT_FOUND''))
      | Some dbMember \<Rightarrow>
          let m = dbMember\<lparr>Member_Role := r\<rparr>
          in (case AddCourse E (svc_db a) m of
                (db1, Some e) \<Rightarrow> (with_db a db1, Inl (StatusErr InvalidArgument ''ADD_COURSE''))
              | (db1, None) \<Rightarrow>
                  (case AddUser E db1 m of
                     (db2, Some e) \<Rightarrow> (with_db a db2, Inl (StatusErr InvalidArgument ''ADD_USER''))
                   | (db2, None) \<Rightarrow> (with_db a db2, Inr ()))))"

definition Svc_UpdateCourse ::
    "'db env \<Rightarrow> u64 \<Rightarrow> string \<Rightarrow> string \<Rightarrow> string \<Rightarrow> ('db, 'fs) svc \<Rightarrow> ('db, 'fs) svc \<times> (error + unit)" where
  "Svc_UpdateCourse E courseId name shortName description a =
     attempt a (or_status (GetCourse E (svc_db a) courseId) NotFound ''INVALID_COURSE_ID'') (\<lambda>course.
       (case UpdateCourse E (svc_db a) courseId
          (course\<lparr>Course_Description := description, Course_Name := name, Course_ShortName := shortName\<rparr>) of
          (db', r) \<Rightarrow> (with_db a db', fail_status r Internal ''UPDATE_COURSE'')))"

text \<open>One member to add: an address, a name for an account that is not there yet, a role.\<close>

record member_to_add =
  MA_Email :: string
  MA_Name :: string
  MA_Role :: course_role

definition add_existing ::
    "'db env \<Rightarrow> u64 \<Rightarrow> course_role \<Rightarrow> ('db, 'fs) svc \<Rightarrow> u64 \<Rightarrow> ('db, 'fs) svc \<times> course_member option" where
  "add_existing E courseId r a userId =
     (if GetCourseMember E (svc_db a) userId courseId \<noteq> None then (a, None)
      else
        let m = \<lparr>Member_UserId = userId, Member_Role = r, Member_CourseId = courseId\<rparr>
        in (case AddCourse E (svc_db a) m of
              (db1, Some e) \<Rightarrow> (with_db a db1, None)
            | (db1, None) \<Rightarrow>
                (case AddUser E db1 m of
                   (db2, Some e) \<Rightarrow> (with_db a db2, None)
                 | (db2, None) \<Rightarrow> (with_db a db2, Some m))))"

definition add_member ::
    "'db env \<Rightarrow> time \<Rightarrow> u64 \<Rightarrow> ('db, 'fs) svc \<Rightarrow> member_to_add \<Rightarrow> ('db, 'fs) svc \<times> course_member option" where
  "add_member E now courseId a x =
     (let userId = id_or_zero (GetUserIdByEmail E (svc_db a) (MA_Email x))
      in if userId = 0
         then
           (if length (MA_Name x) < 3 then (a, None)
            else if id_or_zero (GetUserIdByUsername E (svc_db a) (MA_Name x)) \<noteq> 0 then (a, None)
            else
              (case CreateUser E (svc_db a) (svc_user_seq a) now
                 \<lparr>User_Username = MA_Name x, User_Password = None, User_Email = MA_Email x, User_GithubId = [],
                  User_Nickname = MA_Name x, User_StudentId = [], User_CreatedAt = None, User_IsAdmin = False\<rparr> of
                 (db1, q1, r) \<Rightarrow>
                   let a1 = (with_db a db1)\<lparr>svc_user_seq := q1\<rparr>
                   in (case r of
                         Inl e \<Rightarrow> (a1, None)
                       | Inr newId \<Rightarrow> add_existing E courseId (MA_Role x) a1 newId)))
         else add_existing E courseId (MA_Role x) a userId)"

text \<open>The loop; \<open>clock\<close> is the time \<open>CreateUser\<close> reads for each entry.\<close>

fun add_members ::
    "'db env \<Rightarrow> (nat \<Rightarrow> time) \<Rightarrow> u64 \<Rightarrow> ('db, 'fs) svc \<Rightarrow> member_to_add list \<Rightarrow> ('db, 'fs) svc \<times> course_member list" where
  "add_members E clock courseId a [] = (a, [])"
| "add_members E clock courseId a (x # xs) =
     (case add_member E (clock 0) courseId a x of
        (a1, added) \<Rightarrow>
          (case add_members E (\<lambda>n. clock (Suc n)) courseId a1 xs of
             (a2, rest) \<Rightarrow> (a2, (case added of None \<Rightarrow> rest | Some m \<Rightarrow> m # rest))))"

definition AddCourseMembers ::
    "'db env \<Rightarrow> (nat \<Rightarrow> time) \<Rightarrow> u64 \<Rightarrow> member_to_add list \<Rightarrow> ('db, 'fs) svc \<Rightarrow>
      ('db, 'fs) svc \<times> (error + course_member list)" where
  "AddCourseMembers E clock courseId membersToAdd a =
     (case add_members E clock courseId a membersToAdd of (a', added) \<Rightarrow> (a', Inr added))"

fun remove_members ::
    "'db env \<Rightarrow> u64 \<Rightarrow> u64 \<Rightarrow> 'db \<Rightarrow> u64 list \<Rightarrow> 'db \<times> u64 list" where
  "remove_members E currentUserId courseId db [] = (db, [])"
| "remove_members E currentUserId courseId db (u # us) =
     (if currentUserId = u then remove_members E currentUserId courseId db us
      else
        (case RemoveCourseMember E db u courseId of
           (db1, _) \<Rightarrow>
             (case RemoveUser E db1 courseId u of
                (db2, _) \<Rightarrow>
                  (case remove_members E currentUserId courseId db2 us of (db3, removed) \<Rightarrow> (db3, u # removed)))))"

definition RemoveCourseMembers ::
    "'db env \<Rightarrow> u64 \<Rightarrow> u64 list \<Rightarrow> ('db, 'fs) svc \<Rightarrow> ctx \<Rightarrow> ('db, 'fs) svc \<times> (error + u64 list)" where
  "RemoveCourseMembers E courseId membersToRemove a c =
     attempt a (must (cx_user c)) (\<lambda>user.
       (case remove_members E (UT_UserId user) courseId (svc_db a) membersToRemove of
          (db', removed) \<Rightarrow> (with_db a db', Inr removed)))"

text \<open>A member whose account cannot be read is listed with empty fields: the getters of a nil user.\<close>

record member_info =
  MI_Username :: string
  MI_UserId :: u64
  MI_Role :: course_role
  MI_Email :: string
  MI_Nickname :: string
  MI_StudentId :: string
  MI_GithubId :: string

definition member_entry :: "'db env \<Rightarrow> 'db \<Rightarrow> course_member \<Rightarrow> member_info" where
  "member_entry E db m =
     (case GetUserById E db (Member_UserId m) of
        Inl e \<Rightarrow> \<lparr>MI_Username = [], MI_UserId = Member_UserId m, MI_Role = Member_Role m, MI_Email = [],
          MI_Nickname = [], MI_StudentId = [], MI_GithubId = []\<rparr>
      | Inr u \<Rightarrow> \<lparr>MI_Username = User_Username u, MI_UserId = Member_UserId m, MI_Role = Member_Role m,
          MI_Email = User_Email u, MI_Nickname = User_Nickname u, MI_StudentId = User_StudentId u,
          MI_GithubId = User_GithubId u\<rparr>)"

definition GetCourseMembers ::
    "'db env \<Rightarrow> u64 \<Rightarrow> ('db, 'fs) svc \<Rightarrow> ('db, 'fs) svc \<times> (error + member_info list)" where
  "GetCourseMembers E courseId a =
     attempt a (or_status (GetUsersByCourse E (svc_db a) courseId) Internal ''GET_USERS'') (\<lambda>members.
       (a, Inr (map (member_entry E (svc_db a)) members)))"

subsection \<open>Courses\<close>

text \<open>Here the course gets the membership first.\<close>

definition Svc_CreateCourse ::
    "'db env \<Rightarrow> string \<Rightarrow> string \<Rightarrow> string \<Rightarrow> ('db, 'fs) svc \<Rightarrow> ctx \<Rightarrow> ('db, 'fs) svc \<times> (error + u64 \<times> course)" where
  "Svc_CreateCourse E name shortName description a c =
     attempt a (must (cx_user c)) (\<lambda>user.
     attempt a (guard (length name = 0) InvalidArgument ''NAME'') (\<lambda>_.
     attempt a (guard (length shortName = 0) InvalidArgument ''SHORT_NAME'') (\<lambda>_.
     attempt a (guard (length description = 0) InvalidArgument ''DESCRIPTION'') (\<lambda>_.
       let course = \<lparr>Course_Name = name, Course_ShortName = shortName, Course_Term = [],
             Course_Description = description, Course_JoinCode = [], Course_AllowsJoin = False\<rparr>
       in (case CreateCourse E (svc_db a) (svc_course_seq a) course of
             (db1, q1, r) \<Rightarrow>
               let a1 = (with_db a db1)\<lparr>svc_course_seq := q1\<rparr>
               in attempt a1 (or_status r Internal ''CREATE_COURSE'') (\<lambda>courseId.
                  let m = \<lparr>Member_UserId = UT_UserId user, Member_Role = CourseRole_Instructor,
                        Member_CourseId = courseId\<rparr>
                  in (case AddUser E (svc_db a1) m of
                        (db2, Some e) \<Rightarrow> (with_db a1 db2, Inl (StatusErr Internal ''ADD_USER''))
                      | (db2, None) \<Rightarrow>
                          (case AddCourse E db2 m of
                             (db3, Some e) \<Rightarrow> (with_db a1 db3, Inl (StatusErr Internal ''ADD_COURSE''))
                           | (db3, None) \<Rightarrow> (with_db a1 db3, Inr (courseId, course))))))))))"

text \<open>
  The join code is blanked for everyone but staff; doing so on the nil course of a failed read panics. An
  error of the repository goes out as it is.
\<close>

definition Svc_GetCourse ::
    "'db env \<Rightarrow> u64 \<Rightarrow> ('db, 'fs) svc \<Rightarrow> ctx \<Rightarrow> ('db, 'fs) svc \<times> (error + course \<times> course_role)" where
  "Svc_GetCourse E courseId a c =
     attempt a (must (cx_member c)) (\<lambda>member.
       (a, case GetCourse E (svc_db a) courseId of
             Inl e \<Rightarrow> Inl (if is_staff member then e else Panic)
           | Inr course \<Rightarrow>
               Inr (if is_staff member then course else course\<lparr>Course_JoinCode := []\<rparr>, Member_Role member)))"

record course_card =
  CC_Name :: string
  CC_ShortName :: string
  CC_Role :: course_role
  CC_CourseId :: u64

definition course_entry :: "'db env \<Rightarrow> 'db \<Rightarrow> course_member \<Rightarrow> error + course_card" where
  "course_entry E db m =
     (case GetCourse E db (Member_CourseId m) of
        Inl e \<Rightarrow> Inl (StatusErr Internal ''GET_COURSE'')
      | Inr course \<Rightarrow> Inr \<lparr>CC_Name = Course_Name course, CC_ShortName = Course_ShortName course,
          CC_Role = Member_Role m, CC_CourseId = Member_CourseId m\<rparr>)"

definition GetCourseList ::
    "'db env \<Rightarrow> ('db, 'fs) svc \<Rightarrow> ctx \<Rightarrow> ('db, 'fs) svc \<times> (error + course_card list)" where
  "GetCourseList E a c =
     attempt a (must (cx_user c)) (\<lambda>user.
     attempt a (or_status (GetCoursesByUser E (svc_db a) (UT_UserId user)) Internal ''GET_COURSES'') (\<lambda>members.
       (a, collect (course_entry E (svc_db a)) members)))"

text \<open>\<open>big\<close> gives the powers of thirty a 64-bit word does not hold, which \<open>Base30Decode\<close> leaves to the platform.\<close>

definition JoinCourse ::
    "'db env \<Rightarrow> (nat \<Rightarrow> u64) \<Rightarrow> string \<Rightarrow> ('db, 'fs) svc \<Rightarrow> ctx \<Rightarrow> ('db, 'fs) svc \<times> (error + u64)" where
  "JoinCourse E big joinCode a c =
     (let courseId = (case GetCourseIdByJoinCode E (svc_db a) joinCode of
                        Inl e \<Rightarrow> Base30Decode big joinCode
                      | Inr i \<Rightarrow> i)
      in attempt a (or_status (GetCourse E (svc_db a) courseId) InvalidArgument ''INVALID_COURSE_ID'') (\<lambda>course.
         attempt a (guard (\<not> Course_AllowsJoin course \<or> Course_JoinCode course \<noteq> joinCode)
             InvalidArgument ''INVALID_JOIN_CODE'') (\<lambda>_.
         attempt a (must (cx_user c)) (\<lambda>user.
         attempt a (guard (GetCourseMember E (svc_db a) (UT_UserId user) courseId \<noteq> None)
             AlreadyExists ''ALREADY_IN_COURSE'') (\<lambda>_.
           let m = \<lparr>Member_UserId = UT_UserId user, Member_Role = CourseRole_Student, Member_CourseId = courseId\<rparr>
           in (case AddCourse E (svc_db a) m of
                 (db1, Some e) \<Rightarrow> (with_db a db1, Inl (StatusErr Internal ''ADD_COURSE''))
               | (db1, None) \<Rightarrow>
                   (case AddUser E db1 m of
                      (db2, Some e) \<Rightarrow> (with_db a db2, Inl (StatusErr Internal ''ADD_USER''))
                    | (db2, None) \<Rightarrow> (with_db a db2, Inr courseId))))))))"

text \<open>\<open>mark\<close> and \<open>pad\<close> are the random choices of \<open>Base30Encode\<close>.\<close>

definition GenerateJoinCode ::
    "'db env \<Rightarrow> nat \<Rightarrow> (nat \<Rightarrow> u64) \<Rightarrow> u64 \<Rightarrow> ('db, 'fs) svc \<Rightarrow> ('db, 'fs) svc \<times> (error + string)" where
  "GenerateJoinCode E mark pad courseId a =
     (let code = Base30Encode mark pad courseId
      in attempt a (or_status (GetCourse E (svc_db a) courseId) Internal ''GET_COURSE'') (\<lambda>course.
         let old = Course_JoinCode course;
             db1 = (if old \<noteq> [] \<and> old \<noteq> code then fst (UnbindJoinCode E (svc_db a) old) else svc_db a)
         in (case UpdateCourse E db1 courseId (course\<lparr>Course_JoinCode := code\<rparr>) of
               (db2, Some e) \<Rightarrow> (with_db a db2, Inl (StatusErr Internal ''UPDATE_COURSE''))
             | (db2, None) \<Rightarrow>
                 (case BindJoinCode E db2 code courseId of
                    (db3, Some e) \<Rightarrow> (with_db a db3, Inl (StatusErr Internal ''UPDATE_COURSE''))
                  | (db3, None) \<Rightarrow> (with_db a db3, Inr code)))))"

definition ChangeAllowsJoinCourse ::
    "'db env \<Rightarrow> u64 \<Rightarrow> bool \<Rightarrow> ('db, 'fs) svc \<Rightarrow> ('db, 'fs) svc \<times> (error + bool)" where
  "ChangeAllowsJoinCourse E courseId allowsJoin a =
     attempt a (or_status (GetCourse E (svc_db a) courseId) Internal ''GET_COURSE'') (\<lambda>course.
       (case UpdateCourse E (svc_db a) courseId (course\<lparr>Course_AllowsJoin := allowsJoin\<rparr>) of
          (db', Some e) \<Rightarrow> (with_db a db', Inl (StatusErr Internal ''UPDATE_COURSE''))
        | (db', None) \<Rightarrow> (with_db a db', Inr allowsJoin)))"

definition Svc_GetAllCourses :: "'db env \<Rightarrow> ('db, 'fs) svc \<Rightarrow> ('db, 'fs) svc \<times> (error + (u64 \<times> course) list)" where
  "Svc_GetAllCourses E a =
     attempt a (or_status (GetAllCourses E (svc_db a)) Internal ''GET_ALL_COURSES'') (\<lambda>courses.
       (a, Inr (map (\<lambda>(c, i). (i, c)) courses)))"

subsection \<open>Assignments\<close>

definition GetImage :: "programming_config option \<Rightarrow> string" where
  "GetImage c = (case c of None \<Rightarrow> [] | Some x \<Rightarrow> Config_Image x)"

text \<open>The stored assignment is replaced by the one in the request, whatever course that names.\<close>

definition UpdateAssignment ::
    "'db env \<Rightarrow> u64 \<Rightarrow> assignment \<Rightarrow> ('db, 'fs) svc \<Rightarrow> ('db, 'fs) svc \<times> (error + unit)" where
  "UpdateAssignment E assignmentId asg a =
     attempt a (or_status (Repo_GetAssignment E (svc_db a) assignmentId) NotFound ''INVALID_ASSIGNMENT_ID'') (\<lambda>_.
       (case Repo_UpdateAssignment E (svc_db a) assignmentId asg of
          (db', Some e) \<Rightarrow> (with_db a db', Inl (StatusErr Internal ''UPDATE_ASSIGNMENT''))
        | (db', None) \<Rightarrow>
            (spawn (with_db a db') (Task_pullImage (GetImage (Assignment_ProgrammingConfig asg))), Inr ())))"

text \<open>The task; \<open>HubGrader\<close> pulls nothing, and an error is only logged.\<close>

definition pullImage :: "string \<Rightarrow> ('db, 'fs) svc \<Rightarrow> ('db, 'fs) svc" where
  "pullImage img a = (case HubGrader_PullImage img of Some e \<Rightarrow> a | None \<Rightarrow> a)"

text \<open>The assignment of a request has no late due date and is not published.\<close>

definition CreateAssignment ::
    "'db env \<Rightarrow> assignment \<Rightarrow> ('db, 'fs) svc \<Rightarrow> ('db, 'fs) svc \<times> (error + u64 \<times> assignment)" where
  "CreateAssignment E request a =
     (let asg = request\<lparr>Assignment_LateDueDate := None, Assignment_Published := False\<rparr>
      in attempt a (guard (length (Assignment_Name asg) = 0 \<or> length (Assignment_Name asg) > 256)
             InvalidArgument ''NAME'') (\<lambda>_.
         attempt a (guard (length (Assignment_Description asg) = 0 \<or>
               length (Assignment_Description asg) > 1024 * 1024) InvalidArgument ''DESCRIPTION'') (\<lambda>_.
         attempt a (guard (AsTime (Assignment_DueDate asg) < AsTime (Assignment_ReleaseDate asg))
             InvalidArgument ''DUE_DATE'') (\<lambda>_.
           (case Repo_CreateAssignment E (svc_db a) (svc_assignment_seq a) asg of
              (db1, q1, r) \<Rightarrow>
                let a1 = (with_db a db1)\<lparr>svc_assignment_seq := q1\<rparr>
                in attempt a1 (or_status r Internal ''CREATE_ASSIGNMENT'') (\<lambda>assignmentId.
                     (case AddAssignment E (svc_db a1) (Assignment_CourseId asg) assignmentId of
                        (db2, Some e) \<Rightarrow> (with_db a1 db2, Inl (StatusErr Internal ''ADD_ASSIGNMENT''))
                      | (db2, None) \<Rightarrow>
                          (spawn (with_db a1 db2) (Task_pullImage (GetImage (Assignment_ProgrammingConfig asg))),
                           Inr (assignmentId, asg)))))))))"

text \<open>A student does not see the grader's configuration; hiding it on the nil of a failed read panics.\<close>

definition GetAssignment ::
    "'db env \<Rightarrow> u64 \<Rightarrow> ('db, 'fs) svc \<Rightarrow> ctx \<Rightarrow>
      ('db, 'fs) svc \<times> (error + assignment \<times> course_role \<times> bool)" where
  "GetAssignment E assignmentId a c =
     attempt a (must (cx_member c)) (\<lambda>member.
       let r = Member_Role member; hide = (r = CourseRole_Student \<or> r = CourseRole_Reader)
       in (a, case Repo_GetAssignment E (svc_db a) assignmentId of
                Inl e \<Rightarrow> Inl (if hide then Panic else e)
              | Inr asg \<Rightarrow>
                  Inr (if hide then asg\<lparr>Assignment_ProgrammingConfig := None\<rparr> else asg, r,
                    GetLeaderboardAnonymous E (svc_db a) assignmentId)))"

record assignment_info =
  AI_AssignmentId :: u64
  AI_Name :: string
  AI_ReleaseDate :: "time option"
  AI_DueDate :: "time option"
  AI_Submitted :: bool

definition assignment_entry :: "'db env \<Rightarrow> 'db \<Rightarrow> u64 \<Rightarrow> u64 \<Rightarrow> error + assignment_info" where
  "assignment_entry E db userId asgnId =
     (case Repo_GetAssignment E db asgnId of
        Inl e \<Rightarrow> Inl (StatusErr Internal ''GET_ASSIGNMENT'')
      | Inr asg \<Rightarrow>
          (case GetSubmissionsByUserAndAssignment E db userId asgnId of
             Inl e \<Rightarrow> Inl (StatusErr Internal ''GET_SUBMISSIONS'')
           | Inr subs \<Rightarrow> Inr \<lparr>AI_AssignmentId = asgnId, AI_Name = Assignment_Name asg,
               AI_ReleaseDate = Assignment_ReleaseDate asg, AI_DueDate = Assignment_DueDate asg,
               AI_Submitted = (0 < length subs)\<rparr>))"

definition GetAssignmentsInCourse ::
    "'db env \<Rightarrow> u64 \<Rightarrow> ('db, 'fs) svc \<Rightarrow> ctx \<Rightarrow> ('db, 'fs) svc \<times> (error + assignment_info list)" where
  "GetAssignmentsInCourse E courseId a c =
     attempt a (must (cx_user c)) (\<lambda>user.
     attempt a (or_status (GetAssignmentsByCourse E (svc_db a) courseId) Internal ''GET_ASSIGNMENTS'') (\<lambda>ids.
       (a, collect (assignment_entry E (svc_db a) (UT_UserId user)) ids)))"

subsection \<open>Leaderboards\<close>

definition HasLeaderboard :: "'db env \<Rightarrow> u64 \<Rightarrow> ('db, 'fs) svc \<Rightarrow> ('db, 'fs) svc \<times> (error + bool)" where
  "HasLeaderboard E assignmentId a = (a, Inr (Repo_HasLeaderboard E (svc_db a) assignmentId))"

text \<open>One entry as the viewer gets it: in an anonymous board only the own id is left.\<close>

definition mask_entry :: "u64 \<Rightarrow> leaderboard_entry \<Rightarrow> leaderboard_entry" where
  "mask_entry self entry =
     (if Entry_UserId entry = self then entry else entry\<lparr>Entry_UserId := 0\<rparr>)"

definition name_entry :: "'db env \<Rightarrow> 'db \<Rightarrow> bool \<Rightarrow> u64 \<Rightarrow> leaderboard_entry \<Rightarrow> leaderboard_entry" where
  "name_entry E db full self entry =
     (case GetUserById E db (Entry_UserId entry) of
        Inl e \<Rightarrow> entry
      | Inr u \<Rightarrow>
          let e1 = (if \<not> full \<and> Entry_UserId entry \<noteq> self then entry\<lparr>Entry_UserId := 0\<rparr> else entry);
              e2 = e1\<lparr>Entry_Nickname := User_Nickname u\<rparr>
          in if full then e2\<lparr>Entry_Username := User_Username u, Entry_StudentId := User_StudentId u,
               Entry_Email := User_Email u\<rparr> else e2)"

record leaderboard_view =
  LV_Entries :: "leaderboard_entry list"
  LV_Anonymous :: bool
  LV_Full :: bool
  LV_Role :: course_role

definition GetLeaderboard ::
    "'db env \<Rightarrow> u64 \<Rightarrow> ('db, 'fs) svc \<Rightarrow> ctx \<Rightarrow> ('db, 'fs) svc \<times> (error + leaderboard_view)" where
  "GetLeaderboard E assignmentId a c =
     attempt a (must (cx_member c)) (\<lambda>member.
     attempt a (must (cx_user c)) (\<lambda>user.
       let anonymous = GetLeaderboardAnonymous E (svc_db a) assignmentId; full = is_staff member
       in (a, case Repo_GetLeaderboard E (svc_db a) assignmentId of
                Inl e \<Rightarrow> Inl e
              | Inr entries \<Rightarrow>
                  Inr \<lparr>LV_Entries =
                     (if anonymous \<and> \<not> full then map (mask_entry (UT_UserId user)) entries
                      else map (name_entry E (svc_db a) full (UT_UserId user)) entries),
                    LV_Anonymous = anonymous, LV_Full = full, LV_Role = Member_Role member\<rparr>)))"

definition ChangeLeaderboardAnonymous ::
    "'db env \<Rightarrow> u64 \<Rightarrow> bool \<Rightarrow> ('db, 'fs) svc \<Rightarrow> ('db, 'fs) svc \<times> (error + bool)" where
  "ChangeLeaderboardAnonymous E assignmentId anonymous a =
     (with_db a (fst (SetLeaderboardAnonymous E (svc_db a) assignmentId anonymous)), Inr anonymous)"

definition DeleteLeaderboard ::
    "'db env \<Rightarrow> u64 \<Rightarrow> u64 \<Rightarrow> ('db, 'fs) svc \<Rightarrow> ('db, 'fs) svc \<times> (error + unit)" where
  "DeleteLeaderboard E assignmentId userId a =
     (with_db a (fst (DeleteLeaderboardEntry E (svc_db a) assignmentId userId)), Inr ())"

text \<open>
  The grades of an assignment: a line per submission of a member. A member whose history fails is left out; a
  member with submissions whose account cannot be read makes the handler panic.
\<close>

record grade_line =
  EX_UserId :: u64
  EX_Username :: string
  EX_StudentId :: string
  EX_Nickname :: string
  EX_SubmissionCount :: u64
  EX_Score :: u64
  EX_MaxScore :: u64
  EX_SubmissionId :: u64
  EX_Leaderboard :: "leaderboard_item list"
  EX_SubmitAt :: "time option"

definition export_line :: "'db env \<Rightarrow> 'db \<Rightarrow> u64 \<Rightarrow> user \<Rightarrow> nat \<Rightarrow> submission_info \<Rightarrow> grade_line" where
  "export_line E db userId u count sub =
     \<lparr>EX_UserId = userId, EX_Username = User_Username u, EX_StudentId = User_StudentId u,
      EX_Nickname = User_Nickname u, EX_SubmissionCount = of_nat count, EX_Score = SI_Score sub,
      EX_MaxScore = SI_MaxScore sub, EX_SubmissionId = SI_SubmissionId sub,
      EX_Leaderboard = (case Repo_GetSubmissionReport E db (SI_SubmissionId sub) of
         Inl e \<Rightarrow> [] | Inr report \<Rightarrow> Report_Leaderboard report),
      EX_SubmitAt = SI_SubmittedAt sub\<rparr>"

definition export_member :: "'db env \<Rightarrow> 'db \<Rightarrow> u64 \<Rightarrow> course_member \<Rightarrow> error + grade_line list" where
  "export_member E db assignmentId m =
     (case getSubmissionHistory E db (Member_UserId m) assignmentId of
        Inl e \<Rightarrow> Inr []
      | Inr subs \<Rightarrow>
          if subs = [] then Inr []
          else
            (case GetUserById E db (Member_UserId m) of
               Inl e \<Rightarrow> Inl Panic
             | Inr u \<Rightarrow> Inr (map (export_line E db (Member_UserId m) u (length subs)) subs)))"

definition ExportAssignmentGrades ::
    "'db env \<Rightarrow> u64 \<Rightarrow> ('db, 'fs) svc \<Rightarrow> ctx \<Rightarrow> ('db, 'fs) svc \<times> (error + grade_line list)" where
  "ExportAssignmentGrades E assignmentId a c =
     attempt a (must (cx_courseId c)) (\<lambda>courseId.
     attempt a (or_status (GetUsersByCourse E (svc_db a) courseId) Internal ''GET_USERS'') (\<lambda>members.
       (a, case collect (export_member E (svc_db a) assignmentId) members of
             Inl e \<Rightarrow> Inl e
           | Inr ls \<Rightarrow> Inr (concat ls))))"

subsection \<open>Graders\<close>

definition Svc_GetAllGraders ::
    "'db env \<Rightarrow> ('db, 'fs) svc \<Rightarrow> ('db, 'fs) svc \<times> (error + (u64 \<times> grader_status_metadata \<times> u64 list) list)" where
  "Svc_GetAllGraders E a = (a, Hub_GetAllGraders E (svc_hub a))"

text \<open>A viewer's log stream: opened at the hub, then the chunks are passed on until a send fails.\<close>

definition Svc_StreamLog_open ::
    "'db env \<Rightarrow> 'fs lib \<Rightarrow> time \<Rightarrow> string \<Rightarrow> request \<Rightarrow> u64 \<Rightarrow> ('db, 'fs) svc \<Rightarrow>
      ('db, 'fs) svc \<times> (error + u64 \<times> nat)" where
  "Svc_StreamLog_open E L now requestId req submissionId a =
     (case AuthFunc E L a now req ''StreamLog'' of
        (c, Some e) \<Rightarrow> (a, Inl e)
      | (c, None) \<Rightarrow>
          (case StreamLog E requestId (svc_hub a) submissionId of
             (h', r) \<Rightarrow> (a\<lparr>svc_hub := h'\<rparr>, or_status r Internal ''STREAM_LOG'')))"

fun Svc_StreamLog_relay :: "(string \<Rightarrow> bool) \<Rightarrow> string list \<Rightarrow> string list" where
  "Svc_StreamLog_relay send [] = []"
| "Svc_StreamLog_relay send (chunk # rest) =
     (if send chunk then chunk # Svc_StreamLog_relay send rest else [])"

subsection \<open>The constructor\<close>

definition newAutograderService ::
    "'db hub \<Rightarrow> 'fs \<Rightarrow> string \<Rightarrow> kvseq \<Rightarrow> kvseq \<Rightarrow> kvseq \<Rightarrow> kvseq \<Rightarrow> kvseq \<Rightarrow> bytes \<Rightarrow> bytes \<Rightarrow> bytes \<Rightarrow>
      ('db, 'fs) svc" where
  "newAutograderService h fs base manifests users submissions courses assignments userKey uploadKey downloadKey =
     \<lparr>svc_hub = h, svc_fs = fs, svc_basePath = base, svc_user_seq = users, svc_course_seq = courses,
      svc_assignment_seq = assignments, svc_submission_seq = submissions, svc_manifest_seq = manifests,
      svc_locks = {}, userJWTSignKey = userKey, uploadJWTSignKey = uploadKey, downloadJWTSignKey = downloadKey,
      svc_tasks = [], svc_mails = []\<rparr>"

text \<open>
  The repositories in the order they are opened; then the unfinished submissions are started again
  (\<open>runUnfinishedSubmissions\<close>, the two collectors are sweeps of their own).
\<close>

definition NewAutograderServiceServer ::
    "'db env \<Rightarrow> 'db hub \<Rightarrow> 'fs \<Rightarrow> string \<Rightarrow> bytes \<Rightarrow> bytes \<Rightarrow> bytes \<Rightarrow> 'db \<times> (error + ('db, 'fs) svc)" where
  "NewAutograderServiceServer E h fs base userKey uploadKey downloadKey =
     (case NewKVManifestRepository E (hub_db h) of
        (db1, Inl e) \<Rightarrow> (db1, Inl e)
      | (db1, Inr manifests) \<Rightarrow>
     (case NewKVUserRepository E db1 of
        (db2, Inl e) \<Rightarrow> (db2, Inl e)
      | (db2, Inr users) \<Rightarrow>
     (case NewKVSubmissionRepository E db2 of
        (db3, Inl e) \<Rightarrow> (db3, Inl e)
      | (db3, Inr submissions) \<Rightarrow>
     (case NewKVCourseRepository E db3 of
        (db4, Inl e) \<Rightarrow> (db4, Inl e)
      | (db4, Inr courses) \<Rightarrow>
     (case NewKVAssignmentRepository E db4 of
        (db5, Inl e) \<Rightarrow> (db5, Inl e)
      | (db5, Inr assignments) \<Rightarrow>
          (let a = newAutograderService (h\<lparr>hub_db := db5\<rparr>) fs base manifests users submissions courses assignments
                     userKey uploadKey downloadKey
           in (db5, Inr (runUnfinishedSubmissions E a))))))))"

subsection \<open>Properties\<close>

text \<open>
  A leaderboard does not tell a student who the others are. Whoever is not staff gets the entries of the
  board, in order and with their values, each with the id of the viewer, or no id, or, in a board that is not
  anonymous, the id of a user whose account cannot be read; student numbers, names and addresses are those the
  stored entry had.
\<close>

theorem leaderboard_masks_others:
  assumes "GetLeaderboard E assignmentId a c = (a', Inr v)" and "cx_member c = Some m" and "\<not> is_staff m"
    and "cx_user c = Some u"
  shows "\<exists>entries. Repo_GetLeaderboard E (svc_db a) assignmentId = Inr entries \<and> a' = a \<and>
    map (\<lambda>e. (Entry_Items e, Entry_SubmissionId e, Entry_StudentId e, Entry_Username e, Entry_Email e)) (LV_Entries v) =
    map (\<lambda>e. (Entry_Items e, Entry_SubmissionId e, Entry_StudentId e, Entry_Username e, Entry_Email e)) entries \<and>
    (\<forall>e \<in> set (LV_Entries v). Entry_UserId e \<in> {UT_UserId u, 0} \<or>
       \<not> LV_Anonymous v \<and> (\<exists>err. GetUserById E (svc_db a) (Entry_UserId e) = Inl err))"
proof -
  obtain entries where r: "Repo_GetLeaderboard E (svc_db a) assignmentId = Inr entries"
    using assms by (cases "Repo_GetLeaderboard E (svc_db a) assignmentId") (auto simp: GetLeaderboard_def Let_def)
  define anonymous where "anonymous = GetLeaderboardAnonymous E (svc_db a) assignmentId"
  have v: "a' = a" "LV_Anonymous v = anonymous" "LV_Entries v =
      (if anonymous then map (mask_entry (UT_UserId u)) entries else map (name_entry E (svc_db a) False (UT_UserId u)) entries)"
    using assms r by (auto simp: GetLeaderboard_def Let_def anonymous_def)
  show ?thesis
    using r v by (auto simp: mask_entry_def name_entry_def Let_def split: sum.splits)
qed

lemma sorted_singleton:
  fixes kvs :: "(bytes \<times> bytes) list"
  assumes "sorted_wrt (<) (map fst kvs)" and "set kvs = {x}"
  shows "kvs = [x]"
proof -
  have "distinct kvs" using assms(1) by (simp add: strict_sorted_iff distinct_map)
  then have "length kvs = Suc 0" using assms(2) distinct_card [of kvs] by simp
  then show ?thesis using assms(2) by (cases kvs) simp_all
qed

theorem leaderboard_masks_others_witness:
  "\<exists>v e. GetLeaderboard mem_env 5 (test_svc [(getAssignmentUserKey 5 9, decimal (to_nat (sample_entry 9))),
       (getUserIdKey 9, decimal (to_nat (new_account ''bob'' None ''b@b.c'' 1)))])
     (empty_ctx\<lparr>cx_user := Some (test_user 7), cx_member := Some (test_member CourseRole_Student)\<rparr>) =
     (test_svc [(getAssignmentUserKey 5 9, decimal (to_nat (sample_entry 9))),
       (getUserIdKey 9, decimal (to_nat (new_account ''bob'' None ''b@b.c'' 1)))], Inr v) \<and>
     LV_Entries v = [e] \<and> Entry_UserId e = 0 \<and> Entry_Nickname e = ''bob''"
proof -
  define db where "db = [(getAssignmentUserKey 5 9, decimal (to_nat (sample_entry 9))),
       (getUserIdKey 9, decimal (to_nat (new_account ''bob'' None ''b@b.c'' 1)))]"
  define c where "c = empty_ctx\<lparr>cx_user := Some (test_user 7), cx_member := Some (test_member CourseRole_Student)\<rparr>"
  have ctx: "cx_user c = Some (test_user 7)" "cx_member c = Some (test_member CourseRole_Student)"
    "\<not> is_staff (test_member CourseRole_Student)" by (simp_all add: c_def is_staff_def test_member_def)
  have keys: "prefix (leaderboard_getAssignmentPrefix 5) (getAssignmentUserKey 5 9)"
    "\<not> prefix (leaderboard_getAssignmentPrefix 5) (getUserIdKey 9)"
    by (simp_all add: getAssignmentUserKey_def leaderboard_getAssignmentPrefix_def getUserIdKey_def)
  have ne: "getUserIdKey 9 \<noteq> getAssignmentUserKey 5 9" using keys by metis
  obtain kvs where kvs: "piter mem_env db (PrefixIterOptions (leaderboard_getAssignmentPrefix 5)) = Inr kvs" by simp
  have "set kvs = {(getAssignmentUserKey 5 9, decimal (to_nat (sample_entry 9)))}"
    using store.iter_prefix [OF mem_store kvs] keys by (auto simp: db_def split: if_splits)
  moreover have "sorted_wrt (<) (map fst kvs)" using store.iter_sorted [OF mem_store kvs] .
  ultimately have "kvs = [(getAssignmentUserKey 5 9, decimal (to_nat (sample_entry 9)))]" by (rule sorted_singleton [rotated])
  then have board: "Repo_GetLeaderboard mem_env db 5 = Inr [sample_entry 9]"
    using kvs by (simp add: Repo_GetLeaderboard_def del: mem_env_simps(6))
  have user: "GetUserById mem_env db 9 = Inr (new_account ''bob'' None ''b@b.c'' 1)"
    by (simp add: db_def GetUserById_def get_message_def mem_get_def ne ne [symmetric])
  have uid: "Entry_UserId (sample_entry 9) = 9" by (simp add: sample_entry_def)
  have anon: "\<not> GetLeaderboardAnonymous mem_env db 5"
    by (simp add: GetLeaderboardAnonymous_def mem_get_def db_def getAnonymousMarker_def getAssignmentUserKey_def
        leaderboard_getAssignmentPrefix_def getUserIdKey_def)
  obtain v where g: "GetLeaderboard mem_env 5 (test_svc db) c = (test_svc db, Inr v)"
    and v: "LV_Entries v = [name_entry mem_env db False 7 (sample_entry 9)]"
    by (simp add: GetLeaderboard_def ctx Let_def board anon test_user_def)
  obtain e where e: "LV_Entries v = [e]" "Entry_Nickname e = ''bob''"
    using v by (simp add: name_entry_def user uid Let_def)
  from leaderboard_masks_others [OF g ctx(2,3,1)] e have
    "Entry_UserId e \<in> {7, 0} \<or> (\<exists>err. GetUserById mem_env db (Entry_UserId e) = Inl err)"
    by (auto simp: test_user_def)
  moreover have "Entry_UserId e = 0"
    using v e(1) by (simp add: name_entry_def user uid Let_def)
  ultimately show ?thesis using g e unfolding db_def [symmetric] c_def [symmetric] by blast
qed

end
