(* ===== verification/Roster.thy ===== *)
theory Roster
  imports CourseSvc
begin

section \<open>The course pages as a step relation\<close>

text \<open>
  What the handlers of the course pages do to the memberships. The two copies of a membership are indexes of
  one map from course and user to the membership (\<open>rosters\<close>); every handler keeps them so (\<open>course_step\<close>,
  \<open>course_run\<close>), also when it fails.
\<close>

subsection \<open>An index of the memberships\<close>

definition member_index ::
    "'db env \<Rightarrow> ('db \<Rightarrow> bytes \<rightharpoonup> bytes) \<Rightarrow> (u64 \<times> u64 \<Rightarrow> bytes) \<Rightarrow> bytes \<Rightarrow> 'db \<Rightarrow> membership \<Rightarrow> bool" where
  "member_index E view K p db ms \<longleftrightarrow>
     (\<forall>x. case ms x of
        None \<Rightarrow> view db (K x) = None
      | Some m \<Rightarrow> \<exists>raw. view db (K x) = Some raw \<and> Unmarshal (C_Member E) raw = Inr m) \<and>
     (\<forall>k. view db k \<noteq> None \<longrightarrow> prefix p k \<longrightarrow> (\<exists>x. k = K x))"

definition by_course :: "u64 \<times> u64 \<Rightarrow> bytes" where
  "by_course x = getUserKey (fst x) (snd x)"

definition by_user :: "u64 \<times> u64 \<Rightarrow> bytes" where
  "by_user x = getCourseKey (snd x) (fst x)"

definition rosters :: "'db env \<Rightarrow> ('db \<Rightarrow> bytes \<rightharpoonup> bytes) \<Rightarrow> 'db \<Rightarrow> membership \<Rightarrow> bool" where
  "rosters E view db ms \<longleftrightarrow>
     member_index E view by_course ''course:users:'' db ms \<and> member_index E view by_user ''user:courses:'' db ms \<and>
     (\<forall>c u m. ms (c, u) = Some m \<longrightarrow> Member_CourseId m = c \<and> Member_UserId m = u)"

lemma roster_keys [simp]:
  "by_course x = by_course y \<longleftrightarrow> x = y" "by_user x = by_user y \<longleftrightarrow> x = y"
  "by_course x \<noteq> by_user y" "by_user y \<noteq> by_course x"
  "prefix ''course:users:'' (by_course x)" "prefix ''user:courses:'' (by_user x)"
  "\<not> prefix ''course:users:'' (by_user x)" "\<not> prefix ''user:courses:'' (by_course x)"
  by (auto simp: by_course_def by_user_def prod_eq_iff course_key_defs user_key_defs)

lemma member_indexD:
  assumes "member_index E view K p db ms"
  shows "case ms x of None \<Rightarrow> view db (K x) = None
      | Some m \<Rightarrow> \<exists>raw. view db (K x) = Some raw \<and> Unmarshal (C_Member E) raw = Inr m"
    and "view db k \<noteq> None \<Longrightarrow> prefix p k \<Longrightarrow> \<exists>x. k = K x"
  using assms unfolding member_index_def by blast+

lemma member_indexI:
  assumes "\<And>x. case ms x of None \<Rightarrow> view db (K x) = None
      | Some m \<Rightarrow> \<exists>raw. view db (K x) = Some raw \<and> Unmarshal (C_Member E) raw = Inr m"
    and "\<And>k. view db k \<noteq> None \<Longrightarrow> prefix p k \<Longrightarrow> \<exists>x. k = K x"
  shows "member_index E view K p db ms"
  using assms unfolding member_index_def by blast

lemma member_index_frame:
  assumes "member_index E view K p db ms" and "\<And>x. prefix p (K x)"
    and "\<And>k. prefix p k \<Longrightarrow> view db' k = view db k"
  shows "member_index E view K p db' ms"
proof (rule member_indexI)
  fix x
  show "case ms x of None \<Rightarrow> view db' (K x) = None
      | Some m \<Rightarrow> \<exists>raw. view db' (K x) = Some raw \<and> Unmarshal (C_Member E) raw = Inr m"
    using member_indexD(1) [OF assms(1), of x] assms(3) [OF assms(2), of x] by (simp split: option.splits)
qed (use assms(3) member_indexD(2) [OF assms(1)] in simp)

lemma member_index_set:
  assumes "member_index E view K p db ms" and "inj K" and "Unmarshal (C_Member E) raw = Inr m"
    and "\<And>k. prefix p k \<Longrightarrow> view db' k = ((view db)(K x \<mapsto> raw)) k" and "\<And>x. prefix p (K x)"
  shows "member_index E view K p db' (ms(x \<mapsto> m))"
proof (rule member_indexI)
  fix y
  have "K y = K x \<longleftrightarrow> y = x" using assms(2) by (auto dest: injD)
  then show "case (ms(x \<mapsto> m)) y of None \<Rightarrow> view db' (K y) = None
      | Some m \<Rightarrow> \<exists>raw. view db' (K y) = Some raw \<and> Unmarshal (C_Member E) raw = Inr m"
    using member_indexD(1) [OF assms(1), of y] assms(3) assms(4) [OF assms(5), of y]
    by (cases "y = x") (simp_all split: option.splits)
next
  fix k assume "view db' k \<noteq> None" "prefix p k"
  then show "\<exists>x. k = K x" using member_indexD(2) [OF assms(1), of k] assms(4) [of k] by (cases "k = K x") (blast, simp)
qed

lemma member_index_del:
  assumes "member_index E view K p db ms" and "inj K"
    and "\<And>k. prefix p k \<Longrightarrow> view db' k = ((view db)(K x := None)) k" and "\<And>x. prefix p (K x)"
  shows "member_index E view K p db' (ms(x := None))"
proof (rule member_indexI)
  fix y
  have "K y = K x \<longleftrightarrow> y = x" using assms(2) by (auto dest: injD)
  then show "case (ms(x := None)) y of None \<Rightarrow> view db' (K y) = None
      | Some m \<Rightarrow> \<exists>raw. view db' (K y) = Some raw \<and> Unmarshal (C_Member E) raw = Inr m"
    using member_indexD(1) [OF assms(1), of y] assms(3) [OF assms(4), of y]
    by (cases "y = x") (simp_all split: option.splits)
next
  fix k assume "view db' k \<noteq> None" "prefix p k"
  then show "\<exists>x. k = K x" using member_indexD(2) [OF assms(1), of k] assms(3) [of k] by (cases "k = K x") (blast, simp)
qed

lemma inj_keys: "inj by_course" "inj by_user"
  by (auto intro: injI)

lemma rosters_frame:
  assumes "rosters E view db ms"
    and "\<And>k. prefix ''course:users:'' k \<or> prefix ''user:courses:'' k \<Longrightarrow> view db' k = view db k"
  shows "rosters E view db' ms"
  using assms member_index_frame [of E view by_course _ db ms db'] member_index_frame [of E view by_user _ db ms db']
  unfolding rosters_def by simp

lemma rosters_set:
  assumes "rosters E view db ms" and "Unmarshal (C_Member E) raw = Inr m"
    and "view db' = (view db)(getUserKey (Member_CourseId m) (Member_UserId m) \<mapsto> raw,
      getCourseKey (Member_UserId m) (Member_CourseId m) \<mapsto> raw)"
  shows "rosters E view db' (ms((Member_CourseId m, Member_UserId m) \<mapsto> m))"
proof -
  define x where "x = (Member_CourseId m, Member_UserId m)"
  have v: "view db' = (view db)(by_course x \<mapsto> raw, by_user x \<mapsto> raw)"
    by (simp add: assms(3) by_course_def by_user_def x_def)
  have "member_index E view by_course ''course:users:'' db' (ms(x \<mapsto> m))"
    by (rule member_index_set [OF _ inj_keys(1) assms(2)]) (use assms(1) v in \<open>auto simp: rosters_def\<close>)
  moreover have "member_index E view by_user ''user:courses:'' db' (ms(x \<mapsto> m))"
    by (rule member_index_set [OF _ inj_keys(2) assms(2)]) (use assms(1) v in \<open>auto simp: rosters_def\<close>)
  ultimately show ?thesis using assms(1) unfolding rosters_def by (auto simp: x_def)
qed

lemma rosters_del:
  assumes "rosters E view db ms" and "view db' = (view db)(getUserKey c u := None, getCourseKey u c := None)"
  shows "rosters E view db' (ms((c, u) := None))"
proof -
  have v: "view db' = (view db)(by_course (c, u) := None, by_user (c, u) := None)"
    by (simp add: assms(2) by_course_def by_user_def)
  have "member_index E view by_course ''course:users:'' db' (ms((c, u) := None))"
    by (rule member_index_del [OF _ inj_keys(1)]) (use assms(1) v in \<open>auto simp: rosters_def\<close>)
  moreover have "member_index E view by_user ''user:courses:'' db' (ms((c, u) := None))"
    by (rule member_index_del [OF _ inj_keys(2)]) (use assms(1) v in \<open>auto simp: rosters_def\<close>)
  ultimately show ?thesis using assms(1) unfolding rosters_def by auto
qed

subsection \<open>The writes of the handlers\<close>

text \<open>The state the course pages start from and keep: the two indexes agree, and the sequencers have their keys.\<close>

definition roster_ok :: "'db env \<Rightarrow> ('db \<Rightarrow> bytes \<rightharpoonup> bytes) \<Rightarrow> ('db, 'fs) svc \<Rightarrow> bool" where
  "roster_ok E view a \<longleftrightarrow> (\<exists>ms. rosters E view (svc_db a) ms) \<and> seq_key (svc_user_seq a) = ''user:next_id'' \<and>
     seq_key (svc_course_seq a) = ''course:next_id'' \<and> seq_key (svc_assignment_seq a) = ''assignment:next_id''"

lemma with_db_seqs [simp]:
  "svc_course_seq (with_db a db) = svc_course_seq a" "svc_assignment_seq (with_db a db) = svc_assignment_seq a"
  "svc_db (a\<lparr>svc_course_seq := q\<rparr>) = svc_db a" "svc_db (a\<lparr>svc_assignment_seq := q\<rparr>) = svc_db a"
  "svc_user_seq (spawn a t) = svc_user_seq a" "svc_course_seq (spawn a t) = svc_course_seq a"
  "svc_assignment_seq (spawn a t) = svc_assignment_seq a"
  by (simp_all add: with_db_def svc_db_def spawn_def)

lemma roster_ok_frame:
  assumes "roster_ok E view a"
    and "\<And>k. prefix ''course:users:'' k \<or> prefix ''user:courses:'' k \<Longrightarrow> view (svc_db a') k = view (svc_db a) k"
    and "seq_key (svc_user_seq a') = seq_key (svc_user_seq a)" "seq_key (svc_course_seq a') = seq_key (svc_course_seq a)"
      "seq_key (svc_assignment_seq a') = seq_key (svc_assignment_seq a)"
  shows "roster_ok E view a'"
proof -
  obtain ms where "rosters E view (svc_db a) ms" using assms(1) unfolding roster_ok_def by blast
  then have "rosters E view (svc_db a') ms" by (rule rosters_frame) (rule assms(2))
  then show ?thesis using assms(1,3-5) unfolding roster_ok_def by auto
qed

lemma roster_ok_with_db:
  assumes "roster_ok E view a" and "\<And>ms. rosters E view (svc_db a) ms \<Longrightarrow> \<exists>ms'. rosters E view db' ms'"
  shows "roster_ok E view (with_db a db')"
  using assms unfolding roster_ok_def by auto

context store_up
begin

lemma set_message_cases:
  assumes "set_message E c db k m = (db', r)"
  shows "(\<exists>e. Marshal c m = Inl e \<and> r = Some e \<and> db' = db) \<or>
    (\<exists>raw. Marshal c m = Inr raw \<and> r = None \<and> view db' = (view db)(k \<mapsto> raw))"
  using assms by (auto simp: set_message_def split: sum.splits dest: set_eq)

text \<open>Both writes of a membership, in either order: both fail and nothing changed, or both are done.\<close>

lemma AddCourse_AddUser:
  assumes "AddCourse E db m = (db1, r)"
  shows "r \<noteq> None \<and> db1 = db \<or> r = None \<and> (\<exists>db2. AddUser E db1 m = (db2, None) \<and>
    (\<forall>ms. rosters E view db ms \<longrightarrow> rosters E view db2 (ms((Member_CourseId m, Member_UserId m) \<mapsto> m))))"
  using set_message_cases [OF assms [unfolded AddCourse_def]]
proof (elim disjE exE conjE)
  fix raw assume raw: "Marshal (C_Member E) m = Inr raw" and r: "r = None"
    and v1: "view db1 = (view db)(getCourseKey (Member_UserId m) (Member_CourseId m) \<mapsto> raw)"
  obtain db2 r2 where 2: "AddUser E db1 m = (db2, r2)" by (cases "AddUser E db1 m")
  from set_message_cases [OF this [unfolded AddUser_def]] raw have "r2 = None"
    "view db2 = (view db1)(getUserKey (Member_CourseId m) (Member_UserId m) \<mapsto> raw)" by auto
  moreover have "getUserKey c u \<noteq> getCourseKey u' c'" for c u c' u' by (simp add: course_key_defs user_key_defs)
  ultimately have "rosters E view db2 (ms((Member_CourseId m, Member_UserId m) \<mapsto> m))" if "rosters E view db ms" for ms
    using that codec_okD [OF codec_member raw] by (intro rosters_set [of E view db ms raw]) (auto simp: v1 fun_upd_twist)
  then show ?thesis using r 2 \<open>r2 = None\<close> by blast
qed blast

lemma AddUser_AddCourse:
  assumes "AddUser E db m = (db1, r)"
  shows "r \<noteq> None \<and> db1 = db \<or> r = None \<and> (\<exists>db2. AddCourse E db1 m = (db2, None) \<and>
    (\<forall>ms. rosters E view db ms \<longrightarrow> rosters E view db2 (ms((Member_CourseId m, Member_UserId m) \<mapsto> m))))"
  using set_message_cases [OF assms [unfolded AddUser_def]]
proof (elim disjE exE conjE)
  fix raw assume raw: "Marshal (C_Member E) m = Inr raw" and r: "r = None"
    and v1: "view db1 = (view db)(getUserKey (Member_CourseId m) (Member_UserId m) \<mapsto> raw)"
  obtain db2 r2 where 2: "AddCourse E db1 m = (db2, r2)" by (cases "AddCourse E db1 m")
  from set_message_cases [OF this [unfolded AddCourse_def]] raw have "r2 = None"
    "view db2 = (view db1)(getCourseKey (Member_UserId m) (Member_CourseId m) \<mapsto> raw)" by auto
  then have "rosters E view db2 (ms((Member_CourseId m, Member_UserId m) \<mapsto> m))" if "rosters E view db ms" for ms
    using that codec_okD [OF codec_member raw] by (intro rosters_set [of E view db ms raw]) (auto simp: v1)
  then show ?thesis using r 2 \<open>r2 = None\<close> by blast
qed blast

lemma remove_members_rosters:
  "rosters E view db ms \<Longrightarrow> remove_members E self courseId db us = (db', removed) \<Longrightarrow> \<exists>ms'. rosters E view db' ms'"
proof (induction us arbitrary: db ms removed)
  case (Cons u us)
  show ?case
  proof (cases "self = u")
    case True
    then show ?thesis using Cons by auto
  next
    case False
    obtain db1 r1 where 1: "RemoveCourseMember E db u courseId = (db1, r1)" by (cases "RemoveCourseMember E db u courseId")
    obtain db2 r2 where 2: "RemoveUser E db1 courseId u = (db2, r2)" by (cases "RemoveUser E db1 courseId u")
    have "getUserKey courseId u \<noteq> getCourseKey u courseId" by (simp add: course_key_defs user_key_defs)
    then have "view db2 = (view db)(getUserKey courseId u := None, getCourseKey u courseId := None)"
      using delete_eq [OF 1 [unfolded RemoveCourseMember_def]] delete_eq [OF 2 [unfolded RemoveUser_def]]
      by (simp add: fun_upd_twist)
    from rosters_del [OF Cons.prems(1) this] Cons.IH [of db2] show ?thesis
      using Cons.prems(2) False 1 2 by (auto split: prod.splits)
  qed
qed auto

end

context store_up
begin

lemma add_existing_ok:
  assumes "roster_ok E view a"
  shows "roster_ok E view (fst (add_existing E courseId r a userId))"
proof (cases "GetCourseMember E (svc_db a) userId courseId")
  case (Some m)
  then show ?thesis using assms by (simp add: add_existing_def)
next
  case None
  define m where "m = \<lparr>Member_UserId = userId, Member_Role = r, Member_CourseId = courseId\<rparr>"
  obtain db1 r1 where 1: "AddCourse E (svc_db a) m = (db1, r1)" by (cases "AddCourse E (svc_db a) m")
  from AddCourse_AddUser [OF 1] show ?thesis
  proof (elim disjE conjE exE)
    assume "r1 \<noteq> None" "db1 = svc_db a"
    then show ?thesis using None 1 assms by (auto simp: add_existing_def m_def)
  next
    fix db2 assume *: "r1 = None" "AddUser E db1 m = (db2, None)"
      "\<forall>ms. rosters E view (svc_db a) ms \<longrightarrow> rosters E view db2 (ms((Member_CourseId m, Member_UserId m) \<mapsto> m))"
    then have "fst (add_existing E courseId r a userId) = with_db a db2"
      using None 1 by (simp add: add_existing_def m_def)
    then show ?thesis using roster_ok_with_db [OF assms] *(3) by metis
  qed
qed

lemma CreateUser_roster:
  assumes "roster_ok E view a" and "CreateUser E (svc_db a) (svc_user_seq a) now u = (db', q', r)"
  shows "roster_ok E view ((with_db a db')\<lparr>svc_user_seq := q'\<rparr>)"
proof (rule roster_ok_frame [OF assms(1)])
  have key: "seq_key (svc_user_seq a) = ''user:next_id''" using assms(1) by (simp add: roster_ok_def)
  note c = CreateUser_cases [OF key assms(2)]
  fix k :: string assume k: "prefix ''course:users:'' k \<or> prefix ''user:courses:'' k"
  then have "k \<noteq> ''user:next_id''" "k \<noteq> getUserIdKey i" "k \<noteq> getUsernameKey n" "k \<noteq> getEmailKey n" for i n
    by (auto simp: user_key_defs)
  then have "view db' k = view (svc_db a) k" using c by (auto simp: user_created_def)
  then show "view (svc_db ((with_db a db')\<lparr>svc_user_seq := q'\<rparr>)) k = view (svc_db a) k" by simp
next
  have "seq_key (svc_user_seq a) = ''user:next_id''" using assms(1) by (simp add: roster_ok_def)
  from CreateUser_cases [OF this assms(2)]
  show "seq_key (svc_user_seq ((with_db a db')\<lparr>svc_user_seq := q'\<rparr>)) = seq_key (svc_user_seq a)" by simp
qed simp_all

lemma add_member_ok: "roster_ok E view a \<Longrightarrow> roster_ok E view (fst (add_member E now courseId a x))"
  by (auto simp: add_member_def Let_def intro: add_existing_ok CreateUser_roster split: prod.splits sum.splits)

lemma add_members_ok: "roster_ok E view a \<Longrightarrow> roster_ok E view (fst (add_members E clock courseId a xs))"
proof (induction xs arbitrary: a clock)
  case (Cons x xs)
  obtain a1 added where 1: "add_member E (clock 0) courseId a x = (a1, added)"
    by (cases "add_member E (clock 0) courseId a x")
  then have "roster_ok E view a1" using add_member_ok [OF Cons.prems] by (metis fst_conv)
  from Cons.IH [OF this, of "\<lambda>n. clock (Suc n)"] show ?case
    using 1 by (cases "add_members E (\<lambda>n. clock (Suc n)) courseId a1 xs") simp
qed simp

end

subsection \<open>Steps\<close>

text \<open>One handler of the course pages after the other, whatever it answers; each handler is one step.\<close>

inductive course_step :: "'db env \<Rightarrow> ('db, 'fs) svc \<Rightarrow> ('db, 'fs) svc \<Rightarrow> bool" for E where
  UpdateCourseMember: "UpdateCourseMember E i u r a = (a', x) \<Longrightarrow> course_step E a a'"
| UpdateCourse: "Svc_UpdateCourse E i n s d a = (a', x) \<Longrightarrow> course_step E a a'"
| AddCourseMembers: "AddCourseMembers E clock i xs a = (a', y) \<Longrightarrow> course_step E a a'"
| RemoveCourseMembers: "RemoveCourseMembers E i us a c = (a', z) \<Longrightarrow> course_step E a a'"
| CreateCourse: "Svc_CreateCourse E n s d a c = (a', v) \<Longrightarrow> course_step E a a'"
| JoinCourse: "JoinCourse E big code a c = (a', w) \<Longrightarrow> course_step E a a'"
| GenerateJoinCode: "GenerateJoinCode E mark pad i a = (a', t) \<Longrightarrow> course_step E a a'"
| ChangeAllowsJoinCourse: "ChangeAllowsJoinCourse E i b a = (a', p) \<Longrightarrow> course_step E a a'"
| UpdateAssignment: "UpdateAssignment E i asg a = (a', x) \<Longrightarrow> course_step E a a'"
| CreateAssignment: "CreateAssignment E asg a = (a', q) \<Longrightarrow> course_step E a a'"
| ChangeLeaderboardAnonymous: "ChangeLeaderboardAnonymous E i b a = (a', p) \<Longrightarrow> course_step E a a'"
| DeleteLeaderboard: "DeleteLeaderboard E i u a = (a', x) \<Longrightarrow> course_step E a a'"

inductive course_run :: "'db env \<Rightarrow> ('db, 'fs) svc \<Rightarrow> ('db, 'fs) svc \<Rightarrow> bool" for E where
  start: "course_run E a a"
| step: "course_run E a b \<Longrightarrow> course_step E b c \<Longrightarrow> course_run E a c"

text \<open>Writes outside the two indexes.\<close>

lemma other_keys [simp]:
  "\<not> prefix ''course:users:'' (course_getIdKey i)" "\<not> prefix ''user:courses:'' (course_getIdKey i)"
  "\<not> prefix ''course:users:'' (getJoinCodeKey j)" "\<not> prefix ''user:courses:'' (getJoinCodeKey j)"
  "\<not> prefix ''course:users:'' (getAssignmentKey i t)" "\<not> prefix ''user:courses:'' (getAssignmentKey i t)"
  "\<not> prefix ''course:users:'' (assignment_getIdKey i)" "\<not> prefix ''user:courses:'' (assignment_getIdKey i)"
  "\<not> prefix ''course:users:'' (getAnonymousMarker i)" "\<not> prefix ''user:courses:'' (getAnonymousMarker i)"
  "\<not> prefix ''course:users:'' (getMarkerId i)" "\<not> prefix ''user:courses:'' (getMarkerId i)"
  "\<not> prefix ''course:users:'' (getAssignmentUserKey i u)" "\<not> prefix ''user:courses:'' (getAssignmentUserKey i u)"
  by (simp_all add: course_key_defs assignment_getIdKey_def getAnonymousMarker_def getMarkerId_def
      getAssignmentUserKey_def leaderboard_getAssignmentPrefix_def)

definition indexed :: "bytes \<Rightarrow> bool" where
  "indexed k \<longleftrightarrow> prefix ''course:users:'' k \<or> prefix ''user:courses:'' k"

lemma roster_ok_other:
  assumes "roster_ok E view a" and "\<And>k. indexed k \<Longrightarrow> view db' k = view (svc_db a) k"
  shows "roster_ok E view (with_db a db')"
  by (rule roster_ok_frame [OF assms(1)]) (simp_all add: assms(2) indexed_def)

lemma roster_ok_spawn [simp]: "roster_ok E view (spawn a t) = roster_ok E view a"
  by (simp add: roster_ok_def)

context store
begin

lemma set_message_indexed:
  "set_message E c db key m = (db', r) \<Longrightarrow> \<not> indexed key \<Longrightarrow> indexed k \<Longrightarrow> view db' k = view db k"
  by (rule set_message_other) auto

lemma set_indexed: "pset E db key v = (db', r) \<Longrightarrow> \<not> indexed key \<Longrightarrow> indexed k \<Longrightarrow> view db' k = view db k"
  by (drule set_view) auto

lemma delete_indexed: "pdelete E db key = (db', r) \<Longrightarrow> \<not> indexed key \<Longrightarrow> indexed k \<Longrightarrow> view db' k = view db k"
  by (drule delete_view) auto

lemma DeleteLeaderboardEntry_indexed:
  assumes "DeleteLeaderboardEntry E db i u = (db', r)" and "indexed k"
  shows "view db' k = view db k"
proof -
  have n: "\<not> indexed (getAssignmentUserKey i u)" "\<not> indexed (getMarkerId i)" by (simp_all add: indexed_def)
  obtain db1 r1 where 1: "pdelete E db (getAssignmentUserKey i u) = (db1, r1)"
    by (cases "pdelete E db (getAssignmentUserKey i u)")
  obtain db2 r2 where 2: "pdelete E db1 (getMarkerId i) = (db2, r2)" by (cases "pdelete E db1 (getMarkerId i)")
  have "db' = db1 \<or> db' = db2" using assms(1) 1 2 by (auto simp: DeleteLeaderboardEntry_def split: sum.splits if_splits)
  then show ?thesis using delete_indexed [OF 1 n(1) assms(2)] delete_indexed [OF 2 n(2) assms(2)] by auto
qed

end

lemma not_indexed [simp]:
  "\<not> indexed (course_getIdKey i)" "\<not> indexed (getJoinCodeKey j)" "\<not> indexed (getAssignmentKey i t)"
  "\<not> indexed (assignment_getIdKey i)" "\<not> indexed (getAnonymousMarker i)" "\<not> indexed ''course:next_id''"
  "\<not> indexed ''assignment:next_id''"
  by (simp_all add: indexed_def)

context store
begin

lemma UpdateCourse_indexed: "UpdateCourse E db i c = (db', r) \<Longrightarrow> indexed k \<Longrightarrow> view db' k = view db k"
  unfolding UpdateCourse_def by (erule set_message_indexed) simp_all

lemma Svc_UpdateCourse_ok:
  assumes "roster_ok E view a" and "Svc_UpdateCourse E i n s d a = (a', x)"
  shows "roster_ok E view a'"
  using assms by (cases "GetCourse E (svc_db a) i")
    (auto simp: Svc_UpdateCourse_def split: prod.splits intro!: roster_ok_other UpdateCourse_indexed)

lemma ChangeAllowsJoinCourse_ok:
  assumes "roster_ok E view a" and "ChangeAllowsJoinCourse E i b a = (a', x)"
  shows "roster_ok E view a'"
  using assms by (cases "GetCourse E (svc_db a) i")
    (auto simp: ChangeAllowsJoinCourse_def split: prod.splits option.splits intro!: roster_ok_other UpdateCourse_indexed)

lemma GenerateJoinCode_ok:
  assumes "roster_ok E view a" and "GenerateJoinCode E mark pad i a = (a', x)"
  shows "roster_ok E view a'"
proof (cases "GetCourse E (svc_db a) i")
  case (Inl e)
  then show ?thesis using assms by (simp add: GenerateJoinCode_def Let_def)
next
  case (Inr course)
  define code where "code = Base30Encode mark pad i"
  define old where "old = Course_JoinCode course"
  define db1 where "db1 = (if old \<noteq> [] \<and> old \<noteq> code then fst (UnbindJoinCode E (svc_db a) old) else svc_db a)"
  obtain db2 r2 where 2: "UpdateCourse E db1 i (course\<lparr>Course_JoinCode := code\<rparr>) = (db2, r2)"
    by (cases "UpdateCourse E db1 i (course\<lparr>Course_JoinCode := code\<rparr>)")
  obtain db3 r3 where 3: "BindJoinCode E db2 code i = (db3, r3)" by (cases "BindJoinCode E db2 code i")
  have eq: "GenerateJoinCode E mark pad i a = (case UpdateCourse E db1 i (course\<lparr>Course_JoinCode := code\<rparr>) of
      (db2, Some e) \<Rightarrow> (with_db a db2, Inl (StatusErr Internal ''UPDATE_COURSE''))
    | (db2, None) \<Rightarrow>
        (case BindJoinCode E db2 code i of
           (db3, Some e) \<Rightarrow> (with_db a db3, Inl (StatusErr Internal ''UPDATE_COURSE''))
         | (db3, None) \<Rightarrow> (with_db a db3, Inr code)))"
    unfolding GenerateJoinCode_def Let_def db1_def old_def code_def using Inr by simp
  have v1: "view db1 k = view (svc_db a) k" if "indexed k" for k
    using that by (cases "pdelete E (svc_db a) (getJoinCodeKey old)") (auto simp: db1_def UnbindJoinCode_def dest: delete_indexed)
  have v2: "view db2 k = view (svc_db a) k" if "indexed k" for k
    using UpdateCourse_indexed [OF 2 that] v1 [OF that] by simp
  have v3: "view db3 k = view (svc_db a) k" if "indexed k" for k
    using set_indexed [OF 3 [unfolded BindJoinCode_def] _ that] v2 [OF that] by simp
  have "a' = with_db a db2 \<or> a' = with_db a db3"
    using assms(2) eq 2 3 by (auto split: option.splits)
  then show ?thesis using roster_ok_other [OF assms(1)] v2 v3 by blast
qed

lemma UpdateAssignment_ok:
  assumes "roster_ok E view a" and "UpdateAssignment E i asg a = (a', x)"
  shows "roster_ok E view a'"
proof -
  obtain db' r where u: "Repo_UpdateAssignment E (svc_db a) i asg = (db', r)" by (cases "Repo_UpdateAssignment E (svc_db a) i asg")
  have "view db' k = view (svc_db a) k" if "indexed k" for k
    using set_message_indexed [OF u [unfolded Repo_UpdateAssignment_def] _ that] by simp
  then have "roster_ok E view (with_db a db')" by (rule roster_ok_other [OF assms(1)])
  then show ?thesis using assms u
    by (cases "Repo_GetAssignment E (svc_db a) i") (auto simp: UpdateAssignment_def split: option.splits)
qed

lemma leaderboard_steps_ok:
  assumes "roster_ok E view a"
  shows "ChangeLeaderboardAnonymous E i b a = (a', x) \<Longrightarrow> roster_ok E view a'"
    and "DeleteLeaderboard E i u a = (a', y) \<Longrightarrow> roster_ok E view a'"
proof -
  have "view db' k = view (svc_db a) k" if "SetLeaderboardAnonymous E (svc_db a) i b = (db', r)" "indexed k" for db' r k
    using that by (auto simp: SetLeaderboardAnonymous_def split: if_splits dest: set_indexed delete_indexed)
  then show "ChangeLeaderboardAnonymous E i b a = (a', x) \<Longrightarrow> roster_ok E view a'"
    by (cases "SetLeaderboardAnonymous E (svc_db a) i b")
      (auto simp: ChangeLeaderboardAnonymous_def intro!: roster_ok_other [OF assms])
  show "DeleteLeaderboard E i u a = (a', y) \<Longrightarrow> roster_ok E view a'"
    by (cases "DeleteLeaderboardEntry E (svc_db a) i u")
      (auto simp: DeleteLeaderboard_def intro!: roster_ok_other [OF assms] dest: DeleteLeaderboardEntry_indexed)
qed

text \<open>The two handlers that take an id from a sequencer.\<close>

lemma next_id_ok:
  assumes "GetNextId E db q = (db', q', r)" and "\<not> indexed (seq_key q)"
  shows "seq_key q' = seq_key q" and "indexed k \<Longrightarrow> view db' k = view db k"
  using GetNextId_frame [OF assms(1)] assms(2) by (auto, cases "k = seq_key q") auto

lemma CreateCourse_indexed:
  assumes "CreateCourse E db q c = (db', q', r)" and "\<not> indexed (seq_key q)"
  shows "seq_key q' = seq_key q" and "indexed k \<Longrightarrow> view db' k = view db k"
proof -
  obtain db1 q1 r1 where 1: "GetNextId E db q = (db1, q1, r1)" by (metis prod_cases3)
  note n = next_id_ok [OF 1 assms(2)]
  have *: "q' = q1 \<and> (db' = db1 \<or> (\<exists>i r2. UpdateCourse E db1 i c = (db', r2)))"
    using assms(1) 1 by (auto simp: CreateCourse_def split: sum.splits prod.splits option.splits)
  then show "seq_key q' = seq_key q" using n(1) by simp
  show "indexed k \<Longrightarrow> view db' k = view db k" using * n(2) UpdateCourse_indexed by metis
qed

lemma Repo_CreateAssignment_indexed:
  assumes "Repo_CreateAssignment E db q asg = (db', q', r)" and "\<not> indexed (seq_key q)"
  shows "seq_key q' = seq_key q" and "indexed k \<Longrightarrow> view db' k = view db k"
proof -
  obtain db1 q1 r1 where 1: "GetNextId E db q = (db1, q1, r1)" by (metis prod_cases3)
  note n = next_id_ok [OF 1 assms(2)]
  have *: "q' = q1 \<and> (db' = db1 \<or> (\<exists>i r2. Repo_UpdateAssignment E db1 i asg = (db', r2)))"
    using assms(1) 1 by (auto simp: Repo_CreateAssignment_def split: sum.splits prod.splits option.splits)
  then show "seq_key q' = seq_key q" using n(1) by simp
  have "Repo_UpdateAssignment E db1 i asg = (db', r2) \<Longrightarrow> indexed k \<Longrightarrow> view db' k = view db1 k" for i r2
    unfolding Repo_UpdateAssignment_def by (erule set_message_indexed) simp_all
  then show "indexed k \<Longrightarrow> view db' k = view db k" using * n(2) by metis
qed

end

context store_up
begin

lemma CreateAssignment_ok:
  assumes "roster_ok E view a" and "CreateAssignment E request a = (a', x)"
  shows "roster_ok E view a'"
proof -
  define asg where "asg = request\<lparr>Assignment_LateDueDate := None, Assignment_Published := False\<rparr>"
  obtain db1 q1 r1 where 1: "Repo_CreateAssignment E (svc_db a) (svc_assignment_seq a) asg = (db1, q1, r1)"
    by (metis prod_cases3)
  have key: "\<not> indexed (seq_key (svc_assignment_seq a))" using assms(1) by (simp add: roster_ok_def)
  note c = Repo_CreateAssignment_indexed [OF 1 key]
  define a1 where "a1 = (with_db a db1)\<lparr>svc_assignment_seq := q1\<rparr>"
  have ok1: "roster_ok E view a1"
    by (rule roster_ok_frame [OF assms(1)]) (use c in \<open>simp_all add: a1_def indexed_def\<close>)
  have "roster_ok E view (with_db a1 db2)" if "AddAssignment E (svc_db a1) cid i = (db2, r2)" for db2 r2 cid i
    using that unfolding AddAssignment_def by (intro roster_ok_other [OF ok1]) (erule set_indexed, simp_all)
  then have ok2: "roster_ok E view (with_db a1 db2)" if "AddAssignment E db1 cid i = (db2, r2)" for db2 r2 cid i
    using that by (simp add: a1_def)
  have "a' = a \<or> a' = a1 \<or> (\<exists>db2 r2 i t. AddAssignment E db1 (Assignment_CourseId asg) i = (db2, r2) \<and>
      (a' = with_db a1 db2 \<or> a' = spawn (with_db a1 db2) t))"
    using assms(2) 1
    by (auto simp: CreateAssignment_def Let_def asg_def a1_def attempt_def guard_def or_status_def
        split: if_splits sum.splits prod.splits option.splits)
  then show ?thesis using assms(1) ok1 ok2 by auto
qed

lemma AddCourseMembers_ok:
  "roster_ok E view a \<Longrightarrow> AddCourseMembers E clock i xs a = (a', x) \<Longrightarrow> roster_ok E view a'"
  using add_members_ok [of a clock i xs] by (auto simp: AddCourseMembers_def split: prod.splits)

lemma RemoveCourseMembers_ok:
  assumes "roster_ok E view a" and "RemoveCourseMembers E i us a c = (a', x)"
  shows "roster_ok E view a'"
proof (cases "cx_user c")
  case (Some u)
  obtain db' removed where r: "remove_members E (UT_UserId u) i (svc_db a) us = (db', removed)"
    by (cases "remove_members E (UT_UserId u) i (svc_db a) us")
  then have "a' = with_db a db'" using assms(2) Some by (simp add: RemoveCourseMembers_def)
  then show ?thesis using roster_ok_with_db [OF assms(1)] remove_members_rosters [OF _ r] by blast
qed (use assms in \<open>simp add: RemoveCourseMembers_def\<close>)

lemma UpdateCourseMember_ok:
  assumes "roster_ok E view a" and "UpdateCourseMember E i u r a = (a', x)"
  shows "roster_ok E view a'"
proof (cases "GetCourseMember E (svc_db a) u i")
  case (Some m0)
  define m where "m = m0\<lparr>Member_Role := r\<rparr>"
  obtain db1 r1 where 1: "AddCourse E (svc_db a) m = (db1, r1)" by (cases "AddCourse E (svc_db a) m")
  from AddCourse_AddUser [OF 1] show ?thesis
  proof (elim disjE conjE exE)
    assume "r1 \<noteq> None" "db1 = svc_db a"
    then show ?thesis using Some 1 assms by (auto simp: UpdateCourseMember_def m_def)
  next
    fix db2 assume *: "r1 = None" "AddUser E db1 m = (db2, None)"
      "\<forall>ms. rosters E view (svc_db a) ms \<longrightarrow> rosters E view db2 (ms((Member_CourseId m, Member_UserId m) \<mapsto> m))"
    then have "a' = with_db a db2" using assms(2) Some 1 by (simp add: UpdateCourseMember_def m_def Let_def)
    then show ?thesis using roster_ok_with_db [OF assms(1)] *(3) by metis
  qed
qed (use assms in \<open>simp add: UpdateCourseMember_def\<close>)

lemma JoinCourse_cases:
  assumes "JoinCourse E big code a c = (a', x)"
  defines "courseId \<equiv> case GetCourseIdByJoinCode E (svc_db a) code of Inl e \<Rightarrow> Base30Decode big code | Inr i \<Rightarrow> i"
  shows "a' = a \<and> (\<exists>e. x = Inl e) \<or>
    (\<exists>u course. GetCourse E (svc_db a) courseId = Inr course \<and> Course_AllowsJoin course \<and> Course_JoinCode course = code \<and>
      cx_user c = Some u \<and> GetCourseMember E (svc_db a) (UT_UserId u) courseId = None \<and>
      (case AddCourse E (svc_db a) \<lparr>Member_UserId = UT_UserId u, Member_Role = CourseRole_Student,
           Member_CourseId = courseId\<rparr> of
         (db1, Some e) \<Rightarrow> (with_db a db1, Inl (StatusErr Internal ''ADD_COURSE''))
       | (db1, None) \<Rightarrow>
           (case AddUser E db1 \<lparr>Member_UserId = UT_UserId u, Member_Role = CourseRole_Student,
                Member_CourseId = courseId\<rparr> of
              (db2, Some e) \<Rightarrow> (with_db a db2, Inl (StatusErr Internal ''ADD_USER''))
            | (db2, None) \<Rightarrow> (with_db a db2, Inr courseId))) = (a', x))"
proof -
  note j = assms(1) [unfolded JoinCourse_def Let_def courseId_def [symmetric]]
  show ?thesis
  proof (cases "GetCourse E (svc_db a) courseId")
    case (Inr course)
    show ?thesis
    proof (cases "Course_AllowsJoin course \<and> Course_JoinCode course = code")
      case True
      show ?thesis
      proof (cases "cx_user c")
        case (Some u)
        then show ?thesis using j Inr True by (cases "GetCourseMember E (svc_db a) (UT_UserId u) courseId") auto
      qed (use j Inr True in auto)
    qed (use j Inr in \<open>auto simp: guard_def\<close>)
  qed (use j in auto)
qed

lemma JoinCourse_ok:
  assumes "roster_ok E view a" and "JoinCourse E big code a c = (a', x)"
  shows "roster_ok E view a'"
proof -
  define courseId where "courseId = (case GetCourseIdByJoinCode E (svc_db a) code of Inl e \<Rightarrow> Base30Decode big code | Inr i \<Rightarrow> i)"
  from JoinCourse_cases [OF assms(2), folded courseId_def] show ?thesis
  proof (elim disjE exE conjE)
    fix u course assume eq: "(case AddCourse E (svc_db a) \<lparr>Member_UserId = UT_UserId u,
           Member_Role = CourseRole_Student, Member_CourseId = courseId\<rparr> of
         (db1, Some e) \<Rightarrow> (with_db a db1, Inl (StatusErr Internal ''ADD_COURSE''))
       | (db1, None) \<Rightarrow>
           (case AddUser E db1 \<lparr>Member_UserId = UT_UserId u, Member_Role = CourseRole_Student,
                Member_CourseId = courseId\<rparr> of
              (db2, Some e) \<Rightarrow> (with_db a db2, Inl (StatusErr Internal ''ADD_USER''))
            | (db2, None) \<Rightarrow> (with_db a db2, Inr courseId))) = (a', x)"
    define m where "m = \<lparr>Member_UserId = UT_UserId u, Member_Role = CourseRole_Student, Member_CourseId = courseId\<rparr>"
    obtain db1 r1 where 1: "AddCourse E (svc_db a) m = (db1, r1)" by (cases "AddCourse E (svc_db a) m")
    from AddCourse_AddUser [OF 1] show ?thesis
    proof (elim disjE conjE exE)
      assume "r1 \<noteq> None" "db1 = svc_db a"
      then show ?thesis using eq [folded m_def] 1 assms(1) by auto
    next
      fix db2 assume *: "r1 = None" "AddUser E db1 m = (db2, None)"
        "\<forall>ms. rosters E view (svc_db a) ms \<longrightarrow> rosters E view db2 (ms((Member_CourseId m, Member_UserId m) \<mapsto> m))"
      then have "a' = with_db a db2" using eq [folded m_def] 1 by simp
      then show ?thesis using roster_ok_with_db [OF assms(1)] *(3) by metis
    qed
  qed (use assms in simp)
qed

end

context store_up
begin

lemma CreateCourse_ok:
  assumes "roster_ok E view a" and "Svc_CreateCourse E n s d a c = (a', x)"
  shows "roster_ok E view a'"
proof -
  define course where "course = \<lparr>Course_Name = n, Course_ShortName = s, Course_Term = [], Course_Description = d,
      Course_JoinCode = [], Course_AllowsJoin = False\<rparr>"
  obtain db1 q1 r1 where 1: "CreateCourse E (svc_db a) (svc_course_seq a) course = (db1, q1, r1)"
    by (metis prod_cases3)
  have key: "\<not> indexed (seq_key (svc_course_seq a))" using assms(1) by (simp add: roster_ok_def)
  note cc = CreateCourse_indexed [OF 1 key]
  define a1 where "a1 = (with_db a db1)\<lparr>svc_course_seq := q1\<rparr>"
  have ok1: "roster_ok E view a1"
    by (rule roster_ok_frame [OF assms(1)]) (use cc in \<open>simp_all add: a1_def indexed_def\<close>)
  define m where "m u i = \<lparr>Member_UserId = UT_UserId u, Member_Role = CourseRole_Instructor, Member_CourseId = i\<rparr>"
    for u :: user_token and i
  have "a' = a \<or> a' = a1 \<or> (\<exists>u i. fst (case AddUser E (svc_db a1) (m u i) of
        (db2, Some e) \<Rightarrow> (with_db a1 db2, Inl (StatusErr Internal ''ADD_USER''))
      | (db2, None) \<Rightarrow>
          (case AddCourse E db2 (m u i) of
             (db3, Some e) \<Rightarrow> (with_db a1 db3, Inl (StatusErr Internal ''ADD_COURSE''))
           | (db3, None) \<Rightarrow> (with_db a1 db3, Inr (i, course)))) = a')"
  proof (cases "cx_user c")
    case (Some u)
    show ?thesis
    proof (cases "n = [] \<or> s = [] \<or> d = []")
      case False
      then have "(a', x) = attempt a1 (or_status r1 Internal ''CREATE_COURSE'') (\<lambda>i.
          case AddUser E (svc_db a1) (m u i) of
            (db2, Some e) \<Rightarrow> (with_db a1 db2, Inl (StatusErr Internal ''ADD_USER''))
          | (db2, None) \<Rightarrow>
              (case AddCourse E db2 (m u i) of
                 (db3, Some e) \<Rightarrow> (with_db a1 db3, Inl (StatusErr Internal ''ADD_COURSE''))
               | (db3, None) \<Rightarrow> (with_db a1 db3, Inr (i, course))))"
        unfolding course_def a1_def m_def using assms(2) Some 1 [unfolded course_def]
        by (simp add: Svc_CreateCourse_def Let_def)
      then show ?thesis
      proof (cases r1)
        case (Inr i)
        from arg_cong [OF \<open>(a', x) = _\<close>, of fst] Inr show ?thesis
          by (intro disjI2, intro exI [of _ u], intro exI [of _ i]) simp
      qed simp
    qed (use assms(2) Some in \<open>auto simp: Svc_CreateCourse_def guard_def Let_def split: if_splits\<close>)
  qed (use assms(2) in \<open>auto simp: Svc_CreateCourse_def\<close>)
  then show ?thesis
  proof (elim disjE exE)
    fix u i assume a': "fst (case AddUser E (svc_db a1) (m u i) of
        (db2, Some e) \<Rightarrow> (with_db a1 db2, Inl (StatusErr Internal ''ADD_USER''))
      | (db2, None) \<Rightarrow>
          (case AddCourse E db2 (m u i) of
             (db3, Some e) \<Rightarrow> (with_db a1 db3, Inl (StatusErr Internal ''ADD_COURSE''))
           | (db3, None) \<Rightarrow> (with_db a1 db3, Inr (i, course)))) = a'"
    obtain db2 r2 where 2: "AddUser E (svc_db a1) (m u i) = (db2, r2)" by (cases "AddUser E (svc_db a1) (m u i)")
    from AddUser_AddCourse [OF 2] show ?thesis
    proof (elim disjE conjE exE)
      assume "r2 \<noteq> None" "db2 = svc_db a1"
      then show ?thesis using a' 2 ok1 by auto
    next
      fix db3 assume *: "r2 = None" "AddCourse E db2 (m u i) = (db3, None)"
        "\<forall>ms. rosters E view (svc_db a1) ms \<longrightarrow>
          rosters E view db3 (ms((Member_CourseId (m u i), Member_UserId (m u i)) \<mapsto> m u i))"
      then have "a' = with_db a1 db3" using a' 2 by simp
      then show ?thesis using roster_ok_with_db [OF ok1] *(3) by metis
    qed
  qed (use assms(1) ok1 in simp_all)
qed

lemma course_step_ok: "course_step E a a' \<Longrightarrow> roster_ok E view a \<Longrightarrow> roster_ok E view a'"
  by (induction rule: course_step.induct)
    (blast intro: UpdateCourseMember_ok Svc_UpdateCourse_ok AddCourseMembers_ok RemoveCourseMembers_ok CreateCourse_ok
      JoinCourse_ok GenerateJoinCode_ok ChangeAllowsJoinCourse_ok UpdateAssignment_ok CreateAssignment_ok
      leaderboard_steps_ok)+

lemma course_run_ok: "course_run E a a' \<Longrightarrow> roster_ok E view a \<Longrightarrow> roster_ok E view a'"
  by (induction rule: course_run.induct) (auto intro: course_step_ok)

text \<open>What the reads of the repositories give then.\<close>

lemma member_index_scan:
  assumes idx: "member_index E view K p db ms" and kvs: "piter E db (PrefixIterOptions q) = Inr kvs"
    and sub: "\<And>k. prefix q k \<Longrightarrow> prefix p k"
  shows "\<exists>xs. collect (\<lambda>(k, v). Unmarshal (C_Member E) v) kvs = Inr xs \<and>
    set xs = {m. \<exists>x. prefix q (K x) \<and> ms x = Some m}"
proof -
  note set = iter_prefix [OF kvs]
  have entry: "\<exists>x m. k = K x \<and> ms x = Some m \<and> Unmarshal (C_Member E) v = Inr m" if "(k, v) \<in> set kvs" for k v
  proof -
    have k: "view db k = Some v" "prefix q k" using that set by auto
    then obtain x where x: "k = K x" using member_indexD(2) [OF idx _ sub [OF k(2)]] by auto
    show ?thesis
      by (rule exI [of _ x]) (use member_indexD(1) [OF idx, of x] k(1) x in \<open>auto split: option.splits\<close>)
  qed
  then have "\<forall>kv\<in>set kvs. \<exists>y. (\<lambda>(k, v). Unmarshal (C_Member E) v) kv = Inr y" by fast
  then obtain xs where xs: "collect (\<lambda>(k, v). Unmarshal (C_Member E) v) kvs = Inr xs" using collect_Ex by blast
  have "m \<in> set xs \<longleftrightarrow> (\<exists>x. prefix q (K x) \<and> ms x = Some m)" for m
  proof
    assume "m \<in> set xs"
    then obtain k v where kv: "(k, v) \<in> set kvs" "Unmarshal (C_Member E) v = Inr m"
      using collect_Inr_mem [OF xs] by auto
    then have "prefix q k" using set by auto
    then show "\<exists>x. prefix q (K x) \<and> ms x = Some m" using entry [OF kv(1)] kv(2) by auto
  next
    assume "\<exists>x. prefix q (K x) \<and> ms x = Some m"
    then obtain x where x: "prefix q (K x)" "ms x = Some m" by blast
    then obtain raw where "view db (K x) = Some raw" "Unmarshal (C_Member E) raw = Inr m"
      using member_indexD(1) [OF idx, of x] by auto
    then have "(K x, raw) \<in> set kvs" "(\<lambda>(k, v). Unmarshal (C_Member E) v) (K x, raw) = Inr m"
      using set x(1) by auto
    then show "m \<in> set xs" using collect_Inr_mem [OF xs] by blast
  qed
  then show ?thesis using xs by blast
qed

lemma rosters_reads:
  assumes "rosters E view db ms"
  shows "GetCourseMember E db u c = ms (c, u)"
    and "\<exists>xs. GetUsersByCourse E db c = Inr xs \<and> set xs = {m. \<exists>u. ms (c, u) = Some m}"
    and "\<exists>xs. GetCoursesByUser E db u = Inr xs \<and> set xs = {m. \<exists>c. ms (c, u) = Some m}"
proof -
  have idx: "member_index E view by_course ''course:users:'' db ms" "member_index E view by_user ''user:courses:'' db ms"
    using assms by (auto simp: rosters_def)
  show "GetCourseMember E db u c = ms (c, u)"
    using member_indexD(1) [OF idx(2), of "(c, u)"]
    by (cases "ms (c, u)") (auto simp: GetCourseMember_def get_message_def get_absent get_present by_user_def)
  obtain kvs where 1: "piter E db (PrefixIterOptions (getUserPrefix c)) = Inr kvs" using iter_up by blast
  have "prefix ''course:users:'' k" if "prefix (getUserPrefix c) k" for k
    using that by (auto simp: getUserPrefix_def prefix_def)
  from member_index_scan [OF idx(1) 1 this]
  show "\<exists>xs. GetUsersByCourse E db c = Inr xs \<and> set xs = {m. \<exists>u. ms (c, u) = Some m}"
    by (auto simp: GetUsersByCourse_def 1 by_course_def)
  obtain kvs' where 2: "piter E db (PrefixIterOptions (getCoursePrefix u)) = Inr kvs'" using iter_up by blast
  have "prefix ''user:courses:'' k" if "prefix (getCoursePrefix u) k" for k
    using that by (auto simp: getCoursePrefix_def prefix_def)
  from member_index_scan [OF idx(2) 2 this]
  show "\<exists>xs. GetCoursesByUser E db u = Inr xs \<and> set xs = {m. \<exists>c. ms (c, u) = Some m}"
    by (auto simp: GetCoursesByUser_def 2 by_user_def)
qed

end

context store_up
begin

lemma JoinCourse_Inr:
  assumes "JoinCourse E big code a c = (a', Inr i)"
  shows "\<exists>u course db1. GetCourse E (svc_db a) i = Inr course \<and> Course_AllowsJoin course \<and> Course_JoinCode course = code \<and>
    cx_user c = Some u \<and> GetCourseMember E (svc_db a) (UT_UserId u) i = None \<and>
    AddCourse E (svc_db a) \<lparr>Member_UserId = UT_UserId u, Member_Role = CourseRole_Student, Member_CourseId = i\<rparr> = (db1, None) \<and>
    (\<exists>db2. AddUser E db1 \<lparr>Member_UserId = UT_UserId u, Member_Role = CourseRole_Student, Member_CourseId = i\<rparr> = (db2, None) \<and>
      a' = with_db a db2)"
proof -
  define courseId where "courseId = (case GetCourseIdByJoinCode E (svc_db a) code of Inl e \<Rightarrow> Base30Decode big code | Inr i \<Rightarrow> i)"
  from JoinCourse_cases [OF assms, folded courseId_def] show ?thesis
    by (elim disjE exE conjE) (simp, auto split: prod.splits option.splits)
qed

end

subsection \<open>Properties\<close>

text \<open>
  C36: The two copies of every membership stay one. Start from a state in which they are, for instance a fresh
  database, and run any handlers of the course pages, failing or not: a member record read for a user and a
  course, the members listed for the course and the courses listed for the user are all read off one map, and a
  record always carries the ids of the user and the course it is stored under.
\<close>

theorem rosters_agree:
  assumes "store_up E view" and "roster_ok E view a" and "course_run E a a'"
  shows "\<exists>ms. (\<forall>u c. GetCourseMember E (svc_db a') u c = ms (c, u)) \<and>
    (\<forall>c. \<exists>xs. GetUsersByCourse E (svc_db a') c = Inr xs \<and> set xs = {m. \<exists>u. ms (c, u) = Some m}) \<and>
    (\<forall>u. \<exists>xs. GetCoursesByUser E (svc_db a') u = Inr xs \<and> set xs = {m. \<exists>c. ms (c, u) = Some m}) \<and>
    (\<forall>c u m. ms (c, u) = Some m \<longrightarrow> Member_CourseId m = c \<and> Member_UserId m = u)"
proof -
  have "roster_ok E view a'" by (rule store_up.course_run_ok [OF assms(1,3,2)])
  then obtain ms where ms: "rosters E view (svc_db a') ms" unfolding roster_ok_def by blast
  have "\<forall>c u m. ms (c, u) = Some m \<longrightarrow> Member_CourseId m = c \<and> Member_UserId m = u"
    using ms unfolding rosters_def by blast
  then show ?thesis using store_up.rosters_reads [OF assms(1) ms] by blast
qed

definition course_svc :: "mem_db \<Rightarrow> (mem_db, string \<rightharpoonup> bytes) svc" where
  "course_svc db = (test_svc db)\<lparr>svc_user_seq := first_seq,
     svc_course_seq := \<lparr>seq_key = ''course:next_id'', seq_next = 1, seq_limit = 11\<rparr>,
     svc_assignment_seq := \<lparr>seq_key = ''assignment:next_id'', seq_next = 1, seq_limit = 11\<rparr>\<rparr>"

lemma course_svc_simps [simp]:
  "svc_db (course_svc db) = db" "svc_course_seq (course_svc db) = \<lparr>seq_key = ''course:next_id'', seq_next = 1, seq_limit = 11\<rparr>"
  by (simp_all add: course_svc_def svc_db_def test_svc_def initial_hub_def Let_def)

lemma course_svc_ok:
  assumes "\<And>k v. map_of db k = Some v \<Longrightarrow> \<not> indexed k"
  shows "roster_ok mem_env map_of (course_svc db)"
proof -
  have "map_of db k = None" if "indexed k" for k using assms [of k] that by (cases "map_of db k") auto
  then have "member_index mem_env map_of by_course ''course:users:'' db Map.empty"
    "member_index mem_env map_of by_user ''user:courses:'' db Map.empty"
    by (auto simp: member_index_def indexed_def)
  then have "rosters mem_env map_of db Map.empty" by (simp add: rosters_def)
  then show ?thesis by (auto simp: roster_ok_def course_svc_def first_seq_def)
qed

definition test_user_ctx :: "u64 \<Rightarrow> ctx" where
  "test_user_ctx i = empty_ctx\<lparr>cx_user := Some (test_user i)\<rparr>"

lemma course_made:
  "\<exists>a course. Svc_CreateCourse mem_env ''c'' ''s'' ''d'' (course_svc []) (test_user_ctx 7) = (a, Inr (1, course)) \<and>
     GetCourseMember mem_env (svc_db a) 7 1 = Some \<lparr>Member_UserId = 7, Member_Role = CourseRole_Instructor, Member_CourseId = 1\<rparr>"
proof -
  have user: "cx_user (test_user_ctx 7) = Some (test_user 7)" "UT_UserId (test_user 7) = 7"
    by (simp_all add: test_user_ctx_def test_user_def)
  show ?thesis
    by (simp add: Svc_CreateCourse_def user CreateCourse_def GetNextId_in_batch UpdateCourse_def set_message_def AddUser_def
        AddCourse_def Let_def GetCourseMember_def get_message_def mem_get_def)
qed

theorem rosters_agree_witness:
  "\<exists>a m xs. course_run mem_env (course_svc []) a \<and> GetCourseMember mem_env (svc_db a) 7 1 = Some m \<and>
     GetUsersByCourse mem_env (svc_db a) 1 = Inr xs \<and> m \<in> set xs"
proof -
  obtain a course m where a: "Svc_CreateCourse mem_env ''c'' ''s'' ''d'' (course_svc []) (test_user_ctx 7) = (a, Inr (1, course))"
    and m: "GetCourseMember mem_env (svc_db a) 7 1 = Some m" using course_made by blast
  have run: "course_run mem_env (course_svc []) a"
    by (rule course_run.step [OF course_run.start course_step.CreateCourse [OF a]])
  have "roster_ok mem_env map_of (course_svc [])" by (rule course_svc_ok) simp
  from rosters_agree [OF mem_store_up this run] obtain ms where ms: "\<forall>u c. GetCourseMember mem_env (svc_db a) u c = ms (c, u)"
    "\<forall>c. \<exists>xs. GetUsersByCourse mem_env (svc_db a) c = Inr xs \<and> set xs = {m. \<exists>u. ms (c, u) = Some m}" by blast
  obtain xs where "GetUsersByCourse mem_env (svc_db a) 1 = Inr xs" "set xs = {m. \<exists>u. ms (1, u) = Some m}" using ms(2) by blast
  moreover have "ms (1, 7) = Some m" using ms(1) m by metis
  ultimately show ?thesis using run m by blast
qed

text \<open>
  C37: A course is joined only with its current join code. When \<open>JoinCourse\<close> succeeds, the course allows joining
  and has exactly that code, the caller was not a member before and is a student of it afterwards, and no other
  membership changed.
\<close>

theorem join_makes_student:
  assumes "store_up E view" and "roster_ok E view a" and "JoinCourse E big code a c = (a', Inr i)"
  shows "\<exists>u course. cx_user c = Some u \<and> GetCourse E (svc_db a) i = Inr course \<and> Course_AllowsJoin course \<and>
    Course_JoinCode course = code \<and> GetCourseMember E (svc_db a) (UT_UserId u) i = None \<and>
    (\<forall>v j. GetCourseMember E (svc_db a') v j =
      (if v = UT_UserId u \<and> j = i
       then Some \<lparr>Member_UserId = UT_UserId u, Member_Role = CourseRole_Student, Member_CourseId = i\<rparr>
       else GetCourseMember E (svc_db a) v j))"
proof -
  obtain u course db1 db2 where j: "GetCourse E (svc_db a) i = Inr course" "Course_AllowsJoin course"
    "Course_JoinCode course = code" "cx_user c = Some u" "GetCourseMember E (svc_db a) (UT_UserId u) i = None"
    and w: "AddCourse E (svc_db a) \<lparr>Member_UserId = UT_UserId u, Member_Role = CourseRole_Student, Member_CourseId = i\<rparr> = (db1, None)"
      "AddUser E db1 \<lparr>Member_UserId = UT_UserId u, Member_Role = CourseRole_Student, Member_CourseId = i\<rparr> = (db2, None)"
      "a' = with_db a db2"
    using store_up.JoinCourse_Inr [OF assms(1,3)] by blast
  obtain ms where ms: "rosters E view (svc_db a) ms" using assms(2) unfolding roster_ok_def by blast
  have "rosters E view db2 (ms((i, UT_UserId u) \<mapsto>
      \<lparr>Member_UserId = UT_UserId u, Member_Role = CourseRole_Student, Member_CourseId = i\<rparr>))"
    using store_up.AddCourse_AddUser [OF assms(1) w(1)] w(2) ms by auto
  from store_up.rosters_reads(1) [OF assms(1) this] store_up.rosters_reads(1) [OF assms(1) ms] show ?thesis
    using j w(3) by (intro exI [of _ u] exI [of _ course]) auto
qed

definition open_course :: course where
  "open_course = \<lparr>Course_Name = ''c'', Course_ShortName = ''s'', Course_Term = [], Course_Description = ''d'',
     Course_JoinCode = [], Course_AllowsJoin = True\<rparr>"

theorem join_makes_student_witness:
  "\<exists>a code a'. GenerateJoinCode mem_env 0 (\<lambda>_. 0) 3 (course_svc [(course_getIdKey 3, decimal (to_nat open_course))]) = (a, Inr code) \<and>
     JoinCourse mem_env (\<lambda>_. 0) code a (test_user_ctx 8) = (a', Inr 3) \<and>
     GetCourseMember mem_env (svc_db a') 8 3 =
       Some \<lparr>Member_UserId = 8, Member_Role = CourseRole_Student, Member_CourseId = 3\<rparr>"
proof -
  let ?a = "course_svc [(course_getIdKey 3, decimal (to_nat open_course))]"
  define code where "code = Base30Encode 0 (\<lambda>_. 0) 3"
  define m where "m = \<lparr>Member_UserId = 8, Member_Role = CourseRole_Student, Member_CourseId = 3\<rparr>"
  have user: "cx_user (test_user_ctx 8) = Some (test_user 8)" "UT_UserId (test_user 8) = 8"
    by (simp_all add: test_user_ctx_def test_user_def)
  obtain a where g: "GenerateJoinCode mem_env 0 (\<lambda>_. 0) 3 ?a = (a, Inr code)"
    and db: "a = with_db ?a (svc_db a)" "map_of (svc_db a) = [course_getIdKey 3 \<mapsto> decimal (to_nat (open_course\<lparr>Course_JoinCode := code\<rparr>)),
      getJoinCodeKey code \<mapsto> Uint64ToBytes 3]"
    by (simp add: GenerateJoinCode_def code_def Let_def GetCourse_def get_message_def mem_get_def UpdateCourse_def set_message_def
        BindJoinCode_def open_course_def mem_del_def)
  have "roster_ok mem_env map_of ?a" by (rule course_svc_ok) (auto split: if_splits)
  then have ok: "roster_ok mem_env map_of a"
    by (rule store_up.course_step_ok [OF mem_store_up course_step.GenerateJoinCode [OF g]])
  have reads: "GetCourseIdByJoinCode mem_env (svc_db a) code = Inr 3"
    "GetCourse mem_env (svc_db a) 3 = Inr (open_course\<lparr>Course_JoinCode := code\<rparr>)" "GetCourseMember mem_env (svc_db a) 8 3 = None"
    by (simp_all add: GetCourseIdByJoinCode_def get_id_def GetCourse_def GetCourseMember_def get_message_def mem_get_def db(2)
        course_getIdKey_def getJoinCodeKey_def getCourseKey_def getCoursePrefix_def)
  obtain a' where j: "JoinCourse mem_env (\<lambda>_. 0) code a (test_user_ctx 8) = (a', Inr 3)"
    by (simp add: JoinCourse_def reads user AddCourse_def AddUser_def set_message_def Let_def open_course_def)
  from join_makes_student [OF mem_store_up ok j] user have
    "GetCourseMember mem_env (svc_db a') 8 3 = Some \<lparr>Member_UserId = 8, Member_Role = CourseRole_Student, Member_CourseId = 3\<rparr>"
    by auto
  then show ?thesis using g j by blast
qed

end
