(* ===== verification/DockerGrader.thy ===== *)
theory DockerGrader
  imports Messages Paths Encoding
begin

section \<open>Grading in a container: pkg/grader/programming.go\<close>

text \<open>
  What a grader does with one submission: pull the image, run the container on the files of the submission,
  wait for it, read the results and assemble the report. The Docker client is a parameter: what each of its
  calls answers in this run, and whether the context was cancelled by then.
\<close>

subsection \<open>Truncating outputs\<close>

text \<open>\<open>utf8.RuneStart\<close>: not a continuation byte.\<close>

definition RuneStart :: "char \<Rightarrow> bool" where
  "RuneStart c \<longleftrightarrow> (of_char c :: nat) div 64 \<noteq> 2"

fun head_cut :: "bytes \<Rightarrow> nat \<Rightarrow> nat" where
  "head_cut output 0 = 0"
| "head_cut output (Suc n) = (if \<not> RuneStart (output ! Suc n) then head_cut output n else Suc n)"

function tail_cut :: "bytes \<Rightarrow> nat \<Rightarrow> nat" where
  "tail_cut output n = (if n < length output \<and> \<not> RuneStart (output ! n) then tail_cut output (Suc n) else n)"
  by pat_completeness auto
termination by (relation "measure (\<lambda>(output, n). length output - n)") auto

declare tail_cut.simps [simp del]

text \<open>Go slices \<open>output[:n]\<close> and \<open>output[n:]\<close> are \<open>take\<close> and \<open>drop\<close>; the bounds are within the string.\<close>

definition truncateOutput :: "bytes \<Rightarrow> nat \<Rightarrow> bytes \<Rightarrow> bytes" where
  "truncateOutput output maxLen prompt =
     (if length output \<le> maxLen then output
      else let halfLen = (maxLen - length prompt) div 2
           in if halfLen = 0 then take maxLen output
              else take (head_cut output halfLen) output @ prompt @
                drop (tail_cut output (length output - halfLen)) output)"

definition MaxOutputBytes :: nat where "MaxOutputBytes = 50 * 1024"

text \<open>The log of the container keeps its end.\<close>

definition truncate_log :: "bytes \<Rightarrow> bytes" where
  "truncate_log output =
     (if MaxOutputBytes < length output
      then drop (tail_cut output (length output - MaxOutputBytes)) output else output)"

subsection \<open>The Docker client\<close>

text \<open>A message of the pull progress: the stream breaks, the daemon reports a failure, or progress.\<close>

datatype pull_message = Pull_stream_error error | Pull_failed error | Pull_progress

text \<open>The branch of the \<open>select\<close> that wins.\<close>

datatype wait_event = Wait_error error | Wait_cancelled error | Wait_timeout | Wait_exited

datatype docker_call = Call_ImagePull | Call_JSONMessages | Call_ContainerCreate | Call_ContainerStart
  | Call_ContainerWait

record container_spec =
  CS_Entrypoint :: "string list"
  CS_Image :: string
  CS_WorkingDir :: string
  CS_Mounts :: "(string \<times> string) list"
  CS_CpusetMems :: string
  CS_CpusetCpus :: string
  CS_CPUQuota :: i64
  CS_CPUShares :: i64
  CS_Memory :: i64
  CS_OS :: string
  CS_Name :: string

text \<open>
  The options of \<open>ContainerLogs\<close>: \<open>Follow\<close> keeps the stream open for what the container writes later, and \<open>Tail\<close> is
  the number of lines before that the stream starts with.
\<close>

record log_options =
  LO_Follow :: bool
  LO_Tail :: string
  LO_ShowStderr :: bool
  LO_ShowStdout :: bool

text \<open>\<open>dk_CtxErr\<close> is \<open>ctx.Err()\<close> when it is read after the call failed.\<close>

record docker =
  dk_ImagePull :: "string \<Rightarrow> error + pull_message list"
  dk_ContainerCreate :: "container_spec \<Rightarrow> error + string"
  dk_ContainerStart :: "string \<Rightarrow> error option"
  dk_ContainerWait :: "string \<Rightarrow> time \<Rightarrow> wait_event"
  dk_ContainerInspect :: "string \<Rightarrow> error + i64"
  dk_ContainerLogs :: "log_options \<Rightarrow> string \<Rightarrow> error + (error + bytes)"
  dk_CtxErr :: "docker_call \<Rightarrow> error option"

definition context_Canceled :: error where
  "context_Canceled = ErrOther ''context canceled''"

definition ErrPullImage :: i64 where "ErrPullImage = 1"
definition ErrReadPullImageResponse :: i64 where "ErrReadPullImageResponse = 2"
definition ErrCreateContainer :: i64 where "ErrCreateContainer = 3"
definition ErrStartContainer :: i64 where "ErrStartContainer = 4"
definition ErrWaitContainer :: i64 where "ErrWaitContainer = 5"
definition ErrInspectContainer :: i64 where "ErrInspectContainer = 6"
definition ErrTimeout :: i64 where "ErrTimeout = 7"
definition ErrOpenResultJSON :: i64 where "ErrOpenResultJSON = 8"
definition ErrReadResultJSON :: i64 where "ErrReadResultJSON = 9"
definition ErrUnmarshalResultJSON :: i64 where "ErrUnmarshalResultJSON = 10"

lemmas internal_error_defs = ErrPullImage_def ErrReadPullImageResponse_def ErrCreateContainer_def
  ErrStartContainer_def ErrWaitContainer_def ErrInspectContainer_def ErrTimeout_def
  ErrOpenResultJSON_def ErrReadResultJSON_def ErrUnmarshalResultJSON_def

subsection \<open>runDocker\<close>

text \<open>
  The named results, and what was sent on the two channels of the caller: the container id once it was
  created, and that it was started.
\<close>

record run_result =
  RR_internalError :: i64
  RR_exitCode :: i64
  RR_resultsJSONPath :: string
  RR_delete :: bool
  RR_containerId :: string
  RR_err :: "error option"
  RR_started :: bool

definition no_result :: run_result where
  "no_result = \<lparr>RR_internalError = 0, RR_exitCode = 0, RR_resultsJSONPath = [], RR_delete = False,
     RR_containerId = [], RR_err = None, RR_started = False\<rparr>"

text \<open>A call failed: a cancelled context hides the error of the call.\<close>

definition call_failed :: "docker \<Rightarrow> docker_call \<Rightarrow> i64 \<Rightarrow> error \<Rightarrow> run_result \<Rightarrow> run_result" where
  "call_failed D call code e r =
     (case dk_CtxErr D call of
        Some c \<Rightarrow> r\<lparr>RR_err := Some c\<rparr>
      | None \<Rightarrow> r\<lparr>RR_internalError := code, RR_err := Some e\<rparr>)"

fun pull_outcome :: "pull_message list \<Rightarrow> (error + error) option" where
  "pull_outcome [] = None"
| "pull_outcome (Pull_stream_error e # ms) = Some (Inl e)"
| "pull_outcome (Pull_failed e # ms) = Some (Inr e)"
| "pull_outcome (Pull_progress # ms) = pull_outcome ms"

definition run_dir :: "string \<Rightarrow> u64 \<Rightarrow> string" where
  "run_dir basePath submissionId = path_Join [basePath, ''runs/submissions/'' @ id_text submissionId]"

text \<open>
  The timeout is a \<open>time.Duration\<close>, 64 bits of nanoseconds; \<open>time.NewTicker\<close> panics unless it is positive.
\<close>

definition grade_timeout :: "programming_config \<Rightarrow> i64" where
  "grade_timeout config =
     (if 0 < sint (Config_Timeout config) then Config_Timeout config * 1000000000
      else 5 * 60 * 1000000000)"

text \<open>
  \<open>cpu\<close> is the CPU quota and the shares that the \<open>cpu\<close> field of the configuration rounds to, when it is
  positive.
\<close>

definition container_of ::
    "string \<Rightarrow> u64 \<Rightarrow> submission \<Rightarrow> programming_config \<Rightarrow> (i64 \<times> i64) option \<Rightarrow> string \<Rightarrow> string \<Rightarrow> container_spec" where
  "container_of basePath submissionId sub config cpu cpusetMems cpusetCpus =
     \<lparr>CS_Entrypoint = [''sh'', ''-c'', ''/autograder/run''], CS_Image = Config_Image config,
      CS_WorkingDir = ''/autograder'',
      CS_Mounts = [(path_Join [basePath, Submission_Path sub], ''/autograder/submission''),
        (path_Join [run_dir basePath submissionId, ''results''], ''/autograder/results'')],
      CS_CpusetMems = cpusetMems, CS_CpusetCpus = cpusetCpus,
      CS_CPUQuota = (case cpu of None \<Rightarrow> 0 | Some (q, s) \<Rightarrow> q),
      CS_CPUShares = (case cpu of None \<Rightarrow> 0 | Some (q, s) \<Rightarrow> s),
      CS_Memory = (if 0 < sint (Config_Memory config) then Config_Memory config else 0),
      CS_OS = ''linux'', CS_Name = ''submission-'' @ id_text submissionId\<rparr>"

text \<open>The directories of the run are made afresh; errors are not looked at.\<close>

definition make_run_dirs :: "'fs os \<Rightarrow> string \<Rightarrow> u64 \<Rightarrow> 'fs \<Rightarrow> 'fs" where
  "make_run_dirs S basePath submissionId fs =
     (let runDir = run_dir basePath submissionId;
          resultsDir = path_Join [runDir, ''results''];
          fs1 = fst (os_RemoveAll S fs runDir);
          fs2 = fst (os_MkdirAll S fs1 runDir);
          fs3 = fst (os_MkdirAll S fs2 resultsDir)
      in fst (os_MkdirAll S fs3 (path_Join [resultsDir, ''outputs''])))"

text \<open>From \<open>ContainerStart\<close> on.\<close>

definition run_container :: "docker \<Rightarrow> programming_config \<Rightarrow> run_result \<Rightarrow> run_result" where
  "run_container D config r =
     (case dk_ContainerStart D (RR_containerId r) of
        Some e \<Rightarrow> call_failed D Call_ContainerStart ErrStartContainer e r
      | None \<Rightarrow>
          let r1 = r\<lparr>RR_started := True\<rparr>; timeout = sint (grade_timeout config)
          in if timeout \<le> 0 then r1\<lparr>RR_err := Some Panic\<rparr>
             else (case dk_ContainerWait D (RR_containerId r) timeout of
                Wait_error e \<Rightarrow> call_failed D Call_ContainerWait ErrWaitContainer e r1
              | Wait_cancelled c \<Rightarrow> r1\<lparr>RR_err := Some c\<rparr>
              | Wait_timeout \<Rightarrow> r1\<lparr>RR_internalError := ErrTimeout\<rparr>
              | Wait_exited \<Rightarrow>
                  (case dk_ContainerInspect D (RR_containerId r) of
                     Inl e \<Rightarrow> r1\<lparr>RR_internalError := ErrInspectContainer, RR_err := Some e\<rparr>
                   | Inr exitCode \<Rightarrow> r1\<lparr>RR_exitCode := exitCode\<rparr>)))"

definition runDocker ::
    "docker \<Rightarrow> 'fs os \<Rightarrow> string \<Rightarrow> u64 \<Rightarrow> submission \<Rightarrow> programming_config \<Rightarrow> (i64 \<times> i64) option \<Rightarrow>
      string \<Rightarrow> string \<Rightarrow> 'fs \<Rightarrow> 'fs \<times> run_result" where
  "runDocker D S basePath submissionId sub config cpu cpusetMems cpusetCpus fs =
     (case dk_ImagePull D (Config_Image config) of
        Inl e \<Rightarrow> (fs, call_failed D Call_ImagePull ErrPullImage e no_result)
      | Inr messages \<Rightarrow>
          (case pull_outcome messages of
             Some (Inr e) \<Rightarrow> (fs, no_result\<lparr>RR_internalError := ErrPullImage, RR_err := Some e\<rparr>)
           | Some (Inl e) \<Rightarrow> (fs, call_failed D Call_JSONMessages ErrReadPullImageResponse e no_result)
           | None \<Rightarrow>
               let fs1 = make_run_dirs S basePath submissionId fs;
                   r = no_result\<lparr>RR_resultsJSONPath :=
                     path_Join [run_dir basePath submissionId, ''results'', ''results.json'']\<rparr>
               in (case dk_ContainerCreate D
                       (container_of basePath submissionId sub config cpu cpusetMems cpusetCpus) of
                     Inl e \<Rightarrow> (fs1, call_failed D Call_ContainerCreate ErrCreateContainer e r)
                   | Inr containerId \<Rightarrow>
                       (fs1, run_container D config (r\<lparr>RR_containerId := containerId, RR_delete := True\<rparr>)))))"

subsection \<open>GradeSubmission\<close>

text \<open>
  Reading \<open>results.json\<close> and parsing it. \<open>protojson.Unmarshal\<close> may fill some fields before it fails.
\<close>

record results_lib =
  rl_ReadAll :: "bytes \<Rightarrow> error + bytes"
  rl_Unmarshal :: "bytes \<Rightarrow> submission_report \<times> error option"

definition empty_report :: submission_report where
  "empty_report = \<lparr>Report_SubmissionId = 0, Report_Score = 0, Report_MaxScore = 0, Report_Output = [],
     Report_Tests = [], Report_Leaderboard = [], Report_ExitCode = 0, Report_InternalError = 0\<rparr>"

definition truncate_prompt :: bytes where
  "truncate_prompt = [CHR 0x0A] @ ''...truncated...'' @ [CHR 0x0A]"

text \<open>The scores of the tests are added up, and their outputs truncated, when the results have no score.\<close>

definition score_tests :: "submission_report \<Rightarrow> submission_report" where
  "score_tests results =
     (if Report_Score results = 0 then
        results\<lparr>Report_Tests := map (\<lambda>t. t\<lparr>Testcase_Output :=
            truncateOutput (Testcase_Output t) MaxOutputBytes truncate_prompt\<rparr>) (Report_Tests results),
          Report_Score := sum_list (map Testcase_Score (Report_Tests results)),
          Report_MaxScore := sum_list (map Testcase_MaxScore (Report_Tests results))\<rparr>
      else results)"

definition read_results ::
    "results_lib \<Rightarrow> 'fs os \<Rightarrow> 'fs \<Rightarrow> string \<Rightarrow> i64 \<Rightarrow> submission_report \<times> i64" where
  "read_results R S fs resultsJSONPath internalError =
     (if internalError \<noteq> 0 then (empty_report, internalError)
      else (case os_Open S fs resultsJSONPath of
              Inl e \<Rightarrow> (empty_report, ErrOpenResultJSON)
            | Inr resultsJSON \<Rightarrow>
                (case rl_ReadAll R resultsJSON of
                   Inl e \<Rightarrow> (empty_report, ErrReadResultJSON)
                 | Inr json \<Rightarrow>
                     (case rl_Unmarshal R json of
                        (results, Some e) \<Rightarrow> (results, ErrUnmarshalResultJSON)
                      | (results, None) \<Rightarrow> (score_tests results, 0)))))"

definition container_log :: "docker \<Rightarrow> string \<Rightarrow> bytes \<Rightarrow> bytes" where
  "container_log D containerId output =
     (case dk_ContainerLogs D \<lparr>LO_Follow = False, LO_Tail = ''300'', LO_ShowStderr = True, LO_ShowStdout = True\<rparr> containerId of
        Inr (Inr d) \<Rightarrow> truncate_log d
      | _ \<Rightarrow> output)"

text \<open>What \<open>GradeSubmission\<close> sends last: the report of the run, or that it was cancelled.\<close>

definition brief_of :: "submission_report \<Rightarrow> submission_brief_report" where
  "brief_of results = \<lparr>Brief_Score = Report_Score results, Brief_MaxScore = Report_MaxScore results,
     Brief_ExitCode = Report_ExitCode results, Brief_InternalError = Report_InternalError results,
     Brief_Status = (if Report_InternalError results \<noteq> 0 then SubmissionStatus_Failed else SubmissionStatus_Finished)\<rparr>"

definition status_report :: "submission_status \<Rightarrow> grade_report" where
  "status_report st = GradeReport None (Some \<lparr>Brief_Score = 0, Brief_MaxScore = 0, Brief_ExitCode = 0,
     Brief_InternalError = 0, Brief_Status = st\<rparr>) None None"

definition final_report :: "docker \<Rightarrow> results_lib \<Rightarrow> 'fs os \<Rightarrow> 'fs \<Rightarrow> run_result \<Rightarrow> grade_report" where
  "final_report D R S fs r =
     (if RR_err r = Some context_Canceled then status_report SubmissionStatus_Cancelled
      else case read_results R S fs (RR_resultsJSONPath r) (RR_internalError r) of
        (results, internalError) \<Rightarrow>
          let results' = results\<lparr>Report_Output := container_log D (RR_containerId r) (Report_Output results),
                Report_InternalError := internalError, Report_ExitCode := RR_exitCode r\<rparr>
          in GradeReport (Some results') (Some (brief_of results')) None None)"

text \<open>
  At most \<open>concurrency\<close> submissions run at a time: a call waits (\<open>None\<close>) until it can take a place, and gives
  it back at the end.
\<close>

record docker_grader =
  dg_concurrency :: nat
  dg_running :: nat

definition grade_acquire :: "docker_grader \<Rightarrow> docker_grader option" where
  "grade_acquire d = (if dg_concurrency d \<le> dg_running d then None else Some (d\<lparr>dg_running := dg_running d + 1\<rparr>))"

definition grade_release :: "docker_grader \<Rightarrow> docker_grader" where
  "grade_release d = d\<lparr>dg_running := dg_running d - 1\<rparr>"

text \<open>
  The main goroutine of \<open>GradeSubmission\<close> as the sequence of its channel operations: sending on \<open>notifyC\<close>,
  handing the id and the start of the container to the helper goroutine, closing the two channels (the
  deferred calls of \<open>runDocker\<close>), and closing \<open>notifyC\<close>. A panic in \<open>runDocker\<close> ends the program.
\<close>

datatype main_act = Main_notify grade_report | Main_container string | Main_started | Main_close_channels
  | Main_close_notify

definition GradeSubmission_acts ::
    "docker \<Rightarrow> results_lib \<Rightarrow> 'fs os \<Rightarrow> string \<Rightarrow> u64 \<Rightarrow> submission \<Rightarrow> programming_config \<Rightarrow>
      (i64 \<times> i64) option \<Rightarrow> string \<Rightarrow> string \<Rightarrow> ('fs \<Rightarrow> 'fs) \<Rightarrow> 'fs \<Rightarrow> error + main_act list" where
  "GradeSubmission_acts D R S basePath submissionId sub config cpu cpusetMems cpusetCpus container fs =
     (case runDocker D S basePath submissionId sub config cpu cpusetMems cpusetCpus fs of
        (fs1, r) \<Rightarrow>
          if RR_err r = Some Panic then Inl Panic
          else Inr ([Main_notify (status_report SubmissionStatus_Running)] @
            (if RR_delete r then [Main_container (RR_containerId r)] else []) @
            (if RR_started r then [Main_started] else []) @
            [Main_close_channels, Main_notify (final_report D R S (container fs1) r), Main_close_notify]))"

text \<open>
  The helper goroutine: it waits for the id of the container, reports that it was created, waits for its
  start and reports that. A send on the closed channel panics.
\<close>

datatype helper = Helper_wait | Helper_created string | Helper_wait_start string | Helper_started string
  | Helper_done | Helper_panic

definition docker_report :: "u64 \<Rightarrow> string \<Rightarrow> bool \<Rightarrow> grade_report" where
  "docker_report submissionId containerId started =
     GradeReport None None (Some \<lparr>Docker_SubmissionId = submissionId, Docker_ContainerId = containerId,
       Docker_Started = started, Docker_Created = True\<rparr>) None"

text \<open>
  The two goroutines and the receiver of \<open>notifyC\<close>, which takes what is sent: the acts the main one has left,
  the helper, whether the container channels and \<open>notifyC\<close> are closed, and the reports received.
\<close>

type_synonym grading = "main_act list \<times> helper \<times> bool \<times> bool \<times> grade_report list"

inductive grading_step :: "u64 \<Rightarrow> grading \<Rightarrow> grading \<Rightarrow> bool" for i :: u64 where
  main_notify: "grading_step i (Main_notify r # ms, h, cc, False, out) (ms, h, cc, False, out @ [r])"
| hand_container: "c \<noteq> [] \<Longrightarrow>
    grading_step i (Main_container c # ms, Helper_wait, cc, nc, out) (ms, Helper_created c, cc, nc, out)"
| hand_empty: "grading_step i (Main_container [] # ms, Helper_wait, cc, nc, out) (ms, Helper_done, cc, nc, out)"
| hand_start: "grading_step i (Main_started # ms, Helper_wait_start c, cc, nc, out) (ms, Helper_started c, cc, nc, out)"
| close_channels: "grading_step i (Main_close_channels # ms, h, cc, nc, out) (ms, h, True, nc, out)"
| close_notify: "grading_step i (Main_close_notify # ms, h, cc, nc, out) (ms, h, cc, True, out)"
| helper_no_container: "grading_step i (ms, Helper_wait, True, nc, out) (ms, Helper_done, True, nc, out)"
| helper_no_start: "grading_step i (ms, Helper_wait_start c, True, nc, out) (ms, Helper_done, True, nc, out)"
| helper_created: "grading_step i (ms, Helper_created c, cc, False, out)
    (ms, Helper_wait_start c, cc, False, out @ [docker_report i c False])"
| helper_started: "grading_step i (ms, Helper_started c, cc, False, out)
    (ms, Helper_done, cc, False, out @ [docker_report i c True])"
| created_panics: "grading_step i (ms, Helper_created c, cc, True, out) (ms, Helper_panic, cc, True, out)"
| started_panics: "grading_step i (ms, Helper_started c, cc, True, out) (ms, Helper_panic, cc, True, out)"

inductive_cases grading_stepE: "grading_step i s s'"

definition grading_start :: "main_act list \<Rightarrow> grading" where
  "grading_start ms = (ms, Helper_wait, False, False, [])"

text \<open>Only the last 300 lines and what follows them are asked for.\<close>

definition Docker_StreamLog :: "docker \<Rightarrow> string \<Rightarrow> error + (error + bytes)" where
  "Docker_StreamLog D containerId =
     dk_ContainerLogs D \<lparr>LO_Follow = True, LO_Tail = ''300'', LO_ShowStderr = True, LO_ShowStdout = True\<rparr> containerId"

definition Docker_PullImage :: "docker \<Rightarrow> string \<Rightarrow> error option" where
  "Docker_PullImage D imageRef =
     (case dk_ImagePull D imageRef of
        Inl e \<Rightarrow> Some e
      | Inr messages \<Rightarrow> (case pull_outcome messages of None \<Rightarrow> None | Some (Inl e) \<Rightarrow> Some e | Some (Inr e) \<Rightarrow> Some e))"

subsection \<open>Well-formed UTF-8\<close>

text \<open>The byte sequences of one character, as the Unicode standard tabulates them.\<close>

definition continuation :: "nat \<Rightarrow> bool" where
  "continuation b \<longleftrightarrow> 128 \<le> b \<and> b \<le> 191"

fun rune_bytes :: "nat list \<Rightarrow> bool" where
  "rune_bytes [a] = (a \<le> 127)"
| "rune_bytes [a, b] = (194 \<le> a \<and> a \<le> 223 \<and> continuation b)"
| "rune_bytes [a, b, c] =
     (224 \<le> a \<and> a \<le> 239 \<and> continuation b \<and> continuation c \<and> (a = 224 \<longrightarrow> 160 \<le> b) \<and> (a = 237 \<longrightarrow> b \<le> 159))"
| "rune_bytes [a, b, c, d] =
     (240 \<le> a \<and> a \<le> 244 \<and> continuation b \<and> continuation c \<and> continuation d \<and>
      (a = 240 \<longrightarrow> 144 \<le> b) \<and> (a = 244 \<longrightarrow> b \<le> 143))"
| "rune_bytes bs = False"

definition is_rune :: "bytes \<Rightarrow> bool" where
  "is_rune r \<longleftrightarrow> rune_bytes (map of_char r)"

definition utf8 :: "bytes \<Rightarrow> bool" where
  "utf8 s \<longleftrightarrow> (\<exists>rs. s = concat rs \<and> (\<forall>r \<in> set rs. is_rune r))"

lemma is_rune_start:
  assumes "is_rune r"
  shows "r \<noteq> []" and "\<And>n. 0 < n \<Longrightarrow> n < length r \<Longrightarrow> \<not> RuneStart (r ! n)"
proof -
  have cont: "\<not> RuneStart c" if "continuation (of_char c)" for c
    using that by (auto simp: continuation_def RuneStart_def)
  show "r \<noteq> []" using assms by (auto simp: is_rune_def)
  fix n :: nat
  assume n: "0 < n" "n < length r"
  have "\<forall>c \<in> set (tl r). continuation (of_char c)"
    using assms by (cases "map of_char r :: nat list" rule: rune_bytes.cases) (auto simp: is_rune_def map_eq_Cons_conv)
  moreover have "r ! n \<in> set (tl r)" using n by (cases r) (auto simp: nth_Cons')
  ultimately show "\<not> RuneStart (r ! n)" using cont by blast
qed

text \<open>A well-formed text may be cut in front of any byte that starts a character, and at its end.\<close>

lemma utf8_cut:
  assumes "\<forall>r \<in> set rs. is_rune r" and "n \<le> length (concat rs)"
    and "n = 0 \<or> n = length (concat rs) \<or> RuneStart (concat rs ! n)"
  shows "utf8 (take n (concat rs)) \<and> utf8 (drop n (concat rs))"
  using assms
proof (induction rs arbitrary: n)
  case (Cons r rs)
  have nil: "utf8 []" unfolding utf8_def by (rule exI [of _ "[]"]) simp
  have whole: "utf8 (concat (r # rs))" unfolding utf8_def using Cons.prems(1) by blast
  consider "n = 0" | "0 < n" "n < length r" | "length r \<le> n" by linarith
  then show ?case
  proof cases
    case 1
    then show ?thesis using nil whole by simp
  next
    case 2
    then have "concat (r # rs) ! n = r ! n" by (simp add: nth_append)
    then show ?thesis using Cons.prems(1, 3) is_rune_start(2) 2 by auto
  next
    case 3
    let ?m = "n - length r"
    have split: "take n (concat (r # rs)) = r @ take ?m (concat rs)" "drop n (concat (r # rs)) = drop ?m (concat rs)"
      using 3 by simp_all
    have "?m = 0 \<or> ?m = length (concat rs) \<or> RuneStart (concat rs ! ?m)"
      using Cons.prems(3) 3 by (auto simp: nth_append)
    then have "utf8 (take ?m (concat rs)) \<and> utf8 (drop ?m (concat rs))"
      using Cons.IH [of ?m] Cons.prems(1, 2) 3 by auto
    moreover have "utf8 (r @ x)" if "utf8 x" for x
      using that Cons.prems(1) unfolding utf8_def by (metis concat.simps(2) list.set_intros(1) set_ConsD)
    ultimately show ?thesis unfolding split by blast
  qed
qed (auto simp: utf8_def intro: exI [of _ "[]"])

lemma utf8_take_drop:
  assumes "utf8 s" and "n \<le> length s" and "n = 0 \<or> n = length s \<or> RuneStart (s ! n)"
  shows "utf8 (take n s)" and "utf8 (drop n s)"
  using assms utf8_cut unfolding utf8_def by blast+

lemma utf8_append: "utf8 a \<Longrightarrow> utf8 b \<Longrightarrow> utf8 (a @ b)"
  unfolding utf8_def by (metis concat_append Un_iff set_append)

lemma head_cut: "head_cut s n \<le> n \<and> (head_cut s n = 0 \<or> RuneStart (s ! head_cut s n))"
  by (induction n) auto

lemma tail_cut: "n \<le> length s \<Longrightarrow> n \<le> tail_cut s n \<and> tail_cut s n \<le> length s \<and>
    (tail_cut s n = length s \<or> RuneStart (s ! tail_cut s n))"
proof (induction s n rule: tail_cut.induct)
  case (1 s n)
  then show ?case
    by (cases "n < length s \<and> \<not> RuneStart (s ! n)") (auto simp: tail_cut.simps [of s n] Suc_le_eq)
qed

lemma rune_length: "is_rune r \<Longrightarrow> length r \<le> 4 \<and> r \<noteq> [] \<and> RuneStart (r ! 0)"
proof -
  assume r: "is_rune r"
  have start: "RuneStart c" if "(of_char c :: nat) \<le> 127 \<or> 192 \<le> (of_char c :: nat)" for c
    using that by (auto simp: RuneStart_def)
  show ?thesis
    using r by (cases "map of_char r :: nat list" rule: rune_bytes.cases)
      (auto simp: is_rune_def map_eq_Cons_conv intro!: start)
qed

text \<open>Of four bytes in a row in well-formed text one starts a character.\<close>

lemma utf8_start_near:
  assumes "utf8 s" and "i + 4 \<le> length s"
  shows "\<exists>j. i \<le> j \<and> j < i + 4 \<and> RuneStart (s ! j)"
proof -
  obtain rs where "s = concat rs" "\<forall>r \<in> set rs. is_rune r" using assms(1) by (auto simp: utf8_def)
  then show ?thesis
    using assms(2)
  proof (induction rs arbitrary: s i)
    case (Cons r rs)
    have r: "length r \<le> 4" "r \<noteq> []" "RuneStart (r ! 0)" using rune_length [of r] Cons.prems(2) by simp_all
    consider (start) "i = 0" | (inside) "0 < i" "i < length r" | (behind) "length r \<le> i" by linarith
    then show ?case
    proof cases
      case start
      then show ?thesis using r(2,3) by (intro exI [of _ 0]) (simp add: Cons.prems(1) nth_append)
    next
      case inside
      then obtain r2 rs2 where "rs = r2 # rs2" using Cons.prems(1,3) r(1) by (cases rs) auto
      moreover from this have "r2 \<noteq> []" "RuneStart (r2 ! 0)" using rune_length [of r2] Cons.prems(2) by simp_all
      ultimately show ?thesis
        using inside r(1) by (intro exI [of _ "length r"]) (simp add: Cons.prems(1) nth_append)
    next
      case behind
      then have "i - length r + 4 \<le> length (concat rs)" using Cons.prems(1,3) by simp
      with Cons.IH [OF refl, of "i - length r"] Cons.prems(2)
      obtain j where "i - length r \<le> j" "j < i - length r + 4" "RuneStart (concat rs ! j)" by (metis list.set_intros(2))
      then show ?thesis
        using behind by (intro exI [of _ "length r + j"]) (auto simp: Cons.prems(1) nth_append)
    qed
  qed simp
qed

lemma head_cut_between: "head_cut s n < j \<Longrightarrow> j \<le> n \<Longrightarrow> \<not> RuneStart (s ! j)"
  by (induction n) (auto simp: le_Suc_eq split: if_splits)

lemma tail_cut_between: "n \<le> j \<Longrightarrow> j < tail_cut s n \<Longrightarrow> \<not> RuneStart (s ! j)"
proof (induction s n rule: tail_cut.induct)
  case (1 s n)
  then show ?case
    by (cases "n < length s \<and> \<not> RuneStart (s ! n)")
      (cases "n = j", auto simp: tail_cut.simps [of s n] Suc_le_eq)
qed

text \<open>So a cut moves by three bytes at most.\<close>

lemma head_cut_near:
  assumes "utf8 s" and "n < length s"
  shows "n \<le> head_cut s n + 3"
proof (rule ccontr)
  assume "\<not> n \<le> head_cut s n + 3"
  then have n: "head_cut s n + 4 \<le> n" by simp
  then obtain j where "n - 3 \<le> j" "j < n - 3 + 4" "RuneStart (s ! j)"
    using utf8_start_near [OF assms(1), of "n - 3"] assms(2) by auto
  then show False using head_cut_between [of s n j] n by auto
qed

lemma tail_cut_near:
  assumes "utf8 s" and "n \<le> length s"
  shows "tail_cut s n \<le> n + 3"
proof (rule ccontr)
  assume "\<not> tail_cut s n \<le> n + 3"
  then have n: "n + 4 \<le> tail_cut s n" by simp
  then obtain j where "n \<le> j" "j < n + 4" "RuneStart (s ! j)"
    using utf8_start_near [OF assms(1), of n] tail_cut [OF assms(2)] by (meson order_trans)
  then show False using tail_cut_between [of n j s] n by auto
qed

lemma truncateOutput_shape:
  assumes "utf8 output" and "maxLen < length output" and "length prompt + 2 \<le> maxLen"
  shows "\<exists>front gap rest. output = front @ gap @ rest \<and> truncateOutput output maxLen prompt = front @ prompt @ rest \<and>
    utf8 front \<and> utf8 rest \<and> length front + length prompt + length rest \<le> maxLen \<and>
    (maxLen - length prompt) div 2 \<le> length front + 3 \<and> (maxLen - length prompt) div 2 \<le> length rest + 3"
proof -
  define half where "half = (maxLen - length prompt) div 2"
  have half: "0 < half" "half < length output" "2 * half + length prompt \<le> maxLen"
    using assms(2,3) by (auto simp: half_def)
  have n: "length output - half \<le> length output" by simp
  define h t where "h = head_cut output half" and "t = tail_cut output (length output - half)"
  have h: "h \<le> half" "h = 0 \<or> RuneStart (output ! h)" "half \<le> h + 3"
    using head_cut [of "output" half] head_cut_near [OF assms(1) half(2)] by (simp_all add: h_def)
  have t: "length output - half \<le> t" "t \<le> length output" "t = length output \<or> RuneStart (output ! t)"
    "t \<le> length output - half + 3"
    using tail_cut [OF n] tail_cut_near [OF assms(1) n] by (simp_all add: t_def)
  have "h \<le> t" using h(1) t(1) half assms(2) by linarith
  then have "output = take h output @ drop h (take t output) @ drop t output"
    by (metis append.assoc append_take_drop_id min.absorb1 take_take)
  moreover have "truncateOutput output maxLen prompt = take h output @ prompt @ drop t output"
    using assms(2) half(1) by (simp add: truncateOutput_def Let_def h_def t_def flip: half_def)
  moreover have "utf8 (take h output)" using utf8_take_drop(1) [OF assms(1), of h] h(1,2) half(2) by linarith
  moreover have "length (take h output) + length prompt + length (drop t output) \<le> maxLen"
    "half \<le> length (take h output) + 3" "half \<le> length (drop t output) + 3"
    using h t half by simp_all
  moreover have "utf8 (drop t output)" using utf8_take_drop(2) [OF assms(1) t(2)] t(3) by blast
  ultimately show ?thesis
    unfolding half_def [symmetric] by blast
qed

lemma truncate_log_shape:
  assumes "utf8 output"
  shows "utf8 (truncate_log output) \<and> length (truncate_log output) \<le> MaxOutputBytes \<and>
    suffix (truncate_log output) output \<and> min (length output) MaxOutputBytes \<le> length (truncate_log output) + 3"
proof (cases "MaxOutputBytes < length output")
  case True
  let ?n = "length output - MaxOutputBytes"
  have "?n \<le> length output" by simp
  note cut = tail_cut [OF this] tail_cut_near [OF assms this]
  have "utf8 (drop (tail_cut output ?n) output)" using utf8_take_drop(2) assms cut(1) by blast
  then show ?thesis using True cut by (auto simp: truncate_log_def suffix_drop)
qed (use assms in \<open>auto simp: truncate_log_def\<close>)

subsection \<open>The two goroutines of a grading\<close>

fun acts_ok :: "main_act list \<Rightarrow> bool" where
  "acts_ok [] = True"
| "acts_ok (Main_notify r # ms) = acts_ok ms"
| "acts_ok (Main_container c # ms) = (c \<noteq> [] \<and> (\<forall>d. Main_container d \<notin> set ms) \<and> acts_ok ms)"
| "acts_ok (Main_started # ms) = ((\<forall>d. Main_container d \<notin> set ms) \<and> Main_started \<notin> set ms \<and> acts_ok ms)"
| "acts_ok (Main_close_channels # ms) = ((\<forall>d. Main_container d \<notin> set ms) \<and> Main_started \<notin> set ms \<and> acts_ok ms)"
| "acts_ok (Main_close_notify # ms) = (ms = [])"

definition has_brief :: "grade_report \<Rightarrow> bool" where
  "has_brief r \<longleftrightarrow> GR_Brief r \<noteq> None"

fun notified :: "main_act list \<Rightarrow> grade_report list" where
  "notified [] = []"
| "notified (Main_notify r # ms) = r # notified ms"
| "notified (m # ms) = notified ms"

text \<open>
  What holds between two steps: \<open>notifyC\<close> is closed last, the helper waits for an id that is still to come
  and for a start that is still to come, and the reports with a status are those of the main goroutine.
\<close>

definition grading_inv :: "grade_report list \<Rightarrow> grading \<Rightarrow> bool" where
  "grading_inv rs = (\<lambda>(ms, h, cc, nc, out).
     acts_ok ms \<and> (if nc then ms = [] else Main_close_notify \<in> set ms) \<and>
     (cc \<longrightarrow> (\<forall>d. Main_container d \<notin> set ms) \<and> Main_started \<notin> set ms) \<and>
     ((\<exists>c. Main_container c \<in> set ms) \<longrightarrow> h = Helper_wait) \<and>
     (Main_started \<in> set ms \<longrightarrow> (\<exists>c. Main_container c \<in> set ms) \<or>
        (\<exists>c. h = Helper_created c \<or> h = Helper_wait_start c)) \<and>
     filter has_brief out @ filter has_brief (notified ms) = rs)"

lemma docker_report_brief [simp]: "\<not> has_brief (docker_report i c st)"
  by (simp add: has_brief_def docker_report_def)

lemma grading_step_inv: "grading_step i s s' \<Longrightarrow> grading_inv rs s \<Longrightarrow> grading_inv rs s'"
  by (induction rule: grading_step.induct) (auto simp: grading_inv_def)

fun helper_work :: "helper \<Rightarrow> nat" where
  "helper_work Helper_wait = 1"
| "helper_work (Helper_created c) = 2"
| "helper_work (Helper_wait_start c) = 1"
| "helper_work (Helper_started c) = 1"
| "helper_work Helper_done = 0"
| "helper_work Helper_panic = 0"

definition grading_work :: "grading \<Rightarrow> nat" where
  "grading_work = (\<lambda>(ms, h, cc, nc, out). 2 * length ms + helper_work h)"

lemma grading_step_work: "grading_step i s s' \<Longrightarrow> grading_work s' < grading_work s"
  by (induction rule: grading_step.induct) (simp_all add: grading_work_def)

lemma grading_run:
  assumes "(grading_step i ^^ n) s s'" and "grading_inv rs s"
  shows "grading_inv rs s' \<and> grading_work s' + n \<le> grading_work s"
  using assms(1)
proof (induction n arbitrary: s')
  case (Suc n)
  then obtain t where t: "(grading_step i ^^ n) s t" "grading_step i t s'" by auto
  show ?case using Suc.IH [OF t(1)] grading_step_inv [OF t(2)] grading_step_work [OF t(2)] by auto
qed (use assms(2) in simp)

lemma grading_progress:
  assumes "grading_inv rs (ms, h, cc, nc, out)" and "ms \<noteq> []"
  shows "\<exists>s'. grading_step i (ms, h, cc, nc, out) s'"
proof -
  have nc: "nc = False" using assms by (auto simp: grading_inv_def)
  obtain m ms' where ms: "ms = m # ms'" using assms(2) by (cases ms) auto
  show ?thesis
  proof (cases m)
    case (Main_notify r)
    then show ?thesis using ms nc grading_step.main_notify by blast
  next
    case (Main_container c)
    then have "h = Helper_wait" "c \<noteq> []" using assms(1) ms by (auto simp: grading_inv_def)
    then show ?thesis using ms Main_container grading_step.hand_container by blast
  next
    case Main_started
    then obtain c where "h = Helper_created c \<or> h = Helper_wait_start c"
      using assms(1) ms by (auto simp: grading_inv_def)
    then show ?thesis using ms Main_started nc grading_step.helper_created grading_step.hand_start by blast
  next
    case Main_close_channels
    then show ?thesis using ms grading_step.close_channels by blast
  next
    case Main_close_notify
    then show ?thesis using ms grading_step.close_notify by blast
  qed
qed

lemma call_failed_simps [simp]:
  "RR_delete (call_failed D k e x r) = RR_delete r" "RR_containerId (call_failed D k e x r) = RR_containerId r"
  "RR_started (call_failed D k e x r) = RR_started r"
  by (simp_all add: call_failed_def split: option.splits)

lemma run_container_simps [simp]:
  "RR_delete (run_container D config r) = RR_delete r"
  "RR_containerId (run_container D config r) = RR_containerId r"
  by (simp_all add: run_container_def Let_def split: option.splits wait_event.splits sum.splits)

lemma runDocker_created:
  assumes "runDocker D S basePath i sub config cpu mems cpus fs = (fs', r)"
  shows "RR_started r \<longrightarrow> RR_delete r"
    and "RR_delete r \<Longrightarrow> (\<And>spec c. dk_ContainerCreate D spec = Inr c \<Longrightarrow> c \<noteq> []) \<Longrightarrow> RR_containerId r \<noteq> []"
  using assms
  by (auto simp: runDocker_def Let_def no_result_def split: sum.splits option.splits)

lemma GradeSubmission_acts_ok:
  assumes "GradeSubmission_acts D R S basePath i sub config cpu mems cpus container fs = Inr ms"
    and "\<And>spec c. dk_ContainerCreate D spec = Inr c \<Longrightarrow> c \<noteq> []"
  shows "\<exists>fs1 r. runDocker D S basePath i sub config cpu mems cpus fs = (fs1, r) \<and>
    grading_inv [status_report SubmissionStatus_Running, final_report D R S (container fs1) r] (grading_start ms)"
proof -
  obtain fs1 r where run: "runDocker D S basePath i sub config cpu mems cpus fs = (fs1, r)" by fastforce
  have ms: "ms = [Main_notify (status_report SubmissionStatus_Running)] @
      (if RR_delete r then [Main_container (RR_containerId r)] else []) @
      (if RR_started r then [Main_started] else []) @
      [Main_close_channels, Main_notify (final_report D R S (container fs1) r), Main_close_notify]"
    using assms(1) run by (simp add: GradeSubmission_acts_def split: if_splits)
  have "has_brief (status_report st)" for st by (simp add: has_brief_def status_report_def)
  moreover have "has_brief (final_report D R S (container fs1) r)"
    by (auto simp: has_brief_def final_report_def status_report_def Let_def split: prod.splits)
  ultimately have "grading_inv [status_report SubmissionStatus_Running, final_report D R S (container fs1) r] (grading_start ms)"
    using runDocker_created [OF run] assms(2)
    by (auto simp: grading_inv_def grading_start_def ms)
  with run show ?thesis by blast
qed

lemma rtranclp_4: "R a b \<Longrightarrow> R b c \<Longrightarrow> R c d \<Longrightarrow> R d e \<Longrightarrow> R\<^sup>*\<^sup>* a e"
  by (meson converse_rtranclp_into_rtranclp r_into_rtranclp)

text \<open>One step of a run whose end is still to be found.\<close>

lemma step_ex: "R a b \<Longrightarrow> \<exists>s. R\<^sup>*\<^sup>* b s \<and> P s \<Longrightarrow> \<exists>s. R\<^sup>*\<^sup>* a s \<and> P s"
  by (meson converse_rtranclp_into_rtranclp)

lemma relpowp_8:
  assumes "R a0 a1" "R a1 a2" "R a2 a3" "R a3 a4" "R a4 a5" "R a5 a6" "R a6 a7" "R a7 a8"
  shows "(R ^^ 8) a0 a8"
proof -
  have "(R ^^ Suc (Suc (Suc (Suc (Suc (Suc (Suc (Suc 0)))))))) a0 a8"
    by (rule relpowp_Suc_I, rule relpowp_Suc_I, rule relpowp_Suc_I, rule relpowp_Suc_I, rule relpowp_Suc_I,
        rule relpowp_Suc_I, rule relpowp_Suc_I, rule relpowp_Suc_I, rule relpowp_0_I) (rule assms)+
  then show ?thesis by (simp add: eval_nat_numeral)
qed

subsection \<open>A run for the witnesses\<close>

definition test_results :: submission_report where
  "test_results = empty_report\<lparr>Report_Tests := [
     \<lparr>Testcase_Score = 3, Testcase_MaxScore = 5, Testcase_Name = ''a'', Testcase_Output = ''ok'', Testcase_OutputPath = []\<rparr>,
     \<lparr>Testcase_Score = 4, Testcase_MaxScore = 5, Testcase_Name = ''b'', Testcase_Output = ''ok'', Testcase_OutputPath = []\<rparr>]\<rparr>"

definition test_docker :: docker where
  "test_docker = \<lparr>dk_ImagePull = (\<lambda>_. Inr [Pull_progress]), dk_ContainerCreate = (\<lambda>_. Inr ''c1''),
     dk_ContainerStart = (\<lambda>_. None), dk_ContainerWait = (\<lambda>_ _. Wait_exited), dk_ContainerInspect = (\<lambda>_. Inr 0),
     dk_ContainerLogs = (\<lambda>_ _. Inr (Inr ''log'')), dk_CtxErr = (\<lambda>_. None)\<rparr>"

definition test_reader :: results_lib where
  "test_reader = \<lparr>rl_ReadAll = Inr, rl_Unmarshal = (\<lambda>_. (test_results, None))\<rparr>"

definition test_config :: "i64 \<Rightarrow> programming_config" where
  "test_config t = \<lparr>Config_Image = ''img'', Config_FullScore = 10, Config_Memory = 0, Config_Timeout = t, Config_Tags = []\<rparr>"

definition test_sub :: submission where
  "test_sub = \<lparr>Submission_AssignmentId = 1, Submission_SubmittedAt = None, Submission_Submitters = [7],
     Submission_Path = ''uploads/manifests/1'', Submission_Files = [''a''], Submission_LeaderboardName = [],
     Submission_UserId = 7\<rparr>"

text \<open>The container writes its results.\<close>

definition write_results :: "(string \<rightharpoonup> bytes) \<Rightarrow> string \<rightharpoonup> bytes" where
  "write_results fs = fs(''w/runs/submissions/1/results/results.json'' \<mapsto> ''{}'')"

definition test_acts :: "main_act list" where
  "test_acts = [Main_notify (status_report SubmissionStatus_Running), Main_container ''c1'', Main_started,
     Main_close_channels,
     Main_notify (GradeReport (Some ((score_tests test_results)\<lparr>Report_Output := ''log''\<rparr>))
       (Some \<lparr>Brief_Score = 7, Brief_MaxScore = 10, Brief_ExitCode = 0, Brief_InternalError = 0,
          Brief_Status = SubmissionStatus_Finished\<rparr>) None None), Main_close_notify]"

lemma test_paths: "path_Join [run_dir ''w'' 1, ''results'', ''results.json''] = ''w/runs/submissions/1/results/results.json''"
  "Clean ''w/runs/submissions/1/results/results.json'' = ''w/runs/submissions/1/results/results.json''"
  by code_simp+

lemma test_grading:
  "GradeSubmission_acts test_docker test_reader map_os ''w'' 1 test_sub (test_config 60) None [] [] write_results fs =
    Inr test_acts"
  by (simp add: GradeSubmission_acts_def runDocker_def run_container_def test_docker_def test_reader_def
      test_config_def grade_timeout_def test_acts_def final_report_def read_results_def container_log_def
      truncate_log_def MaxOutputBytes_def no_result_def test_paths write_results_def map_os_def Let_def
      context_Canceled_def brief_of_def score_tests_def test_results_def empty_report_def)

subsection \<open>Properties\<close>


text \<open>
  A report on the container can come too late. Whenever a container was created there is a run in
  which the main goroutine sends the final report and closes \<open>notifyC\<close> while the helper is still about to
  report the container, so that its send on the closed channel panics and takes the grader down.
\<close>

theorem late_container_report_panics:
  assumes "GradeSubmission_acts D R S basePath i sub config cpu mems cpus container fs = Inr acts"
    and "runDocker D S basePath i sub config cpu mems cpus fs = (fs1, r)"
    and "RR_delete r" and "RR_containerId r \<noteq> []"
  shows "\<exists>out. (grading_step i)\<^sup>*\<^sup>* (grading_start acts) ([], Helper_panic, True, True, out)"
proof -
  let ?N = "Main_notify (status_report SubmissionStatus_Running)" and ?c = "RR_containerId r"
  let ?F = "final_report D R S (container fs1) r"
  let ?T = "[Main_close_channels, Main_notify ?F, Main_close_notify]"
  have finish: "(grading_step i)\<^sup>*\<^sup>* (?T, h, False, False, out) ([], Helper_panic, True, True, out @ [?F])"
    if "h = Helper_created ?c \<or> h = Helper_started ?c" for h out
  proof -
    have "grading_step i ([], h, True, True, out @ [?F]) ([], Helper_panic, True, True, out @ [?F])"
      using that grading_step.created_panics grading_step.started_panics by blast
    with grading_step.close_channels [of i "[Main_notify ?F, Main_close_notify]" h False False out]
      grading_step.main_notify [of i ?F "[Main_close_notify]" h True out]
      grading_step.close_notify [of i "[]" h True False "out @ [?F]"]
    show ?thesis by (rule rtranclp_4)
  qed
  have acts: "acts = [?N, Main_container ?c] @ (if RR_started r then [Main_started] else []) @
      [Main_close_channels, Main_notify ?F, Main_close_notify]"
    using assms by (simp add: GradeSubmission_acts_def split: if_splits)
  show ?thesis
  proof (cases "RR_started r")
    case False
    have "grading_step i (grading_start acts) (Main_container ?c # ?T, Helper_wait, False, False, [status_report SubmissionStatus_Running])"
      using grading_step.main_notify [of i _ _ _ _ "[]"] False by (simp add: acts grading_start_def)
    moreover have "grading_step i (Main_container ?c # ?T, Helper_wait, False, False, [status_report SubmissionStatus_Running])
        (?T, Helper_created ?c, False, False, [status_report SubmissionStatus_Running])"
      using assms(4) by (rule grading_step.hand_container)
    ultimately show ?thesis using finish [of "Helper_created ?c"] by (meson converse_rtranclp_into_rtranclp)
  next
    case True
    have "grading_step i (grading_start acts) (Main_container ?c # Main_started # ?T, Helper_wait, False, False, [status_report SubmissionStatus_Running])"
      using grading_step.main_notify [of i _ _ _ _ "[]"] True by (simp add: acts grading_start_def)
    moreover have "grading_step i (Main_container ?c # Main_started # ?T, Helper_wait, False, False, [status_report SubmissionStatus_Running])
        (Main_started # ?T, Helper_created ?c, False, False, [status_report SubmissionStatus_Running])"
      using assms(4) by (rule grading_step.hand_container)
    moreover note grading_step.helper_created [of i "Main_started # ?T" ?c False "[status_report SubmissionStatus_Running]"]
      grading_step.hand_start [of i ?T ?c False False "[status_report SubmissionStatus_Running] @ [docker_report i ?c False]"]
    ultimately show ?thesis using finish [of "Helper_started ?c"] by (meson converse_rtranclp_into_rtranclp)
  qed
qed

text \<open>
  C24: truncated outputs keep their ends and stay well-formed. A text that fits is left alone. A longer well-formed text
  is cut to at most \<open>maxLen\<close> bytes: when the prompt leaves room for two bytes, to a front and a back of the text with
  the prompt between whole characters, each at most three bytes shorter than half of the room; when it
  does not, to the first \<open>maxLen\<close> bytes, which may end within a character. The log of the container is cut to
  its end, well-formed, of at most 50 KiB and at most three bytes less than that.
\<close>

theorem truncateOutput_utf8:
  assumes "utf8 output" and "utf8 prompt"
  shows "length (truncateOutput output maxLen prompt) \<le> maxLen \<and>
    (if length output \<le> maxLen then truncateOutput output maxLen prompt = output
     else if length prompt + 2 \<le> maxLen
     then utf8 (truncateOutput output maxLen prompt) \<and>
       (\<exists>front gap rest. output = front @ gap @ rest \<and> truncateOutput output maxLen prompt = front @ prompt @ rest \<and>
         utf8 front \<and> utf8 rest \<and> (maxLen - length prompt) div 2 \<le> length front + 3 \<and>
         (maxLen - length prompt) div 2 \<le> length rest + 3)
     else truncateOutput output maxLen prompt = take maxLen output) \<and>
    utf8 (truncate_log output) \<and> length (truncate_log output) \<le> MaxOutputBytes \<and>
    suffix (truncate_log output) output \<and> min (length output) MaxOutputBytes \<le> length (truncate_log output) + 3"
proof -
  have log: "utf8 (truncate_log output) \<and> length (truncate_log output) \<le> MaxOutputBytes \<and>
      suffix (truncate_log output) output \<and> min (length output) MaxOutputBytes \<le> length (truncate_log output) + 3"
    by (rule truncate_log_shape [OF assms(1)])
  consider (fits) "length output \<le> maxLen" | (cut) "maxLen < length output" "length prompt + 2 \<le> maxLen"
    | (raw) "maxLen < length output" "maxLen < length prompt + 2" by linarith
  then show ?thesis
  proof cases
    case fits
    then show ?thesis using log by (simp add: truncateOutput_def)
  next
    case cut
    then obtain front gap rest where t: "output = front @ gap @ rest"
        "truncateOutput output maxLen prompt = front @ prompt @ rest" "utf8 front" "utf8 rest"
        "length front + length prompt + length rest \<le> maxLen" "(maxLen - length prompt) div 2 \<le> length front + 3"
        "(maxLen - length prompt) div 2 \<le> length rest + 3"
      using truncateOutput_shape [OF assms(1), of maxLen prompt] by blast
    have "utf8 (front @ prompt @ rest)" by (intro utf8_append t(3,4) assms(2))
    then show ?thesis using cut t log by auto
  next
    case raw
    then show ?thesis using log by (simp add: truncateOutput_def)
  qed
qed

text \<open>
  a timeout of more than 292 years ends the grader. The timeout of an assignment is multiplied out
  to nanoseconds in 64 bits: from 9223372037 seconds on the product is negative, and starting the timer panics
  as soon as the container runs.
\<close>

theorem huge_timeout_panics:
  assumes "9223372037 \<le> sint (Config_Timeout config)" and "sint (Config_Timeout config) \<le> 18446744073"
    and "dk_ImagePull D (Config_Image config) = Inr messages" and "pull_outcome messages = None"
    and "\<And>spec. dk_ContainerCreate D spec = Inr (c spec)" and "\<And>x. dk_ContainerStart D x = None"
  shows "GradeSubmission_acts D R S basePath i sub config cpu mems cpus container fs = Inl Panic"
proof -
  let ?t = "Config_Timeout config"
  have "uint ?t = sint ?t" using assms(1, 2) by (subst uint_sint) (simp add: take_bit_int_eq_self)
  then have t: "uint ?t * 1000000000 < 2 ^ 64" "2 ^ 63 \<le> uint ?t * 1000000000" using assms(1, 2) by simp_all
  then have u: "uint (?t * 1000000000) = uint ?t * 1000000000"
    using uint_mult_lem [of ?t 1000000000] by simp
  have "sint (?t * 1000000000) < 0"
  proof (rule ccontr)
    assume "\<not> sint (?t * 1000000000) < 0"
    moreover have "sint (?t * 1000000000) < 2 ^ 63" using sint_lt [of "?t * 1000000000"] by simp
    ultimately have "uint (?t * 1000000000) < 2 ^ 63" by (subst uint_sint) (simp add: take_bit_int_eq_self)
    then show False using t(2) u by simp
  qed
  then have "sint (grade_timeout config) \<le> 0" using assms(1) by (simp add: grade_timeout_def)
  then show ?thesis
    using assms(3-6) by (simp add: GradeSubmission_acts_def runDocker_def run_container_def Let_def)
qed


theorem late_container_report_panics_witness:
  "\<exists>out. (grading_step 1)\<^sup>*\<^sup>* (grading_start test_acts) ([], Helper_panic, True, True, out)"
proof -
  obtain fs1 r where run: "runDocker test_docker map_os ''w'' 1 test_sub (test_config 60) None [] [] Map.empty = (fs1, r)"
    by fastforce
  then have "RR_delete r" "RR_containerId r \<noteq> []"
    by (auto simp: runDocker_def test_docker_def no_result_def Let_def)
  from late_container_report_panics [OF test_grading run this] show ?thesis .
qed

theorem truncateOutput_utf8_witness:
  "\<exists>s front rest. utf8 s \<and> s = replicate 30000 (CHR ''a'') @ [CHR 0xC3, CHR 0xA9] @ replicate 30000 (CHR ''b'') \<and>
    truncateOutput s MaxOutputBytes truncate_prompt = front @ truncate_prompt @ rest \<and> utf8 front \<and> utf8 rest \<and>
    25000 \<le> length front \<and> 25000 \<le> length rest \<and> length (truncate_log s) \<le> 51200 \<and> 51197 \<le> length (truncate_log s)"
proof -
  have rep: "utf8 (replicate n c)" if "is_rune [c]" for n c
    unfolding utf8_def by (rule exI [of _ "replicate n [c]"]) (use that in \<open>induction n; simp\<close>)
  have "is_rune [CHR ''a'']" "is_rune [CHR ''b'']" "is_rune [CHR 0xC3, CHR 0xA9]"
    by (simp_all add: is_rune_def continuation_def)
  moreover have "utf8 [CHR 0xC3, CHR 0xA9]"
    unfolding utf8_def using calculation(3) by (intro exI [of _ "[[CHR 0xC3, CHR 0xA9]]"]) simp
  ultimately have s: "utf8 (replicate 30000 (CHR ''a'') @ [CHR 0xC3, CHR 0xA9] @ replicate 30000 (CHR ''b''))"
    by (intro utf8_append rep)
  have "\<forall>c \<in> set truncate_prompt. is_rune [c]" by (simp add: truncate_prompt_def is_rune_def)
  then have p: "utf8 truncate_prompt"
    unfolding utf8_def by (intro exI [of _ "map (\<lambda>c. [c]) truncate_prompt"]) (simp add: truncate_prompt_def)
  let ?s = "replicate 30000 (CHR ''a'') @ [CHR 0xC3, CHR 0xA9] @ replicate 30000 (CHR ''b'')"
  have n: "length ?s = 60002" "MaxOutputBytes = 51200" "length truncate_prompt \<le> 1000"
    by (simp_all add: truncate_prompt_def MaxOutputBytes_def)
  from truncateOutput_utf8 [OF s p, of MaxOutputBytes] obtain front rest where
    t: "truncateOutput ?s MaxOutputBytes truncate_prompt = front @ truncate_prompt @ rest" "utf8 front" "utf8 rest"
      "(MaxOutputBytes - length truncate_prompt) div 2 \<le> length front + 3"
      "(MaxOutputBytes - length truncate_prompt) div 2 \<le> length rest + 3"
    and l: "length (truncate_log ?s) \<le> MaxOutputBytes" "min (length ?s) MaxOutputBytes \<le> length (truncate_log ?s) + 3"
    using n by (auto split: if_splits)
  have "25000 \<le> length front" "25000 \<le> length rest" "51197 \<le> length (truncate_log ?s)" "length (truncate_log ?s) \<le> 51200"
    using t(4,5) l n by simp_all
  then show ?thesis using s t(1-3) by metis
qed

theorem huge_timeout_panics_witness:
  "GradeSubmission_acts test_docker test_reader map_os ''w'' 1 test_sub (test_config 9223372037) None [] []
     write_results Map.empty = Inl Panic"
proof (rule huge_timeout_panics)
  show "dk_ImagePull test_docker (Config_Image (test_config 9223372037)) = Inr [Pull_progress]"
    "dk_ContainerCreate test_docker spec = Inr ((\<lambda>_. ''c1'') spec)" "dk_ContainerStart test_docker x = None" for spec x
    by (simp_all add: test_docker_def)
qed (simp_all add: test_config_def)

end
