(* ===== verification/Text.thy ===== *)
theory Text
  imports Encoding
begin

section \<open>Go's strings package, as far as the program uses it\<close>

text \<open>
  Bytes are characters below 256. \<open>ToLower\<close> and \<open>TrimSpace\<close> are the ASCII part of the functions: the
  texts they are applied to (header names, tokens, content types) are ASCII. \<open>strings.HasPrefix s p\<close> is
  \<open>prefix p s\<close> and \<open>strings.Contains s t\<close> is \<open>sublist t s\<close> of the library.
\<close>

definition is_space :: "char \<Rightarrow> bool" where
  "is_space c \<longleftrightarrow> of_char c \<in> {9, 10, 11, 12, 13, 32 :: nat}"

definition TrimSpace :: "string \<Rightarrow> string" where
  "TrimSpace s = rev (dropWhile is_space (rev (dropWhile is_space s)))"

definition lower_char :: "char \<Rightarrow> char" where
  "lower_char c = (let n = of_char c in if 65 \<le> n \<and> n \<le> (90 :: nat) then char_of (n + 32) else c)"

definition upper_char :: "char \<Rightarrow> char" where
  "upper_char c = (let n = of_char c in if 97 \<le> n \<and> n \<le> (122 :: nat) then char_of (n - 32) else c)"

definition ToLower :: "string \<Rightarrow> string" where
  "ToLower s = List.map lower_char s"

definition TrimPrefix :: "string \<Rightarrow> string \<Rightarrow> string" where
  "TrimPrefix s p = (if prefix p s then drop (length p) s else s)"

fun JoinWith :: "string \<Rightarrow> string list \<Rightarrow> string" where
  "JoinWith sep [] = []"
| "JoinWith sep [s] = s"
| "JoinWith sep (s # ss) = s @ sep @ JoinWith sep ss"

text \<open>\<open>strings.ReplaceAll\<close> with single-character arguments.\<close>

definition ReplaceChar :: "char \<Rightarrow> char \<Rightarrow> string \<Rightarrow> string" where
  "ReplaceChar old new s = List.map (\<lambda>c. if c = old then new else c) s"

lemma TrimPrefix_append [simp]: "TrimPrefix (p @ s) p = s"
  by (simp add: TrimPrefix_def)

lemma TrimSpace_id: "\<forall>c \<in> set s. \<not> is_space c \<Longrightarrow> TrimSpace s = s"
proof -
  have keep: "dropWhile is_space xs = xs" if "\<forall>c \<in> set xs. \<not> is_space c" for xs
    using that by (cases xs) auto
  assume "\<forall>c \<in> set s. \<not> is_space c"
  then show ?thesis using keep [of s] keep [of "rev s"] by (simp add: TrimSpace_def)
qed

lemma TrimSpace_decimal: "TrimSpace (decimal n) = decimal n"
proof (rule TrimSpace_id)
  have "\<not> is_space c" if "is_digit c" for c
    using that by (auto simp: is_digit_def is_space_def byte_val_def)
  then show "\<forall>c \<in> set (decimal n). \<not> is_space c"
    using decimal_digits [of n] by (auto simp: list_all_iff)
qed

end
