(* ===== verification/Worker.thy ===== *)
theory Worker
  imports DockerGrader Text "HOL-Library.Multiset"
begin

section \<open>The grader program: cmd/autograder-grader/main.go, pkg/storage/simplehttp.go\<close>

text \<open>
  A grader holds a heartbeat stream to the hub, starts a goroutine per request it gets there, and for each
  submission forwards the reports of the Docker grader through a buffer to the goroutine that streams them
  to the hub. The worker is the state the goroutines share under its mutex; what a call to the hub, to the
  file server or to the operating system answers is an argument.
\<close>

subsection \<open>State\<close>

text \<open>
  Contexts and channels are numbered. A context counts as cancelled when it or its parent was. A channel of
  a log stream that waits for its container holds at most one value. \<open>w_puts\<close> are the \<open>PutMetadata\<close> calls made:
  grader, key and value.
\<close>

record waiter =
  wt_value :: bool
  wt_closed :: bool

record worker =
  w_cancelChs :: "u64 \<rightharpoonup> nat"
  w_containerIds :: "u64 \<rightharpoonup> string"
  w_logStreams :: "u64 \<rightharpoonup> (string \<times> nat) list"
  w_containerWaiters :: "string \<rightharpoonup> (string \<times> nat) list"
  w_containerStarted :: "string list"
  w_identity :: "(u64 \<times> string) option"
  w_cancelled :: "nat list"
  w_parent :: "nat \<rightharpoonup> nat"
  w_waiters :: "nat \<Rightarrow> waiter"
  w_next :: nat
  w_puts :: "(u64 \<times> bytes \<times> bytes) list"

definition new_worker :: worker where
  "new_worker = \<lparr>w_cancelChs = Map.empty, w_containerIds = Map.empty, w_logStreams = Map.empty,
     w_containerWaiters = Map.empty, w_containerStarted = [], w_identity = None, w_cancelled = [],
     w_parent = Map.empty, w_waiters = (\<lambda>_. \<lparr>wt_value = False, wt_closed = False\<rparr>), w_next = 0, w_puts = []\<rparr>"

definition ctx_cancelled :: "worker \<Rightarrow> nat \<Rightarrow> bool" where
  "ctx_cancelled g c \<longleftrightarrow> c \<in> set (w_cancelled g) \<or> (\<exists>p \<in> set_option (w_parent g c). p \<in> set (w_cancelled g))"

definition cancel_ctx :: "nat \<Rightarrow> worker \<Rightarrow> worker" where
  "cancel_ctx c g = g\<lparr>w_cancelled := c # w_cancelled g\<rparr>"

definition setIdentity :: "u64 \<Rightarrow> string \<Rightarrow> worker \<Rightarrow> worker" where
  "setIdentity graderId sessionToken g = g\<lparr>w_identity := Some (graderId, sessionToken)\<rparr>"

definition currentIdentity :: "worker \<Rightarrow> u64 \<times> string" where
  "currentIdentity g = (case w_identity g of Some x \<Rightarrow> x | None \<Rightarrow> (0, []))"

definition graderId :: "worker \<Rightarrow> u64" where
  "graderId g = fst (currentIdentity g)"

text \<open>The metadata of an outgoing call.\<close>

definition authOutgoing :: "string \<Rightarrow> worker \<Rightarrow> (string \<times> string) list" where
  "authOutgoing token g = [(''token'', token), (''graderid'', id_text (fst (currentIdentity g))),
     (''session-token'', snd (currentIdentity g))]"

text \<open>\<open>GraderEnvKeyReplacer\<close>: the environment variable of a configuration key.\<close>

definition Replace :: "string \<Rightarrow> string" where
  "Replace s = map (\<lambda>c. if c = CHR ''-'' then CHR ''_'' else c) (map (\<lambda>c. if c = CHR ''.'' then CHR ''_'' else c) s)"

subsection \<open>The report buffer\<close>

record report_buffer =
  rb_buffer :: "grade_report list"
  rb_closed :: bool

definition NewReportBuffer :: report_buffer where
  "NewReportBuffer = \<lparr>rb_buffer = [], rb_closed = False\<rparr>"

definition buffer_Close :: "report_buffer \<Rightarrow> report_buffer" where
  "buffer_Close b = b\<lparr>rb_closed := True\<rparr>"

definition buffer_Send :: "grade_report \<Rightarrow> report_buffer \<Rightarrow> report_buffer" where
  "buffer_Send report b = (if rb_closed b then b else b\<lparr>rb_buffer := rb_buffer b @ [report]\<rparr>)"

text \<open>
  \<open>waitAndDrain\<close> once it stops waiting: the reports, whether the buffer is still open, and whether the wait
  timed out. It waits while \<open>drain_waits\<close>, at most for the given time.
\<close>

definition drain_waits :: "report_buffer \<Rightarrow> bool" where
  "drain_waits b \<longleftrightarrow> rb_buffer b = [] \<and> \<not> rb_closed b"

definition waitAndDrain :: "report_buffer \<Rightarrow> report_buffer \<times> grade_report list \<times> bool \<times> bool" where
  "waitAndDrain b =
     (if rb_buffer b = [] then
        (if rb_closed b then (b, [], False, False) else (b, [], True, True))
      else (b\<lparr>rb_buffer := []\<rparr>, rb_buffer b, True, False))"

subsection \<open>The file server\<close>

text \<open>
  \<open>SimpleHTTPFS\<close> over \<open>net/url\<close> and \<open>net/http\<close>: resolving a path against the base URL, and sending a request with a
  method, a URL, a token and a body, which is answered by a status and a body. The status is not looked at.
\<close>

record http_client =
  url_Resolve :: "string \<Rightarrow> string \<Rightarrow> error + string"
  http_Do :: "string \<Rightarrow> string \<Rightarrow> string \<Rightarrow> bytes \<Rightarrow> error + (nat \<times> bytes)"

definition sfs_Put :: "http_client \<Rightarrow> string \<Rightarrow> string \<Rightarrow> string \<Rightarrow> bytes \<Rightarrow> error option" where
  "sfs_Put C baseURL token path body =
     (case url_Resolve C baseURL path of
        Inl e \<Rightarrow> Some e
      | Inr u \<Rightarrow> (case http_Do C ''POST'' u token body of Inl e \<Rightarrow> Some e | Inr resp \<Rightarrow> None))"

definition sfs_Get :: "http_client \<Rightarrow> string \<Rightarrow> string \<Rightarrow> string \<Rightarrow> error + bytes" where
  "sfs_Get C baseURL token path =
     (case url_Resolve C baseURL path of
        Inl e \<Rightarrow> Inl e
      | Inr u \<Rightarrow> (case http_Do C ''GET'' u token [] of Inl e \<Rightarrow> Inl e | Inr (status, body) \<Rightarrow> Inr body))"

text \<open>What the grader reaches: the client with its base URL and token, the file system and its root.\<close>

record 'fs files =
  fl_client :: http_client
  fl_baseURL :: string
  fl_token :: string
  fl_os :: "'fs os"
  fl_basePath :: string

definition uploadFile :: "'fs files \<Rightarrow> 'fs \<Rightarrow> string \<Rightarrow> error option" where
  "uploadFile F fs filePath =
     (case ls_Open (fl_os F) (fl_basePath F) fs filePath of
        Inl e \<Rightarrow> Some e
      | Inr l \<Rightarrow> sfs_Put (fl_client F) (fl_baseURL F) (fl_token F) filePath l)"

definition downloadFile :: "'fs files \<Rightarrow> 'fs \<Rightarrow> string \<Rightarrow> 'fs \<times> error option" where
  "downloadFile F fs filePath =
     (case sfs_Get (fl_client F) (fl_baseURL F) (fl_token F) filePath of
        Inl e \<Rightarrow> (fs, Some e)
      | Inr d \<Rightarrow> ls_Put (fl_os F) (fl_basePath F) fs filePath d)"

text \<open>
  \<open>retry.Do\<close>: up to \<open>n\<close> attempts, as long as the error is one to retry. \<open>Fs n\<close> is what the \<open>n\<close>th attempt meets.
\<close>

fun retry_Do :: "nat \<Rightarrow> (error \<Rightarrow> bool) \<Rightarrow> (nat \<Rightarrow> 's \<Rightarrow> 's \<times> error option) \<Rightarrow> 's \<Rightarrow> 's \<times> error option" where
  "retry_Do 0 retryIf f s = (s, Some (ErrOther ''All attempts fail''))"
| "retry_Do (Suc n) retryIf f s =
     (case f 0 s of
        (s1, None) \<Rightarrow> (s1, None)
      | (s1, Some e) \<Rightarrow> if retryIf e then retry_Do n retryIf (\<lambda>k. f (Suc k)) s1 else (s1, Some e))"

subsection \<open>Sending the reports\<close>

definition docker_getMetadataKey :: "u64 \<Rightarrow> bytes" where
  "docker_getMetadataKey submissionId = ''docker:metadata:'' @ id_text submissionId"

text \<open>
  Waking the log streams that wait for a container: each gets \<open>true\<close>, and its channel is closed.
\<close>

definition wake :: "(string \<times> nat) list \<Rightarrow> bool \<Rightarrow> worker \<Rightarrow> worker" where
  "wake chs v g = g\<lparr>w_waiters := (\<lambda>n. if n \<in> snd ` set chs
     then \<lparr>wt_value = v \<or> wt_value (w_waiters g n), wt_closed = True\<rparr> else w_waiters g n)\<rparr>"

definition waiters_of :: "worker \<Rightarrow> string \<Rightarrow> (string \<times> nat) list" where
  "waiters_of g containerId = (case w_containerWaiters g containerId of None \<Rightarrow> [] | Some xs \<Rightarrow> xs)"

text \<open>\<open>marshal\<close> encodes the metadata. The error of the call is only logged.\<close>

definition recordDockerMetadata ::
    "(docker_metadata \<Rightarrow> error + bytes) \<Rightarrow> u64 \<Rightarrow> docker_metadata \<Rightarrow> worker \<Rightarrow> worker" where
  "recordDockerMetadata marshal submissionId md g =
     (let g1 = g\<lparr>w_containerIds := (w_containerIds g)(Docker_SubmissionId md \<mapsto> Docker_ContainerId md)\<rparr>;
          g2 = (if Docker_Started md
                then wake (waiters_of g (Docker_ContainerId md)) True
                  (g1\<lparr>w_containerStarted := Docker_ContainerId md # w_containerStarted g1,
                    w_containerWaiters := (w_containerWaiters g1)(Docker_ContainerId md := None)\<rparr>)
                else g1)
      in (case marshal md of
            Inl e \<Rightarrow> g2
          | Inr v \<Rightarrow> g2\<lparr>w_puts := w_puts g2 @ [(graderId g2, docker_getMetadataKey submissionId, v)]\<rparr>))"

definition output_file :: "u64 \<Rightarrow> testcase \<Rightarrow> string" where
  "output_file submissionId t =
     path_Join [''runs/submissions/'' @ id_text submissionId @ ''/results/outputs'', Testcase_OutputPath t]"

text \<open>
  The outputs are sent to the file server, each in a goroutine of its own and each deleted afterwards,
  whether or not it could be sent. \<open>F n\<close> is the network at the \<open>n\<close>th attempt, \<open>IsTimeout\<close> is \<open>os.IsTimeout\<close>.
\<close>

definition uploadTestOutputs ::
    "(nat \<Rightarrow> 'fs files) \<Rightarrow> (error \<Rightarrow> bool) \<Rightarrow> u64 \<Rightarrow> submission_report option \<Rightarrow> 'fs \<Rightarrow> 'fs" where
  "uploadTestOutputs F IsTimeout submissionId report fs =
     (case report of
        None \<Rightarrow> fs
      | Some rep \<Rightarrow>
          foldl (\<lambda>fs t.
            let p = output_file submissionId t;
                fs1 = fst (retry_Do 3 IsTimeout (\<lambda>k fs. (fs, uploadFile (F k) fs p)) fs)
            in fst (ls_Delete (fl_os (F 0)) (fl_basePath (F 0)) fs1 p))
          fs (filter (\<lambda>t. Testcase_OutputPath t \<noteq> []) (Report_Tests rep)))"

definition is_final :: "submission_status \<Rightarrow> bool" where
  "is_final st \<longleftrightarrow> st = SubmissionStatus_Finished \<or> st = SubmissionStatus_Cancelled \<or> st = SubmissionStatus_Failed"

text \<open>
  \<open>sent\<close> is what \<open>rpCli.Send\<close> answers. Metadata of the container does not go over the stream.
\<close>

definition sendReport ::
    "(docker_metadata \<Rightarrow> error + bytes) \<Rightarrow> (submission_report option \<Rightarrow> 'fs \<Rightarrow> 'fs) \<Rightarrow> u64 \<Rightarrow> error option \<Rightarrow>
      grade_report \<Rightarrow> worker \<times> 'fs \<Rightarrow> (worker \<times> 'fs) \<times> error option" where
  "sendReport marshal upload submissionId sent report = (\<lambda>(g, fs).
     (case GR_DockerMetadata report of
        Some md \<Rightarrow> ((recordDockerMetadata marshal submissionId md g, fs), None)
      | None \<Rightarrow>
          (case sent of
             Some e \<Rightarrow> ((g, fs), Some e)
           | None \<Rightarrow>
               let st = GetStatus (GR_Brief report);
                   fs1 = (if st = SubmissionStatus_Finished then upload (GR_Report report) fs else fs);
                   g1 = (if is_final st
                     then g\<lparr>w_puts := w_puts g @ [(graderId g, docker_getMetadataKey submissionId, [])]\<rparr> else g)
               in ((g1, fs1), None))))"

text \<open>
  The reports are sent in order; at the first failure the rest stays. \<open>sent n\<close> is the answer of the send of
  the \<open>n\<close>th report.
\<close>

fun sendReports ::
    "(docker_metadata \<Rightarrow> error + bytes) \<Rightarrow> (submission_report option \<Rightarrow> 'fs \<Rightarrow> 'fs) \<Rightarrow> u64 \<Rightarrow>
      (nat \<Rightarrow> error option) \<Rightarrow> grade_report list \<Rightarrow> worker \<times> 'fs \<Rightarrow>
      (worker \<times> 'fs) \<times> grade_report list \<times> error option" where
  "sendReports marshal upload i sent [] s = (s, [], None)"
| "sendReports marshal upload i sent (r # rs) s =
     (case sendReport marshal upload i (sent 0) r s of
        (s1, Some e) \<Rightarrow> (s1, r # rs, Some e)
      | (s1, None) \<Rightarrow> sendReports marshal upload i (\<lambda>n. sent (Suc n)) rs s1)"

text \<open>The error codes that end the reporting for good; the grading is cancelled then.\<close>

definition shouldRetryCallback :: "u64 \<Rightarrow> error \<Rightarrow> worker \<Rightarrow> worker \<times> bool" where
  "shouldRetryCallback submissionId err g =
     (if \<exists>s. err = StatusErr PermissionDenied s \<or> err = StatusErr Unauthenticated s
      then ((case w_cancelChs g submissionId of Some c \<Rightarrow> cancel_ctx c g | None \<Rightarrow> g), False)
      else (g, True))"

subsection \<open>The reporter of a submission\<close>

text \<open>
  \<open>submissionReporter\<close> and \<open>reportSession\<close>: between two sessions, in a session with its stream, finished, or refused
  by the hub for good.
\<close>

datatype reporter_phase = Rep_idle | Rep_stream | Rep_finished | Rep_refused

text \<open>
  Beside the buffer and the reports taken from it, what is on its way in the current stream and what the hub
  received; \<open>rs_accepted\<close> (what the buffer took from the grading) and \<open>rs_lost\<close> (what was on its way when a
  stream broke) only keep the history.
\<close>

record 'fs reporter =
  rs_worker :: worker
  rs_fs :: 'fs
  rs_buffer :: report_buffer
  rs_reports :: "grade_report list"
  rs_phase :: reporter_phase
  rs_way :: "grade_report list"
  rs_received :: "grade_report list"
  rs_accepted :: "grade_report list"
  rs_lost :: "grade_report list"

definition empty_grade_report :: grade_report where
  "empty_grade_report = GradeReport None None None None"

text \<open>A session ends with an error: whether there is another one depends on the error.\<close>

definition session_fails :: "u64 \<Rightarrow> error \<Rightarrow> 'fs reporter \<Rightarrow> 'fs reporter" where
  "session_fails i e s =
     (case shouldRetryCallback i e (rs_worker s) of
        (g, again) \<Rightarrow> s\<lparr>rs_worker := g, rs_phase := (if again then Rep_idle else Rep_refused),
          rs_lost := rs_lost s @ rs_way s, rs_way := []\<rparr>)"

text \<open>When the reporter ends, it removes the directory of the run.\<close>

definition reporter_ends :: "'fs files \<Rightarrow> u64 \<Rightarrow> 'fs reporter \<Rightarrow> 'fs reporter" where
  "reporter_ends F i s =
     s\<lparr>rs_fs := fst (ls_Delete (fl_os F) (fl_basePath F) (rs_fs s) (''runs/submissions/'' @ id_text i))\<rparr>"

definition session_over :: "'fs files \<Rightarrow> u64 \<Rightarrow> error \<Rightarrow> 'fs reporter \<Rightarrow> 'fs reporter" where
  "session_over F i e s =
     (let s1 = session_fails i e s in if rs_phase s1 = Rep_refused then reporter_ends F i s1 else s1)"

text \<open>
  A step of the grading goroutine on the buffer, of the stream, or of the reporter: it opens a stream
  (\<open>e\<close> is the error of the dialling or of \<open>GradeCallback\<close>), sends the next report, takes what is in the buffer, sends an
  empty report after five seconds without one, or completes the stream, which the hub answers once it read
  everything.
\<close>

inductive reporter_step ::
    "'fs files \<Rightarrow> (docker_metadata \<Rightarrow> error + bytes) \<Rightarrow> (submission_report option \<Rightarrow> 'fs \<Rightarrow> 'fs) \<Rightarrow> u64 \<Rightarrow>
      'fs reporter \<Rightarrow> 'fs reporter \<Rightarrow> bool"
  for F :: "'fs files" and marshal :: "docker_metadata \<Rightarrow> error + bytes"
    and upload :: "submission_report option \<Rightarrow> 'fs \<Rightarrow> 'fs" and i :: u64 where
  produce: "reporter_step F marshal upload i s (s\<lparr>rs_buffer := buffer_Send r (rs_buffer s),
      rs_accepted := rs_accepted s @ (if rb_closed (rs_buffer s) then [] else [r])\<rparr>)"
| close_buffer: "reporter_step F marshal upload i s (s\<lparr>rs_buffer := buffer_Close (rs_buffer s)\<rparr>)"
| deliver: "rs_way s = r # rs \<Longrightarrow>
    reporter_step F marshal upload i s (s\<lparr>rs_way := rs, rs_received := rs_received s @ [r]\<rparr>)"
| open_stream: "rs_phase s = Rep_idle \<Longrightarrow> reporter_step F marshal upload i s (s\<lparr>rs_phase := Rep_stream\<rparr>)"
| open_fails: "rs_phase s = Rep_idle \<Longrightarrow> reporter_step F marshal upload i s (session_over F i e s)"
| send: "rs_phase s = Rep_stream \<Longrightarrow> rs_reports s = r # rs \<Longrightarrow>
    sendReport marshal upload i None r (rs_worker s, rs_fs s) = ((g, fs), None) \<Longrightarrow>
    reporter_step F marshal upload i s (s\<lparr>rs_worker := g, rs_fs := fs, rs_reports := rs,
      rs_way := rs_way s @ (if GR_DockerMetadata r = None then [r] else [])\<rparr>)"
| send_fails: "rs_phase s = Rep_stream \<Longrightarrow> rs_reports s = r # rs \<Longrightarrow> GR_DockerMetadata r = None \<Longrightarrow>
    reporter_step F marshal upload i s (session_over F i e s)"
| drain: "rs_phase s = Rep_stream \<Longrightarrow> rs_reports s = [] \<Longrightarrow>
    waitAndDrain (rs_buffer s) = (b, pending, True, False) \<Longrightarrow>
    reporter_step F marshal upload i s (s\<lparr>rs_buffer := b, rs_reports := pending\<rparr>)"
| probe: "rs_phase s = Rep_stream \<Longrightarrow> rs_reports s = [] \<Longrightarrow>
    waitAndDrain (rs_buffer s) = (b, pending, True, True) \<Longrightarrow>
    reporter_step F marshal upload i s (s\<lparr>rs_way := rs_way s @ [empty_grade_report]\<rparr>)"
| probe_fails: "rs_phase s = Rep_stream \<Longrightarrow> rs_reports s = [] \<Longrightarrow>
    waitAndDrain (rs_buffer s) = (b, pending, True, True) \<Longrightarrow>
    reporter_step F marshal upload i s (session_over F i e s)"
| complete: "rs_phase s = Rep_stream \<Longrightarrow> rs_reports s = [] \<Longrightarrow>
    waitAndDrain (rs_buffer s) = (b, pending, False, t) \<Longrightarrow> rs_way s = [] \<Longrightarrow>
    reporter_step F marshal upload i s (reporter_ends F i (s\<lparr>rs_phase := Rep_finished\<rparr>))"
| complete_fails: "rs_phase s = Rep_stream \<Longrightarrow> rs_reports s = [] \<Longrightarrow>
    waitAndDrain (rs_buffer s) = (b, pending, False, t) \<Longrightarrow>
    reporter_step F marshal upload i s (session_over F i e s)"

definition reporter_start :: "worker \<Rightarrow> 'fs \<Rightarrow> report_buffer \<Rightarrow> 'fs reporter" where
  "reporter_start g fs b = \<lparr>rs_worker = g, rs_fs = fs, rs_buffer = b, rs_reports = [], rs_phase = Rep_idle,
     rs_way = [], rs_received = [], rs_accepted = rb_buffer b, rs_lost = []\<rparr>"

subsection \<open>Grading one submission\<close>

definition ErrCheckFileExists :: i64 where "ErrCheckFileExists = - 101"
definition ErrDownloadFile :: i64 where "ErrDownloadFile = - 102"

definition worker_onSubmissionFinished :: "u64 \<Rightarrow> worker \<Rightarrow> worker" where
  "worker_onSubmissionFinished submissionId g =
     (let g1 = (case w_cancelChs g submissionId of Some c \<Rightarrow> cancel_ctx c g | None \<Rightarrow> g);
          g2 = g1\<lparr>w_cancelChs := (w_cancelChs g1)(submissionId := None)\<rparr>;
          containerId = (case w_containerIds g2 submissionId of None \<Rightarrow> [] | Some c \<Rightarrow> c);
          g3 = wake (waiters_of g2 containerId) False g2;
          g4 = g3\<lparr>w_containerWaiters := (w_containerWaiters g3)(containerId := None),
            w_containerIds := (w_containerIds g3)(submissionId := None)\<rparr>;
          g5 = fold cancel_ctx (map snd (case w_logStreams g4 submissionId of None \<Rightarrow> [] | Some ss \<Rightarrow> ss)) g4
      in g5\<lparr>w_logStreams := (w_logStreams g5)(submissionId := None)\<rparr>)"

definition failed_report :: "i64 \<Rightarrow> grade_report" where
  "failed_report code = GradeReport
     (Some (empty_report\<lparr>Report_InternalError := code\<rparr>))
     (Some \<lparr>Brief_Score = 0, Brief_MaxScore = 0, Brief_ExitCode = 0, Brief_InternalError = code,
        Brief_Status = SubmissionStatus_Failed\<rparr>) None None"

definition fail_submission :: "u64 \<Rightarrow> i64 \<Rightarrow> worker \<times> report_buffer \<Rightarrow> worker \<times> report_buffer" where
  "fail_submission i code = (\<lambda>(g, b). (worker_onSubmissionFinished i g, buffer_Close (buffer_Send (failed_report code) b)))"

text \<open>
  The loop over the files: the first that cannot be looked up ends it with a failure; a download is started for
  each that is not there. Then the downloads, in the order they complete; \<open>F k\<close> is the network at the \<open>k\<close>th attempt.
\<close>

fun missing_files ::
    "'fs files \<Rightarrow> 'fs \<Rightarrow> u64 \<Rightarrow> string \<Rightarrow> string list \<Rightarrow> worker \<times> report_buffer \<Rightarrow>
      (worker \<times> report_buffer) \<times> string list" where
  "missing_files F fs i path [] s = (s, [])"
| "missing_files F fs i path (f # files) s =
     (case ls_NotExists (fl_os F) (fl_basePath F) fs (path_Join [path, f]) of
        Inl e \<Rightarrow> (fail_submission i ErrCheckFileExists s, [])
      | Inr notExists \<Rightarrow>
          if \<not> notExists then missing_files F fs i path files s
          else (case missing_files F fs i path files s of
                  (s1, downloads) \<Rightarrow> (s1, path_Join [path, f] # downloads)))"

definition download_one ::
    "(nat \<Rightarrow> 'fs files) \<Rightarrow> (error \<Rightarrow> bool) \<Rightarrow> u64 \<Rightarrow> string \<Rightarrow> 'fs \<times> worker \<times> report_buffer \<Rightarrow>
      'fs \<times> worker \<times> report_buffer" where
  "download_one F IsTimeout i f = (\<lambda>(fs, s).
     (case retry_Do 3 IsTimeout (\<lambda>k fs. downloadFile (F k) fs f) fs of
        (fs1, None) \<Rightarrow> (fs1, s)
      | (fs1, Some e) \<Rightarrow> (fs1, fail_submission i ErrDownloadFile s)))"

text \<open>A request of the hub to cancel a submission (part of \<open>WorkLoop\<close>).\<close>

definition cancel_submission :: "u64 \<Rightarrow> worker \<Rightarrow> worker" where
  "cancel_submission i g =
     (let g1 = (case w_cancelChs g i of Some c \<Rightarrow> cancel_ctx c g | None \<Rightarrow> g)
      in g1\<lparr>w_cancelChs := (w_cancelChs g1)(i := None)\<rparr>)"

text \<open>
  \<open>gradeOneSubmission\<close> up to the start of the Docker grader: its context, the buffer the reporter gets, the files.
  \<open>meanwhile\<close> is what other goroutines do to the worker while the files are fetched; \<open>reorder\<close> the order in
  which the downloads complete. The result tells whether grading starts. If not, nothing else happens: the
  directory of the submission is removed, which it is in any case at the end.
\<close>

definition gradeOneSubmission_prepare ::
    "(nat \<Rightarrow> 'fs files) \<Rightarrow> (error \<Rightarrow> bool) \<Rightarrow> (string list \<Rightarrow> string list) \<Rightarrow> (worker \<Rightarrow> worker) \<Rightarrow> u64 \<Rightarrow>
      submission \<Rightarrow> 'fs \<times> worker \<Rightarrow> 'fs \<times> worker \<times> report_buffer \<times> bool" where
  "gradeOneSubmission_prepare F IsTimeout reorder meanwhile i sub = (\<lambda>(fs, g).
     (let c = w_next g;
          g1 = g\<lparr>w_cancelChs := (w_cancelChs g)(i \<mapsto> c), w_next := Suc c\<rparr>;
          (s, downloads) = missing_files (F 0) fs i (Submission_Path sub) (Submission_Files sub) (g1, NewReportBuffer);
          (fs2, g2, b) = fold (download_one F IsTimeout i) (reorder downloads) (fs, s);
          g3 = meanwhile g2
      in if ctx_cancelled g3 c
         then (fst (ls_Delete (fl_os (F 0)) (fl_basePath (F 0)) fs2 (Submission_Path sub)),
           worker_onSubmissionFinished i g3, b, False)
         else (fs2, g3, b, True)))"

text \<open>The rest: every report of the Docker grader goes into the buffer, which is closed at the end.\<close>

definition gradeOneSubmission_forward :: "grade_report list \<Rightarrow> report_buffer \<Rightarrow> report_buffer" where
  "gradeOneSubmission_forward rs b = fold buffer_Send rs b"

definition gradeOneSubmission_end ::
    "'fs files \<Rightarrow> u64 \<Rightarrow> submission \<Rightarrow> 'fs \<times> worker \<times> report_buffer \<Rightarrow> 'fs \<times> worker \<times> report_buffer" where
  "gradeOneSubmission_end F i sub = (\<lambda>(fs, g, b).
     (fst (ls_Delete (fl_os F) (fl_basePath F) fs (Submission_Path sub)), worker_onSubmissionFinished i g, buffer_Close b))"

subsection \<open>Log streams\<close>

text \<open>
  \<open>streamLog\<close>: what it reads before it opens its stream, and its context below that of the submission.
\<close>

definition put_stream :: "(string \<times> nat) list \<Rightarrow> string \<Rightarrow> nat \<Rightarrow> (string \<times> nat) list" where
  "put_stream xs k v = (k, v) # filter (\<lambda>x. fst x \<noteq> k) xs"

definition streamLog_open :: "u64 \<Rightarrow> string \<Rightarrow> worker \<Rightarrow> worker \<times> nat \<times> bool \<times> string" where
  "streamLog_open submissionId requestId g =
     (let c = w_next g;
          containerId = (case w_containerIds g submissionId of None \<Rightarrow> [] | Some x \<Rightarrow> x);
          streams = (case w_logStreams g submissionId of None \<Rightarrow> [] | Some x \<Rightarrow> x)
      in (g\<lparr>w_next := Suc c, w_parent := (w_parent g)(c := w_cancelChs g submissionId),
            w_logStreams := (w_logStreams g)(submissionId \<mapsto> put_stream streams requestId c)\<rparr>,
          c, w_cancelChs g submissionId \<noteq> None, containerId))"

text \<open>After a second of waiting for the container to exist.\<close>

definition streamLog_poll :: "u64 \<Rightarrow> worker \<Rightarrow> string" where
  "streamLog_poll submissionId g = (case w_containerIds g submissionId of None \<Rightarrow> [] | Some x \<Rightarrow> x)"

text \<open>
  Waiting for the start of the container: none is needed when it is known to have started, else the stream
  leaves a channel to be woken on. \<open>None\<close> is waiting; then whether the container started.
\<close>

definition streamLog_enter :: "string \<Rightarrow> string \<Rightarrow> worker \<Rightarrow> worker \<times> nat option" where
  "streamLog_enter containerId requestId g =
     (if containerId \<in> set (w_containerStarted g) then (g, None)
      else let ch = w_next g
           in (g\<lparr>w_next := Suc ch, w_waiters := (w_waiters g)(ch := \<lparr>wt_value = False, wt_closed = False\<rparr>),
                w_containerWaiters := (w_containerWaiters g)(containerId \<mapsto>
                  put_stream (waiters_of g containerId) requestId ch)\<rparr>, Some ch))"

definition streamLog_started :: "nat \<Rightarrow> worker \<Rightarrow> bool option" where
  "streamLog_started ch g =
     (if wt_value (w_waiters g ch) then Some True
      else if wt_closed (w_waiters g ch) then Some False else None)"

subsection \<open>WorkLoop\<close>

text \<open>The goroutines a request starts.\<close>

datatype worker_task = Run_grade grade_request | Run_streamLog u64 string

definition dispatch :: "grade_request \<Rightarrow> worker \<Rightarrow> worker \<times> worker_task list" where
  "dispatch req g =
     (if Req_IsStreamLog req then
        (if Req_IsCancel req then
           (let streams = (case w_logStreams g (Req_SubmissionId req) of None \<Rightarrow> [] | Some x \<Rightarrow> x);
                g1 = (case map_of streams (Req_RequestId req) of Some c \<Rightarrow> cancel_ctx c g | None \<Rightarrow> g)
            in (g1\<lparr>w_logStreams := (case w_logStreams g1 (Req_SubmissionId req) of
                  None \<Rightarrow> w_logStreams g1
                | Some x \<Rightarrow> (w_logStreams g1)(Req_SubmissionId req \<mapsto>
                    filter (\<lambda>y. fst y \<noteq> Req_RequestId req) x))\<rparr>, []))
         else (g, [Run_streamLog (Req_SubmissionId req) (Req_RequestId req)]))
      else if Req_IsCancel req then (cancel_submission (Req_SubmissionId req) g, [])
      else (g, [Run_grade req]))"

text \<open>A message of the heartbeat stream: its requests in order.\<close>

fun dispatch_all :: "grade_request list \<Rightarrow> worker \<Rightarrow> worker \<times> worker_task list" where
  "dispatch_all [] g = (g, [])"
| "dispatch_all (req # reqs) g =
     (case dispatch req g of
        (g1, ts) \<Rightarrow> (case dispatch_all reqs g1 of (g2, ts') \<Rightarrow> (g2, ts @ ts')))"

text \<open>
  The registration: retried after any error, and again when the metadata of the last life cannot be
  fetched. \<open>None\<close> is trying again; then the identity is set and the old metadata is known.
\<close>

definition register_attempt ::
    "error + u64 \<times> string \<Rightarrow> error + (bytes \<times> bytes) list \<Rightarrow> worker \<Rightarrow> worker \<times> (bytes \<times> bytes) list option" where
  "register_attempt resp metadatas g =
     (case resp of
        Inl e \<Rightarrow> (g, None)
      | Inr (gid, session) \<Rightarrow>
          (case metadatas of
             Inl e \<Rightarrow> (setIdentity gid session g, None)
           | Inr kvs \<Rightarrow> (setIdentity gid session g, Some kvs)))"

text \<open>
  The containers of the last life are removed and their metadata deleted, with a context that does not carry the
  metadata of \<open>authOutgoing\<close>. What cannot be decoded is skipped. The result is the containers to remove and
  the keys to delete.
\<close>

fun old_containers :: "(bytes \<Rightarrow> error + docker_metadata) \<Rightarrow> (bytes \<times> bytes) list \<Rightarrow> (string \<times> bytes) list" where
  "old_containers unmarshal [] = []"
| "old_containers unmarshal ((key, v) # kvs) =
     (case unmarshal v of
        Inl e \<Rightarrow> old_containers unmarshal kvs
      | Inr md \<Rightarrow> (Docker_ContainerId md, key) # old_containers unmarshal kvs)"

text \<open>\<open>strings.Split\<close> at one character, of the configured list of tags.\<close>

fun SplitChar :: "char \<Rightarrow> string \<Rightarrow> string list" where
  "SplitChar sep [] = [[]]"
| "SplitChar sep (c # cs) =
     (if c = sep then [] # SplitChar sep cs
      else (case SplitChar sep cs of [] \<Rightarrow> [[c]] | s # ss \<Rightarrow> (c # s) # ss))"

definition registerRequest :: "string \<Rightarrow> string \<Rightarrow> u64 \<Rightarrow> grader_info" where
  "registerRequest tags hostname concurrency =
     \<lparr>Info_Hostname = hostname, Info_Tags = map TrimSpace (SplitChar (CHR '','') tags),
      Info_Concurrency = concurrency\<rparr>"

subsection \<open>What the reporter keeps\<close>

text \<open>The reports that go over the stream and say something.\<close>

definition streamed :: "grade_report \<Rightarrow> bool" where
  "streamed r \<longleftrightarrow> GR_DockerMetadata r = None \<and> r \<noteq> empty_grade_report"

lemma subseq_left [simp]: "subseq xs (xs @ ys)"
  by (rule list_emb_prefix) simp

lemma streamed_empty [simp]: "\<not> streamed empty_grade_report"
  by (simp add: streamed_def)

definition reporter_inv :: "'fs reporter \<Rightarrow> bool" where
  "reporter_inv s \<longleftrightarrow>
     (\<exists>sent. rs_accepted s = sent @ rs_reports s @ rb_buffer (rs_buffer s) \<and>
       subseq (filter streamed (rs_received s @ rs_way s)) (filter streamed sent) \<and>
       mset (filter streamed sent) = mset (filter streamed (rs_received s @ rs_way s @ rs_lost s))) \<and>
     (rs_phase s = Rep_finished \<longrightarrow>
       rs_reports s = [] \<and> rb_buffer (rs_buffer s) = [] \<and> rb_closed (rs_buffer s) \<and> rs_way s = [])"

lemma reporter_inv_start: "reporter_inv (reporter_start g fs b)"
  by (simp add: reporter_inv_def reporter_start_def)

lemma session_over_simps [simp]:
  "rs_buffer (session_over F i e s) = rs_buffer s" "rs_reports (session_over F i e s) = rs_reports s"
  "rs_way (session_over F i e s) = []" "rs_received (session_over F i e s) = rs_received s"
  "rs_accepted (session_over F i e s) = rs_accepted s" "rs_lost (session_over F i e s) = rs_lost s @ rs_way s"
  "rs_phase (session_over F i e s) \<noteq> Rep_finished" "rs_phase (session_over F i e s) \<noteq> Rep_stream"
  by (simp_all add: session_over_def session_fails_def reporter_ends_def Let_def split: prod.splits)

lemma reporter_ends_simps [simp]:
  "rs_buffer (reporter_ends F i s) = rs_buffer s" "rs_reports (reporter_ends F i s) = rs_reports s"
  "rs_way (reporter_ends F i s) = rs_way s" "rs_received (reporter_ends F i s) = rs_received s"
  "rs_accepted (reporter_ends F i s) = rs_accepted s" "rs_lost (reporter_ends F i s) = rs_lost s"
  "rs_phase (reporter_ends F i s) = rs_phase s"
  by (simp_all add: reporter_ends_def)

lemma session_over_inv:
  assumes "reporter_inv s"
  shows "reporter_inv (session_over F i e s)"
proof -
  obtain sent where s: "rs_accepted s = sent @ rs_reports s @ rb_buffer (rs_buffer s)"
    "subseq (filter streamed (rs_received s @ rs_way s)) (filter streamed sent)"
    "mset (filter streamed sent) = mset (filter streamed (rs_received s @ rs_way s @ rs_lost s))"
    using assms unfolding reporter_inv_def by blast
  have "subseq (filter streamed (rs_received s)) (filter streamed (rs_received s @ rs_way s))" by simp
  then have "subseq (filter streamed (rs_received s)) (filter streamed sent)" using s(2) by (rule subseq_order.trans)
  then show ?thesis using s(1, 3) unfolding reporter_inv_def by (intro conjI exI [of _ sent]) simp_all
qed

lemma waitAndDrain_cases:
  "waitAndDrain b = (b', rs, True, False) \<longleftrightarrow> rb_buffer b \<noteq> [] \<and> b' = b\<lparr>rb_buffer := []\<rparr> \<and> rs = rb_buffer b"
  "waitAndDrain b = (b', rs, True, True) \<longleftrightarrow> rb_buffer b = [] \<and> \<not> rb_closed b \<and> b' = b \<and> rs = []"
  "waitAndDrain b = (b', rs, False, t) \<longleftrightarrow> rb_buffer b = [] \<and> rb_closed b \<and> b' = b \<and> rs = [] \<and> \<not> t"
  by (auto simp: waitAndDrain_def)

lemma reporter_step_inv: "reporter_step F marshal upload i s s' \<Longrightarrow> reporter_inv s \<Longrightarrow> reporter_inv s'"
proof (induction rule: reporter_step.induct)
  case (produce s r)
  then show ?case by (auto simp: reporter_inv_def buffer_Send_def)
next
  case (send s r rs g fs)
  then obtain sent where sent: "rs_accepted s = sent @ r # rs @ rb_buffer (rs_buffer s)"
    "subseq (filter streamed (rs_received s @ rs_way s)) (filter streamed sent)"
    "mset (filter streamed sent) = mset (filter streamed (rs_received s @ rs_way s @ rs_lost s))"
    by (auto simp: reporter_inv_def)
  have "subseq (filter streamed (rs_received s @ rs_way s) @ filter streamed [r]) (filter streamed sent @ filter streamed [r])"
    using sent(2) by (simp only: subseq_append)
  then show ?case
    using sent send(1) unfolding reporter_inv_def
    by (intro conjI exI [of _ "sent @ [r]"]) (auto simp: streamed_def)
next
  case (deliver s r rs)
  then show ?case by (auto simp: reporter_inv_def)
next
  case (drain s b pending)
  then show ?case by (auto simp: reporter_inv_def waitAndDrain_cases)
next
  case (complete s b pending t)
  then show ?case by (auto simp: reporter_inv_def waitAndDrain_cases)
next
  case (close_buffer s)
  then show ?case by (auto simp: reporter_inv_def buffer_Close_def)
next
  case (open_stream s)
  then show ?case by (auto simp: reporter_inv_def)
next
  case (probe s b pending)
  then show ?case by (auto simp: reporter_inv_def)
qed (simp_all add: session_over_inv)

lemma reporter_run_inv: "(reporter_step F marshal upload i)\<^sup>*\<^sup>* s s' \<Longrightarrow> reporter_inv s \<Longrightarrow> reporter_inv s'"
  by (induction rule: rtranclp_induct) (auto intro: reporter_step_inv)

subsection \<open>The start of a grading\<close>

lemma fold_cancel_ctx [simp]:
  "set (w_cancelled (fold cancel_ctx cs g)) = set cs \<union> set (w_cancelled g)"
  "w_parent (fold cancel_ctx cs g) = w_parent g" "w_cancelChs (fold cancel_ctx cs g) = w_cancelChs g"
  by (induction cs arbitrary: g) (auto simp: cancel_ctx_def)

lemma onSubmissionFinished_cancels:
  "set (w_cancelled g) \<union> set_option (w_cancelChs g i) \<subseteq> set (w_cancelled (worker_onSubmissionFinished i g))"
  by (auto simp: worker_onSubmissionFinished_def Let_def wake_def cancel_ctx_def split: option.splits)

text \<open>Either nothing failed yet, or one failure was reported, the buffer closed and the context cancelled.\<close>

definition start_inv :: "u64 \<Rightarrow> nat \<Rightarrow> worker \<times> report_buffer \<Rightarrow> bool" where
  "start_inv i c = (\<lambda>(g, b).
     b = NewReportBuffer \<and> w_cancelChs g i = Some c \<and> \<not> ctx_cancelled g c \<or>
     c \<in> set (w_cancelled g) \<and>
       (\<exists>code \<in> {ErrCheckFileExists, ErrDownloadFile}. b = \<lparr>rb_buffer = [failed_report code], rb_closed = True\<rparr>))"

lemma fail_submission_inv:
  assumes "start_inv i c s" and "code \<in> {ErrCheckFileExists, ErrDownloadFile}"
  shows "start_inv i c (fail_submission i code s)"
  using assms onSubmissionFinished_cancels [of "fst s" i]
  by (auto simp: start_inv_def fail_submission_def NewReportBuffer_def buffer_Send_def buffer_Close_def split: prod.splits)

lemma missing_files_inv: "start_inv i c s \<Longrightarrow> start_inv i c (fst (missing_files F fs i path files s))"
proof (induction files arbitrary: s)
  case (Cons f files)
  obtain s1 ds where "missing_files F fs i path files s = (s1, ds)" by fastforce
  then show ?case
    using Cons.IH [OF Cons.prems] fail_submission_inv [OF Cons.prems] Cons.prems by (simp split: sum.splits)
qed simp

lemma missing_files_none:
  "\<forall>f \<in> set files. ls_NotExists (fl_os F) (fl_basePath F) fs (path_Join [path, f]) = Inr False \<Longrightarrow>
    missing_files F fs i path files s = (s, [])"
  by (induction files) auto

lemma downloads_inv: "start_inv i c (snd s) \<Longrightarrow> start_inv i c (snd (fold (download_one F T i) xs s))"
proof (induction xs arbitrary: s)
  case (Cons x xs)
  have "start_inv i c (snd (download_one F T i x s))"
    using Cons.prems fail_submission_inv
    by (cases s) (auto simp: download_one_def split: prod.splits option.splits)
  then show ?case using Cons.IH by simp
qed simp

lemma prepare_start:
  assumes "c = w_next g" "c \<notin> set (w_cancelled g)" "w_parent g c = None"
  shows "start_inv i c (g\<lparr>w_cancelChs := (w_cancelChs g)(i \<mapsto> c), w_next := Suc c\<rparr>, NewReportBuffer)"
  using assms by (simp add: start_inv_def ctx_cancelled_def)

subsection \<open>Properties\<close>

text \<open>
  C20: the hub gets the reports of a submission in order and none twice. In every run of a reporter, with any
  number of broken streams, the reports the hub received so far are a subsequence of those the grading
  put into the buffer; and when the reporter has finished, each of them was received, except those that were
  on their way when a stream broke.
\<close>

theorem reports_arrive_in_order:
  assumes "(reporter_step F marshal upload i)\<^sup>*\<^sup>* (reporter_start g fs b) s"
  shows "subseq (filter streamed (rs_received s)) (filter streamed (rs_accepted s)) \<and>
    (rs_phase s = Rep_finished \<longrightarrow> rb_closed (rs_buffer s) \<and>
       mset (filter streamed (rs_accepted s)) =
         mset (filter streamed (rs_received s)) + mset (filter streamed (rs_lost s)))"
proof -
  have inv: "reporter_inv s" using reporter_run_inv [OF assms reporter_inv_start] .
  then obtain sent where sent: "rs_accepted s = sent @ rs_reports s @ rb_buffer (rs_buffer s)"
    "subseq (filter streamed (rs_received s @ rs_way s)) (filter streamed sent)"
    "mset (filter streamed sent) = mset (filter streamed (rs_received s @ rs_way s @ rs_lost s))"
    unfolding reporter_inv_def by blast
  have "subseq (filter streamed (rs_received s)) (filter streamed (rs_received s @ rs_way s))" by simp
  then have "subseq (filter streamed (rs_received s)) (filter streamed sent)" using sent(2) by (rule subseq_order.trans)
  moreover have "subseq (filter streamed sent) (filter streamed (rs_accepted s))" by (simp add: sent(1))
  ultimately show ?thesis using inv sent by (auto simp: reporter_inv_def intro: subseq_order.trans)
qed

text \<open>
  C21: a terminal report can get lost. When the last report was handed to the stream and the stream breaks
  before the hub read it, the reporter opens a new stream, finds the buffer closed and nothing left to send,
  completes that stream and ends: it has finished without an error, and the hub never received the report.
\<close>

theorem final_report_can_be_lost:
  assumes "streamed r" and "\<And>t. e \<noteq> StatusErr PermissionDenied t" and "\<And>t. e \<noteq> StatusErr Unauthenticated t"
  shows "\<exists>s. (reporter_step F marshal upload i)\<^sup>*\<^sup>* (reporter_start g fs \<lparr>rb_buffer = [r], rb_closed = True\<rparr>) s \<and>
    rs_phase s = Rep_finished \<and> rs_accepted s = [r] \<and> rs_received s = []"
proof -
  let ?step = "reporter_step F marshal upload i"
  define s0 where "s0 = reporter_start g fs \<lparr>rb_buffer = [r], rb_closed = True\<rparr>"
  define s1 where "s1 = s0\<lparr>rs_phase := Rep_stream\<rparr>"
  define s2 where "s2 = s1\<lparr>rs_buffer := (rs_buffer s1)\<lparr>rb_buffer := []\<rparr>, rs_reports := [r]\<rparr>"
  have md: "GR_DockerMetadata r = None" using assms(1) by (simp add: streamed_def)
  obtain g3 fs3 where sr: "sendReport marshal upload i None r (rs_worker s2, rs_fs s2) = ((g3, fs3), None)"
    using md by (simp add: sendReport_def Let_def)
  define s3 where "s3 = s2\<lparr>rs_worker := g3, rs_fs := fs3, rs_reports := [],
    rs_way := rs_way s2 @ (if GR_DockerMetadata r = None then [r] else [])\<rparr>"
  define s4 where "s4 = session_over F i e s3"
  define s5 where "s5 = s4\<lparr>rs_phase := Rep_stream\<rparr>"
  define s6 where "s6 = reporter_ends F i (s5\<lparr>rs_phase := Rep_finished\<rparr>)"
  have b: "rb_buffer (rs_buffer s3) = []" "rb_closed (rs_buffer s3)" "rs_phase s3 = Rep_stream" "rs_reports s3 = []"
    "rs_received s3 = []" "rs_accepted s3 = [r]"
    by (simp_all add: s3_def s2_def s1_def s0_def reporter_start_def)
  have idle: "rs_phase s4 = Rep_idle"
    using assms(2, 3) by (simp add: s4_def session_over_def session_fails_def shouldRetryCallback_def Let_def)
  have "?step s0 s1" unfolding s1_def by (rule reporter_step.open_stream) (simp add: s0_def reporter_start_def)
  moreover have "?step s1 s2"
    unfolding s2_def by (rule reporter_step.drain) (simp_all add: s1_def s0_def reporter_start_def waitAndDrain_cases)
  moreover have "?step s2 s3"
    unfolding s3_def by (rule reporter_step.send [OF _ _ sr]) (simp_all add: s2_def s1_def)
  moreover have "?step s3 s4"
    unfolding s4_def by (rule reporter_step.complete_fails [where b = "rs_buffer s3" and pending = "[]" and t = False])
      (simp_all add: b waitAndDrain_cases)
  ultimately have run: "?step\<^sup>*\<^sup>* s0 s4" by (rule rtranclp_4)
  have 5: "?step s4 s5" unfolding s5_def by (rule reporter_step.open_stream) (rule idle)
  have 6: "?step s5 s6"
    unfolding s6_def by (rule reporter_step.complete [where b = "rs_buffer s5" and pending = "[]" and t = False])
      (simp_all add: b waitAndDrain_cases s5_def s4_def)
  have "?step\<^sup>*\<^sup>* s0 s6" using run 5 6 by (meson rtranclp.rtrancl_into_rtrancl)
  moreover have "rs_phase s6 = Rep_finished" "rs_accepted s6 = [r]" "rs_received s6 = []"
    by (simp_all add: s6_def s5_def s4_def b)
  ultimately show ?thesis unfolding s0_def by blast
qed

text \<open>
  How the preparation of a grading ends. When nothing but a cancellation of the submission comes in
  between, either grading starts, with an empty open buffer and a live context; or exactly one report was put into
  the buffer, that the submission failed with the code of a file that could not be looked up or downloaded,
  and the buffer is closed, however many files failed; or the submission was cancelled meanwhile.
\<close>

theorem grade_start_outcome:
  assumes "gradeOneSubmission_prepare F T reorder meanwhile i sub (fs, g) = (fs', g', b, start)"
    and "w_next g \<notin> set (w_cancelled g)" and "w_parent g (w_next g) = None"
    and "meanwhile = id \<or> meanwhile = cancel_submission i"
  shows "start \<and> b = NewReportBuffer \<and> w_cancelChs g' i = Some (w_next g) \<and> \<not> ctx_cancelled g' (w_next g) \<or>
    \<not> start \<and> (\<exists>code \<in> {ErrCheckFileExists, ErrDownloadFile}.
       b = \<lparr>rb_buffer = [failed_report code], rb_closed = True\<rparr>) \<or>
    \<not> start \<and> b = NewReportBuffer \<and> meanwhile = cancel_submission i"
proof -
  define c where "c = w_next g"
  define s0 where "s0 = (g\<lparr>w_cancelChs := (w_cancelChs g)(i \<mapsto> c), w_next := Suc c\<rparr>, NewReportBuffer)"
  have "start_inv i c s0" unfolding s0_def using assms(2, 3) by (intro prepare_start) (simp_all add: c_def)
  note 1 = missing_files_inv [OF this, of "F 0" fs "Submission_Path sub" "Submission_Files sub"]
  obtain s downloads where s: "missing_files (F 0) fs i (Submission_Path sub) (Submission_Files sub) s0 = (s, downloads)"
    by fastforce
  obtain fs2 g2 b2 where d: "fold (download_one F T i) (reorder downloads) (fs, s) = (fs2, g2, b2)"
    by (metis prod_cases3)
  have inv: "start_inv i c (g2, b2)"
    using downloads_inv [of i c "(fs, s)" F T "reorder downloads"] 1 s d by simp
  have res: "b = b2" "start = (\<not> ctx_cancelled (meanwhile g2) c)" "start \<Longrightarrow> g' = meanwhile g2"
    using assms(1) s d
    by (auto simp: gradeOneSubmission_prepare_def Let_def s0_def c_def split: if_splits)
  show ?thesis
  proof (cases "c \<in> set (w_cancelled g2)")
    case True
    then have "c \<in> set (w_cancelled (meanwhile g2))"
      using assms(4) by (auto simp: cancel_submission_def cancel_ctx_def Let_def split: option.splits)
    then have "\<not> start" using res(2) by (simp add: ctx_cancelled_def)
    then show ?thesis using inv True res(1) by (auto simp: start_inv_def ctx_cancelled_def)
  next
    case False
    then have alive: "b2 = NewReportBuffer" "w_cancelChs g2 i = Some c" "\<not> ctx_cancelled g2 c"
      using inv by (auto simp: start_inv_def)
    then have "ctx_cancelled (cancel_submission i g2) c"
      by (simp add: cancel_submission_def cancel_ctx_def ctx_cancelled_def)
    then show ?thesis using alive assms(4) res by (auto simp: c_def)
  qed
qed

text \<open>
  a submission cancelled before its container exists is never reported. When all files of the
  submission are there and the hub cancels it before the Docker grader starts, the grading ends with the buffer
  open and empty: as long as nobody else closes it, the reporter does not finish and the hub receives nothing
  but empty reports, so the submission stays in cancelling.
\<close>

theorem cancelled_start_is_silent:
  assumes "gradeOneSubmission_prepare F T reorder (cancel_submission i) i sub (fs, g) = (fs', g', b, start)"
    and "\<forall>f \<in> set (Submission_Files sub).
      ls_NotExists (fl_os (F 0)) (fl_basePath (F 0)) fs (path_Join [Submission_Path sub, f]) = Inr False"
    and "reorder [] = []"
  shows "\<not> start \<and> b = NewReportBuffer \<and>
    (\<forall>s. (reporter_step (F 0) marshal upload i)\<^sup>*\<^sup>* (reporter_start g' fs' b) s \<and> rs_accepted s = [] \<and>
       \<not> rb_closed (rs_buffer s) \<longrightarrow> rs_phase s \<noteq> Rep_finished \<and> filter streamed (rs_received s) = [])"
proof -
  have b: "b = NewReportBuffer" "\<not> start"
    using assms(1) missing_files_none [OF assms(2)] assms(3)
    by (auto simp: gradeOneSubmission_prepare_def Let_def cancel_submission_def cancel_ctx_def ctx_cancelled_def
        split: if_splits)
  have "rs_phase s \<noteq> Rep_finished \<and> filter streamed (rs_received s) = []"
    if run: "(reporter_step (F 0) marshal upload i)\<^sup>*\<^sup>* (reporter_start g' fs' b) s"
      and acc: "rs_accepted s = []" "\<not> rb_closed (rs_buffer s)" for s
    using reporter_run_inv [OF run reporter_inv_start] acc by (auto simp: reporter_inv_def)
  then show ?thesis using b by blast
qed

subsection \<open>Witnesses\<close>

definition test_files :: "(string \<rightharpoonup> bytes) files" where
  "test_files = \<lparr>fl_client = \<lparr>url_Resolve = (\<lambda>_ p. Inr p), http_Do = (\<lambda>_ _ _ _. Inl (ErrOther ''refused''))\<rparr>,
     fl_baseURL = [], fl_token = [], fl_os = map_os, fl_basePath = ''w''\<rparr>"

theorem final_report_can_be_lost_witness:
  "\<exists>s. (reporter_step test_files (\<lambda>_. Inr []) (\<lambda>_ fs. fs) 1)\<^sup>*\<^sup>*
      (reporter_start new_worker Map.empty \<lparr>rb_buffer = [status_report SubmissionStatus_Finished], rb_closed = True\<rparr>) s \<and>
    rs_phase s = Rep_finished \<and> rs_accepted s = [status_report SubmissionStatus_Finished] \<and> rs_received s = []"
  by (rule final_report_can_be_lost [of _ "StatusErr Unavailable ''connection reset''"])
    (simp_all add: streamed_def status_report_def empty_grade_report_def)

theorem reports_arrive_in_order_witness:
  "\<exists>s. (reporter_step test_files (\<lambda>_. Inr []) (\<lambda>_ fs. fs) 1)\<^sup>*\<^sup>* (reporter_start new_worker Map.empty
      \<lparr>rb_buffer = [status_report SubmissionStatus_Running], rb_closed = True\<rparr>) s \<and>
    rs_phase s = Rep_finished \<and>
    mset (filter streamed (rs_accepted s)) = mset (filter streamed (rs_received s)) + mset (filter streamed (rs_lost s))"
proof -
  let ?step = "reporter_step test_files (\<lambda>_. Inr []) (\<lambda>_ fs. fs) 1"
  define s0 :: "(string \<rightharpoonup> bytes) reporter" where
    "s0 = reporter_start new_worker Map.empty \<lparr>rb_buffer = [status_report SubmissionStatus_Running], rb_closed = True\<rparr>"
  define s1 where "s1 = s0\<lparr>rs_phase := Rep_stream\<rparr>"
  define s2 where "s2 = s1\<lparr>rs_buffer := (rs_buffer s1)\<lparr>rb_buffer := []\<rparr>, rs_reports := [status_report SubmissionStatus_Running]\<rparr>"
  define s3 where "s3 = s2\<lparr>rs_worker := new_worker, rs_fs := Map.empty, rs_reports := [],
    rs_way := rs_way s2 @ (if GR_DockerMetadata (status_report SubmissionStatus_Running) = None
      then [status_report SubmissionStatus_Running] else [])\<rparr>"
  define s4 where "s4 = s3\<lparr>rs_way := [], rs_received := rs_received s3 @ [status_report SubmissionStatus_Running]\<rparr>"
  define s5 where "s5 = reporter_ends test_files 1 (s4\<lparr>rs_phase := Rep_finished\<rparr>)"
  note defs = s4_def s3_def s2_def s1_def s0_def reporter_start_def
  have sr: "sendReport (\<lambda>_. Inr []) (\<lambda>_ fs. fs) 1 None (status_report SubmissionStatus_Running) (rs_worker s2, rs_fs s2) =
      ((new_worker, Map.empty), None)"
    by (simp add: sendReport_def status_report_def GetStatus_def is_final_def s2_def s1_def s0_def reporter_start_def)
  have "?step s0 s1" unfolding s1_def by (rule reporter_step.open_stream) (simp add: s0_def reporter_start_def)
  moreover have "?step s1 s2" unfolding s2_def
    by (rule reporter_step.drain) (simp_all add: s1_def s0_def reporter_start_def waitAndDrain_cases)
  moreover have "?step s2 s3" unfolding s3_def by (rule reporter_step.send [OF _ _ sr]) (simp_all add: s2_def s1_def)
  moreover have "?step s3 s4" unfolding s4_def
    by (rule reporter_step.deliver) (simp add: s3_def s2_def s1_def s0_def reporter_start_def status_report_def)
  ultimately have "?step\<^sup>*\<^sup>* s0 s4" by (rule rtranclp_4)
  moreover have "?step s4 s5" unfolding s5_def
    by (rule reporter_step.complete [where b = "rs_buffer s4" and pending = "[]" and t = False])
      (simp_all add: waitAndDrain_cases defs)
  ultimately have run: "?step\<^sup>*\<^sup>* s0 s5" by (rule rtranclp.rtrancl_into_rtrancl)
  have "rs_phase s5 = Rep_finished" by (simp add: s5_def)
  then show ?thesis using reports_arrive_in_order [OF run [unfolded s0_def]] run unfolding s0_def by blast
qed

theorem grade_start_outcome_witness:
  "\<exists>fs' g' b. gradeOneSubmission_prepare (\<lambda>_. test_files) (\<lambda>_. False) id id 1 test_sub (Map.empty, new_worker) =
      (fs', g', b, False) \<and> rb_closed b \<and>
    (\<exists>code \<in> {ErrCheckFileExists, ErrDownloadFile}. b = \<lparr>rb_buffer = [failed_report code], rb_closed = True\<rparr>)"
proof -
  have p: "path_Join [''uploads/manifests/1'', ''a''] = ''uploads/manifests/1/a''"
    "safeJoin ''w'' ''uploads/manifests/1/a'' = Inr ''w/uploads/manifests/1/a''" by code_simp+
  have down: "retry_Do 3 (\<lambda>_. False) (\<lambda>k fs. downloadFile test_files fs f) fs = (fs, Some (ErrOther ''refused''))" for f fs
    by (simp add: eval_nat_numeral downloadFile_def test_files_def sfs_Get_def)
  obtain fs' g' b where run: "gradeOneSubmission_prepare (\<lambda>_. test_files) (\<lambda>_. False) id id 1 test_sub (Map.empty, new_worker) =
      (fs', g', b, False)" and closed: "rb_closed b"
    using down by (simp add: gradeOneSubmission_prepare_def test_sub_def ls_NotExists_def download_one_def p Let_def
        new_worker_def fail_submission_def worker_onSubmissionFinished_def cancel_ctx_def wake_def ctx_cancelled_def
        waiters_of_def buffer_Close_def test_files_def map_os_def)
  have "b \<noteq> NewReportBuffer" using closed by (auto simp: NewReportBuffer_def)
  then show ?thesis using grade_start_outcome [OF run] run closed by (simp add: new_worker_def)
qed

theorem cancelled_start_is_silent_witness:
  "\<exists>fs' g'. gradeOneSubmission_prepare (\<lambda>_. test_files) (\<lambda>_. False) id (cancel_submission 1) 1 test_sub
      ([''w/uploads/manifests/1/a'' \<mapsto> ''x''], new_worker) = (fs', g', NewReportBuffer, False)"
proof -
  have p: "path_Join [''uploads/manifests/1'', ''a''] = ''uploads/manifests/1/a''"
    "safeJoin ''w'' ''uploads/manifests/1/a'' = Inr ''w/uploads/manifests/1/a''"
    "Clean ''w/uploads/manifests/1/a'' = ''w/uploads/manifests/1/a''" by code_simp+
  obtain fs' g' b st where run: "gradeOneSubmission_prepare (\<lambda>_. test_files) (\<lambda>_. False) id (cancel_submission 1) 1 test_sub
      ([''w/uploads/manifests/1/a'' \<mapsto> ''x''], new_worker) = (fs', g', b, st)" by (metis prod_cases4)
  have there: "\<forall>f \<in> set (Submission_Files test_sub). ls_NotExists (fl_os test_files) (fl_basePath test_files)
      [''w/uploads/manifests/1/a'' \<mapsto> ''x''] (path_Join [Submission_Path test_sub, f]) = Inr False"
    by (simp add: test_sub_def test_files_def ls_NotExists_def map_os_def p)
  show ?thesis using cancelled_start_is_silent [OF run there] run by simp
qed

end
