(* ===== verification/FileSvc.thy ===== *)
theory FileSvc
  imports SubmissionSvc Text
begin

section \<open>Uploads and downloads: pkg/grpc/file.go\<close>

text \<open>
  The RPCs that hand out transfer tokens and the two HTTP handlers that honour them. A token is signed over
  a path or over a manifest, a file name and a limit. \<open>HandleFileUpload\<close> holds the lock of the manifest in
  two separate sections, around which other requests run: the sections are definitions of their own.
  The multipart parser is a parameter: its result is part of the request.
\<close>

subsection \<open>Text of a request\<close>

definition isFilenameInvalid :: "string \<Rightarrow> bool" where
  "isFilenameInvalid filename \<longleftrightarrow> length filename = 0 \<or> sublist ''..'' filename \<or> IsAbs filename"

text \<open>\<open>os.ErrNotExist\<close>.\<close>

definition ErrNotExist :: error where
  "ErrNotExist = ErrOther ''file does not exist''"

subsection \<open>Downloads\<close>

datatype download_file_type = DownloadFileType_Binary | DownloadFileType_Text | DownloadFileType_Image
  | DownloadFileType_PDF

record init_download_response =
  ID_FileType :: download_file_type
  ID_Token :: string
  ID_Filename :: string
  ID_Filesize :: u64

definition download_type :: "string \<Rightarrow> download_file_type" where
  "download_type fileType =
     (if fileType = ''application/pdf'' then DownloadFileType_PDF
      else if prefix ''image/'' fileType then DownloadFileType_Image
      else if prefix ''text/plain'' fileType then DownloadFileType_Text
      else DownloadFileType_Binary)"

definition outputs_path :: "u64 \<Rightarrow> string" where
  "outputs_path submissionId = ''runs/submissions/'' @ id_text submissionId @ ''/results/outputs''"

text \<open>The file a request names: among the outputs of the run, or among the files of the submission.\<close>

definition download_path :: "submission \<Rightarrow> u64 \<Rightarrow> bool \<Rightarrow> string \<Rightarrow> string" where
  "download_path sub submissionId isOutput filename =
     (if isOutput then path_Join [outputs_path submissionId, filename]
      else path_Join [Submission_Path sub, filename])"

definition InitDownload ::
    "'fs lib \<Rightarrow> time \<Rightarrow> u64 \<Rightarrow> bool \<Rightarrow> bool \<Rightarrow> string \<Rightarrow> ('db, 'fs) svc \<Rightarrow> ctx \<Rightarrow>
      ('db, 'fs) svc \<times> (error + init_download_response)" where
  "InitDownload L now submissionId isDirectory isOutput filename a c =
     attempt a (must (cx_submission c)) (\<lambda>sub.
       if isDirectory then
         (let fn = ''submission_'' @ id_text submissionId @ ''.zip'' in
          attempt a (or_status (signPayloadToken (lib_jwt L) now (downloadJWTSignKey a) (C_DownloadToken L)
              \<lparr>DL_RealPath = Submission_Path sub, DL_Filename = fn, DL_IsDirectory = True,
               DL_SubmissionId = submissionId\<rparr> (now + TransferTokenValidDuration)) Internal ''SIGN_JWT'')
            (\<lambda>ss. (a, Inr \<lparr>ID_FileType = DownloadFileType_Binary, ID_Token = ss, ID_Filename = fn,
              ID_Filesize = 0\<rparr>)))
       else
         attempt a (guard (isFilenameInvalid filename) InvalidArgument ''INVALID_FILENAME'') (\<lambda>_.
           let realpath = download_path sub submissionId isOutput filename; fn = path_Base filename in
           attempt a (or_status (ls_Open (lib_os L) (svc_basePath a) (svc_fs a) realpath)
               Internal ''OPEN_FILE'') (\<lambda>file.
           attempt a (or_status (ls_Size (lib_os L) (svc_basePath a) (svc_fs a) realpath)
               Internal ''FILE_SIZE'') (\<lambda>filesize.
           attempt a (or_status (signPayloadToken (lib_jwt L) now (downloadJWTSignKey a) (C_DownloadToken L)
               \<lparr>DL_RealPath = realpath, DL_Filename = fn, DL_IsDirectory = False, DL_SubmissionId = 0\<rparr>
               (now + TransferTokenValidDuration)) Internal ''SIGN_JWT'') (\<lambda>ss.
             (a, Inr \<lparr>ID_FileType = download_type (DetectContentType L (take MIMESniffLength file)),
               ID_Token = ss, ID_Filename = fn, ID_Filesize = filesize\<rparr>))))))"

text \<open>The answer of the HTTP handlers: a bare status, a file, or an archive.\<close>

datatype http_response = Http_Status nat | Http_File string bytes | Http_Zip string "(string \<times> bytes) list"

text \<open>
  Every file is opened before the archive is begun: the first that cannot be opened fails the request.
  \<open>tokenQuery\<close> is the \<open>token\<close> parameter of the URL, \<open>fn\<close> the last element of its path. Only the database and
  the files are read. The client is taken to read the answer.
\<close>

definition HandleFileDownload ::
    "'db env \<Rightarrow> 'fs lib \<Rightarrow> time \<Rightarrow> string \<Rightarrow> string \<Rightarrow> ('db, 'fs) svc \<Rightarrow> http_response" where
  "HandleFileDownload E L now tokenQuery fn a =
     (case parseTokenPayload (lib_jwt L) now (downloadJWTSignKey a) (TrimSpace tokenQuery) of
        Inl e \<Rightarrow> Http_Status 400
      | Inr raw \<Rightarrow>
          (case Unmarshal (C_DownloadToken L) raw of
             Inl e \<Rightarrow> Http_Status 400
           | Inr payload \<Rightarrow>
               if \<not> DL_IsDirectory payload then
                 (if fn \<noteq> DL_Filename payload then Http_Status 400
                  else (case ls_Open (lib_os L) (svc_basePath a) (svc_fs a) (DL_RealPath payload) of
                          Inl e \<Rightarrow> Http_Status 400
                        | Inr file \<Rightarrow> Http_File fn file))
               else
                 (case Repo_GetSubmission E (svc_db a) (DL_SubmissionId payload) of
                    Inl e \<Rightarrow> Http_Status 400
                  | Inr sub \<Rightarrow>
                      (case collect (\<lambda>f. ls_Open (lib_os L) (svc_basePath a) (svc_fs a)
                          (path_Join [Submission_Path sub, f])) (Submission_Files sub) of
                         Inl e \<Rightarrow> Http_Status 500
                       | Inr files \<Rightarrow> Http_Zip fn (zip (Submission_Files sub) files)))))"

subsection \<open>The files of a manifest\<close>

definition DeleteFileInManifest ::
    "'db env \<Rightarrow> 'fs lib \<Rightarrow> u64 \<Rightarrow> string \<Rightarrow> ('db, 'fs) svc \<Rightarrow> ('db, 'fs) svc \<times> (error + unit)" where
  "DeleteFileInManifest E L manifestId filename a =
     attempt a (guard (isFilenameInvalid filename) InvalidArgument ''INVALID_FILENAME'') (\<lambda>_.
       case LockManifest E (svc_db a) (svc_locks a) manifestId of
         None \<Rightarrow> (a, Inl Diverges)
       | Some (locks1, Some e) \<Rightarrow> (a, Inl (StatusErr InvalidArgument ''INVALID_MANIFEST_ID''))
       | Some (locks1, None) \<Rightarrow>
           let a1 = (with_db a (fst (Repo_DeleteFileInManifest E (svc_db a) filename manifestId)))
                 \<lparr>svc_locks := locks1 - {manifestId}\<rparr>
           in (case ls_Delete (lib_os L) (svc_basePath a) (svc_fs a)
                   (path_Join [getManifestPath manifestId, filename]) of
                 (fs1, r) \<Rightarrow>
                   if r \<noteq> None \<and> r \<noteq> Some ErrNotExist
                   then (a1\<lparr>svc_fs := fs1\<rparr>, Inl (StatusErr InvalidArgument ''DELETE_FAILED''))
                   else (a1\<lparr>svc_fs := fs1\<rparr>, Inr ())))"

definition CreateManifest ::
    "'db env \<Rightarrow> time \<Rightarrow> u64 \<Rightarrow> ('db, 'fs) svc \<Rightarrow> ctx \<Rightarrow> ('db, 'fs) svc \<times> (error + u64)" where
  "CreateManifest E now assignmentId a c =
     attempt a (must (cx_user c)) (\<lambda>user.
     attempt a (must (cx_assignment c)) (\<lambda>asg.
       case Repo_CreateManifest E (svc_db a) (svc_manifest_seq a) now (UT_UserId user) assignmentId
           (Assignment_UploadLimit asg) of
         (db1, q1, r) \<Rightarrow>
           ((with_db a db1)\<lparr>svc_manifest_seq := q1\<rparr>, or_status r Internal ''CREATE_MANIFEST'')))"

text \<open>
  The space left is computed before the name is checked and under the name as it was sent. The lock is taken
  and given back, so the state does not change.
\<close>

definition InitUpload ::
    "'db env \<Rightarrow> 'fs lib \<Rightarrow> time \<Rightarrow> u64 \<Rightarrow> string \<Rightarrow> u64 \<Rightarrow> ('db, 'fs) svc \<Rightarrow> ctx \<Rightarrow>
      ('db, 'fs) svc \<times> (error + string)" where
  "InitUpload E L now manifestId filename filesize a c =
     attempt a (must (cx_user c)) (\<lambda>user.
     attempt a (or_status (GetManifest E (svc_db a) manifestId) InvalidArgument ''INVALID_MANIFEST_ID'')
       (\<lambda>manifest.
     attempt a (guard (Manifest_UserId manifest \<noteq> UT_UserId user) InvalidArgument ''DIFFERENT_USER'') (\<lambda>_.
       case LockManifest E (svc_db a) (svc_locks a) manifestId of
         None \<Rightarrow> (a, Inl Diverges)
       | Some (locks1, Some e) \<Rightarrow> (a, Inl (StatusErr InvalidArgument ''LOCK_MANIFEST''))
       | Some (locks1, None) \<Rightarrow>
           attempt a (or_status (GetManifestFilesize E (svc_db a) manifestId) Internal ''GET_SIZE'') (\<lambda>stored.
             let total = (case GetManifestFileMetadata E (svc_db a) filename manifestId of
                   Inl e \<Rightarrow> stored | Inr originalFile \<Rightarrow> stored - File_Filesize originalFile) in
             attempt a (guard (filesize = 0 \<or> Manifest_UploadLimit manifest < total + filesize)
                 ResourceExhausted ''NO_SPACE'') (\<lambda>_.
             attempt a (guard (isFilenameInvalid filename) InvalidArgument ''INVALID_FILENAME'') (\<lambda>_.
               (a, signPayloadToken (lib_jwt L) now (uploadJWTSignKey a) (C_UploadToken L)
                  \<lparr>UP_ManifestId = manifestId, UP_Filename = Clean filename, UP_Filesize = filesize,
                   UP_UploadLimit = Manifest_UploadLimit manifest\<rparr>
                  (now + TransferTokenValidDuration))))))))"

subsection \<open>HandleFileUpload\<close>

text \<open>
  The upload request: the two headers, and what the multipart parser makes of the body: the declared size
  of the file, whether its head can be read and it can be rewound, and its contents.
\<close>

record multipart_file =
  mf_Size :: "64 word"
  mf_head_read :: bool
  mf_seek :: bool
  mf_data :: bytes

record upload_request =
  up_contentType :: string
  up_token :: string
  up_form :: "error + multipart_file"

text \<open>The request up to the first lock: the status it fails with, or the payload of the token and the file.\<close>

definition upload_parse ::
    "'fs lib \<Rightarrow> time \<Rightarrow> ('db, 'fs) svc \<Rightarrow> upload_request \<Rightarrow> nat + upload_token \<times> multipart_file" where
  "upload_parse L now a r =
     (case parseTokenPayload (lib_jwt L) now (uploadJWTSignKey a) (TrimSpace (up_token r)) of
        Inl e \<Rightarrow> Inl 400
      | Inr raw \<Rightarrow>
          (case Unmarshal (C_UploadToken L) raw of
             Inl e \<Rightarrow> Inl 400
           | Inr payload \<Rightarrow>
               if \<not> prefix ''multipart/form-data; boundary'' (ToLower (TrimSpace (up_contentType r)))
               then Inl 400
               else (case up_form r of
                       Inl e \<Rightarrow> Inl 400
                     | Inr file \<Rightarrow>
                         if sint (mf_Size file) \<le> 0 then Inl 411
                         else if \<not> mf_head_read file \<or> \<not> mf_seek file then Inl 500
                         else Inr (payload, file))))"

text \<open>
  The first section: the old entry of the name is removed, then the space is checked. \<open>None\<close> is waiting for
  the lock; then the status the request fails with, if it does.
\<close>

definition upload_admit ::
    "'db env \<Rightarrow> ('db, 'fs) svc \<Rightarrow> upload_token \<Rightarrow> u64 \<Rightarrow> (('db, 'fs) svc \<times> nat option) option" where
  "upload_admit E a payload n =
     (case LockManifest E (svc_db a) (svc_locks a) (UP_ManifestId payload) of
        None \<Rightarrow> None
      | Some (locks1, Some e) \<Rightarrow> Some (a, Some 400)
      | Some (locks1, None) \<Rightarrow>
          let db1 = (case GetManifestFileMetadata E (svc_db a) (UP_Filename payload) (UP_ManifestId payload) of
                Inl e \<Rightarrow> svc_db a
              | Inr originalFile \<Rightarrow>
                  fst (Repo_DeleteFileInManifest E (svc_db a) (UP_Filename payload) (UP_ManifestId payload)));
              a1 = (with_db a db1)\<lparr>svc_locks := locks1 - {UP_ManifestId payload}\<rparr>
          in (case GetManifestFilesize E db1 (UP_ManifestId payload) of
                Inl e \<Rightarrow> Some (a1, Some 500)
              | Inr current \<Rightarrow>
                  if UP_UploadLimit payload < current + n then Some (a1, Some 406)
                  else Some (a1, None)))"

definition upload_store ::
    "'fs lib \<Rightarrow> ('db, 'fs) svc \<Rightarrow> upload_token \<Rightarrow> bytes \<Rightarrow> ('db, 'fs) svc \<times> nat option" where
  "upload_store L a payload data =
     (case ls_Put (lib_os L) (svc_basePath a) (svc_fs a)
         (path_Join [getManifestPath (UP_ManifestId payload), UP_Filename payload]) data of
        (fs1, r) \<Rightarrow> (a\<lparr>svc_fs := fs1\<rparr>, if r = None then None else Some 500))"

text \<open>The second section, which always ends the request.\<close>

definition upload_record ::
    "'db env \<Rightarrow> ('db, 'fs) svc \<Rightarrow> upload_token \<Rightarrow> u64 \<Rightarrow> (('db, 'fs) svc \<times> nat) option" where
  "upload_record E a payload n =
     (case LockManifest E (svc_db a) (svc_locks a) (UP_ManifestId payload) of
        None \<Rightarrow> None
      | Some (locks1, Some e) \<Rightarrow> Some (a, 500)
      | Some (locks1, None) \<Rightarrow>
          (case AddFileToManifest E (svc_db a) (UP_Filename payload) (UP_ManifestId payload) n of
             (db1, r) \<Rightarrow>
               Some ((with_db a db1)\<lparr>svc_locks := locks1 - {UP_ManifestId payload}\<rparr>,
                 if r = None then 200 else 500)))"

text \<open>The whole handler when nothing runs in between.\<close>

definition HandleFileUpload ::
    "'db env \<Rightarrow> 'fs lib \<Rightarrow> time \<Rightarrow> upload_request \<Rightarrow> ('db, 'fs) svc \<Rightarrow> (('db, 'fs) svc \<times> nat) option" where
  "HandleFileUpload E L now r a =
     (case upload_parse L now a r of
        Inl s \<Rightarrow> Some (a, s)
      | Inr (payload, file) \<Rightarrow>
          (case upload_admit E a payload (mf_Size file) of
             None \<Rightarrow> None
           | Some (a1, Some s) \<Rightarrow> Some (a1, s)
           | Some (a1, None) \<Rightarrow>
               (case upload_store L a1 payload (mf_data file) of
                  (a2, Some s) \<Rightarrow> Some (a2, s)
                | (a2, None) \<Rightarrow> upload_record E a2 payload (mf_Size file))))"

definition PushFile :: "'fs lib \<Rightarrow> string \<Rightarrow> bytes \<Rightarrow> ('db, 'fs) svc \<Rightarrow> ('db, 'fs) svc \<times> nat" where
  "PushFile L uploadPath body a =
     (case ls_Put (lib_os L) (svc_basePath a) (svc_fs a) uploadPath body of
        (fs1, r) \<Rightarrow> (a\<lparr>svc_fs := fs1\<rparr>, if r = None then 200 else 500))"

text \<open>
  The receiving end of the manifest collector: the directories of the manifests whose ids it sends are
  removed, errors only logged.
\<close>

definition gc_delete_path :: "'fs lib \<Rightarrow> ('db, 'fs) svc \<Rightarrow> u64 \<Rightarrow> ('db, 'fs) svc" where
  "gc_delete_path L a manifestId =
     a\<lparr>svc_fs := fst (ls_Delete (lib_os L) (svc_basePath a) (svc_fs a) (getManifestPath manifestId))\<rparr>"

definition manifestGarbageCollect ::
    "'db env \<Rightarrow> 'fs lib \<Rightarrow> (nat \<Rightarrow> time) \<Rightarrow> (nat \<Rightarrow> bool) \<Rightarrow> ('db, 'fs) svc \<Rightarrow> ('db, 'fs) svc" where
  "manifestGarbageCollect E L clock accepts a =
     (case manifest_gc_sweep E clock accepts (svc_db a) of
        (db1, ids) \<Rightarrow> foldl (gc_delete_path L) (with_db a db1) ids)"

subsection \<open>The sections of an upload\<close>

text \<open>The space the files of a manifest take, as a natural number.\<close>

definition space :: "(string \<times> u64) list \<Rightarrow> nat" where
  "space fs = sum_list (map (\<lambda>x. unat (snd x)) fs)"

definition without :: "string \<Rightarrow> (string \<times> u64) list \<Rightarrow> (string \<times> u64) list" where
  "without f fs = filter (\<lambda>x. fst x \<noteq> f) fs"

lemma space_simps [simp]: "space [] = 0" "space (x # fs) = unat (snd x) + space fs"
  by (simp_all add: space_def)

lemma space_without: "space (without f fs) \<le> space fs"
  by (induction fs) (auto simp: without_def)

lemma without_new: "f \<notin> fst ` set fs \<Longrightarrow> without f fs = fs"
  by (auto simp: without_def filter_id_conv)

lemma in_without [simp]: "f \<notin> fst ` set (without f fs)"
  by (auto simp: without_def)

lemma unat_total: "space fs < 2 ^ 64 \<Longrightarrow> unat (sum_list (map snd fs)) = space fs"
proof (induction fs)
  case (Cons x fs)
  then have "unat (snd x) + unat (sum_list (map snd fs)) < 2 ^ 64" by simp
  then have "unat (snd x + sum_list (map snd fs)) = unat (snd x) + unat (sum_list (map snd fs))"
    using no_olen_add_nat [of "snd x" "sum_list (map snd fs)"]
    by (simp add: unat_plus_simple no_olen_add_nat)
  then show ?case using Cons by simp
qed simp

lemma signed_take_bit_small: "0 \<le> k \<Longrightarrow> k < 2 ^ n \<Longrightarrow> signed_take_bit n k = (k :: int)"
  by (simp add: signed_take_bit_int_eq_self_iff order_trans [of _ 0])

lemma uint_less_iff: "uint (w :: u64) < 2 ^ n \<longleftrightarrow> unat w < 2 ^ n"
proof -
  have "uint w < 2 ^ n \<longleftrightarrow> int (unat w) < int (2 ^ n)" by simp
  then show ?thesis by (simp only: of_nat_less_iff)
qed

lemma sint_small: "unat (w :: u64) < 2 ^ 63 \<Longrightarrow> sint w = int (unat w)"
  using signed_take_bit_small [of "uint w" 63] uint_less_iff [of w 63] by (simp add: sint_uint)

context store_up
begin

lemma filesize_small:
  assumes "manifest_files E view db i fs" and "space fs < 2 ^ 63"
  shows "\<exists>c. GetManifestFilesize E db i = Inr c \<and> unat c = space fs"
proof -
  have u: "unat (sum_list (map snd fs)) = space fs" using unat_total assms(2) by simp
  then have "\<not> sint (sum_list (map snd fs)) < 0" using sint_small assms(2) by simp
  then show ?thesis using manifest_files_read(1) [OF assms(1)] u by simp
qed

lemma delete_old_entry:
  assumes "manifest_files E view db i fs"
  shows "manifest_files E view (case GetManifestFileMetadata E db f i of Inl e \<Rightarrow> db
      | Inr m \<Rightarrow> fst (Repo_DeleteFileInManifest E db f i)) i (without f fs)"
proof (cases "map_of fs f")
  case None
  then have "without f fs = fs" by (auto simp: map_of_eq_None_iff intro: without_new)
  then show ?thesis using assms manifest_files_read(2) [OF assms, of f] None by simp
next
  case (Some n)
  then have m: "GetManifestFileMetadata E db f i = Inr \<lparr>File_ManifestId = i, File_Filesize = n\<rparr>"
    using manifest_files_read(2) [OF assms, of f] by simp
  obtain op where op: "Marshal (C_Mergeable E) (Some (Counter (- n))) = Inr op" using codec_counter by blast
  obtain db1 where c: "pcommit E db [BMerge (getFilesizeKey i) op, BDelete (getFileKey i f)] = (db1, None)"
    using commit_up by blast
  have "Repo_DeleteFileInManifest E db f i = (db1, None)"
    using m op c by (simp add: Repo_DeleteFileInManifest_def GetManifestFileMetadata_def batch_all_up
        del: batch_all.simps)
  with DeleteFileInManifest_files [OF assms this] m show ?thesis by (simp add: without_def)
qed

text \<open>What the two locked sections do to the files of the manifest of the token.\<close>

lemma upload_admit_cases:
  assumes files: "manifest_files E view (svc_db a) (UP_ManifestId p) fs"
    and small: "space fs < 2 ^ 63" "unat n < 2 ^ 63"
    and step: "upload_admit E a p n = Some (a1, r)"
  obtains (unknown) "r = Some 400" "a1 = a"
    | (checked) db1 where "manifest_files E view db1 (UP_ManifestId p) (without (UP_Filename p) fs)"
      "a1 = (with_db a db1)\<lparr>svc_locks := svc_locks a\<rparr>"
      "r = (if unat (UP_UploadLimit p) < space (without (UP_Filename p) fs) + unat n then Some 406 else None)"
proof -
  obtain locks1 l where lock: "LockManifest E (svc_db a) (svc_locks a) (UP_ManifestId p) = Some (locks1, l)"
    using step by (cases "LockManifest E (svc_db a) (svc_locks a) (UP_ManifestId p)")
      (auto simp: upload_admit_def)
  show thesis
  proof (cases l)
    case (Some e)
    then show ?thesis using unknown step lock by (simp add: upload_admit_def)
  next
    case None
    then have free: "locks1 - {UP_ManifestId p} = svc_locks a"
      using lock by (auto simp: LockManifest_def split: if_splits sum.splits)
    define db1 where "db1 = (case GetManifestFileMetadata E (svc_db a) (UP_Filename p) (UP_ManifestId p) of
        Inl e \<Rightarrow> svc_db a
      | Inr m \<Rightarrow> fst (Repo_DeleteFileInManifest E (svc_db a) (UP_Filename p) (UP_ManifestId p)))"
    have f1: "manifest_files E view db1 (UP_ManifestId p) (without (UP_Filename p) fs)"
      unfolding db1_def by (rule delete_old_entry [OF files])
    have le: "space (without (UP_Filename p) fs) < 2 ^ 63" using space_without small(1) by (rule le_less_trans)
    obtain c where c: "GetManifestFilesize E db1 (UP_ManifestId p) = Inr c"
      "unat c = space (without (UP_Filename p) fs)"
      using filesize_small [OF f1 le] by blast
    have "unat (c + n) = unat c + unat n" using le small(2) c(2) by (intro unat_u64_add) simp
    then have "UP_UploadLimit p < c + n \<longleftrightarrow>
        unat (UP_UploadLimit p) < space (without (UP_Filename p) fs) + unat n"
      using c(2) by (simp add: word_less_nat_alt)
    then have "a1 = (with_db a db1)\<lparr>svc_locks := svc_locks a\<rparr>"
      "r = (if unat (UP_UploadLimit p) < space (without (UP_Filename p) fs) + unat n then Some 406 else None)"
      using step lock None free c(1) by (auto simp: upload_admit_def Let_def simp flip: db1_def split: if_splits)
    then show ?thesis by (rule checked [OF f1])
  qed
qed

lemma upload_admitted:
  assumes "manifest_files E view (svc_db a) (UP_ManifestId p) fs"
    and "space fs < 2 ^ 63" "unat n < 2 ^ 63" and "upload_admit E a p n = Some (a1, None)"
  shows "manifest_files E view (svc_db a1) (UP_ManifestId p) (without (UP_Filename p) fs) \<and>
    space (without (UP_Filename p) fs) + unat n \<le> unat (UP_UploadLimit p)"
proof (cases rule: upload_admit_cases [OF assms, case_names unknown checked])
  case (checked db1)
  then show ?thesis by (simp add: svc_db_def with_db_def not_less split: if_splits)
qed simp

lemma upload_record_cases:
  assumes files: "manifest_files E view (svc_db a) (UP_ManifestId p) fs" and new: "UP_Filename p \<notin> fst ` set fs"
    and step: "upload_record E a p n = Some (a1, s)"
  obtains (recorded) "s = 200" "manifest_files E view (svc_db a1) (UP_ManifestId p) ((UP_Filename p, n) # fs)"
    | (failed) "s = 500" "manifest_files E view (svc_db a1) (UP_ManifestId p) fs"
proof -
  obtain locks1 l where lock: "LockManifest E (svc_db a) (svc_locks a) (UP_ManifestId p) = Some (locks1, l)"
    using step by (cases "LockManifest E (svc_db a) (svc_locks a) (UP_ManifestId p)")
      (auto simp: upload_record_def)
  show thesis
  proof (cases l)
    case (Some e)
    then show ?thesis using failed files step lock by (simp add: upload_record_def)
  next
    case None
    obtain db1 r where add: "AddFileToManifest E (svc_db a) (UP_Filename p) (UP_ManifestId p) n = (db1, r)"
      by fastforce
    then have a1: "svc_db a1 = db1" "s = (if r = None then 200 else 500)"
      using step lock None by (auto simp: upload_record_def svc_db_def with_db_def)
    show ?thesis
    proof (cases r)
      case None
      then show ?thesis using recorded a1 AddFileToManifest_files [OF files new] add by simp
    next
      case (Some e)
      have "pcommit E (svc_db a) ops \<noteq> (db1, Some e)" for ops using commit_up [of "svc_db a" ops] by auto
      then have "db1 = svc_db a"
        using add Some by (simp add: AddFileToManifest_def batch_all_up del: batch_all.simps split: sum.splits)
      then show ?thesis using failed files a1 Some by simp
    qed
  qed
qed

text \<open>The two sections for a file the manifest has not, when its lock is free.\<close>

lemma upload_admit_new:
  assumes files: "manifest_files E view (svc_db a) (UP_ManifestId p) fs" and new: "UP_Filename p \<notin> fst ` set fs"
    and small: "space fs < 2 ^ 63" "unat n < 2 ^ 63" and lock: "UP_ManifestId p \<notin> svc_locks a"
    and meta: "view (svc_db a) (manifest_getMetadataKey (UP_ManifestId p)) \<noteq> None"
  shows "upload_admit E a p n = Some (a, if space fs + unat n \<le> unat (UP_UploadLimit p) then None else Some 406)"
proof -
  have "map_of fs (UP_Filename p) = None" using new by (simp add: map_of_eq_None_iff)
  then have "\<exists>e. GetManifestFileMetadata E (svc_db a) (UP_Filename p) (UP_ManifestId p) = Inl e"
    using manifest_files_read(2) [OF files, of "UP_Filename p"] by simp
  moreover have "LockManifest E (svc_db a) (svc_locks a) (UP_ManifestId p) = Some (insert (UP_ManifestId p) (svc_locks a), None)"
    using lock meta by (auto simp: LockManifest_def dest: get_present)
  moreover obtain c where c: "GetManifestFilesize E (svc_db a) (UP_ManifestId p) = Inr c" "unat c = space fs"
    using filesize_small [OF files small(1)] by blast
  moreover have "UP_UploadLimit p < c + n \<longleftrightarrow> \<not> space fs + unat n \<le> unat (UP_UploadLimit p)"
    using small c(2) unat_u64_add [of c n] by (simp add: word_less_nat_alt not_le)
  moreover have "(with_db a (svc_db a))\<lparr>svc_locks := svc_locks a\<rparr> = a" by (simp add: with_db_def svc_db_def)
  ultimately show ?thesis using lock by (auto simp: upload_admit_def)
qed

lemma upload_record_new:
  assumes files: "manifest_files E view (svc_db a) (UP_ManifestId p) fs" and new: "UP_Filename p \<notin> fst ` set fs"
    and lock: "UP_ManifestId p \<notin> svc_locks a"
    and meta: "view (svc_db a) (manifest_getMetadataKey (UP_ManifestId p)) \<noteq> None"
    and marshal: "\<And>m. \<exists>raw. Marshal (C_File E) m = Inr raw"
  shows "\<exists>a1. upload_record E a p n = Some (a1, 200) \<and> svc_locks a1 = svc_locks a \<and>
    manifest_files E view (svc_db a1) (UP_ManifestId p) ((UP_Filename p, n) # fs) \<and>
    view (svc_db a1) (manifest_getMetadataKey (UP_ManifestId p)) \<noteq> None"
proof -
  obtain raw op where m: "Marshal (C_File E) \<lparr>File_ManifestId = UP_ManifestId p, File_Filesize = n\<rparr> = Inr raw"
    "Marshal (C_Mergeable E) (Some (Counter n)) = Inr op"
    using marshal codec_counter by meson
  obtain db1 where "pcommit E (svc_db a) [BSet (getFileKey (UP_ManifestId p) (UP_Filename p)) raw,
      BMerge (getFilesizeKey (UP_ManifestId p)) op] = (db1, None)" using commit_up by blast
  then have add: "AddFileToManifest E (svc_db a) (UP_Filename p) (UP_ManifestId p) n = (db1, None)"
    using m by (simp add: AddFileToManifest_def batch_all_up del: batch_all.simps)
  obtain base where base: "view (svc_db a) (getFilesizeKey (UP_ManifestId p)) = Some base"
    "Unmarshal (C_Mergeable E) base = Inr (Some (Counter (sum_list (map snd fs))))"
    using files unfolding manifest_files_def by blast
  have "view db1 (manifest_getMetadataKey (UP_ManifestId p)) = view (svc_db a) (manifest_getMetadataKey (UP_ManifestId p))"
    using AddFileToManifest_ok [OF base add] by auto
  moreover have "LockManifest E (svc_db a) (svc_locks a) (UP_ManifestId p) = Some (insert (UP_ManifestId p) (svc_locks a), None)"
    using lock meta by (auto simp: LockManifest_def dest: get_present)
  ultimately show ?thesis
    using AddFileToManifest_files [OF files new add] add lock meta
    by (auto simp: upload_record_def svc_db_def with_db_def)
qed

end

lemma upload_parse_size:
  assumes "upload_parse L now a r = Inr (p, file)"
  shows "unat (mf_Size file) < 2 ^ 63"
proof -
  have "0 < sint (mf_Size file)" using assms by (auto simp: upload_parse_def split: sum.splits if_splits)
  moreover have "sint (mf_Size file) < 2 ^ 63" using sint_lt [of "mf_Size file"] by simp
  ultimately have "uint (mf_Size file) < 2 ^ 63" by (subst uint_sint) (simp add: take_bit_int_eq_self)
  then show ?thesis by (simp only: uint_less_iff)
qed

subsection \<open>Overlapping uploads\<close>

text \<open>
  Two uploads of which both have passed the first section before either reaches the second; \<open>None\<close> when one
  of them is refused or has to wait. The statuses are those of the first and of the second.
\<close>

definition overlapping_uploads ::
    "'db env \<Rightarrow> 'fs lib \<Rightarrow> ('db, 'fs) svc \<Rightarrow> upload_token \<times> multipart_file \<Rightarrow>
      upload_token \<times> multipart_file \<Rightarrow> (('db, 'fs) svc \<times> nat \<times> nat) option" where
  "overlapping_uploads E L a = (\<lambda>(p, x) (q, y).
     (case upload_admit E a p (mf_Size x) of
        Some (a1, None) \<Rightarrow>
          (case upload_admit E a1 q (mf_Size y) of
             Some (a2, None) \<Rightarrow>
               (case upload_store L a2 p (mf_data x) of
                  (a3, None) \<Rightarrow>
                    (case upload_store L a3 q (mf_data y) of
                       (a4, None) \<Rightarrow>
                         (case upload_record E a4 p (mf_Size x) of
                            Some (a5, s) \<Rightarrow>
                              map_option (\<lambda>(a6, t). (a6, s, t)) (upload_record E a5 q (mf_Size y))
                          | None \<Rightarrow> None)
                     | _ \<Rightarrow> None)
                | _ \<Rightarrow> None)
           | _ \<Rightarrow> None)
      | _ \<Rightarrow> None))"

lemma upload_store_db: "upload_store L a p d = (a', r) \<Longrightarrow> svc_db a' = svc_db a"
  by (auto simp: upload_store_def svc_db_def split: prod.splits)

subsection \<open>Where the file of a token goes\<close>

abbreviation names :: "string \<Rightarrow> string list" where
  "names p \<equiv> filter (\<lambda>s. s \<noteq> [] \<and> s \<noteq> ''.'') (Split_slash p)"

lemma clean_elems_append: "clean_elems r out (xs @ ys) = clean_elems r (rev (clean_elems r out xs)) ys"
  by (induction r out xs rule: clean_elems.induct) (auto split: list.splits)

lemma clean_elems_no_dots:
  "''..'' \<notin> set ss \<Longrightarrow> clean_elems r out ss = rev out @ filter (\<lambda>s. s \<noteq> [] \<and> s \<noteq> ''.'') ss"
  by (induction ss arbitrary: out) auto

lemma Split_slash_slash: "Split_slash (a @ CHR ''/'' # b) = Split_slash a @ Split_slash b"
  by (induction a) (auto split: list.splits)

lemma Split_slash_sublist: "s \<in> set (Split_slash p) \<Longrightarrow> sublist s p"
proof (induction p arbitrary: s)
  case (Cons c cs)
  obtain t ts where t: "Split_slash cs = t # ts" by (cases "Split_slash cs") auto
  have "prefix t cs"
    using t by (induction cs arbitrary: t ts) (auto split: if_splits list.splits)
  then show ?case
    using Cons t by (auto simp: sublist_Cons_right split: if_splits)
qed simp

lemma elems_names: "''..'' \<notin> set (Split_slash p) \<Longrightarrow> elems p = names p"
  by (simp add: elems_def clean_elems_no_dots)

lemma elems_path_Join:
  assumes "a \<noteq> []" and "b \<noteq> []" and "''..'' \<notin> set (Split_slash b)"
  shows "elems (path_Join [a, b]) = elems a @ elems b \<and> is_rooted (path_Join [a, b]) = is_rooted a"
proof -
  have "is_rooted (a @ CHR ''/'' # b) = is_rooted a" using assms(1) by (cases a) auto
  moreover have "path_Join [a, b] = Clean (a @ CHR ''/'' # b)" using assms by (simp add: path_Join_def)
  ultimately show ?thesis
    using elems_names [OF assms(3)] assms(3)
    by (simp only: elems_Clean is_rooted_Clean)
      (simp add: elems_def Split_slash_slash clean_elems_append clean_elems_no_dots)
qed

lemma elems_plain_names: "''..'' \<notin> set (Split_slash p) \<Longrightarrow> \<forall>s \<in> set (elems p). plain_elem s"
  by (auto simp: elems_names plain_elem_def dest: Split_slash_no_slash)

text \<open>Cleaning keeps a path without \<open>..\<close> so.\<close>

lemma Split_Clean_no_dots:
  assumes "''..'' \<notin> set (Split_slash p)"
  shows "''..'' \<notin> set (Split_slash (Clean p))"
proof -
  have plain: "\<forall>s \<in> set (elems p). plain_elem s" by (rule elems_plain_names [OF assms])
  then have "elems p \<noteq> [] \<Longrightarrow> Split_slash (Join_slash (elems p)) = elems p"
    by (intro Split_Join) (auto simp: plain_elem_def)
  then show ?thesis using plain by (auto simp: Clean_def plain_elem_def)
qed

lemma Clean_not_Nil: "Clean p \<noteq> []"
  using clean_list_elem [OF elems_clean, of _ p]
  by (cases "elems p" rule: Join_slash.cases) (auto simp: Clean_def)

lemma valid_filename:
  assumes "\<not> isFilenameInvalid f"
  shows "Clean f \<noteq> []" and "''..'' \<notin> set (Split_slash (Clean f))" and "\<not> is_rooted (Clean f)"
proof -
  have "''..'' \<notin> set (Split_slash f)" using assms Split_slash_sublist by (auto simp: isFilenameInvalid_def)
  then show "''..'' \<notin> set (Split_slash (Clean f))" by (rule Split_Clean_no_dots)
  show "Clean f \<noteq> []" by (rule Clean_not_Nil)
  show "\<not> is_rooted (Clean f)" using assms by (simp add: isFilenameInvalid_def IsAbs_def)
qed

lemma manifest_path_names: "''..'' \<notin> set (Split_slash (getManifestPath i))" "getManifestPath i \<noteq> []"
proof -
  have "\<not> is_digit (CHR ''/'')" "\<not> is_digit (CHR ''.'')" by (simp_all add: is_digit_def byte_val_def)
  then have "CHR ''/'' \<notin> set (id_text i)" "CHR ''.'' \<notin> set (id_text i)"
    using decimal_digits [of "unat i"] by (auto simp: id_text_def list_all_iff)
  then have "Split_slash (id_text i) = [id_text i]" "id_text i \<noteq> ''..''" by (auto simp: Split_slash_elem)
  moreover have "Split_slash (getManifestPath i) = [''uploads'', ''manifests''] @ Split_slash (id_text i)"
    using Split_slash_slash [of "''uploads/manifests''" "id_text i"] by (simp add: getManifestPath_def)
  ultimately show "''..'' \<notin> set (Split_slash (getManifestPath i))" by auto
qed (simp add: getManifestPath_def)

lemma upload_path_inside:
  assumes "basePath \<noteq> []" and "\<not> isFilenameInvalid f"
    and "safeJoin basePath (path_Join [getManifestPath i, Clean f]) = Inr full"
  shows "inside (path_Join [basePath, getManifestPath i]) full"
proof -
  note f = valid_filename [OF assms(2)] and m = manifest_path_names [of i]
  let ?d = "path_Join [getManifestPath i, Clean f]"
  have d: "elems ?d = elems (getManifestPath i) @ elems (Clean f)"
    using elems_path_Join [OF m(2) f(1, 2)] by blast
  have "''..'' \<notin> set (Split_slash (getManifestPath i @ CHR ''/'' # Clean f))"
    using m(1) f(2) by (simp add: Split_slash_slash)
  then have dots: "''..'' \<notin> set (Split_slash ?d)"
    using Split_Clean_no_dots f(1) m(2) by (simp add: path_Join_def)
  have ne: "?d \<noteq> []" using m f by (simp add: path_Join_def Clean_not_Nil)
  have full: "full = path_Join [basePath, ?d]"
    using assms(3) by (auto simp: safeJoin_def Let_def split: sum.splits if_splits)
  show ?thesis
    using elems_path_Join [OF assms(1) ne dots] elems_path_Join [OF assms(1) m(2, 1)]
      elems_plain_names [OF f(2)] by (simp add: inside_def full d)
qed

lemma token_payload:
  assumes "jwt_ok J" and "signPayloadToken J t key c m expireAt = Inr ss"
    and "parseTokenPayload J now key ss = Inr raw"
  shows "Marshal c m = Inr raw"
proof -
  obtain raw' where raw': "Marshal c m = Inr raw'"
    and sign: "jwt_sign J key \<lparr>Claims_Payload = b64_encode raw', Claims_IssuedAt = NewNumericDate t,
      Claims_ExpiresAt = NewNumericDate expireAt\<rparr> = Inr ss"
    using assms(2) by (auto simp: signPayloadToken_def split: sum.splits)
  have "jwt_parse J key now ss = Inr (Some (b64_encode raw')) \<or> (\<exists>e. jwt_parse J key now ss = Inl e)"
    using assms(1) sign unfolding jwt_ok_def by (metis claim_set.select_convs(1) linorder_not_le)
  then show ?thesis using assms(3) raw' by (auto simp: parseTokenPayload_def)
qed

text \<open>The sections touch the database and the locks, and the files only in between.\<close>

lemma upload_admit_fs: "upload_admit E a p n = Some (a1, r) \<Longrightarrow> svc_fs a1 = svc_fs a \<and> svc_basePath a1 = svc_basePath a"
  by (auto simp: upload_admit_def Let_def split: option.splits sum.splits if_splits)

lemma upload_record_fs: "upload_record E a p n = Some (a1, s) \<Longrightarrow> svc_fs a1 = svc_fs a"
  by (auto simp: upload_record_def split: option.splits prod.splits)

lemma HandleFileUpload_fs:
  fixes b :: "('db, 'fs) svc"
  assumes "HandleFileUpload E L now r b = Some (b', s)" and "upload_parse L now b r = Inr (p, file)"
    and "\<And>x :: ('db, 'fs) svc. svc_fs x = svc_fs b \<Longrightarrow> svc_basePath x = svc_basePath b \<Longrightarrow>
      P (svc_fs (fst (upload_store L x p (mf_data file))))" and "P (svc_fs b)"
  shows "P (svc_fs b')"
proof -
  obtain a1 t where ad: "upload_admit E b p (mf_Size file) = Some (a1, t)"
    using assms(1, 2) by (auto simp: HandleFileUpload_def split: option.splits)
  note fs1 = upload_admit_fs [OF ad]
  show ?thesis
  proof (cases t)
    case (Some u)
    then show ?thesis using assms(1, 2, 4) ad fs1 by (simp add: HandleFileUpload_def)
  next
    case None
    obtain a2 u where st: "upload_store L a1 p (mf_data file) = (a2, u)" by fastforce
    then have "P (svc_fs a2)" using assms(3) [of a1] fs1 by simp
    then show ?thesis
      using assms(1, 2) ad None st upload_record_fs [of E a2 p "mf_Size file" b' s]
      by (cases u) (simp_all add: HandleFileUpload_def)
  qed
qed

subsection \<open>An upload for the witnesses\<close>

definition upload_db :: mem_db where
  "upload_db = [(getFilesizeKey 1, decimal (to_nat (Some (Counter 0)))),
     (manifest_getMetadataKey 1, decimal (to_nat \<lparr>Manifest_CreatedAt = Some 50, Manifest_UserId = 7,
        Manifest_AssignmentId = 6, Manifest_UploadLimit = 100\<rparr>))]"

definition test_payload :: "string \<Rightarrow> upload_token" where
  "test_payload f = \<lparr>UP_ManifestId = 1, UP_Filename = f, UP_Filesize = 60, UP_UploadLimit = 100\<rparr>"

definition test_file :: multipart_file where
  "test_file = \<lparr>mf_Size = 60, mf_head_read = True, mf_seek = True, mf_data = ''print(1)''\<rparr>"

definition test_upload :: "string \<Rightarrow> upload_request" where
  "test_upload ss = \<lparr>up_contentType = '' Multipart/Form-Data; boundary=b'', up_token = ss, up_form = Inr test_file\<rparr>"

lemma test_upload_parses:
  assumes "signPayloadToken plain_jwt t ''upload'' (counting_codec (from_nat 0)) (test_payload f)
      (t + TransferTokenValidDuration) = Inr ss" and "now = t"
  shows "TrimSpace ss = ss"
    and "upload_parse test_lib now (test_svc db) (test_upload ss) = Inr (test_payload f, test_file)"
proof -
  show trim: "TrimSpace ss = ss"
    using assms(1) TrimSpace_decimal by (auto simp: signPayloadToken_def plain_jwt_def)
  have "parseTokenPayload plain_jwt t ''upload'' ss = Inr (decimal (to_nat (test_payload f)))"
  proof -
    have "t < (t + TransferTokenValidDuration) div nanosecond_per_second * nanosecond_per_second"
      by (simp add: TransferTokenValidDuration_def)
    then show ?thesis using token_parses [OF plain_jwt_ok assms(1), of t] by simp
  qed
  moreover have "prefix ''multipart/form-data; boundary'' (ToLower (TrimSpace '' Multipart/Form-Data; boundary=b''))"
    by code_simp
  ultimately show "upload_parse test_lib now (test_svc db) (test_upload ss) = Inr (test_payload f, test_file)"
    using trim assms(2) by (simp add: upload_parse_def test_upload_def test_file_def)
qed

lemma upload_db_files: "manifest_files mem_env map_of upload_db 1 []"
  by (simp add: manifest_files_def upload_db_def)

lemma test_add: "\<exists>d. AddFileToManifest mem_env db f i n = (d, None)"
  by (simp add: AddFileToManifest_def split: sum.splits)

lemma test_reads:
  "GetManifestFilesize mem_env upload_db 1 = Inr 0" "GetManifestFileMetadata mem_env upload_db f 1 = Inl ErrNotFound"
  "LockManifest mem_env upload_db {} 1 = Some ({1}, None)"
  "GetManifest mem_env upload_db 1 = Inr \<lparr>Manifest_CreatedAt = Some 50, Manifest_UserId = 7,
    Manifest_AssignmentId = 6, Manifest_UploadLimit = 100\<rparr>"
  using store_up.manifest_files_read(1) [OF mem_store_up upload_db_files]
    store_up.manifest_files_read(2) [OF mem_store_up upload_db_files, of f]
  by (simp_all add: LockManifest_def GetManifest_def get_message_def upload_db_def mem_get_def)

lemma test_admit:
  "upload_admit mem_env (test_svc upload_db) (test_payload f) 60 = Some (test_svc upload_db, None)"
proof -
  have "(with_db (test_svc upload_db) upload_db)\<lparr>svc_locks := {}\<rparr> = test_svc upload_db"
    by (simp add: test_svc_def with_db_def initial_hub_def Let_def)
  then show ?thesis using test_reads by (simp add: upload_admit_def test_payload_def)
qed

lemma map_os_Put: "safeJoin basePath p = Inr full \<Longrightarrow> \<exists>fs'. ls_Put map_os basePath fs p d = (fs', None)"
  by (simp add: ls_Put_def map_os_def)

lemma test_store:
  assumes "svc_basePath a = ''data''" and "f \<in> {''a'', ''b''}"
  shows "\<exists>fs. upload_store test_lib a (test_payload f) d = (a\<lparr>svc_fs := fs\<rparr>, None)"
proof -
  have "safeJoin ''data'' (path_Join [getManifestPath 1, ''a'']) = Inr ''data/uploads/manifests/1/a''"
    "safeJoin ''data'' (path_Join [getManifestPath 1, ''b'']) = Inr ''data/uploads/manifests/1/b''"
    by code_simp+
  then have "\<exists>full. safeJoin ''data'' (path_Join [getManifestPath 1, f]) = Inr full" using assms(2) by auto
  then obtain fs' where "ls_Put map_os ''data'' (svc_fs a) (path_Join [getManifestPath 1, f]) d = (fs', None)"
    using map_os_Put by blast
  then have "upload_store test_lib a (test_payload f) d = (a\<lparr>svc_fs := fs'\<rparr>, None)"
    using assms(1) by (simp add: upload_store_def test_payload_def)
  then show ?thesis by blast
qed

lemma test_record:
  assumes "1 \<notin> svc_locks a" and "manifest_files mem_env map_of (svc_db a) 1 fs"
    and "map_of (svc_db a) (manifest_getMetadataKey 1) \<noteq> None"
  shows "\<exists>a'. upload_record mem_env a (test_payload f) 60 = Some (a', 200) \<and> svc_locks a' = svc_locks a \<and>
    map_of (svc_db a') (manifest_getMetadataKey 1) = map_of (svc_db a) (manifest_getMetadataKey 1)"
proof -
  obtain base where base: "map_of (svc_db a) (getFilesizeKey 1) = Some base"
    "Unmarshal (C_Mergeable mem_env) base = Inr (Some (Counter (sum_list (map snd fs))))"
    using store.manifest_filesE [OF mem_store assms(2)] by metis
  obtain d where d: "AddFileToManifest mem_env (svc_db a) f 1 60 = (d, None)" using test_add by blast
  then have "map_of d (manifest_getMetadataKey 1) = map_of (svc_db a) (manifest_getMetadataKey 1)"
    using store.AddFileToManifest_ok [OF mem_store base d] by auto
  then show ?thesis
    using assms(1, 3) d
    by (auto simp: upload_record_def LockManifest_def test_payload_def mem_get_def svc_db_def with_db_def
        split: option.splits)
qed

lemma upload_db_meta: "map_of upload_db (manifest_getMetadataKey 1) \<noteq> None"
  by (simp add: upload_db_def)

lemma test_run:
  assumes "upload_parse test_lib now (test_svc upload_db) r = Inr (test_payload ''a'', test_file)"
  shows "\<exists>a'. HandleFileUpload mem_env test_lib now r (test_svc upload_db) = Some (a', 200)"
proof -
  obtain fs where st: "upload_store test_lib (test_svc upload_db) (test_payload ''a'') (mf_data test_file) =
      ((test_svc upload_db)\<lparr>svc_fs := fs\<rparr>, None)" using test_store [of "test_svc upload_db" "''a''"] by auto
  have db: "svc_db ((test_svc upload_db)\<lparr>svc_fs := fs\<rparr>) = upload_db" using upload_store_db [OF st] by simp
  obtain a' where "upload_record mem_env ((test_svc upload_db)\<lparr>svc_fs := fs\<rparr>) (test_payload ''a'') 60 = Some (a', 200)"
    using test_record [of "(test_svc upload_db)\<lparr>svc_fs := fs\<rparr>"] upload_db_files upload_db_meta
    unfolding db by fastforce
  then show ?thesis using assms test_admit st by (simp add: HandleFileUpload_def test_file_def)
qed

subsection \<open>Properties\<close>

text \<open>
  C17: an upload keeps a manifest within its limit, and its status tells what became of the file. When
  the files of the manifest of an accepted token take at most the limit, they do so afterwards: 200 means
  that the file is there with its size in place of an older one of that name; 400 that nothing changed;
  406 that the file would not have fitted beside the others, and 500 that it could not be stored or
  recorded, and in both cases the older file of that name is gone from the manifest.
\<close>

theorem upload_within_limit:
  assumes "store_up E view" and "upload_parse L now a r = Inr (p, file)"
    and "manifest_files E view (svc_db a) (UP_ManifestId p) fs"
    and "space fs \<le> unat (UP_UploadLimit p)" and "unat (UP_UploadLimit p) < 2 ^ 63"
    and "HandleFileUpload E L now r a = Some (a', s)"
  shows "\<exists>fs'. manifest_files E view (svc_db a') (UP_ManifestId p) fs' \<and>
    space fs' \<le> unat (UP_UploadLimit p) \<and>
    (s = 200 \<and> fs' = (UP_Filename p, mf_Size file) # without (UP_Filename p) fs \<or>
     s = 400 \<and> a' = a \<and> fs' = fs \<or>
     s = 406 \<and> fs' = without (UP_Filename p) fs \<and>
       unat (UP_UploadLimit p) < space fs' + unat (mf_Size file) \<or>
     s = 500 \<and> fs' = without (UP_Filename p) fs)"
proof -
  have small: "space fs < 2 ^ 63" using assms(4, 5) by simp
  have le: "space (without (UP_Filename p) fs) \<le> unat (UP_UploadLimit p)"
    using space_without assms(4) by (rule le_trans)
  obtain a1 t where ad: "upload_admit E a p (mf_Size file) = Some (a1, t)"
    using assms(2, 6) by (auto simp: HandleFileUpload_def split: option.splits)
  show ?thesis
  proof (cases rule: store_up.upload_admit_cases [OF assms(1, 3) small upload_parse_size [OF assms(2)] ad,
        case_names unknown checked])
    case unknown
    then show ?thesis using assms(2, 3, 4, 6) ad by (auto simp: HandleFileUpload_def)
  next
    case (checked db1)
    then have f1: "manifest_files E view (svc_db a1) (UP_ManifestId p) (without (UP_Filename p) fs)"
      by (simp add: svc_db_def with_db_def)
    show ?thesis
    proof (cases "unat (UP_UploadLimit p) < space (without (UP_Filename p) fs) + unat (mf_Size file)")
      case True
      then show ?thesis using assms(2, 6) ad checked(3) f1 le by (auto simp: HandleFileUpload_def)
    next
      case fits: False
      obtain a2 u where st: "upload_store L a1 p (mf_data file) = (a2, u)" by fastforce
      have db2: "svc_db a2 = svc_db a1" using st by (auto simp: upload_store_def svc_db_def split: prod.splits)
      have u: "u = None \<or> u = Some 500" using st by (auto simp: upload_store_def split: prod.splits if_splits)
      show ?thesis
      proof (cases u)
        case (Some v)
        then show ?thesis
          using assms(2, 6) ad checked(3) fits st u f1 db2 le by (auto simp: HandleFileUpload_def)
      next
        case None
        then have rc: "upload_record E a2 p (mf_Size file) = Some (a', s)"
          using assms(2, 6) ad checked(3) fits st by (simp add: HandleFileUpload_def)
        show ?thesis
        proof (cases rule: store_up.upload_record_cases [OF assms(1) f1 [folded db2] in_without rc,
              case_names recorded failed])
          case recorded
          then show ?thesis using fits by auto
        next
          case failed
          then show ?thesis using le by auto
        qed
      qed
    qed
  qed
qed

theorem upload_within_limit_witness:
  "\<exists>ss a' fs'. HandleFileUpload mem_env test_lib 0 (test_upload ss) (test_svc upload_db) = Some (a', 200) \<and>
    manifest_files mem_env map_of (svc_db a') 1 fs' \<and> space fs' = 60"
proof -
  let ?t = "UP_ManifestId (test_payload ''a'')"
  obtain ss where ss: "signPayloadToken plain_jwt 0 ''upload'' (counting_codec (from_nat 0)) (test_payload ''a'')
      (0 + TransferTokenValidDuration) = Inr ss" using sign_plain by blast
  note parse = test_upload_parses(2) [OF ss, of 0 upload_db]
  obtain a' where run: "HandleFileUpload mem_env test_lib 0 (test_upload ss) (test_svc upload_db) = Some (a', 200)"
    using test_run [OF parse] by blast
  have tp: "UP_ManifestId (test_payload ''a'') = 1" "UP_UploadLimit (test_payload ''a'') = 100"
    by (simp_all add: test_payload_def)
  have files: "manifest_files mem_env map_of (svc_db (test_svc upload_db)) (UP_ManifestId (test_payload ''a'')) []"
    using upload_db_files tp by simp
  from upload_within_limit [OF mem_store_up parse files _ _ run]
  have "manifest_files mem_env map_of (svc_db a') 1 [(UP_Filename (test_payload ''a''), 60)]"
    using tp by (auto simp: without_def test_file_def)
  moreover have "space [(UP_Filename (test_payload ''a''), 60)] = 60" by simp
  ultimately show ?thesis using run by blast
qed

text \<open>
  C19: overlapping uploads add up. An upload of a new file passes the check of its manifest exactly when it fits beside
  the files recorded so far, and passing it records nothing. So when two uploads of new files overlap, both
  checks before either file is recorded, and each fits alone, both are answered 200 and the manifest holds both
  sizes, whether or not they fit together; if one does not fit alone it is refused. (The manifest exists, its
  lock is free, and writing the files works.)
\<close>

theorem overlapping_uploads_add_up:
  assumes "store_up E view" and "manifest_files E view (svc_db a) (UP_ManifestId p) fs"
    and "UP_ManifestId q = UP_ManifestId p" and "UP_Filename q \<noteq> UP_Filename p"
    and "UP_Filename p \<notin> fst ` set fs" and "UP_Filename q \<notin> fst ` set fs"
    and "space fs + unat (mf_Size x) + unat (mf_Size y) < 2 ^ 63"
    and "UP_ManifestId p \<notin> svc_locks a" and "view (svc_db a) (manifest_getMetadataKey (UP_ManifestId p)) \<noteq> None"
    and "\<And>m. \<exists>raw. Marshal (C_File E) m = Inr raw"
    and "\<And>files. snd (ls_Put (lib_os L) (svc_basePath a) files
      (path_Join [getManifestPath (UP_ManifestId p), UP_Filename p]) (mf_data x)) = None"
    and "\<And>files. snd (ls_Put (lib_os L) (svc_basePath a) files
      (path_Join [getManifestPath (UP_ManifestId q), UP_Filename q]) (mf_data y)) = None"
  shows "upload_admit E a p (mf_Size x) =
      Some (a, if space fs + unat (mf_Size x) \<le> unat (UP_UploadLimit p) then None else Some 406) \<and>
    upload_admit E a q (mf_Size y) =
      Some (a, if space fs + unat (mf_Size y) \<le> unat (UP_UploadLimit q) then None else Some 406) \<and>
    (if space fs + unat (mf_Size x) \<le> unat (UP_UploadLimit p) \<and> space fs + unat (mf_Size y) \<le> unat (UP_UploadLimit q)
     then \<exists>b c. overlapping_uploads E L a (p, x) (q, y) = Some (b, 200, 200) \<and>
       GetManifestFilesize E (svc_db b) (UP_ManifestId p) = Inr c \<and>
       unat c = space fs + unat (mf_Size x) + unat (mf_Size y)
     else overlapping_uploads E L a (p, x) (q, y) = None)"
proof -
  let ?m = "UP_ManifestId p"
  have small: "space fs < 2 ^ 63" "unat (mf_Size x) < 2 ^ 63" "unat (mf_Size y) < 2 ^ 63" using assms(7) by linarith+
  note admit = store_up.upload_admit_new [OF assms(1,2,5) small(1,2) assms(8,9)]
    store_up.upload_admit_new [OF assms(1) assms(2) [folded assms(3)] assms(6) small(1,3)
      assms(8) [folded assms(3)] assms(9) [folded assms(3)]]
  define a3 a4 where "a3 = fst (upload_store L a p (mf_data x))" and "a4 = fst (upload_store L a3 q (mf_data y))"
  have store: "upload_store L a p (mf_data x) = (a3, None)" "svc_basePath a3 = svc_basePath a"
    "svc_db a3 = svc_db a" "svc_locks a3 = svc_locks a"
    using assms(11) by (auto simp: a3_def upload_store_def svc_db_def split_beta prod_eq_iff)
  have store2: "upload_store L a3 q (mf_data y) = (a4, None)" "svc_db a4 = svc_db a" "svc_locks a4 = svc_locks a"
    using assms(12) store(2,3,4) by (auto simp: a4_def upload_store_def svc_db_def split_beta prod_eq_iff)
  obtain a5 where 5: "upload_record E a4 p (mf_Size x) = Some (a5, 200)" "svc_locks a5 = svc_locks a"
      "manifest_files E view (svc_db a5) ?m ((UP_Filename p, mf_Size x) # fs)"
      "view (svc_db a5) (manifest_getMetadataKey ?m) \<noteq> None"
    using store_up.upload_record_new [OF assms(1), of a4 p fs "mf_Size x"] assms(2,5,8,9,10) store2 by auto
  have new: "UP_Filename q \<notin> fst ` set ((UP_Filename p, mf_Size x) # fs)" using assms(4,6) by simp
  obtain b where 6: "upload_record E a5 q (mf_Size y) = Some (b, 200)"
      "manifest_files E view (svc_db b) ?m ((UP_Filename q, mf_Size y) # (UP_Filename p, mf_Size x) # fs)"
    using store_up.upload_record_new [OF assms(1) 5(3) [folded assms(3)] new _ 5(4) [folded assms(3)] assms(10), of "mf_Size y"]
      5(2) assms(3,8) by auto
  have "\<exists>c. GetManifestFilesize E (svc_db b) ?m = Inr c \<and> unat c = space fs + unat (mf_Size x) + unat (mf_Size y)"
    using store_up.filesize_small [OF assms(1) 6(2)] assms(7) by (auto simp: add_ac)
  then show ?thesis using admit store(1) store2(1) 5(1) 6(1) by (auto simp: overlapping_uploads_def)
qed

text \<open>
  C18: an upload token gives access to its manifest only. With a token that \<open>InitUpload\<close> made for a
  manifest, \<open>HandleFileUpload\<close> changes no file outside the directory of that manifest, whatever file name
  it was asked for and whatever the rest of the upload request says; a minute after it was made the token is
  refused and nothing changes.
\<close>

theorem upload_confined:
  assumes "jwt_ok (lib_jwt L)" and "codec_ok (C_UploadToken L)" and "os_ok (lib_os L) content"
    and "InitUpload E L t manifestId filename n a c = (a0, Inr ss)"
    and "uploadJWTSignKey b = uploadJWTSignKey a" and "svc_basePath b \<noteq> []" and "TrimSpace (up_token r) = ss"
    and "HandleFileUpload E L now r b = Some (b', s)"
    and "\<not> inside (path_Join [svc_basePath b, getManifestPath manifestId]) q"
  shows "content (svc_fs b') q = content (svc_fs b) q \<and>
    (t + TransferTokenValidDuration \<le> now \<longrightarrow> s = 400 \<and> b' = b)"
proof -
  obtain limit where valid: "\<not> isFilenameInvalid filename"
    and sign: "signPayloadToken (lib_jwt L) t (uploadJWTSignKey b) (C_UploadToken L)
      \<lparr>UP_ManifestId = manifestId, UP_Filename = Clean filename, UP_Filesize = n, UP_UploadLimit = limit\<rparr>
      (t + TransferTokenValidDuration) = Inr ss"
    using assms(4, 5)
    by (auto simp: InitUpload_def attempt_Inr Let_def split: option.splits prod.splits)
  show ?thesis
  proof (cases "upload_parse L now b r")
    case (Inl st)
    have "\<exists>e. parseTokenPayload (lib_jwt L) now (uploadJWTSignKey b) ss = Inl e"
      if "t + TransferTokenValidDuration \<le> now"
      using token_parses [OF assms(1) sign, of now] that by blast
    then have "t + TransferTokenValidDuration \<le> now \<Longrightarrow> st = 400"
      using Inl assms(7) by (auto simp: upload_parse_def)
    then show ?thesis using assms(8) Inl by (auto simp: HandleFileUpload_def)
  next
    case (Inr pf)
    obtain p y where pf: "pf = (p, y)" by (cases pf)
    obtain raw where raw: "parseTokenPayload (lib_jwt L) now (uploadJWTSignKey b) ss = Inr raw"
      "Unmarshal (C_UploadToken L) raw = Inr p"
      using Inr assms(7) by (auto simp: upload_parse_def pf split: sum.splits if_splits)
    have p: "UP_ManifestId p = manifestId" "UP_Filename p = Clean filename"
      using token_payload [OF assms(1) sign raw(1)] codec_okD [OF assms(2)] raw(2) by auto
    have out: "\<not> inside full q"
      if "safeJoin (svc_basePath b) (path_Join [getManifestPath (UP_ManifestId p), UP_Filename p]) = Inr full" for full
      using upload_path_inside [OF assms(6) valid that [unfolded p]] assms(9) inside_trans by blast
    have st: "content (svc_fs (fst (upload_store L x p d))) q = content (svc_fs b) q"
      if "svc_fs x = svc_fs b" "svc_basePath x = svc_basePath b" for x d
    proof -
      have "content (fst (ls_Put (lib_os L) (svc_basePath b) (svc_fs b)
          (path_Join [getManifestPath (UP_ManifestId p), UP_Filename p]) d)) q = content (svc_fs b) q"
        by (rule ls_Put_frame [OF assms(3)]) (rule out)
      then show ?thesis by (simp add: upload_store_def that split_beta)
    qed
    have "content (svc_fs b') q = content (svc_fs b) q"
      by (rule HandleFileUpload_fs [OF assms(8) Inr [unfolded pf]]) (simp_all add: st)
    moreover have "\<not> t + TransferTokenValidDuration \<le> now"
      using raw(1) token_parses [OF assms(1) sign, of now] by fastforce
    ultimately show ?thesis by simp
  qed
qed

theorem overlapping_uploads_add_up_witness:
  "\<exists>b c. overlapping_uploads mem_env test_lib (test_svc upload_db) (test_payload ''a'', test_file)
      (test_payload ''b'', test_file) = Some (b, 200, 200) \<and>
    GetManifestFilesize mem_env (svc_db b) 1 = Inr c \<and> unat c = 120 \<and> UP_UploadLimit (test_payload ''a'') = 100"
proof -
  have p: "UP_ManifestId (test_payload f) = 1" "UP_Filename (test_payload f) = f" "UP_UploadLimit (test_payload f) = 100" for f
    by (simp_all add: test_payload_def)
  have files: "manifest_files mem_env map_of (svc_db (test_svc upload_db)) (UP_ManifestId (test_payload ''a'')) []"
    using upload_db_files by (simp add: p)
  have meta: "map_of (svc_db (test_svc upload_db)) (manifest_getMetadataKey (UP_ManifestId (test_payload ''a''))) \<noteq> None"
    using upload_db_meta by (simp add: p)
  have put: "snd (ls_Put (lib_os test_lib) (svc_basePath (test_svc upload_db)) files
      (path_Join [getManifestPath (UP_ManifestId (test_payload f)), UP_Filename (test_payload f)]) d) = None"
    if "f \<in> {''a'', ''b''}" for files f d
    using test_store [of "(test_svc upload_db)\<lparr>svc_fs := files\<rparr>" f d] that
    by (auto simp: upload_store_def split_beta split: if_splits)
  have m: "\<exists>raw. Marshal (C_File mem_env) m = Inr raw" for m by simp
  note law = overlapping_uploads_add_up [OF mem_store_up files _ _ _ _ _ _ meta m, where q = "test_payload ''b''"
      and x = test_file and y = test_file and L = test_lib, OF _ _ _ _ _ _ put put]
  show ?thesis using law by (simp add: p test_file_def)
qed

theorem upload_confined_witness:
  "\<exists>ss a'. InitUpload mem_env test_lib 0 1 ''a'' 60 (test_svc upload_db) test_ctx = (test_svc upload_db, Inr ss) \<and>
    HandleFileUpload mem_env test_lib 0 (test_upload ss) (test_svc upload_db) = Some (a', 200) \<and>
    svc_fs a' ''config.toml'' = None"
proof -
  obtain ss where ss: "signPayloadToken plain_jwt 0 ''upload'' (counting_codec (from_nat 0)) (test_payload ''a'')
      (0 + TransferTokenValidDuration) = Inr ss" using sign_plain by blast
  have init: "InitUpload mem_env test_lib 0 1 ''a'' 60 (test_svc upload_db) test_ctx = (test_svc upload_db, Inr ss)"
  proof -
    have "\<not> isFilenameInvalid ''a''" "Clean ''a'' = ''a''" by code_simp+
    then show ?thesis
      using ss test_reads(1, 3, 4) test_reads(2) [of "''a''"]
      by (simp add: InitUpload_def test_ctx_def test_user_def test_payload_def Let_def)
  qed
  note parse = test_upload_parses(2) [OF ss, of 0 upload_db] and trim = test_upload_parses(1) [OF ss]
  obtain a' where run: "HandleFileUpload mem_env test_lib 0 (test_upload ss) (test_svc upload_db) = Some (a', 200)"
    using test_run [OF parse] by blast
  have out: "\<not> inside (path_Join [svc_basePath (test_svc upload_db), getManifestPath 1]) ''config.toml''"
  proof -
    have "elems (path_Join [''data'', getManifestPath 1]) = [''data'', ''uploads'', ''manifests'', ''1'']"
      "elems ''config.toml'' = [''config.toml'']" by code_simp+
    then show ?thesis by (simp add: inside_def)
  qed
  have "svc_fs a' ''config.toml'' = svc_fs (test_svc upload_db) ''config.toml''"
    using upload_confined [where content = "\<lambda>fs q. fs q", OF _ _ _ init _ _ _ run out] trim plain_jwt_ok
      map_os_ok by (simp add: test_upload_def)
  then show ?thesis using init run by auto
qed

end
