(* ===== verification/GrpcWeb.thy ===== *)
theory GrpcWeb
  imports Token Text "HOL-Library.AList" "HOL-Library.Multiset"
begin

section \<open>The gRPC-Web bridge: pkg/middleware/grpcweb.go\<close>

text \<open>
  Browsers speak gRPC-Web: the trailers that hold the status of a call come as a last body frame flagged
  0x80, and the body may be base64 text. The bridge hands a request to grpc-go as if it were HTTP/2 and
  re-frames what grpc-go writes. The gRPC server is a parameter: the list of operations it performs on the
  response writer it is given. A header is a map from canonical keys to values, kept as an association list
  whose order stands for the iteration order of the Go map. The connection takes every byte it is given.
\<close>

subsection \<open>net/http headers\<close>

type_synonym header = "(string \<times> string list) list"

definition is_token_char :: "char \<Rightarrow> bool" where
  "is_token_char c \<longleftrightarrow>
     c \<in> set ''!#$%&*+-.^_`|~0123456789abcdefghijklmnopqrstuvwxyzABCDEFGHIJKLMNOPQRSTUVWXYZ'' \<or> c = CHR 0x27"

fun canonical_chars :: "bool \<Rightarrow> string \<Rightarrow> string" where
  "canonical_chars upper [] = []"
| "canonical_chars upper (c # cs) =
     (if upper then upper_char c else lower_char c) # canonical_chars (c = CHR ''-'') cs"

definition CanonicalKey :: "string \<Rightarrow> string" where
  "CanonicalKey k = (if list_all is_token_char k then canonical_chars True k else k)"

definition hdr_Values :: "header \<Rightarrow> string \<Rightarrow> string list" where
  "hdr_Values h k = (case map_of h (CanonicalKey k) of None \<Rightarrow> [] | Some vs \<Rightarrow> vs)"

definition hdr_Get :: "header \<Rightarrow> string \<Rightarrow> string" where
  "hdr_Get h k = (case hdr_Values h k of [] \<Rightarrow> [] | v # _ \<Rightarrow> v)"

definition hdr_Set :: "header \<Rightarrow> string \<Rightarrow> string \<Rightarrow> header" where
  "hdr_Set h k v = AList.update (CanonicalKey k) [v] h"

definition hdr_Add :: "header \<Rightarrow> string \<Rightarrow> string \<Rightarrow> header" where
  "hdr_Add h k v = AList.update (CanonicalKey k) (hdr_Values h k @ [v]) h"

definition hdr_Del :: "header \<Rightarrow> string \<Rightarrow> header" where
  "hdr_Del h k = AList.delete (CanonicalKey k) h"

definition TrailerPrefix :: string where
  "TrailerPrefix = ''Trailer:''"

subsection \<open>Requests\<close>

text \<open>
  What a reader of the body gets: the bytes as they came, or through the base64 decoder, which reports a text
  it cannot decode.
\<close>

datatype http_body = Plain bytes | Base64Of string

fun read_body :: "http_body \<Rightarrow> error + bytes" where
  "read_body (Plain b) = Inr b"
| "read_body (Base64Of s) = b64_decode s"

fun raw_body :: "http_body \<Rightarrow> string" where
  "raw_body (Plain b) = b"
| "raw_body (Base64Of s) = s"

record http_request =
  hr_Method :: string
  hr_ProtoMajor :: int
  hr_ProtoMinor :: int
  hr_Header :: header
  hr_ContentLength :: int
  hr_Body :: http_body

definition grpcContentType :: string where
  "grpcContentType = ''application/grpc''"

definition grpcWebContentType :: string where
  "grpcWebContentType = ''application/grpc-web''"

definition grpcWebTextContentType :: string where
  "grpcWebTextContentType = ''application/grpc-web-text''"

definition isGrpcWebRequest :: "http_request \<Rightarrow> bool" where
  "isGrpcWebRequest r \<longleftrightarrow>
     hr_Method r = ''POST'' \<and> prefix grpcWebContentType (hdr_Get (hr_Header r) ''Content-Type'')"

definition isGrpcWebPreflight :: "http_request \<Rightarrow> bool" where
  "isGrpcWebPreflight r \<longleftrightarrow>
     hr_Method r = ''OPTIONS'' \<and>
     sublist ''x-grpc-web'' (ToLower (hdr_Get (hr_Header r) ''Access-Control-Request-Headers''))"

definition is_text :: "http_request \<Rightarrow> bool" where
  "is_text r \<longleftrightarrow> prefix grpcWebTextContentType (hdr_Get (hr_Header r) ''Content-Type'')"

definition web_type :: "http_request \<Rightarrow> string" where
  "web_type r = (if is_text r then grpcWebTextContentType else grpcWebContentType)"

text \<open>The request grpc-go is given.\<close>

definition grpc_request :: "http_request \<Rightarrow> http_request" where
  "grpc_request r =
     r\<lparr>hr_ProtoMajor := 2, hr_ProtoMinor := 0,
       hr_Header := hdr_Del
         (hdr_Set (hr_Header r) ''Content-Type''
            (grpcContentType @ TrimPrefix (hdr_Get (hr_Header r) ''Content-Type'') (web_type r)))
         ''Content-Length'',
       hr_ContentLength := -1,
       hr_Body := (if is_text r then Base64Of (raw_body (hr_Body r)) else hr_Body r)\<rparr>"

subsection \<open>The response writer\<close>

text \<open>
  The connection underneath: its header map, the status line and headers once they are out, the body bytes
  written, how many of them a flush has pushed to the client, and whether it can flush.
\<close>

record http_writer =
  hw_Header :: header
  hw_sent :: "(int \<times> header) option"
  hw_out :: bytes
  hw_flushed :: nat
  hw_flusher :: bool

definition hw_WriteHeader :: "int \<Rightarrow> http_writer \<Rightarrow> http_writer" where
  "hw_WriteHeader status w =
     (case hw_sent w of None \<Rightarrow> w\<lparr>hw_sent := Some (status, hw_Header w)\<rparr> | Some _ \<Rightarrow> w)"

definition hw_Write :: "bytes \<Rightarrow> http_writer \<Rightarrow> http_writer" where
  "hw_Write b w = w\<lparr>hw_out := hw_out w @ b\<rparr>"

definition hw_Flush :: "http_writer \<Rightarrow> http_writer" where
  "hw_Flush w = (if hw_flusher w then w\<lparr>hw_flushed := length (hw_out w)\<rparr> else w)"

text \<open>
  \<open>rw_text\<close> is \<open>encoder != nil\<close>; \<open>rw_pending\<close> holds the at most two bytes the base64 encoder keeps until
  its group is complete or it is closed.
\<close>

record response_writer =
  rw_w :: http_writer
  rw_header :: header
  rw_contentType :: string
  rw_text :: bool
  rw_pending :: bytes
  rw_wroteHeader :: bool

definition newResponseWriter :: "http_writer \<Rightarrow> string \<Rightarrow> bool \<Rightarrow> response_writer" where
  "newResponseWriter w contentType text =
     \<lparr>rw_w = w, rw_header = [], rw_contentType = contentType, rw_text = text, rw_pending = [],
      rw_wroteHeader = False\<rparr>"

definition copy_header :: "string \<Rightarrow> string \<times> string list \<Rightarrow> header \<Rightarrow> header" where
  "copy_header contentType kv out =
     (case kv of (key, values) \<Rightarrow>
        if key = ''Trailer'' \<or> prefix TrailerPrefix key then out
        else if key = ''Content-Type''
        then AList.update key [contentType @ TrimPrefix (hd values) grpcContentType] out
        else AList.update key values out)"

definition exposed_names :: "header \<Rightarrow> string list" where
  "exposed_names out = sort (remdups (''grpc-status'' # ''grpc-message'' # map (\<lambda>kv. ToLower (fst kv)) out))"

definition out_header :: "response_writer \<Rightarrow> header" where
  "out_header rw =
     (let out = fold (copy_header (rw_contentType rw)) (rw_header rw) (hw_Header (rw_w rw))
      in hdr_Set (hdr_Set out ''Access-Control-Expose-Headers'' (JoinWith '', '' (exposed_names out)))
           ''X-Accel-Buffering'' ''no'')"

text \<open>\<open>values[0]\<close> panics on a content type set to no value.\<close>

definition rw_WriteHeader :: "int \<Rightarrow> response_writer \<Rightarrow> error + response_writer" where
  "rw_WriteHeader status rw =
     (if rw_wroteHeader rw then Inr rw
      else if map_of (rw_header rw) ''Content-Type'' = Some [] then Inl Panic
      else Inr (rw\<lparr>rw_wroteHeader := True,
             rw_w := hw_WriteHeader status ((rw_w rw)\<lparr>hw_Header := out_header rw\<rparr>)\<rparr>))"

text \<open>\<open>rw.body.Write\<close>: the connection, or the encoder, which passes on the complete groups.\<close>

definition body_Write :: "bytes \<Rightarrow> response_writer \<Rightarrow> response_writer" where
  "body_Write b rw =
     (if rw_text rw then
        (let p = rw_pending rw @ b; k = length p div 3 * 3
         in rw\<lparr>rw_w := hw_Write (b64_encode (take k p)) (rw_w rw), rw_pending := drop k p\<rparr>)
      else rw\<lparr>rw_w := hw_Write b (rw_w rw)\<rparr>)"

definition rw_Write :: "bytes \<Rightarrow> response_writer \<Rightarrow> error + response_writer" where
  "rw_Write b rw =
     (case (if rw_wroteHeader rw then Inr rw else rw_WriteHeader 200 rw) of
        Inl e \<Rightarrow> Inl e
      | Inr rw1 \<Rightarrow> Inr (body_Write b rw1))"

definition flush_body :: "response_writer \<Rightarrow> response_writer" where
  "flush_body rw =
     (let rw1 = (if rw_text rw
                 then rw\<lparr>rw_w := hw_Write (b64_encode (rw_pending rw)) (rw_w rw), rw_pending := []\<rparr> else rw)
      in rw1\<lparr>rw_w := hw_Flush (rw_w rw1)\<rparr>)"

definition rw_Flush :: "response_writer \<Rightarrow> response_writer" where
  "rw_Flush rw = (if rw_wroteHeader rw then flush_body rw else rw)"

definition trailer_line :: "string \<Rightarrow> string \<Rightarrow> string" where
  "trailer_line key value = ToLower (TrimPrefix key TrailerPrefix) @ '': '' @ value @ [CHR 0x0D, CHR 0x0A]"

definition key_lines :: "header \<Rightarrow> string \<times> string list \<Rightarrow> string list" where
  "key_lines sent kv =
     (case kv of (key, values) \<Rightarrow>
        if key = ''Trailer'' \<or> map_of sent key \<noteq> None then [] else map (trailer_line key) values)"

definition trailer_lines :: "response_writer \<Rightarrow> string list" where
  "trailer_lines rw = sort (concat (map (key_lines (hw_Header (rw_w rw))) (rw_header rw)))"

definition trailers :: "response_writer \<Rightarrow> bytes" where
  "trailers rw = concat (trailer_lines rw)"

definition move_trailer :: "string \<times> string list \<Rightarrow> header \<Rightarrow> header" where
  "move_trailer kv h =
     (case kv of (key, values) \<Rightarrow>
        if \<not> prefix TrailerPrefix key then h
        else AList.delete key (fold (\<lambda>value h'. hdr_Add h' (TrimPrefix key TrailerPrefix) value) values h))"

definition trailers_only_header :: "header \<Rightarrow> header" where
  "trailers_only_header h = fold move_trailer h h"

definition finish :: "response_writer \<Rightarrow> error + response_writer" where
  "finish rw =
     (if \<not> rw_wroteHeader rw then
        (case rw_WriteHeader 200 (rw\<lparr>rw_header := trailers_only_header (rw_header rw)\<rparr>) of
           Inl e \<Rightarrow> Inl e
         | Inr rw1 \<Rightarrow> Inr (flush_body rw1))
      else
        (let t = trailers rw
         in Inr (flush_body (body_Write (byte 128 # be_put 4 (length t) @ t) rw))))"

subsection \<open>Serving a call\<close>

text \<open>What grpc-go does with the response: it changes the header map, writes and flushes.\<close>

datatype rw_op = Op_Header string "string list" | Op_Del string | Op_WriteHeader int | Op_Write bytes | Op_Flush

fun rw_step :: "rw_op \<Rightarrow> response_writer \<Rightarrow> error + response_writer" where
  "rw_step (Op_Header k vs) rw = Inr (rw\<lparr>rw_header := AList.update k vs (rw_header rw)\<rparr>)"
| "rw_step (Op_Del k) rw = Inr (rw\<lparr>rw_header := AList.delete k (rw_header rw)\<rparr>)"
| "rw_step (Op_WriteHeader status) rw = rw_WriteHeader status rw"
| "rw_step (Op_Write b) rw = rw_Write b rw"
| "rw_step Op_Flush rw = Inr (rw_Flush rw)"

fun run_ops :: "rw_op list \<Rightarrow> response_writer \<Rightarrow> error + response_writer" where
  "run_ops [] rw = Inr rw"
| "run_ops (a # as) rw = (case rw_step a rw of Inl e \<Rightarrow> Inl e | Inr rw1 \<Rightarrow> run_ops as rw1)"

definition serve :: "(http_request \<Rightarrow> rw_op list) \<Rightarrow> http_writer \<Rightarrow> http_request \<Rightarrow> error + http_writer" where
  "serve server w r =
     (case run_ops (server (grpc_request r)) (newResponseWriter w (web_type r) (is_text r)) of
        Inl e \<Rightarrow> Inl e
      | Inr rw \<Rightarrow> (case finish rw of Inl e \<Rightarrow> Inl e | Inr rw1 \<Rightarrow> Inr (rw_w rw1)))"

text \<open>\<open>Handler\<close>: gRPC-Web calls and their preflights go through the CORS library to \<open>serve\<close>.\<close>

definition GrpcWeb_Handler ::
  "((http_writer \<Rightarrow> http_request \<Rightarrow> error + http_writer) \<Rightarrow> http_writer \<Rightarrow> http_request \<Rightarrow> error + http_writer) \<Rightarrow>
     (http_request \<Rightarrow> rw_op list) \<Rightarrow> (http_writer \<Rightarrow> http_request \<Rightarrow> error + http_writer) \<Rightarrow>
     http_writer \<Rightarrow> http_request \<Rightarrow> error + http_writer" where
  "GrpcWeb_Handler cors server next w r =
     (if isGrpcWebRequest r \<or> isGrpcWebPreflight r then cors (serve server) w r else next w r)"

subsection \<open>What a client reads\<close>

text \<open>
  The client's side, from doc/PROTOCOL-WEB.md: a text body is a sequence of padded base64 groups, and the
  decoded body a sequence of frames, each a flag byte and a big-endian length before its payload.
\<close>

fun b64_stream :: "string \<Rightarrow> error + bytes" where
  "b64_stream [] = Inr []"
| "b64_stream (a # b # c # d # rest) =
     (case b64_groups [a, b, c, d] of
        Inl e \<Rightarrow> Inl e
      | Inr bs \<Rightarrow> map_sum id ((@) bs) (b64_stream rest))"
| "b64_stream _ = Inl b64_error"

definition response_bytes :: "bool \<Rightarrow> bytes \<Rightarrow> error + bytes" where
  "response_bytes text out = (if text then b64_stream out else Inr out)"

definition frame :: "nat \<Rightarrow> bytes \<Rightarrow> bytes" where
  "frame flag payload = byte flag # be_put 4 (length payload) @ payload"

function parse_frames :: "bytes \<Rightarrow> (nat \<times> bytes) list" where
  "parse_frames bs =
     (if length bs < 5 then []
      else (let n = be_get (take 4 (drop 1 bs))
            in (byte_val (hd bs), take n (drop 5 bs)) # parse_frames (drop (5 + n) bs)))"
  by pat_completeness auto
termination by (relation "measure length") auto

declare parse_frames.simps [simp del]

fun op_bytes :: "rw_op \<Rightarrow> bytes" where
  "op_bytes (Op_Write b) = b"
| "op_bytes _ = []"

abbreviation written :: "rw_op list \<Rightarrow> bytes" where
  "written ops \<equiv> concat (map op_bytes ops)"

text \<open>An operation that puts the headers out.\<close>

fun is_commit :: "rw_op \<Rightarrow> bool" where
  "is_commit (Op_WriteHeader _) = True"
| "is_commit (Op_Write _) = True"
| "is_commit _ = False"

lemma no_commit_bytes: "\<not> is_commit a \<Longrightarrow> op_bytes a = []"
  by (cases a) simp_all

definition content_type_ok :: "rw_op list \<Rightarrow> bool" where
  "content_type_ok ops \<longleftrightarrow> Op_Header ''Content-Type'' [] \<notin> set ops"

subsection \<open>The body\<close>

lemma b64_stream_append: "b64_stream xs = Inr a \<Longrightarrow> b64_stream (xs @ ys) = map_sum id ((@) a) (b64_stream ys)"
proof (induction xs arbitrary: a rule: b64_stream.induct)
  case 1
  then show ?case by (cases "b64_stream ys") auto
next
  case (2 x y z w rest)
  show ?case
  proof (cases "b64_groups [x, y, z, w]")
    case (Inr g)
    then obtain a' where rest: "b64_stream rest = Inr a'" and a: "a = g @ a'"
      using 2(2) by (cases "b64_stream rest") auto
    show ?thesis using Inr 2(1) [OF Inr rest] a by (cases "b64_stream ys") (simp_all del: b64_groups.simps)
  qed (use 2(2) in \<open>simp del: b64_groups.simps\<close>)
qed simp_all

lemma length_b64_encode_small:
  "\<exists>x y z w. b64_encode [a] = [x, y, z, w]" "\<exists>x y z w. b64_encode [a, b] = [x, y, z, w]"
  "\<exists>x y z w. b64_encode [a, b, c] = [x, y, z, w] \<and> b64_encode (a # b # c # rest) = x # y # z # w # b64_encode rest"
  by (simp_all add: Let_def)

lemma b64_stream_encode: "b64_stream (b64_encode bs) = Inr bs"
proof (induction bs rule: b64_encode.induct)
  case (2 a)
  obtain x y z w where "b64_encode [a] = [x, y, z, w]" using length_b64_encode_small(1) by blast
  then show ?case using b64_groups_encode [of "[a]"] by (simp del: b64_groups.simps b64_encode.simps)
next
  case (3 a b)
  obtain x y z w where "b64_encode [a, b] = [x, y, z, w]" using length_b64_encode_small(2) by blast
  then show ?case using b64_groups_encode [of "[a, b]"] by (simp del: b64_groups.simps b64_encode.simps)
next
  case (4 a b c rest)
  obtain x y z w where "b64_encode [a, b, c] = [x, y, z, w]"
      "b64_encode (a # b # c # rest) = x # y # z # w # b64_encode rest"
    using length_b64_encode_small(3) by blast
  then show ?case
    using b64_groups_encode [of "[a, b, c]"] 4 by (simp del: b64_groups.simps b64_encode.simps)
qed simp

text \<open>
  What is out decodes to everything written but the bytes the encoder still holds.
\<close>

definition body_inv :: "bytes \<Rightarrow> response_writer \<Rightarrow> bool" where
  "body_inv bs rw \<longleftrightarrow>
     (\<exists>sent. response_bytes (rw_text rw) (hw_out (rw_w rw)) = Inr sent \<and> bs = sent @ rw_pending rw) \<and>
     (\<not> rw_text rw \<longrightarrow> rw_pending rw = [])"

lemma body_invD: "body_inv bs rw \<Longrightarrow> rw_pending rw = [] \<Longrightarrow> response_bytes (rw_text rw) (hw_out (rw_w rw)) = Inr bs"
  by (auto simp: body_inv_def)

lemma hw_frame [simp]:
  "hw_out (hw_WriteHeader s w) = hw_out w" "hw_out (hw_Flush w) = hw_out w"
  "hw_flusher (hw_WriteHeader s w) = hw_flusher w" "hw_flusher (hw_Flush w) = hw_flusher w"
  "hw_out (hw_Write b w) = hw_out w @ b" "hw_flusher (hw_Write b w) = hw_flusher w"
  "hw_Header (hw_WriteHeader s w) = hw_Header w" "hw_Header (hw_Flush w) = hw_Header w"
  "hw_Header (hw_Write b w) = hw_Header w" "hw_sent (hw_Write b w) = hw_sent w"
  "hw_sent (hw_Flush w) = hw_sent w"
  by (simp_all add: hw_WriteHeader_def hw_Flush_def hw_Write_def split: option.splits)

lemma body_frame [simp]:
  "rw_text (body_Write b rw) = rw_text rw" "rw_wroteHeader (body_Write b rw) = rw_wroteHeader rw"
  "rw_header (body_Write b rw) = rw_header rw" "hw_flusher (rw_w (body_Write b rw)) = hw_flusher (rw_w rw)"
  "hw_Header (rw_w (body_Write b rw)) = hw_Header (rw_w rw)" "hw_sent (rw_w (body_Write b rw)) = hw_sent (rw_w rw)"
  "rw_text (flush_body rw) = rw_text rw" "rw_wroteHeader (flush_body rw) = rw_wroteHeader rw"
  "rw_header (flush_body rw) = rw_header rw" "hw_flusher (rw_w (flush_body rw)) = hw_flusher (rw_w rw)"
  "hw_Header (rw_w (flush_body rw)) = hw_Header (rw_w rw)" "hw_sent (rw_w (flush_body rw)) = hw_sent (rw_w rw)"
  by (simp_all add: body_Write_def flush_body_def Let_def)

lemma response_bytes_append:
  "response_bytes t xs = Inr a \<Longrightarrow> response_bytes t ys = Inr b \<Longrightarrow> response_bytes t (xs @ ys) = Inr (a @ b)"
  by (auto simp: response_bytes_def b64_stream_append split: if_splits)

lemma response_encoded:
  "response_bytes t xs = Inr a \<Longrightarrow> t \<Longrightarrow> response_bytes True (xs @ b64_encode p) = Inr (a @ p)"
  by (simp add: response_bytes_def b64_stream_append b64_stream_encode)

lemma body_Write_inv:
  assumes "body_inv bs rw"
  shows "body_inv (bs @ b) (body_Write b rw)"
proof -
  obtain sent where sent: "response_bytes (rw_text rw) (hw_out (rw_w rw)) = Inr sent" "bs = sent @ rw_pending rw"
      and plain: "\<not> rw_text rw \<longrightarrow> rw_pending rw = []"
    using assms by (auto simp: body_inv_def)
  show ?thesis
  proof (cases "rw_text rw")
    case True
    from response_encoded [OF sent(1) True] show ?thesis
      using True sent(2) by (auto simp: body_inv_def body_Write_def Let_def simp del: take_append drop_append)
  next
    case False
    then show ?thesis using sent plain by (auto simp: body_inv_def body_Write_def response_bytes_def)
  qed
qed

lemma flush_body_inv:
  assumes "body_inv bs rw"
  shows "body_inv bs (flush_body rw)" "rw_pending (flush_body rw) = []"
    "hw_flusher (rw_w rw) \<Longrightarrow> hw_flushed (rw_w (flush_body rw)) = length (hw_out (rw_w (flush_body rw)))"
proof -
  obtain sent where sent: "response_bytes (rw_text rw) (hw_out (rw_w rw)) = Inr sent" "bs = sent @ rw_pending rw"
      and plain: "\<not> rw_text rw \<longrightarrow> rw_pending rw = []"
    using assms by (auto simp: body_inv_def)
  show "body_inv bs (flush_body rw)"
    using response_encoded [OF sent(1), of "rw_pending rw"] sent plain
    by (cases "rw_text rw") (auto simp: body_inv_def flush_body_def Let_def)
  show "rw_pending (flush_body rw) = []" using plain by (simp add: flush_body_def Let_def)
  show "hw_flusher (rw_w rw) \<Longrightarrow> hw_flushed (rw_w (flush_body rw)) = length (hw_out (rw_w (flush_body rw)))"
    by (simp add: flush_body_def Let_def hw_Flush_def hw_Write_def)
qed

lemma flush_body_bytes:
  "body_inv bs rw \<Longrightarrow> response_bytes (rw_text rw) (hw_out (rw_w (flush_body rw))) = Inr bs"
  using body_invD [OF flush_body_inv(1,2)] by simp

text \<open>The header map never gets a content type without a value, so putting the headers out does not panic.\<close>

definition typed :: "header \<Rightarrow> bool" where
  "typed h \<longleftrightarrow> map_of h ''Content-Type'' \<noteq> Some []"

lemma rw_WriteHeader_ok:
  assumes "typed (rw_header rw)"
  obtains rw1 where "rw_WriteHeader st rw = Inr rw1" "rw_wroteHeader rw1" "rw_header rw1 = rw_header rw"
    "rw_text rw1 = rw_text rw" "hw_flusher (rw_w rw1) = hw_flusher (rw_w rw)"
    "\<And>bs. body_inv bs rw1 \<longleftrightarrow> body_inv bs rw"
proof (cases "rw_wroteHeader rw")
  case True
  then show ?thesis using that by (simp add: rw_WriteHeader_def)
next
  case False
  with assms show ?thesis
    by (intro that [of "rw\<lparr>rw_wroteHeader := True,
          rw_w := hw_WriteHeader st ((rw_w rw)\<lparr>hw_Header := out_header rw\<rparr>)\<rparr>"])
      (simp_all add: rw_WriteHeader_def typed_def body_inv_def)
qed

lemma rw_step_ok:
  assumes "typed (rw_header rw)" "a \<noteq> Op_Header ''Content-Type'' []" "body_inv bs rw"
  obtains rw1 where "rw_step a rw = Inr rw1" "typed (rw_header rw1)" "body_inv (bs @ op_bytes a) rw1"
    "rw_wroteHeader rw1 \<longleftrightarrow> rw_wroteHeader rw \<or> is_commit a"
    "rw_text rw1 = rw_text rw" "hw_flusher (rw_w rw1) = hw_flusher (rw_w rw)"
proof (cases a)
  case (Op_Header k vs)
  then show ?thesis
    using assms by (intro that [of "rw\<lparr>rw_header := AList.update k vs (rw_header rw)\<rparr>"])
      (auto simp: typed_def body_inv_def update_conv)
next
  case (Op_Del k)
  then show ?thesis
    using assms by (intro that [of "rw\<lparr>rw_header := AList.delete k (rw_header rw)\<rparr>"])
      (auto simp: typed_def body_inv_def delete_conv)
next
  case (Op_WriteHeader st)
  obtain rw1 where "rw_WriteHeader st rw = Inr rw1" "rw_wroteHeader rw1" "rw_header rw1 = rw_header rw"
      "rw_text rw1 = rw_text rw" "hw_flusher (rw_w rw1) = hw_flusher (rw_w rw)" "body_inv bs rw1"
    using rw_WriteHeader_ok [OF assms(1)] assms(3) by metis
  then show ?thesis using assms(1) Op_WriteHeader by (intro that [of rw1]) simp_all
next
  case (Op_Write b)
  obtain rw1 where "rw_WriteHeader 200 rw = Inr rw1" "rw_wroteHeader rw1" "rw_header rw1 = rw_header rw"
      "rw_text rw1 = rw_text rw" "hw_flusher (rw_w rw1) = hw_flusher (rw_w rw)" "body_inv bs rw1"
    using rw_WriteHeader_ok [OF assms(1)] assms(3) by metis
  then show ?thesis
    using assms Op_Write body_Write_inv [of bs _ b]
    by (cases "rw_wroteHeader rw") (auto simp: rw_Write_def intro!: that)
next
  case Op_Flush
  then show ?thesis
    using assms flush_body_inv(1) by (intro that [of "rw_Flush rw"]) (auto simp: rw_Flush_def)
qed

lemma run_ops_ok:
  assumes "typed (rw_header rw)" "content_type_ok ops" "body_inv bs rw"
  shows "\<exists>rw1. run_ops ops rw = Inr rw1 \<and> typed (rw_header rw1) \<and> body_inv (bs @ written ops) rw1 \<and>
    (rw_wroteHeader rw1 \<longleftrightarrow> rw_wroteHeader rw \<or> (\<exists>a \<in> set ops. is_commit a)) \<and>
    rw_text rw1 = rw_text rw \<and> hw_flusher (rw_w rw1) = hw_flusher (rw_w rw)"
  using assms
proof (induction ops arbitrary: rw bs)
  case (Cons a as)
  from Cons.prems(2) have "a \<noteq> Op_Header ''Content-Type'' []" by (auto simp: content_type_ok_def)
  from rw_step_ok [OF Cons.prems(1) this Cons.prems(3)]
  obtain rw1 where rw1: "rw_step a rw = Inr rw1" "typed (rw_header rw1)" "body_inv (bs @ op_bytes a) rw1"
      "rw_wroteHeader rw1 \<longleftrightarrow> rw_wroteHeader rw \<or> is_commit a"
      "rw_text rw1 = rw_text rw" "hw_flusher (rw_w rw1) = hw_flusher (rw_w rw)"
    by blast
  from Cons.prems(2) have "content_type_ok as" by (simp add: content_type_ok_def)
  from Cons.IH [OF rw1(2) this rw1(3)] show ?case using rw1 by auto
qed auto

lemma run_ops_append:
  "run_ops (as @ bs) rw = (case run_ops as rw of Inl e \<Rightarrow> Inl e | Inr rw1 \<Rightarrow> run_ops bs rw1)"
  by (induction as arbitrary: rw) (auto split: sum.splits)

lemma new_writer_ok:
  "typed (rw_header (newResponseWriter w ct t))" "hw_out w = [] \<Longrightarrow> body_inv [] (newResponseWriter w ct t)"
  "rw_text (newResponseWriter w ct t) = t" "rw_w (newResponseWriter w ct t) = w"
  "\<not> rw_wroteHeader (newResponseWriter w ct t)" "rw_header (newResponseWriter w ct t) = []"
  by (simp_all add: newResponseWriter_def typed_def body_inv_def response_bytes_def)

subsection \<open>Trailers\<close>

lemma hdr_Add_map: "map_of (hdr_Add h k v) = (map_of h)(CanonicalKey k \<mapsto> hdr_Values h k @ [v])"
  by (simp add: hdr_Add_def update_conv')

lemma typed_Add_fold: "typed h \<Longrightarrow> typed (fold (\<lambda>v h'. hdr_Add h' k v) vs h)"
  by (induction vs arbitrary: h) (auto simp: typed_def hdr_Add_map)

lemma typed_delete: "typed h \<Longrightarrow> typed (AList.delete k h)"
  by (auto simp: typed_def delete_conv)

lemma typed_trailers_only: "typed h \<Longrightarrow> typed (trailers_only_header h)"
proof -
  have "typed h' \<Longrightarrow> typed (fold move_trailer kvs h')" for kvs h'
    by (induction kvs arbitrary: h')
      (auto simp: move_trailer_def typed_delete typed_Add_fold split: prod.splits)
  then show "typed h \<Longrightarrow> typed (trailers_only_header h)" by (simp add: trailers_only_header_def)
qed

lemma finish_ok:
  assumes "typed (rw_header rw)" "body_inv bs rw"
  shows "\<exists>rw1. finish rw = Inr rw1 \<and>
    response_bytes (rw_text rw) (hw_out (rw_w rw1)) =
      Inr (bs @ (if rw_wroteHeader rw then frame 128 (trailers rw) else []))"
proof (cases "rw_wroteHeader rw")
  case True
  with flush_body_bytes [OF body_Write_inv [OF assms(2), of "frame 128 (trailers rw)"]] show ?thesis
    by (simp add: finish_def Let_def frame_def)
next
  case False
  let ?rw = "rw\<lparr>rw_header := trailers_only_header (rw_header rw)\<rparr>"
  have "typed (rw_header ?rw)" using typed_trailers_only assms(1) by simp
  from rw_WriteHeader_ok [OF this] obtain rw1 where
      "rw_WriteHeader 200 ?rw = Inr rw1" "rw_text rw1 = rw_text rw" "body_inv bs rw1 \<longleftrightarrow> body_inv bs ?rw"
    by (metis response_writer.select_convs(4) response_writer.surjective response_writer.update_convs(2))
  moreover from assms(2) have "body_inv bs ?rw" by (simp add: body_inv_def)
  ultimately show ?thesis using False flush_body_bytes [of bs rw1] by (auto simp: finish_def)
qed

lemma parse_frame:
  assumes "f < 256" "length p < 4294967296"
  shows "parse_frames (frame f p @ rest) = (f, p) # parse_frames rest"
proof -
  have "be_get (be_put 4 (length p)) = length p"
    using assms(2) by (simp add: be_get_put)
  then show ?thesis
    using assms(1) by (subst parse_frames.simps) (simp add: frame_def Let_def drop_Cons')
qed

lemma parse_frames_Nil [simp]: "parse_frames [] = []"
  by (simp add: parse_frames.simps)

lemma parse_messages:
  "list_all (\<lambda>m. length m < 4294967296) msgs \<Longrightarrow>
   parse_frames (concat (map (frame 0) msgs) @ rest) = map (Pair 0) msgs @ parse_frames rest"
  by (induction msgs) (simp_all add: parse_frame)

subsection \<open>Headers that go out\<close>

lemma AList_update_map: "map_of (AList.update k v h) = (map_of h)(k \<mapsto> v)"
  by (rule update_conv')

lemma copy_header_other:
  "k \<notin> fst ` set h \<Longrightarrow> map_of (fold (copy_header ct) h out) k = map_of out k"
  by (induction h arbitrary: out) (auto simp: copy_header_def update_conv split: prod.splits if_splits)

lemma copy_header_same:
  assumes "distinct (map fst h)" "map_of h k = Some vs" "k \<notin> {''Trailer'', ''Content-Type''}" "\<not> prefix TrailerPrefix k"
  shows "map_of (fold (copy_header ct) h out) k = Some vs"
  using assms
proof (induction h arbitrary: out)
  case (Cons kv h)
  show ?case
  proof (cases "fst kv = k")
    case True
    with Cons.prems have "k \<notin> fst ` set h" "snd kv = vs" by auto
    then show ?thesis
      using True Cons.prems(3,4) by (cases kv) (simp add: copy_header_other, simp add: copy_header_def update_conv)
  next
    case False
    with Cons show ?thesis by simp
  qed
qed simp

lemma out_header_map:
  "k \<noteq> ''Access-Control-Expose-Headers'' \<Longrightarrow> k \<noteq> ''X-Accel-Buffering'' \<Longrightarrow>
   map_of (out_header rw) k = map_of (fold (copy_header (rw_contentType rw)) (rw_header rw) (hw_Header (rw_w rw))) k"
proof -
  have "CanonicalKey ''Access-Control-Expose-Headers'' = ''Access-Control-Expose-Headers''"
    "CanonicalKey ''X-Accel-Buffering'' = ''X-Accel-Buffering''"
    by code_simp+
  then show "k \<noteq> ''Access-Control-Expose-Headers'' \<Longrightarrow> k \<noteq> ''X-Accel-Buffering'' \<Longrightarrow>
   map_of (out_header rw) k = map_of (fold (copy_header (rw_contentType rw)) (rw_header rw) (hw_Header (rw_w rw))) k"
    by (simp add: out_header_def Let_def hdr_Set_def update_conv)
qed

text \<open>The key a trailer is sent under, and the operations that leave the status alone.\<close>

definition status_key :: "string \<Rightarrow> bool" where
  "status_key k \<longleftrightarrow> CanonicalKey (TrimPrefix k TrailerPrefix) = ''Grpc-Status''"

fun keeps_status :: "rw_op \<Rightarrow> bool" where
  "keeps_status (Op_Header k vs) \<longleftrightarrow> \<not> status_key k"
| "keeps_status (Op_Del k) \<longleftrightarrow> \<not> status_key k"
| "keeps_status _ \<longleftrightarrow> True"

lemma status_key_self: "status_key ''Grpc-Status''"
  by code_simp

definition no_status :: "response_writer \<Rightarrow> bool" where
  "no_status rw \<longleftrightarrow>
     distinct (map fst (rw_header rw)) \<and> (\<forall>k \<in> fst ` set (rw_header rw). \<not> status_key k) \<and>
     map_of (hw_Header (rw_w rw)) ''Grpc-Status'' = None \<and>
     (\<not> rw_wroteHeader rw \<longrightarrow> hw_sent (rw_w rw) = None)"

lemma no_status_WriteHeader:
  assumes "no_status rw" "rw_WriteHeader st rw = Inr rw1"
  shows "no_status rw1"
proof -
  have "''Grpc-Status'' \<notin> fst ` set (rw_header rw)"
    using assms(1) status_key_self by (auto simp: no_status_def)
  then have "map_of (out_header rw) ''Grpc-Status'' = None"
    using assms(1) by (subst out_header_map) (simp_all add: copy_header_other no_status_def)
  with assms show ?thesis
    by (auto simp: rw_WriteHeader_def no_status_def split: if_splits)
qed

lemma no_status_body: "no_status rw \<Longrightarrow> no_status (body_Write b rw)" "no_status rw \<Longrightarrow> no_status (flush_body rw)"
  by (simp_all add: no_status_def)

lemma update_key: "(k', v') \<in> set (AList.update k v h) \<Longrightarrow> k' = k \<or> k' \<in> fst ` set h"
proof -
  assume "(k', v') \<in> set (AList.update k v h)"
  then have "k' \<in> fst ` set (AList.update k v h)" by force
  then show ?thesis by (simp only: dom_update) blast
qed

lemma delete_key: "(k', v') \<in> set (AList.delete k h) \<Longrightarrow> k' \<in> fst ` set h"
  using dom_delete_subset [of k h] by force

lemma no_status_step:
  assumes "no_status rw" "keeps_status a" "rw_step a rw = Inr rw1"
  shows "no_status rw1"
proof (cases a)
  case (Op_Header k vs)
  then show ?thesis
    using assms by (auto simp: no_status_def distinct_update dest!: update_key)
next
  case (Op_Del k)
  then show ?thesis
    using assms by (auto simp: no_status_def distinct_delete dest!: delete_key)
next
  case (Op_WriteHeader st)
  then show ?thesis using assms no_status_WriteHeader by simp
next
  case (Op_Write b)
  then show ?thesis
    using assms no_status_WriteHeader [of rw 200] no_status_body(1)
    by (auto simp: rw_Write_def split: if_splits sum.splits)
next
  case Op_Flush
  then show ?thesis using assms no_status_body(2) by (auto simp: rw_Flush_def split: if_splits)
qed

lemma no_status_run:
  "no_status rw \<Longrightarrow> list_all keeps_status ops \<Longrightarrow> run_ops ops rw = Inr rw1 \<Longrightarrow> no_status rw1"
  by (induction ops arbitrary: rw) (auto split: sum.splits dest: no_status_step)

lemma hdr_Add_other: "CanonicalKey k' \<noteq> k \<Longrightarrow> map_of (fold (\<lambda>v h'. hdr_Add h' k' v) vs h) k = map_of h k"
  by (induction vs arbitrary: h) (simp_all add: hdr_Add_map)

lemma move_trailer_status:
  "\<not> status_key k \<or> \<not> prefix TrailerPrefix k \<Longrightarrow>
   map_of (move_trailer (k, vs) h) ''Grpc-Status'' = map_of h ''Grpc-Status''"
proof -
  have "\<not> prefix TrailerPrefix ''Grpc-Status''" by code_simp
  then show "\<not> status_key k \<or> \<not> prefix TrailerPrefix k \<Longrightarrow>
      map_of (move_trailer (k, vs) h) ''Grpc-Status'' = map_of h ''Grpc-Status''"
    by (auto simp: move_trailer_def delete_conv hdr_Add_other status_key_def)
qed

lemma trailers_only_status:
  assumes "\<forall>kv \<in> set h. \<not> status_key (fst kv) \<or> \<not> prefix TrailerPrefix (fst kv)"
  shows "map_of (trailers_only_header h) ''Grpc-Status'' = map_of h ''Grpc-Status''"
proof -
  have "\<forall>kv \<in> set kvs. \<not> status_key (fst kv) \<or> \<not> prefix TrailerPrefix (fst kv) \<Longrightarrow>
      map_of (fold move_trailer kvs h') ''Grpc-Status'' = map_of h' ''Grpc-Status''" for kvs h'
    by (induction kvs arbitrary: h') (auto simp: move_trailer_status)
  then show ?thesis using assms by (simp add: trailers_only_header_def)
qed

lemma distinct_trailers_only: "distinct (map fst h) \<Longrightarrow> distinct (map fst (trailers_only_header h))"
proof -
  have add: "distinct (map fst h') \<Longrightarrow> distinct (map fst (fold (\<lambda>v h''. hdr_Add h'' k v) vs h'))" for k vs h'
    by (induction vs arbitrary: h') (simp_all add: hdr_Add_def distinct_update)
  have "distinct (map fst h') \<Longrightarrow> distinct (map fst (fold move_trailer kvs h'))" for kvs h'
    by (induction kvs arbitrary: h') (auto simp: move_trailer_def add distinct_delete split: prod.splits)
  then show "distinct (map fst h) \<Longrightarrow> distinct (map fst (trailers_only_header h))"
    by (simp add: trailers_only_header_def)
qed

text \<open>A status set last: after messages it is a trailer line, before any it is a header.\<close>

lemma status_line:
  assumes "no_status rw"
  shows "trailer_line ''Grpc-Status'' s
    \<in> set (trailer_lines (rw\<lparr>rw_header := AList.update ''Grpc-Status'' [s] (rw_header rw)\<rparr>))"
proof -
  let ?h = "AList.update ''Grpc-Status'' [s] (rw_header rw)"
  have "map_of ?h ''Grpc-Status'' = Some [s]" by (simp add: update_conv)
  then have "(''Grpc-Status'', [s]) \<in> set ?h" by (rule map_of_SomeD)
  moreover have "trailer_line ''Grpc-Status'' s \<in> set (key_lines (hw_Header (rw_w rw)) (''Grpc-Status'', [s]))"
    using assms by (simp add: no_status_def key_lines_def)
  ultimately show ?thesis unfolding trailer_lines_def set_sort set_concat set_map by force
qed

lemma status_header:
  assumes "no_status rw" "\<not> rw_wroteHeader rw" "rw_header rw' = AList.update ''Grpc-Status'' [s] (rw_header rw)"
    and "rw_w rw' = rw_w rw" "\<not> rw_wroteHeader rw'" "finish rw' = Inr rw1"
  shows "\<exists>h. hw_sent (rw_w rw1) = Some (200, h) \<and> map_of h ''Grpc-Status'' = Some [s]"
proof -
  let ?h = "trailers_only_header (rw_header rw')"
  have np: "\<not> prefix TrailerPrefix ''Grpc-Status''" by code_simp
  have "map_of ?h ''Grpc-Status'' = map_of (rw_header rw') ''Grpc-Status''"
    using assms(1,3) np by (intro trailers_only_status) (auto simp: no_status_def dest!: update_key)
  then have st: "map_of ?h ''Grpc-Status'' = Some [s]" using assms(3) by (simp add: update_conv)
  moreover have "distinct (map fst ?h)"
    using assms(1,3) by (intro distinct_trailers_only) (simp add: no_status_def distinct_update)
  ultimately have out: "map_of (out_header (rw'\<lparr>rw_header := ?h\<rparr>)) ''Grpc-Status'' = Some [s]"
    using np by (subst out_header_map) (simp_all add: copy_header_same)
  obtain rw2 where "rw_WriteHeader 200 (rw'\<lparr>rw_header := ?h\<rparr>) = Inr rw2" and rw1: "rw1 = flush_body rw2"
    using assms(5,6) by (auto simp: finish_def split: sum.splits)
  with assms(5) have "rw_w rw2 = hw_WriteHeader 200 ((rw_w rw')\<lparr>hw_Header := out_header (rw'\<lparr>rw_header := ?h\<rparr>)\<rparr>)"
    by (auto simp: rw_WriteHeader_def split: if_splits)
  moreover have "hw_sent (rw_w rw') = None" using assms(1,2,4) by (simp add: no_status_def)
  ultimately show ?thesis using out rw1 by (simp add: hw_WriteHeader_def)
qed

lemma run_new_ok:
  assumes "content_type_ok ops" "hw_out w = []"
  obtains rw where "run_ops ops (newResponseWriter w ct t) = Inr rw" "typed (rw_header rw)"
    "body_inv (written ops) rw" "rw_wroteHeader rw \<longleftrightarrow> (\<exists>a \<in> set ops. is_commit a)" "rw_text rw = t"
    "hw_flusher (rw_w rw) = hw_flusher w"
  using run_ops_ok [OF new_writer_ok(1) [of w ct t] assms(1) new_writer_ok(2) [OF assms(2)]]
  by (auto simp: new_writer_ok)

lemma run_flushes:
  "body_inv bs rw \<Longrightarrow> \<exists>rw'. run_ops (replicate n Op_Flush) rw = Inr rw' \<and> body_inv bs rw' \<and>
     rw_header rw' = rw_header rw \<and> hw_Header (rw_w rw') = hw_Header (rw_w rw) \<and>
     rw_wroteHeader rw' = rw_wroteHeader rw \<and> rw_text rw' = rw_text rw \<and>
     (\<not> rw_wroteHeader rw \<longrightarrow> rw' = rw)"
proof (induction n arbitrary: rw)
  case (Suc n)
  then have "body_inv bs (rw_Flush rw)" using flush_body_inv(1) by (simp add: rw_Flush_def)
  from Suc.IH [OF this] show ?case by (auto simp: rw_Flush_def split: if_splits)
qed simp

text \<open>How long the trailers can get, from the headers the server sets.\<close>

fun op_header :: "rw_op \<Rightarrow> header \<Rightarrow> header" where
  "op_header (Op_Header k vs) h = AList.update k vs h"
| "op_header (Op_Del k) h = AList.delete k h"
| "op_header _ h = h"

definition header_bytes :: "header \<Rightarrow> nat" where
  "header_bytes h = sum_list (map (\<lambda>kv. sum_list (map (\<lambda>v. length (fst kv) + length v + 4) (snd kv))) h)"

lemma rw_header_step: "rw_step a rw = Inr rw1 \<Longrightarrow> rw_header rw1 = op_header a (rw_header rw)"
  by (cases a) (auto simp: rw_WriteHeader_def rw_Write_def rw_Flush_def split: if_splits sum.splits)

lemma rw_header_run: "run_ops ops rw = Inr rw1 \<Longrightarrow> rw_header rw1 = fold op_header ops (rw_header rw)"
  by (induction ops arbitrary: rw) (auto split: sum.splits dest: rw_header_step)

lemma length_trailer_line: "length (trailer_line k v) \<le> length k + length v + 4"
  by (simp add: trailer_line_def ToLower_def TrimPrefix_def)

lemma length_concat_perm: "mset xs = mset ys \<Longrightarrow> length (concat xs) = length (concat ys)"
  by (simp add: length_concat flip: sum_mset_sum_list)

lemma length_trailers: "length (trailers rw) \<le> header_bytes (rw_header rw)"
proof -
  have line: "length (concat (key_lines sent kv)) \<le> sum_list (map (\<lambda>v. length (fst kv) + length v + 4) (snd kv))"
    for sent kv
    by (cases kv) (auto simp: key_lines_def length_concat comp_def intro!: sum_list_mono length_trailer_line)
  have "length (concat (concat (map (key_lines sent) h))) \<le> header_bytes h" for sent h
    by (induction h) (auto simp: header_bytes_def intro: add_mono line)
  moreover have "length (trailers rw) = length (concat (concat (map (key_lines (hw_Header (rw_w rw))) (rw_header rw))))"
    unfolding trailers_def trailer_lines_def by (rule length_concat_perm) simp
  ultimately show ?thesis by simp
qed

subsection \<open>Properties\<close>

text \<open>
  C25: what a gRPC-Web client decodes is what the server sent. If the server writes the frames of some
  messages, in whatever pieces and with whatever flushes and header changes between, then the body of the
  response, read as a stream of padded base64 groups when the request was a text one, parses into
  exactly these messages followed by one trailer frame, or into nothing at all when the headers never went
  out before the end: then the status travels in the headers.
\<close>

theorem grpcweb_body_roundtrip:
  assumes "content_type_ok (server (grpc_request r))" and "hw_out w = []"
    and "written (server (grpc_request r)) = concat (map (frame 0) msgs)"
    and "list_all (\<lambda>m. length m < 4294967296) msgs"
    and "header_bytes (fold op_header (server (grpc_request r)) []) < 4294967296"
  shows "\<exists>rw w' body.
    run_ops (server (grpc_request r)) (newResponseWriter w (web_type r) (is_text r)) = Inr rw \<and>
    serve server w r = Inr w' \<and> response_bytes (is_text r) (hw_out w') = Inr body \<and>
    parse_frames body = map (Pair 0) msgs @
      (if \<exists>a \<in> set (server (grpc_request r)). is_commit a then [(128, trailers rw)] else [])"
proof -
  let ?new = "newResponseWriter w (web_type r) (is_text r)"
  obtain rw where rw: "run_ops (server (grpc_request r)) ?new = Inr rw" "typed (rw_header rw)"
      "body_inv (concat (map (frame 0) msgs)) rw" "rw_text rw = is_text r"
      "rw_wroteHeader rw \<longleftrightarrow> (\<exists>a \<in> set (server (grpc_request r)). is_commit a)"
    using run_new_ok [OF assms(1,2)] unfolding assms(3) by blast
  from finish_ok [OF rw(2,3)] obtain rw1 where fin: "finish rw = Inr rw1"
      "response_bytes (is_text r) (hw_out (rw_w rw1)) =
        Inr (concat (map (frame 0) msgs) @ (if rw_wroteHeader rw then frame 128 (trailers rw) else []))"
    by (auto simp: rw(4))
  have "parse_frames (frame 128 (trailers rw)) = [(128, trailers rw)]"
    using parse_frame [of 128 "trailers rw" "[]"] length_trailers [of rw] assms(5) rw_header_run [OF rw(1)]
    by (simp add: new_writer_ok)
  then show ?thesis
    using rw(1,5) fin parse_messages [OF assms(4)] by (simp add: serve_def)
qed

text \<open>
  Streams are delivered message by message. Once the headers are out, everything the server wrote before
  a flush can be decoded from the bytes that have reached the client at that flush: the base64 encoder
  holds nothing back.
\<close>

theorem grpcweb_flush_delivers:
  assumes "content_type_ok ops" and "\<exists>a \<in> set ops. is_commit a" and "hw_out w = []" and "hw_flusher w"
  shows "\<exists>rw. run_ops (ops @ [Op_Flush]) (newResponseWriter w ct text) = Inr rw \<and>
    response_bytes text (take (hw_flushed (rw_w rw)) (hw_out (rw_w rw))) = Inr (written ops)"
proof -
  obtain rw where rw: "run_ops ops (newResponseWriter w ct text) = Inr rw"
      "body_inv (written ops) rw" "rw_text rw = text" "rw_wroteHeader rw" "hw_flusher (rw_w rw)"
    using run_new_ok [OF assms(1,3)] assms(2,4) by metis
  with flush_body_bytes [OF rw(2)] flush_body_inv(3) [OF rw(2)] show ?thesis
    by (simp add: run_ops_append rw_Flush_def)
qed

text \<open>
  C26: the status of a call reaches the client. When the server sets Grpc-Status as the last thing before it
  ends a call (a flush may follow), and neither it nor the middleware set it before, the client finds it: as a line
  of the trailer frame if the headers were out by then, otherwise among the headers of a 200 response with an
  empty body.
\<close>

theorem grpcweb_status_delivered:
  assumes "server (grpc_request r) = ops @ [Op_Header ''Grpc-Status'' [s]] @ replicate n Op_Flush"
    and "list_all keeps_status ops" and "content_type_ok ops"
    and "hw_out w = []" and "hw_sent w = None" and "map_of (hw_Header w) ''Grpc-Status'' = None"
  shows "\<exists>w' h. serve server w r = Inr w' \<and>
    (if \<exists>a \<in> set ops. is_commit a
     then \<exists>lines. trailer_line ''Grpc-Status'' s \<in> set lines \<and>
       response_bytes (is_text r) (hw_out w') = Inr (written ops @ frame 128 (concat lines))
     else hw_sent w' = Some (200, h) \<and> map_of h ''Grpc-Status'' = Some [s] \<and>
       response_bytes (is_text r) (hw_out w') = Inr [])"
proof -
  let ?new = "newResponseWriter w (web_type r) (is_text r)"
  obtain rw where rw: "run_ops ops ?new = Inr rw" "typed (rw_header rw)" "body_inv (written ops) rw"
      "rw_text rw = is_text r" "rw_wroteHeader rw \<longleftrightarrow> (\<exists>a \<in> set ops. is_commit a)"
    using run_new_ok [OF assms(3,4)] by blast
  have "no_status ?new" using assms(5,6) by (simp add: no_status_def newResponseWriter_def)
  then have free: "no_status rw" using no_status_run assms(2) rw(1) by blast
  define rw1 where "rw1 = rw\<lparr>rw_header := AList.update ''Grpc-Status'' [s] (rw_header rw)\<rparr>"
  have rw1: "typed (rw_header rw1)" "body_inv (written ops) rw1"
    using rw(2,3) by (simp_all add: rw1_def typed_def update_conv body_inv_def)
  obtain rw2 where rw2: "run_ops (replicate n Op_Flush) rw1 = Inr rw2" "body_inv (written ops) rw2"
      "rw_header rw2 = rw_header rw1" "hw_Header (rw_w rw2) = hw_Header (rw_w rw1)"
      "rw_wroteHeader rw2 = rw_wroteHeader rw1" "rw_text rw2 = rw_text rw1" "\<not> rw_wroteHeader rw1 \<Longrightarrow> rw2 = rw1"
    using run_flushes [OF rw1(2)] by blast
  have run: "run_ops (server (grpc_request r)) ?new = Inr rw2"
    by (simp add: assms(1) run_ops_append rw(1) rw1_def [symmetric] rw2(1))
  from finish_ok [OF _ rw2(2)] rw1(1) rw2(3,6) rw(4) obtain rw3 where rw3: "finish rw2 = Inr rw3"
      "response_bytes (is_text r) (hw_out (rw_w rw3)) =
        Inr (written ops @ (if rw_wroteHeader rw2 then frame 128 (trailers rw2) else []))"
    by (auto simp: rw1_def)
  have w: "rw_wroteHeader rw2 \<longleftrightarrow> (\<exists>a \<in> set ops. is_commit a)" using rw(5) rw2(5) by (simp add: rw1_def)
  show ?thesis
  proof (cases "\<exists>a \<in> set ops. is_commit a")
    case True
    have "trailer_lines rw2 = trailer_lines rw1" using rw2(3,4) by (simp add: trailer_lines_def)
    with status_line [OF free, of s] have "trailer_line ''Grpc-Status'' s \<in> set (trailer_lines rw2)"
      by (simp add: rw1_def)
    then show ?thesis using True w run rw3 by (auto simp: serve_def trailers_def)
  next
    case False
    then have "rw2 = rw1" "\<not> rw_wroteHeader rw" using rw2(7) rw(5) by (auto simp: rw1_def)
    then obtain h where "hw_sent (rw_w rw3) = Some (200, h)" "map_of h ''Grpc-Status'' = Some [s]"
      using status_header [OF free _ _ _ _ rw3(1), of s] by (auto simp: rw1_def)
    moreover have "written ops = []" using False by (auto simp: no_commit_bytes)
    ultimately show ?thesis using False w run rw3 by (auto simp: serve_def)
  qed
qed

subsection \<open>Examples\<close>

definition test_writer :: http_writer where
  "test_writer = \<lparr>hw_Header = [(''Vary'', [''Origin''])], hw_sent = None, hw_out = [], hw_flushed = 0, hw_flusher = True\<rparr>"

definition test_call :: http_request where
  "test_call = \<lparr>hr_Method = ''POST'', hr_ProtoMajor = 1, hr_ProtoMinor = 1,
     hr_Header = [(''Content-Type'', [''application/grpc-web-text+proto'']), (''Content-Length'', [''8''])],
     hr_ContentLength = 8, hr_Body = Plain ''AAAAAAA=''\<rparr>"

definition test_ops :: "rw_op list" where
  "test_ops = [Op_Header ''Content-Type'' [''application/grpc+proto''], Op_Header ''Trailer'' [''Grpc-Status''],
     Op_WriteHeader 200, Op_Write (byte 0 # be_put 4 2), Op_Write ''hi'', Op_Flush, Op_Write (frame 0 ''there''),
     Op_Header ''Trailer:x-took'' [''3ms'']]"

definition test_server :: "http_request \<Rightarrow> rw_op list" where
  "test_server r = (if hr_ProtoMajor r = 2 then test_ops @ [Op_Header ''Grpc-Status'' [''0'']] @ replicate 1 Op_Flush else [])"

lemma test_server_ops: "test_server (grpc_request test_call) = test_ops @ [Op_Header ''Grpc-Status'' [''0'']] @ replicate 1 Op_Flush"
  by (simp add: test_server_def grpc_request_def)

lemma test_ops_facts:
  "content_type_ok test_ops" "list_all keeps_status test_ops" "\<exists>a \<in> set test_ops. is_commit a"
  "hw_out test_writer = []" "hw_sent test_writer = None" "hw_flusher test_writer"
  "map_of (hw_Header test_writer) ''Grpc-Status'' = None" "is_text test_call"
  "written test_ops = concat (map (frame 0) [''hi'', ''there''])"
proof -
  show "content_type_ok test_ops" unfolding content_type_ok_def by code_simp
  show "list_all keeps_status test_ops" by code_simp
  show "\<exists>a \<in> set test_ops. is_commit a" by (simp add: test_ops_def)
  show "hw_out test_writer = []" "hw_sent test_writer = None" "hw_flusher test_writer"
    "map_of (hw_Header test_writer) ''Grpc-Status'' = None"
    by (simp_all add: test_writer_def)
  show "is_text test_call" by code_simp
  show "written test_ops = concat (map (frame 0) [''hi'', ''there''])"
    by code_simp
qed

theorem grpcweb_body_roundtrip_witness:
  "\<exists>rw w' body. serve test_server test_writer test_call = Inr w' \<and>
    response_bytes True (hw_out w') = Inr body \<and>
    parse_frames body = [(0, ''hi''), (0, ''there''), (128, trailers rw)]"
proof -
  have "content_type_ok (test_server (grpc_request test_call))"
    using test_ops_facts(1) by (simp add: test_server_ops content_type_ok_def)
  moreover have "written (test_server (grpc_request test_call)) = concat (map (frame 0) [''hi'', ''there''])"
    using test_ops_facts(9) by (simp add: test_server_ops)
  moreover have "header_bytes (fold op_header (test_server (grpc_request test_call)) []) < 4294967296"
    by (simp add: test_server_ops test_ops_def header_bytes_def)
  moreover have "list_all (\<lambda>m. length m < 4294967296) [''hi'', ''there'']" by simp
  moreover have "\<exists>a \<in> set (test_server (grpc_request test_call)). is_commit a"
    using test_ops_facts(3) by (auto simp: test_server_ops)
  ultimately show ?thesis
    using grpcweb_body_roundtrip [of test_server test_call test_writer "[''hi'', ''there'']"] test_ops_facts(4,8)
    by auto
qed

theorem grpcweb_flush_delivers_witness:
  "\<exists>rw. run_ops (test_ops @ [Op_Flush]) (newResponseWriter test_writer grpcWebTextContentType True) = Inr rw \<and>
    response_bytes True (take (hw_flushed (rw_w rw)) (hw_out (rw_w rw))) = Inr (written test_ops)"
  by (rule grpcweb_flush_delivers [OF test_ops_facts(1,3,4,6)])

theorem grpcweb_status_delivered_witness:
  "\<exists>w' lines. serve test_server test_writer test_call = Inr w' \<and>
    trailer_line ''Grpc-Status'' ''0'' \<in> set lines \<and>
    response_bytes True (hw_out w') = Inr (written test_ops @ frame 128 (concat lines))"
  using grpcweb_status_delivered [of test_server test_call test_ops "''0''" 1 test_writer] test_server_ops test_ops_facts
  by auto

end
