(* ===== verification/Mailer.thy ===== *)
theory Mailer
  imports Prelude Text
begin

section \<open>Sending mail: pkg/mailer/smtp.go, mailgun.go\<close>

text \<open>
  The server mails sign-up and reset codes. The SMTP mailer drives the standard library's client
  through one session; the mail server is a parameter, which answers a command after the commands it has seen, and
  advertises extensions that may change once the connection is encrypted. What goes over the wire is a
  list of commands, each with whether it was sent over TLS.
\<close>

subsection \<open>net/smtp\<close>

datatype smtp_command = C_Hello | C_StartTLS | C_Auth string string | C_AuthAbort | C_Mail string | C_Rcpt string | C_Data
  | C_Body bytes | C_Quit

type_synonym wire = "(bool \<times> smtp_command) list"

record mail_server =
  ms_tls_dial :: "error option"
  ms_tcp_dial :: "error option"
  ms_greeting :: "error option"
  ms_handshake :: "error option"
  ms_Extension :: "bool \<Rightarrow> string \<Rightarrow> bool"
  ms_answer :: "wire \<Rightarrow> bool \<times> smtp_command \<Rightarrow> error option"

record smtp_client =
  sc_serverName :: string
  sc_tls :: bool
  sc_wire :: wire

type_synonym smtp_action = "smtp_client \<Rightarrow> error option \<times> smtp_client"

definition then_do :: "smtp_action \<Rightarrow> smtp_action \<Rightarrow> smtp_action" where
  "then_do f g c = (case f c of (Some e, c1) \<Rightarrow> (Some e, c1) | (None, c1) \<Rightarrow> g c1)"

definition skip :: smtp_action where
  "skip c = (None, c)"

definition fail :: "error \<Rightarrow> smtp_action" where
  "fail e c = (Some e, c)"

definition send_command :: "mail_server \<Rightarrow> smtp_command \<Rightarrow> smtp_action" where
  "send_command M cmd c =
     (ms_answer M (sc_wire c) (sc_tls c, cmd), c\<lparr>sc_wire := sc_wire c @ [(sc_tls c, cmd)]\<rparr>)"

text \<open>The greeting of the client, sent when the session first needs it.\<close>

definition client_hello :: "mail_server \<Rightarrow> smtp_action" where
  "client_hello M c = (if sc_wire c = [] then send_command M C_Hello c else (None, c))"

definition isLocalhost :: "string \<Rightarrow> bool" where
  "isLocalhost name \<longleftrightarrow> name = ''localhost'' \<or> name = ''127.0.0.1'' \<or> name = ''::1''"

text \<open>\<open>smtp.PlainAuth\<close>: user, password and the host the credentials are for.\<close>

record plain_auth =
  pa_username :: string
  pa_password :: string
  pa_host :: string

text \<open>A refused authentication quits the session.\<close>

definition client_Auth :: "mail_server \<Rightarrow> plain_auth \<Rightarrow> smtp_action" where
  "client_Auth M a c =
     (if \<not> sc_tls c \<and> \<not> isLocalhost (sc_serverName c) then
        (Some (ErrOther ''unencrypted connection''), snd (send_command M C_Quit c))
      else if sc_serverName c \<noteq> pa_host a then
        (Some (ErrOther ''wrong host name''), snd (send_command M C_Quit c))
      else
        (case send_command M (C_Auth (pa_username a) (pa_password a)) c of
           (Some e, c1) \<Rightarrow> (Some e, snd (send_command M C_Quit (snd (send_command M C_AuthAbort c1))))
         | (None, c1) \<Rightarrow> (None, c1)))"

definition no_line_end :: "string \<Rightarrow> bool" where
  "no_line_end s \<longleftrightarrow> CHR 0x0A \<notin> set s \<and> CHR 0x0D \<notin> set s"

definition validateLine :: "string \<Rightarrow> smtp_action" where
  "validateLine s = (if no_line_end s then skip else fail (ErrOther ''smtp: A line must not contain CR or LF''))"

definition client_Mail :: "mail_server \<Rightarrow> string \<Rightarrow> smtp_action" where
  "client_Mail M from = then_do (validateLine from) (send_command M (C_Mail from))"

definition client_Rcpt :: "mail_server \<Rightarrow> string \<Rightarrow> smtp_action" where
  "client_Rcpt M addr = then_do (validateLine addr) (send_command M (C_Rcpt addr))"

definition client_StartTLS :: "mail_server \<Rightarrow> smtp_action" where
  "client_StartTLS M =
     then_do (send_command M C_StartTLS)
       (\<lambda>c. case ms_handshake M of
          Some e \<Rightarrow> (Some e, c)
        | None \<Rightarrow> send_command M C_Hello (c\<lparr>sc_tls := True\<rparr>))"

text \<open>\<open>net.SplitHostPort\<close>, of which only the host is used: empty when the address has no port.\<close>

definition before_last_colon :: "string \<Rightarrow> string" where
  "before_last_colon s = rev (tl (dropWhile (\<lambda>c. c \<noteq> CHR '':'') (rev s)))"

definition SplitHostPort_host :: "string \<Rightarrow> string" where
  "SplitHostPort_host s =
     (let i = length (before_last_colon s); inside = takeWhile (\<lambda>c. c \<noteq> CHR '']'') s; close = length inside
      in if CHR '':'' \<notin> set s then []
         else if hd s = CHR ''['' then
           (if close = length s \<or> close + 1 \<noteq> i \<or> CHR ''['' \<in> set (drop 1 s) \<or> CHR '']'' \<in> set (drop (close + 1) s)
            then [] else drop 1 inside)
         else if CHR '':'' \<in> set (before_last_colon s) \<or> CHR ''['' \<in> set s \<or> CHR '']'' \<in> set s then []
         else before_last_colon s)"

subsection \<open>The mailer\<close>

datatype SMTPTLSMode = SMTPImplicitTLS | SMTPStartTLS | SMTPNoTLS

record SMTPMailer =
  sm_auth :: plain_auth
  sm_host :: string
  sm_addr :: string
  sm_user :: string
  sm_mode :: SMTPTLSMode

definition NewSMTPMailer :: "string \<Rightarrow> string \<Rightarrow> string \<Rightarrow> SMTPTLSMode \<Rightarrow> SMTPMailer" where
  "NewSMTPMailer addr username password mode =
     (let host = SplitHostPort_host addr
      in \<lparr>sm_auth = \<lparr>pa_username = username, pa_password = password, pa_host = host\<rparr>, sm_host = host,
          sm_addr = addr, sm_user = username, sm_mode = mode\<rparr>)"

definition ParseSMTPTLSMode :: "string \<Rightarrow> error + SMTPTLSMode" where
  "ParseSMTPTLSMode mode =
     (if mode = '''' then Inr SMTPImplicitTLS
      else if mode = ''implicit'' then Inr SMTPImplicitTLS
      else if mode = ''starttls'' then Inr SMTPStartTLS
      else if mode = ''none'' then Inr SMTPNoTLS
      else Inl (ErrOther ''smtp: unknown tls-mode''))"

text \<open>
  \<open>dial\<close>: a connection with its greeting read, and for \<open>starttls\<close> upgraded. A failed dial leaves what
  went over the wire.
\<close>

definition no_starttls :: error where
  "no_starttls = ErrOther ''smtp: server does not advertise STARTTLS''"

definition smtp_upgrade :: "mail_server \<Rightarrow> smtp_action" where
  "smtp_upgrade M c =
     (case client_hello M c of
        (Some _, c1) \<Rightarrow> (Some no_starttls, c1)
      | (None, c1) \<Rightarrow>
          (if ms_Extension M (sc_tls c1) ''STARTTLS'' then client_StartTLS M c1 else (Some no_starttls, c1)))"

definition smtp_dial :: "mail_server \<Rightarrow> SMTPMailer \<Rightarrow> error option \<times> smtp_client" where
  "smtp_dial M s =
     (let c = \<lparr>sc_serverName = sm_host s, sc_tls = (sm_mode s = SMTPImplicitTLS), sc_wire = []\<rparr>
      in case (if sm_mode s = SMTPImplicitTLS then ms_tls_dial M else ms_tcp_dial M) of
           Some e \<Rightarrow> (Some e, c)
         | None \<Rightarrow>
             (case ms_greeting M of
                Some e \<Rightarrow> (Some e, c)
              | None \<Rightarrow> (if sm_mode s = SMTPStartTLS then smtp_upgrade M c else (None, c))))"

fun rcpt_loop :: "mail_server \<Rightarrow> string list \<Rightarrow> smtp_action" where
  "rcpt_loop M [] = skip"
| "rcpt_loop M (addr # addrs) = then_do (client_Rcpt M addr) (rcpt_loop M addrs)"

text \<open>
  \<open>Extension\<close> greets first. An error of the greeting is not looked at here: \<open>Mail\<close> returns it without sending
  anything.
\<close>

definition auth_step :: "mail_server \<Rightarrow> SMTPMailer \<Rightarrow> smtp_action" where
  "auth_step M s c = (if ms_Extension M (sc_tls c) ''AUTH'' then client_Auth M (sm_auth s) c else (None, c))"

definition mail_session :: "mail_server \<Rightarrow> SMTPMailer \<Rightarrow> string \<Rightarrow> string list \<Rightarrow> bytes \<Rightarrow> smtp_action" where
  "mail_session M s from to body =
     then_do (client_hello M) (then_do (auth_step M s) (then_do (client_Mail M from) (then_do (rcpt_loop M to)
       (then_do (send_command M C_Data) (then_do (send_command M (C_Body body)) (send_command M C_Quit))))))"

definition sendMail :: "mail_server \<Rightarrow> SMTPMailer \<Rightarrow> string \<Rightarrow> string list \<Rightarrow> bytes \<Rightarrow> error option \<times> smtp_client" where
  "sendMail M s from to body =
     (case smtp_dial M s of (Some e, c) \<Rightarrow> (Some e, c) | (None, c) \<Rightarrow> mail_session M s from to body c)"

definition crlf :: string where
  "crlf = [CHR 0x0D, CHR 0x0A]"

definition mail_text :: "string \<Rightarrow> string list \<Rightarrow> string \<Rightarrow> string \<Rightarrow> string" where
  "mail_text from to subject content =
     ''MIME-version: 1.0;'' @ [CHR 0x0A] @ ''Content-Type: text/plain; charset='' @ [CHR 0x22] @ ''UTF-8'' @
     [CHR 0x22] @ '';'' @ crlf @ ''From: '' @ from @ crlf @ ''To: '' @ JoinWith '';'' to @ crlf @
     ''Subject: '' @ subject @ crlf @ crlf @ content @ crlf"

definition SMTP_SendMail ::
  "mail_server \<Rightarrow> SMTPMailer \<Rightarrow> string \<Rightarrow> string list \<Rightarrow> string \<Rightarrow> string \<Rightarrow> error option \<times> smtp_client" where
  "SMTP_SendMail M s from to subject content = sendMail M s (sm_user s) to (mail_text from to subject content)"

subsection \<open>What goes over the wire\<close>

fun confidential :: "smtp_command \<Rightarrow> bool" where
  "confidential (C_Auth _ _) = True"
| "confidential (C_Mail _) = True"
| "confidential (C_Rcpt _) = True"
| "confidential C_Data = True"
| "confidential (C_Body _) = True"
| "confidential _ = False"

text \<open>
  A client that has sent more commands, over the connection as it was, each of which satisfies a predicate on the
  name of the server, the encryption and the command.
\<close>

definition extends :: "(string \<Rightarrow> bool \<Rightarrow> smtp_command \<Rightarrow> bool) \<Rightarrow> smtp_client \<Rightarrow> smtp_client \<Rightarrow> bool" where
  "extends P c c' \<longleftrightarrow> sc_tls c' = sc_tls c \<and> sc_serverName c' = sc_serverName c \<and>
     (\<exists>new. sc_wire c' = sc_wire c @ map (Pair (sc_tls c)) new \<and>
       list_all (P (sc_serverName c) (sc_tls c)) new)"

definition sends :: "(string \<Rightarrow> bool \<Rightarrow> smtp_command \<Rightarrow> bool) \<Rightarrow> smtp_action \<Rightarrow> bool" where
  "sends P f \<longleftrightarrow> (\<forall>c. extends P c (snd (f c)))"

lemma extends_refl [simp]: "extends P c c"
  by (simp add: extends_def)

lemma extends_trans:
  assumes "extends P c c1" "extends P c1 c2"
  shows "extends P c c2"
proof -
  from assms obtain xs ys where
      "sc_wire c1 = sc_wire c @ map (Pair (sc_tls c)) xs" "list_all (P (sc_serverName c) (sc_tls c)) xs"
      "sc_wire c2 = sc_wire c1 @ map (Pair (sc_tls c)) ys" "list_all (P (sc_serverName c) (sc_tls c)) ys"
      "sc_tls c2 = sc_tls c" "sc_serverName c2 = sc_serverName c"
    by (auto simp: extends_def)
  then show ?thesis by (auto simp: extends_def intro!: exI [of _ "xs @ ys"])
qed

lemma sendsD: "sends P f \<Longrightarrow> f c = (e, c1) \<Longrightarrow> extends P c c1"
  unfolding sends_def by (metis snd_conv)

lemma sends_then_do:
  assumes "sends P f" "sends P g"
  shows "sends P (then_do f g)"
  unfolding sends_def
proof
  fix c
  obtain e c1 where f: "f c = (e, c1)" by force
  show "extends P c (snd (then_do f g c))"
    using sendsD [OF assms(1) f] assms(2) extends_trans
    by (cases e) (auto simp: then_do_def f sends_def)
qed

lemma extends_command: "P (sc_serverName c) (sc_tls c) cmd \<Longrightarrow> extends P c (snd (send_command M cmd c))"
  by (auto simp: extends_def send_command_def intro: exI [of _ "[cmd]"])

lemma sends_command: "(\<And>h t. P h t cmd) \<Longrightarrow> sends P (send_command M cmd)"
  by (simp add: sends_def extends_command)

lemma sends_skip: "sends P skip" "sends P (fail e)"
  by (simp_all add: sends_def skip_def fail_def)

text \<open>Credentials go over TLS or to the machine itself.\<close>

definition careful :: "string \<Rightarrow> bool \<Rightarrow> smtp_command \<Rightarrow> bool" where
  "careful name tls cmd \<longleftrightarrow> (case cmd of C_Auth _ _ \<Rightarrow> tls \<or> isLocalhost name | C_StartTLS \<Rightarrow> False | _ \<Rightarrow> True)"

lemma sends_Auth: "sends careful (client_Auth M a)"
proof -
  have ext: "extends careful c (snd (send_command M C_Quit c'))" if "extends careful c c'" for c c'
    using that by (rule extends_trans) (simp add: extends_command careful_def)
  have abort: "extends careful c (snd (send_command M C_AuthAbort c))" for c
    by (simp add: extends_command careful_def)
  show ?thesis
    unfolding sends_def
  proof
    fix c
    show "extends careful c (snd (client_Auth M a c))"
    proof (cases "\<not> sc_tls c \<and> \<not> isLocalhost (sc_serverName c) \<or> sc_serverName c \<noteq> pa_host a")
      case True
      then show ?thesis using ext [OF extends_refl] by (auto simp: client_Auth_def)
    next
      case False
      obtain e c1 where auth: "send_command M (C_Auth (pa_username a) (pa_password a)) c = (e, c1)" by force
      have c1: "extends careful c c1"
        using False extends_command [of careful c "C_Auth (pa_username a) (pa_password a)" M]
        by (auto simp: auth careful_def)
      show ?thesis
        using False c1 ext [OF extends_trans [OF c1 abort]] by (cases e) (auto simp: client_Auth_def auth)
    qed
  qed
qed

lemma sends_hello: "sends careful (client_hello M)"
  by (simp add: sends_def client_hello_def extends_command careful_def)

lemma sends_auth_step: "sends careful (auth_step M s)"
  using sends_Auth by (simp add: sends_def auth_step_def)

lemma sends_lines:
  "(\<And>h t. P h t (C_Mail a)) \<Longrightarrow> sends P (client_Mail M a)"
  "(\<And>h t. P h t (C_Rcpt a)) \<Longrightarrow> sends P (client_Rcpt M a)"
  by (auto simp: client_Mail_def client_Rcpt_def validateLine_def intro!: sends_then_do sends_command sends_skip)

lemma sends_rcpt_loop: "(\<And>h t a. P h t (C_Rcpt a)) \<Longrightarrow> sends P (rcpt_loop M to)"
  by (induction to) (simp_all add: sends_skip sends_then_do sends_lines)

text \<open>What a session has sent when the mail itself starts.\<close>

definition only_greeted :: "smtp_client \<Rightarrow> bool" where
  "only_greeted c \<longleftrightarrow> (\<forall>(tls, cmd) \<in> set (sc_wire c). cmd \<in> {C_Hello, C_StartTLS})"

lemma hello_wire:
  "client_hello M c = (e, c1) \<Longrightarrow> only_greeted c \<Longrightarrow> only_greeted c1 \<and> sc_serverName c1 = sc_serverName c"
  by (auto simp: client_hello_def send_command_def only_greeted_def split: if_splits)

lemma StartTLS_wire:
  "client_StartTLS M c = (e, c1) \<Longrightarrow> only_greeted c \<Longrightarrow>
   only_greeted c1 \<and> sc_serverName c1 = sc_serverName c \<and> (e = None \<longrightarrow> sc_tls c1)"
  by (auto simp: client_StartTLS_def then_do_def send_command_def only_greeted_def split: option.splits)

lemma upgrade_wire:
  "smtp_upgrade M c = (e, c1) \<Longrightarrow> only_greeted c \<Longrightarrow>
   only_greeted c1 \<and> sc_serverName c1 = sc_serverName c \<and> (e = None \<longrightarrow> sc_tls c1)"
  by (auto simp: smtp_upgrade_def dest!: hello_wire StartTLS_wire split: prod.splits option.splits if_splits)

lemma dial_wire:
  assumes "smtp_dial M s = (e, c)"
  shows "only_greeted c \<and> sc_serverName c = sm_host s \<and> (e = None \<longrightarrow> sc_tls c \<or> sm_mode s = SMTPNoTLS)"
proof -
  define c0 where "c0 = \<lparr>sc_serverName = sm_host s, sc_tls = (sm_mode s = SMTPImplicitTLS), sc_wire = []\<rparr>"
  have c0: "only_greeted c0" "sc_serverName c0 = sm_host s" "sc_tls c0 = (sm_mode s = SMTPImplicitTLS)"
    by (simp_all add: c0_def only_greeted_def)
  have dial: "smtp_dial M s =
      (case (if sm_mode s = SMTPImplicitTLS then ms_tls_dial M else ms_tcp_dial M) of
         Some e \<Rightarrow> (Some e, c0)
       | None \<Rightarrow> (case ms_greeting M of Some e \<Rightarrow> (Some e, c0)
           | None \<Rightarrow> (if sm_mode s = SMTPStartTLS then smtp_upgrade M c0 else (None, c0))))"
    unfolding smtp_dial_def Let_def c0_def by (rule refl)
  from assms have "e \<noteq> None \<and> c = c0 \<or> smtp_upgrade M c0 = (e, c) \<or> sm_mode s \<noteq> SMTPStartTLS \<and> c = c0"
    unfolding dial by (simp split: option.splits if_splits) auto
  then show ?thesis
  proof (elim disjE)
    assume "smtp_upgrade M c0 = (e, c)"
    then show ?thesis using upgrade_wire [of M c0 e c] c0 by simp
  next
    assume "sm_mode s \<noteq> SMTPStartTLS \<and> c = c0"
    then show ?thesis using c0 by (cases "sm_mode s") simp_all
  qed (auto simp: c0)
qed

lemma sends_session: "sends careful (mail_session M s from to body)"
  unfolding mail_session_def
  by (intro sends_then_do sends_hello sends_auth_step sends_lines sends_rcpt_loop sends_command)
    (simp_all add: careful_def)

text \<open>The mail itself goes out only after every recipient was accepted.\<close>

definition has_body :: "bytes \<Rightarrow> smtp_client \<Rightarrow> bool" where
  "has_body b c \<longleftrightarrow> C_Body b \<in> snd ` set (sc_wire c)"

definition not_body :: "string \<Rightarrow> bool \<Rightarrow> smtp_command \<Rightarrow> bool" where
  "not_body h t cmd \<longleftrightarrow> (\<forall>b. cmd \<noteq> C_Body b)"

lemma extends_not_body: "extends not_body c c' \<Longrightarrow> has_body b c' \<Longrightarrow> has_body b c"
  by (force simp: extends_def has_body_def not_body_def list_all_iff)

lemma then_body:
  assumes "has_body b (snd (then_do f g c))" "sends not_body f" "\<not> has_body b c"
  obtains c1 where "f c = (None, c1)" "has_body b (snd (g c1))" "\<not> has_body b c1"
proof -
  obtain e c1 where f: "f c = (e, c1)" by force
  have "\<not> has_body b c1" using extends_not_body [OF sendsD [OF assms(2) f]] assms(3) by blast
  then show ?thesis using assms(1) that by (cases e) (auto simp: then_do_def f)
qed

lemma rcpt_loop_valid: "rcpt_loop M to c = (None, c1) \<Longrightarrow> list_all no_line_end to"
proof (induction to arbitrary: c)
  case (Cons a to)
  then obtain c2 where "client_Rcpt M a c = (None, c2)" "rcpt_loop M to c2 = (None, c1)"
    by (auto simp: then_do_def split: prod.splits option.splits)
  with Cons.IH show ?case
    by (auto simp: client_Rcpt_def validateLine_def then_do_def fail_def split: if_splits)
qed simp

lemma careful_not_body: "sends not_body (auth_step M s)"
  unfolding sends_def
proof
  fix c
  have ext: "extends not_body c' (snd (send_command M cmd c'))" if "\<forall>b. cmd \<noteq> C_Body b" for c' cmd
    using that by (simp add: extends_command not_body_def)
  obtain e c1 where auth: "send_command M (C_Auth (pa_username (sm_auth s)) (pa_password (sm_auth s))) c = (e, c1)"
    by force
  then have c1: "extends not_body c c1" using ext [of "C_Auth (pa_username (sm_auth s)) (pa_password (sm_auth s))" c] by simp
  have "extends not_body c (snd (send_command M C_Quit (snd (send_command M C_AuthAbort c1))))"
    by (rule extends_trans [OF c1 extends_trans [OF ext ext]]) simp_all
  then show "extends not_body c (snd (auth_step M s c))"
    using ext [of C_Quit c] c1 by (cases e) (auto simp: auth_step_def client_Auth_def auth)
qed

lemma session_body:
  assumes "has_body b (snd (mail_session M s from to body c))" "\<not> has_body b c"
  shows "b = body \<and> list_all no_line_end to"
proof -
  have nb: "sends not_body (client_hello M)" "sends not_body (client_Mail M from)" "sends not_body (rcpt_loop M to)"
    "sends not_body (send_command M C_Data)"
    by (simp add: sends_def client_hello_def extends_command not_body_def,
        (intro sends_lines sends_rcpt_loop sends_command; simp add: not_body_def)+)
  from assms show ?thesis
    unfolding mail_session_def
    by (elim then_body [OF _ nb(1)] then_body [OF _ careful_not_body] then_body [OF _ nb(2)]
        then_body [OF _ nb(3)] then_body [OF _ nb(4)])
      (auto dest!: rcpt_loop_valid simp: then_do_def send_command_def has_body_def split: option.splits)
qed

subsection \<open>Properties\<close>

text \<open>
  C29: nothing confidential goes over the wire in the clear. With either of the encrypted modes the
  credentials, the sender, the recipients and the mail, with its code, are sent over TLS, whatever the mail server
  advertises or answers; without encryption the password still goes to the machine itself only. And a mail that is sent has
  the text the caller asked for, with no line end in a recipient: an address cannot add header lines.
\<close>

theorem mail_stays_private:
  assumes "(tls, cmd) \<in> set (sc_wire (snd (SMTP_SendMail M s from to subject content)))"
  shows "(sm_mode s \<noteq> SMTPNoTLS \<and> confidential cmd \<longrightarrow> tls) \<and>
    (\<forall>user pass. cmd = C_Auth user pass \<longrightarrow> tls \<or> isLocalhost (sm_host s)) \<and>
    (\<forall>b. cmd = C_Body b \<longrightarrow> b = mail_text from to subject content \<and> list_all no_line_end to)"
proof -
  let ?body = "mail_text from to subject content"
  obtain e c where dial: "smtp_dial M s = (e, c)" by force
  have c: "only_greeted c" "sc_serverName c = sm_host s" "e = None \<longrightarrow> sc_tls c \<or> sm_mode s = SMTPNoTLS"
    using dial_wire [OF dial] by blast+
  then have greeted: "cmd \<in> {C_Hello, C_StartTLS}" if "(tls, cmd) \<in> set (sc_wire c)"
    using that by (auto simp: only_greeted_def)
  show ?thesis
  proof (cases "(tls, cmd) \<in> set (sc_wire c)")
    case True
    then show ?thesis using greeted by auto
  next
    case False
    then have e: "e = None" using assms by (cases e) (auto simp: SMTP_SendMail_def sendMail_def dial)
    let ?c = "snd (mail_session M s (sm_user s) to ?body c)"
    have sent: "(tls, cmd) \<in> set (sc_wire ?c)" using assms by (simp add: SMTP_SendMail_def sendMail_def dial e)
    have "extends careful c ?c" using sends_session by (simp add: sends_def)
    then obtain new where new: "sc_wire ?c = sc_wire c @ map (Pair (sc_tls c)) new"
        "list_all (careful (sm_host s) (sc_tls c)) new"
      unfolding extends_def c(2) by blast
    then have tls: "tls = sc_tls c" "careful (sm_host s) tls cmd"
      using sent False by (auto simp: list_all_iff)
    have "\<not> has_body b c" for b using c(1) by (auto simp: has_body_def only_greeted_def)
    then have "b = ?body \<and> list_all no_line_end to" if "cmd = C_Body b" for b
      using session_body [of b M s "sm_user s" to ?body c] sent that by (force simp: has_body_def)
    then show ?thesis using tls c(3) e by (auto simp: careful_def)
  qed
qed

subsection \<open>Example\<close>

definition test_mail_server :: mail_server where
  "test_mail_server =
     \<lparr>ms_tls_dial = None, ms_tcp_dial = None, ms_greeting = None, ms_handshake = None,
      ms_Extension = (\<lambda>tls ext. ext = ''STARTTLS'' \<and> \<not> tls \<or> ext = ''AUTH''),
      ms_answer = (\<lambda>w cmd. None)\<rparr>"

definition test_mailer :: SMTPMailer where
  "test_mailer = NewSMTPMailer ''mail.example.org:587'' ''autograder'' ''secret'' SMTPStartTLS"

theorem mail_stays_private_witness:
  "\<exists>tls. (tls, C_Body (mail_text ''noreply'' [''a@b.c''] ''code'' ''1234'')) \<in>
     set (sc_wire (snd (SMTP_SendMail test_mail_server test_mailer ''noreply'' [''a@b.c''] ''code'' ''1234''))) \<and>
   tls \<and> list_all no_line_end [''a@b.c'']"
proof -
  have sent: "(True, C_Body (mail_text ''noreply'' [''a@b.c''] ''code'' ''1234'')) \<in>
     set (sc_wire (snd (SMTP_SendMail test_mail_server test_mailer ''noreply'' [''a@b.c''] ''code'' ''1234'')))"
    by code_simp
  from mail_stays_private [OF this] sent show ?thesis by blast
qed

end
