(* ===== verification/Opening.thy ===== *)
theory Opening
  imports Merger Text
begin

section \<open>Opening the store: pkg/repository/open.go\<close>

text \<open>
  A store written by pebble v1 is ratcheted to the newest format of v1 before pebble v2 opens it. The two
  pebble modules are parameters: what \<open>Peek\<close> tells of a directory, and what opening and closing does to it.
  What the upgrade relies on is \<open>pebble_ok\<close>: opening ratchets the format, never lowers it and keeps the
  contents.
\<close>

record 'd pebble =
  v1_Peek :: "'d \<Rightarrow> error + (bool \<times> u64)"
  v1_Open :: "'d \<Rightarrow> string \<Rightarrow> u64 \<Rightarrow> 'd \<times> error option"
  v1_Close :: "'d \<Rightarrow> 'd \<times> error option"
  v2_Open :: "'d \<Rightarrow> string \<Rightarrow> u64 \<Rightarrow> 'd \<times> error option"
  FormatMinSupported :: u64
  FormatNewest :: u64

definition kvMergerName :: string where
  "kvMergerName = ''autograder-kv-merger''"

text \<open>\<open>fs.ErrNotExist\<close>.\<close>

definition dir_missing :: error where
  "dir_missing = ErrOther ''file does not exist''"

definition upgradeLegacyFormat :: "'d pebble \<Rightarrow> 'd \<Rightarrow> 'd \<times> error option" where
  "upgradeLegacyFormat P d =
     (case v1_Peek P d of
        Inl e \<Rightarrow> if e = dir_missing then (d, None) else (d, Some (ErrOther ''inspecting store''))
      | Inr (exists, fmt) \<Rightarrow>
          if \<not> exists \<or> FormatMinSupported P \<le> fmt then (d, None)
          else (case v1_Open P d kvMergerName (FormatNewest P) of
              (d1, Some _) \<Rightarrow> (d1, Some (ErrOther ''upgrading store''))
            | (d1, None) \<Rightarrow>
                (case v1_Close P d1 of
                   (d2, Some _) \<Rightarrow> (d2, Some (ErrOther ''upgrading store''))
                 | (d2, None) \<Rightarrow> (d2, None))))"

definition OpenDB :: "'d pebble \<Rightarrow> 'd \<Rightarrow> 'd \<times> error option" where
  "OpenDB P d =
     (case upgradeLegacyFormat P d of
        (d1, Some e) \<Rightarrow> (d1, Some e)
      | (d1, None) \<Rightarrow> v2_Open P d1 kvMergerName (FormatMinSupported P))"

definition pebble_ok :: "'d pebble \<Rightarrow> ('d \<Rightarrow> 'c) \<Rightarrow> bool" where
  "pebble_ok P contents \<longleftrightarrow>
     FormatMinSupported P \<le> FormatNewest P \<and>
     (\<forall>d n f d1. v1_Open P d n f = (d1, None) \<longrightarrow>
        contents d1 = contents d \<and> (\<exists>g \<ge> f. v1_Peek P d1 = Inr (True, g))) \<and>
     (\<forall>d d1. v1_Close P d = (d1, None) \<longrightarrow> contents d1 = contents d \<and> v1_Peek P d1 = v1_Peek P d) \<and>
     (\<forall>d n f d1. v2_Open P d n f = (d1, None) \<longrightarrow>
        contents d1 = contents d \<and> (\<exists>g \<ge> f. v1_Peek P d1 = Inr (True, g)))"

text \<open>
  Opening a store keeps its contents and leaves it in a format the next start opens without an upgrade.
\<close>

theorem OpenDB_upgrades_once:
  assumes "pebble_ok P contents" and "OpenDB P d = (d1, None)"
  shows "contents d1 = contents d \<and> upgradeLegacyFormat P d1 = (d1, None)"
proof -
  obtain d0 where d0: "upgradeLegacyFormat P d = (d0, None)" "v2_Open P d0 kvMergerName (FormatMinSupported P) = (d1, None)"
    using assms(2) by (auto simp: OpenDB_def split: prod.splits option.splits)
  have law: "\<And>d n f d1. v1_Open P d n f = (d1, None) \<Longrightarrow> contents d1 = contents d"
    "\<And>d d1. v1_Close P d = (d1, None) \<Longrightarrow> contents d1 = contents d"
    "\<And>d n f d1. v2_Open P d n f = (d1, None) \<Longrightarrow> contents d1 = contents d \<and> (\<exists>g \<ge> f. v1_Peek P d1 = Inr (True, g))"
    using assms(1) by (auto simp: pebble_ok_def)
  have "contents d0 = contents d"
    using d0(1) law(1,2)
    by (auto simp: upgradeLegacyFormat_def split: sum.splits prod.splits if_splits option.splits)
  with law(3) [OF d0(2)] show ?thesis by (auto simp: upgradeLegacyFormat_def)
qed

text \<open>A store that is its format and its contents.\<close>

definition toy_pebble :: "(u64 \<times> string) pebble" where
  "toy_pebble = \<lparr>v1_Peek = (\<lambda>d. Inr (True, fst d)), v1_Open = (\<lambda>d n f. ((max f (fst d), snd d), None)),
     v1_Close = (\<lambda>d. (d, None)),
     v2_Open = (\<lambda>d n f. if fst d < 13 then (d, Some Panic) else ((max f (fst d), snd d), None)),
     FormatMinSupported = 13, FormatNewest = 16\<rparr>"

lemma toy_pebble_ok: "pebble_ok toy_pebble snd"
  by (auto simp: pebble_ok_def toy_pebble_def split: if_splits)

theorem OpenDB_upgrades_once_witness:
  "OpenDB toy_pebble (1, ''data'') = ((16, ''data''), None) \<and>
   upgradeLegacyFormat toy_pebble (16, ''data'') = ((16, ''data''), None)"
proof -
  have op: "OpenDB toy_pebble (1, ''data'') = ((16, ''data''), None)"
    by code_simp
  from OpenDB_upgrades_once [OF toy_pebble_ok op] op show ?thesis by simp
qed

end
