(* ===== verification/Server.thy ===== *)
theory Server
  imports CourseSvc FileSvc GrpcWeb Mailer Opening
begin

section \<open>The server program: cmd/autograder-server\<close>

text \<open>
  Initialising a database, starting the server from its configuration, and the HTTP routers in front of the
  handlers. The configuration is a parameter: what viper answers for a key from the environment, the
  configuration file and the defaults set here. Sockets, metrics, logging and profiling are left out.
\<close>

subsection \<open>Configuration\<close>

record config =
  GetString :: "string \<Rightarrow> string"
  GetBool :: "string \<Rightarrow> bool"
  GetInt :: "string \<Rightarrow> int"
  GetStringSlice :: "string \<Rightarrow> string list"

text \<open>\<open>ServerEnvKeyReplacer\<close>: the environment variable of a key, before it is put in capitals.\<close>

definition ServerEnvKeyReplacer_Replace :: "string \<Rightarrow> string" where
  "ServerEnvKeyReplacer_Replace s = ReplaceChar (CHR ''-'') (CHR ''_'') (ReplaceChar (CHR ''.'') (CHR ''_'') s)"

definition server_defaults :: "(string \<times> string) list" where
  "server_defaults =
     [(''hub.port'', ''9999''), (''fs.http.port'', ''19999''), (''web.port'', ''9315''),
      (''hub.heartbeat-timeout'', ''15s''), (''metrics.port'', ''29999''), (''metrics.path'', ''/metrics''),
      (''db.local.path'', ''db''), (''server.development'', ''false''), (''server.trusted-proxy-count'', ''0''),
      (''log.level'', ''info''), (''log.file'', ''server.log''), (''log.development'', ''false'')]"

text \<open>A missing configuration file is fine, one that cannot be read is fatal.\<close>

datatype config_read = Config_read | Config_not_found | Config_error error

definition serverReadConfig :: "config_read \<Rightarrow> bool" where
  "serverReadConfig r = (case r of Config_error _ \<Rightarrow> False | _ \<Rightarrow> True)"

definition insecureSecretDefaults :: "(string \<times> string) list" where
  "insecureSecretDefaults =
     [(''token.secret.session'', ''user-session-token-secret''),
      (''token.secret.upload'', ''upload-token-secret''),
      (''token.secret.download'', ''download-token-secret'')]"

text \<open>The key whose value ends the program, if any.\<close>

definition validateSecrets :: "config \<Rightarrow> string option" where
  "validateSecrets cfg =
     (case find (\<lambda>(key, placeholder). GetString cfg key = [] \<or> GetString cfg key = placeholder)
             insecureSecretDefaults of
        Some (key, _) \<Rightarrow> Some key
      | None \<Rightarrow> find (\<lambda>key. GetString cfg key = []) [''hub.token'', ''fs.http.token''])"

subsection \<open>Initialising the database\<close>

definition initializeMarker :: bytes where
  "initializeMarker = ''__autograder_initialized''"

definition passwordRunes :: string where
  "passwordRunes = ''0123456789abcdefghijklmnopqrstuvwxyzABCDEFGHIJKLMNOPQRSTUVWXYZ''"

text \<open>The random indices, below the number of runes, are an argument.\<close>

definition RandStringRunes :: "nat list \<Rightarrow> string" where
  "RandStringRunes rs = List.map ((!) passwordRunes) rs"

definition isDatabaseUninitialized :: "'db env \<Rightarrow> 'db \<Rightarrow> bool" where
  "isDatabaseUninitialized E db \<longleftrightarrow> pget E db initializeMarker = Inl ErrNotFound"

definition root_user :: "string \<Rightarrow> bytes \<Rightarrow> user" where
  "root_user email passwordHash =
     \<lparr>User_Username = ''root'', User_Password = Some passwordHash, User_Email = email, User_GithubId = [],
      User_Nickname = ''root'', User_StudentId = [], User_CreatedAt = None, User_IsAdmin = True\<rparr>"

text \<open>The result is the error or the password that is printed.\<close>

definition dbInit :: "'db env \<Rightarrow> (bytes \<Rightarrow> error + bytes) \<Rightarrow> nat list \<Rightarrow> time \<Rightarrow> string \<Rightarrow> 'db \<Rightarrow> 'db \<times> (error + string)" where
  "dbInit E hash rs now email db =
     (if \<not> isDatabaseUninitialized E db then (db, Inl (ErrOther ''database is already initialized''))
      else
        (let rootPassword = RandStringRunes rs
         in case NewKVUserRepository E db of
              (db1, Inl e) \<Rightarrow> (db1, Inl e)
            | (db1, Inr q) \<Rightarrow>
                (case hash rootPassword of
                   Inl e \<Rightarrow> (db1, Inl e)
                 | Inr passwordHash \<Rightarrow>
                     (case CreateUser E db1 q now (root_user email passwordHash) of
                        (db2, q2, Inl e) \<Rightarrow> (db2, Inl e)
                      | (db2, q2, Inr i) \<Rightarrow>
                          (case pset E db2 initializeMarker [] of
                             (db3, Some e) \<Rightarrow> (db3, Inl e)
                           | (db3, None) \<Rightarrow> (db3, Inr rootPassword))))))"

text \<open>\<open>processCommandLineOptions\<close>: what is printed or done instead of serving.\<close>

datatype cli = Cli_usage | Cli_config | Cli_init_failed | Cli_no_email | Cli_init "error + string" | Cli_serve

definition processCommandLineOptions ::
    "'db env \<Rightarrow> (bytes \<Rightarrow> error + bytes) \<Rightarrow> nat list \<Rightarrow> time \<Rightarrow> bool \<Rightarrow> bool \<Rightarrow> bool \<Rightarrow> string \<Rightarrow>
     error + 'db \<Rightarrow> 'db option \<times> cli" where
  "processCommandLineOptions E hash rs now printUsage printConfigTemplate isInit initEmail opened =
     (if printUsage then (None, Cli_usage)
      else if printConfigTemplate then (None, Cli_config)
      else if isInit then
        (case opened of
           Inl e \<Rightarrow> (None, Cli_init_failed)
         | Inr db \<Rightarrow>
             if initEmail = [] then (Some db, Cli_no_email)
             else (case dbInit E hash rs now initEmail db of (db1, r) \<Rightarrow> (Some db1, Cli_init r)))
      else (None, Cli_serve))"

subsection \<open>Origins and the rate limit\<close>

record originPolicy =
  op_allowed :: "string set"
  op_devMode :: bool

definition newOriginPolicy :: "string list \<Rightarrow> bool \<Rightarrow> originPolicy" where
  "newOriginPolicy allowedOrigins devMode = \<lparr>op_allowed = set allowedOrigins, op_devMode = devMode\<rparr>"

definition allowCrossOrigin :: "originPolicy \<Rightarrow> string \<Rightarrow> bool" where
  "allowCrossOrigin p origin \<longleftrightarrow> origin \<in> op_allowed p \<or> op_devMode p"

definition apiPathPrefix :: string where
  "apiPathPrefix = ''/AutograderService/''"

text \<open>\<open>apiOnly\<close>: the limiter around the handler sees the requests under the prefix, the handler all others.\<close>

definition apiOnly :: "((string \<Rightarrow> 'a) \<Rightarrow> string \<Rightarrow> 'a) \<Rightarrow> (string \<Rightarrow> 'a) \<Rightarrow> string \<Rightarrow> 'a" where
  "apiOnly middleware next path = (if prefix apiPathPrefix path then middleware next path else next path)"

subsection \<open>The web client\<close>

definition contentSecurityPolicy :: string where
  "contentSecurityPolicy =
     ''default-src 'self'; '' @
     ''script-src 'self' 'wasm-unsafe-eval' blob: https://hcaptcha.com https://*.hcaptcha.com; '' @
     ''style-src 'self' 'unsafe-inline' https://fonts.loli.net https://hcaptcha.com https://*.hcaptcha.com; '' @
     ''font-src 'self' data: https://fonts.gstatic.com https://fonts.loli.net https://gstatic.loli.net; '' @
     ''img-src 'self' https: data: blob:; '' @
     ''connect-src 'self' https://hcaptcha.com https://*.hcaptcha.com; '' @
     ''worker-src 'self' blob:; '' @
     ''frame-src https://hcaptcha.com https://*.hcaptcha.com; '' @
     ''object-src 'none'; base-uri 'self'; form-action 'self'; frame-ancestors '' @ [CHR 0x27] @ ''self'' @ [CHR 0x27]"

definition setWebSecurityHeaders :: "header \<Rightarrow> header" where
  "setWebSecurityHeaders h =
     hdr_Set (hdr_Set (hdr_Set h ''Content-Security-Policy'' contentSecurityPolicy)
       ''X-Content-Type-Options'' ''nosniff'') ''Referrer-Policy'' ''strict-origin-when-cross-origin''"

text \<open>
  The embedded files: reading one, asking whether one exists, and the template engine with the values it is given.
\<close>

record ServerProvidedTokens =
  ServerProvided :: string
  HcaptchaSiteKey :: string
  GithubClientId :: string

record web_assets =
  wa_ReadFile :: "string \<Rightarrow> error + bytes"
  wa_Stat :: "string \<Rightarrow> error option"
  wa_render :: "bytes \<Rightarrow> ServerProvidedTokens \<Rightarrow> error + bytes"

definition initStaticWebResources :: "web_assets \<Rightarrow> ServerProvidedTokens \<Rightarrow> error + bytes option" where
  "initStaticWebResources A providedTokens =
     (case wa_ReadFile A ''index.html'' of
        Inr indexTemplate \<Rightarrow>
          (case wa_render A indexTemplate providedTokens of
             Inl e \<Rightarrow> Inl (ErrOther ''render web index'')
           | Inr h \<Rightarrow> Inr (Some h))
      | Inl e \<Rightarrow> if e = dir_missing then Inr None else Inl (ErrOther ''read web index''))"

definition initEmbeddedStaticWebResources :: "web_assets \<Rightarrow> config \<Rightarrow> error + bytes option" where
  "initEmbeddedStaticWebResources A cfg =
     initStaticWebResources A
       \<lparr>ServerProvided = ''true'', HcaptchaSiteKey = GetString cfg ''hcaptcha.site-key'',
        GithubClientId = GetString cfg ''github.client-id''\<rparr>"

text \<open>A page of the client: the index for every path that is no file, so that its own routes work.\<close>

datatype web_page = Index_page header bytes | File_server header

definition web_client :: "web_assets \<Rightarrow> bytes option \<Rightarrow> string \<Rightarrow> header \<Rightarrow> web_page" where
  "web_client A indexHTML path h0 =
     (let h = setWebSecurityHeaders h0; p = TrimPrefix path ''/''
      in case indexHTML of
           Some page \<Rightarrow>
             if p = [] \<or> p = ''index.html'' \<or> wa_Stat A p = Some dir_missing
             then Index_page (hdr_Set h ''Content-Type'' ''text/html; charset=utf-8'') page
             else File_server h
         | None \<Rightarrow> File_server h)"

subsection \<open>Starting\<close>

datatype mailer = Mailgun string string | SMTP SMTPMailer

definition setup_mailer :: "config \<Rightarrow> error + mailer" where
  "setup_mailer cfg =
     (if GetBool cfg ''mailgun.enabled'' then
        Inr (Mailgun (GetString cfg ''mailgun.domain'') (GetString cfg ''mailgun.api-key''))
      else
        (case ParseSMTPTLSMode (GetString cfg ''smtp.tls-mode'') of
           Inl e \<Rightarrow> Inl e
         | Inr smtpTLSMode \<Rightarrow>
             Inr (SMTP (NewSMTPMailer (GetString cfg ''smtp.addr'') (GetString cfg ''smtp.user'')
               (GetString cfg ''smtp.pass'') smtpTLSMode))))"

definition hcaptcha_secret :: "config \<Rightarrow> string" where
  "hcaptcha_secret cfg =
     (if GetString cfg ''hcaptcha.secret'' = [] then GetString cfg ''hcaptcha.secret-key''
      else GetString cfg ''hcaptcha.secret'')"

record ('db, 'fs) server =
  sv_svc :: "('db, 'fs) svc"
  sv_heartbeatTimeout :: int
  sv_mailer :: mailer
  sv_hcaptchaSecret :: string
  sv_github :: "string \<times> string"
  sv_origins :: originPolicy
  sv_trustedProxyCount :: int
  sv_index :: "bytes option"
  sv_fsToken :: bytes

text \<open>How \<open>main\<close> ends before it serves: with a fatal log entry, or silently for an empty database.\<close>

datatype start_end = Fatal string | Not_initialized

definition storage_dir :: "config \<Rightarrow> error + string \<Rightarrow> error + string" where
  "storage_dir cfg Getwd = (if GetString cfg ''fs.local.dir'' = [] then Getwd else Inr (GetString cfg ''fs.local.dir''))"

definition server_services ::
    "'db env \<Rightarrow> config \<Rightarrow> int \<Rightarrow> string \<Rightarrow> mailer \<Rightarrow> web_assets \<Rightarrow> 'fs \<Rightarrow> 'db \<Rightarrow> start_end + ('db, 'fs) server" where
  "server_services E cfg heartbeatTimeout dir m A fs db =
     (case NewGraderHubService E db (GetString cfg ''hub.token'') of
        (_, Inl e) \<Rightarrow> Inl (Fatal ''GraderHub.Init'')
      | (_, Inr h) \<Rightarrow>
          (case NewAutograderServiceServer E h fs dir (GetString cfg ''token.secret.session'')
                  (GetString cfg ''token.secret.upload'') (GetString cfg ''token.secret.download'') of
             (_, Inl e) \<Rightarrow> Inl (Fatal ''AutograderService.Init'')
           | (_, Inr a) \<Rightarrow>
               (case initEmbeddedStaticWebResources A cfg of
                  Inl e \<Rightarrow> Inl (Fatal ''Web.Init'')
                | Inr index \<Rightarrow>
                    Inr \<lparr>sv_svc = a, sv_heartbeatTimeout = heartbeatTimeout, sv_mailer = m,
                      sv_hcaptchaSecret = hcaptcha_secret cfg,
                      sv_github = (GetString cfg ''github.client-id'', GetString cfg ''github.client-secret''),
                      sv_origins = newOriginPolicy (GetStringSlice cfg ''cors.allowed-origins'')
                        (GetBool cfg ''server.development''),
                      sv_trustedProxyCount = GetInt cfg ''server.trusted-proxy-count'',
                      sv_index = index, sv_fsToken = GetString cfg ''fs.http.token''\<rparr>)))"

text \<open>\<open>parseDuration\<close> is \<open>time.ParseDuration\<close>, \<open>opened\<close> the result of \<open>OpenDB\<close>.\<close>

definition server_start ::
    "'db env \<Rightarrow> config \<Rightarrow> (string \<Rightarrow> int option) \<Rightarrow> error + string \<Rightarrow> web_assets \<Rightarrow> 'fs \<Rightarrow> error + 'db \<Rightarrow>
     start_end + ('db, 'fs) server" where
  "server_start E cfg parseDuration Getwd A fs opened =
     (case validateSecrets cfg of
        Some key \<Rightarrow> Inl (Fatal ''Config.Secret'')
      | None \<Rightarrow>
     (case opened of
        Inl e \<Rightarrow> Inl (Fatal ''DB.Open'')
      | Inr db \<Rightarrow>
          if isDatabaseUninitialized E db then Inl Not_initialized
          else
     (case parseDuration (GetString cfg ''hub.heartbeat-timeout'') of
        None \<Rightarrow> Inl (Fatal ''Hub.HeartbeatTimeout.Invalid'')
      | Some heartbeatTimeout \<Rightarrow>
     (case storage_dir cfg Getwd of
        Inl e \<Rightarrow> Inl (Fatal ''OS.Getwd'')
      | Inr dir \<Rightarrow>
     (case setup_mailer cfg of
        Inl e \<Rightarrow> Inl (Fatal ''SMTP.TLSMode.Invalid'')
      | Inr m \<Rightarrow> server_services E cfg heartbeatTimeout dir m A fs db)))))"

subsection \<open>Routing\<close>

text \<open>
  The routes of the web server, behind the rate limiter and the gRPC-Web bridge. A path parameter
  matches one segment that is not empty. A request that no route takes is answered by the router itself.
\<close>

datatype route = Too_many_requests | Bridge | Upload_preflight | Upload | Download string | Client_page | No_route

definition is_segment :: "string \<Rightarrow> bool" where
  "is_segment s \<longleftrightarrow> s \<noteq> [] \<and> CHR ''/'' \<notin> set s"

definition chi_route :: "string \<Rightarrow> string \<Rightarrow> route" where
  "chi_route verb path =
     (let download = apiPathPrefix @ ''FileDownload/'' in
      if verb = ''OPTIONS'' \<and> path = apiPathPrefix @ ''FileUpload'' then Upload_preflight
      else if verb = ''POST'' \<and> path = apiPathPrefix @ ''FileUpload'' then Upload
      else if verb = ''GET'' \<and> prefix download path \<and> is_segment (TrimPrefix path download)
      then Download (TrimPrefix path download)
      else if verb = ''GET'' \<and> prefix ''/'' path then Client_page
      else No_route)"

definition web_route :: "bool \<Rightarrow> http_request \<Rightarrow> string \<Rightarrow> route" where
  "web_route within_limit r path =
     apiOnly (\<lambda>next path. if within_limit then next path else Too_many_requests)
       (\<lambda>path. if isGrpcWebRequest r \<or> isGrpcWebPreflight r then Bridge else chi_route (hr_Method r) path) path"

text \<open>The file server for the graders: the answer's status and body, and what the request stored.\<close>

definition verifyHTTPFSToken ::
    "bytes \<Rightarrow> ('s \<Rightarrow> http_request \<Rightarrow> string \<Rightarrow> 's \<times> nat \<times> bytes) \<Rightarrow> 's \<Rightarrow> http_request \<Rightarrow> string \<Rightarrow> 's \<times> nat \<times> bytes" where
  "verifyHTTPFSToken expected next a r path =
     (if hdr_Get (hr_Header r) ''token'' \<noteq> expected then (a, 401, []) else next a r path)"

definition push_handler :: "'fs lib \<Rightarrow> ('db, 'fs) svc \<Rightarrow> http_request \<Rightarrow> string \<Rightarrow> ('db, 'fs) svc \<times> nat \<times> bytes" where
  "push_handler L a r path = (case PushFile L path (raw_body (hr_Body r)) a of (a1, status) \<Rightarrow> (a1, status, []))"

text \<open>\<open>http.FileServer\<close> is a parameter: what a path of the storage directory is answered with.\<close>

definition fs_handler ::
    "'fs lib \<Rightarrow> ('fs \<Rightarrow> string \<Rightarrow> nat \<times> bytes) \<Rightarrow> ('db, 'fs) server \<Rightarrow> http_request \<Rightarrow> string \<Rightarrow>
     ('db, 'fs) server \<times> nat \<times> bytes" where
  "fs_handler L FileServer sv r path =
     (let next = (if hr_Method r = ''POST'' then push_handler L
                  else if hr_Method r = ''GET'' then (\<lambda>a r path. (a, FileServer (svc_fs a) path))
                  else (\<lambda>a r path. (a, 405, [])))
      in if hr_Method r \<in> {''POST'', ''GET''} then
           (case verifyHTTPFSToken (sv_fsToken sv) next (sv_svc sv) r path of
              (a1, answer) \<Rightarrow> (sv\<lparr>sv_svc := a1\<rparr>, answer))
         else (sv, 405, []))"

subsection \<open>Shutting down\<close>

datatype stop_step = Close_service | Close_hub | Shutdown_http string | Graceful_stop | Hard_stop | Close_db | Sync_log

text \<open>
  The end of \<open>main\<close> and its deferred calls; the gRPC servers are stopped hard when their calls do not end in time.
\<close>

definition server_shutdown :: "bool \<Rightarrow> bool \<Rightarrow> stop_step list" where
  "server_shutdown development grpc_in_time =
     [Close_service, Close_hub, Shutdown_http ''web'', Shutdown_http ''metrics'', Shutdown_http ''fs''] @
     (if development then [Shutdown_http ''pprof''] else []) @
     [Graceful_stop] @ (if grpc_in_time then [] else [Hard_stop]) @
     [Close_service, Close_hub, Close_db, Sync_log]"

subsection \<open>What a server that started guarantees\<close>

lemma runUnfinished_keeps [simp]:
  "userJWTSignKey (runUnfinishedSubmissions E a) = userJWTSignKey a"
  "uploadJWTSignKey (runUnfinishedSubmissions E a) = uploadJWTSignKey a"
  "downloadJWTSignKey (runUnfinishedSubmissions E a) = downloadJWTSignKey a"
  "svc_hub (runUnfinishedSubmissions E a) = svc_hub a"
  "svc_basePath (runUnfinishedSubmissions E a) = svc_basePath a"
proof -
  have spawns: "userJWTSignKey (foldl (\<lambda>a (s, i). spawn a (Task_runSubmission s i)) b ids) = userJWTSignKey b \<and>
    uploadJWTSignKey (foldl (\<lambda>a (s, i). spawn a (Task_runSubmission s i)) b ids) = uploadJWTSignKey b \<and>
    downloadJWTSignKey (foldl (\<lambda>a (s, i). spawn a (Task_runSubmission s i)) b ids) = downloadJWTSignKey b \<and>
    svc_hub (foldl (\<lambda>a (s, i). spawn a (Task_runSubmission s i)) b ids) = svc_hub b \<and>
    svc_basePath (foldl (\<lambda>a (s, i). spawn a (Task_runSubmission s i)) b ids) = svc_basePath b" for b and ids
    by (induction ids arbitrary: b) (auto simp: spawn_def)
  show "userJWTSignKey (runUnfinishedSubmissions E a) = userJWTSignKey a"
    "uploadJWTSignKey (runUnfinishedSubmissions E a) = uploadJWTSignKey a"
    "downloadJWTSignKey (runUnfinishedSubmissions E a) = downloadJWTSignKey a"
    "svc_hub (runUnfinishedSubmissions E a) = svc_hub a"
    "svc_basePath (runUnfinishedSubmissions E a) = svc_basePath a"
    using spawns by (auto simp: runUnfinishedSubmissions_def split: sum.splits)
qed

lemma NewAutograderServiceServer_Inr:
  "NewAutograderServiceServer E h fs base k1 k2 k3 = (db', Inr a) \<Longrightarrow>
   userJWTSignKey a = k1 \<and> uploadJWTSignKey a = k2 \<and> downloadJWTSignKey a = k3 \<and>
   hub_token (svc_hub a) = hub_token h \<and> svc_basePath a = base"
  by (auto simp: NewAutograderServiceServer_def newAutograderService_def Let_def split: prod.splits sum.splits)

lemma NewGraderHubService_Inr: "NewGraderHubService E db token = (db', Inr h) \<Longrightarrow> hub_token h = token"
  by (auto simp: NewGraderHubService_def initial_hub_def Let_def split: prod.splits sum.splits)

lemma validateSecrets_None:
  assumes "validateSecrets cfg = None"
  shows "GetString cfg ''token.secret.session'' \<notin> {[], ''user-session-token-secret''}"
    "GetString cfg ''token.secret.upload'' \<notin> {[], ''upload-token-secret''}"
    "GetString cfg ''token.secret.download'' \<notin> {[], ''download-token-secret''}"
    "GetString cfg ''hub.token'' \<noteq> []" "GetString cfg ''fs.http.token'' \<noteq> []"
  using assms by (auto simp: validateSecrets_def insecureSecretDefaults_def split: option.splits if_splits)

lemma server_start_Inr:
  assumes "server_start E cfg parseDuration Getwd A fs opened = Inr sv"
  obtains db where "opened = Inr db" "\<not> isDatabaseUninitialized E db" "validateSecrets cfg = None"
    "userJWTSignKey (sv_svc sv) = GetString cfg ''token.secret.session''"
    "uploadJWTSignKey (sv_svc sv) = GetString cfg ''token.secret.upload''"
    "downloadJWTSignKey (sv_svc sv) = GetString cfg ''token.secret.download''"
    "hub_token (svc_hub (sv_svc sv)) = GetString cfg ''hub.token''" "sv_fsToken sv = GetString cfg ''fs.http.token''"
proof -
  obtain db timeout dir m where o: "opened = Inr db" "\<not> isDatabaseUninitialized E db" "validateSecrets cfg = None"
      and sv: "server_services E cfg timeout dir m A fs db = Inr sv"
    using assms by (auto simp: server_start_def split: option.splits sum.splits if_splits)
  obtain h db1 where h: "NewGraderHubService E db (GetString cfg ''hub.token'') = (db1, Inr h)"
    using sv by (auto simp: server_services_def split: prod.splits sum.splits)
  obtain a db2 where a: "NewAutograderServiceServer E h fs dir (GetString cfg ''token.secret.session'')
      (GetString cfg ''token.secret.upload'') (GetString cfg ''token.secret.download'') = (db2, Inr a)"
    using sv h by (auto simp: server_services_def split: prod.splits sum.splits)
  have "sv_svc sv = a" "sv_fsToken sv = GetString cfg ''fs.http.token''"
    using sv h a by (auto simp: server_services_def split: sum.splits)
  then show ?thesis
    using that [OF o] NewAutograderServiceServer_Inr [OF a] NewGraderHubService_Inr [OF h] by simp
qed

subsection \<open>What an initialised database holds\<close>

lemma marker_keys [key_intros, simp]:
  "initializeMarker \<noteq> getUserIdKey i" "initializeMarker \<noteq> getUsernameKey n"
  "getUserIdKey i \<noteq> initializeMarker" "getUsernameKey n \<noteq> initializeMarker"
  by (simp_all add: initializeMarker_def user_key_defs)

context store
begin

lemma NewKVUserRepository_frame:
  assumes "NewKVUserRepository E db = (db', Inr q)"
  shows "seq_key q = ''user:next_id''" "k \<noteq> ''user:next_id'' \<Longrightarrow> view db' k = view db k"
proof -
  obtain i q0 where r: "requestNextBatch E db \<lparr>seq_key = ''user:next_id'', seq_next = i, seq_limit = i\<rparr> = (db', q0, None)"
      and q: "q = q0"
    using assms by (auto simp: NewKVUserRepository_def NewKVSequencer_def split: sum.splits prod.splits option.splits)
  show "seq_key q = ''user:next_id''" "k \<noteq> ''user:next_id'' \<Longrightarrow> view db' k = view db k"
    using requestNextBatch_frame [OF r] by (auto simp: q)
qed

end

context store_up
begin

lemma dbInit_Inr:
  assumes "dbInit E hash rs now email db = (db3, Inr pw)"
  obtains db1 q h db2 q2 i where "isDatabaseUninitialized E db" "pw = RandStringRunes rs"
    "NewKVUserRepository E db = (db1, Inr q)" "hash pw = Inr h"
    "CreateUser E db1 q now (root_user email h) = (db2, q2, Inr i)" "view db3 = (view db2)(initializeMarker \<mapsto> [])"
proof -
  have un: "isDatabaseUninitialized E db" using assms by (auto simp: dbInit_def split: if_splits)
  obtain db1 q where 1: "NewKVUserRepository E db = (db1, Inr q)"
    using assms un by (auto simp: dbInit_def Let_def split: prod.splits sum.splits)
  obtain h where 2: "hash (RandStringRunes rs) = Inr h"
    using assms un 1 by (auto simp: dbInit_def Let_def split: sum.splits)
  obtain db2 q2 i where 3: "CreateUser E db1 q now (root_user email h) = (db2, q2, Inr i)"
    using assms un 1 2 by (auto simp: dbInit_def Let_def split: sum.splits prod.splits)
  obtain db4 where 4: "pset E db2 initializeMarker [] = (db4, None)" using set_up by blast
  have "db3 = db4" "pw = RandStringRunes rs" using assms un 1 2 3 4 by (auto simp: dbInit_def Let_def)
  then show ?thesis using that un 1 2 3 set_eq [OF 4] by blast
qed

lemma initialized: "view db initializeMarker = Some v \<Longrightarrow> \<not> isDatabaseUninitialized E db"
  by (simp add: isDatabaseUninitialized_def get_present)

lemma marker_frame:
  assumes "view db3 = (view db2)(initializeMarker \<mapsto> v)"
  shows "GetUserById E db3 i = GetUserById E db2 i" "GetUserIdByUsername E db3 n = GetUserIdByUsername E db2 n"
  using pget_cong [of db3 "getUserIdKey i" db2 "getUserIdKey i"] pget_cong [of db3 "getUsernameKey n" db2 "getUsernameKey n"] assms
  by (simp_all add: GetUserById_def GetUserIdByUsername_def get_message_def get_id_def)

end

subsection \<open>Properties\<close>

text \<open>
  C28: the server fails closed. When it starts, its database was initialised and its secrets were set: a
  session, upload or download token signed with the secret shipped in the configuration template, or
  with the empty one, is not accepted; a grader must present a token that is not empty; and a request to the file server
  of the graders without a token is refused and changes nothing.
\<close>

theorem server_fails_closed:
  assumes "server_start E cfg parseDuration Getwd A fs opened = Inr sv" and "jwt_ok J"
    and "signPayloadToken J now weak c m expireAt = Inr ss"
    and "(weak, key) \<in> {[], ''user-session-token-secret''} \<times> {userJWTSignKey (sv_svc sv)} \<union>
      {[], ''upload-token-secret''} \<times> {uploadJWTSignKey (sv_svc sv)} \<union>
      {[], ''download-token-secret''} \<times> {downloadJWTSignKey (sv_svc sv)}"
  shows "(\<exists>e. parseTokenPayload J now' key ss = Inl e) \<and> hub_token (svc_hub (sv_svc sv)) \<noteq> [] \<and>
    (\<exists>db. opened = Inr db \<and> \<not> isDatabaseUninitialized E db) \<and>
    (hdr_Get (hr_Header r) ''token'' = [] \<longrightarrow>
       (\<exists>status \<in> {401, 405}. fs_handler L FileServer sv r path = (sv, status, [])))"
proof -
  obtain db where db: "opened = Inr db" "\<not> isDatabaseUninitialized E db" and valid: "validateSecrets cfg = None"
      and keys: "userJWTSignKey (sv_svc sv) = GetString cfg ''token.secret.session''"
        "uploadJWTSignKey (sv_svc sv) = GetString cfg ''token.secret.upload''"
        "downloadJWTSignKey (sv_svc sv) = GetString cfg ''token.secret.download''"
        "hub_token (svc_hub (sv_svc sv)) = GetString cfg ''hub.token''" "sv_fsToken sv = GetString cfg ''fs.http.token''"
    using server_start_Inr [OF assms(1)] by metis
  note secrets = validateSecrets_None [OF valid]
  have "key \<noteq> weak" using assms(4) secrets(1-3) keys(1-3) by auto
  with token_parses [OF assms(2,3)] have "\<exists>e. parseTokenPayload J now' key ss = Inl e" by blast
  moreover have "\<exists>status \<in> {401, 405}. fs_handler L FileServer sv r path = (sv, status, [])"
    if "hdr_Get (hr_Header r) ''token'' = []"
    using that secrets(5) keys(5) by (auto simp: fs_handler_def verifyHTTPFSToken_def Let_def)
  ultimately show ?thesis using db secrets(4) keys(4) by auto
qed

text \<open>
  \<open>--init\<close> makes one administrator. On a database without users it stores the user root, with the address
  asked for and the hash of the password it prints; afterwards the database counts as initialised,
  so that the server starts, and another \<open>--init\<close> is refused and changes nothing.
\<close>

theorem dbInit_creates_root:
  assumes "store_up E view" and "\<forall>i. view db (getUserIdKey i) = None" and "view db (getUsernameKey ''root'') = None"
    and "dbInit E hash rs now email db = (db', Inr pw)"
  shows "\<exists>i h. hash pw = Inr h \<and> GetUserIdByUsername E db' ''root'' = Inr i \<and>
      GetUserById E db' i = Inr ((root_user email h)\<lparr>User_CreatedAt := Some now\<rparr>) \<and>
      \<not> isDatabaseUninitialized E db' \<and>
      dbInit E hash2 rs2 now2 email2 db' = (db', Inl (ErrOther ''database is already initialized''))"
proof -
  note st = store_up.axioms(1) [OF assms(1)]
  obtain db1 q h db2 q2 i where i: "NewKVUserRepository E db = (db1, Inr q)" "hash pw = Inr h"
      "CreateUser E db1 q now (root_user email h) = (db2, q2, Inr i)"
      "view db' = (view db2)(initializeMarker \<mapsto> [])"
    using store_up.dbInit_Inr [OF assms(1,4)] by metis
  have v1: "view db1 k = view db k" if "k \<noteq> ''user:next_id''" for k
    using store.NewKVUserRepository_frame(2) [OF st i(1) that] .
  have "user_inv E view db1 q"
    using v1 assms(2) store.NewKVUserRepository_frame(1) [OF st i(1)] by (auto simp: user_inv_def)
  moreover have "GetUserIdByUsername E db1 (User_Username (root_user email h)) = Inl ErrNotFound"
    using v1 assms(3) store_up.get_absent [OF assms(1)]
    by (simp add: GetUserIdByUsername_def get_id_def root_user_def)
  ultimately have "store.user_created E view db1 db2 ((root_user email h)\<lparr>User_CreatedAt := Some now\<rparr>) i"
    using store_up.CreateUser_read_back [OF assms(1) _ _ i(3)] by blast
  note made = this [unfolded store.user_created_def [OF st]]
  then obtain raw where raw: "Marshal (C_User E) ((root_user email h)\<lparr>User_CreatedAt := Some now\<rparr>) = Inr raw"
      "view db2 (getUserIdKey i) = Some raw" by auto
  have "GetUserById E db2 i = Inr ((root_user email h)\<lparr>User_CreatedAt := Some now\<rparr>)"
    using store_up.GetUserById_present [OF assms(1) raw(2)] codec_okD [OF store.codec_user [OF st] raw(1)] by simp
  moreover have "GetUserIdByUsername E db2 ''root'' = Inr i"
    using made by (auto simp: GetUserIdByUsername_def root_user_def intro: store_up.get_id_present [OF assms(1)])
  moreover have "\<not> isDatabaseUninitialized E db'" using store_up.initialized [OF assms(1)] i(4) by simp
  ultimately show ?thesis
    using i(2) store_up.marker_frame [OF assms(1) i(4)] by (auto simp: dbInit_def)
qed

text \<open>
  An \<open>--init\<close> that is run again after it was interrupted prints a password that is not root's. When the user
  root exists but the marker was not written, the second run reports success, and the stored user, with
  the hash of the first password, is as it was: the password printed now was never stored.
\<close>

theorem dbInit_rerun_keeps_password:
  assumes "store_up E view" and "GetUserIdByUsername E db ''root'' = Inr i"
    and "dbInit E hash rs now email db = (db', r)" and "isDatabaseUninitialized E db"
    and "hash (RandStringRunes rs) = Inr h" and "NewKVUserRepository E db = (db1, Inr q)"
  shows "r = Inr (RandStringRunes rs) \<and> \<not> isDatabaseUninitialized E db' \<and>
    GetUserIdByUsername E db' ''root'' = Inr i \<and> GetUserById E db' i = GetUserById E db i"
proof -
  note st = store_up.axioms(1) [OF assms(1)]
  have v1: "view db1 k = view db k" if "k \<noteq> ''user:next_id''" for k
    using store.NewKVUserRepository_frame(2) [OF st assms(6) that] .
  have get: "get_id E db1 (getUsernameKey ''root'') = Inr i" "GetUserById E db1 i = GetUserById E db i"
    using assms(2) store_up.pget_cong [OF assms(1), of db1 "getUsernameKey ''root''" db "getUsernameKey ''root''"]
      store_up.pget_cong [OF assms(1), of db1 "getUserIdKey i" db "getUserIdKey i"] v1
    by (simp_all add: GetUserIdByUsername_def get_id_def GetUserById_def get_message_def)
  then have cr: "CreateUser E db1 q now (root_user email h) = (db1, q, Inr i)"
    by (simp add: CreateUser_def root_user_def Let_def)
  obtain db3 where db3: "pset E db1 initializeMarker [] = (db3, None)" using store_up.set_up [OF assms(1)] by blast
  then have v3: "view db3 = (view db1)(initializeMarker \<mapsto> [])" using store_up.set_eq [OF assms(1) db3] by simp
  have "db' = db3" "r = Inr (RandStringRunes rs)"
    using assms(3-6) cr db3 by (simp_all add: dbInit_def Let_def)
  moreover have "GetUserIdByUsername E db3 ''root'' = Inr i"
    using get(1) store_up.marker_frame(2) [OF assms(1) v3] by (simp add: GetUserIdByUsername_def)
  ultimately show ?thesis
    using store_up.marker_frame(1) [OF assms(1) v3, of i] get(2) store_up.initialized [OF assms(1), of db3] v3 by simp
qed

subsection \<open>Examples\<close>

definition test_config :: config where
  "test_config =
     \<lparr>GetString = (\<lambda>key. if key = ''fs.local.dir'' then ''data'' else if key = ''smtp.tls-mode'' then ''starttls'' else ''value of '' @ key),
      GetBool = (\<lambda>key. False), GetInt = (\<lambda>key. 0), GetStringSlice = (\<lambda>key. [])\<rparr>"

definition test_assets :: web_assets where
  "test_assets = \<lparr>wa_ReadFile = (\<lambda>f. Inl dir_missing), wa_Stat = (\<lambda>f. Some dir_missing), wa_render = (\<lambda>t v. Inr t)\<rparr>"

definition test_start :: "start_end + (mem_db, unit) server" where
  "test_start = server_start mem_env test_config (\<lambda>s. Some 15) (Inr ''.'') test_assets () (Inr [(initializeMarker, [])])"

text \<open>Every repository opens on a database without its counter, and on one where it is stored.\<close>

definition counter_ok :: "('db \<Rightarrow> bytes \<rightharpoonup> bytes) \<Rightarrow> 'db \<Rightarrow> bytes \<Rightarrow> bool" where
  "counter_ok view db key \<longleftrightarrow> view db key = None \<or> (\<exists>i. view db key = Some (Uint64ToBytes i))"

context store_up
begin

lemma NewKVSequencer_fresh:
  assumes "counter_ok view db key"
  obtains db' q where "NewKVSequencer E db key = (db', Inr q)" "\<And>k. k \<noteq> key \<Longrightarrow> view db' k = view db k"
proof -
  obtain i where i: "(case pget E db key of Inr v \<Rightarrow> Inr v | Inl ErrNotFound \<Rightarrow> Inr (Uint64ToBytes 1)
      | Inl e \<Rightarrow> Inl e) = Inr (Uint64ToBytes i)"
    using assms get_absent [of db key] get_present [of db key] by (force simp: counter_ok_def)
  obtain db' where set: "pset E db key (Uint64ToBytes (i + BatchSize)) = (db', None)" using set_up by blast
  have "NewKVSequencer E db key = (db', Inr \<lparr>seq_key = key, seq_next = i, seq_limit = i + BatchSize\<rparr>)"
    using set by (simp add: NewKVSequencer_def i requestNextBatch_def)
  then show ?thesis using that set_eq [OF set] by simp
qed

lemma iter_none:
  assumes "\<And>k. prefix p k \<Longrightarrow> view db k = None"
  shows "piter E db (PrefixIterOptions p) = Inr []"
proof -
  obtain kvs where kvs: "piter E db (PrefixIterOptions p) = Inr kvs" using iter_up by blast
  have "set kvs = {}" using iter_entries [OF kvs] assms by (auto simp: in_bounds_prefix)
  then show ?thesis using kvs by simp
qed

lemma mark_unknown_other: "\<forall>i. k \<noteq> getGraderIdKey i \<Longrightarrow> view (mark_unknown E db gs) k = view db k"
proof (induction gs arbitrary: db)
  case (Cons x gs)
  obtain i g where x: "x = (i, g)" by (cases x)
  obtain db1 r where u: "UpdateGrader E db i (g\<lparr>Grader_Status := GraderStatusMetadata_Unknown\<rparr>) = (db1, r)" by force
  have "view db1 k = view db k" using u Cons.prems by (auto simp: UpdateGrader_def dest: set_message_other)
  then show ?case using Cons by (simp add: x u)
qed simp

lemma NewGraderHubService_fresh:
  assumes "counter_ok view db ''grader:next_id''"
    and "\<And>k. prefix getGraderIdPrefix k \<Longrightarrow> view db k \<noteq> None \<Longrightarrow> \<exists>i. k = getGraderIdKey i"
  obtains h where "NewGraderHubService E db token = (hub_db h, Inr h)"
    "\<And>k. k \<noteq> ''grader:next_id'' \<Longrightarrow> \<not> prefix ''running:'' k \<Longrightarrow> \<forall>i. k \<noteq> getGraderIdKey i \<Longrightarrow>
      view (hub_db h) k = view db k"
proof -
  obtain db1 q where seq: "NewKVSequencer E db ''grader:next_id'' = (db1, Inr q)"
      "\<And>k. k \<noteq> ''grader:next_id'' \<Longrightarrow> view db1 k = view db k"
    using NewKVSequencer_fresh [OF assms(1)] by blast
  obtain kvs where kvs: "piter E db1 (PrefixIterOptions getGraderIdPrefix) = Inr kvs" using iter_up by blast
  have "\<exists>i. k = getGraderIdKey i" if "(k, v) \<in> set kvs" for k v
  proof -
    have k: "prefix getGraderIdPrefix k" "view db1 k \<noteq> None" using that iter_prefix [OF kvs] by simp_all
    then have "k \<noteq> ''grader:next_id''" by (auto simp: getGraderIdPrefix_def)
    then show ?thesis using assms(2) [OF k(1)] k(2) seq(2) by simp
  qed
  then have "\<exists>xs. collect (\<lambda>(k, v). case BigEndian_Uint64 (drop (length getGraderIdPrefix) k) of
      Inl e \<Rightarrow> Inl e
    | Inr i \<Rightarrow> Inr (case Unmarshal (C_Grader E) v of Inl e \<Rightarrow> None | Inr g \<Rightarrow> Some (i, g))) kvs = Inr xs"
    by (intro collect_Ex) (fastforce simp: getGraderIdKey_def)
  then obtain gs where gs: "GetAllGraders E db1 = Inr gs" by (auto simp: GetAllGraders_def kvs)
  let ?d = "mark_unknown E (ClearRunning E db1) gs"
  have "NewGraderHubService E db token = (?d, Inr ((initial_hub ?d q token)\<lparr>monitorChs := map fst gs\<rparr>))"
    using seq(1) gs by (simp add: NewGraderHubService_def NewKVGraderRepository_def Let_def)
  then show ?thesis
    using that [of "(initial_hub ?d q token)\<lparr>monitorChs := map fst gs\<rparr>"] seq(2) mark_unknown_other [of _ "ClearRunning E db1" gs]
    by (simp add: initial_hub_def ClearRunning_view)
qed

end

definition test_hash :: "bytes \<Rightarrow> error + bytes" where
  "test_hash p = Inr (''hash '' @ p)"

lemma test_init: "\<exists>db. dbInit mem_env test_hash [1, 2, 10] 5 ''root@b.c'' [] = (db, Inr ''12a'')"
  by (simp add: dbInit_def isDatabaseUninitialized_def mem_get_def NewKVUserRepository_def NewKVSequencer_def
      requestNextBatch_def test_hash_def RandStringRunes_def passwordRunes_def Let_def CreateUser_def get_id_def
      GetNextId_in_batch BatchSize_def root_user_def initializeMarker_def user_key_defs)

definition service_counters :: "bytes list" where
  "service_counters = [''manifest:next_id'', ''user:next_id'', ''submission:next_id'', ''course:next_id'', ''assignment:next_id'']"

context store_up
begin

lemma NewAutograderServiceServer_fresh:
  assumes "\<forall>k \<in> set service_counters. counter_ok view (hub_db h) k"
  obtains db' a where "NewAutograderServiceServer E h fs base k1 k2 k3 = (db', Inr a)"
proof -
  have c: "counter_ok view (hub_db h) ''manifest:next_id''" "counter_ok view (hub_db h) ''user:next_id''"
    "counter_ok view (hub_db h) ''submission:next_id''" "counter_ok view (hub_db h) ''course:next_id''"
    "counter_ok view (hub_db h) ''assignment:next_id''"
    using assms by (simp_all add: service_counters_def)
  note n1 = c(1)
  obtain db1 q1 where 1: "NewKVSequencer E (hub_db h) ''manifest:next_id'' = (db1, Inr q1)"
      "\<And>k. k \<noteq> ''manifest:next_id'' \<Longrightarrow> view db1 k = view (hub_db h) k"
    using NewKVSequencer_fresh [OF n1] by blast
  have n2: "counter_ok view db1 ''user:next_id''" using c by (simp add: counter_ok_def 1(2))
  obtain db2 q2 where 2: "NewKVSequencer E db1 ''user:next_id'' = (db2, Inr q2)"
      "\<And>k. k \<noteq> ''user:next_id'' \<Longrightarrow> view db2 k = view db1 k"
    using NewKVSequencer_fresh [OF n2] by blast
  have n3: "counter_ok view db2 ''submission:next_id''" using c by (simp add: counter_ok_def 1(2) 2(2))
  obtain db3 q3 where 3: "NewKVSequencer E db2 ''submission:next_id'' = (db3, Inr q3)"
      "\<And>k. k \<noteq> ''submission:next_id'' \<Longrightarrow> view db3 k = view db2 k"
    using NewKVSequencer_fresh [OF n3] by blast
  have n4: "counter_ok view db3 ''course:next_id''" using c by (simp add: counter_ok_def 1(2) 2(2) 3(2))
  obtain db4 q4 where 4: "NewKVSequencer E db3 ''course:next_id'' = (db4, Inr q4)"
      "\<And>k. k \<noteq> ''course:next_id'' \<Longrightarrow> view db4 k = view db3 k"
    using NewKVSequencer_fresh [OF n4] by blast
  have n5: "counter_ok view db4 ''assignment:next_id''" using c by (simp add: counter_ok_def 1(2) 2(2) 3(2) 4(2))
  obtain db5 q5 where 5: "NewKVSequencer E db4 ''assignment:next_id'' = (db5, Inr q5)"
      "\<And>k. k \<noteq> ''assignment:next_id'' \<Longrightarrow> view db5 k = view db4 k"
    using NewKVSequencer_fresh [OF n5] by blast
  show ?thesis
    using that 1(1) 2(1) 3(1) 4(1) 5(1)
    by (simp add: NewAutograderServiceServer_def NewKVManifestRepository_def NewKVUserRepository_def
        NewKVSubmissionRepository_def NewKVCourseRepository_def NewKVAssignmentRepository_def Let_def)
qed

end

lemma test_start_on:
  assumes "map_of db initializeMarker = Some v"
    and "\<And>k. k \<in> set (''grader:next_id'' # service_counters) \<Longrightarrow> counter_ok map_of db k"
    and "\<And>k. prefix getGraderIdPrefix k \<Longrightarrow> map_of db k \<noteq> None \<Longrightarrow> \<exists>i. k = getGraderIdKey i"
  shows "\<exists>sv. server_start mem_env test_config (\<lambda>s. Some 15) (Inr ''.'') test_assets fs (Inr db) = Inr sv"
proof -
  obtain h where h: "NewGraderHubService mem_env db (GetString test_config ''hub.token'') = (hub_db h, Inr h)"
      "\<And>k. k \<noteq> ''grader:next_id'' \<Longrightarrow> \<not> prefix ''running:'' k \<Longrightarrow> \<forall>i. k \<noteq> getGraderIdKey i \<Longrightarrow>
        map_of (hub_db h) k = map_of db k"
    using mem.NewGraderHubService_fresh [of db] assms(2,3) by (metis list.set_intros(1))
  have "counter_ok map_of (hub_db h) k" if "k \<in> set service_counters" for k
    using that assms(2) [of k] h(2) [of k] by (auto simp: counter_ok_def service_counters_def grader_key_defs)
  then have "\<forall>k \<in> set service_counters. counter_ok map_of (hub_db h) k" by blast
  then obtain db' a where a: "NewAutograderServiceServer mem_env h fs ''data'' (GetString test_config ''token.secret.session'')
      (GetString test_config ''token.secret.upload'') (GetString test_config ''token.secret.download'') = (db', Inr a)"
    by (rule mem.NewAutograderServiceServer_fresh)
  have web: "initEmbeddedStaticWebResources test_assets test_config = Inr None"
    by (simp add: initEmbeddedStaticWebResources_def initStaticWebResources_def test_assets_def)
  have valid: "validateSecrets test_config = None"
    by (simp add: validateSecrets_def insecureSecretDefaults_def test_config_def)
  have dir: "storage_dir test_config (Inr ''.'') = Inr ''data''"
    by (simp add: storage_dir_def test_config_def)
  have mail: "\<exists>m. setup_mailer test_config = Inr m"
    by (simp add: setup_mailer_def ParseSMTPTLSMode_def test_config_def)
  have init: "\<not> isDatabaseUninitialized mem_env db"
    using assms(1) by (simp add: isDatabaseUninitialized_def mem_get_def)
  have "\<exists>sv. server_services mem_env test_config 15 ''data'' m test_assets fs db = Inr sv" for m
    using h(1) a web by (simp add: server_services_def)
  then show ?thesis
    using valid dir mail init by (auto simp: server_start_def)
qed

lemma test_started: "\<exists>sv. test_start = Inr sv"
  unfolding test_start_def
  by (rule test_start_on) (auto simp: counter_ok_def initializeMarker_def service_counters_def getGraderIdPrefix_def split: if_splits)

theorem server_fails_closed_witness:
  "\<exists>sv ss. test_start = Inr sv \<and>
    signPayloadToken plain_jwt 0 ''user-session-token-secret'' (counting_codec (0 :: nat)) 5 nanosecond_per_second = Inr ss \<and>
    (\<exists>e. parseTokenPayload plain_jwt 7 (userJWTSignKey (sv_svc sv)) ss = Inl e)"
proof -
  obtain sv where sv: "test_start = Inr sv" using test_started by blast
  obtain ss where ss: "signPayloadToken plain_jwt 0 ''user-session-token-secret'' (counting_codec (0 :: nat)) 5
      nanosecond_per_second = Inr ss"
    by (simp add: signPayloadToken_def plain_jwt_def)
  from server_fails_closed [OF sv [unfolded test_start_def] plain_jwt_ok ss, of "userJWTSignKey (sv_svc sv)"] sv ss
  show ?thesis by auto
qed

theorem dbInit_creates_root_witness:
  "\<exists>db i. dbInit mem_env test_hash [1, 2, 10] 5 ''root@b.c'' [] = (db, Inr ''12a'') \<and>
    GetUserById mem_env db i = Inr ((root_user ''root@b.c'' ''hash 12a'')\<lparr>User_CreatedAt := Some 5\<rparr>)"
proof -
  obtain db where db: "dbInit mem_env test_hash [1, 2, 10] 5 ''root@b.c'' [] = (db, Inr ''12a'')"
    using test_init by blast
  from dbInit_creates_root [OF mem_store_up _ _ db, where ?hash2.0 = test_hash and ?rs2.0 = "[]" and ?now2.0 = 0 and ?email2.0 = "[]"] db show ?thesis by (auto simp: test_hash_def)
qed

definition interrupted_db :: mem_db where
  "interrupted_db = fst (CreateUser mem_env [] first_seq 3 (root_user ''root@b.c'' ''hash first''))"

lemma interrupted:
  "GetUserIdByUsername mem_env interrupted_db ''root'' = Inr 1"
  "GetUserById mem_env interrupted_db 1 = Inr ((root_user ''root@b.c'' ''hash first'')\<lparr>User_CreatedAt := Some 3\<rparr>)"
  "isDatabaseUninitialized mem_env interrupted_db"
  "\<exists>db q. NewKVUserRepository mem_env interrupted_db = (db, Inr q)"
  by (simp_all add: interrupted_db_def CreateUser_def Let_def get_id_def mem_get_def GetNextId_in_batch
      first_seq_def GetUserById_def GetUserIdByUsername_def get_message_def root_user_def mem_del_def isDatabaseUninitialized_def
      NewKVUserRepository_def NewKVSequencer_def requestNextBatch_def initializeMarker_def user_key_defs)

theorem dbInit_rerun_keeps_password_witness:
  "\<exists>db. dbInit mem_env test_hash [1, 2, 10] 5 ''root@b.c'' interrupted_db = (db, Inr ''12a'') \<and>
    GetUserById mem_env db 1 = Inr ((root_user ''root@b.c'' ''hash first'')\<lparr>User_CreatedAt := Some 3\<rparr>)"
proof -
  obtain db' r where run: "dbInit mem_env test_hash [1, 2, 10] 5 ''root@b.c'' interrupted_db = (db', r)" by force
  obtain db q where open_repo: "NewKVUserRepository mem_env interrupted_db = (db, Inr q)" using interrupted(4) by blast
  have "test_hash (RandStringRunes [1, 2, 10]) = Inr ''hash 12a''"
    by (simp add: test_hash_def RandStringRunes_def passwordRunes_def)
  from dbInit_rerun_keeps_password [OF mem_store_up interrupted(1) run interrupted(3) this open_repo] run interrupted(2)
  show ?thesis by (simp add: RandStringRunes_def passwordRunes_def)
qed

end
