(* ===== verification/Recovery.thy ===== *)
theory Recovery
  imports Roster Server
begin

section \<open>Starting on a database: what every service finds\<close>

text \<open>
  The constructors of the hub and of the service run one after the other on the same database. Here is what they
  leave of it, and that the state they build satisfies the invariants the properties of the components start from.
\<close>

subsection \<open>Sequencers and prefix scans over a database that is opened again\<close>

text \<open>The sequencer a stored number stands for, before it reserves a batch.\<close>

definition stored_seq :: "('db \<Rightarrow> bytes \<rightharpoonup> bytes) \<Rightarrow> 'db \<Rightarrow> bytes \<Rightarrow> kvseq" where
  "stored_seq view db key =
     (let i = (case view db key of None \<Rightarrow> 1
               | Some raw \<Rightarrow> (case BigEndian_Uint64 raw of Inl e \<Rightarrow> 0 | Inr i \<Rightarrow> i))
      in \<lparr>seq_key = key, seq_next = i, seq_limit = i\<rparr>)"

text \<open>The keys a start may write: the counters, the claims and the graders.\<close>

definition start_writes :: "bytes \<Rightarrow> bool" where
  "start_writes k \<longleftrightarrow> k \<in> set (''grader:next_id'' # service_counters) \<or> prefix ''running:'' k \<or> (\<exists>i. k = getGraderIdKey i)"

lemma start_writes_simps [simp]:
  "start_writes ''grader:next_id''" "start_writes ''user:next_id''" "start_writes ''submission:next_id''"
  "start_writes ''course:next_id''" "start_writes ''assignment:next_id''" "start_writes ''manifest:next_id''"
  "\<not> start_writes (getUserIdKey i)" "\<not> start_writes (getUsernameKey n)" "\<not> start_writes (getEmailKey m)"
  "\<not> start_writes (submission_getIdKey i)" "\<not> start_writes (getUserAssignmentKey u a i)"
  "\<not> start_writes (getUnfinishedKey i)" "\<not> start_writes initializeMarker"
  "prefix ''running:'' k \<Longrightarrow> start_writes k" "start_writes (getGraderIdKey g)"
  by (auto simp: start_writes_def service_counters_def getGraderIdPrefix_def getGraderIdKey_def user_key_defs
      submission_key_defs initializeMarker_def)

lemma start_writes_prefixes [simp]:
  "prefix getUnfinishedPrefix k \<Longrightarrow> \<not> start_writes k" "prefix (getUserAssignmentPrefix u a) k \<Longrightarrow> \<not> start_writes k"
  "prefix ''user:courses:'' k \<Longrightarrow> \<not> start_writes k" "prefix ''course:users:'' k \<Longrightarrow> \<not> start_writes k"
  by (auto simp: start_writes_def service_counters_def grader_key_defs submission_key_defs prefix_def)

context store_up
begin

lemma NewKVSequencer_opens:
  assumes "NewKVSequencer E db key = (db', Inr q)"
  shows "seq_key q = key" "seq_next q = seq_next (stored_seq view db key)"
    "k \<noteq> key \<Longrightarrow> view db' k = view db k"
proof -
  obtain i q0 where r: "requestNextBatch E db \<lparr>seq_key = key, seq_next = i, seq_limit = i\<rparr> = (db', q0, None)"
      and q: "q = q0" and i: "i = seq_next (stored_seq view db key)"
    using assms get_present [of db key] get_absent [of db key]
    by (cases "view db key") (auto simp: NewKVSequencer_def stored_seq_def split: sum.splits prod.splits option.splits)
  show "seq_key q = key" "seq_next q = seq_next (stored_seq view db key)" "k \<noteq> key \<Longrightarrow> view db' k = view db k"
    using requestNextBatch_frame [OF r] by (auto simp: q i)
qed

text \<open>The sweep over the graders rewrites the records of those that were online, and nothing else of them.\<close>

lemma mark_unknown_records:
  assumes "\<And>m. \<exists>raw. Marshal (C_Grader E) m = Inr raw" and "\<forall>(j, g) \<in> set gs. GetGraderById E db0 j = Inr g"
  shows "GetGraderById E (mark_unknown E db gs) i =
    (if i \<in> fst ` set (filter (\<lambda>(j, g). Grader_Status g = GraderStatusMetadata_Online) gs)
     then (case GetGraderById E db0 i of Inl e \<Rightarrow> Inl e | Inr g \<Rightarrow> Inr (g\<lparr>Grader_Status := GraderStatusMetadata_Unknown\<rparr>))
     else GetGraderById E db i)"
  using assms(2)
proof (induction gs arbitrary: db)
  case (Cons x gs)
  obtain j g where x: "x = (j, g)" by (cases x)
  let ?u = "g\<lparr>Grader_Status := GraderStatusMetadata_Unknown\<rparr>"
  have j: "GetGraderById E db0 j = Inr g" using Cons.prems by (simp add: x)
  obtain raw where raw: "Marshal (C_Grader E) ?u = Inr raw" using assms(1) by blast
  obtain db1 where "pset E db (getGraderIdKey j) raw = (db1, None)" using set_up by blast
  then have u: "UpdateGrader E db j ?u = (db1, None)" "view db1 = (view db)(getGraderIdKey j \<mapsto> raw)"
    using raw set_eq by (auto simp: UpdateGrader_def set_message_def)
  have "GetGraderById E db1 j = Inr ?u"
    using u(2) by (simp add: GetGraderById_def get_message_present [OF _ codec_okD [OF codec_grader raw]])
  moreover have "GetGraderById E db1 i = GetGraderById E db i" if "i \<noteq> j"
    using pget_cong [of db1 "getGraderIdKey i" db "getGraderIdKey i"] u(2) that
    by (simp add: GetGraderById_def get_message_def)
  moreover have IH: "GetGraderById E (mark_unknown E d gs) i =
      (if i \<in> fst ` set (filter (\<lambda>(j, g). Grader_Status g = GraderStatusMetadata_Online) gs)
       then (case GetGraderById E db0 i of Inl e \<Rightarrow> Inl e | Inr g \<Rightarrow> Inr (g\<lparr>Grader_Status := GraderStatusMetadata_Unknown\<rparr>))
       else GetGraderById E d i)" for d
    by (rule Cons.IH) (use Cons.prems in simp)
  moreover have "mark_unknown E db (x # gs) =
      mark_unknown E (if Grader_Status g = GraderStatusMetadata_Online then db1 else db) gs"
    by (simp add: x u)
  ultimately show ?case
    by (cases "Grader_Status g = GraderStatusMetadata_Online"; cases "i = j") (simp_all add: x j del: mark_unknown.simps)
qed simp

lemma GetAllGraders_complete:
  assumes "GetAllGraders E db = Inr gs" and "GetGraderById E db i = Inr g"
  shows "(i, g) \<in> set gs"
proof -
  obtain raw where raw: "view db (getGraderIdKey i) = Some raw" "Unmarshal (C_Grader E) raw = Inr g"
    using get_message_Inr [OF assms(2) [unfolded GetGraderById_def]] by blast
  obtain kvs xs where kvs: "piter E db (PrefixIterOptions getGraderIdPrefix) = Inr kvs"
      "collect (\<lambda>(k, v). case BigEndian_Uint64 (drop (length getGraderIdPrefix) k) of
         Inl e \<Rightarrow> Inl e
       | Inr i \<Rightarrow> Inr (case Unmarshal (C_Grader E) v of Inl e \<Rightarrow> None | Inr g \<Rightarrow> Some (i, g))) kvs = Inr xs"
      "gs = List.map_filter id xs"
    using assms(1) by (auto simp: GetAllGraders_def split: sum.splits)
  have "(getGraderIdKey i, raw) \<in> set kvs"
    using iter_prefix [OF kvs(1)] raw(1) by (simp add: getGraderIdKey_def)
  then have "Some (i, g) \<in> set xs"
    unfolding collect_Inr_mem [OF kvs(2)] using raw(2) by (force simp: getGraderIdKey_def)
  then show ?thesis by (force simp: kvs(3) List.map_filter_def)
qed

lemma GetAllGraders_records:
  assumes "GetAllGraders E db = Inr gs"
    and "\<And>k. prefix getGraderIdPrefix k \<Longrightarrow> view db k \<noteq> None \<Longrightarrow> \<exists>i. k = getGraderIdKey i"
  shows "(i, g) \<in> set gs \<longleftrightarrow> GetGraderById E db i = Inr g"
proof
  assume "(i, g) \<in> set gs"
  obtain kvs xs where kvs: "piter E db (PrefixIterOptions getGraderIdPrefix) = Inr kvs"
      "collect (\<lambda>(k, v). case BigEndian_Uint64 (drop (length getGraderIdPrefix) k) of
         Inl e \<Rightarrow> Inl e
       | Inr i \<Rightarrow> Inr (case Unmarshal (C_Grader E) v of Inl e \<Rightarrow> None | Inr g \<Rightarrow> Some (i, g))) kvs = Inr xs"
      "gs = List.map_filter id xs"
    using assms(1) by (auto simp: GetAllGraders_def split: sum.splits)
  then have "Some (i, g) \<in> set xs" using \<open>(i, g) \<in> set gs\<close> by (auto simp: List.map_filter_def)
  then obtain k v where kv: "(k, v) \<in> set kvs" "BigEndian_Uint64 (drop (length getGraderIdPrefix) k) = Inr i"
      "Unmarshal (C_Grader E) v = Inr g"
    unfolding collect_Inr_mem [OF kvs(2)] by (auto split: sum.splits)
  then have k: "prefix getGraderIdPrefix k" "view db k = Some v" using iter_prefix [OF kvs(1)] by simp_all
  then obtain j where "k = getGraderIdKey j" using assms(2) by blast
  then have "k = getGraderIdKey i" using kv(2) by (simp add: getGraderIdKey_def)
  then show "GetGraderById E db i = Inr g" using k(2) kv(3) by (simp add: GetGraderById_def get_message_present)
qed (rule GetAllGraders_complete [OF assms(1)])

lemma NewGraderHubService_opens:
  assumes "NewGraderHubService E db token = (db', Inr h)"
  shows "hub_db h = db'" "\<not> start_writes k \<Longrightarrow> view db' k = view db k" "claims_consistent view db'"
    "claim_owner view db' s = None" "h = (initial_hub db' (hub_seq h) token)\<lparr>monitorChs := monitorChs h\<rparr>"
    "k \<in> set service_counters \<Longrightarrow> view db' k = view db k"
    "prefix ''running:'' k \<Longrightarrow> view db' k = None"
    "(\<And>m. \<exists>raw. Marshal (C_Grader E) m = Inr raw) \<Longrightarrow>
      (\<And>k. prefix getGraderIdPrefix k \<Longrightarrow> view db k \<noteq> None \<Longrightarrow> \<exists>i. k = getGraderIdKey i) \<Longrightarrow>
      GetGraderById E db' i = (case GetGraderById E db i of Inl e \<Rightarrow> Inl e
        | Inr g \<Rightarrow> Inr (if Grader_Status g = GraderStatusMetadata_Online
            then g\<lparr>Grader_Status := GraderStatusMetadata_Unknown\<rparr> else g))"
proof -
  obtain db1 q gs where o: "NewKVSequencer E db ''grader:next_id'' = (db1, Inr q)" "GetAllGraders E db1 = Inr gs"
      and d: "db' = mark_unknown E (ClearRunning E db1) gs" "h = (initial_hub db' q token)\<lparr>monitorChs := map fst gs\<rparr>"
    using assms by (auto simp: NewGraderHubService_def NewKVGraderRepository_def Let_def split: prod.splits sum.splits)
  have v: "view db' k = (if prefix ''running:'' k then None else view db k)"
    if "k \<noteq> ''grader:next_id''" "\<forall>i. k \<noteq> getGraderIdKey i" for k
    using NewKVSequencer_opens(3) [OF o(1) that(1)] mark_unknown_other [of k "ClearRunning E db1" gs] that(2)
    by (simp add: d(1) ClearRunning_view)
  show "hub_db h = db'" "h = (initial_hub db' (hub_seq h) token)\<lparr>monitorChs := monitorChs h\<rparr>"
    by (simp_all add: d(2) initial_hub_def)
  show "\<not> start_writes k \<Longrightarrow> view db' k = view db k" using v by (auto simp: start_writes_def)
  show "view db' k = view db k" if k: "k \<in> set service_counters"
  proof -
    have "k \<noteq> ''grader:next_id''" "k \<noteq> getGraderIdKey i" "\<not> prefix ''running:'' k" for i
      using k by (auto simp: service_counters_def grader_key_defs)
    then show ?thesis using v [of k] by simp
  qed
  show running: "view db' k = None" if k: "prefix ''running:'' k" for k
  proof -
    have "k \<noteq> ''grader:next_id''" "k \<noteq> getGraderIdKey i" for i
      using k by (auto simp: grader_key_defs)
    then show ?thesis using v [of k] k by simp
  qed
  have none: "view db' (getSubmissionGraderKey s) = None" "view db' (getGraderSubmissionKey g s) = None" for g s
    by (rule running, simp add: grader_key_defs)+
  then show "claim_owner view db' s = None" by (simp add: claim_owner_def)
  show "claims_consistent view db'"
  proof (rule consistentI)
    fix g k assume k: "view db' k \<noteq> None" "prefix (getGraderSubmissionPrefix g) k"
    then have "prefix ''running:'' k" by (auto simp: grader_key_defs prefix_def)
    then show "\<exists>s. k = getGraderSubmissionKey g s" using k(1) running by simp
  qed (simp_all add: none)
  show "GetGraderById E db' i = (case GetGraderById E db i of Inl e \<Rightarrow> Inl e
      | Inr g \<Rightarrow> Inr (if Grader_Status g = GraderStatusMetadata_Online
          then g\<lparr>Grader_Status := GraderStatusMetadata_Unknown\<rparr> else g))"
    if m: "\<And>m. \<exists>raw. Marshal (C_Grader E) m = Inr raw"
      and keys: "\<And>k. prefix getGraderIdPrefix k \<Longrightarrow> view db k \<noteq> None \<Longrightarrow> \<exists>i. k = getGraderIdKey i"
  proof -
    have db1: "view db1 k = view db k" if "prefix getGraderIdPrefix k" for k
    proof -
      have "k \<noteq> ''grader:next_id''" using that by (auto simp: getGraderIdPrefix_def)
      then show ?thesis by (rule NewKVSequencer_opens(3) [OF o(1)])
    qed
    have same: "GetGraderById E d i = GetGraderById E db i" if "view d (getGraderIdKey i) = view db (getGraderIdKey i)" for d i
      using pget_cong [OF that] by (simp add: GetGraderById_def get_message_def)
    have id: "GetGraderById E db1 i = GetGraderById E db i" for i by (rule same, rule db1) (simp add: getGraderIdKey_def)
    have mem: "(i, g) \<in> set gs \<longleftrightarrow> GetGraderById E db1 i = Inr g" for i g
      by (rule GetAllGraders_records [OF o(2)]) (use keys db1 in auto)
    have "GetGraderById E (ClearRunning E db1) i = GetGraderById E db1 i"
      unfolding id by (rule same) (simp add: ClearRunning_view db1 getGraderIdKey_def getGraderIdPrefix_def)
    then have "GetGraderById E db' i =
        (if \<exists>g. GetGraderById E db1 i = Inr g \<and> Grader_Status g = GraderStatusMetadata_Online
         then (case GetGraderById E db1 i of Inl e \<Rightarrow> Inl e | Inr g \<Rightarrow> Inr (g\<lparr>Grader_Status := GraderStatusMetadata_Unknown\<rparr>))
         else GetGraderById E db1 i)"
      unfolding d(1) by (subst mark_unknown_records [OF m, of gs db1]) (use mem in \<open>force+\<close>)
    then show ?thesis by (auto simp: id split: sum.splits)
  qed
qed

lemma NewAutograderServiceServer_opens:
  assumes "NewAutograderServiceServer E h fs base k1 k2 k3 = (db', Inr a)"
  obtains b manifests users submissions courses assignments where
    "b = newAutograderService (h\<lparr>hub_db := db'\<rparr>) fs base manifests users submissions courses assignments k1 k2 k3"
    "a = runUnfinishedSubmissions E b"
    "\<forall>(q, key) \<in> {(users, ''user:next_id''), (submissions, ''submission:next_id''), (courses, ''course:next_id''),
        (assignments, ''assignment:next_id''), (manifests, ''manifest:next_id'')}.
      seq_key q = key \<and> seq_next q = seq_next (stored_seq view (hub_db h) key)"
    "\<forall>k. k \<notin> set service_counters \<longrightarrow> view db' k = view (hub_db h) k"
proof -
  obtain db1 manifests db2 users db3 submissions db4 courses assignments where
      o: "NewKVSequencer E (hub_db h) ''manifest:next_id'' = (db1, Inr manifests)"
        "NewKVSequencer E db1 ''user:next_id'' = (db2, Inr users)"
        "NewKVSequencer E db2 ''submission:next_id'' = (db3, Inr submissions)"
        "NewKVSequencer E db3 ''course:next_id'' = (db4, Inr courses)"
        "NewKVSequencer E db4 ''assignment:next_id'' = (db', Inr assignments)"
      and a: "a = runUnfinishedSubmissions E (newAutograderService (h\<lparr>hub_db := db'\<rparr>) fs base manifests users submissions
        courses assignments k1 k2 k3)"
    using assms by (auto simp: NewAutograderServiceServer_def NewKVManifestRepository_def NewKVUserRepository_def
        NewKVSubmissionRepository_def NewKVCourseRepository_def NewKVAssignmentRepository_def Let_def
        split: prod.splits sum.splits)
  have v: "k \<noteq> ''manifest:next_id'' \<Longrightarrow> view db1 k = view (hub_db h) k" "k \<noteq> ''user:next_id'' \<Longrightarrow> view db2 k = view db1 k"
    "k \<noteq> ''submission:next_id'' \<Longrightarrow> view db3 k = view db2 k" "k \<noteq> ''course:next_id'' \<Longrightarrow> view db4 k = view db3 k"
    "k \<noteq> ''assignment:next_id'' \<Longrightarrow> view db' k = view db4 k" for k
    using o [THEN NewKVSequencer_opens(3)] by blast+
  have next_id: "seq_next (stored_seq view db1 ''user:next_id'') = seq_next (stored_seq view (hub_db h) ''user:next_id'')"
    "seq_next (stored_seq view db2 ''submission:next_id'') = seq_next (stored_seq view (hub_db h) ''submission:next_id'')"
    "seq_next (stored_seq view db3 ''course:next_id'') = seq_next (stored_seq view (hub_db h) ''course:next_id'')"
    "seq_next (stored_seq view db4 ''assignment:next_id'') = seq_next (stored_seq view (hub_db h) ''assignment:next_id'')"
    by (simp_all add: stored_seq_def v)
  have "view db' k = view (hub_db h) k" if "k \<notin> set service_counters" for k
    using that v by (simp add: service_counters_def)
  moreover have "\<forall>(q, key) \<in> {(users, ''user:next_id''), (submissions, ''submission:next_id''), (courses, ''course:next_id''),
        (assignments, ''assignment:next_id''), (manifests, ''manifest:next_id'')}.
      seq_key q = key \<and> seq_next q = seq_next (stored_seq view (hub_db h) key)"
    using o [THEN NewKVSequencer_opens(1)] o [THEN NewKVSequencer_opens(2)] next_id by simp
  ultimately show ?thesis using that [OF refl a] by blast
qed

end

lemma runUnfinishedSubmissions_queues:
  "runUnfinishedSubmissions E a = (case GetUnfinishedSubmissions E (svc_db a) of Inl e \<Rightarrow> a
     | Inr ids \<Rightarrow> a\<lparr>svc_tasks := svc_tasks a @ map (case_prod Task_runSubmission) ids\<rparr>)"
proof -
  have "foldl (\<lambda>a (s, i). spawn a (Task_runSubmission s i)) b ids =
      b\<lparr>svc_tasks := svc_tasks b @ map (case_prod Task_runSubmission) ids\<rparr>" for b :: "('a, 'b) svc" and ids
    by (induction ids arbitrary: b) (auto simp: spawn_def)
  then show ?thesis by (simp add: runUnfinishedSubmissions_def split: sum.splits)
qed

lemma server_start_services:
  assumes "server_start E cfg parseDuration Getwd A fs (Inr db) = Inr sv"
  obtains h base where "NewGraderHubService E db (GetString cfg ''hub.token'') = (hub_db h, Inr h)"
    "NewAutograderServiceServer E h fs base (GetString cfg ''token.secret.session'')
       (GetString cfg ''token.secret.upload'') (GetString cfg ''token.secret.download'') =
     (svc_db (sv_svc sv), Inr (sv_svc sv))"
proof -
  obtain timeout base m where sv: "server_services E cfg timeout base m A fs db = Inr sv"
    using assms by (auto simp: server_start_def split: option.splits sum.splits if_splits)
  obtain h db1 where h: "NewGraderHubService E db (GetString cfg ''hub.token'') = (db1, Inr h)"
    using sv by (auto simp: server_services_def split: prod.splits sum.splits)
  obtain a db2 where a: "NewAutograderServiceServer E h fs base (GetString cfg ''token.secret.session'')
      (GetString cfg ''token.secret.upload'') (GetString cfg ''token.secret.download'') = (db2, Inr a)"
    using sv h by (auto simp: server_services_def split: prod.splits sum.splits)
  have "sv_svc sv = a" using sv h a by (auto simp: server_services_def split: sum.splits)
  moreover have "hub_db h = db1"
    using h by (auto simp: NewGraderHubService_def initial_hub_def Let_def split: prod.splits sum.splits)
  moreover have "svc_db a = db2"
    using a by (auto simp: NewAutograderServiceServer_def newAutograderService_def Let_def svc_db_def
        split: prod.splits sum.splits)
  ultimately show ?thesis using that h a by blast
qed

context store_up
begin

lemma server_start_opens:
  assumes "server_start E cfg parseDuration Getwd A fs (Inr db) = Inr sv"
  defines "a \<equiv> sv_svc sv"
  shows "\<not> start_writes k \<Longrightarrow> view (svc_db a) k = view db k"
    "seq_key (svc_user_seq a) = ''user:next_id'' \<and> seq_next (svc_user_seq a) = seq_next (stored_seq view db ''user:next_id'')"
    "seq_key (svc_submission_seq a) = ''submission:next_id'' \<and>
      seq_next (svc_submission_seq a) = seq_next (stored_seq view db ''submission:next_id'')"
    "seq_key (svc_course_seq a) = ''course:next_id''" "seq_key (svc_assignment_seq a) = ''assignment:next_id''"
    "claims_consistent view (svc_db a)" "claim_owner view (svc_db a) s = None"
    "\<exists>q chs. svc_hub a = (initial_hub (svc_db a) q (GetString cfg ''hub.token''))\<lparr>monitorChs := chs\<rparr>"
    "svc_tasks a = (case GetUnfinishedSubmissions E db of Inl e \<Rightarrow> [] | Inr ids \<Rightarrow> map (case_prod Task_runSubmission) ids)"
    "prefix ''running:'' k \<Longrightarrow> view (svc_db a) k = None"
    "(\<And>m. \<exists>raw. Marshal (C_Grader E) m = Inr raw) \<Longrightarrow>
      (\<And>k. prefix getGraderIdPrefix k \<Longrightarrow> view db k \<noteq> None \<Longrightarrow> \<exists>i. k = getGraderIdKey i) \<Longrightarrow>
      GetGraderById E (svc_db a) i = (case GetGraderById E db i of Inl e \<Rightarrow> Inl e
        | Inr g \<Rightarrow> Inr (if Grader_Status g = GraderStatusMetadata_Online
            then g\<lparr>Grader_Status := GraderStatusMetadata_Unknown\<rparr> else g))"
proof -
  obtain h base where h: "NewGraderHubService E db (GetString cfg ''hub.token'') = (hub_db h, Inr h)"
      and s: "NewAutograderServiceServer E h fs base (GetString cfg ''token.secret.session'')
       (GetString cfg ''token.secret.upload'') (GetString cfg ''token.secret.download'') = (svc_db a, Inr a)"
    using server_start_services [OF assms(1)] unfolding a_def by blast
  note hub = NewGraderHubService_opens [OF h]
  from s obtain b manifests users submissions courses assignments where
      b: "b = newAutograderService (h\<lparr>hub_db := svc_db a\<rparr>) fs base manifests users submissions courses assignments
        (GetString cfg ''token.secret.session'') (GetString cfg ''token.secret.upload'') (GetString cfg ''token.secret.download'')"
        "a = runUnfinishedSubmissions E b"
      and q: "\<forall>(q, key) \<in> {(users, ''user:next_id''), (submissions, ''submission:next_id''), (courses, ''course:next_id''),
        (assignments, ''assignment:next_id''), (manifests, ''manifest:next_id'')}.
        seq_key q = key \<and> seq_next q = seq_next (stored_seq view (hub_db h) key)"
      and v: "\<forall>k. k \<notin> set service_counters \<longrightarrow> view (svc_db a) k = view (hub_db h) k"
    by (rule NewAutograderServiceServer_opens)
  have keep: "view (svc_db a) k = view db k" if "\<not> start_writes k" for k
    using that hub(2) [OF that] v [rule_format, of k] by (simp add: start_writes_def)
  then show "\<not> start_writes k \<Longrightarrow> view (svc_db a) k = view db k" .
  have stored: "stored_seq view (hub_db h) k = stored_seq view db k" if "k \<in> set service_counters" for k
    using hub(6) [OF that] by (simp add: stored_seq_def)
  have same: "svc_user_seq a = svc_user_seq b" "svc_submission_seq a = svc_submission_seq b"
    "svc_course_seq a = svc_course_seq b" "svc_assignment_seq a = svc_assignment_seq b" "svc_hub a = svc_hub b"
    unfolding b(2) by (simp_all add: runUnfinishedSubmissions_queues split: sum.splits)
  have fields: "svc_user_seq a = users" "svc_submission_seq a = submissions" "svc_course_seq a = courses"
    "svc_assignment_seq a = assignments" "svc_hub a = h\<lparr>hub_db := svc_db a\<rparr>"
    unfolding same b(1) newAutograderService_def by simp_all
  show "seq_key (svc_user_seq a) = ''user:next_id'' \<and> seq_next (svc_user_seq a) = seq_next (stored_seq view db ''user:next_id'')"
    "seq_key (svc_submission_seq a) = ''submission:next_id'' \<and>
      seq_next (svc_submission_seq a) = seq_next (stored_seq view db ''submission:next_id'')"
    "seq_key (svc_course_seq a) = ''course:next_id''" "seq_key (svc_assignment_seq a) = ''assignment:next_id''"
    using q by (simp_all add: fields stored service_counters_def)
  have running: "view (svc_db a) k = view (hub_db h) k" if "prefix ''running:'' k \<or> prefix getGraderIdPrefix k" for k
    using that by (intro v [rule_format]) (auto simp: service_counters_def getGraderIdPrefix_def)
  show "claim_owner view (svc_db a) s = None"
    using hub(4) [of s] by (simp add: claim_owner_def running)
  show "claims_consistent view (svc_db a)"
    by (rule consistent_cong [OF hub(3)]) (simp add: running)
  show "\<exists>q chs. svc_hub a = (initial_hub (svc_db a) q (GetString cfg ''hub.token''))\<lparr>monitorChs := chs\<rparr>"
    by (subst fields(5), subst hub(5)) (auto simp: initial_hub_def)
  have "GetUnfinishedSubmissions E (svc_db b) = GetUnfinishedSubmissions E db"
  proof -
    have "svc_db b = svc_db a" using same(5) by (simp add: svc_db_def)
    then show ?thesis using iter_cong [of getUnfinishedPrefix "svc_db a" db] keep by (simp add: GetUnfinishedSubmissions_def)
  qed
  moreover have "svc_tasks b = []" by (simp add: b(1) newAutograderService_def)
  ultimately show "svc_tasks a = (case GetUnfinishedSubmissions E db of Inl e \<Rightarrow> []
      | Inr ids \<Rightarrow> map (case_prod Task_runSubmission) ids)"
    unfolding b(2) by (simp add: runUnfinishedSubmissions_queues split: sum.splits)
  show "prefix ''running:'' k \<Longrightarrow> view (svc_db a) k = None" using running hub(7) by simp
  show "GetGraderById E (svc_db a) i = (case GetGraderById E db i of Inl e \<Rightarrow> Inl e
      | Inr g \<Rightarrow> Inr (if Grader_Status g = GraderStatusMetadata_Online
          then g\<lparr>Grader_Status := GraderStatusMetadata_Unknown\<rparr> else g))"
    if "\<And>m. \<exists>raw. Marshal (C_Grader E) m = Inr raw"
      and "\<And>k. prefix getGraderIdPrefix k \<Longrightarrow> view db k \<noteq> None \<Longrightarrow> \<exists>i. k = getGraderIdKey i"
  proof -
    have "GetGraderById E (svc_db a) i = GetGraderById E (hub_db h) i"
      using pget_cong [of "svc_db a" "getGraderIdKey i" "hub_db h" "getGraderIdKey i"] running
      by (simp add: GetGraderById_def get_message_def getGraderIdKey_def)
    then show ?thesis using hub(8) [OF that] by simp
  qed
qed

end

subsection \<open>Properties\<close>

lemma user_inv_opened:
  assumes "user_inv E view db (stored_seq view db ''user:next_id'')"
    and "\<And>k. \<not> start_writes k \<Longrightarrow> view db' k = view db k"
    and "seq_key q = ''user:next_id''" and "seq_next q = seq_next (stored_seq view db ''user:next_id'')"
  shows "user_inv E view db' q"
  using assms by (simp add: user_inv_def)

lemma submission_inv_opened:
  assumes "submission_inv E view db (stored_seq view db ''submission:next_id'')"
    and "\<And>k. \<not> start_writes k \<Longrightarrow> view db' k = view db k"
    and "seq_key q = ''submission:next_id''" and "seq_next q = seq_next (stored_seq view db ''submission:next_id'')"
  shows "submission_inv E view db' q"
proof -
  have same: "view db' k = view db k" if "prefix (getUserAssignmentPrefix u a) k" for u a k
    using that by (simp add: assms(2))
  have index: "\<exists>i raw s. k = getUserAssignmentKey u a i \<and> view db' (submission_getIdKey i) = Some raw \<and>
      Unmarshal (C_Submission E) raw = Inr s \<and> u \<in> set (Submission_Submitters s) \<and> Submission_AssignmentId s = a"
    if "view db' k \<noteq> None" "prefix (getUserAssignmentPrefix u a) k" for u a k
  proof -
    have "view db k \<noteq> None" using that same [OF that(2)] by simp
    then show ?thesis using assms(1) that(2) assms(2) [of "submission_getIdKey _"] by (simp add: submission_inv_def)
  qed
  have "i < seq_next q" if "view db' (submission_getIdKey i) \<noteq> None" for i
    using that assms(1,4) assms(2) [of "submission_getIdKey i"] by (simp add: submission_inv_def)
  then show ?thesis unfolding submission_inv_def using index assms(3) by blast
qed

text \<open>
  C2: a restart recovers. Whatever the server was doing when it went down, once it started again on the same
  database no submission is claimed, the queue is empty and every submission that was still unfinished is run again;
  user and submission ids go on above all that are in use. Of the graders only the status changed, from online
  to unknown, so none counts as online. Apart from the counters of ids and the claims, of which none is left, no
  other key of the database changed.
\<close>

theorem restart_recovers:
  assumes "store_up E view" and "server_start E cfg parseDuration Getwd A fs (Inr db) = Inr sv"
    and "user_inv E view db (stored_seq view db ''user:next_id'')"
    and "submission_inv E view db (stored_seq view db ''submission:next_id'')"
    and "GetUnfinishedSubmissions E db = Inr ids" and "\<And>m. \<exists>raw. Marshal (C_Grader E) m = Inr raw"
    and "\<And>k. prefix getGraderIdPrefix k \<Longrightarrow> view db k \<noteq> None \<Longrightarrow> \<exists>i. k = getGraderIdKey i"
  defines "a \<equiv> sv_svc sv"
  shows "(\<forall>k. k \<notin> set (''grader:next_id'' # service_counters) \<and> \<not> prefix ''running:'' k \<and> (\<forall>i. k \<noteq> getGraderIdKey i) \<longrightarrow>
      view (svc_db a) k = view db k) \<and>
    (\<forall>k. prefix ''running:'' k \<longrightarrow> view (svc_db a) k = None) \<and>
    (\<forall>i. GetGraderById E (svc_db a) i = (case GetGraderById E db i of Inl e \<Rightarrow> Inl e
       | Inr g \<Rightarrow> Inr (if Grader_Status g = GraderStatusMetadata_Online
           then g\<lparr>Grader_Status := GraderStatusMetadata_Unknown\<rparr> else g))) \<and>
    user_inv E view (svc_db a) (svc_user_seq a) \<and> submission_inv E view (svc_db a) (svc_submission_seq a) \<and>
    claims_consistent view (svc_db a) \<and> (\<forall>s. GetGraderIdBySubmissionId E (svc_db a) s = Inl ErrNotFound) \<and>
    pending_ok (svc_hub a) \<and> queuedList (svc_hub a) = [] \<and> onlineGraders (svc_hub a) = [] \<and>
    svc_tasks a = map (case_prod Task_runSubmission) ids"
proof -
  note o = store_up.server_start_opens [OF assms(1,2), folded a_def]
  have "GetGraderIdBySubmissionId E (svc_db a) s = Inl ErrNotFound" for s
    by (simp add: store_up.owner_read [OF assms(1) o(6)] o(7))
  moreover have "pending_ok (svc_hub a)" "queuedList (svc_hub a) = []" "onlineGraders (svc_hub a) = []"
    using o(8) by (auto simp: initial_hub_def intro!: initial_pending_ok)
  moreover have "svc_tasks a = map (case_prod Task_runSubmission) ids" by (simp add: o(9) assms(5))
  ultimately show ?thesis
    using o(1,6,10) o(11) [OF assms(6,7)] user_inv_opened [OF assms(3) o(1)] submission_inv_opened [OF assms(4) o(1)] o(2,3)
    by (simp add: start_writes_def)
qed

text \<open>What \<open>--init\<close> leaves of an empty database.\<close>

context store_up
begin

lemma dbInit_fresh:
  assumes "view db = Map.empty" and "dbInit E hash rs now email db = (db', Inr pw)"
  obtains h raw where "hash pw = Inr h" "Marshal (C_User E) ((root_user email h)\<lparr>User_CreatedAt := Some now\<rparr>) = Inr raw"
    "view db' = [''user:next_id'' \<mapsto> Uint64ToBytes 11, getUserIdKey 1 \<mapsto> raw, getUsernameKey ''root'' \<mapsto> Uint64ToBytes 1,
      getEmailKey email \<mapsto> Uint64ToBytes 1, initializeMarker \<mapsto> []]"
proof -
  obtain db1 q h db2 q2 i where i: "NewKVUserRepository E db = (db1, Inr q)" "hash pw = Inr h"
      "CreateUser E db1 q now (root_user email h) = (db2, q2, Inr i)"
      "view db' = (view db2)(initializeMarker \<mapsto> [])"
    using dbInit_Inr [OF assms(2)] by metis
  obtain db0 where set: "pset E db ''user:next_id'' (Uint64ToBytes (1 + BatchSize)) = (db0, None)" using set_up by blast
  have q: "q = \<lparr>seq_key = ''user:next_id'', seq_next = 1, seq_limit = 11\<rparr>" "db1 = db0"
    using i(1) set by (simp_all add: NewKVUserRepository_def NewKVSequencer_def requestNextBatch_def get_absent assms(1) BatchSize_def)
  have v1: "view db1 = [''user:next_id'' \<mapsto> Uint64ToBytes 11]"
    using set_eq [OF set] by (simp add: q(2) assms(1) BatchSize_def)
  have none: "get_id E db1 (getUsernameKey ''root'') = Inl ErrNotFound"
    by (simp add: get_id_def get_absent v1)
  obtain raw where raw: "Marshal (C_User E) ((root_user email h)\<lparr>User_CreatedAt := Some now\<rparr>) = Inr raw"
      "view db2 = (view db1)(getUserIdKey 1 \<mapsto> raw, getUsernameKey ''root'' \<mapsto> Uint64ToBytes 1, getEmailKey email \<mapsto> Uint64ToBytes 1)"
    using i(3) none by (auto simp: CreateUser_def Let_def root_user_def GetNextId_in_batch q(1) batch_up
        split: sum.splits prod.splits option.splits dest!: commit_view)
  then show ?thesis using that [OF i(2) raw(1)] i(4) v1 by simp
qed

end

lemma no_rosters:
  assumes "\<And>k. prefix ''course:users:'' k \<or> prefix ''user:courses:'' k \<Longrightarrow> view db k = None"
  shows "rosters E view db Map.empty"
proof -
  have "view db (by_course x) = None" "view db (by_user x) = None" for x
    by (rule assms; simp)+
  then show ?thesis using assms by (auto simp: rosters_def member_index_def)
qed

text \<open>
  C27: from an empty directory to a server that can be used. \<open>--init\<close> on an empty database and then a start give a
  service at which root is stored as an administrator with the hash of the printed password, and exactly the passwords
  that match this hash log in as root. The token of such a login is accepted for three hours, as that of
  user 1, called root, an administrator. The state satisfies the invariants of the components: accounts, submissions,
  rosters, claims and the queue.
\<close>

theorem fresh_server_ready:
  assumes "store_up E view" and "view db = Map.empty" and "jwt_ok (lib_jwt L)" and "codec_ok (C_UserToken L)"
    and "dbInit E (GenerateFromPassword L) rs now email db = (db', Inr pw)"
    and "server_start E cfg parseDuration Getwd A fs (Inr db') = Inr sv"
  defines "a \<equiv> sv_svc sv"
  shows "(\<exists>h. GenerateFromPassword L pw = Inr h \<and>
      GetUserById E (svc_db a) 1 = Inr \<lparr>User_Username = ''root'', User_Password = Some h, User_Email = email,
        User_GithubId = [], User_Nickname = ''root'', User_StudentId = [], User_CreatedAt = Some now, User_IsAdmin = True\<rparr> \<and>
      (\<forall>t p. \<not> CompareHashAndPassword L h p \<longrightarrow>
        Login E L t a ''root'' p = (a, Inl (StatusErr InvalidArgument ''WRONG_PASSWORD''))) \<and>
      (\<forall>t p ss. CompareHashAndPassword L h p \<longrightarrow> signLoginToken L a t 1 ''root'' ''root'' True = Inr ss \<longrightarrow>
        Login E L t a ''root'' p = (a, Inr (1, ss)) \<and>
        (\<forall>t' req c. rq_bearer req = Inr ss \<and>
            t' < (t + UserTokenValidDuration) div nanosecond_per_second * nanosecond_per_second \<longrightarrow>
          (\<exists>c'. RequireLogin L a t' req c = (c', None) \<and> cx_user c' =
            Some \<lparr>UT_UserId = 1, UT_Username = ''root'', UT_Nickname = ''root'', UT_IsAdmin = True\<rparr>)))) \<and>
    user_inv E view (svc_db a) (svc_user_seq a) \<and> submission_inv E view (svc_db a) (svc_submission_seq a) \<and>
    roster_ok E view a \<and> claims_consistent view (svc_db a) \<and> pending_ok (svc_hub a) \<and> svc_tasks a = []"
proof -
  note st = store_up.axioms(1) [OF assms(1)]
  let ?u = "\<lambda>h. (root_user email h)\<lparr>User_CreatedAt := Some now\<rparr>"
  obtain h raw where h: "GenerateFromPassword L pw = Inr h" "Marshal (C_User E) (?u h) = Inr raw"
      and v: "view db' = [''user:next_id'' \<mapsto> Uint64ToBytes 11, getUserIdKey 1 \<mapsto> raw,
        getUsernameKey ''root'' \<mapsto> Uint64ToBytes 1, getEmailKey email \<mapsto> Uint64ToBytes 1, initializeMarker \<mapsto> []]"
    using store_up.dbInit_fresh [OF assms(1,2,5)] by metis
  note o = store_up.server_start_opens [OF assms(1,6), folded a_def]
  note dec = codec_okD [OF store.codec_user [OF st] h(2)]
  have read: "GetUserByUsername E (svc_db a) ''root'' = Inr (?u h, 1)"
  proof -
    have "view (svc_db a) (getUsernameKey ''root'') = Some (Uint64ToBytes 1)" "view (svc_db a) (getUserIdKey 1) = Some raw"
      using o(1) by (simp_all add: v)
    then show ?thesis
      using dec by (simp add: GetUserByUsername_def GetUserIdByUsername_def store_up.get_id_present [OF assms(1)]
          store_up.GetUserById_present [OF assms(1)])
  qed
  have keys: "''user:next_id'' \<noteq> getUserIdKey i" "''user:next_id'' \<noteq> getUsernameKey n" "''user:next_id'' \<noteq> getEmailKey m"
    "''user:next_id'' \<noteq> initializeMarker" "getEmailKey m \<noteq> initializeMarker" "initializeMarker \<noteq> getEmailKey m" for i n m
    by (simp_all add: user_key_defs initializeMarker_def)
  have users: "user_inv E view db' (stored_seq view db' ''user:next_id'')"
    using dec by (auto simp: user_inv_def stored_seq_def v keys root_user_def split: if_splits)
  have none: "view db' k = None" if "prefix ''submission:'' k \<or> prefix ''course:'' k \<or> prefix ''user:courses:'' k" for k
  proof -
    have "k \<noteq> ''user:next_id''" "k \<noteq> getUserIdKey 1" "k \<noteq> getUsernameKey ''root''" "k \<noteq> getEmailKey email"
      "k \<noteq> initializeMarker"
      using that by (auto simp: user_key_defs initializeMarker_def)
    then show ?thesis by (simp add: v)
  qed
  have subs: "submission_inv E view db' (stored_seq view db' ''submission:next_id'')"
  proof -
    have "view db' (submission_getIdKey i) = None" for i by (rule none) (simp add: submission_key_defs)
    moreover have "view db' k = None" if "prefix (getUserAssignmentPrefix u a) k" for u a k
      using that by (intro none) (auto simp: submission_key_defs prefix_def)
    ultimately show ?thesis by (auto simp: submission_inv_def stored_seq_def Let_def)
  qed
  have "roster_ok E view a"
  proof -
    have "view (svc_db a) k = None" if "prefix ''course:users:'' k \<or> prefix ''user:courses:'' k" for k
      using that o(1) [of k] none [of k] by (auto simp: prefix_def)
    then show ?thesis using no_rosters o(2,4,5) unfolding roster_ok_def by metis
  qed
  moreover have "svc_tasks a = []"
  proof -
    have "piter E db' (PrefixIterOptions getUnfinishedPrefix) = Inr []"
      by (rule store_up.iter_none [OF assms(1)]) (auto simp: getUnfinishedPrefix_def prefix_def intro!: none)
    then show ?thesis by (simp add: o(9) GetUnfinishedSubmissions_def)
  qed
  moreover have "pending_ok (svc_hub a)" using o(8) by (auto simp: initial_hub_def intro!: initial_pending_ok)
  moreover have "GetUserById E (svc_db a) 1 = Inr (?u h)" using GetUserBy_Inr(2) [OF read] .
  moreover have login: "Login E L t a ''root'' p = (a, if CompareHashAndPassword L h p then login_user L a t 1 (?u h)
      else Inl (StatusErr InvalidArgument ''WRONG_PASSWORD''))" for t p
    using Login_name [OF _ read, where L = L] by (simp add: GetPassword_def root_user_def)
  moreover have "login_user L a t 1 (?u h) = Inr (1, ss)" if "signLoginToken L a t 1 ''root'' ''root'' True = Inr ss" for t ss
    using that by (simp add: login_user_def root_user_def)
  moreover note login_user_session [OF assms(3,4) this, unfolded root_user_def]
  ultimately show ?thesis
    using h(1) o(2,3,6) user_inv_opened [OF users o(1)] submission_inv_opened [OF subs o(1)]
    by (simp add: root_user_def)
qed

subsection \<open>Examples\<close>

text \<open>A server that went down while grader 2, which was online, ran submission 7 of assignment 3.\<close>

definition crashed_db :: mem_db where
  "crashed_db = [(getGraderIdKey 2, decimal (to_nat small_grader)), (initializeMarker, []), (getUnfinishedKey 7, Uint64ToBytes 3),
     (getSubmissionGraderKey 7, Uint64ToBytes 2), (getGraderSubmissionKey 2 7, [])]"

lemma crashed_reads:
  "GetUnfinishedSubmissions mem_env crashed_db = Inr [(7, 3)]"
  "GetGraderIdBySubmissionId mem_env crashed_db 7 = Inr 2"
  "user_inv mem_env map_of crashed_db (stored_seq map_of crashed_db ''user:next_id'')"
  "submission_inv mem_env map_of crashed_db (stored_seq map_of crashed_db ''submission:next_id'')"
  "GetGraderById mem_env crashed_db 2 = Inr small_grader"
  "map_of crashed_db k \<noteq> None \<Longrightarrow> prefix getGraderIdPrefix k \<Longrightarrow> k = getGraderIdKey 2"
proof -
  obtain kvs where kvs: "piter mem_env crashed_db (PrefixIterOptions getUnfinishedPrefix) = Inr kvs"
    using mem.iter_up by blast
  have "set kvs = {(getUnfinishedKey 7, Uint64ToBytes 3)}"
    using mem.iter_prefix [OF kvs]
    by (auto simp: crashed_db_def initializeMarker_def submission_key_defs grader_key_defs split: if_splits)
  moreover have "distinct kvs"
    using mem.iter_sorted [OF kvs] strict_sorted_iff distinct_map by blast
  ultimately have "kvs = [(getUnfinishedKey 7, Uint64ToBytes 3)]"
    by (metis List.finite_set card.empty card.insert distinct_card empty_iff finite.emptyI length_0_conv length_Suc_conv list.set(1) list.set_intros(1) singletonD)
  then show "GetUnfinishedSubmissions mem_env crashed_db = Inr [(7, 3)]"
    using kvs by (simp add: GetUnfinishedSubmissions_def getUnfinishedKey_def)
  show "GetGraderIdBySubmissionId mem_env crashed_db 7 = Inr 2"
    by (simp add: GetGraderIdBySubmissionId_def get_id_def mem_get_def crashed_db_def initializeMarker_def
        submission_key_defs grader_key_defs)
  show "user_inv mem_env map_of crashed_db (stored_seq map_of crashed_db ''user:next_id'')"
    by (auto simp: user_inv_def stored_seq_def crashed_db_def Let_def user_key_defs grader_key_defs submission_key_defs
        initializeMarker_def split: if_splits)
  show "submission_inv mem_env map_of crashed_db (stored_seq map_of crashed_db ''submission:next_id'')"
    by (auto simp: submission_inv_def stored_seq_def crashed_db_def Let_def grader_key_defs submission_key_defs
        initializeMarker_def split: if_splits)
  show "GetGraderById mem_env crashed_db 2 = Inr small_grader"
    by (simp add: GetGraderById_def get_message_def mem_get_def crashed_db_def)
  show "map_of crashed_db k \<noteq> None \<Longrightarrow> prefix getGraderIdPrefix k \<Longrightarrow> k = getGraderIdKey 2"
    by (auto simp: crashed_db_def grader_key_defs submission_key_defs initializeMarker_def split: if_splits)
qed

theorem restart_recovers_witness:
  "\<exists>sv. server_start mem_env test_config (\<lambda>s. Some 15) (Inr ''.'') test_assets () (Inr crashed_db) = Inr sv \<and>
    GetGraderIdBySubmissionId mem_env crashed_db 7 = Inr 2 \<and>
    GetGraderIdBySubmissionId mem_env (svc_db (sv_svc sv)) 7 = Inl ErrNotFound \<and>
    GetGraderById mem_env crashed_db 2 = Inr small_grader \<and>
    GetGraderById mem_env (svc_db (sv_svc sv)) 2 = Inr (small_grader\<lparr>Grader_Status := GraderStatusMetadata_Unknown\<rparr>) \<and>
    svc_tasks (sv_svc sv) = [Task_runSubmission 7 3]"
proof -
  have "\<exists>sv. server_start mem_env test_config (\<lambda>s. Some 15) (Inr ''.'') test_assets () (Inr crashed_db) = Inr sv"
  proof (rule test_start_on)
    show "map_of crashed_db initializeMarker = Some []" by (simp add: crashed_db_def initializeMarker_def grader_key_defs)
    show "\<exists>i. k = getGraderIdKey i" if "prefix getGraderIdPrefix k" "map_of crashed_db k \<noteq> None" for k
      using crashed_reads(6) [OF that(2,1)] by blast
    have "map_of crashed_db k = None" if "k \<in> set (''grader:next_id'' # service_counters)" for k
    proof -
      have "k \<noteq> initializeMarker" "k \<noteq> getUnfinishedKey 7" "k \<noteq> getSubmissionGraderKey 7" "k \<noteq> getGraderSubmissionKey 2 7"
        "k \<noteq> getGraderIdKey 2"
        using that by (auto simp: service_counters_def initializeMarker_def submission_key_defs grader_key_defs)
      then show ?thesis by (simp add: crashed_db_def)
    qed
    then show "counter_ok map_of crashed_db k" if "k \<in> set (''grader:next_id'' # service_counters)" for k
      using that by (simp add: counter_ok_def)
  qed
  then obtain sv where sv: "server_start mem_env test_config (\<lambda>s. Some 15) (Inr ''.'') test_assets () (Inr crashed_db) = Inr sv"
    by blast
  have m: "\<exists>raw. Marshal (C_Grader mem_env) m = Inr raw" for m by simp
  have k: "\<exists>i. k = getGraderIdKey i" if "prefix getGraderIdPrefix k" "map_of crashed_db k \<noteq> None" for k
    using crashed_reads(6) [OF that(2,1)] by blast
  let ?d = "svc_db (sv_svc sv)"
  from restart_recovers [OF mem_store_up sv crashed_reads(3,4,1) m k]
  have "GetGraderIdBySubmissionId mem_env ?d 7 = Inl ErrNotFound" "svc_tasks (sv_svc sv) = [Task_runSubmission 7 3]"
    "GetGraderById mem_env ?d 2 = Inr (small_grader\<lparr>Grader_Status := GraderStatusMetadata_Unknown\<rparr>)"
    using crashed_reads(5) by (simp_all add: small_grader_def)
  then show ?thesis using sv crashed_reads(2,5) by blast
qed

theorem fresh_server_ready_witness:
  "\<exists>db sv ss c. dbInit mem_env (GenerateFromPassword test_lib) [1, 2, 10] 5 ''root@b.c'' [] = (db, Inr ''12a'') \<and>
    server_start mem_env test_config (\<lambda>s. Some 15) (Inr ''.'') test_assets (svc_fs (test_svc [])) (Inr db) = Inr sv \<and>
    Login mem_env test_lib 6 (sv_svc sv) ''root'' ''12a'' = (sv_svc sv, Inr (1, ss)) \<and>
    RequireLogin test_lib (sv_svc sv) 7 ((test_request (test_user 7) None None)\<lparr>rq_bearer := Inr ss\<rparr>) empty_ctx = (c, None) \<and>
    cx_user c = Some \<lparr>UT_UserId = 1, UT_Username = ''root'', UT_Nickname = ''root'', UT_IsAdmin = True\<rparr> \<and>
    Login mem_env test_lib 6 (sv_svc sv) ''root'' ''root'' =
      (sv_svc sv, Inl (StatusErr InvalidArgument ''WRONG_PASSWORD''))"
proof -
  have hash: "GenerateFromPassword test_lib = test_hash" by (rule ext) (simp add: test_hash_def)
  then obtain db where db: "dbInit mem_env (GenerateFromPassword test_lib) [1, 2, 10] 5 ''root@b.c'' [] = (db, Inr ''12a'')"
    using test_init by metis
  obtain raw where v: "map_of db = [''user:next_id'' \<mapsto> Uint64ToBytes 11, getUserIdKey 1 \<mapsto> raw,
      getUsernameKey ''root'' \<mapsto> Uint64ToBytes 1, getEmailKey ''root@b.c'' \<mapsto> Uint64ToBytes 1, initializeMarker \<mapsto> []]"
    using mem.dbInit_fresh [OF _ db] by auto
  have "\<exists>sv. server_start mem_env test_config (\<lambda>s. Some 15) (Inr ''.'') test_assets (svc_fs (test_svc [])) (Inr db) = Inr sv"
  proof (rule test_start_on)
    show "map_of db initializeMarker = Some []" by (simp add: v)
    have none: "map_of db k = None" if "prefix ''grader:'' k \<or> k \<in> set service_counters - {''user:next_id''}" for k
    proof -
      have "k \<noteq> ''user:next_id''" "k \<noteq> getUserIdKey 1" "k \<noteq> getUsernameKey ''root''"
        "k \<noteq> getEmailKey ''root@b.c''" "k \<noteq> initializeMarker"
        using that by (auto simp: user_key_defs initializeMarker_def service_counters_def)
      then show ?thesis by (simp add: v)
    qed
    show "\<exists>i. k = getGraderIdKey i" if "prefix getGraderIdPrefix k" "map_of db k \<noteq> None" for k
      using that none [of k] by (auto simp: getGraderIdPrefix_def prefix_def)
    have "''user:next_id'' \<noteq> getUserIdKey 1" "''user:next_id'' \<noteq> getUsernameKey ''root''"
      "''user:next_id'' \<noteq> getEmailKey ''root@b.c''" "''user:next_id'' \<noteq> initializeMarker"
      by (simp_all add: user_key_defs initializeMarker_def)
    then have "counter_ok map_of db ''user:next_id''" unfolding counter_ok_def by (simp add: v)
    then show "counter_ok map_of db k" if "k \<in> set (''grader:next_id'' # service_counters)" for k
      using that none [of k] by (cases "k = ''user:next_id''") (auto simp: counter_ok_def)
  qed
  then obtain sv where sv: "server_start mem_env test_config (\<lambda>s. Some 15) (Inr ''.'') test_assets (svc_fs (test_svc [])) (Inr db) = Inr sv"
    by blast
  have this_db: "map_of [] = Map.empty" by simp
  have jwt: "jwt_ok (lib_jwt test_lib)" "codec_ok (C_UserToken test_lib)" by (simp_all add: plain_jwt_ok)
  from fresh_server_ready [OF mem_store_up this_db jwt db sv] obtain h where h: "GenerateFromPassword test_lib ''12a'' = Inr h"
      "\<And>t p. \<not> CompareHashAndPassword test_lib h p \<Longrightarrow>
        Login mem_env test_lib t (sv_svc sv) ''root'' p = (sv_svc sv, Inl (StatusErr InvalidArgument ''WRONG_PASSWORD''))"
      "\<And>t p ss. CompareHashAndPassword test_lib h p \<Longrightarrow> signLoginToken test_lib (sv_svc sv) t 1 ''root'' ''root'' True = Inr ss \<Longrightarrow>
        Login mem_env test_lib t (sv_svc sv) ''root'' p = (sv_svc sv, Inr (1, ss)) \<and>
        (\<forall>t' req c. rq_bearer req = Inr ss \<and>
            t' < (t + UserTokenValidDuration) div nanosecond_per_second * nanosecond_per_second \<longrightarrow>
          (\<exists>c'. RequireLogin test_lib (sv_svc sv) t' req c = (c', None) \<and> cx_user c' =
            Some \<lparr>UT_UserId = 1, UT_Username = ''root'', UT_Nickname = ''root'', UT_IsAdmin = True\<rparr>))"
    by (elim conjE exE) blast
  define u where "u = \<lparr>User_Username = ''root'', User_Password = None, User_Email = [], User_GithubId = [],
    User_Nickname = ''root'', User_StudentId = [], User_CreatedAt = None, User_IsAdmin = True\<rparr>"
  obtain ss where "login_user test_lib (sv_svc sv) 6 1 u = Inr (1, ss)" using test_login_user by blast
  then have ss: "signLoginToken test_lib (sv_svc sv) 6 1 ''root'' ''root'' True = Inr ss"
    by (simp add: login_user_def u_def split: sum.splits)
  have match: "CompareHashAndPassword test_lib h ''12a''" "\<not> CompareHashAndPassword test_lib h ''root''"
    using h(1) by auto
  have t: "(7 :: int) < (6 + UserTokenValidDuration) div nanosecond_per_second * nanosecond_per_second"
    by (simp add: UserTokenValidDuration_def)
  let ?req = "(test_request (test_user 7) None None)\<lparr>rq_bearer := Inr ss\<rparr>"
  have bearer: "rq_bearer ?req = Inr ss" by simp
  obtain c where "RequireLogin test_lib (sv_svc sv) 7 ?req empty_ctx = (c, None)"
      "cx_user c = Some \<lparr>UT_UserId = 1, UT_Username = ''root'', UT_Nickname = ''root'', UT_IsAdmin = True\<rparr>"
    using h(3) [OF match(1) ss] bearer t by blast
  then show ?thesis using db sv h(2) [OF match(2)] h(3) [OF match(1) ss] by (intro exI conjI) auto
qed

end
