(* ===== verification/Delivery.thy ===== *)
theory Delivery
  imports Worker HubWork Server
begin

section \<open>From the container to the stored result\<close>

text \<open>
  The way of a result: the goroutines of a grading put reports into the reporter's buffer, the reporter sends
  them over one stream after another, and the hub stores what arrives from the grader that holds the claim. The three
  models are composed here: what one produced is what the next one takes.
\<close>

lemma filter_snocD:
  "filter P xs = ys @ [y] \<Longrightarrow> \<exists>us vs. xs = us @ y # vs \<and> filter P us = ys"
proof (induction xs arbitrary: ys)
  case (Cons x xs)
  show ?case
  proof (cases "P x \<and> ys = []")
    case True
    then show ?thesis using Cons.prems by (intro exI [of _ "[]"] exI [of _ xs]) simp
  next
    case False
    define zs where "zs = (if P x then tl ys else ys)"
    have "filter P xs = zs @ [y]" "filter P [x] @ zs = ys"
      using Cons.prems False by (auto simp: zs_def neq_Nil_conv)
    moreover obtain us vs where "xs = us @ y # vs" "filter P us = zs" using Cons.IH calculation(1) by blast
    ultimately show ?thesis by (intro exI [of _ "x # us"] exI [of _ vs]) (simp split: if_splits)
  qed
qed simp

subsection \<open>What leaves the grading\<close>

lemma grading_out:
  assumes "(grading_step i ^^ n) s s'" and "set (snd (snd (snd (snd s)))) \<union> set (notified (fst s)) \<subseteq> N \<union> {r. \<exists>c st. r = docker_report i c st}"
  shows "set (snd (snd (snd (snd s')))) \<union> set (notified (fst s')) \<subseteq> N \<union> {r. \<exists>c st. r = docker_report i c st}"
  using assms(1)
proof (induction n arbitrary: s')
  case (Suc n)
  then obtain t where t: "(grading_step i ^^ n) s t" "grading_step i t s'" by auto
  from t(2) Suc.IH [OF t(1)] show ?case by (induction rule: grading_step.induct) auto
qed (use assms(2) in simp)

lemma status_report_facts [simp]:
  "streamed (status_report st)" "has_brief (status_report st)" "GR_DockerMetadata (status_report st) = None"
  "GetStatus (GR_Brief (status_report st)) = st" "GR_Report (status_report st) = None"
  by (simp_all add: streamed_def has_brief_def status_report_def empty_grade_report_def GetStatus_def)

lemma final_report_facts:
  "streamed (final_report D R S fs r)" "has_brief (final_report D R S fs r)"
  "\<exists>b. GR_Brief (final_report D R S fs r) = Some b \<and>
    Brief_Status b \<in> {SubmissionStatus_Failed, SubmissionStatus_Finished, SubmissionStatus_Cancelled}"
  by (auto simp: final_report_def Let_def streamed_def has_brief_def brief_of_def status_report_def empty_grade_report_def
      split: prod.splits)

lemma docker_report_facts [simp]: "\<not> streamed (docker_report i c st)" "\<not> has_brief (docker_report i c st)"
  by (simp_all add: streamed_def docker_report_def has_brief_def)

lemma grading_streams:
  assumes "GradeSubmission_acts D R S basePath i sub config cpu mems cpus container fs = Inr acts"
    and "\<And>spec c. dk_ContainerCreate D spec = Inr c \<Longrightarrow> c \<noteq> []"
    and "(grading_step i ^^ n) (grading_start acts) ([], gh, cc, nc, out)"
  obtains fs1 r where "runDocker D S basePath i sub config cpu mems cpus fs = (fs1, r)"
    "filter streamed out = [status_report SubmissionStatus_Running, final_report D R S (container fs1) r]"
proof -
  obtain fs1 r where run: "runDocker D S basePath i sub config cpu mems cpus fs = (fs1, r)" by fastforce
  let ?F = "final_report D R S (container fs1) r"
  have acts: "acts = [Main_notify (status_report SubmissionStatus_Running)] @
      (if RR_delete r then [Main_container (RR_containerId r)] else []) @
      (if RR_started r then [Main_started] else []) @ [Main_close_channels, Main_notify ?F, Main_close_notify]"
    using assms(1) run by (simp add: GradeSubmission_acts_def split: if_splits)
  have "grading_inv [status_report SubmissionStatus_Running, ?F] (grading_start acts)"
    using GradeSubmission_acts_ok [OF assms(1)] assms(2) run by auto
  then have brief: "filter has_brief out = [status_report SubmissionStatus_Running, ?F]"
    using grading_run [OF assms(3)] by (auto simp: grading_inv_def)
  have "set out \<subseteq> {status_report SubmissionStatus_Running, ?F} \<union> {r. \<exists>c st. r = docker_report i c st}"
    using grading_out [OF assms(3), of "{status_report SubmissionStatus_Running, ?F}"]
    by (auto simp: grading_start_def acts)
  then have "filter streamed out = filter has_brief out"
    using final_report_facts(1,2) [of D R S "container fs1" r] by (intro filter_cong) fastforce+
  then show ?thesis using that run brief by simp
qed

subsection \<open>What the reporter delivers\<close>

lemma reporter_no_docker:
  assumes "(reporter_step F marshal upload i)\<^sup>*\<^sup>* s s'"
    and "\<forall>r \<in> set (rs_received s @ rs_way s). GR_DockerMetadata r = None"
  shows "\<forall>r \<in> set (rs_received s' @ rs_way s'). GR_DockerMetadata r = None"
  using assms
proof (induction rule: rtranclp_induct)
  case (step s1 s2)
  then have "\<forall>r \<in> set (rs_received s1 @ rs_way s1). GR_DockerMetadata r = None" by blast
  with step.hyps(2) show ?case
    by (induction rule: reporter_step.induct) (auto simp: empty_grade_report_def)
qed

lemma all_delivered:
  assumes "(reporter_step F marshal upload i)\<^sup>*\<^sup>* (reporter_start g fs NewReportBuffer) s"
    and "rs_phase s = Rep_finished" and "rs_lost s = []"
  shows "filter streamed (rs_received s) = filter streamed (rs_accepted s)"
    and "\<forall>r \<in> set (rs_received s). streamed r \<or> r = empty_grade_report"
proof -
  have inv: "reporter_inv s" using reporter_run_inv [OF assms(1) reporter_inv_start] .
  then obtain sent where sent: "rs_accepted s = sent @ rs_reports s @ rb_buffer (rs_buffer s)"
    "subseq (filter streamed (rs_received s @ rs_way s)) (filter streamed sent)"
    "mset (filter streamed sent) = mset (filter streamed (rs_received s @ rs_way s @ rs_lost s))"
    unfolding reporter_inv_def by blast
  have fin: "rs_reports s = []" "rb_buffer (rs_buffer s) = []" "rs_way s = []"
    using inv assms(2) by (simp_all add: reporter_inv_def)
  then have "mset (filter streamed sent) = mset (filter streamed (rs_received s))" using sent(3) assms(3) by simp
  then have "length (filter streamed (rs_received s)) = length (filter streamed sent)" by (metis size_mset)
  then show "filter streamed (rs_received s) = filter streamed (rs_accepted s)"
    using sent fin subseq_same_length by fastforce
  show "\<forall>r \<in> set (rs_received s). streamed r \<or> r = empty_grade_report"
    using reporter_no_docker [OF assms(1)] by (auto simp: reporter_start_def streamed_def)
qed

subsection \<open>What the hub stores\<close>

text \<open>The streams of one submission, one after the other, each with the reports that came over it.\<close>

definition hub_receives :: "'db env \<Rightarrow> u64 \<Rightarrow> u64 \<Rightarrow> 'db hub \<Rightarrow> grade_report list list \<Rightarrow> 'db hub" where
  "hub_receives E g i h chunks = foldl (\<lambda>h c. fst (GradeCallback E (Some g) h (map (\<lambda>r. (i, Some r)) c))) h chunks"

definition terminal :: "grade_report \<Rightarrow> bool" where
  "terminal r \<longleftrightarrow> GetStatus (GR_Brief r) \<in> {SubmissionStatus_Failed, SubmissionStatus_Finished, SubmissionStatus_Cancelled}"

text \<open>The grader holds the submission; afterwards the result is stored and the submission is nobody's.\<close>

definition held_by :: "'db env \<Rightarrow> ('db \<Rightarrow> bytes \<rightharpoonup> bytes) \<Rightarrow> u64 \<Rightarrow> u64 \<Rightarrow> 'db hub \<Rightarrow> bool" where
  "held_by E view g i h \<longleftrightarrow> claims_consistent view (hub_db h) \<and> GetGraderIdBySubmissionId E (hub_db h) i = Inr g"

definition stored_result ::
    "'db env \<Rightarrow> ('db \<Rightarrow> bytes \<rightharpoonup> bytes) \<Rightarrow> u64 \<Rightarrow> grade_report \<Rightarrow> 'db hub \<Rightarrow> bool" where
  "stored_result E view i r h \<longleftrightarrow>
     (\<forall>b. GR_Brief r = Some b \<longrightarrow> Repo_GetSubmissionBriefReport E (hub_db h) i = Inr b) \<and>
     (\<forall>rep. GR_Report r = Some rep \<longrightarrow> Repo_GetSubmissionReport E (hub_db h) i = Inr rep) \<and>
     GetGraderIdBySubmissionId E (hub_db h) i = Inl ErrNotFound \<and>
     view (hub_db h) (getUnfinishedKey i) = None \<and> runningList h i = None"

text \<open>The database after a report of the owner.\<close>

definition callback_db :: "'db env \<Rightarrow> u64 \<Rightarrow> grade_report \<Rightarrow> 'db \<Rightarrow> 'db" where
  "callback_db E i r db =
     (let db1 = (case GR_Brief r of None \<Rightarrow> db | Some b \<Rightarrow> fst (UpdateSubmissionBriefReport E db i b))
      in case GR_Report r of None \<Rightarrow> db1 | Some rep \<Rightarrow> fst (UpdateSubmissionReport E db1 i rep))"

lemma callback_recv_owner:
  assumes "GetGraderIdBySubmissionId E (hub_db h) i = Inr g"
  shows "\<exists>h1. GradeCallback_recv E g h i (Some r) = (h1, if terminal r then Callback_Finished else Callback_Next) \<and>
    hub_db h1 = callback_db E i r (hub_db h)"
  using assms
  by (simp add: GradeCallback_recv_def callback_db_def terminal_def Let_def sendGradeReport_def
      split: if_splits)

context store_up
begin

lemma callback_db_other:
  assumes "k \<noteq> report_getIdKey i" and "k \<noteq> report_getBriefIdKey i"
  shows "view (callback_db E i r db) k = view db k"
  by (auto simp: callback_db_def Let_def UpdateSubmissionReport_def UpdateSubmissionBriefReport_def
      set_message_other [OF surjective_pairing assms(1)] set_message_other [OF surjective_pairing assms(2)]
      split: option.splits)

lemma callback_db_running: "prefix ''running:'' k \<Longrightarrow> view (callback_db E i r db) k = view db k"
  by (rule callback_db_other) (auto simp: submission_key_defs)

lemma callback_db_consistent:
  "claims_consistent view db \<Longrightarrow> claims_consistent view (callback_db E i r db)"
  by (rule consistent_cong) (simp_all add: callback_db_running)

lemma set_message_reads:
  assumes "Marshal c m = Inr raw" and "Unmarshal c raw = Inr m"
  shows "get_message E c (fst (set_message E c db k m)) k = Inr m"
proof -
  obtain db' where "pset E db k raw = (db', None)" using set_up by blast
  then show ?thesis using assms set_eq [of db k raw] get_message_present [of _ k raw c m] by (simp add: set_message_def)
qed

lemma callback_db_reads:
  assumes "\<forall>b. \<exists>raw. Marshal (C_Brief E) b = Inr raw" and "\<forall>r. \<exists>raw. Marshal (C_Report E) r = Inr raw"
  shows "GR_Brief r = Some b \<Longrightarrow> Repo_GetSubmissionBriefReport E (callback_db E i r db) i = Inr b"
    "GR_Report r = Some rep \<Longrightarrow> Repo_GetSubmissionReport E (callback_db E i r db) i = Inr rep"
proof -
  obtain raw where raw: "Marshal (C_Brief E) b = Inr raw" using assms(1) by blast
  note brief = set_message_reads [OF raw codec_okD [OF codec_brief raw]]
  show "Repo_GetSubmissionBriefReport E (callback_db E i r db) i = Inr b" if "GR_Brief r = Some b"
  proof (cases "GR_Report r")
    case None
    then show ?thesis
      using that brief by (simp add: callback_db_def Repo_GetSubmissionBriefReport_def UpdateSubmissionBriefReport_def)
  next
    case (Some rep)
    have "get_message E (C_Brief E) (fst (UpdateSubmissionReport E db1 i rep)) (report_getBriefIdKey i) =
        get_message E (C_Brief E) db1 (report_getBriefIdKey i)" for db1
    proof -
      have "view (fst (UpdateSubmissionReport E db1 i rep)) (report_getBriefIdKey i) = view db1 (report_getBriefIdKey i)"
        by (simp add: UpdateSubmissionReport_def set_message_other [OF surjective_pairing])
      from pget_cong [OF this] show ?thesis by (simp add: get_message_def)
    qed
    then show ?thesis
      using that Some brief
      by (simp add: callback_db_def Repo_GetSubmissionBriefReport_def UpdateSubmissionBriefReport_def)
  qed
  obtain raw' where raw': "Marshal (C_Report E) rep = Inr raw'" using assms(2) by blast
  show "Repo_GetSubmissionReport E (callback_db E i r db) i = Inr rep" if "GR_Report r = Some rep"
    using that set_message_reads [OF raw' codec_okD [OF codec_report raw']]
    by (simp add: callback_db_def Repo_GetSubmissionReport_def UpdateSubmissionReport_def)
qed

lemma progress_report:
  assumes "held_by E view g i h" and "\<not> terminal r" and "GradeCallback_recv E g h i (Some r) = (h1, res)"
  shows "res = Callback_Next" "held_by E view g i h1"
proof -
  have h1: "res = Callback_Next" "hub_db h1 = callback_db E i r (hub_db h)"
    using callback_recv_owner [of E h i g r] assms by (auto simp: held_by_def)
  then show "res = Callback_Next" by simp
  have "GetGraderIdBySubmissionId E (hub_db h1) i = GetGraderIdBySubmissionId E (hub_db h) i"
    unfolding GetGraderIdBySubmissionId_def by (rule get_id_other) (simp add: h1(2) callback_db_running)
  then show "held_by E view g i h1"
    using assms(1) callback_db_consistent by (simp add: held_by_def h1(2))
qed

lemma final_stores:
  assumes "held_by E view g i h" and "terminal r" and "GradeCallback_recv E g h i (Some r) = (h1, res)"
    and "\<forall>b. \<exists>raw. Marshal (C_Brief E) b = Inr raw" and "\<forall>r. \<exists>raw. Marshal (C_Report E) r = Inr raw"
  shows "res = Callback_Finished" "stored_result E view i r (onSubmissionFinished E h1 i)"
proof -
  have h1: "res = Callback_Finished" "hub_db h1 = callback_db E i r (hub_db h)"
    using callback_recv_owner [of E h i g r] assms(1-3) by (auto simp: held_by_def)
  then show "res = Callback_Finished" by simp
  have "claims_consistent view (hub_db h1)" using assms(1) callback_db_consistent by (simp add: held_by_def h1(2))
  note f = finished_view [OF this] 
  note same = f(1,2) [of i i, unfolded h1(2)]
  have reads: "Repo_GetSubmissionBriefReport E (hub_db (onSubmissionFinished E h1 i)) i =
      Repo_GetSubmissionBriefReport E (callback_db E i r (hub_db h)) i"
    "Repo_GetSubmissionReport E (hub_db (onSubmissionFinished E h1 i)) i =
      Repo_GetSubmissionReport E (callback_db E i r (hub_db h)) i"
    using pget_cong [OF same(1)] pget_cong [OF same(2)]
    by (simp_all add: Repo_GetSubmissionBriefReport_def Repo_GetSubmissionReport_def get_message_def)
  have "runningList (onSubmissionFinished E h1 i) i = None" by (simp add: terminal_frame)
  then show "stored_result E view i r (onSubmissionFinished E h1 i)"
    using f(4) [of i] owner_none [OF f(3)] callback_db_reads [OF assms(4,5)]
    by (simp add: stored_result_def reads)
qed

lemma chunk_progress:
  assumes "held_by E view g i h" and "\<forall>r \<in> set us. \<not> terminal r"
  shows "\<exists>h1. held_by E view g i h1 \<and>
    (\<forall>vs. GradeCallback_loop E g h (map (\<lambda>r. (i, Some r)) (us @ vs)) = GradeCallback_loop E g h1 (map (\<lambda>r. (i, Some r)) vs))"
  using assms
proof (induction us arbitrary: h)
  case (Cons r us)
  obtain h1 res where recv: "GradeCallback_recv E g h i (Some r) = (h1, res)" by force
  have "\<not> terminal r" using Cons.prems(2) by simp
  note p = progress_report [OF Cons.prems(1) this recv]
  from Cons.IH [OF p(2)] Cons.prems(2) show ?case by (simp add: recv p(1))
qed auto

lemma chunk_final:
  assumes "held_by E view g i h" and "\<forall>r \<in> set us. \<not> terminal r" and "terminal r"
    and "\<forall>b. \<exists>raw. Marshal (C_Brief E) b = Inr raw" and "\<forall>r. \<exists>raw. Marshal (C_Report E) r = Inr raw"
  shows "stored_result E view i r (fst (GradeCallback_loop E g h (map (\<lambda>r. (i, Some r)) (us @ r # vs))))"
proof -
  obtain h1 where h1: "held_by E view g i h1" "\<And>vs. GradeCallback_loop E g h (map (\<lambda>r. (i, Some r)) (us @ vs)) =
      GradeCallback_loop E g h1 (map (\<lambda>r. (i, Some r)) vs)"
    using chunk_progress [OF assms(1,2)] by blast
  obtain h2 res where recv: "GradeCallback_recv E g h1 i (Some r) = (h2, res)" by force
  note f = final_stores [OF h1(1) assms(3) recv assms(4,5)]
  show ?thesis unfolding h1(2) using f by (simp add: recv)
qed

lemma chunks_refused:
  assumes "GetGraderIdBySubmissionId E (hub_db h) i = Inl e"
  shows "hub_receives E g i h chunks = h"
proof (induction chunks)
  case (Cons c chunks)
  have "fst (GradeCallback_loop E g h (map (\<lambda>r. (i, Some r)) c)) = h"
    using assms by (cases c) (simp_all add: GradeCallback_recv_def)
  then show ?case using Cons by (simp add: hub_receives_def GradeCallback_def)
qed (simp add: hub_receives_def)

lemma hub_receives_final:
  assumes "held_by E view g i h" and "\<forall>r \<in> set us. \<not> terminal r" and "terminal r"
    and "\<forall>b. \<exists>raw. Marshal (C_Brief E) b = Inr raw" and "\<forall>r. \<exists>raw. Marshal (C_Report E) r = Inr raw"
    and "concat chunks = us @ r # vs"
  shows "stored_result E view i r (hub_receives E g i h chunks)"
  using assms(1,2,6)
proof (induction chunks arbitrary: h us)
  case (Cons c chunks)
  let ?h = "fst (GradeCallback E (Some g) h (map (\<lambda>r. (i, Some r)) c))"
  have rest: "hub_receives E g i h (c # chunks) = hub_receives E g i ?h chunks" by (simp add: hub_receives_def)
  from Cons.prems(3) consider us' where "us = c @ us'" "concat chunks = us' @ r # vs"
    | ws where "c = us @ r # ws"
    by (auto simp: append_eq_append_conv2 append_eq_Cons_conv)
  then show ?case
  proof cases
    case 1
    obtain h1 where h1: "held_by E view g i h1" "GradeCallback_loop E g h (map (\<lambda>r. (i, Some r)) c) = (h1, None)"
      using chunk_progress [OF Cons.prems(1), of c] Cons.prems(2) 1(1) by (metis (no_types, lifting) Un_iff append_Nil2
          GradeCallback_loop.simps(1) list.simps(8) set_append)
    from Cons.IH [OF h1(1) _ 1(2)] show ?thesis
      using Cons.prems(2) 1(1) h1(2) by (simp add: rest GradeCallback_def)
  next
    case 2
    have "stored_result E view i r ?h"
      using chunk_final [OF Cons.prems(1,2) assms(3-5)] by (simp add: 2 GradeCallback_def)
    then show ?thesis unfolding rest using chunks_refused by (simp add: stored_result_def)
  qed
qed simp

end

subsection \<open>Properties\<close>

text \<open>
  C1: the result of a grading is what the server stores. A grading runs to its end, its reports go through the
  reporter, which finishes without losing one on the way, and the hub takes what arrives from the grader that
  holds the submission, however the reports are spread over streams. Then the stored result and the stored
  report are those the grading computed from the run of its container, and the submission is neither running, claimed
  nor marked unfinished. This is for a store that does not fail and for reports that can be encoded: protobuf
  refuses strings that are not well-formed UTF-8, so the outputs of the tests have to be.
\<close>

theorem graded_result_is_stored:
  assumes "store_up E view"
    and "GradeSubmission_acts D R S basePath i sub config cpu mems cpus container fs = Inr acts"
    and "\<forall>spec c. dk_ContainerCreate D spec = Inr c \<longrightarrow> c \<noteq> []"
    and "(grading_step i ^^ n) (grading_start acts) ([], gh, cc, nc, out)"
    and "(reporter_step F marshal upload i)\<^sup>*\<^sup>* (reporter_start w fs0 NewReportBuffer) s"
    and "rs_phase s = Rep_finished" and "rs_accepted s = out" and "rs_lost s = []"
    and "held_by E view g i h" and "concat chunks = rs_received s"
    and "\<forall>b. \<exists>raw. Marshal (C_Brief E) b = Inr raw" and "\<forall>r. \<exists>raw. Marshal (C_Report E) r = Inr raw"
  shows "\<exists>fs1 r. runDocker D S basePath i sub config cpu mems cpus fs = (fs1, r) \<and>
    has_brief (final_report D R S (container fs1) r) \<and>
    stored_result E view i (final_report D R S (container fs1) r) (hub_receives E g i h chunks)"
proof -
  obtain fs1 r where run: "runDocker D S basePath i sub config cpu mems cpus fs = (fs1, r)"
      and out: "filter streamed out = [status_report SubmissionStatus_Running, final_report D R S (container fs1) r]"
    using grading_streams [OF assms(2) _ assms(4)] assms(3) by metis
  let ?F = "final_report D R S (container fs1) r"
  have rec: "filter streamed (rs_received s) = [status_report SubmissionStatus_Running] @ [?F]"
    using all_delivered(1) [OF assms(5,6,8)] out by (simp add: assms(7))
  obtain us vs where split: "rs_received s = us @ ?F # vs"
      "filter streamed us = [status_report SubmissionStatus_Running]"
    using filter_snocD [OF rec] by blast
  have "\<not> terminal x" if "x \<in> set us" for x
  proof (cases "streamed x")
    case True
    then have "x \<in> set (filter streamed us)" using that by simp
    then have "x = status_report SubmissionStatus_Running" unfolding split(2) by simp
    then show ?thesis by (simp add: terminal_def)
  next
    case False
    then have "x = empty_grade_report" using all_delivered(2) [OF assms(5,6,8)] that split(1) by auto
    then show ?thesis by (simp add: terminal_def empty_grade_report_def GetStatus_def)
  qed
  moreover have "terminal ?F" using final_report_facts(3) [of D R S "container fs1" r] by (auto simp: terminal_def GetStatus_def)
  ultimately have "stored_result E view i ?F (hub_receives E g i h chunks)"
    using store_up.hub_receives_final [OF assms(1,9) _ _ assms(11,12)] assms(10) split(1) by metis
  then show ?thesis using run by (intro exI [of _ fs1] exI [of _ r]) (simp add: final_report_facts(2))
qed

subsection \<open>A run from end to end\<close>

text \<open>An image that does not exist: the grading fails before a container is created.\<close>

definition no_image :: docker where
  "no_image = test_docker\<lparr>dk_ImagePull := (\<lambda>_. Inl (ErrOther ''no such image''))\<rparr>"

definition failed_run :: grade_report where
  "failed_run = final_report no_image test_reader map_os (write_results Map.empty)
     (snd (runDocker no_image map_os ''w'' 7 test_sub (DockerGrader.test_config 60) None [] [] Map.empty))"

lemma failed_grading:
  "GradeSubmission_acts no_image test_reader map_os ''w'' 7 test_sub (DockerGrader.test_config 60) None [] [] write_results
    Map.empty = Inr [Main_notify (status_report SubmissionStatus_Running), Main_close_channels, Main_notify failed_run,
      Main_close_notify]"
  "GR_Brief failed_run = Some \<lparr>Brief_Score = 0, Brief_MaxScore = 0, Brief_ExitCode = 0,
     Brief_InternalError = ErrPullImage, Brief_Status = SubmissionStatus_Failed\<rparr>"
  by (simp_all add: GradeSubmission_acts_def failed_run_def runDocker_def no_image_def test_docker_def
      call_failed_def no_result_def final_report_def read_results_def container_log_def Let_def brief_of_def empty_report_def
      ErrPullImage_def context_Canceled_def)

lemma failed_grading_run:
  "(grading_step 7 ^^ 4) (grading_start [Main_notify (status_report SubmissionStatus_Running), Main_close_channels,
      Main_notify failed_run, Main_close_notify])
    ([], Helper_wait, True, True, [status_report SubmissionStatus_Running, failed_run])"
proof -
  let ?R = "status_report SubmissionStatus_Running"
  have "(grading_step 7 ^^ Suc (Suc (Suc (Suc 0)))) (grading_start [Main_notify ?R, Main_close_channels,
      Main_notify failed_run, Main_close_notify]) ([], Helper_wait, True, True, ([] @ [?R]) @ [failed_run])"
    unfolding grading_start_def
    by (rule relpowp_Suc_I, rule relpowp_Suc_I, rule relpowp_Suc_I, rule relpowp_Suc_I, rule relpowp_0_I,
        rule grading_step.main_notify, rule grading_step.close_channels, rule grading_step.main_notify,
        rule grading_step.close_notify)
  then show ?thesis by (simp add: eval_nat_numeral)
qed

lemma failed_report_sent:
  "\<exists>s. (reporter_step test_files (\<lambda>_. Inr []) (\<lambda>_ fs. fs) 7)\<^sup>*\<^sup>* (reporter_start new_worker Map.empty NewReportBuffer) s \<and>
    rs_phase s = Rep_finished \<and> rs_accepted s = [status_report SubmissionStatus_Running, failed_run] \<and> rs_lost s = [] \<and>
    rs_received s = [status_report SubmissionStatus_Running, failed_run]"
proof -
  note start = reporter_start_def NewReportBuffer_def buffer_Send_def buffer_Close_def
  have docker: "GR_DockerMetadata failed_run = None" "GetStatus (GR_Brief failed_run) = SubmissionStatus_Failed"
    by (simp_all add: failed_grading(2) GetStatus_def)
      (simp add: failed_run_def final_report_facts(1) [unfolded streamed_def, THEN conjunct1])
  show ?thesis
    apply (rule step_ex, rule reporter_step.produce [where r = "status_report SubmissionStatus_Running"])
    apply (rule step_ex, rule reporter_step.produce [where r = failed_run])
    apply (rule step_ex, rule reporter_step.close_buffer)
    apply (rule step_ex, rule reporter_step.open_stream)
     apply (simp add: start)
    apply (rule step_ex, rule reporter_step.drain)
       apply (simp add: start)
      apply (simp add: start)
     apply (simp add: start waitAndDrain_def)
    apply (rule step_ex, rule reporter_step.send)
       apply simp
      apply simp
     apply (simp add: sendReport_def Let_def is_final_def)
    apply (rule step_ex, rule reporter_step.send)
       apply simp
      apply simp
     apply (simp add: sendReport_def Let_def docker)
    apply (rule step_ex, rule reporter_step.deliver)
     apply (simp add: start docker)
    apply (rule step_ex, rule reporter_step.deliver)
     apply simp
    apply (rule step_ex, rule reporter_step.complete [where t = False and pending = "[]" and b = "\<lparr>rb_buffer = [], rb_closed = True\<rparr>"])
        apply simp
       apply simp
      apply (simp add: waitAndDrain_def start)
     apply (simp add: start)
    apply (rule exI, rule conjI, rule rtranclp.rtrancl_refl)
    apply (simp add: start)
    done
qed

theorem graded_result_is_stored_witness:
  "\<exists>h. h = hub_receives mem_env 1 7 running_hub [[status_report SubmissionStatus_Running], [failed_run]] \<and>
    Repo_GetSubmissionBriefReport mem_env (hub_db h) 7 = Inr \<lparr>Brief_Score = 0, Brief_MaxScore = 0, Brief_ExitCode = 0,
      Brief_InternalError = ErrPullImage, Brief_Status = SubmissionStatus_Failed\<rparr> \<and>
    GetGraderIdBySubmissionId mem_env (hub_db h) 7 = Inl ErrNotFound"
proof -
  obtain s where s: "(reporter_step test_files (\<lambda>_. Inr []) (\<lambda>_ fs. fs) 7)\<^sup>*\<^sup>* (reporter_start new_worker Map.empty NewReportBuffer) s"
      "rs_phase s = Rep_finished" "rs_accepted s = [status_report SubmissionStatus_Running, failed_run]" "rs_lost s = []"
      "rs_received s = [status_report SubmissionStatus_Running, failed_run]"
    using failed_report_sent by blast
  have held: "held_by mem_env map_of 1 7 running_hub" using running_hub_claims by (simp add: held_by_def)
  have created: "\<forall>spec c. dk_ContainerCreate no_image spec = Inr c \<longrightarrow> c \<noteq> []"
    by (auto simp: no_image_def test_docker_def)
  have chunks: "concat [[status_report SubmissionStatus_Running], [failed_run]] = rs_received s" by (simp add: s(5))
  have total: "\<forall>b. \<exists>raw. Marshal (C_Brief mem_env) b = Inr raw" "\<forall>r. \<exists>raw. Marshal (C_Report mem_env) r = Inr raw"
    by (simp_all add: mem_env_def)
  obtain fs1 r where "runDocker no_image map_os ''w'' 7 test_sub (DockerGrader.test_config 60) None [] [] Map.empty = (fs1, r)"
      "stored_result mem_env map_of 7 (final_report no_image test_reader map_os (write_results fs1) r)
        (hub_receives mem_env 1 7 running_hub [[status_report SubmissionStatus_Running], [failed_run]])"
    using graded_result_is_stored [OF mem_store_up failed_grading(1) created failed_grading_run s(1-4) held chunks total] by blast
  moreover have "fs1 = Map.empty" if "runDocker no_image map_os ''w'' 7 test_sub (DockerGrader.test_config 60) None [] [] Map.empty = (fs1, r)" for fs1 r
    using that by (simp add: runDocker_def no_image_def)
  ultimately have "stored_result mem_env map_of 7 failed_run
        (hub_receives mem_env 1 7 running_hub [[status_report SubmissionStatus_Running], [failed_run]])"
    by (metis failed_run_def snd_conv)
  then show ?thesis by (simp add: stored_result_def failed_grading(2))
qed

end
