(* ===== verification/Session.thy ===== *)
theory Session
  imports Worker Server
begin

section \<open>The loops of the grader program: cmd/autograder-grader/main.go\<close>

text \<open>
  Starting the grader from its configuration, the loop that registers with the hub and serves one heartbeat stream
  after another, and the goroutine that copies the log of a container to the hub. Both loops are step relations:
  what the hub, Docker and the other goroutines do between two steps is left open.
\<close>

subsection \<open>Starting\<close>

record grader_config = config +
  GetUint :: "string \<Rightarrow> u64"

definition grader_defaults :: "string option \<Rightarrow> (string \<times> string) list" where
  "grader_defaults hostname =
     [(''hub.address'', ''localhost:9999''),
      (''grader.hostname'', case hostname of None \<Rightarrow> ''localhost'' | Some h \<Rightarrow> h),
      (''grader.concurrency'', ''5''), (''grader.heartbeat-interval'', ''10s''), (''grader.tags'', ''docker,x64''),
      (''fs.http.url'', ''http://localhost:19999''), (''fs.http.timeout'', ''1m''), (''fs.local.dir'', ''grader''),
      (''metrics.port'', ''39999''), (''metrics.enabled'', ''true''), (''metrics.path'', ''/metrics''),
      (''log.level'', ''info''), (''log.file'', ''grader.log''), (''log.development'', ''false'')]"

text \<open>\<open>cli\<close> is whether the Docker client could be made from the environment.\<close>

definition NewDockerProgrammingGrader :: "error option \<Rightarrow> nat \<Rightarrow> error + docker_grader" where
  "NewDockerProgrammingGrader cli concurrency =
     (case cli of Some e \<Rightarrow> Inl e | None \<Rightarrow> Inr \<lparr>dg_concurrency = concurrency, dg_running = 0\<rparr>)"

record grader_program =
  gp_worker :: worker
  gp_docker :: docker_grader
  gp_basePath :: string
  gp_hubAddress :: string
  gp_token :: string
  gp_fsURL :: string
  gp_fsToken :: string
  gp_heartbeatInterval :: int
  gp_httpTimeout :: int
  gp_register :: grader_info
  gp_metrics :: "(int \<times> string) option"

text \<open>
  \<open>main\<close> up to the registration: an error is the message of the fatal log entry. A configuration file that is
  missing or cannot be read is only logged. \<open>dialled\<close> is whether the target of the hub's address is valid.
  A concurrency that is negative as an \<open>int\<close> lets nothing run, like 0.
\<close>

definition grader_start ::
    "grader_config \<Rightarrow> (string \<Rightarrow> int option) \<Rightarrow> error + string \<Rightarrow> error option \<Rightarrow> bool \<Rightarrow> string + grader_program" where
  "grader_start cfg parseDuration Getwd cli dialled =
     (case parseDuration (GetString cfg ''grader.heartbeat-interval'') of
        None \<Rightarrow> Inl ''Grader.HeartbeatInterval.Invalid''
      | Some interval \<Rightarrow>
     (case Getwd of
        Inl e \<Rightarrow> Inl ''OS.Getwd''
      | Inr cwd \<Rightarrow>
     (case parseDuration (GetString cfg ''fs.http.timeout'') of
        None \<Rightarrow> Inl ''HTTP.Timeout.Invalid''
      | Some timeout \<Rightarrow>
     (let concurrency = GetUint cfg ''grader.concurrency''
      in case NewDockerProgrammingGrader cli (nat (sint concurrency)) of
           Inl e \<Rightarrow> Inl ''Docker.Client''
         | Inr d \<Rightarrow>
             if \<not> dialled then Inl ''Hub.Dial''
             else Inr \<lparr>gp_worker = new_worker, gp_docker = d,
               gp_basePath = path_Join [cwd, GetString cfg ''fs.local.dir''],
               gp_hubAddress = GetString cfg ''hub.address'', gp_token = GetString cfg ''hub.token'',
               gp_fsURL = GetString cfg ''fs.http.url'', gp_fsToken = GetString cfg ''fs.http.token'',
               gp_heartbeatInterval = interval, gp_httpTimeout = timeout,
               gp_register = registerRequest (GetString cfg ''grader.tags'') (GetString cfg ''grader.hostname'') concurrency,
               gp_metrics = (if GetBool cfg ''metrics.enabled''
                 then Some (GetInt cfg ''metrics.port'', GetString cfg ''metrics.path'') else None)\<rparr>))))"

subsection \<open>Registration and heartbeat streams\<close>

text \<open>
  The phases of \<open>WorkLoop\<close>: registering, removing the containers of the last life, opening a heartbeat stream, and
  receiving from it. Streams are numbered; each has a goroutine that sends heartbeats until a send fails or the
  context of the stream is cancelled. \<open>ss_left\<close> is what the last registration found to remove; \<open>ss_removed\<close> and
  \<open>ss_deleted\<close> are the calls made, and \<open>ss_tasks\<close> the goroutines started for requests, with the stream
  they came from.
\<close>

datatype loop_phase = Loop_register | Loop_clear "(string \<times> bytes) list" | Loop_connect | Loop_stream

record session =
  ss_worker :: worker
  ss_phase :: loop_phase
  ss_stream :: nat
  ss_beating :: "nat set"
  ss_cancelled :: "nat set"
  ss_heartbeats :: "(nat \<times> u64) list"
  ss_left :: "(string \<times> bytes) list"
  ss_removed :: "string list"
  ss_deleted :: "(u64 \<times> bytes) list"
  ss_tasks :: "(nat \<times> worker_task) list"

definition session_start :: "worker \<Rightarrow> session" where
  "session_start g = \<lparr>ss_worker = g, ss_phase = Loop_register, ss_stream = 0, ss_beating = {}, ss_cancelled = {},
     ss_heartbeats = [], ss_left = [], ss_removed = [], ss_deleted = [], ss_tasks = []\<rparr>"

text \<open>
  The removals run side by side, each followed by the deletion of its metadata, whatever Docker and the hub answer.
  The other goroutines may change the worker, but for its identity.
\<close>

inductive loop_step :: "(bytes \<Rightarrow> error + docker_metadata) \<Rightarrow> session \<Rightarrow> session \<Rightarrow> bool"
  for unmarshal :: "bytes \<Rightarrow> error + docker_metadata" where
  register_again: "ss_phase s = Loop_register \<Longrightarrow>
    register_attempt resp metadatas (ss_worker s) = (g, None) \<Longrightarrow>
    loop_step unmarshal s (s\<lparr>ss_worker := g\<rparr>)"
| registered: "ss_phase s = Loop_register \<Longrightarrow>
    register_attempt resp metadatas (ss_worker s) = (g, Some kvs) \<Longrightarrow>
    loop_step unmarshal s (s\<lparr>ss_worker := g, ss_left := old_containers unmarshal kvs,
      ss_phase := Loop_clear (old_containers unmarshal kvs)\<rparr>)"
| clear: "ss_phase s = Loop_clear (xs @ (containerId, key) # ys) \<Longrightarrow>
    loop_step unmarshal s (s\<lparr>ss_phase := Loop_clear (xs @ ys), ss_removed := ss_removed s @ [containerId],
      ss_deleted := ss_deleted s @ [(graderId (ss_worker s), key)]\<rparr>)"
| cleared: "ss_phase s = Loop_clear [] \<Longrightarrow> loop_step unmarshal s (s\<lparr>ss_phase := Loop_connect\<rparr>)"
| connect_fails: "ss_phase s = Loop_connect \<Longrightarrow> loop_step unmarshal s s"
| connect: "ss_phase s = Loop_connect \<Longrightarrow>
    loop_step unmarshal s (s\<lparr>ss_phase := Loop_stream, ss_stream := Suc (ss_stream s),
      ss_beating := insert (Suc (ss_stream s)) (ss_beating s)\<rparr>)"
| beat: "n \<in> ss_beating s \<Longrightarrow>
    loop_step unmarshal s (s\<lparr>ss_heartbeats := ss_heartbeats s @ [(n, graderId (ss_worker s))]\<rparr>)"
| beat_fails: "n \<in> ss_beating s \<Longrightarrow>
    loop_step unmarshal s (s\<lparr>ss_beating := ss_beating s - {n}, ss_cancelled := insert n (ss_cancelled s)\<rparr>)"
| beat_stops: "n \<in> ss_beating s \<Longrightarrow> n \<in> ss_cancelled s \<Longrightarrow>
    loop_step unmarshal s (s\<lparr>ss_beating := ss_beating s - {n}\<rparr>)"
| requests: "ss_phase s = Loop_stream \<Longrightarrow> dispatch_all reqs (ss_worker s) = (g, ts) \<Longrightarrow>
    loop_step unmarshal s (s\<lparr>ss_worker := g, ss_tasks := ss_tasks s @ map (Pair (ss_stream s)) ts\<rparr>)"
| broken: "ss_phase s = Loop_stream \<Longrightarrow>
    loop_step unmarshal s (s\<lparr>ss_phase := Loop_register, ss_cancelled := insert (ss_stream s) (ss_cancelled s)\<rparr>)"
| others: "w_identity g = w_identity (ss_worker s) \<Longrightarrow> loop_step unmarshal s (s\<lparr>ss_worker := g\<rparr>)"

inductive_cases loop_stepE: "loop_step unmarshal s s'"

subsection \<open>Copying a log\<close>

text \<open>
  \<open>streamLog\<close>: it dials the hub, tells every second that the container is being created until the worker knows its
  id, waits for its start when that has not been seen, and copies what Docker answers, in pieces that fit its
  buffer. What Docker answers is taken with the frames of the two outputs unpacked (\<open>stdcopy.StdCopy\<close>); the reader
  is closed when the context ends, which cuts it off anywhere.
\<close>

datatype log_phase = Log_dial | Log_tell nat string | Log_tick nat | Log_enter string | Log_wait nat string
  | Log_open string | Log_copy bytes | Log_done

record log_stream =
  lg_worker :: worker
  lg_phase :: log_phase
  lg_ctx :: nat
  lg_sent :: "bytes list"

definition creating_line :: "nat \<Rightarrow> bytes" where
  "creating_line seconds = ''creating container...('' @ decimal seconds @ ''s)'' @ [CHR 0x0D]"

definition starting_line :: bytes where
  "starting_line = ''starting container...'' @ [CHR 0x0A]"

definition log_buffer :: nat where "log_buffer = 32 * 1024"

inductive log_step :: "docker \<Rightarrow> u64 \<Rightarrow> string \<Rightarrow> log_stream \<Rightarrow> log_stream \<Rightarrow> bool"
  for D :: docker and submissionId :: u64 and requestId :: string where
  dial: "lg_phase s = Log_dial \<Longrightarrow> streamLog_open submissionId requestId (lg_worker s) = (g, c, found, containerId) \<Longrightarrow>
    log_step D submissionId requestId s
      (s\<lparr>lg_worker := g, lg_ctx := c, lg_phase := (if found then Log_tell 0 containerId else Log_done)\<rparr>)"
| dial_fails: "lg_phase s = Log_dial \<Longrightarrow> streamLog_open submissionId requestId (lg_worker s) = (g, c, found, containerId) \<Longrightarrow>
    log_step D submissionId requestId s (s\<lparr>lg_worker := g, lg_ctx := c, lg_phase := Log_done\<rparr>)"
| tell: "lg_phase s = Log_tell n [] \<Longrightarrow>
    log_step D submissionId requestId s (s\<lparr>lg_sent := lg_sent s @ [creating_line n], lg_phase := Log_tick n\<rparr>)"
| tell_fails: "lg_phase s = Log_tell n [] \<Longrightarrow> log_step D submissionId requestId s (s\<lparr>lg_phase := Log_done\<rparr>)"
| created: "lg_phase s = Log_tell n containerId \<Longrightarrow> containerId \<noteq> [] \<Longrightarrow>
    log_step D submissionId requestId s (s\<lparr>lg_phase := Log_enter containerId\<rparr>)"
| tick: "lg_phase s = Log_tick n \<Longrightarrow>
    log_step D submissionId requestId s (s\<lparr>lg_phase := Log_tell (Suc n) (streamLog_poll submissionId (lg_worker s))\<rparr>)"
| tick_cancelled: "lg_phase s = Log_tick n \<Longrightarrow> ctx_cancelled (lg_worker s) (lg_ctx s) \<Longrightarrow>
    log_step D submissionId requestId s (s\<lparr>lg_phase := Log_done\<rparr>)"
| enter: "lg_phase s = Log_enter containerId \<Longrightarrow>
    streamLog_enter containerId requestId (lg_worker s) = (g, None) \<Longrightarrow>
    log_step D submissionId requestId s (s\<lparr>lg_worker := g, lg_phase := Log_open containerId\<rparr>)"
| enter_waits: "lg_phase s = Log_enter containerId \<Longrightarrow>
    streamLog_enter containerId requestId (lg_worker s) = (g, Some ch) \<Longrightarrow>
    log_step D submissionId requestId s
      (s\<lparr>lg_worker := g, lg_sent := lg_sent s @ [starting_line], lg_phase := Log_wait ch containerId\<rparr>)"
| enter_fails: "lg_phase s = Log_enter containerId \<Longrightarrow>
    streamLog_enter containerId requestId (lg_worker s) = (g, Some ch) \<Longrightarrow>
    log_step D submissionId requestId s (s\<lparr>lg_phase := Log_done\<rparr>)"
| started: "lg_phase s = Log_wait ch containerId \<Longrightarrow> streamLog_started ch (lg_worker s) = Some started \<Longrightarrow>
    log_step D submissionId requestId s (s\<lparr>lg_phase := (if started then Log_open containerId else Log_done)\<rparr>)"
| open_log: "lg_phase s = Log_open containerId \<Longrightarrow>
    log_step D submissionId requestId s
      (s\<lparr>lg_phase := (case Docker_StreamLog D containerId of Inl e \<Rightarrow> Log_done
      | Inr (Inl e) \<Rightarrow> Log_copy [] | Inr (Inr d) \<Rightarrow> Log_copy d)\<rparr>)"
| copy: "lg_phase s = Log_copy (chunk @ rest) \<Longrightarrow> chunk \<noteq> [] \<Longrightarrow> length chunk \<le> log_buffer \<Longrightarrow>
    log_step D submissionId requestId s (s\<lparr>lg_sent := lg_sent s @ [chunk], lg_phase := Log_copy rest\<rparr>)"
| copy_ends: "lg_phase s = Log_copy rest \<Longrightarrow> log_step D submissionId requestId s (s\<lparr>lg_phase := Log_done\<rparr>)"
| log_others: "log_step D submissionId requestId s (s\<lparr>lg_worker := g\<rparr>)"

definition log_start :: "worker \<Rightarrow> log_stream" where
  "log_start g = \<lparr>lg_worker = g, lg_phase = Log_dial, lg_ctx = 0, lg_sent = []\<rparr>"

subsection \<open>Invariants of the two loops\<close>

text \<open>What is left to remove after a registration is removed before a stream is opened, and old streams are cancelled.\<close>

definition session_inv :: "session \<Rightarrow> bool" where
  "session_inv s \<longleftrightarrow>
     (case ss_phase s of
        Loop_register \<Rightarrow> True
      | Loop_clear olds \<Rightarrow> set (map fst (ss_left s)) \<subseteq> set (ss_removed s) \<union> set (map fst olds)
      | _ \<Rightarrow> set (map fst (ss_left s)) \<subseteq> set (ss_removed s)) \<and>
     (\<forall>n \<in> ss_beating s. n \<le> ss_stream s \<and> (n \<in> ss_cancelled s \<or> n = ss_stream s \<and> ss_phase s = Loop_stream)) \<and>
     (\<forall>n \<in> fst ` set (ss_tasks s). 0 < n \<and> n \<le> ss_stream s) \<and> (ss_phase s = Loop_stream \<longrightarrow> 0 < ss_stream s)"

lemma session_step_inv: "loop_step unmarshal s s' \<Longrightarrow> session_inv s \<Longrightarrow> session_inv s'"
  by (induction rule: loop_step.induct) (auto simp: session_inv_def split: loop_phase.splits)

lemma session_run_inv: "(loop_step unmarshal)\<^sup>*\<^sup>* (session_start g) s \<Longrightarrow> session_inv s"
proof (induction rule: rtranclp_induct)
  case base
  then show ?case by (simp add: session_inv_def session_start_def)
qed (rule session_step_inv)

definition told :: "nat \<Rightarrow> bool \<Rightarrow> bytes list" where
  "told n waited = map creating_line [0..<n] @ (if waited then [starting_line] else [])"

lemma told_simps [simp]: "told n False @ [creating_line n] = told (Suc n) False" "told n False @ [starting_line] = told n True"
  "told 0 False = []"
  by (simp_all add: told_def)

definition copied :: "docker \<Rightarrow> bytes list \<Rightarrow> bytes \<Rightarrow> bool" where
  "copied D chunks rest \<longleftrightarrow> (\<forall>c \<in> set chunks. c \<noteq> [] \<and> length c \<le> log_buffer) \<and>
     (chunks = [] \<and> rest = [] \<or>
      (\<exists>containerId. containerId \<noteq> [] \<and> Docker_StreamLog D containerId = Inr (Inr (concat chunks @ rest))))"

definition log_inv :: "docker \<Rightarrow> log_stream \<Rightarrow> bool" where
  "log_inv D s \<longleftrightarrow>
     (case lg_phase s of
        Log_dial \<Rightarrow> lg_sent s = []
      | Log_tell n c \<Rightarrow> lg_sent s = told n False
      | Log_tick n \<Rightarrow> lg_sent s = told (Suc n) False
      | Log_enter c \<Rightarrow> c \<noteq> [] \<and> (\<exists>n. lg_sent s = told n False)
      | Log_wait ch c \<Rightarrow> c \<noteq> [] \<and> (\<exists>n. lg_sent s = told n True)
      | Log_open c \<Rightarrow> c \<noteq> [] \<and> (\<exists>n w. lg_sent s = told n w)
      | Log_copy rest \<Rightarrow> (\<exists>n w chunks. lg_sent s = told n w @ chunks \<and> copied D chunks rest)
      | Log_done \<Rightarrow> (\<exists>n w chunks rest. lg_sent s = told n w @ chunks \<and> (chunks = [] \<or> copied D chunks rest)))"

lemma told_only: "\<exists>n' w' chunks. told n w = told n' w' @ chunks \<and> (chunks = [] \<or> (\<exists>rest. copied D chunks rest))"
  by (intro exI [of _ n] exI [of _ w] exI [of _ "[]"]) simp

lemma log_inv_done: "lg_sent s = told n w \<Longrightarrow> lg_phase s = Log_done \<Longrightarrow> log_inv D s"
  by (simp add: log_inv_def) blast

lemma log_step_inv: "log_step D i r s s' \<Longrightarrow> log_inv D s \<Longrightarrow> log_inv D s'"
proof (induction rule: log_step.induct)
  case (dial s g c found containerId)
  then show ?case by (cases found) (auto simp: log_inv_def intro!: exI [of _ 0] exI [of _ False])
next
  case (dial_fails s g c found containerId)
  then show ?case by (auto simp: log_inv_def intro!: exI [of _ 0] exI [of _ False])
next
  case (tell_fails s n)
  then show ?case by (intro log_inv_done [of _ n False]) (auto simp: log_inv_def)
next
  case (tick_cancelled s n)
  then show ?case by (intro log_inv_done [of _ "Suc n" False]) (auto simp: log_inv_def)
next
  case (enter s c g)
  then show ?case by (auto simp: log_inv_def)
next
  case (enter_fails s c g ch)
  then obtain n where "lg_sent s = told n False" by (auto simp: log_inv_def)
  then show ?case by (intro log_inv_done [of _ n False]) auto
next
  case (started s ch c started)
  then obtain n where n: "lg_sent s = told n True" "c \<noteq> []" by (auto simp: log_inv_def)
  show ?case
  proof (cases started)
    case True
    then show ?thesis using n by (auto simp: log_inv_def)
  next
    case False
    then show ?thesis using n by (intro log_inv_done [of _ n True]) auto
  qed
next
  case (open_log s c)
  then obtain n w where n: "lg_sent s = told n w" "c \<noteq> []" by (auto simp: log_inv_def)
  have copy: "log_inv D (s\<lparr>lg_phase := Log_copy d\<rparr>)" if "copied D [] d" for d
    using n(1) that by (auto simp: log_inv_def intro!: exI [of _ n] exI [of _ w] exI [of _ "[]"])
  show ?case
  proof (cases "Docker_StreamLog D c")
    case (Inl e)
    then show ?thesis using n by (intro log_inv_done [of _ n w]) auto
  next
    case (Inr r)
    then show ?thesis using copy n(2) by (cases r) (auto simp: copied_def)
  qed
next
  case (copy s chunk rest)
  then obtain n w chunks where n: "lg_sent s = told n w @ chunks" "copied D chunks (chunk @ rest)"
    by (auto simp: log_inv_def)
  then have "copied D (chunks @ [chunk]) rest" using copy(2,3) by (auto simp: copied_def)
  then show ?case using n(1) by (auto simp: log_inv_def intro!: exI [of _ n] exI [of _ w])
next
  case (copy_ends s rest)
  then show ?case by (fastforce simp: log_inv_def)
next
  case (log_others s g)
  then show ?case by (cases "lg_phase s") (auto simp: log_inv_def)
qed (auto simp: log_inv_def)

lemma log_run_inv: "(log_step D i r)\<^sup>*\<^sup>* (log_start g) s \<Longrightarrow> log_inv D s"
proof (induction rule: rtranclp_induct)
  case base
  then show ?case by (simp add: log_inv_def log_start_def)
qed (rule log_step_inv)

subsection \<open>Properties\<close>

text \<open>
  C23: a viewer reads the log in order. In every run of the copying goroutine, whatever the worker, Docker and the
  hub do meanwhile, what it sent is a line per second while the container was being created, counted from 0, then at
  most one that it is being started, and then pieces that fit the buffer of what Docker sends for one container,
  asked for the last 300 lines of both its outputs and all that follows; the pieces begin where that begins and
  leave no gap.
\<close>

theorem log_in_order:
  assumes "(log_step D submissionId requestId)\<^sup>*\<^sup>* (log_start g) s"
  shows "\<exists>n waited chunks. lg_sent s = map creating_line [0..<n] @ (if waited then [starting_line] else []) @ chunks \<and>
    (\<forall>c \<in> set chunks. c \<noteq> [] \<and> length c \<le> log_buffer) \<and>
    (chunks = [] \<or> (\<exists>containerId d. containerId \<noteq> [] \<and>
      dk_ContainerLogs D \<lparr>LO_Follow = True, LO_Tail = ''300'', LO_ShowStderr = True, LO_ShowStdout = True\<rparr> containerId =
        Inr (Inr d) \<and> prefix (concat chunks) d))"
proof -
  have "\<exists>n w chunks rest. lg_sent s = told n w @ chunks \<and> (chunks = [] \<or> copied D chunks rest)"
  proof (cases "lg_phase s")
    case Log_dial
    then show ?thesis using log_run_inv [OF assms] by (auto simp: log_inv_def intro!: exI [of _ 0] exI [of _ False])
  next
    case (Log_copy rest)
    then show ?thesis using log_run_inv [OF assms] by (auto simp: log_inv_def)
  qed (use log_run_inv [OF assms] in \<open>auto simp: log_inv_def told_only\<close>)
  then obtain n w chunks rest where "lg_sent s = told n w @ chunks" "chunks = [] \<or> copied D chunks rest" by blast
  then show ?thesis
    by (intro exI [of _ n] exI [of _ w] exI [of _ chunks]) (auto simp: told_def copied_def Docker_StreamLog_def)
qed

text \<open>
  Whoever waits for a container is woken: by the report that it started, which lets the log through, and by the
  end of the submission, which ends the stream.
\<close>

theorem waiting_log_is_woken:
  assumes "streamLog_enter containerId requestId g = (g1, Some ch)" and "\<not> wt_value (w_waiters g1 ch)"
  shows "streamLog_started ch (recordDockerMetadata marshal i
       \<lparr>Docker_SubmissionId = i, Docker_ContainerId = containerId, Docker_Started = True, Docker_Created = True\<rparr> g1) =
       Some True \<and>
    (w_containerIds g1 i = Some containerId \<longrightarrow> streamLog_started ch (worker_onSubmissionFinished i g1) = Some False)"
proof -
  have "(requestId, ch) \<in> set (waiters_of g1 containerId)"
    using assms by (auto simp: streamLog_enter_def Let_def waiters_of_def put_stream_def split: if_splits)
  then have ch: "ch \<in> snd ` set (waiters_of g1 containerId)" by force
  have cancel: "w_waiters (fold cancel_ctx cs x) = w_waiters x" for cs x
    by (induction cs arbitrary: x) (auto simp: cancel_ctx_def)
  have "streamLog_started ch (recordDockerMetadata marshal i \<lparr>Docker_SubmissionId = i, Docker_ContainerId = containerId,
      Docker_Started = True, Docker_Created = True\<rparr> g1) = Some True"
    using ch(1) by (auto simp: recordDockerMetadata_def Let_def wake_def streamLog_started_def split: sum.splits)
  moreover have "streamLog_started ch (worker_onSubmissionFinished i g1) = Some False" if "w_containerIds g1 i = Some containerId"
    using that ch(1) assms(2)
    by (auto simp: worker_onSubmissionFinished_def Let_def wake_def streamLog_started_def cancel cancel_ctx_def waiters_of_def
        split: option.splits)
  ultimately show ?thesis by blast
qed

text \<open>
  Work starts on a clean machine. When a request starts a goroutine, every container the last registration
  found was removed; and at most one heartbeat stream is not cancelled, the current one.
\<close>

theorem work_waits_for_cleanup:
  assumes "(loop_step unmarshal)\<^sup>*\<^sup>* (session_start g) s"
  shows "(ss_phase s = Loop_stream \<longrightarrow> fst ` set (ss_left s) \<subseteq> set (ss_removed s)) \<and>
    (\<forall>n \<in> ss_beating s - ss_cancelled s. n = ss_stream s \<and> ss_phase s = Loop_stream)"
  using session_run_inv [OF assms] unfolding session_inv_def by (cases "ss_phase s") force+

text \<open>
  A grader that loses its stream takes its own work down. The containers of submissions it still runs are in the
  metadata it gets back when it registers again; it removes them, while their goroutines go on and their
  contexts are not cancelled.
\<close>

theorem reregistering_removes_running:
  assumes "ss_phase s = Loop_stream" and "w_cancelChs (ss_worker s) i = Some c" and "\<not> ctx_cancelled (ss_worker s) c"
    and "unmarshal v = Inr md" and "Docker_SubmissionId md = i"
  shows "\<exists>s'. (loop_step unmarshal)\<^sup>*\<^sup>* s s' \<and> Docker_ContainerId md \<in> set (ss_removed s') \<and>
    w_cancelChs (ss_worker s') i = Some c \<and> \<not> ctx_cancelled (ss_worker s') c \<and> ss_phase s' = Loop_stream"
proof -
  fix gid :: u64 and token key
  define s1 where "s1 = s\<lparr>ss_phase := Loop_register, ss_cancelled := insert (ss_stream s) (ss_cancelled s)\<rparr>"
  define s2 where "s2 = s1\<lparr>ss_worker := setIdentity gid token (ss_worker s), ss_left := [(Docker_ContainerId md, key)],
    ss_phase := Loop_clear [(Docker_ContainerId md, key)]\<rparr>"
  define s3 where "s3 = s2\<lparr>ss_phase := Loop_clear [], ss_removed := ss_removed s2 @ [Docker_ContainerId md],
      ss_deleted := ss_deleted s2 @ [(graderId (ss_worker s2), key)]\<rparr>"
  define s4 where "s4 = s3\<lparr>ss_phase := Loop_connect\<rparr>"
  define s5 where "s5 = s4\<lparr>ss_phase := Loop_stream, ss_stream := Suc (ss_stream s4), ss_beating := insert (Suc (ss_stream s4)) (ss_beating s4)\<rparr>"
  have "loop_step unmarshal s s1" unfolding s1_def by (rule loop_step.broken) fact
  moreover have "loop_step unmarshal s1 s2"
  proof -
    have "register_attempt (Inr (gid, token)) (Inr [(key, v)]) (ss_worker s1) = (setIdentity gid token (ss_worker s), Some [(key, v)])"
      by (simp add: register_attempt_def s1_def)
    from loop_step.registered [OF _ this, of unmarshal] show ?thesis by (simp add: s2_def assms(4)) (simp add: s1_def)
  qed
  moreover have "loop_step unmarshal s2 s3"
    using loop_step.clear [of s2 "[]" "Docker_ContainerId md" key "[]" unmarshal] by (simp add: s3_def) (simp add: s2_def)
  moreover have "loop_step unmarshal s3 s4" unfolding s4_def by (rule loop_step.cleared) (simp add: s3_def)
  moreover have "loop_step unmarshal s4 s5" unfolding s5_def by (rule loop_step.connect) (simp add: s4_def)
  ultimately have "(loop_step unmarshal)\<^sup>*\<^sup>* s s5"
    by (meson converse_rtranclp_into_rtranclp r_into_rtranclp)
  moreover have "ss_worker s5 = setIdentity gid token (ss_worker s)" "Docker_ContainerId md \<in> set (ss_removed s5)" "ss_phase s5 = Loop_stream"
    by (simp_all add: s5_def s4_def s3_def s2_def)
  ultimately show ?thesis using assms(2,3) by (intro exI [of _ s5]) (simp add: setIdentity_def ctx_cancelled_def)
qed

subsection \<open>Examples\<close>

text \<open>A worker that runs submission 1 in a container it saw start.\<close>

definition running_worker :: worker where
  "running_worker = new_worker\<lparr>w_cancelChs := [1 \<mapsto> 0], w_containerIds := [1 \<mapsto> ''c1''], w_containerStarted := [''c1''], w_next := 1\<rparr>"

theorem log_in_order_witness:
  "\<exists>s n waited chunks. (log_step test_docker 1 ''viewer'')\<^sup>*\<^sup>* (log_start running_worker) s \<and> lg_sent s = [''lo''] \<and>
    lg_sent s = map creating_line [0..<n] @ (if waited then [starting_line] else []) @ chunks"
proof -
  obtain g where g: "streamLog_open 1 ''viewer'' running_worker = (g, 1, True, ''c1'')" "w_containerStarted g = [''c1'']"
    by (simp add: streamLog_open_def running_worker_def new_worker_def Let_def)
  define s1 where "s1 = (log_start running_worker)\<lparr>lg_worker := g, lg_ctx := 1, lg_phase := Log_tell 0 ''c1''\<rparr>"
  let ?step = "log_step test_docker 1 ''viewer''"
  have "?step (log_start running_worker) ((log_start running_worker)\<lparr>lg_worker := g, lg_ctx := 1,
      lg_phase := (if True then Log_tell 0 ''c1'' else Log_done)\<rparr>)"
    by (rule log_step.dial) (simp_all add: log_start_def g(1))
  then have "?step (log_start running_worker) s1" by (simp add: s1_def)
  moreover have "?step s1 (s1\<lparr>lg_phase := Log_enter ''c1''\<rparr>)" by (rule log_step.created) (simp_all add: s1_def)
  moreover have "?step (s1\<lparr>lg_phase := Log_enter ''c1''\<rparr>) (s1\<lparr>lg_phase := Log_open ''c1''\<rparr>)"
    using log_step.enter [of "s1\<lparr>lg_phase := Log_enter ''c1''\<rparr>" "''c1''" "''viewer''" g]
    by (simp add: s1_def log_start_def streamLog_enter_def g(2))
  moreover have "?step (s1\<lparr>lg_phase := Log_open ''c1''\<rparr>) (s1\<lparr>lg_phase := Log_copy ''log''\<rparr>)"
    using log_step.open_log [of "s1\<lparr>lg_phase := Log_open ''c1''\<rparr>" "''c1''" test_docker] by (simp add: Docker_StreamLog_def test_docker_def)
  ultimately have run: "?step\<^sup>*\<^sup>* (log_start running_worker) (s1\<lparr>lg_phase := Log_copy ''log''\<rparr>)" by (rule rtranclp_4)
  have "?step (s1\<lparr>lg_phase := Log_copy ''log''\<rparr>) (s1\<lparr>lg_sent := [''lo''], lg_phase := Log_copy ''g''\<rparr>)"
    using log_step.copy [of "s1\<lparr>lg_phase := Log_copy ''log''\<rparr>" "''lo''" "''g''"]
    by (simp add: log_buffer_def) (simp add: s1_def log_start_def)
  with run have "?step\<^sup>*\<^sup>* (log_start running_worker) (s1\<lparr>lg_sent := [''lo''], lg_phase := Log_copy ''g''\<rparr>)"
    by (rule rtranclp.rtrancl_into_rtrancl)
  moreover from log_in_order [OF this] obtain n waited chunks where
      "lg_sent (s1\<lparr>lg_sent := [''lo''], lg_phase := Log_copy ''g''\<rparr>) =
        map creating_line [0..<n] @ (if waited then [starting_line] else []) @ chunks" by blast
  ultimately show ?thesis
    by (intro exI [of _ "s1\<lparr>lg_sent := [''lo''], lg_phase := Log_copy ''g''\<rparr>"] exI [of _ n] exI [of _ waited] exI [of _ chunks]) simp
qed

end
