(* ===== verification/ErrCodes.thy ===== *)
theory ErrCodes
  imports Interceptor
begin

section \<open>The codes of refusals: pkg/grpc/errcode.go\<close>

text \<open>
  The codes the web client switches on, and what the interceptor answers: every refusal carries one of them, and
  no auth function is ever called without what it takes from the context.
\<close>

definition error_codes :: "string list" where
  "error_codes =
    [''ADD_ASSIGNMENT'', ''ADD_COURSE'', ''ADD_USER'', ''AFTER_DUE_DATE'', ''ALREADY_IN_COURSE'',
     ''ALREADY_IN_USE'', ''BEFORE_RELEASE_DATE'', ''BIND_GITHUB_ID'', ''CANCELLED'', ''CANCELLING'',
     ''CANCEL_GRADE'', ''CANNOT_MODIFY_ROOT'', ''CANNOT_MODIFY_SELF'', ''CODE'', ''CREATE_ASSIGNMENT'',
     ''CREATE_COURSE'', ''CREATE_MANIFEST'', ''CREATE_SUBMISSION'', ''CREATE_USER'', ''DELETE_FAILED'',
     ''DESCRIPTION'', ''DIFFERENT_USER'', ''DUE_DATE'', ''EMAIL'', ''EMAIL_DIFFERENT'', ''FILE_SIZE'',
     ''GET_ALL_COURSES'', ''GET_ASSIGNMENT'', ''GET_ASSIGNMENTS'', ''GET_BRIEF'', ''GET_COURSE'',
     ''GET_COURSES'', ''GET_GITHUB_EMAILS'', ''GET_GITHUB_USER'', ''GET_REPORT'', ''GET_SIZE'',
     ''GET_SUBMISSION'', ''GET_SUBMISSIONS'', ''GET_USER'', ''GET_USERS'', ''INTERNAL_ERROR'',
     ''INVALID_ASSIGNMENT_ID'', ''INVALID_CAPTCHA'', ''INVALID_CODE'', ''INVALID_COURSE_ID'',
     ''INVALID_FILENAME'', ''INVALID_GITHUB_LOGIN'', ''INVALID_JOIN_CODE'', ''INVALID_MANIFEST_ID'',
     ''INVALID_SUBMISSION_ID'', ''INVALID_TOKEN'', ''JWT_SIGN'', ''LOCK_MANIFEST'', ''MANIFEST_EXPIRED'',
     ''MANIFEST_FILES'', ''MANIFEST_ID'', ''MEMBER_NOT_FOUND'', ''METHOD_AUTH'', ''MISSING_COURSE_ID'',
     ''NAME'', ''NICKNAME_TOO_LONG'', ''NOT_ADMIN'', ''NOT_A_SUBMITTER'', ''NOT_FOUND'', ''NOT_IN_COURSE'',
     ''NO_CAPTCHA'', ''NO_SPACE'', ''NO_VERIFIED_EMAIL'', ''OPEN_FILE'', ''PASSWORD'', ''PASSWORD_HASH'',
     ''PROTOBUF_MARSHAL'', ''QUEUED'', ''REPORT_NOT_FOUND'', ''ROLE_UNAUTHORIZED'', ''RUNNING'', ''SHORT_NAME'',
     ''SIGN_JWT'', ''STREAM_LOG'', ''STUDENT_ID_TOO_LONG'', ''SUBMISSION_FREQUENCY'', ''SUBMISSION_LIMIT'',
     ''SUBMISSION_UNAUTHORIZED'', ''SUBMITTER_NOT_IN_COURSE'', ''UPDATE_ASSIGNMENT'', ''UPDATE_BRIEF'',
     ''UPDATE_COURSE'', ''UPDATE_ENTRY'', ''UPDATE_USER'', ''USERNAME'', ''WRONG_PASSWORD'', ''WRONG_USER'']"

lemma error_codes_distinct: "distinct error_codes" and error_codes_length: "length error_codes = 92"
  by code_simp+

text \<open>The codes of the interceptor are listed.\<close>

lemma interceptor_codes [simp]:
  "''AFTER_DUE_DATE'' \<in> set error_codes"
  "''BEFORE_RELEASE_DATE'' \<in> set error_codes"
  "''INVALID_ASSIGNMENT_ID'' \<in> set error_codes"
  "''INVALID_CAPTCHA'' \<in> set error_codes"
  "''INVALID_SUBMISSION_ID'' \<in> set error_codes"
  "''INVALID_TOKEN'' \<in> set error_codes"
  "''MANIFEST_EXPIRED'' \<in> set error_codes"
  "''MANIFEST_ID'' \<in> set error_codes"
  "''METHOD_AUTH'' \<in> set error_codes"
  "''MISSING_COURSE_ID'' \<in> set error_codes"
  "''NOT_ADMIN'' \<in> set error_codes"
  "''NOT_IN_COURSE'' \<in> set error_codes"
  "''NO_CAPTCHA'' \<in> set error_codes"
  "''ROLE_UNAUTHORIZED'' \<in> set error_codes"
  "''SUBMISSION_UNAUTHORIZED'' \<in> set error_codes"
  "''WRONG_USER'' \<in> set error_codes"
  by (simp_all add: error_codes_def)

definition listed :: "error \<Rightarrow> bool" where
  "listed e \<longleftrightarrow> (\<exists>k m. e = StatusErr k m \<and> m \<in> set error_codes)"

lemma listed_simps [simp]: "listed (StatusErr k m) \<longleftrightarrow> m \<in> set error_codes" "\<not> listed Panic"
  by (auto simp: listed_def)

subsection \<open>What a chain of auth functions needs\<close>

text \<open>
  A chain is checked with the fields of the context that are set before it: user, course, member and assignment;
  \<open>b\<close> tells that the message names an assignment or a submission, so that \<open>GetCourseId\<close> sets the assignment.
\<close>

fun chain_ok :: "bool \<Rightarrow> bool \<Rightarrow> bool \<Rightarrow> bool \<Rightarrow> bool \<Rightarrow> auth_func list \<Rightarrow> bool" where
  "chain_ok b u k m s [] = True"
| "chain_ok b u k m s (F_NoopAuth # fs) = chain_ok b u k m s fs"
| "chain_ok b u k m s (F_RequireCaptcha # fs) = chain_ok b u k m s fs"
| "chain_ok b u k m s (F_RequireLogin # fs) = chain_ok b True k m s fs"
| "chain_ok b u k m s (F_GetCourseId # fs) = chain_ok b u True m (s \<or> b) fs"
| "chain_ok b u k m s (F_RequireInCourse # fs) = (u \<and> k \<and> chain_ok b u k True s fs)"
| "chain_ok b u k m s (F_RequireAdmin # fs) = (u \<and> chain_ok b u k m s fs)"
| "chain_ok b u k m s (F_CheckManifest # fs) = (u \<and> chain_ok b u k m s fs)"
| "chain_ok b u k m s (F_RequireCourseWrite # fs) = (m \<and> chain_ok b u k m s fs)"
| "chain_ok b u k m s (F_RequireSubmissionRead # fs) = (u \<and> m \<and> chain_ok b u k m s fs)"
| "chain_ok b u k m s (F_NotAfterDueDate # fs) = (m \<and> s \<and> chain_ok b u k m s fs)"

definition ctx_has :: "ctx \<Rightarrow> bool \<Rightarrow> bool \<Rightarrow> bool \<Rightarrow> bool \<Rightarrow> bool" where
  "ctx_has c u k m s \<longleftrightarrow> (u \<longrightarrow> cx_user c \<noteq> None) \<and> (k \<longrightarrow> cx_courseId c \<noteq> None) \<and> (m \<longrightarrow> cx_member c \<noteq> None) \<and>
     (s \<longrightarrow> cx_assignment c \<noteq> None)"

text \<open>The message names an assignment or a submission and no course.\<close>

definition names_assignment :: "request \<Rightarrow> bool" where
  "names_assignment req \<longleftrightarrow> rq_courseId req = None \<and> (rq_assignmentId req \<noteq> None \<or> rq_submissionId req \<noteq> None)"

lemma GetCourseId_listed:
  assumes "Svc_GetCourseId E a req c = (c', r)"
  shows "case r of Some e \<Rightarrow> listed e | None \<Rightarrow> cx_courseId c' \<noteq> None \<and> cx_user c' = cx_user c \<and> cx_member c' = cx_member c \<and>
    (names_assignment req \<longrightarrow> cx_assignment c' \<noteq> None) \<and> (cx_assignment c \<noteq> None \<longrightarrow> cx_assignment c' \<noteq> None)"
  using assms
  by (auto simp: Svc_GetCourseId_def getCourseIdFromAssignmentId_def getAssignmentIdFromSubmissionId_def Let_def
      names_assignment_def split: option.splits sum.splits prod.splits if_splits)

definition answered :: "request \<Rightarrow> auth_result \<Rightarrow> bool" where
  "answered req r \<longleftrightarrow> (case snd r of None \<Rightarrow> True | Some e \<Rightarrow> listed e \<or> rq_bearer req = Inl e)"

lemma chain_step:
  assumes "MethodAuthFunc E L a now f req c = (c1, r)" and "case r of Some e \<Rightarrow> listed e \<or> rq_bearer req = Inl e | None \<Rightarrow> answered req (run_chain E L a now req c1 fs)"
  shows "answered req (run_chain E L a now req c (f # fs))"
  using assms by (simp add: run_chain.simps(2) answered_def split: option.splits)

lemma run_chain_answered:
  assumes "chain_ok b u k m s fs" and "ctx_has c u k m s" and "b \<longrightarrow> names_assignment req"
  shows "answered req (run_chain E L a now req c fs)"
  using assms
proof (induction b u k m s fs arbitrary: c rule: chain_ok.induct)
  case (1 b u k m s)
  then show ?case by (simp add: answered_def)
next
  case (2 b u k m s fs)
  then show ?case by (intro chain_step [of _ _ _ _ F_NoopAuth _ _ c None]) (simp_all add: NoopAuth_def)
next
  case (3 b u k m s fs)
  obtain c1 r where r: "RequireCaptcha L req c = (c1, r)" by force
  then have "case r of Some e \<Rightarrow> listed e | None \<Rightarrow> c1 = c"
    by (auto simp: RequireCaptcha_def split: option.splits if_splits)
  then show ?case using 3 r by (intro chain_step [of _ _ _ _ F_RequireCaptcha _ _ c1 r]) (auto split: option.splits)
next
  case (4 b u k m s fs)
  obtain c1 r where r: "RequireLogin L a now req c = (c1, r)" by force
  then have "case r of Some e \<Rightarrow> listed e \<or> rq_bearer req = Inl e
    | None \<Rightarrow> cx_user c1 \<noteq> None \<and> cx_courseId c1 = cx_courseId c \<and> cx_member c1 = cx_member c \<and> cx_assignment c1 = cx_assignment c"
    by (auto simp: RequireLogin_def Let_def split: sum.splits if_splits)
  then show ?case using 4 r by (intro chain_step [of _ _ _ _ F_RequireLogin _ _ c1 r]) (auto simp: ctx_has_def split: option.splits)
next
  case (5 b u k m s fs)
  obtain c1 r where r: "Svc_GetCourseId E a req c = (c1, r)" by force
  note g = GetCourseId_listed [OF r]
  have "ctx_has c1 u True m (s \<or> b)" if "r = None"
    using g 5(3,4) that by (auto simp: ctx_has_def)
  then show ?case
    using 5(1,2,4) r g by (intro chain_step [of _ _ _ _ F_GetCourseId _ _ c1 r]) (cases r; simp)+
next
  case (6 b u k m s fs)
  obtain c1 r where r: "RequireInCourse E a req c = (c1, r)" by force
  then have "case r of Some e \<Rightarrow> listed e | None \<Rightarrow> cx_member c1 \<noteq> None \<and> cx_courseId c1 = cx_courseId c \<and> cx_user c1 = cx_user c \<and>
      cx_assignment c1 = cx_assignment c"
    using 6(2,3) by (auto simp: RequireInCourse_def ctx_has_def split: option.splits)
  then show ?case using 6 r by (intro chain_step [of _ _ _ _ F_RequireInCourse _ _ c1 r]) (auto simp: ctx_has_def split: option.splits)
next
  case (7 b u k m s fs)
  obtain c1 r where r: "RequireAdmin req c = (c1, r)" by force
  then have "case r of Some e \<Rightarrow> listed e | None \<Rightarrow> c1 = c"
    using 7(2,3) by (auto simp: RequireAdmin_def ctx_has_def split: option.splits if_splits)
  then show ?case using 7 r by (intro chain_step [of _ _ _ _ F_RequireAdmin _ _ c1 r]) (auto split: option.splits)
next
  case (8 b u k m s fs)
  obtain c1 r where r: "CheckManifest E a req c = (c1, r)" by force
  then have "case r of Some e \<Rightarrow> listed e | None \<Rightarrow> c1 = c"
    using 8(2,3) by (auto simp: CheckManifest_def ctx_has_def split: option.splits sum.splits if_splits)
  then show ?case using 8 r by (intro chain_step [of _ _ _ _ F_CheckManifest _ _ c1 r]) (auto split: option.splits)
next
  case (9 b u k m s fs)
  obtain c1 r where r: "RequireCourseWrite req c = (c1, r)" by force
  then have "case r of Some e \<Rightarrow> listed e | None \<Rightarrow> c1 = c"
    using 9(2,3) by (auto simp: RequireCourseWrite_def ctx_has_def split: option.splits if_splits)
  then show ?case using 9 r by (intro chain_step [of _ _ _ _ F_RequireCourseWrite _ _ c1 r]) (auto split: option.splits)
next
  case (10 b u k m s fs)
  obtain c1 r where r: "RequireSubmissionRead req c = (c1, r)" by force
  then have "case r of Some e \<Rightarrow> listed e | None \<Rightarrow> c1 = c"
    using 10(2,3) by (auto simp: RequireSubmissionRead_def ctx_has_def split: option.splits if_splits)
  then show ?case using 10 r by (intro chain_step [of _ _ _ _ F_RequireSubmissionRead _ _ c1 r]) (auto split: option.splits)
next
  case (11 b u k m s fs)
  obtain c1 r where r: "NotAfterDueDate now req c = (c1, r)" by force
  then have "case r of Some e \<Rightarrow> listed e | None \<Rightarrow> c1 = c"
    using 11(2,3) by (auto simp: NotAfterDueDate_def ctx_has_def split: option.splits if_splits)
  then show ?case using 11 r by (intro chain_step [of _ _ _ _ F_NotAfterDueDate _ _ c1 r]) (auto split: option.splits)
qed

text \<open>The methods whose chains look at the dates of the assignment.\<close>

definition window_methods :: "string list" where
  "window_methods = [''CreateSubmission'', ''CreateManifest'', ''ActivateSubmission'']"

lemma table_ok:
  assumes "(ms, fs) \<in> set authMaps" and "meth \<in> set ms"
  shows "chain_ok (meth \<in> set window_methods) False False False False fs"
  using assms unfolding authMaps_def staff_methods_def submission_methods_def admin_methods_def window_methods_def by auto

subsection \<open>Properties\<close>

text \<open>
  C30: the interceptor refuses with a code of the contract and never fails. Whatever the method, the request and
  the database, and given that the messages of the three methods with a deadline name an assignment or a submission, it
  lets the call through, answers one of the listed codes, or passes on the error of a missing bearer token;
  no auth function finds the context without the user, course, member or assignment it needs.
\<close>

theorem refusals_are_listed:
  assumes "AuthFunc E L a now req meth = (c, Some e)" and "meth \<in> set window_methods \<longrightarrow> names_assignment req"
  shows "rq_bearer req = Inl e \<or> (\<exists>k m. e = StatusErr k m \<and> m \<in> set error_codes)"
proof -
  obtain table where t: "initAuthFuncs = Inr table" using initAuthFuncs_Inr by blast
  show ?thesis
  proof (cases "map_of table meth")
    case None
    then show ?thesis using assms(1) by (auto simp: AuthFunc_def t)
  next
    case (Some fs)
    obtain ms where ms: "(ms, fs) \<in> set authMaps" "meth \<in> set ms"
      using register_all_map [of "[]" authMaps table meth fs "[]"] t Some by (auto simp: initAuthFuncs_def)
    have "answered req (run_chain E L a now req empty_ctx fs)"
      using run_chain_answered [OF table_ok [OF ms] _ assms(2)] by (simp add: ctx_has_def)
    then show ?thesis using assms(1) Some by (auto simp: AuthFunc_def t answered_def listed_def)
  qed
qed

theorem refusals_are_listed_witness:
  "\<exists>c e k m. AuthFunc mem_env test_lib (test_svc []) 100 (test_request (test_user 7) None None) ''GetCourse'' = (c, Some e) \<and>
    e = StatusErr k m \<and> m \<in> set error_codes"
proof -
  let ?req = "test_request (test_user 7) None None"
  obtain ss where "RequireLogin test_lib (test_svc []) 100 ?req empty_ctx = (empty_ctx\<lparr>cx_token := ss, cx_user := Some (test_user 7)\<rparr>, None)"
    using test_login [of 100 ?req "test_user 7" "[]" empty_ctx] by (auto simp: UserTokenValidDuration_def)
  moreover have "AuthFunc mem_env test_lib (test_svc []) 100 ?req ''GetCourse'' =
      run_chain mem_env test_lib (test_svc []) 100 ?req empty_ctx [F_RequireLogin, F_GetCourseId, F_RequireInCourse]"
    by (rule AuthFunc_chain [of "[''GetAssignment'', ''GetAssignmentsInCourse'', ''GetSubmissionsInAssignment'', ''GetLeaderboard'',
        ''HasLeaderboard'', ''GetCourse'']"]) (simp_all add: authMaps_def)
  ultimately have "\<exists>c e. AuthFunc mem_env test_lib (test_svc []) 100 ?req ''GetCourse'' = (c, Some e) \<and> rq_bearer ?req \<noteq> Inl e"
    by (simp add: run_chain.simps(2) Svc_GetCourseId_def)
  then obtain c e where e: "AuthFunc mem_env test_lib (test_svc []) 100 ?req ''GetCourse'' = (c, Some e)" "rq_bearer ?req \<noteq> Inl e"
    by blast
  have "''GetCourse'' \<in> set window_methods \<longrightarrow> names_assignment ?req" by (simp add: window_methods_def)
  from refusals_are_listed [OF e(1) this] e show ?thesis by blast
qed

end
