(* ===== verification/Spec2Isabelle.thy ===== *)
theory Spec2Isabelle
  imports Roster FileTree Worker Server Recovery Delivery Session ErrCodes
begin

text \<open>
  The autograder server: a verification development.

  The program (Go, under src/) is two binaries. \<open>cmd/autograder-server\<close> holds the accounts, courses,
  assignments and submissions of a university and serves them to a web client over gRPC-Web; uploads and
  downloads of files go over plain HTTP. \<open>cmd/autograder-grader\<close> runs on other machines, registers with the
  hub of the server, and grades submissions in Docker containers. Everything is stored in one Pebble
  database.

  A submission goes this way. The interceptor authorizes the call (\<open>Interceptor\<close>) and \<open>CreateSubmission\<close>
  (\<open>SubmissionSvc\<close>) stores the submission, moves the files out of the upload manifest (\<open>FileSvc\<close>, \<open>ManifestRepo\<close>)
  and hands it to the hub, which puts it into the pending list. The scheduler of the hub (\<open>Hub\<close>,
  \<open>Scheduling\<close>) offers it to a grader that is online, carries its tags and has room; the claim is written to
  the database (\<open>GraderRepo\<close>) and the request goes into the outbox of the grader (\<open>Mailbox\<close>), which its heartbeat stream
  drains (\<open>HubService\<close>). The grader (\<open>Session\<close>, \<open>Worker\<close>) fetches the files, runs the container (\<open>DockerGrader\<close>)
  and streams reports to the hub, which stores them (\<open>SubmissionRepo\<close>) and publishes them to the subscribers
  (\<open>Mailbox\<close>), and so to the browser (\<open>GrpcWeb\<close>).

  The layers and their theories:

  \<^item> Base. \<open>Prelude\<close> has the machine types, the error values, the theorem collections and the generic lemmas;
    \<open>Encoding\<close> the keys and prefix bounds (\<open>pkg/repository/prefix.go\<close>); \<open>Text\<close> and \<open>Paths\<close> the functions of the standard library on
    texts and paths, \<open>Paths\<close> also \<open>pkg/storage/local.go\<close>; \<open>Messages\<close> the protobuf messages as records and
    \<open>Codec\<close> the contract of their encodings.
  \<^item> Storage (\<open>pkg/repository\<close>). \<open>Merger\<close> is the merge operator, \<open>Store\<close> the interface of the database, \<open>Opening\<close>
    the upgrade of an old database. One theory per repository: \<open>Sequencer\<close>, \<open>UserRepo\<close>, \<open>CourseRepo\<close>, \<open>SubmissionRepo\<close>
    (assignments, submissions and reports), \<open>LeaderboardRepo\<close>, \<open>VerificationRepo\<close>, \<open>ManifestRepo\<close>, \<open>GraderRepo\<close>. An operation is a
    function from the database and its arguments to the database and a result; the error of every step is a branch.
  \<^item> Hub (\<open>pkg/grader/grpc\<close>). \<open>Mailbox\<close> has the report mailboxes and request outboxes, \<open>Hub\<close> the state and the
    scheduler, \<open>HubAuth\<close> the identity of graders, \<open>HubService\<close> the RPC handlers; \<open>Scheduling\<close>, \<open>HubProps\<close> and \<open>HubWork\<close>
    hold the lemmas on them. The record \<open>hub\<close> is \<open>GraderHubService\<close>; a stream handler is split into its opening and one step per
    message, so that the order of the steps is the interleaving of the goroutines. Each step runs under the mutex of
    the code.
  \<^item> Service (\<open>pkg/grpc\<close>). \<open>Token\<close> has the signed tokens, \<open>Service\<close> the state (\<open>svc\<close> is \<open>AutograderService\<close>),
    \<open>Interceptor\<close> the authorization, \<open>ErrCodes\<close> the codes of refusals, and \<open>UserSvc\<close>, \<open>CourseSvc\<close>, \<open>Base30\<close>, \<open>SubmissionSvc\<close>, \<open>FileTree\<close>
    and \<open>FileSvc\<close> the handlers; \<open>Roster\<close> the lemmas on memberships. A goroutine a handler starts is a task of the state.
  \<^item> Edges. \<open>GrpcWeb\<close> is the bridge to the browser (\<open>pkg/middleware\<close>), \<open>Mailer\<close> the SMTP session (\<open>pkg/mailer\<close>),
    \<open>Server\<close> the program of the server: \<open>--init\<close>, the checks at the start, the routers.
  \<^item> Grader. \<open>DockerGrader\<close> is \<open>pkg/grader/programming.go\<close>, \<open>Worker\<close> the state of the grader program, its
    reporter and what a request starts, \<open>Session\<close> its start, its heartbeat loop and the copying of logs. The reporter, the
    two goroutines of a grading, the loop and the log are \<open>inductive\<close> step relations.
  \<^item> Compositions. \<open>Delivery\<close> joins the Docker grader, the reporter and the hub; \<open>Recovery\<close> joins the constructors of all
    services over the database of an earlier run.

  Interfaces. \<open>store\<close> (in \<open>Store\<close>) is what the repositories rely on: reads and writes of the contents
  \<open>view db\<close>, sorted scans, batches, merges, lawful encodings; any write may fail. \<open>store_up\<close> extends it with a store that does not
  fail. Both are interpreted on \<open>mem_env\<close>, an association list with the merge operator of the code.
  \<open>value_merger\<close> gives the result of merging in any order, interpreted on the three kinds of values. \<open>id_source\<close> is the
  contract of a sequencer and \<open>claim_registry\<close> that of the claims of graders; \<open>store\<close> provides both with the code's
  operations (sublocales \<open>seq\<close> and \<open>claims\<close>). \<open>closable_buffer\<close> is the contract of an outbox.

  What the groups of lemmas show. Of the repositories: lookups after writes, agreement of the indexes
  with an abstract map, fresh ids. Of the hub: the pending list and its index agree over any sequence of
  operations, no grader gets more than its concurrency, a pass leaves nothing it could place, only the owner of a
  submission reports on it, the end of a submission removes its claim and its marker, work of a lost grader is
  queued once. Of the service: who may call what, what a refusal says, sessions and codes, what is admitted,
  uploads within their limit and folder, both copies of a membership agree. Of the edges: bodies and status reach the browser,
  mail and credentials go over an encrypted connection, a server with unset secrets does not start. Of the grader: a grading
  ends with one final report, reports arrive in order, logs are copied without gaps from
  where Docker starts them, 300 lines back. Of the compositions: the result of
  a container is what the server stores, and a restarted server regrades every unfinished submission.
  Theorems named for what goes wrong (\<open>refused_heartbeat_strands_work\<close>, \<open>overlapping_uploads_add_up\<close>, \<open>final_report_can_be_lost\<close>,
  \<open>late_container_report_panics\<close>, \<open>dbInit_rerun_keeps_password\<close>, \<open>reregistering_removes_running\<close> and others) state
  behaviour of the code that differs from what its comments say.

  Bounds and termination. Ids, sizes and counts are 64-bit words that wrap as in Go, and no definition runs on fuel. Loops
  whose end is not plain from their arguments are functions with measures: the retries of \<open>publish_loop\<close>, which end because the
  subscriber only ever takes out of the channel, the scheduler, base 30 and the truncation of logs. \<open>GetNextId_loop\<close> is a
  \<open>partial_function\<close>: at the very end of the 64-bit range, where the limit wraps, it need not return, and
  \<open>GetNextId_returns\<close> shows that it returns below. Waiting for a lock is the error \<open>Diverges\<close>. The goroutines that never
  end are step relations, and what holds of them is shown of every reachable state.

  Parameters. The database, the encodings of messages, HMAC and JWT, bcrypt, the captcha and GitHub clients, the mail
  server, Docker, the HTTP client, the file system, viper and the readings of the clock and of random numbers are arguments of the
  definitions. What is relied on is a hypothesis (\<open>codec_ok\<close>, \<open>jwt_ok\<close>, the assumptions of \<open>store\<close>), and
  the witnesses give instances.

  Not modelled. The generated protobuf and gRPC code, but for the messages. The Mailgun mailer, one call of a client library. Logging,
  metrics, profiling and the embedded web assets, which no handler reads back. \<open>pkg/repository/export.go\<close>, an interface
  without operations. Of the programs, the command line and the printed templates, dialling and listening,
  and the keepalive options; of the CORS library only the origins it is given; of Docker the building of images and the CPU share
  (a float). Timers are the order of steps: that a step is enabled does not mean that its timer fires in time.
  A data race of unsynchronised goroutines inside one step is out of reach of the model.
\<close>

end
